(* ===== verification/Prelude.thy ===== *)
theory Prelude
  imports Main
begin

text \<open>
  Shared vocabulary of the development.

  Python's exceptions are values of \<open>py_error\<close>: one constructor per exception
  class the modelled scripts raise or catch, carrying the constant part of the
  message (the interpolated parts of f-strings are not modelled).  A fallible
  function returns \<open>py_error + 'a\<close>; \<open>bindE\<close> runs the rest of a function only when
  the first step did not raise, so that every raise and early return of the source
  is a branch of the model.  \<open>StructError\<close> stands for \<open>struct.error\<close>, which the
  library raises when a buffer is too short for a format or a value does not fit
  its field.
\<close>

datatype py_error =
    ValueError string
  | RuntimeError string
  | OSError string
  | StructError
  | IndexError
  | KeyError
  | TypeError
  | UnicodeError
  | InvalidMachO string
  | FormatError string
  | MigrationError string
  | Busy string
  | UnsafeState string
  | SubprocessError
  | ExpatError
  | AttributeError
  | ProviderError string
  | ProvisionError string
  | CalledProcessError
  | TimeoutExpired
  | BadZipFile
  | SystemExit string

type_synonym 'a result = "py_error + 'a"

subsection \<open>Sequencing fallible steps\<close>

definition bindE :: "'e + 'a \<Rightarrow> ('a \<Rightarrow> 'e + 'b) \<Rightarrow> 'e + 'b" where
  "bindE m f = (case m of Inl e \<Rightarrow> Inl e | Inr x \<Rightarrow> f x)"

lemma bindE_simps [simp]:
  "bindE (Inl e) f = Inl e"
  "bindE (Inr x) f = f x"
  by (simp_all add: bindE_def)

lemma bindE_eq_Inr [simp]:
  "bindE m f = Inr y \<longleftrightarrow> (\<exists>x. m = Inr x \<and> f x = Inr y)"
  by (cases m) auto

lemma Inr_eq_bindE [simp]:
  "Inr y = bindE m f \<longleftrightarrow> (\<exists>x. m = Inr x \<and> f x = Inr y)"
  by (cases m) auto

lemma bindE_eq_Inl:
  "bindE m f = Inl e \<longleftrightarrow> m = Inl e \<or> (\<exists>x. m = Inr x \<and> f x = Inl e)"
  by (cases m) auto

lemma bindE_assoc: "bindE (bindE m f) g = bindE m (\<lambda>x. bindE (f x) g)"
  by (cases m) auto

lemma bindE_cong [fundef_cong]:
  assumes "m = m'" and "\<And>x. m' = Inr x \<Longrightarrow> f x = f' x"
  shows "bindE m f = bindE m' f'"
  using assms by (cases m') auto

lemma if_Inl_eq_Inr [simp]:
  "((if c then Inl e else k) = Inr y) \<longleftrightarrow> \<not> c \<and> k = Inr y"
  "((if c then k else Inl e) = Inr y) \<longleftrightarrow> c \<and> k = Inr y"
  by auto

text \<open>A loop whose body may raise: the fold stops at the first error.\<close>

fun foldE :: "('a \<Rightarrow> 's \<Rightarrow> 'e + 's) \<Rightarrow> 'a list \<Rightarrow> 's \<Rightarrow> 'e + 's" where
  "foldE f [] s = Inr s"
| "foldE f (x # xs) s = bindE (f x s) (foldE f xs)"

lemma foldE_append: "foldE f (xs @ ys) s = bindE (foldE f xs s) (foldE f ys)"
  by (induction xs arbitrary: s) (auto simp: bindE_def split: sum.splits)

lemma foldE_checks: "foldE f xs () = Inr () \<longleftrightarrow> (\<forall>x \<in> set xs. f x () = Inr ())"
  by (induction xs) (auto simp: bindE_def split: sum.splits)

lemma foldE_invariant:
  assumes "foldE f xs s = Inr t" and "I s"
    and "\<And>x s t. x \<in> set xs \<Longrightarrow> I s \<Longrightarrow> f x s = Inr t \<Longrightarrow> I t"
  shows "I t"
  using assms
proof (induction xs arbitrary: s)
  case Nil
  then show ?case by simp
next
  case (Cons x xs)
  then obtain s' where s': "f x s = Inr s'" "foldE f xs s' = Inr t" by auto
  with Cons.prems have "I s'" by auto
  then show ?case using Cons.IH [OF s'(2)] Cons.prems(3) by auto
qed

fun mapE :: "('a \<Rightarrow> 'e + 'b) \<Rightarrow> 'a list \<Rightarrow> 'e + 'b list" where
  "mapE f [] = Inr []"
| "mapE f (x # xs) = bindE (f x) (\<lambda>y. bindE (mapE f xs) (\<lambda>ys. Inr (y # ys)))"

lemma mapE_eq_Inr:
  "mapE f xs = Inr ys \<longleftrightarrow> list_all2 (\<lambda>x y. f x = Inr y) xs ys"
  by (induction xs arbitrary: ys) (auto simp: list_all2_Cons1)

lemma mapE_length: "mapE f xs = Inr ys \<Longrightarrow> length ys = length xs"
  by (auto simp: mapE_eq_Inr dest: list_all2_lengthD)

lemma mapE_set: "mapE f xs = Inr ys \<Longrightarrow> y \<in> set ys \<Longrightarrow> \<exists>x \<in> set xs. f x = Inr y"
  by (fastforce simp: mapE_eq_Inr list_all2_conv_all_nth in_set_conv_nth)

subsection \<open>Optional and numeric helpers\<close>

text \<open>Python's \<open>next((x for x in xs if p(x)), None)\<close>.\<close>

lemma find_SomeD: "List.find P xs = Some x \<Longrightarrow> x \<in> set xs \<and> P x"
  by (induction xs) (auto split: if_splits)

lemma find_exists: "x \<in> set xs \<Longrightarrow> P x \<Longrightarrow> \<exists>y. List.find P xs = Some y"
  by (induction xs) auto

text \<open>
  \<open>(value + alignment - 1) & ~(alignment - 1)\<close>, for a power of two, is rounding up
  to a multiple of the alignment.
\<close>

definition round_up :: "nat \<Rightarrow> nat \<Rightarrow> nat" where
  "round_up v a = (v + a - 1) div a * a"

lemma round_up_ge:
  assumes "0 < a"
  shows "v \<le> round_up v a"
proof -
  from assms have "(v + a - 1) mod a < a" by simp
  moreover have "(v + a - 1) div a * a + (v + a - 1) mod a = v + a - 1" by simp
  ultimately show ?thesis using assms unfolding round_up_def by linarith
qed

lemma round_up_less:
  assumes "0 < a"
  shows "round_up v a < v + a"
proof -
  have "(v + a - 1) div a * a \<le> v + a - 1" by simp
  with assms show ?thesis unfolding round_up_def by linarith
qed

lemma round_up_dvd [simp]: "a dvd round_up v a"
  by (simp add: round_up_def)

end
