(* ===== verification/Bytes.thy ===== *)
theory Bytes
  imports Prelude "HOL-Library.Word" "HOL-Library.Code_Target_Nat"
begin

text \<open>
  Python's \<open>bytes\<close> and \<open>bytearray\<close> as lists of 8-bit words, and the parts of
  \<open>struct\<close> and slicing the scripts use.  \<open>slice d i n\<close> is \<open>d[i:i+n]\<close> (it truncates
  at the end, as Python does); \<open>splice d i bs\<close> is the assignment
  \<open>d[i:i+len(bs)] = bs\<close>; \<open>fld e k d i\<close> is the unsigned \<open>k\<close>-byte field at \<open>i\<close>;
  \<open>room\<close> is the length check of \<open>unpack_from\<close> / \<open>pack_into\<close>.  Unpacked unsigned
  fields are natural numbers, as Python's integers do not wrap.
\<close>

type_synonym byte = "8 word"
type_synonym bytes = "byte list"

datatype endian = LE | BE

lemma unat_byte: "unat (b :: byte) < 256"
  using unsigned_less [of b] by simp

subsection \<open>Encoding and decoding of unsigned fields\<close>

fun le_nat :: "bytes \<Rightarrow> nat" where
  "le_nat [] = 0"
| "le_nat (b # bs) = unat b + 256 * le_nat bs"

fun le_bytes :: "nat \<Rightarrow> nat \<Rightarrow> bytes" where
  "le_bytes 0 v = []"
| "le_bytes (Suc k) v = of_nat v # le_bytes k (v div 256)"

definition dec :: "endian \<Rightarrow> bytes \<Rightarrow> nat" where
  "dec e bs = (case e of LE \<Rightarrow> le_nat bs | BE \<Rightarrow> le_nat (rev bs))"

definition enc :: "endian \<Rightarrow> nat \<Rightarrow> nat \<Rightarrow> bytes" where
  "enc e k v = (case e of LE \<Rightarrow> le_bytes k v | BE \<Rightarrow> rev (le_bytes k v))"

lemma length_le_bytes [simp]: "length (le_bytes k v) = k"
  by (induction k arbitrary: v) auto

lemma length_enc [simp]: "length (enc e k v) = k"
  by (simp add: enc_def split: endian.split)

lemma le_nat_bound: "le_nat bs < 256 ^ length bs"
proof (induction bs)
  case Nil
  then show ?case by simp
next
  case (Cons b bs)
  have "unat b < 256" by (rule unat_byte)
  moreover from Cons have "256 * (le_nat bs + 1) \<le> 256 * 256 ^ length bs"
    by (intro mult_le_mono2) simp
  ultimately show ?case by simp
qed

lemma dec_bound: "dec e bs < 256 ^ length bs"
  using le_nat_bound [of bs] le_nat_bound [of "rev bs"]
  by (cases e) (simp_all add: dec_def)

lemma le_nat_le_bytes: "v < 256 ^ k \<Longrightarrow> le_nat (le_bytes k v) = v"
proof (induction k arbitrary: v)
  case 0
  then show ?case by simp
next
  case (Suc k)
  have "v div 256 < 256 ^ k" using Suc.prems by (simp add: less_mult_imp_div_less mult.commute)
  moreover have "unat (of_nat v :: 8 word) = v mod 256" by (simp add: unat_of_nat)
  ultimately show ?case by (simp add: Suc.IH)
qed

lemma le_bytes_le_nat: "le_bytes (length bs) (le_nat bs) = bs"
proof (induction bs)
  case Nil
  then show ?case by simp
next
  case (Cons b bs)
  have "unat b < 256" by (rule unat_byte)
  moreover have "(of_nat (unat b + 256 * le_nat bs) :: 8 word) = b"
  proof -
    have "(of_nat 256 :: 8 word) = 0" by simp
    then show ?thesis by (simp only: of_nat_add of_nat_mult) simp
  qed
  ultimately show ?case using Cons.IH by simp
qed

lemma dec_enc: "v < 256 ^ k \<Longrightarrow> dec e (enc e k v) = v"
  by (cases e) (simp_all add: dec_def enc_def le_nat_le_bytes)

lemma enc_dec: "enc e (length bs) (dec e bs) = bs"
  using le_bytes_le_nat [of bs] le_bytes_le_nat [of "rev bs"]
  by (cases e) (simp_all add: dec_def enc_def)

subsection \<open>Slices and slice assignment\<close>

definition slice :: "'a list \<Rightarrow> nat \<Rightarrow> nat \<Rightarrow> 'a list" where
  "slice d i n = take n (drop i d)"

definition splice :: "'a list \<Rightarrow> nat \<Rightarrow> 'a list \<Rightarrow> 'a list" where
  "splice d i bs = take i d @ bs @ drop (i + length bs) d"

lemma length_slice: "length (slice d i n) = min n (length d - i)"
  by (simp add: slice_def min.commute)

lemma length_slice_in [simp]: "i + n \<le> length d \<Longrightarrow> length (slice d i n) = n"
  by (simp add: slice_def)

lemma length_splice [simp]: "i + length bs \<le> length d \<Longrightarrow> length (splice d i bs) = length d"
  by (simp add: splice_def)

lemma slice_0 [simp]: "slice d 0 (length d) = d"
  by (simp add: slice_def)

lemma slice_append_left: "i + n \<le> length d \<Longrightarrow> slice (d @ d') i n = slice d i n"
  by (simp add: slice_def)

lemma slice_append_right: "slice (d @ d') (length d + i) n = slice d' i n"
  by (simp add: slice_def)

lemma slice_slice: "j + m \<le> n \<Longrightarrow> slice (slice d i n) j m = slice d (i + j) m"
  by (simp add: slice_def take_drop min_def add.commute)

lemma slice_join: "slice d i (m + n) = slice d i m @ slice d (i + m) n"
  by (simp add: slice_def take_add add.commute)

lemma slice_splice_same: "i + length bs \<le> length d \<Longrightarrow> slice (splice d i bs) i (length bs) = bs"
  by (simp add: slice_def splice_def)

lemma nth_splice:
  assumes "i + length bs \<le> length d" and "j < length d"
  shows "splice d i bs ! j = (if i \<le> j \<and> j < i + length bs then bs ! (j - i) else d ! j)"
proof (cases "j < i")
  case True
  with assms show ?thesis by (simp add: splice_def nth_append)
next
  case False
  with assms show ?thesis by (auto simp: splice_def nth_append min_absorb2 intro!: arg_cong [of _ _ "nth d"])
qed

lemma slice_splice_other:
  assumes "i + length bs \<le> length d" and "j + n \<le> i \<or> i + length bs \<le> j"
  shows "slice (splice d i bs) j n = slice d j n"
proof (rule nth_equalityI)
  show len: "length (slice (splice d i bs) j n) = length (slice d j n)"
    using assms(1) by (simp add: length_slice)
  fix k assume "k < length (slice (splice d i bs) j n)"
  then have k: "k < n" "j + k < length d" using assms(1) by (auto simp: length_slice)
  then show "slice (splice d i bs) j n ! k = slice d j n ! k"
    using assms by (auto simp: slice_def nth_splice)
qed

subsection \<open>Fields of a buffer\<close>

definition fld :: "endian \<Rightarrow> nat \<Rightarrow> bytes \<Rightarrow> nat \<Rightarrow> nat" where
  "fld e k d i = dec e (slice d i k)"

definition put :: "endian \<Rightarrow> nat \<Rightarrow> bytes \<Rightarrow> nat \<Rightarrow> nat \<Rightarrow> bytes" where
  "put e k d i v = splice d i (enc e k v)"

abbreviation u16 :: "endian \<Rightarrow> bytes \<Rightarrow> nat \<Rightarrow> nat" where "u16 e \<equiv> fld e 2"
abbreviation u32 :: "endian \<Rightarrow> bytes \<Rightarrow> nat \<Rightarrow> nat" where "u32 e \<equiv> fld e 4"
abbreviation u64 :: "endian \<Rightarrow> bytes \<Rightarrow> nat \<Rightarrow> nat" where "u64 e \<equiv> fld e 8"

definition room :: "bytes \<Rightarrow> nat \<Rightarrow> nat \<Rightarrow> unit result" where
  "room d i n = (if i + n \<le> length d then Inr () else Inl StructError)"

definition unpack_from :: "endian \<Rightarrow> nat \<Rightarrow> bytes \<Rightarrow> nat \<Rightarrow> nat result" where
  "unpack_from e k d i = (if i + k \<le> length d then Inr (fld e k d i) else Inl StructError)"

definition pack_into :: "endian \<Rightarrow> nat \<Rightarrow> bytes \<Rightarrow> nat \<Rightarrow> nat \<Rightarrow> bytes result" where
  "pack_into e k d i v =
     (if i + k \<le> length d \<and> v < 256 ^ k then Inr (put e k d i v) else Inl StructError)"

lemma room_eq_Inr [simp]: "room d i n = Inr u \<longleftrightarrow> i + n \<le> length d"
  by (simp add: room_def)

lemma unpack_from_eq_Inr [simp]:
  "unpack_from e k d i = Inr v \<longleftrightarrow> i + k \<le> length d \<and> v = fld e k d i"
  by (auto simp: unpack_from_def)

lemma pack_into_eq_Inr [simp]:
  "pack_into e k d i v = Inr d' \<longleftrightarrow> i + k \<le> length d \<and> v < 256 ^ k \<and> d' = put e k d i v"
  by (auto simp: pack_into_def)

lemma fld_bound: "fld e k d i < 256 ^ k"
proof -
  have "fld e k d i < 256 ^ length (slice d i k)" unfolding fld_def by (rule dec_bound)
  also have "\<dots> \<le> 256 ^ k" by (rule power_increasing) (simp_all add: length_slice)
  finally show ?thesis .
qed

lemma u32_bound: "u32 e d i < 2 ^ 32"
  using fld_bound [of e 4 d i] by simp

lemma fld_cong: "slice d i k = slice d' j k \<Longrightarrow> fld e k d i = fld e k d' j"
  by (simp add: fld_def)

lemma fld_slice: "j + k \<le> n \<Longrightarrow> fld e k (slice d i n) j = fld e k d (i + j)"
  by (simp add: fld_def slice_slice)

text \<open>
  The interface between the byte buffer and the code that edits headers: a reader and
  a writer of one field width, with the laws the editing proofs rely on.
\<close>

locale field_store =
  fixes rd :: "bytes \<Rightarrow> nat \<Rightarrow> nat" and wr :: "bytes \<Rightarrow> nat \<Rightarrow> nat \<Rightarrow> bytes" and w :: nat
  assumes wr_len: "i + w \<le> length d \<Longrightarrow> length (wr d i v) = length d"
    and rd_wr: "i + w \<le> length d \<Longrightarrow> v < 256 ^ w \<Longrightarrow> rd (wr d i v) i = v"
    and wr_frame: "i + w \<le> length d \<Longrightarrow> j + n \<le> i \<or> i + w \<le> j \<Longrightarrow>
        slice (wr d i v) j n = slice d j n"
    and rd_slice: "slice d i w = slice d' j w \<Longrightarrow> rd d i = rd d' j"
begin

lemma rd_other: "i + w \<le> length d \<Longrightarrow> j + w \<le> i \<or> i + w \<le> j \<Longrightarrow> rd (wr d i v) j = rd d j"
  by (rule rd_slice) (rule wr_frame)

lemma wr_fld: "i + w \<le> length d \<Longrightarrow> j + k \<le> i \<or> i + w \<le> j \<Longrightarrow> fld e k (wr d i v) j = fld e k d j"
  by (rule fld_cong) (rule wr_frame)

end

lemma put_field_store: "field_store (fld e k) (put e k) k"
proof unfold_locales
  fix i v :: nat and d :: bytes
  assume "i + k \<le> length d" and "v < 256 ^ k"
  then show "fld e k (put e k d i v) i = v"
    using slice_splice_same [of i "enc e k v" d] by (simp add: fld_def put_def dec_enc)
qed (auto simp: put_def slice_splice_other fld_def)

interpretation le16: field_store "fld LE 2" "put LE 2" 2 by (rule put_field_store)
interpretation le32: field_store "fld LE 4" "put LE 4" 4 by (rule put_field_store)
interpretation le64: field_store "fld LE 8" "put LE 8" 8 by (rule put_field_store)
interpretation be32: field_store "fld BE 4" "put BE 4" 4 by (rule put_field_store)

lemmas put_len [simp] = field_store.wr_len [OF put_field_store]
lemmas fld_put = field_store.rd_wr [OF put_field_store]
lemmas slice_put = field_store.wr_frame [OF put_field_store]
lemmas fld_put_other = field_store.wr_fld [OF put_field_store]

subsection \<open>Text in buffers\<close>

text \<open>Hexadecimal rendering of a byte string (\<open>bytes.hex\<close>, \<open>hexdigest\<close>).\<close>

definition hex_digits :: string where
  "hex_digits = ''0123456789abcdef''"

definition hex_byte :: "byte \<Rightarrow> string" where
  "hex_byte b = [hex_digits ! (unat b div 16), hex_digits ! (unat b mod 16)]"

definition hex :: "bytes \<Rightarrow> string" where
  "hex bs = concat (map hex_byte bs)"

lemma length_hex [simp]: "length (hex bs) = 2 * length bs"
  by (induction bs) (simp_all add: hex_def hex_byte_def)

lemma hex_digits_nth: "n < 16 \<Longrightarrow> hex_digits ! n \<in> set hex_digits"
  by (rule nth_mem) (simp add: hex_digits_def)

lemma set_hex: "set (hex bs) \<subseteq> set hex_digits"
proof (induction bs)
  case Nil
  then show ?case by (simp add: hex_def)
next
  case (Cons b bs)
  have "unat b < 256" by (rule unat_byte)
  then have "unat b div 16 < 16" "unat b mod 16 < 16" by (simp_all add: less_mult_imp_div_less)
  with Cons show ?case by (auto simp: hex_def hex_byte_def intro: hex_digits_nth)
qed

text \<open>\<open>data.split(b"\\0", 1)[0]\<close>: the bytes before the first NUL.\<close>

definition until_nul :: "bytes \<Rightarrow> bytes" where
  "until_nul bs = takeWhile (\<lambda>b. b \<noteq> 0) bs"

end
