(* ===== verification/BootTrust.thy ===== *)
theory BootTrust
  imports Bytes
begin

text \<open>
  \<^verbatim>\<open>layout/usr/macOS/bin/macws_boot_trust.py\<close>: extracting CodeDirectory hashes from
  Mach-O files and restoring them to the trust cache.  A stream is its content;
  \<open>seek\<close> and \<open>read\<close> are slices of it.  The hash functions of \<open>hashlib\<close> are a
  parameter \<open>H\<close>: the algorithm (named by its tag) and the bytes give the digest.
\<close>

subsection \<open>Bounded reads\<close>

definition read_at :: "bytes \<Rightarrow> nat \<Rightarrow> nat \<Rightarrow> nat \<Rightarrow> nat \<Rightarrow> bytes result" where
  "read_at d off len lower upper =
     (if off < lower \<or> off + len > upper
      then Inl (InvalidMachO ''out-of-range signature/load command'')
      else let data = slice d off len
           in if length data \<noteq> len then Inl (InvalidMachO ''truncated file'') else Inr data)"

lemma read_at_eq_Inr [simp]:
  "read_at d off len lower upper = Inr x \<longleftrightarrow>
     lower \<le> off \<and> off + len \<le> upper \<and> length (slice d off len) = len \<and> x = slice d off len"
  by (auto simp: read_at_def Let_def)

subsection \<open>CodeDirectory hashes\<close>

datatype hash_alg = Sha1 | Sha256 | Sha384

definition digest_size :: "hash_alg \<Rightarrow> nat" where
  "digest_size a = (case a of Sha1 \<Rightarrow> 20 | Sha256 \<Rightarrow> 32 | Sha384 \<Rightarrow> 48)"

text \<open>\<open>{1: ('sha1', 20, 1), 2: ('sha256', 32, 3), 3: ('sha256', 20, 2), 4: ('sha384', 48, 4)}\<close>\<close>

definition algorithms :: "nat \<Rightarrow> (hash_alg \<times> nat \<times> nat) option" where
  "algorithms t =
     (if t = 1 then Some (Sha1, 20, 1)
      else if t = 2 then Some (Sha256, 32, 3)
      else if t = 3 then Some (Sha256, 20, 2)
      else if t = 4 then Some (Sha384, 48, 4)
      else None)"

type_synonym hasher = "hash_alg \<Rightarrow> bytes \<Rightarrow> bytes"

text \<open>
  The chunked read: \<open>for position in range(0, length, 65536)\<close>, feeding each chunk to
  the digest.  \<open>update\<close> calls hash the concatenation, which the loop accumulates.
\<close>

function digest_chunks :: "bytes \<Rightarrow> nat \<Rightarrow> nat \<Rightarrow> nat \<Rightarrow> bytes \<Rightarrow> bytes result" where
  "digest_chunks d off len position acc =
     (if position < len
      then bindE (read_at d (off + position) (min 65536 (len - position)) off (off + len))
             (\<lambda>chunk. digest_chunks d off len (position + 65536) (acc @ chunk))
      else Inr acc)"
  by pat_completeness auto
termination
  by (relation "measure (\<lambda>(d, off, len, position, acc). len - position)") auto

declare digest_chunks.simps [simp del]

definition directory_hash :: "hasher \<Rightarrow> bytes \<Rightarrow> nat \<Rightarrow> nat \<Rightarrow> (nat \<times> nat \<times> string) result" where
  "directory_hash H d off available =
     bindE (read_at d off 44 off (off + available)) (\<lambda>header.
     let magic = u32 BE header 0; len = u32 BE header 4 in
     if magic \<noteq> 0xfade0c02 \<or> len < 44 \<or> len > available
     then Inl (InvalidMachO ''invalid CodeDirectory'')
     else
     let hash_size = unat (header ! 36); hash_type = unat (header ! 37) in
     case algorithms hash_type of
       None \<Rightarrow> Inl (InvalidMachO ''unsupported CodeDirectory hash type/size'')
     | Some (alg, sz, rank) \<Rightarrow>
       if hash_size \<noteq> sz
       then Inl (InvalidMachO ''unsupported CodeDirectory hash type/size'')
       else
       let hash_offset = u32 BE header 16; ident_offset = u32 BE header 20;
           special = u32 BE header 24; slots = u32 BE header 28 in
       if ident_offset \<ge> len \<or> hash_offset > len \<or> special * hash_size > hash_offset \<or>
          hash_offset + slots * hash_size > len
       then Inl (InvalidMachO ''invalid CodeDirectory hash table'')
       else bindE (digest_chunks d off len 0 []) (\<lambda>content.
         Inr (rank, hash_type, take 40 (hex (H alg content)))))"

subsection \<open>One slice\<close>

record code_record =
  arch :: string
  ctype :: nat
  chash :: string

text \<open>\<open>LC_CODE_SIGNATURE\<close> (0x1d): its slice-relative file offset and size.\<close>

definition signature_command ::
  "bytes \<Rightarrow> endian \<Rightarrow> nat \<Rightarrow> nat \<Rightarrow> nat \<Rightarrow> nat \<Rightarrow> nat \<Rightarrow> (nat \<times> nat) option \<Rightarrow> (nat \<times> nat) result" where
  "signature_command d e base sz command_bytes position len signature =
     (if len \<noteq> 16 \<or> signature \<noteq> None
      then Inl (InvalidMachO ''invalid/duplicate LC_CODE_SIGNATURE'')
      else bindE (read_at d (position + 8) 8 base (base + 32 + command_bytes)) (\<lambda>field.
        let off = u32 e field 0; sig_size = u32 e field 4 in
        if off < 32 + command_bytes \<or> off + sig_size > sz
        then Inl (InvalidMachO ''signature outside slice'')
        else Inr (base + off, sig_size)))"

text \<open>The load-command loop: position and the signature found so far.\<close>

fun signature_walk ::
  "bytes \<Rightarrow> endian \<Rightarrow> nat \<Rightarrow> nat \<Rightarrow> nat \<Rightarrow> nat \<Rightarrow> nat \<Rightarrow> (nat \<times> nat) option
     \<Rightarrow> (nat \<times> (nat \<times> nat) option) result" where
  "signature_walk d e base sz command_bytes 0 position signature = Inr (position, signature)"
| "signature_walk d e base sz command_bytes (Suc n) position signature =
     (let commands_end = base + 32 + command_bytes in
      bindE (read_at d position 8 (base + 32) commands_end) (\<lambda>head.
      let command = u32 e head 0; len = u32 e head 4 in
      if len < 8 \<or> len mod 4 \<noteq> 0 \<or> position + len > commands_end
      then Inl (InvalidMachO ''invalid load command length'')
      else if command = 0x1d
      then bindE (signature_command d e base sz command_bytes position len signature)
             (\<lambda>found. signature_walk d e base sz command_bytes n (position + len) (Some found))
      else signature_walk d e base sz command_bytes n (position + len) signature))"

text \<open>The SuperBlob index: the best CodeDirectory so far, by rank.\<close>

definition is_code_directory_slot :: "nat \<Rightarrow> bool" where
  "is_code_directory_slot slot \<longleftrightarrow> slot = 0 \<or> (0x1000 \<le> slot \<and> slot < 0x1005)"

definition better :: "(nat \<times> nat \<times> string) option \<Rightarrow> nat \<times> nat \<times> string \<Rightarrow> (nat \<times> nat \<times> string) option" where
  "better best candidate =
     (case best of None \<Rightarrow> Some candidate
      | Some b \<Rightarrow> if fst candidate > fst b then Some candidate else best)"

definition index_entry ::
  "hasher \<Rightarrow> bytes \<Rightarrow> nat \<Rightarrow> nat \<Rightarrow> nat \<Rightarrow> nat \<Rightarrow> (nat \<times> nat \<times> string) option
     \<Rightarrow> (nat \<times> nat \<times> string) option result" where
  "index_entry H d off len count index best =
     bindE (read_at d (off + 12 + index * 8) 8 off (off + len)) (\<lambda>entry.
     let slot = u32 BE entry 0; relative = u32 BE entry 4 in
     if \<not> is_code_directory_slot slot then Inr best
     else if relative < 12 + count * 8 \<or> relative \<ge> len
     then Inl (InvalidMachO ''CodeDirectory overlaps index/outside signature'')
     else bindE (directory_hash H d (off + relative) (len - relative))
            (\<lambda>candidate. Inr (better best candidate)))"

text \<open>The end of \<open>slice_hash\<close>: from the signature blob to the record.\<close>

definition embedded_signature ::
  "hasher \<Rightarrow> bytes \<Rightarrow> nat \<Rightarrow> nat \<Rightarrow> string \<Rightarrow> code_record option result" where
  "embedded_signature H d off sig_size arch_name =
     bindE (read_at d off 12 off (off + sig_size)) (\<lambda>blob.
     let magic = u32 BE blob 0; len = u32 BE blob 4; count = u32 BE blob 8 in
     if magic \<noteq> 0xfade0cc0 \<or> len > sig_size \<or> count > 64 \<or> len < 12 + count * 8
     then Inl (InvalidMachO ''invalid embedded signature SuperBlob'')
     else bindE (foldE (index_entry H d off len count) [0..<count] None) (\<lambda>best.
     case best of None \<Rightarrow> Inl (InvalidMachO ''signature contains no CodeDirectory'')
     | Some (_, t, h) \<Rightarrow> Inr (Some \<lparr>arch = arch_name, ctype = t, chash = h\<rparr>)))"

text \<open>
  The beginning of \<open>slice_hash\<close>: byte order, architecture name, command count and
  command bytes of a 64-bit arm64 image, \<open>None\<close> where the function returns early.
\<close>

definition slice_header :: "bytes \<Rightarrow> nat \<Rightarrow> nat \<Rightarrow> (endian \<times> string \<times> nat \<times> nat) option result" where
  "slice_header d base sz =
     (let top = base + sz in
      bindE (read_at d base 4 base top) (\<lambda>magic.
      if magic \<noteq> [0xcf, 0xfa, 0xed, 0xfe] \<and> magic \<noteq> [0xfe, 0xed, 0xfa, 0xcf] then Inr None
      else
      let e = (if magic = [0xcf, 0xfa, 0xed, 0xfe] then LE else BE) in
      bindE (read_at d base 32 base top) (\<lambda>header.
      if u32 e header 4 \<noteq> 0x0100000c then Inr None
      else
      let subtype = u32 e header 8 mod 0x1000000 in
      if subtype \<noteq> 0 \<and> subtype \<noteq> 1 \<and> subtype \<noteq> 2
      then Inl (InvalidMachO ''unsupported arm64 subtype'')
      else
      let arch_name = (if subtype = 2 then ''arm64e'' else ''arm64'');
          count = u32 e header 16; command_bytes = u32 e header 20 in
      if count > 65536 \<or> command_bytes > 4 * 1024 * 1024 \<or> base + 32 + command_bytes > top
      then Inl (InvalidMachO ''invalid load command table'')
      else Inr (Some (e, arch_name, count, command_bytes)))))"

definition slice_hash :: "hasher \<Rightarrow> bytes \<Rightarrow> nat \<Rightarrow> nat \<Rightarrow> code_record option result" where
  "slice_hash H d base sz =
     bindE (slice_header d base sz) (\<lambda>hdr.
     case hdr of None \<Rightarrow> Inr None
     | Some (e, arch_name, count, command_bytes) \<Rightarrow>
     bindE (signature_walk d e base sz command_bytes count (base + 32) None) (\<lambda>(position, signature).
     if position \<noteq> base + 32 + command_bytes
     then Inl (InvalidMachO ''load command count/size mismatch'')
     else case signature of None \<Rightarrow> Inr None
     | Some (off, sig_size) \<Rightarrow> embedded_signature H d off sig_size arch_name))"

subsection \<open>Whole files\<close>

definition thin_magics :: "bytes list" where
  "thin_magics = [[0xce, 0xfa, 0xed, 0xfe], [0xcf, 0xfa, 0xed, 0xfe],
                  [0xfe, 0xed, 0xfa, 0xce], [0xfe, 0xed, 0xfa, 0xcf]]"

definition fat_magics :: "bytes list" where
  "fat_magics = [[0xca, 0xfe, 0xba, 0xbe], [0xbe, 0xba, 0xfe, 0xca],
                 [0xca, 0xfe, 0xba, 0xbf], [0xbf, 0xba, 0xfe, 0xca]]"

definition MAGICS :: "bytes list" where
  "MAGICS = thin_magics @ fat_magics"

text \<open>One row of the fat table: \<open>(cpu, subtype, offset, length)\<close>, 32 or 64 bit.\<close>

definition fat_fields :: "endian \<Rightarrow> bool \<Rightarrow> bytes \<Rightarrow> nat \<times> nat \<times> nat \<times> nat" where
  "fat_fields e wide row =
     (u32 e row 0, u32 e row 4,
      if wide then u64 e row 8 else u32 e row 8,
      if wide then u64 e row 16 else u32 e row 12)"

definition fat_row ::
  "hasher \<Rightarrow> bytes \<Rightarrow> nat \<Rightarrow> endian \<Rightarrow> bool \<Rightarrow> nat \<Rightarrow> nat \<Rightarrow> code_record list
     \<Rightarrow> code_record list result" where
  "fat_row H d sz e wide count index acc =
     (let entry_size = (if wide then 32 else 20) in
      bindE (read_at d (8 + index * entry_size) entry_size 0 sz) (\<lambda>row.
      case fat_fields e wide row of (cpu, subtype, off, len) \<Rightarrow>
      if off < 8 + count * entry_size \<or> off + len > sz
      then Inl (InvalidMachO ''fat slice outside file'')
      else if cpu = 0x0100000c
      then bindE (slice_hash H d off len) (\<lambda>rec.
        case rec of None \<Rightarrow> Inr acc
        | Some r \<Rightarrow>
          let expected = (if subtype mod 0x1000000 = 2 then ''arm64e'' else ''arm64'') in
          if arch r \<noteq> expected
          then Inl (InvalidMachO ''fat architecture/header mismatch'')
          else Inr (acc @ [r]))
      else Inr acc))"

definition code_hashes :: "hasher \<Rightarrow> bytes \<Rightarrow> nat \<Rightarrow> code_record list result" where
  "code_hashes H d sz =
     (let magic = take 4 d in
      if magic \<notin> set MAGICS then Inr []
      else if magic \<in> set fat_magics then
        let e = (if take 2 magic = [0xca, 0xfe] then BE else LE);
            wide = (magic = [0xca, 0xfe, 0xba, 0xbf] \<or> magic = [0xbf, 0xba, 0xfe, 0xca]) in
        bindE (read_at d 4 4 0 sz) (\<lambda>field.
        let count = u32 e field 0; entry_size = (if wide then 32 else 20) in
        if count > 64 \<or> 8 + count * entry_size > sz
        then Inl (InvalidMachO ''invalid fat table'')
        else foldE (fat_row H d sz e wide count) [0..<count] [])
      else bindE (slice_hash H d 0 sz) (\<lambda>rec.
        case rec of None \<Rightarrow> Inr [] | Some r \<Rightarrow> Inr [r]))"


subsection \<open>The chunked digest is the digest of the whole directory\<close>

lemma digest_chunks_eq:
  assumes "off + len \<le> length d"
  shows "digest_chunks d off len position acc = Inr (acc @ slice d (off + position) (len - position))"
  using assms
proof (induction d off len position acc rule: digest_chunks.induct)
  case (1 d off len position acc)
  show ?case
  proof (cases "position < len")
    case True
    let ?n = "min 65536 (len - position)"
    have read: "read_at d (off + position) ?n off (off + len) = Inr (slice d (off + position) ?n)"
      using True "1.prems" by simp
    have "len - position = ?n + (len - (position + 65536))" by simp
    then have "slice d (off + position) (len - position) =
        slice d (off + position) ?n @ slice d (off + position + ?n) (len - (position + 65536))"
      by (metis slice_join)
    moreover have "slice d (off + position + ?n) (len - (position + 65536)) =
        slice d (off + (position + 65536)) (len - (position + 65536))"
      by (cases "65536 \<le> len - position") (simp_all add: slice_def add.assoc)
    ultimately show ?thesis
      using True read "1.IH" [OF True read] "1.prems"
      by (simp add: digest_chunks.simps [of d off len position acc])
  next
    case False
    then show ?thesis by (simp add: digest_chunks.simps slice_def)
  qed
qed

lemma digest_chunks_SomeD:
  assumes "digest_chunks d off len position acc = Inr x" and "position < len"
  shows "off + len \<le> length d"
  using assms
proof (induction d off len position acc rule: digest_chunks.induct)
  case (1 d off len position acc)
  let ?n = "min 65536 (len - position)"
  from "1.prems" obtain chunk where
    read: "read_at d (off + position) ?n off (off + len) = Inr chunk"
    and rest: "digest_chunks d off len (position + 65536) (acc @ chunk) = Inr x"
    by (auto simp: digest_chunks.simps [of d off len position acc])
  show ?case
  proof (cases "position + 65536 < len")
    case True
    with "1.IH" [OF "1.prems"(2) read rest] show ?thesis by blast
  next
    case False
    then have n: "?n = len - position" using "1.prems"(2) by simp
    have "length (slice d (off + position) (len - position)) = len - position"
      using read n by simp
    then show ?thesis using "1.prems"(2) by (simp add: length_slice min_def split: if_splits)
  qed
qed

lemma directory_hash_Inr:
  assumes "directory_hash H d off available = Inr (rank, t, h)"
  obtains alg dsize where "algorithms t = Some (alg, dsize, rank)"
    and "44 \<le> u32 BE d (off + 4)" and "u32 BE d (off + 4) \<le> available"
    and "off + u32 BE d (off + 4) \<le> length d"
    and "h = take 40 (hex (H alg (slice d off (u32 BE d (off + 4)))))"
proof -
  let ?hd = "slice d off 44"
  let ?t = "unat (?hd ! 37)"
  have len: "u32 BE ?hd 4 = u32 BE d (off + 4)" by (simp add: fld_slice)
  from assms obtain alg dsize where
    a: "algorithms ?t = Some (alg, dsize, rank)" "t = ?t"
    and l: "44 \<le> u32 BE d (off + 4)" "u32 BE d (off + 4) \<le> available"
    and c: "bindE (digest_chunks d off (u32 BE d (off + 4)) 0 [])
              (\<lambda>content. Inr (rank, ?t, take 40 (hex (H alg content)))) = Inr (rank, t, h)"
    by (auto simp: directory_hash_def Let_def len split: option.splits prod.splits)
  from c obtain x where x: "digest_chunks d off (u32 BE d (off + 4)) 0 [] = Inr x" by auto
  then have o: "off + u32 BE d (off + 4) \<le> length d"
    by (rule digest_chunks_SomeD) (use l in simp)
  then have "h = take 40 (hex (H alg (slice d off (u32 BE d (off + 4)))))"
    using c digest_chunks_eq [OF o, of 0 "[]"] by simp
  with a l o show thesis by (intro that) auto
qed

subsection \<open>The record is the strongest CodeDirectory\<close>

lemma index_entry_None:
  "index_entry H d off len count i best =
     bindE (index_entry H d off len count i None)
       (\<lambda>c. Inr (case c of None \<Rightarrow> best | Some x \<Rightarrow> better best x))"
proof (cases "read_at d (off + 12 + i * 8) 8 off (off + len)")
  case (Inl a)
  then show ?thesis by (simp add: index_entry_def)
next
  case (Inr entry)
  let ?dh = "directory_hash H d (off + u32 BE entry 4) (len - u32 BE entry 4)"
  show ?thesis
    by (cases ?dh) (simp_all add: index_entry_def Inr Let_def better_def)
qed

lemma better_max:
  "better best c = Some b \<Longrightarrow>
     (b = c \<or> best = Some b) \<and> fst c \<le> fst b \<and> (\<forall>b'. best = Some b' \<longrightarrow> fst b' \<le> fst b)"
  by (auto simp: better_def split: option.splits if_splits)

lemma index_fold_best:
  assumes "foldE (index_entry H d off len count) js best = Inr (Some b)"
  shows "(best = Some b \<or> (\<exists>i \<in> set js. index_entry H d off len count i None = Inr (Some b)))
    \<and> (\<forall>i \<in> set js. \<forall>c. index_entry H d off len count i None = Inr (Some c) \<longrightarrow> fst c \<le> fst b)
    \<and> (\<forall>b'. best = Some b' \<longrightarrow> fst b' \<le> fst b)"
  using assms
proof (induction js arbitrary: best)
  case Nil
  then show ?case by simp
next
  case (Cons i js)
  from Cons.prems obtain best' where
    step: "index_entry H d off len count i best = Inr best'"
    and rest: "foldE (index_entry H d off len count) js best' = Inr (Some b)" by auto
  from step obtain c where
    c: "index_entry H d off len count i None = Inr c"
    and best': "best' = (case c of None \<Rightarrow> best | Some x \<Rightarrow> better best x)"
    by (subst (asm) index_entry_None) auto
  show ?case
  proof (cases c)
    case None
    with Cons.IH [OF rest] c best' show ?thesis by auto
  next
    case (Some x)
    then have "best' \<noteq> None" using best' Some
      by (cases best) (auto simp add: better_def simp del: not_None_eq split: if_splits)
    then obtain b1 where b1: "best' = Some b1" unfolding not_None_eq ..
    with Some best' have m: "(b1 = x \<or> best = Some b1) \<and> fst x \<le> fst b1 \<and>
        (\<forall>b'. best = Some b' \<longrightarrow> fst b' \<le> fst b1)"
      by (intro better_max) simp
    from Cons.IH [OF rest] b1 have "fst b1 \<le> fst b" by simp
    with Cons.IH [OF rest] m b1 c Some show ?thesis by force
  qed
qed

text \<open>One turn of the loop, when the walk as a whole succeeds.\<close>

definition signature_step ::
  "bytes \<Rightarrow> endian \<Rightarrow> nat \<Rightarrow> nat \<Rightarrow> nat \<Rightarrow> nat \<Rightarrow> (nat \<times> nat) option \<Rightarrow> (nat \<times> nat) option \<Rightarrow> bool" where
  "signature_step d e base sz cb p sig sig' \<longleftrightarrow>
     (if u32 e d p = 0x1d
      then sig = None \<and> (\<exists>a l. sig' = Some (base + a, l) \<and> 32 + cb \<le> a \<and> a + l \<le> sz)
      else sig' = sig)"

lemma signature_walk_SucD:
  assumes "signature_walk d e base sz cb (Suc n) p sig = Inr r"
  obtains sig' where "signature_step d e base sz cb p sig sig'"
    and "8 \<le> u32 e d (p + 4)" and "p + u32 e d (p + 4) \<le> base + 32 + cb"
    and "signature_walk d e base sz cb n (p + u32 e d (p + 4)) sig' = Inr r"
proof -
  have f: "u32 e (slice d p 8) 0 = u32 e d p" "u32 e (slice d p 8) 4 = u32 e d (p + 4)"
    by (simp_all add: fld_slice)
  from assms show thesis
    by (cases sig) (auto simp: Let_def f signature_step_def signature_command_def not_less not_le split: if_splits intro!: that)
qed

lemma signature_walk_bounds:
  assumes "signature_walk d e base sz cb n p sig = Inr (p', Some (off, len))"
    and "\<And>a l. sig = Some (a, l) \<Longrightarrow> base + 32 + cb \<le> a \<and> a + l \<le> base + sz"
  shows "base + 32 + cb \<le> off \<and> off + len \<le> base + sz"
  using assms
proof (induction n arbitrary: p sig)
  case 0
  then show ?case by simp
next
  case (Suc n)
  from Suc.prems(1) obtain sig' where
    step: "signature_step d e base sz cb p sig sig'"
    and rest: "signature_walk d e base sz cb n (p + u32 e d (p + 4)) sig' = Inr (p', Some (off, len))"
    by (rule signature_walk_SucD)
  show ?case
    by (rule Suc.IH [OF rest])
      (use step Suc.prems(2) in \<open>fastforce simp: signature_step_def split: if_splits\<close>)
qed

lemma embedded_signature_SomeD:
  assumes "embedded_signature H d off sig_size a = Inr r"
  obtains len count rank rec where "r = Some rec" and "arch rec = a" and "len \<le> sig_size" and "count \<le> 64"
    and "foldE (index_entry H d off len count) [0..<count] None = Inr (Some (rank, ctype rec, chash rec))"
  using assms
  by (auto simp: embedded_signature_def Let_def not_less split: option.split_asm intro!: that)

lemma slice_header_SomeD:
  "slice_header d base sz = Inr (Some (e, a, count, cb)) \<Longrightarrow>
     (a = ''arm64e'' \<or> a = ''arm64'') \<and> 32 + cb \<le> sz"
  by (auto simp: slice_header_def Let_def not_less split: if_split_asm)

lemma slice_hash_SomeD:
  assumes "slice_hash H d base sz = Inr (Some r)"
  obtains a off sig_size where
    "a = ''arm64e'' \<or> a = ''arm64''" and "base + 32 \<le> off" and "off + sig_size \<le> base + sz"
    and "embedded_signature H d off sig_size a = Inr (Some r)"
proof -
  from assms obtain e a count cb p off sig_size where
    hdr: "slice_header d base sz = Inr (Some (e, a, count, cb))"
    and walk: "signature_walk d e base sz cb count (base + 32) None = Inr (p, Some (off, sig_size))"
    and rest: "embedded_signature H d off sig_size a = Inr (Some r)"
    by (auto simp: slice_hash_def split: option.split_asm prod.split_asm)
  have "base + 32 + cb \<le> off \<and> off + sig_size \<le> base + sz"
    by (rule signature_walk_bounds [OF walk]) simp
  with slice_header_SomeD [OF hdr] rest show thesis by (intro that [of a off sig_size]) auto
qed

subsection \<open>A slice is judged by its own bytes only\<close>

lemma read_at_shift:
  "hi \<le> sz \<Longrightarrow> read_at (slice d base sz) p n lo hi = read_at d (base + p) n (base + lo) (base + hi)"
  by (auto simp: read_at_def Let_def slice_slice not_less)

lemma digest_chunks_shift:
  "off + len \<le> sz \<Longrightarrow>
     digest_chunks (slice d base sz) off len p acc = digest_chunks d (base + off) len p acc"
proof (induction "slice d base sz" off len p acc rule: digest_chunks.induct)
  case (1 off len p acc)
  have "read_at (slice d base sz) (off + p) (min 65536 (len - p)) off (off + len) =
      read_at d (base + off + p) (min 65536 (len - p)) (base + off) (base + off + len)"
    using read_at_shift [OF "1.prems", of d base "off + p"] by (simp add: add.assoc)
  then show ?case
    using "1.hyps" "1.prems"
    by (auto intro: bindE_cong simp: digest_chunks.simps [of "slice d base sz" off len p acc]
        digest_chunks.simps [of d "base + off" len p acc])
qed

lemma directory_hash_shift:
  assumes "off + available \<le> sz"
  shows "directory_hash H (slice d base sz) off available = directory_hash H d (base + off) available"
proof -
  have "read_at (slice d base sz) off 44 off (off + available) =
      read_at d (base + off) 44 (base + off) (base + off + available)"
    using read_at_shift [OF assms, of d base off] by (simp add: add.assoc)
  moreover have "digest_chunks (slice d base sz) off l 0 [] = digest_chunks d (base + off) l 0 []"
    if "\<not> available < l" for l
    using that assms by (intro digest_chunks_shift) simp
  ultimately show ?thesis
    unfolding directory_hash_def by (auto intro!: bindE_cong simp: Let_def split: option.split)
qed

lemma index_entry_shift:
  assumes "off + len \<le> sz"
  shows "index_entry H (slice d base sz) off len count i best = index_entry H d (base + off) len count i best"
proof -
  have "read_at (slice d base sz) (off + 12 + i * 8) 8 off (off + len) =
      read_at d (base + off + 12 + i * 8) 8 (base + off) (base + off + len)"
    using read_at_shift [OF assms, of d base "off + 12 + i * 8"] by (simp add: add.assoc)
  moreover have "directory_hash H (slice d base sz) (off + r) (len - r) =
      directory_hash H d (base + off + r) (len - r)" if "r < len" for r
    using directory_hash_shift [of "off + r" "len - r" sz] that assms by (simp add: add.assoc)
  ultimately show ?thesis
    unfolding index_entry_def by (auto intro!: bindE_cong simp: Let_def)
qed

lemma embedded_signature_shift:
  assumes "off + sig_size \<le> sz"
  shows "embedded_signature H (slice d base sz) off sig_size a = embedded_signature H d (base + off) sig_size a"
proof -
  have "read_at (slice d base sz) off 12 off (off + sig_size) =
      read_at d (base + off) 12 (base + off) (base + off + sig_size)"
    using read_at_shift [OF assms, of d base off] by (simp add: add.assoc)
  moreover have "index_entry H (slice d base sz) off len count = index_entry H d (base + off) len count"
    if "len \<le> sig_size" for len count
    using that assms by (intro ext index_entry_shift) simp
  ultimately show ?thesis
    unfolding embedded_signature_def by (auto intro!: bindE_cong simp: Let_def)
qed

definition reloc :: "nat \<Rightarrow> nat \<times> nat \<Rightarrow> nat \<times> nat" where
  "reloc base x = (base + fst x, snd x)"

lemma signature_command_shift:
  assumes "32 + cb \<le> sz"
  shows "signature_command d e base sz cb (base + p) len (map_option (reloc base) sig) =
    bindE (signature_command (slice d base sz) e 0 sz cb p len sig) (\<lambda>x. Inr (reloc base x))"
proof -
  have "read_at (slice d base sz) (p + 8) 8 0 (32 + cb) = read_at d (base + p + 8) 8 base (base + 32 + cb)"
    using read_at_shift [OF assms, of d base "p + 8" 8 0] by (simp add: add.assoc)
  then show ?thesis
    by (cases sig) (auto simp: signature_command_def Let_def bindE_assoc reloc_def intro!: bindE_cong)
qed

lemma signature_walk_shift:
  assumes "32 + cb \<le> sz"
  shows "signature_walk d e base sz cb n (base + p) (map_option (reloc base) sig) =
    bindE (signature_walk (slice d base sz) e 0 sz cb n p sig)
      (\<lambda>r. Inr (base + fst r, map_option (reloc base) (snd r)))"
proof (induction n arbitrary: p sig)
  case 0
  then show ?case by simp
next
  case (Suc n)
  let ?r = "\<lambda>r. Inr (base + fst r, map_option (reloc base) (snd r))"
  have rd: "read_at (slice d base sz) p 8 32 (32 + cb) = read_at d (base + p) 8 (base + 32) (base + 32 + cb)"
    using read_at_shift [OF assms, of d base p 8 32] by (simp add: add.assoc)
  have ih: "signature_walk d e base sz cb n (base + p + l) (map_option (reloc base) s) =
    bindE (signature_walk (slice d base sz) e 0 sz cb n (p + l) s) ?r" for l s
    using Suc.IH [of "p + l" s] by (simp add: add.assoc)
  have found: "bindE (signature_command d e base sz cb (base + p) len (map_option (reloc base) sig))
      (\<lambda>x. signature_walk d e base sz cb n (base + p + l) (Some x)) =
    bindE (bindE (signature_command (slice d base sz) e 0 sz cb p len sig)
      (\<lambda>x. signature_walk (slice d base sz) e 0 sz cb n (p + l) (Some x))) ?r" for len l
    using ih [of l "Some _", simplified]
    by (simp add: signature_command_shift [OF assms] bindE_assoc)
  have end': "base + p + l > base + 32 + cb \<longleftrightarrow> p + l > 32 + cb" for l by linarith
  show ?case
    unfolding signature_walk.simps(2) Let_def add_0 rd end' bindE_assoc
    by (rule bindE_cong [OF refl]) (simp only: found ih bindE_simps split: if_split, simp)
qed

lemma slice_header_shift:
  "slice_header (slice d base sz) 0 sz = slice_header d base sz"
  using read_at_shift [OF order_refl, of d base sz 0 _ 0]
  by (auto simp: slice_header_def Let_def intro!: bindE_cong)

text \<open>
  The record of a slice depends on the bytes of that slice alone: judging it inside a
  larger file gives the same record, the same early return or the same error as judging the
  extracted slice as a file of its own.
\<close>

theorem slice_hash_local:
  "slice_hash H d base sz = slice_hash H (slice d base sz) 0 sz"
proof (cases "slice_header d base sz")
  case (Inl e)
  then show ?thesis by (simp add: slice_hash_def slice_header_shift)
next
  case (Inr hdr)
  show ?thesis
  proof (cases hdr)
    case None
    with Inr show ?thesis by (simp add: slice_hash_def slice_header_shift)
  next
    case (Some h)
    obtain e a count cb where h: "h = (e, a, count, cb)" by (cases h)
    have cb: "32 + cb \<le> sz" using slice_header_SomeD Inr Some h by blast
    let ?w = "signature_walk (slice d base sz) e 0 sz cb count 32 None"
    have w: "signature_walk d e base sz cb count (base + 32) None =
        bindE ?w (\<lambda>r. Inr (base + fst r, map_option (reloc base) (snd r)))"
      using signature_walk_shift [OF cb, of d e base count 32 None] by simp
    have "embedded_signature H d (base + off) l a = embedded_signature H (slice d base sz) off l a"
      if "?w = Inr (q, Some (off, l))" for q off l
      using signature_walk_bounds [OF that] by (intro embedded_signature_shift [symmetric]) simp
    then show ?thesis
      by (auto simp: slice_hash_def slice_header_shift Inr Some h w bindE_assoc reloc_def
          intro!: bindE_cong split: option.split)
  qed
qed

subsection \<open>Properties\<close>

definition hash_sizes :: "hasher \<Rightarrow> bool" where
  "hash_sizes H \<longleftrightarrow> (\<forall>a bs. length (H a bs) = digest_size a)"

definition valid_record :: "code_record \<Rightarrow> bool" where
  "valid_record r \<longleftrightarrow>
     (arch r = ''arm64'' \<or> arch r = ''arm64e'') \<and> ctype r \<in> {1, 2, 3, 4} \<and>
     length (chash r) = 40 \<and> set (chash r) \<subseteq> set hex_digits"

lemma directory_hash_valid:
  assumes "directory_hash H d off available = Inr (rank, t, h)" and "hash_sizes H"
  shows "t \<in> {1, 2, 3, 4} \<and> length h = 40 \<and> set h \<subseteq> set hex_digits"
proof -
  from assms(1) obtain alg dsize where a: "algorithms t = Some (alg, dsize, rank)"
    and h: "h = take 40 (hex (H alg (slice d off (u32 BE d (off + 4)))))"
    by (rule directory_hash_Inr)
  have "20 \<le> length (H alg x)" for x
    using assms(2) by (cases alg) (simp_all add: hash_sizes_def digest_size_def)
  then have "length h = 40" unfolding h by simp
  moreover have "set h \<subseteq> set hex_digits" unfolding h using set_hex set_take_subset by fast
  moreover have "t \<in> {1, 2, 3, 4}" using a by (auto simp: algorithms_def split: if_splits)
  ultimately show ?thesis by blast
qed

lemma index_entry_SomeD:
  assumes "index_entry H d off len count i None = Inr (Some c)"
  obtains relative where "is_code_directory_slot (u32 BE d (off + 12 + i * 8))"
    and "relative = u32 BE d (off + 16 + i * 8)" and "12 + count * 8 \<le> relative" and "relative < len"
    and "directory_hash H d (off + relative) (len - relative) = Inr c"
proof -
  have "u32 BE (slice d (off + 12 + i * 8) 8) 0 = u32 BE d (off + 12 + i * 8)"
    "u32 BE (slice d (off + 12 + i * 8) 8) 4 = u32 BE d (off + 16 + i * 8)"
    by (simp_all add: fld_slice algebra_simps)
  then show thesis
    using assms by (auto simp: index_entry_def Let_def better_def not_less not_le split: if_split_asm intro!: that)
qed

lemma slice_hash_valid:
  assumes "slice_hash H d base sz = Inr (Some r)" and "hash_sizes H"
  shows "valid_record r"
proof -
  from assms(1) obtain a off sig_size where a: "a = ''arm64e'' \<or> a = ''arm64''"
    and es: "embedded_signature H d off sig_size a = Inr (Some r)" by (rule slice_hash_SomeD)
  from es obtain len count rank where ar: "arch r = a"
    and f: "foldE (index_entry H d off len count) [0..<count] None = Inr (Some (rank, ctype r, chash r))"
    by (rule embedded_signature_SomeD) auto
  from index_fold_best [OF f] obtain i where
    "index_entry H d off len count i None = Inr (Some (rank, ctype r, chash r))" by auto
  then obtain relative where
    "directory_hash H d (off + relative) (len - relative) = Inr (rank, ctype r, chash r)"
    by (rule index_entry_SomeD) auto
  from directory_hash_valid [OF this assms(2)] a ar show ?thesis by (auto simp: valid_record_def)
qed

lemma code_hashes_valid_records:
  assumes "hash_sizes H" and "code_hashes H d sz = Inr rs"
  shows "\<forall>r \<in> set rs. valid_record r"
proof (cases "take 4 d \<in> set fat_magics")
  case True
  have row: "\<forall>r \<in> set t. valid_record r"
    if "fat_row H d sz e wide count i s = Inr t" "\<forall>r \<in> set s. valid_record r" for e wide count i s t
    using that slice_hash_valid [OF _ assms(1)]
    by (auto simp: fat_row_def Let_def split: prod.split_asm option.split_asm if_split_asm)
  from True assms(2) obtain e wide count where
    "foldE (fat_row H d sz e wide count) [0..<count] [] = Inr rs"
    by (auto simp: code_hashes_def MAGICS_def Let_def)
  then show ?thesis by (rule foldE_invariant) (auto dest: row)
next
  case False
  with assms(2) show ?thesis
    by (auto simp: code_hashes_def Let_def dest!: slice_hash_valid [OF _ assms(1)]
        split: option.split_asm if_split_asm)
qed

text \<open>
  Every record \<open>code_hashes\<close> extracts from a file, thin or fat, names an arm64
  architecture, carries one of the four supported hash types and a CDHash of exactly 40
  lower-case hexadecimal digits, which is what the manifest check and the trust cache
  accept.
\<close>

theorem code_hashes_valid:
  assumes "hash_sizes H" and "code_hashes H d sz = Inr rs"
  shows "\<forall>r \<in> set rs. valid_record r"
  using assms by (rule code_hashes_valid_records)

text \<open>Where things stand in a slice, read directly off its bytes.\<close>

fun command_at :: "bytes \<Rightarrow> endian \<Rightarrow> nat \<Rightarrow> nat \<Rightarrow> nat" where
  "command_at d e p 0 = p"
| "command_at d e p (Suc k) = command_at d e (p + u32 e d (p + 4)) k"

definition slot_at :: "bytes \<Rightarrow> nat \<Rightarrow> nat \<Rightarrow> nat" where
  "slot_at d off i = u32 BE d (off + 12 + i * 8)"

definition directory_at :: "bytes \<Rightarrow> nat \<Rightarrow> nat \<Rightarrow> nat" where
  "directory_at d off i = off + u32 BE d (off + 16 + i * 8)"

definition directory_rank :: "bytes \<Rightarrow> nat \<Rightarrow> nat" where
  "directory_rank d q = (case algorithms (unat (d ! (q + 37))) of None \<Rightarrow> 0 | Some (_, _, rank) \<Rightarrow> rank)"

lemma signature_walk_command:
  assumes "signature_walk d e base sz cb n p sig = Inr (p', Some (off, len))"
  shows "p' = command_at d e p n \<and>
    (sig = Some (off, len) \<and> (\<forall>j < n. u32 e d (command_at d e p j) \<noteq> 0x1d) \<or>
     sig = None \<and> (\<exists>k < n. off = base + u32 e d (command_at d e p k + 8) \<and> len = u32 e d (command_at d e p k + 12) \<and>
       (\<forall>j < n. u32 e d (command_at d e p j) = 0x1d \<longleftrightarrow> j = k)))"
  using assms
proof (induction n arbitrary: p sig)
  case 0
  then show ?case by simp
next
  case (Suc n)
  have f: "u32 e (slice d p 8) 0 = u32 e d p" "u32 e (slice d p 8) 4 = u32 e d (p + 4)"
    "u32 e (slice d (p + 8) 8) 0 = u32 e d (p + 8)" "u32 e (slice d (p + 8) 8) 4 = u32 e d (p + 12)"
    by (simp_all add: fld_slice add.assoc)
  show ?case
  proof (cases "u32 e d p = 0x1d")
    case True
    with Suc.prems have none: "sig = None" and
      rest: "signature_walk d e base sz cb n (p + u32 e d (p + 4)) (Some (base + u32 e d (p + 8), u32 e d (p + 12))) =
        Inr (p', Some (off, len))"
      by (cases sig; auto simp: Let_def f signature_command_def split: if_splits)+
    from Suc.IH [OF rest] have e: "p' = command_at d e p (Suc n)" "off = base + u32 e d (p + 8)" "len = u32 e d (p + 12)"
      and no: "\<forall>j < n. u32 e d (command_at d e (p + u32 e d (p + 4)) j) \<noteq> 0x1d" by auto
    have "u32 e d (command_at d e p j) = 0x1d \<longleftrightarrow> j = 0" if "j < Suc n" for j
      using True no that by (cases j) auto
    with none e show ?thesis by (intro conjI disjI2 exI [of _ 0]) auto
  next
    case False
    with Suc.prems have "signature_walk d e base sz cb n (p + u32 e d (p + 4)) sig = Inr (p', Some (off, len))"
      by (auto simp: Let_def f split: if_splits)
    from Suc.IH [OF this] show ?thesis
    proof (elim conjE disjE exE)
      assume h: "p' = command_at d e (p + u32 e d (p + 4)) n" "sig = Some (off, len)"
        "\<forall>j < n. u32 e d (command_at d e (p + u32 e d (p + 4)) j) \<noteq> 0x1d"
      have "u32 e d (command_at d e p j) \<noteq> 0x1d" if "j < Suc n" for j
        using False h(3) that by (cases j) auto
      with h show ?thesis by simp
    next
      fix k
      assume h: "p' = command_at d e (p + u32 e d (p + 4)) n" "sig = None" "k < n"
        "off = base + u32 e d (command_at d e (p + u32 e d (p + 4)) k + 8)"
        "len = u32 e d (command_at d e (p + u32 e d (p + 4)) k + 12)"
        "\<forall>j < n. u32 e d (command_at d e (p + u32 e d (p + 4)) j) = 0x1d \<longleftrightarrow> j = k"
      have "u32 e d (command_at d e p j) = 0x1d \<longleftrightarrow> j = Suc k" if "j < Suc n" for j
        using False h(6) that by (cases j) auto
      with h show ?thesis by (intro conjI disjI2 exI [of _ "Suc k"]) auto
    qed
  qed
qed

lemma index_fold_first:
  assumes "foldE (index_entry H d off len count) js best = Inr (Some b)"
  shows "(\<forall>j \<in> set js. \<exists>c. index_entry H d off len count j None = Inr c) \<and>
    (best = Some b \<or> (\<exists>pre i post. js = pre @ i # post \<and> index_entry H d off len count i None = Inr (Some b) \<and>
       (\<forall>j \<in> set pre. \<forall>c. index_entry H d off len count j None = Inr (Some c) \<longrightarrow> fst c < fst b) \<and>
       (\<forall>b'. best = Some b' \<longrightarrow> fst b' < fst b)))"
  using assms
proof (induction js arbitrary: best)
  case Nil
  then show ?case by simp
next
  case (Cons i js)
  let ?I = "\<lambda>j. index_entry H d off len count j None"
  from Cons.prems obtain best' where
    step: "index_entry H d off len count i best = Inr best'"
    and rest: "foldE (index_entry H d off len count) js best' = Inr (Some b)" by auto
  from step obtain c where c: "?I i = Inr c"
    and best': "best' = (case c of None \<Rightarrow> best | Some x \<Rightarrow> better best x)"
    by (subst (asm) index_entry_None) auto
  note IH = Cons.IH [OF rest]
  have all: "\<forall>j \<in> set (i # js). \<exists>c. ?I j = Inr c" using IH c by auto
  have low: "fst x < fst b" if "c = Some x" "c \<noteq> Some b" "best' = Some b' \<longrightarrow> fst b' < fst b" "best' = Some b'" for x b'
    using that best' by (auto simp: better_def split: option.splits if_splits)
  from IH show ?case
  proof (elim conjE disjE exE)
    assume "best' = Some b"
    then have "best = Some b \<or> ?I i = Inr (Some b) \<and> (\<forall>b'. best = Some b' \<longrightarrow> fst b' < fst b)"
      using best' c by (auto simp: better_def split: option.splits if_splits)
    with all show ?thesis by (auto intro!: exI [of _ "[]"])
  next
    fix pre k post
    assume h: "js = pre @ k # post" "?I k = Inr (Some b)"
      "\<forall>j \<in> set pre. \<forall>c. ?I j = Inr (Some c) \<longrightarrow> fst c < fst b" "\<forall>b'. best' = Some b' \<longrightarrow> fst b' < fst b"
    have "(\<forall>x. c = Some x \<longrightarrow> fst x < fst b) \<and> (\<forall>b'. best = Some b' \<longrightarrow> fst b' < fst b)"
      using h(4) best' by (auto simp: better_def split: option.splits if_splits)
    with h all c show ?thesis
      by (intro conjI disjI2 exI [of _ "i # pre"] exI [of _ k] exI [of _ post]) auto
  qed
qed

lemma directory_hash_type:
  assumes "directory_hash H d off available = Inr (rank, t, h)"
  shows "t = unat (d ! (off + 37)) \<and> rank = directory_rank d off"
proof -
  have "read_at d off 44 off (off + available) = Inr (slice d off 44)" and "length (slice d off 44) = 44"
    and t: "t = unat (slice d off 44 ! 37)" and r: "\<exists>alg dsize. algorithms t = Some (alg, dsize, rank)"
    using assms by (auto simp: directory_hash_def Let_def split: option.splits prod.splits)
  then have "37 < length (drop off d)" by (simp add: slice_def min_def split: if_splits)
  then have "slice d off 44 ! 37 = d ! (off + 37)" unfolding slice_def by (simp add: nth_drop less_diff_conv)
  with t r show ?thesis by (auto simp: directory_rank_def)
qed

lemma index_entry_candidate:
  "index_entry H d off len count i None = Inr (Some c) \<Longrightarrow>
     is_code_directory_slot (slot_at d off i) \<and> fst c = directory_rank d (directory_at d off i) \<and>
     12 + count * 8 \<le> u32 BE d (off + 16 + i * 8) \<and> directory_at d off i < off + len \<and>
     directory_hash H d (directory_at d off i) (off + len - directory_at d off i) = Inr c"
  by (erule index_entry_SomeD, cases c) (auto simp: slot_at_def directory_at_def dest: directory_hash_type)

lemma index_entry_total:
  assumes "index_entry H d off len count i None = Inr c" and "is_code_directory_slot (slot_at d off i)"
  obtains x where "c = Some x"
proof -
  have "u32 BE (slice d (off + 12 + i * 8) 8) 0 = slot_at d off i" by (simp add: fld_slice slot_at_def)
  with assms show thesis
    by (auto simp: index_entry_def Let_def better_def split: if_splits intro: that)
qed

lemma slice_header_fields:
  assumes "slice_header d base sz = Inr (Some (e, a, count, cb))"
  shows "slice d base 4 = (if e = LE then [0xcf, 0xfa, 0xed, 0xfe] else [0xfe, 0xed, 0xfa, 0xcf]) \<and>
    u32 e d (base + 4) = 0x0100000c \<and> count = u32 e d (base + 16) \<and> cb = u32 e d (base + 20) \<and>
    a = (if u32 e d (base + 8) mod 0x1000000 = 2 then ''arm64e'' else ''arm64'')"
proof -
  have "u32 e (slice d base 32) 4 = u32 e d (base + 4)" "u32 e (slice d base 32) 8 = u32 e d (base + 8)"
    "u32 e (slice d base 32) 16 = u32 e d (base + 16)" "u32 e (slice d base 32) 20 = u32 e d (base + 20)" for e
    by (simp_all add: fld_slice)
  with assms show ?thesis by (auto simp: slice_header_def Let_def split: if_splits)
qed

lemma embedded_signature_fields:
  assumes "embedded_signature H d off sig_size a = Inr (Some r)"
  shows "arch r = a \<and> u32 BE d off = 0xfade0cc0 \<and> u32 BE d (off + 4) \<le> sig_size \<and> u32 BE d (off + 8) \<le> 64 \<and>
    12 + u32 BE d (off + 8) * 8 \<le> u32 BE d (off + 4) \<and>
    (\<exists>rank. foldE (index_entry H d off (u32 BE d (off + 4)) (u32 BE d (off + 8))) [0..<u32 BE d (off + 8)] None =
       Inr (Some (rank, ctype r, chash r)))"
proof -
  have "u32 BE (slice d off 12) 0 = u32 BE d off" "u32 BE (slice d off 12) 4 = u32 BE d (off + 4)"
    "u32 BE (slice d off 12) 8 = u32 BE d (off + 8)" by (simp_all add: fld_slice)
  with assms show ?thesis
    by (auto simp: embedded_signature_def Let_def split: option.splits if_splits)
qed

text \<open>
  C3: When a slice has a record, it is that of the strongest CodeDirectory of its embedded
  signature, everything read off the bytes of the slice: among the load commands the header
  counts, exactly one is an \<open>LC_CODE_SIGNATURE\<close>; it places the SuperBlob inside the slice,
  past the load commands; the blob's own header gives its length and the number of index
  entries; every entry of a CodeDirectory slot names a directory inside the blob, behind
  the index; and the record is that of the first one of the greatest rank: its hash type
  and the first 40 digits of the digest of exactly its bytes, with the architecture of the
  slice header.
\<close>

theorem slice_hash_strongest:
  assumes "slice_hash H d base sz = Inr (Some r)"
  shows "\<exists>e k i alg dsize rank. let n = u32 e d (base + 16); cmd = command_at d e (base + 32);
        off = base + u32 e d (cmd k + 8); len = u32 BE d (off + 4); count = u32 BE d (off + 8);
        q = directory_at d off i in
      slice d base 4 = (if e = LE then [0xcf, 0xfa, 0xed, 0xfe] else [0xfe, 0xed, 0xfa, 0xcf]) \<and>
      k < n \<and> (\<forall>j < n. u32 e d (cmd j) = 0x1d \<longleftrightarrow> j = k) \<and> cmd n = base + 32 + u32 e d (base + 20) \<and>
      cmd n \<le> off \<and> off + u32 e d (cmd k + 12) \<le> base + sz \<and>
      u32 BE d off = 0xfade0cc0 \<and> len \<le> u32 e d (cmd k + 12) \<and> 12 + count * 8 \<le> len \<and>
      (\<forall>j < count. is_code_directory_slot (slot_at d off j) \<longrightarrow>
         off + 12 + count * 8 \<le> directory_at d off j \<and> directory_at d off j < off + len \<and>
         directory_rank d (directory_at d off j) \<le> rank \<and> (j < i \<longrightarrow> directory_rank d (directory_at d off j) < rank)) \<and>
      i < count \<and> is_code_directory_slot (slot_at d off i) \<and> q + u32 BE d (q + 4) \<le> off + len \<and>
      ctype r = unat (d ! (q + 37)) \<and> algorithms (ctype r) = Some (alg, dsize, rank) \<and>
      chash r = take 40 (hex (H alg (slice d q (u32 BE d (q + 4))))) \<and>
      arch r = (if u32 e d (base + 8) mod 0x1000000 = 2 then ''arm64e'' else ''arm64'')"
proof -
  from assms obtain e a n cb off sig_size where
    hdr: "slice_header d base sz = Inr (Some (e, a, n, cb))"
    and walk: "signature_walk d e base sz cb n (base + 32) None = Inr (base + 32 + cb, Some (off, sig_size))"
    and es: "embedded_signature H d off sig_size a = Inr (Some r)"
    by (auto simp: slice_hash_def split: option.split_asm prod.split_asm if_splits)
  let ?cmd = "command_at d e (base + 32)"
  let ?len = "u32 BE d (off + 4)" and ?count = "u32 BE d (off + 8)"
  note h = slice_header_fields [OF hdr]
  from signature_walk_command [OF walk] obtain k where
    w: "base + 32 + cb = ?cmd n" "k < n" "off = base + u32 e d (?cmd k + 8)" "sig_size = u32 e d (?cmd k + 12)"
      "\<forall>j < n. u32 e d (?cmd j) = 0x1d \<longleftrightarrow> j = k" by auto
  have o: "base + 32 + cb \<le> off \<and> off + sig_size \<le> base + sz" by (rule signature_walk_bounds [OF walk]) simp
  note es' = embedded_signature_fields [OF es]
  then obtain rank where f: "foldE (index_entry H d off ?len ?count) [0..<?count] None = Inr (Some (rank, ctype r, chash r))"
    by blast
  from index_fold_first [OF f] obtain pre i post where
    all: "\<forall>j < ?count. \<exists>c. index_entry H d off ?len ?count j None = Inr c"
    and split: "[0..<?count] = pre @ i # post"
    and i: "index_entry H d off ?len ?count i None = Inr (Some (rank, ctype r, chash r))"
    and first: "\<forall>j \<in> set pre. \<forall>c. index_entry H d off ?len ?count j None = Inr (Some c) \<longrightarrow> fst c < rank" by auto
  have lp: "length pre < ?count" using arg_cong [OF split, of length] by simp
  have "[0..<?count] ! length pre = i" unfolding split by simp
  with lp have ip: "i = length pre" by simp
  have "take (length pre) [0..<?count] = pre" unfolding split by simp
  with lp ip have pre: "pre = [0..<i]" "i < ?count" by simp_all
  have le: "\<forall>j < ?count. \<forall>c. index_entry H d off ?len ?count j None = Inr (Some c) \<longrightarrow> fst c \<le> rank"
    using index_fold_best [OF f] by auto
  let ?q = "directory_at d off i"
  from index_entry_candidate [OF i] have q: "is_code_directory_slot (slot_at d off i)" "?q < off + ?len"
    and dh: "directory_hash H d ?q (off + ?len - ?q) = Inr (rank, ctype r, chash r)" by auto
  from directory_hash_Inr [OF dh] obtain alg dsize where
    dir: "algorithms (ctype r) = Some (alg, dsize, rank)" "u32 BE d (?q + 4) \<le> off + ?len - ?q"
      "chash r = take 40 (hex (H alg (slice d ?q (u32 BE d (?q + 4)))))" by blast
  have others: "off + 12 + ?count * 8 \<le> directory_at d off j \<and> directory_at d off j < off + ?len \<and>
      directory_rank d (directory_at d off j) \<le> rank \<and> (j < i \<longrightarrow> directory_rank d (directory_at d off j) < rank)"
    if j: "j < ?count" "is_code_directory_slot (slot_at d off j)" for j
  proof -
    from all j(1) obtain c where "index_entry H d off ?len ?count j None = Inr c" by blast
    with index_entry_total [OF this j(2)] obtain x where x: "index_entry H d off ?len ?count j None = Inr (Some x)" by blast
    have "fst x \<le> rank" using le x j(1) by blast
    moreover have "j < i \<longrightarrow> fst x < rank" using first x pre(1) by (simp del: split_paired_All)
    ultimately show ?thesis using index_entry_candidate [OF x] by (simp add: directory_at_def)
  qed
  have ends: "?q + u32 BE d (?q + 4) \<le> off + ?len" using q(2) dir(2) by linarith
  have n: "u32 e d (base + 16) = n" and cb: "base + 32 + u32 e d (base + 20) = ?cmd n"
    and a: "arch r = (if u32 e d (base + 8) mod 0x1000000 = 2 then ''arm64e'' else ''arm64'')"
    using h w(1) es' by auto
  have o': "?cmd n \<le> off" "off + sig_size \<le> base + sz" using o w(1) by auto
  show ?thesis unfolding Let_def
    apply (rule exI [of _ e], rule exI [of _ k], rule exI [of _ i], rule exI [of _ alg], rule exI [of _ dsize], rule exI [of _ rank])
    unfolding w(3) [symmetric] w(4) [symmetric] n cb
    apply (intro conjI allI impI)
    using others es' by (simp_all add: h [THEN conjunct1] w(2,5) o' q(1) dir(1,3) ends pre(2) a directory_hash_type [OF dh, THEN conjunct1, symmetric])
qed

text \<open>
  The bounded-memory reader hashes exactly what one read of the whole CodeDirectory
  would: the record of a directory is the digest of its \<open>length\<close> bytes, cut to 40 digits,
  although the code feeds the digest 64 KiB at a time.
\<close>

theorem directory_hash_streams:
  assumes "directory_hash H d off available = Inr (rank, t, h)"
  shows "\<exists>alg dsize. algorithms t = Some (alg, dsize, rank) \<and>
      off + u32 BE d (off + 4) \<le> length d \<and> u32 BE d (off + 4) \<le> available \<and>
      h = take 40 (hex (H alg (slice d off (u32 BE d (off + 4)))))"
  using assms by (rule directory_hash_Inr) auto

subsection \<open>A signed image\<close>

text \<open>
  The smallest signed arm64 image the extractor accepts: a header, one
  \<open>LC_CODE_SIGNATURE\<close>, and a SuperBlob with one 44-byte CodeDirectory.
\<close>

definition sample_image :: bytes where
  "sample_image =
     enc LE 4 0xfeedfacf @ enc LE 4 0x0100000c @ enc LE 4 0 @ enc LE 4 2 @
     enc LE 4 1 @ enc LE 4 16 @ enc LE 8 0 @
     enc LE 4 0x1d @ enc LE 4 16 @ enc LE 4 48 @ enc LE 4 64 @
     enc BE 4 0xfade0cc0 @ enc BE 4 64 @ enc BE 4 1 @ enc BE 4 0 @ enc BE 4 20 @
     enc BE 4 0xfade0c02 @ enc BE 4 44 @ enc BE 8 0 @ enc BE 4 44 @ enc BE 4 40 @
     enc BE 4 0 @ enc BE 4 0 @ enc BE 4 0 @ [32, 2] @ replicate 6 0"

definition sample_hasher :: hasher where
  "sample_hasher a bs = replicate (digest_size a) (of_nat (length bs))"

lemma sample_hasher_sizes: "hash_sizes sample_hasher"
  by (simp add: hash_sizes_def sample_hasher_def)

lemma sample_slices:
  "slice sample_image 0 4 = [0xcf, 0xfa, 0xed, 0xfe]"
  "slice sample_image 0 32 = slice sample_image 0 4 @ enc LE 4 0x0100000c @ enc LE 4 0 @
     enc LE 4 2 @ enc LE 4 1 @ enc LE 4 16 @ enc LE 8 0"
  "slice sample_image 32 8 = enc LE 4 0x1d @ enc LE 4 16"
  "slice sample_image 40 8 = enc LE 4 48 @ enc LE 4 64"
  "slice sample_image 48 12 = enc BE 4 0xfade0cc0 @ enc BE 4 64 @ enc BE 4 1"
  "slice sample_image 60 8 = enc BE 4 0 @ enc BE 4 20"
  "slice sample_image 68 44 = enc BE 4 0xfade0c02 @ enc BE 4 44 @ enc BE 8 0 @ enc BE 4 44 @
     enc BE 4 40 @ enc BE 4 0 @ enc BE 4 0 @ enc BE 4 0 @ [32, 2] @ replicate 6 0"
  by code_simp+

lemma sample_fields:
  "u32 LE (slice sample_image 0 32) 4 = 0x0100000c" "u32 LE (slice sample_image 0 32) 8 = 0"
  "u32 LE (slice sample_image 0 32) 16 = 1" "u32 LE (slice sample_image 0 32) 20 = 16"
  "u32 LE (slice sample_image 32 8) 0 = 0x1d" "u32 LE (slice sample_image 32 8) 4 = 16"
  "u32 LE (slice sample_image 40 8) 0 = 48" "u32 LE (slice sample_image 40 8) 4 = 64"
  "u32 BE (slice sample_image 48 12) 0 = 0xfade0cc0" "u32 BE (slice sample_image 48 12) 4 = 64"
  "u32 BE (slice sample_image 48 12) 8 = 1"
  "u32 BE (slice sample_image 60 8) 0 = 0" "u32 BE (slice sample_image 60 8) 4 = 20"
  "u32 BE (slice sample_image 68 44) 0 = 0xfade0c02" "u32 BE (slice sample_image 68 44) 4 = 44"
  "u32 BE (slice sample_image 68 44) 16 = 44" "u32 BE (slice sample_image 68 44) 20 = 40"
  "u32 BE (slice sample_image 68 44) 24 = 0" "u32 BE (slice sample_image 68 44) 28 = 0"
  "slice sample_image 68 44 ! 36 = 32" "slice sample_image 68 44 ! 37 = 2"
  by code_simp+

lemma sample_length: "length sample_image = 112"
  by (simp add: sample_image_def)

lemma sample_directory:
  "directory_hash sample_hasher sample_image 68 44 = Inr (3, 2, concat (replicate 20 ''2c''))"
proof -
  have "take 40 (hex (sample_hasher Sha256 (slice sample_image 68 44))) = concat (replicate 20 ''2c'')"
    by code_simp
  then show ?thesis
    using digest_chunks_eq [of 68 44 sample_image 0 "[]"]
    by (simp add: directory_hash_def read_at_def sample_fields sample_length algorithms_def)
qed

lemma sample_record:
  "slice_hash sample_hasher sample_image 0 112 =
     Inr (Some \<lparr>arch = ''arm64'', ctype = 2, chash = concat (replicate 20 ''2c'')\<rparr>)"
proof -
  have "slice_header sample_image 0 112 = Inr (Some (LE, ''arm64'', 1, 16))"
    by (simp add: slice_header_def read_at_def sample_slices(1) sample_fields sample_length)
  moreover have "signature_walk sample_image LE 0 112 16 (Suc 0) 32 None = Inr (48, Some (48, 64))"
    by (simp add: signature_command_def read_at_def sample_fields sample_length)
  moreover have "index_entry sample_hasher sample_image 48 64 1 0 None =
      Inr (Some (3, 2, concat (replicate 20 ''2c'')))"
    by (simp add: index_entry_def read_at_def sample_fields sample_length is_code_directory_slot_def
        sample_directory better_def)
  ultimately show ?thesis
    by (simp add: slice_hash_def embedded_signature_def read_at_def sample_fields sample_length)
qed

lemma sample_code_hashes:
  "code_hashes sample_hasher sample_image 112 =
     Inr [\<lparr>arch = ''arm64'', ctype = 2, chash = concat (replicate 20 ''2c'')\<rparr>]"
proof -
  have "take 4 sample_image = [0xcf, 0xfa, 0xed, 0xfe]" using sample_slices(1) by (simp add: slice_def)
  then show ?thesis by (simp add: code_hashes_def MAGICS_def thin_magics_def fat_magics_def sample_record)
qed

theorem code_hashes_valid_witness:
  "list_all valid_record [\<lparr>arch = ''arm64'', ctype = 2, chash = concat (replicate 20 ''2c'')\<rparr>]"
  unfolding list_all_iff by (rule code_hashes_valid [OF sample_hasher_sizes sample_code_hashes])

theorem slice_hash_strongest_witness:
  "\<exists>e k i alg dsize rank. let n = u32 e sample_image (0 + 16); cmd = command_at sample_image e (0 + 32);
        off = 0 + u32 e sample_image (cmd k + 8); len = u32 BE sample_image (off + 4); count = u32 BE sample_image (off + 8);
        q = directory_at sample_image off i in
      k < n \<and> u32 BE sample_image off = 0xfade0cc0 \<and> i < count \<and>
      is_code_directory_slot (slot_at sample_image off i) \<and> q + u32 BE sample_image (q + 4) \<le> off + len \<and>
      2 = unat (sample_image ! (q + 37)) \<and> algorithms 2 = Some (alg, dsize, rank) \<and>
      concat (replicate 20 ''2c'') = take 40 (hex (sample_hasher alg (slice sample_image q (u32 BE sample_image (q + 4)))))"
  using slice_hash_strongest [OF sample_record] unfolding Let_def by (simp only: code_record.simps) blast

theorem directory_hash_streams_witness:
  "\<exists>alg dsize. algorithms 2 = Some (alg, dsize, 3) \<and>
      68 + u32 BE sample_image (68 + 4) \<le> length sample_image \<and> u32 BE sample_image (68 + 4) \<le> 44 \<and>
      concat (replicate 20 ''2c'') = take 40 (hex (sample_hasher alg (slice sample_image 68 (u32 BE sample_image (68 + 4)))))"
  by (rule directory_hash_streams [OF sample_directory])

end
