(* ===== verification/PyValue.thy ===== *)
theory PyValue
  imports Bytes
begin

text \<open>
  The values \<open>json.load\<close> and \<open>plistlib.load\<close> return, as far as the scripts look at them:
  \<open>None\<close>, booleans, integers, strings, raw data, lists and dictionaries with string keys
  (an association list in insertion order, each key once).  Floating-point numbers and
  dates do not occur in the documents the scripts accept and have no constructor.
\<close>

datatype pyval =
    PNone
  | PBool bool
  | PInt int
  | PStr string
  | PData bytes
  | PList "pyval list"
  | PDict "(string \<times> pyval) list"

text \<open>A file identity: device, inode, size and the two time stamps in nanoseconds.\<close>

type_synonym identity = "int list"

definition py_get :: "(string \<times> pyval) list \<Rightarrow> string \<Rightarrow> pyval" where
  "py_get kv k = (case map_of kv k of None \<Rightarrow> PNone | Some v \<Rightarrow> v)"

text \<open>\<open>dict.update\<close> for one key: the key keeps its place, a new key goes last.\<close>

fun py_set :: "('k \<times> 'v) list \<Rightarrow> 'k \<Rightarrow> 'v \<Rightarrow> ('k \<times> 'v) list" where
  "py_set [] k v = [(k, v)]"
| "py_set ((k', v') # kv) k v = (if k' = k then (k, v) # kv else (k', v') # py_set kv k v)"

lemma map_of_py_set [simp]: "map_of (py_set kv k v) = (map_of kv)(k \<mapsto> v)"
  by (induction kv k v rule: py_set.induct) (auto simp: fun_upd_twist)

lemma keys_py_set: "set (map fst (py_set kv k v)) = insert k (set (map fst kv))"
  by (induction kv k v rule: py_set.induct) auto

lemma distinct_py_set: "distinct (map fst kv) \<Longrightarrow> distinct (map fst (py_set kv k v))"
  by (induction kv k v rule: py_set.induct) (auto simp: keys_py_set simp del: set_map)

definition py_pop :: "('k \<times> 'v) list \<Rightarrow> 'k \<Rightarrow> ('k \<times> 'v) list" where
  "py_pop kv k = filter (\<lambda>(k', _). k' \<noteq> k) kv"

lemma map_of_py_pop [simp]: "map_of (py_pop kv k) = (map_of kv)(k := None)"
  by (induction kv) (auto simp: py_pop_def fun_upd_twist)

text \<open>
  Python's \<open>==\<close> on such values: \<open>True\<close> and \<open>False\<close> equal the integers 1 and 0, and
  dictionaries compare without regard to the order of their keys.
\<close>

fun py_num :: "pyval \<Rightarrow> int option" where
  "py_num (PBool b) = Some (if b then 1 else 0)"
| "py_num (PInt i) = Some i"
| "py_num _ = None"

fun py_eq :: "pyval \<Rightarrow> pyval \<Rightarrow> bool" where
  "py_eq PNone w = (w = PNone)"
| "py_eq (PBool b) w = (py_num w = py_num (PBool b))"
| "py_eq (PInt i) w = (py_num w = Some i)"
| "py_eq (PStr s) w = (w = PStr s)"
| "py_eq (PData d) w = (w = PData d)"
| "py_eq (PList vs) w =
     (case w of PList ws \<Rightarrow> list_all2 py_eq vs ws | _ \<Rightarrow> False)"
| "py_eq (PDict kv) w =
     (case w of
        PDict kw \<Rightarrow> length kv = length kw \<and>
          list_all (\<lambda>(k, v). case map_of kw k of None \<Rightarrow> False | Some w' \<Rightarrow> py_eq v w') kv
      | _ \<Rightarrow> False)"

lemma py_eq_ints: "py_eq (PList vs) (PList (map PInt xs)) \<longleftrightarrow> map py_num vs = map Some xs"
proof (induction vs arbitrary: xs)
  case Nil
  then show ?case by (cases xs) auto
next
  case (Cons v vs)
  have "py_eq v (PInt x) \<longleftrightarrow> py_num v = Some x" for x by (cases v) auto
  with Cons show ?case by (cases xs) auto
qed

lemma py_eq_int_lists: "py_eq (PList (map PInt xs)) (PList (map PInt ys)) \<longleftrightarrow> xs = ys"
  unfolding py_eq_ints by (simp add: comp_def inj_def inj_map_eq_map)

definition is_dict :: "pyval \<Rightarrow> bool" where "is_dict v = (case v of PDict _ \<Rightarrow> True | _ \<Rightarrow> False)"
definition is_list :: "pyval \<Rightarrow> bool" where "is_list v = (case v of PList _ \<Rightarrow> True | _ \<Rightarrow> False)"
definition is_str :: "pyval \<Rightarrow> bool" where "is_str v = (case v of PStr _ \<Rightarrow> True | _ \<Rightarrow> False)"

end
