(* ===== verification/Strings.thy ===== *)
theory Strings
  imports Bytes "HOL-Library.Char_ord"
begin

text \<open>
  Python's \<open>str\<close> operations on the strings of the model.  A \<open>str\<close> is represented by its
  UTF-8 bytes as a list of characters, so that \<open>decode('utf-8')\<close> is a check and a change
  of type; prefix tests, joins and \<open>os.path\<close> work on that representation as Python's do on
  the code points, because every separator they look for is ASCII.
\<close>

definition starts :: "'a list \<Rightarrow> 'a list \<Rightarrow> bool" where
  "starts p s \<longleftrightarrow> take (length p) s = p"

definition ends :: "'a list \<Rightarrow> 'a list \<Rightarrow> bool" where
  "ends p s \<longleftrightarrow> starts (rev p) (rev s)"

lemma starts_append [simp]: "starts p (p @ s)"
  by (simp add: starts_def)

lemma starts_iff: "starts p s \<longleftrightarrow> (\<exists>t. s = p @ t)"
  unfolding starts_def by (metis append_eq_conv_conj append_take_drop_id)

text \<open>\<open>p in s\<close> for texts and byte strings.\<close>

fun contains :: "'a list \<Rightarrow> 'a list \<Rightarrow> bool" where
  "contains p [] \<longleftrightarrow> p = []"
| "contains p (x # xs) \<longleftrightarrow> starts p (x # xs) \<or> contains p xs"

text \<open>\<open>str(n)\<close> of a natural number.\<close>

fun show_decimal :: "nat \<Rightarrow> string" where
  "show_decimal n = (if n < 10 then [] else show_decimal (n div 10)) @ [char_of (48 + n mod 10)]"

declare show_decimal.simps [simp del]

text \<open>The first occurrence kept, as \<open>dict.fromkeys\<close> does.\<close>

definition dedupe :: "'a list \<Rightarrow> 'a list" where
  "dedupe xs = rev (remdups (rev xs))"

lemma set_dedupe [simp]: "set (dedupe xs) = set xs"
  by (simp add: dedupe_def)

lemma distinct_dedupe [simp]: "distinct (dedupe xs)"
  by (simp add: dedupe_def)

definition add_new :: "'a \<Rightarrow> 'a list \<Rightarrow> 'a list" where
  "add_new x xs = (if x \<in> set xs then xs else xs @ [x])"

lemma set_add_new [simp]: "set (add_new x xs) = insert x (set xs)"
  by (auto simp: add_new_def)

lemma distinct_add_new [simp]: "distinct (add_new x xs) = distinct xs"
  by (auto simp: add_new_def)

subsection \<open>Paths\<close>

type_synonym cpath = "string list"

text \<open>The parts of \<open>PurePosixPath(value)\<close>; \<open>word\<close> is the current component, reversed.\<close>

fun split_slash :: "string \<Rightarrow> string \<Rightarrow> string list" where
  "split_slash word [] = [rev word]"
| "split_slash word (c # s) = (if c = CHR ''/'' then rev word # split_slash [] s else split_slash (c # word) s)"

definition posix_parts :: "string \<Rightarrow> cpath" where
  "posix_parts value =
     (if starts ''/'' value then [''/''] else []) @ filter (\<lambda>c. c \<noteq> '''' \<and> c \<noteq> ''.'') (split_slash [] value)"

fun join_slash :: "cpath \<Rightarrow> string" where
  "join_slash [] = ''''"
| "join_slash [c] = c"
| "join_slash (c # cs) = c @ ''/'' @ join_slash cs"

subsection \<open>UTF-8\<close>

definition cont :: "byte \<Rightarrow> bool" where
  "cont b \<longleftrightarrow> 0x80 \<le> b \<and> b \<le> 0xbf"

text \<open>The strict decoder of Python: no overlong forms, no surrogates, nothing above U+10FFFF.\<close>

fun utf8_ok :: "bytes \<Rightarrow> bool" where
  "utf8_ok [] = True"
| "utf8_ok (a # s) =
     (if a < 0x80 then utf8_ok s
      else case s of
        [] \<Rightarrow> False
      | b # s1 \<Rightarrow>
        if 0xc2 \<le> a \<and> a \<le> 0xdf then cont b \<and> utf8_ok s1
        else case s1 of
          [] \<Rightarrow> False
        | c # s2 \<Rightarrow>
          if 0xe0 \<le> a \<and> a \<le> 0xef
          then cont b \<and> cont c \<and> (a = 0xe0 \<longrightarrow> 0xa0 \<le> b) \<and> (a = 0xed \<longrightarrow> b \<le> 0x9f) \<and> utf8_ok s2
          else case s2 of
            [] \<Rightarrow> False
          | d # s3 \<Rightarrow>
            0xf0 \<le> a \<and> a \<le> 0xf4 \<and> cont b \<and> cont c \<and> cont d \<and>
            (a = 0xf0 \<longrightarrow> 0x90 \<le> b) \<and> (a = 0xf4 \<longrightarrow> b \<le> 0x8f) \<and> utf8_ok s3)"

definition decode_utf8 :: "bytes \<Rightarrow> string result" where
  "decode_utf8 bs = (if utf8_ok bs then Inr (map (char_of \<circ> unat) bs) else Inl UnicodeError)"

definition encode_str :: "string \<Rightarrow> bytes" where
  "encode_str s = map (of_nat \<circ> of_char) s"

lemma length_encode_str [simp]: "length (encode_str s) = length s"
  by (simp add: encode_str_def)

lemma encode_decode: "decode_utf8 bs = Inr s \<Longrightarrow> encode_str s = bs"
proof -
  have "(of_nat (of_char (char_of (unat b) :: char)) :: byte) = b" for b :: byte
  proof -
    have "unat b < 256" by (rule unat_byte)
    then show ?thesis by (simp add: of_char_of take_bit_nat_eq_self)
  qed
  then show "decode_utf8 bs = Inr s \<Longrightarrow> encode_str s = bs"
    by (auto simp: decode_utf8_def encode_str_def comp_def split: if_splits)
qed

lemma byte_of_char_inj: "inj (of_nat \<circ> of_char :: char \<Rightarrow> byte)"
proof (rule injI)
  fix c d :: char
  have r: "unat ((of_nat \<circ> of_char) x :: byte) = of_char x" for x :: char
    using of_char_mod_256 [of x, where 'a = nat] by (simp add: unat_of_nat)
  assume "(of_nat \<circ> of_char) c = ((of_nat \<circ> of_char) d :: byte)"
  then have "(of_char c :: nat) = of_char d" by (metis r)
  then show "c = d" by simp
qed

lemma inj_encode_str: "encode_str s = encode_str t \<longleftrightarrow> s = t"
  unfolding encode_str_def by (rule inj_map_eq_map [OF byte_of_char_inj])

text \<open>\<open>len\<close> of a \<open>str\<close> counts code points: the bytes that do not continue a character.\<close>

definition str_length :: "string \<Rightarrow> nat" where
  "str_length s = length (filter (\<lambda>c. \<not> (128 \<le> (of_char c :: nat) \<and> (of_char c :: nat) < 192)) s)"

subsection \<open>Paths\<close>

definition path_join :: "string \<Rightarrow> string \<Rightarrow> string" where
  "path_join a b =
     (if starts ''/'' b then b
      else if a = '''' \<or> ends ''/'' a then a @ b
      else a @ ''/'' @ b)"

definition path_basename :: "string \<Rightarrow> string" where
  "path_basename p = rev (takeWhile (\<lambda>c. c \<noteq> CHR ''/'') (rev p))"

definition path_dirname :: "string \<Rightarrow> string" where
  "path_dirname p =
     (let head = rev (dropWhile (\<lambda>c. c \<noteq> CHR ''/'') (rev p)) in
      if set head \<subseteq> {CHR ''/''} then head
      else rev (dropWhile (\<lambda>c. c = CHR ''/'') (rev head)))"

end
