(* ===== verification/TrustScan.thy ===== *)
theory TrustScan
  imports BootTrust PyValue Strings "HOL-Library.List_Lexorder"
begin

text \<open>
  \<^verbatim>\<open>macws_boot_trust.py\<close>, second half: the manifest of known hashes, the negative
  resource index, the scan over the files of the requested paths and the restoration of
  the missing hashes.  What the operating system shows the scan is a list of
  observations, one for each file \<open>files_in\<close> yields, in order.
\<close>

subsection \<open>Identities and the negative index\<close>

definition pack_q :: "int \<Rightarrow> bytes result" where
  "pack_q v = (if 0 \<le> v \<and> v < 2 ^ 64 then Inr (enc BE 8 (nat v)) else Inl StructError)"

definition pack_sq :: "int \<Rightarrow> bytes result" where
  "pack_sq v =
     (if - (2 ^ 63) \<le> v \<and> v < 2 ^ 63 then Inr (enc BE 8 (nat (v mod 2 ^ 64))) else Inl StructError)"

text \<open>\<open>struct.pack('>QQQqq', *key)\<close>\<close>

fun pack_identity :: "identity \<Rightarrow> bytes result" where
  "pack_identity [dev, ino, sz, mtime, ctime] =
     bindE (pack_q dev) (\<lambda>a. bindE (pack_q ino) (\<lambda>b. bindE (pack_q sz) (\<lambda>c.
     bindE (pack_sq mtime) (\<lambda>m. bindE (pack_sq ctime) (\<lambda>t. Inr (a @ b @ c @ m @ t))))))"
| "pack_identity _ = Inl StructError"

text \<open>
  \<open>ResourceIndex\<close>: the rows this connection sees, the rows committed to disk, the number
  of uncommitted rows, and whether it was opened read-only.  A path that is absent or a
  missing read-only database leaves the connection unset (\<open>connected = False\<close>).
\<close>

record resource_index =
  connected :: bool
  readonly :: bool
  rows :: "string \<rightharpoonup> bytes"
  committed :: "string \<rightharpoonup> bytes"
  pending :: nat

definition unchanged :: "resource_index \<Rightarrow> string \<Rightarrow> identity \<Rightarrow> bool result" where
  "unchanged ix path key =
     (if \<not> connected ix then Inr False
      else case rows ix path of
        None \<Rightarrow> Inr False
      | Some row \<Rightarrow> bindE (pack_identity key) (\<lambda>packed. Inr (row = packed)))"

definition remember :: "resource_index \<Rightarrow> string \<Rightarrow> identity \<Rightarrow> resource_index result" where
  "remember ix path key =
     (if \<not> connected ix \<or> readonly ix then Inr ix
      else bindE (pack_identity key) (\<lambda>packed.
        let ix = ix\<lparr>rows := (rows ix)(path \<mapsto> packed), pending := pending ix + 1\<rparr> in
        if pending ix \<ge> 10000
        then Inr (ix\<lparr>committed := rows ix, pending := 0\<rparr>)
        else Inr ix))"

definition close_index :: "resource_index \<Rightarrow> resource_index" where
  "close_index ix =
     (if connected ix
      then (if readonly ix then ix else ix\<lparr>committed := rows ix, pending := 0\<rparr>)\<lparr>connected := False\<rparr>
      else ix)"

subsection \<open>The manifest\<close>

text \<open>
  What \<open>load_cache\<close> finds at the manifest path: \<open>None\<close> when it cannot be opened, else
  the result of \<open>fstat\<close> and of parsing its content.
\<close>

record manifest_file =
  is_regular :: bool
  owned :: bool
  mode :: nat
  byte_size :: nat
  parsed :: "pyval option"

unbundle bit_operations_syntax

definition CACHE_SCHEMA :: int where "CACHE_SCHEMA = 1"
definition MAX_CACHE_BYTES :: nat where "MAX_CACHE_BYTES = 8 * 1024 * 1024"

definition writable_by_others :: "nat \<Rightarrow> bool" where
  "writable_by_others m \<longleftrightarrow> m AND 18 \<noteq> 0"

text \<open>The manifest of hash records at \<open>path\<close>; anything unsafe, stale or malformed is empty.\<close>

definition load_cache :: "manifest_file option \<Rightarrow> (string \<times> pyval) list" where
  "load_cache mf =
     (case mf of None \<Rightarrow> []
      | Some f \<Rightarrow>
        if \<not> is_regular f \<or> \<not> owned f \<or> writable_by_others (mode f) \<or> byte_size f > MAX_CACHE_BYTES
        then []
        else case parsed f of None \<Rightarrow> []
        | Some (PDict kv) \<Rightarrow>
            (case py_get kv ''files'' of
               PDict files \<Rightarrow> if py_eq (py_get kv ''schema'') (PInt CACHE_SCHEMA) then files else []
             | _ \<Rightarrow> [])
        | Some _ \<Rightarrow> [])"

text \<open>
  \<open>save_cache\<close>: the directory must be private, the encoded document within budget
  (\<open>dumps_len\<close> is the length of its JSON), and the file is replaced atomically.
\<close>

definition save_cache ::
  "(pyval \<Rightarrow> nat) \<Rightarrow> bool \<Rightarrow> nat \<Rightarrow> (string \<times> pyval) list \<Rightarrow> manifest_file result" where
  "save_cache dumps_len dir_owned dir_mode files =
     (if \<not> dir_owned \<or> writable_by_others dir_mode
      then Inl (ValueError ''manifest directory must be owned by caller and not writable by others'')
      else
      let payload = PDict [(''schema'', PInt CACHE_SCHEMA), (''files'', PDict files)] in
      if dumps_len payload > MAX_CACHE_BYTES
      then Inl (ValueError ''hash manifest budget exceeded'')
      else Inr \<lparr>is_regular = True, owned = True, mode = 384, byte_size = dumps_len payload,
                parsed = Some payload\<rparr>)"

subsection \<open>Cached records\<close>

definition is_hash :: "string \<Rightarrow> bool" where
  "is_hash h \<longleftrightarrow> length h = 40 \<and> set h \<subseteq> set hex_digits"

text \<open>
  One element of \<open>previous['codes']\<close>, decoded when it passes the script's validation.  (A JSON
  integer of exactly 40 digits in place of the hash string, which \<open>str\<close> would let through,
  is not distinguished from other malformed records.)
\<close>

definition decode_code :: "pyval \<Rightarrow> code_record option" where
  "decode_code v =
     (case v of
        PDict kv \<Rightarrow>
          (case (py_get kv ''arch'', py_num (py_get kv ''type''), py_get kv ''hash'') of
             (PStr a, Some t, PStr h) \<Rightarrow>
               if a \<in> {''arm64'', ''arm64e''} \<and> t \<in> {1, 2, 3, 4} \<and> is_hash h
               then Some \<lparr>arch = a, ctype = nat t, chash = h\<rparr> else None
           | _ \<Rightarrow> None)
      | _ \<Rightarrow> None)"

definition encode_code :: "code_record \<Rightarrow> pyval" where
  "encode_code r = PDict [(''arch'', PStr (arch r)), (''type'', PInt (int (ctype r))), (''hash'', PStr (chash r))]"

definition encode_record :: "identity \<times> code_record list \<Rightarrow> pyval" where
  "encode_record ir =
     PDict [(''identity'', PList (map PInt (fst ir))), (''codes'', PList (map encode_code (snd ir)))]"

text \<open>
  The cache hit: the stored identity is the file's, and the stored codes are a non-empty
  list of valid records.
\<close>

definition cached_codes :: "pyval \<Rightarrow> identity \<Rightarrow> code_record list option" where
  "cached_codes previous key =
     (case previous of
        PDict kv \<Rightarrow>
          if py_eq (py_get kv ''identity'') (PList (map PInt key))
          then (case py_get kv ''codes'' of
                  PList vs \<Rightarrow> if vs \<noteq> [] \<and> None \<notin> set (map decode_code vs)
                             then Some (map (the \<circ> decode_code) vs) else None
                | _ \<Rightarrow> None)
          else None
      | _ \<Rightarrow> None)"

subsection \<open>The scan\<close>

text \<open>
  One file as the scan meets it: the path and the identity \<open>files_in\<close> reported, and what
  opening it shows: its content, its size and the identity before and after reading.
\<close>

record observation =
  fpath :: string
  key :: identity
  content :: bytes
  fsize :: nat
  key_before :: identity
  key_after :: identity

text \<open>
  The environment: the hash functions; \<open>due n\<close>, whether ten seconds have passed since the
  last checkpoint when the \<open>n\<close>-th file is reached; the progress callback, which raises to
  pause; and, for a validation run, the CDHash \<open>ldid\<close> prints for a path and architecture.
\<close>

record scan_env =
  hash_fun :: hasher
  due :: "nat \<Rightarrow> bool"
  progress :: "(nat \<Rightarrow> nat \<Rightarrow> unit result) option"
  ldid :: "(string \<Rightarrow> string \<Rightarrow> string option) option"

record scan_state =
  records :: "(string \<times> identity \<times> code_record list) list"
  hashes :: "string set"
  seen :: "string set"
  scanned :: nat
  cached :: nat
  images :: nat
  resource_hits :: nat
  resources :: "resource_index option"

definition scan_start :: "resource_index option \<Rightarrow> scan_state" where
  "scan_start ix = \<lparr>records = [], hashes = {}, seen = {}, scanned = 0, cached = 0,
     images = 0, resource_hits = 0, resources = ix\<rparr>"

definition checkpoint :: "scan_env \<Rightarrow> scan_state \<Rightarrow> unit result" where
  "checkpoint E st =
     (case progress E of None \<Rightarrow> Inr ()
      | Some p \<Rightarrow> if scanned st mod 512 = 0 \<and> due E (scanned st) then p (scanned st) (images st) else Inr ())"

definition resource_unchanged :: "scan_state \<Rightarrow> observation \<Rightarrow> bool result" where
  "resource_unchanged st x =
     (case resources st of None \<Rightarrow> Inr False | Some ix \<Rightarrow> unchanged ix (fpath x) (key x))"

definition resource_remember :: "scan_state \<Rightarrow> observation \<Rightarrow> scan_state result" where
  "resource_remember st x =
     (case resources st of None \<Rightarrow> Inr st
      | Some ix \<Rightarrow> bindE (remember ix (fpath x) (key x)) (\<lambda>ix'. Inr (st\<lparr>resources := Some ix'\<rparr>)))"

definition ldid_agrees :: "scan_env \<Rightarrow> string \<Rightarrow> code_record list \<Rightarrow> bool" where
  "ldid_agrees E path codes =
     (case ldid E of None \<Rightarrow> True
      | Some cdhash \<Rightarrow> list_all (\<lambda>c. cdhash path (arch c) = Some (chash c)) codes)"

text \<open>From \<open>if not codes\<close> to the end of the loop body.\<close>

definition admit :: "scan_env \<Rightarrow> observation \<Rightarrow> code_record list \<Rightarrow> scan_state \<Rightarrow> scan_state result" where
  "admit E x codes st =
     (if codes = [] then resource_remember st x
      else
      let st = st\<lparr>seen := insert (fpath x) (seen st), images := images st + 1\<rparr> in
      if \<not> ldid_agrees E (fpath x) codes then Inl (ValueError ''ldid hash mismatch: '')
      else Inr (st\<lparr>records := py_set (records st) (fpath x) (key x, codes),
                  hashes := hashes st \<union> chash ` set codes\<rparr>))"

text \<open>Reading the signature, refused when the file's identity moved meanwhile.\<close>

definition read_codes :: "scan_env \<Rightarrow> observation \<Rightarrow> code_record list result" where
  "read_codes E x =
     bindE (code_hashes (hash_fun E) (content x) (fsize x)) (\<lambda>codes.
     if key_after x \<noteq> key x \<or> key_before x \<noteq> key x
     then Inl (ValueError ''file changed during signature read: '')
     else Inr codes)"

definition scan_step ::
  "scan_env \<Rightarrow> (string \<rightharpoonup> pyval) \<Rightarrow> observation \<Rightarrow> scan_state \<Rightarrow> scan_state result" where
  "scan_step E cache x st =
     (if fpath x \<in> seen st then Inr st
      else
      let st = st\<lparr>scanned := scanned st + 1\<rparr> in
      bindE (checkpoint E st) (\<lambda>_.
      case Option.bind (cache (fpath x)) (\<lambda>previous. cached_codes previous (key x)) of
        Some codes \<Rightarrow> admit E x codes (st\<lparr>cached := cached st + 1\<rparr>)
      | None \<Rightarrow>
          bindE (resource_unchanged st x) (\<lambda>hit.
          if hit then Inr (st\<lparr>resource_hits := resource_hits st + 1\<rparr>)
          else bindE (read_codes E x) (\<lambda>codes. admit E x codes st))))"

definition scan ::
  "scan_env \<Rightarrow> (string \<rightharpoonup> pyval) \<Rightarrow> observation list \<Rightarrow> resource_index option \<Rightarrow> scan_state result" where
  "scan E cache xs ix = foldE (scan_step E cache) xs (scan_start ix)"

subsection \<open>Restoring trust\<close>

definition is_word_char :: "char \<Rightarrow> bool" where
  "is_word_char c \<longleftrightarrow>
     (let n = (of_char c :: nat) in
      (48 \<le> n \<and> n \<le> 57) \<or> (65 \<le> n \<and> n \<le> 90) \<or> n = 95 \<or> (97 \<le> n \<and> n \<le> 122))"

text \<open>
  The maximal runs of word characters: \<open>re.findall\<close> of a pattern between two \<open>\b\<close> that
  matches word characters only finds exactly the runs that match it.
\<close>

fun word_runs :: "string \<Rightarrow> string \<Rightarrow> string list" where
  "word_runs run [] = [run]"
| "word_runs run (c # s) = (if is_word_char c then word_runs (run @ [c]) s else run # word_runs [] s)"

fun has_substring :: "string \<Rightarrow> string \<Rightarrow> bool" where
  "has_substring p [] \<longleftrightarrow> p = []"
| "has_substring p (c # s) \<longleftrightarrow> take (length p) (c # s) = p \<or> has_substring p s"

definition is_hex_any_case :: "string \<Rightarrow> bool" where
  "is_hex_any_case h \<longleftrightarrow> length h = 40 \<and> set h \<subseteq> set ''0123456789abcdefABCDEF''"

definition lower :: "string \<Rightarrow> string" where
  "lower = map (\<lambda>c. if 65 \<le> (of_char c :: nat) \<and> (of_char c :: nat) \<le> 90
                     then char_of ((of_char c :: nat) + 32) else c)"

text \<open>
  The device: a state \<open>'c\<close> with the output of \<open>jbctl trustcache info\<close>, the \<open>libjailbreak\<close>
  call, when the library loads, with its result code, and the \<open>jbctl trustcache add\<close>
  command.
\<close>

record 'c trust_device =
  jbctl_info :: "'c \<Rightarrow> string result"
  lib_add :: "(string \<Rightarrow> 'c \<Rightarrow> int \<times> 'c) option"
  jbctl_add :: "string \<Rightarrow> 'c \<Rightarrow> 'c result"

definition trusted_hashes :: "'c trust_device \<Rightarrow> 'c \<Rightarrow> string set result" where
  "trusted_hashes D c =
     bindE (jbctl_info D c) (\<lambda>out.
     if \<not> has_substring ''Trustcache'' out
     then Inl (ValueError ''unrecognized trustcache response'')
     else Inr (set (map lower (filter is_hex_any_case (word_runs [] out)))))"

definition add_hash :: "'c trust_device \<Rightarrow> string \<Rightarrow> 'c \<Rightarrow> 'c result" where
  "add_hash D h c =
     (case lib_add D of
        None \<Rightarrow> jbctl_add D h c
      | Some add \<Rightarrow> (case add h c of (r, c') \<Rightarrow>
          if r \<noteq> 0 then Inl (ValueError ''trustcache add failed: result='') else Inr c'))"

definition restore ::
  "'c trust_device \<Rightarrow> string set \<Rightarrow> bool \<Rightarrow> 'c \<Rightarrow> ((nat \<times> string) \<times> 'c) result" where
  "restore D hs readd c =
     bindE (trusted_hashes D c) (\<lambda>present.
     let missing = sorted_list_of_set (if readd then hs else hs - present) in
     if missing = [] then Inr ((0, ''already-trusted''), c)
     else
     let backend = (if lib_add D = None then ''jbctl'' else ''libjailbreak'') in
     bindE (foldE (add_hash D) missing c) (\<lambda>c'.
     bindE (trusted_hashes D c') (\<lambda>present'.
     if hs - present' \<noteq> {}
     then Inl (ValueError ''trustcache verification failed after restoration'')
     else Inr ((length missing, backend), c'))))"

text \<open>
  \<open>main\<close>, between the scan and the output: the explicitly required hashes are checked and
  added, every recorded file is re-examined, and only then is trust restored.
  \<open>stat_now\<close> is what \<open>os.stat\<close> reports at that moment.
\<close>

definition required_hash :: "string \<Rightarrow> string set \<Rightarrow> string set result" where
  "required_hash v hs =
     (if is_hex_any_case v then Inr (insert (lower v) hs) else Inl (ValueError ''invalid required hash''))"

definition still_current :: "(string \<rightharpoonup> identity) \<Rightarrow> string \<times> identity \<times> code_record list \<Rightarrow> unit \<Rightarrow> unit result" where
  "still_current stat_now r _ =
     (case stat_now (fst r) of
        None \<Rightarrow> Inl (OSError ''stat'')
      | Some k \<Rightarrow> if k \<noteq> fst (snd r) then Inl (ValueError ''file changed before trust admission: '') else Inr ())"

definition admission ::
  "'c trust_device \<Rightarrow> scan_state \<Rightarrow> (string \<rightharpoonup> identity) \<Rightarrow> string list \<Rightarrow> bool \<Rightarrow> bool \<Rightarrow> 'c
     \<Rightarrow> ((nat \<times> string) \<times> 'c) result" where
  "admission D st stat_now extra dry_run readd c =
     bindE (foldE required_hash extra (hashes st)) (\<lambda>hs.
     bindE (foldE (still_current stat_now) (records st) ()) (\<lambda>_.
     if dry_run then Inr ((0, ''dry-run''), c) else restore D hs readd c))"

subsection \<open>The negative index\<close>

lemma enc_inj: "u < 256 ^ k \<Longrightarrow> v < 256 ^ k \<Longrightarrow> enc e k u = enc e k v \<Longrightarrow> u = v"
  by (metis dec_enc)

lemma pack_q_inj: "pack_q a = Inr p \<Longrightarrow> pack_q b = Inr p \<Longrightarrow> a = b"
  using enc_inj [of "nat a" 8 "nat b" BE] by (auto simp: pack_q_def nat_less_iff split: if_splits)

lemma mod_window:
  fixes a b M :: int
  assumes "nat (a mod M) = nat (b mod M)" and "0 < M" and "\<bar>a - b\<bar> < M"
  shows "a = b"
proof -
  have "a mod M = b mod M" using assms(1,2) by (simp add: eq_nat_nat_iff)
  then have "M dvd a - b" by (simp add: mod_eq_dvd_iff)
  then show ?thesis using assms(3) dvd_imp_le_int [of "a - b" M] by fastforce
qed

lemma pack_sq_inj:
  assumes "pack_sq a = Inr p" and "pack_sq b = Inr p"
  shows "a = b"
proof -
  from assms have r: "- (2 ^ 63) \<le> a" "a < 2 ^ 63" "- (2 ^ 63) \<le> b" "b < 2 ^ 63"
    and "enc BE 8 (nat (a mod 2 ^ 64)) = enc BE 8 (nat (b mod 2 ^ 64))"
    by (auto simp: pack_sq_def split: if_splits)
  then have "nat (a mod 2 ^ 64) = nat (b mod 2 ^ 64)"
    by (intro enc_inj [of _ 8 _ BE]) (simp_all add: nat_less_iff)
  moreover have "\<bar>a - b\<bar> < 2 ^ 64" using r by auto
  ultimately show ?thesis by (intro mod_window) auto
qed

lemma pack_length:
  "pack_q v = Inr p \<Longrightarrow> length p = 8" "pack_sq v = Inr p \<Longrightarrow> length p = 8"
  by (auto simp: pack_q_def pack_sq_def split: if_splits)

lemma pack_identity_InrD:
  assumes "pack_identity k = Inr p"
  obtains dev ino sz mtime ctime a b c m t where "k = [dev, ino, sz, mtime, ctime]"
    and "pack_q dev = Inr a" and "pack_q ino = Inr b" and "pack_q sz = Inr c"
    and "pack_sq mtime = Inr m" and "pack_sq ctime = Inr t" and "p = a @ b @ c @ m @ t"
  using assms by (cases k rule: pack_identity.cases) auto

lemma pack_identity_inj:
  assumes "pack_identity k = Inr p" and "pack_identity k' = Inr p"
  shows "k = k'"
proof -
  from assms(1) obtain dev ino sz mtime ctime a b c m t where
    k: "k = [dev, ino, sz, mtime, ctime]" and p: "p = a @ b @ c @ m @ t"
    and x: "pack_q dev = Inr a" "pack_q ino = Inr b" "pack_q sz = Inr c"
    "pack_sq mtime = Inr m" "pack_sq ctime = Inr t" by (rule pack_identity_InrD)
  from assms(2) obtain dev' ino' sz' mtime' ctime' a' b' c' m' t' where
    k': "k' = [dev', ino', sz', mtime', ctime']" and p': "p = a' @ b' @ c' @ m' @ t'"
    and x': "pack_q dev' = Inr a'" "pack_q ino' = Inr b'" "pack_q sz' = Inr c'"
    "pack_sq mtime' = Inr m'" "pack_sq ctime' = Inr t'" by (rule pack_identity_InrD)
  have "a = a' \<and> b = b' \<and> c = c' \<and> m = m' \<and> t = t'"
    using p p' x x' by (simp add: pack_length append_eq_append_conv)
  then show ?thesis
    using k k' x x' by (auto dest: pack_q_inj pack_sq_inj)
qed

text \<open>
  The negative index answers exactly by identity: after a resource has been remembered,
  asking about the same path says "unchanged" when and only when the file's device, inode,
  size and timestamps are those remembered; and no more than 10,000 rows are ever
  uncommitted.
\<close>

theorem remember_unchanged:
  assumes "connected ix" and "\<not> readonly ix" and "pending ix < 10000"
    and "remember ix path k = Inr ix'" and "unchanged ix' path k' = Inr b"
  shows "(b \<longleftrightarrow> k' = k) \<and> pending ix' < 10000"
proof -
  from assms(1,2,4) obtain p where p: "pack_identity k = Inr p" and r: "rows ix' path = Some p"
    and c: "connected ix'" and n: "pending ix' < 10000"
    by (cases ix) (auto simp: remember_def Let_def split: if_split_asm)
  from assms(5) c r obtain p' where p': "pack_identity k' = Inr p'" and b: "b \<longleftrightarrow> p = p'"
    by (auto simp: unchanged_def)
  have "p = p' \<longleftrightarrow> k' = k" using p p' pack_identity_inj by auto
  with b n show ?thesis by simp
qed

lemma sample_remembered:
  "\<exists>ix'. remember \<lparr>connected = True, readonly = False, rows = Map.empty, committed = Map.empty, pending = 9999\<rparr>
     ''a'' [1, 2, 3, -4, 5] = Inr ix' \<and> unchanged ix' ''a'' [1, 2, 3, 4, 5] = Inr False"
  by (simp add: remember_def unchanged_def pack_q_def pack_sq_def) code_simp

theorem remember_unchanged_witness:
  "\<exists>ix'. remember \<lparr>connected = True, readonly = False, rows = Map.empty, committed = Map.empty, pending = 9999\<rparr>
     ''a'' [1, 2, 3, -4, 5] = Inr ix' \<and> (False \<longleftrightarrow> [1, 2, 3, 4, 5 :: int] = [1, 2, 3, -4, 5]) \<and> pending ix' < 10000"
proof -
  let ?ix = "\<lparr>connected = True, readonly = False, rows = Map.empty, committed = Map.empty, pending = 9999\<rparr>"
  obtain ix' where r: "remember ?ix ''a'' [1, 2, 3, -4, 5] = Inr ix'"
    and u: "unchanged ix' ''a'' [1, 2, 3, 4, 5] = Inr False" using sample_remembered by blast
  with remember_unchanged [OF _ _ _ r u] show ?thesis by (intro exI [of _ ix']) simp
qed

subsection \<open>The manifest round trip\<close>

lemma load_save_cache:
  "save_cache dl own m files = Inr mf \<Longrightarrow> load_cache (Some mf) = files"
  by (auto simp: save_cache_def load_cache_def Let_def py_get_def writable_by_others_def not_less)

lemma decode_encode_code:
  "valid_record r \<Longrightarrow> decode_code (encode_code r) = Some r"
  by (cases r) (auto simp: decode_code_def encode_code_def py_get_def valid_record_def is_hash_def)

lemma cached_codes_encode:
  assumes "\<forall>r \<in> set rs. valid_record r"
  shows "cached_codes (encode_record (k, rs)) k' = (if k = k' \<and> rs \<noteq> [] then Some rs else None)"
proof -
  have "map (the \<circ> decode_code) (map encode_code rs) = rs"
    using assms by (simp add: decode_encode_code map_idI)
  moreover have "None \<notin> set (map decode_code (map encode_code rs))"
    using assms by (auto simp: decode_encode_code)
  ultimately show ?thesis
    by (simp add: cached_codes_def encode_record_def py_get_def py_eq_int_lists del: py_eq.simps map_map)
qed

subsection \<open>A scan and its manifest\<close>

lemma checkpoint_cached [simp]: "checkpoint E (st\<lparr>cached := n\<rparr>) = checkpoint E st"
  by (simp add: checkpoint_def split: option.split)

lemma checkpoint_scanned [simp]:
  "checkpoint E (st\<lparr>cached := n, scanned := k\<rparr>) = checkpoint E (st\<lparr>scanned := k\<rparr>)"
  by (simp add: checkpoint_def split: option.split)

definition manifest_of :: "scan_state \<Rightarrow> (string \<times> pyval) list" where
  "manifest_of st = map (\<lambda>(p, r). (p, encode_record r)) (records st)"

lemma map_of_manifest: "map_of (manifest_of st) p = map_option encode_record (map_of (records st) p)"
  by (simp add: manifest_of_def map_of_map)


text \<open>
  What a scan records it has read: without a manifest every record is the result of reading
  an observed file under the identity it is recorded with.
\<close>

definition read_from :: "scan_env \<Rightarrow> observation list \<Rightarrow> scan_state \<Rightarrow> bool" where
  "read_from E ys st \<longleftrightarrow> (\<forall>p k cs. map_of (records st) p = Some (k, cs) \<longrightarrow>
     cs \<noteq> [] \<and> (\<exists>y \<in> set ys. fpath y = p \<and> key y = k \<and> code_hashes (hash_fun E) (content y) (fsize y) = Inr cs))"

lemma read_codes_hashes: "read_codes E x = Inr cs \<Longrightarrow> code_hashes (hash_fun E) (content x) (fsize x) = Inr cs"
  by (auto simp: read_codes_def split: if_splits)

lemma admit_records:
  assumes "admit E x cs s = Inr t"
  shows "map_of (records t) = (if cs = [] then map_of (records s) else (map_of (records s))(fpath x \<mapsto> (key x, cs)))"
  using assms by (auto simp: admit_def resource_remember_def Let_def split: option.splits if_splits)

lemma read_from_step:
  assumes "read_from E ys s" and "x \<in> set ys" and "scan_step E Map.empty x s = Inr t"
  shows "read_from E ys t"
proof (cases "map_of (records t) = map_of (records s)")
  case True
  then show ?thesis using assms(1) by (simp add: read_from_def)
next
  case False
  with assms(3) obtain cs where cs: "read_codes E x = Inr cs"
    and ad: "admit E x cs (s\<lparr>scanned := scanned s + 1\<rparr>) = Inr t"
    by (auto simp: scan_step_def Let_def split: if_splits)
  from admit_records [OF ad] False
  have "cs \<noteq> []" "map_of (records t) = (map_of (records s))(fpath x \<mapsto> (key x, cs))" by (auto split: if_splits)
  then show ?thesis using assms(1,2) read_codes_hashes [OF cs] by (auto simp: read_from_def)
qed

lemma read_from_scan: "scan E Map.empty ys ix = Inr st \<Longrightarrow> read_from E ys st"
proof -
  assume run: "scan E Map.empty ys ix = Inr st"
  have "read_from E ys t" if "foldE (scan_step E Map.empty) zs s = Inr t" "read_from E ys s" "set zs \<subseteq> set ys" for zs s t
    using that by (induction zs arbitrary: s) (auto dest: read_from_step)
  from this [OF run [unfolded scan_def]] show ?thesis by (simp add: read_from_def scan_start_def)
qed

text \<open>The negative index is honest when no row of it names a signed file under its present identity.\<close>

definition honest_index :: "scan_env \<Rightarrow> observation list \<Rightarrow> resource_index option \<Rightarrow> bool" where
  "honest_index E xs ix \<longleftrightarrow> (\<forall>i x p. ix = Some i \<longrightarrow> x \<in> set xs \<longrightarrow> pack_identity (key x) = Inr p \<longrightarrow>
     rows i (fpath x) = Some p \<longrightarrow> code_hashes (hash_fun E) (content x) (fsize x) = Inr [])"

text \<open>One file, one identity: two observations with the same path and identity show the same bytes.\<close>

definition same_bytes :: "observation list \<Rightarrow> observation list \<Rightarrow> bool" where
  "same_bytes xs ys \<longleftrightarrow> (\<forall>x \<in> set xs. \<forall>y \<in> set ys. fpath y = fpath x \<longrightarrow> key y = key x \<longrightarrow>
     content y = content x \<and> fsize y = fsize x)"

lemma honest_remember:
  assumes "honest_index E xs (resources s)" and "same_bytes xs xs" and "x \<in> set xs"
    and "code_hashes (hash_fun E) (content x) (fsize x) = Inr []" and "resource_remember s x = Inr t"
  shows "honest_index E xs (resources t)"
proof (cases "resources s")
  case None
  with assms show ?thesis by (simp add: resource_remember_def)
next
  case (Some i)
  with assms(5) obtain j where j: "remember i (fpath x) (key x) = Inr j" and t: "resources t = Some j"
    by (auto simp: resource_remember_def)
  show ?thesis unfolding honest_index_def
  proof (intro allI impI)
    fix i' y p
    assume a: "resources t = Some i'" "y \<in> set xs" "pack_identity (key y) = Inr p" "rows i' (fpath y) = Some p"
    show "code_hashes (hash_fun E) (content y) (fsize y) = Inr []"
    proof (cases "rows i (fpath y) = Some p")
      case True
      with assms(1) Some a show ?thesis by (auto simp: honest_index_def)
    next
      case False
      with a t j have "fpath y = fpath x" "pack_identity (key x) = Inr p"
        by (auto simp: remember_def Let_def split: if_splits)
      moreover from this a have "key y = key x" by (metis pack_identity_inj)
      ultimately have "content y = content x \<and> fsize y = fsize x"
        using assms(2,3) a(2) unfolding same_bytes_def by blast
      with assms(4) show ?thesis by simp
    qed
  qed
qed

lemma admit_cached:
  "admit E x cs s = Inr t \<Longrightarrow> admit E x cs (s\<lparr>cached := n\<rparr>) = Inr (t\<lparr>cached := n\<rparr>)"
  by (auto simp: admit_def resource_remember_def Let_def split: option.splits if_splits)

lemma admit_keeps_index: "cs \<noteq> [] \<Longrightarrow> admit E x cs s = Inr t \<Longrightarrow> resources t = resources s"
  by (auto simp: admit_def Let_def split: if_splits)
subsection \<open>What admission guarantees\<close>

definition recorded_hashes :: "scan_state \<Rightarrow> string set" where
  "recorded_hashes st = (\<Union>(k, cs) \<in> ran (map_of (records st)). chash ` set cs)"

definition scan_wf :: "scan_state \<Rightarrow> bool" where
  "scan_wf st \<longleftrightarrow> finite (recorded_hashes st) \<and> seen st = dom (map_of (records st)) \<and> hashes st = recorded_hashes st \<and>
     images st = card (seen st) \<and> images st \<le> scanned st \<and> distinct (map fst (records st))"

lemma scan_wf_start: "scan_wf (scan_start ix)"
  by (simp add: scan_wf_def scan_start_def recorded_hashes_def)

lemma scan_wf_idle:
  "scan_wf st \<Longrightarrow> scan_wf (st\<lparr>resources := r\<rparr>)"
  "scan_wf st \<Longrightarrow> scan_wf (st\<lparr>cached := n\<rparr>)"
  "scan_wf st \<Longrightarrow> scan_wf (st\<lparr>resource_hits := n\<rparr>)"
  "scan_wf st \<Longrightarrow> scan_wf (st\<lparr>scanned := scanned st + 1\<rparr>)"
  by (auto simp: scan_wf_def recorded_hashes_def)

lemma scan_wf_admit:
  assumes "scan_wf st" and "fpath x \<notin> seen st" and "images st < scanned st" and "admit E x cs st = Inr t"
  shows "scan_wf t"
proof (cases "cs = []")
  case True
  with assms show ?thesis
    by (auto simp: admit_def resource_remember_def scan_wf_idle split: option.splits)
next
  case False
  with assms have t: "t = st\<lparr>seen := insert (fpath x) (seen st), images := images st + 1,
      records := py_set (records st) (fpath x) (key x, cs), hashes := hashes st \<union> chash ` set cs\<rparr>"
    by (auto simp: admit_def Let_def)
  have new: "map_of (records st) (fpath x) = None" using assms(1,2) by (auto simp: scan_wf_def)
  have "finite (seen st)" using assms(1) by (simp add: scan_wf_def finite_dom_map_of)
  then show ?thesis
    using assms new by (auto simp: scan_wf_def t recorded_hashes_def ran_map_upd distinct_py_set simp del: ran_def)
qed

lemma scan_wf_step:
  assumes "scan_wf st" and "scan_step E cache x st = Inr t"
  shows "scan_wf t"
proof -
  let ?s = "st\<lparr>scanned := scanned st + 1\<rparr>"
  have s: "scan_wf ?s" "images ?s < scanned ?s"
    using scan_wf_idle(4) [OF assms(1)] assms(1) by (simp_all add: scan_wf_def)
  show ?thesis
  proof (cases "fpath x \<in> seen st")
    case True
    with assms show ?thesis by (simp add: scan_step_def)
  next
    case False
    note adm = scan_wf_admit [of _ x E]
    show ?thesis
    proof (cases "Option.bind (cache (fpath x)) (\<lambda>previous. cached_codes previous (key x))")
      case None
      with assms(2) False s show ?thesis
        by (auto simp: scan_step_def Let_def intro: scan_wf_idle adm [OF s(1)] split: if_splits)
    next
      case (Some cs)
      with assms(2) False have "admit E x cs (?s\<lparr>cached := cached ?s + 1\<rparr>) = Inr t"
        by (auto simp: scan_step_def Let_def)
      then show ?thesis by (rule adm [rotated -1]) (use False s in \<open>simp_all add: scan_wf_idle\<close>)
    qed
  qed
qed

lemma scan_wf_scan: "scan E cache xs ix = Inr st \<Longrightarrow> scan_wf st"
  unfolding scan_def by (rule foldE_invariant) (auto intro: scan_wf_start scan_wf_step)

lemma restore_trusts:
  assumes "restore D hs readd c = Inr (r, c')" and "finite hs"
  shows "\<exists>P. trusted_hashes D c' = Inr P \<and> hs \<subseteq> P"
  using assms by (auto simp: restore_def Let_def split: if_splits)

lemma required_hashes:
  assumes "foldE required_hash extra hs = Inr hs'"
  shows "hs' = hs \<union> lower ` set extra"
  using assms by (induction extra arbitrary: hs) (auto simp: required_hash_def split: if_splits)

lemma all_current:
  assumes "foldE (still_current now) rs () = Inr ()" and "r \<in> set rs"
  shows "now (fst r) = Some (fst (snd r))"
  using assms by (induction rs) (auto simp: still_current_def split: option.splits if_splits)


text \<open>The records of the full scan that the manifest answers.\<close>

definition unchanged_images :: "scan_state \<Rightarrow> scan_state \<Rightarrow> string set" where
  "unchanged_images st st0 =
     {p \<in> dom (map_of (records st)). map_of (records st0) p = map_of (records st) p}"

definition answers :: "(string \<rightharpoonup> pyval) \<Rightarrow> (string \<rightharpoonup> identity \<times> code_record list) \<Rightarrow> bool" where
  "answers c R \<longleftrightarrow> (\<forall>p k cs. Option.bind (c p) (\<lambda>v. cached_codes v k) = Some cs \<longleftrightarrow> R p = Some (k, cs))"

definition still_holds :: "scan_env \<Rightarrow> (string \<rightharpoonup> identity \<times> code_record list) \<Rightarrow> observation \<Rightarrow> bool" where
  "still_holds E R x \<longleftrightarrow> (\<forall>cs. R (fpath x) = Some (key x, cs) \<longrightarrow>
     cs \<noteq> [] \<and> code_hashes (hash_fun E) (content x) (fsize x) = Inr cs)"

lemma manifest_answers:
  assumes "\<forall>p k cs. R p = Some (k, cs) \<longrightarrow> cs \<noteq> [] \<and> (\<forall>r \<in> set cs. valid_record r)"
  shows "answers (\<lambda>p. map_option encode_record (R p)) R"
  unfolding answers_def
proof (intro allI)
  fix p k cs
  show "Option.bind (map_option encode_record (R p)) (\<lambda>v. cached_codes v k) = Some cs \<longleftrightarrow> R p = Some (k, cs)"
    using assms by (cases "R p") (auto simp: cached_codes_encode split: if_splits)
qed

lemma replay_step:
  assumes ans: "answers c R" and holds: "still_holds E R x"
    and idx: "honest_index E xs (resources s)" "same_bytes xs xs" "x \<in> set xs" and wf: "scan_wf s"
    and run: "scan_step E Map.empty x s = Inr t"
  shows "honest_index E xs (resources t) \<and>
    scan_step E c x (s\<lparr>cached := card {p \<in> dom (map_of (records s)). R p = map_of (records s) p}\<rparr>) =
      Inr (t\<lparr>cached := card {p \<in> dom (map_of (records t)). R p = map_of (records t) p}\<rparr>)"
proof (cases "fpath x \<in> seen s")
  case True
  with run idx(1) show ?thesis by (auto simp: scan_step_def)
next
  case False
  have c: "Option.bind (c (fpath x)) (\<lambda>v. cached_codes v k) = Some cs \<longleftrightarrow> R (fpath x) = Some (k, cs)" for k cs
    using ans by (simp add: answers_def)
  have R: "cs \<noteq> [] \<and> code_hashes (hash_fun E) (content x) (fsize x) = Inr cs" if "R (fpath x) = Some (key x, cs)" for cs
    using holds that by (simp add: still_holds_def)
  let ?n = "card {p \<in> dom (map_of (records s)). R p = map_of (records s) p}"
  let ?s = "s\<lparr>scanned := scanned s + 1\<rparr>"
  have ck: "checkpoint E ?s = Inr ()" using run False by (auto simp: scan_step_def Let_def)
  obtain hit where hit: "resource_unchanged s x = Inr hit"
    using run False by (auto simp: scan_step_def resource_unchanged_def Let_def)
  have new: "map_of (records s) (fpath x) = None" using wf False by (auto simp: scan_wf_def)
  have fin: "finite {p \<in> dom (map_of (records s)). R p = map_of (records s) p}" by (simp add: finite_dom_map_of)
  have ru: "resource_unchanged (s\<lparr>scanned := a, cached := b\<rparr>) x = Inr hit"
    "resource_unchanged (s\<lparr>scanned := a\<rparr>) x = Inr hit" for a b
    using hit by (simp_all add: resource_unchanged_def)
  have swap: "s\<lparr>cached := a, scanned := b\<rparr> = s\<lparr>scanned := b, cached := a\<rparr>" for a b by simp
  have hit_empty: "code_hashes (hash_fun E) (content x) (fsize x) = Inr []" if hit
    using that hit idx(1,3)
    by (auto simp: resource_unchanged_def unchanged_def honest_index_def split: option.splits if_splits)
  show ?thesis
  proof (cases hit)
    case True
    with run False ck ru have t: "t = ?s\<lparr>resource_hits := resource_hits s + 1\<rparr>"
      by (auto simp: scan_step_def Let_def)
    have "R (fpath x) \<noteq> Some (key x, cs)" for cs using R hit_empty True by fastforce
    then have "Option.bind (c (fpath x)) (\<lambda>v. cached_codes v (key x)) = None" using c by (metis option.exhaust)
    with True False ck ru t idx(1) show ?thesis by (simp add: scan_step_def Let_def swap)
  next
    case nohit: False
    with run False ck ru obtain cs where cs: "read_codes E x = Inr cs" and ad: "admit E x cs ?s = Inr t"
      by (auto simp: scan_step_def Let_def)
    note h = read_codes_hashes [OF cs]
    note rec = admit_records [OF ad]
    have idx': "honest_index E xs (resources t)"
    proof (cases "cs = []")
      case True
      with ad have "resource_remember ?s x = Inr t" by (simp add: admit_def)
      with honest_remember [of E xs ?s x t] idx h True show ?thesis by simp
    next
      case False
      with admit_keeps_index [OF False ad] idx(1) show ?thesis by simp
    qed
    show ?thesis
    proof (cases "R (fpath x) = Some (key x, cs)")
      case True
      with R have ne: "cs \<noteq> []" by blast
      have "{p \<in> dom (map_of (records t)). R p = map_of (records t) p} =
          insert (fpath x) {p \<in> dom (map_of (records s)). R p = map_of (records s) p}"
        using rec ne True new by (auto split: if_splits)
      then have "card {p \<in> dom (map_of (records t)). R p = map_of (records t) p} = ?n + 1"
        using fin new by (simp add: domIff)
      moreover have "Option.bind (c (fpath x)) (\<lambda>v. cached_codes v (key x)) = Some cs" using True c by simp
      moreover have "s\<lparr>cached := a, scanned := b, cached := d\<rparr> = s\<lparr>scanned := b, cached := d\<rparr>" for a b d by simp
      ultimately show ?thesis using False ck ad idx'
        by (simp add: scan_step_def Let_def admit_cached)
    next
      case miss: False
      have "R (fpath x) \<noteq> Some (key x, cs')" for cs' using miss R h by fastforce
      then have none: "Option.bind (c (fpath x)) (\<lambda>v. cached_codes v (key x)) = None" using c by (metis option.exhaust)
      have "{p \<in> dom (map_of (records t)). R p = map_of (records t) p} =
          {p \<in> dom (map_of (records s)). R p = map_of (records s) p}"
        using rec miss new by (auto split: if_splits)
      then show ?thesis using none False ck ru nohit cs ad idx'
        by (simp add: scan_step_def Let_def admit_cached swap)
    qed
  qed
qed

lemma replay:
  assumes "answers c R" and "\<forall>x \<in> set zs. still_holds E R x"
    and "honest_index E xs (resources s)" and "same_bytes xs xs" and "set zs \<subseteq> set xs" and "scan_wf s"
    and "foldE (scan_step E Map.empty) zs s = Inr t"
  shows "foldE (scan_step E c) zs (s\<lparr>cached := card {p \<in> dom (map_of (records s)). R p = map_of (records s) p}\<rparr>) =
      Inr (t\<lparr>cached := card {p \<in> dom (map_of (records t)). R p = map_of (records t) p}\<rparr>)"
  using assms
proof (induction zs arbitrary: s)
  case Nil
  then show ?case by simp
next
  case (Cons x zs)
  from Cons.prems(7) obtain u where u: "scan_step E Map.empty x s = Inr u"
    and rest: "foldE (scan_step E Map.empty) zs u = Inr t" by auto
  have x: "x \<in> set xs" "set zs \<subseteq> set xs" "still_holds E R x" "\<forall>x \<in> set zs. still_holds E R x"
    using Cons.prems(2,5) by auto
  from replay_step [OF Cons.prems(1) x(3) Cons.prems(3,4) x(1) Cons.prems(6) u]
  have ix: "honest_index E xs (resources u)" and
    step: "scan_step E c x (s\<lparr>cached := card {p \<in> dom (map_of (records s)). R p = map_of (records s) p}\<rparr>) =
      Inr (u\<lparr>cached := card {p \<in> dom (map_of (records u)). R p = map_of (records u) p}\<rparr>)" by simp_all
  have "scan_wf u" using scan_wf_step [OF Cons.prems(6) u] .
  from Cons.IH [OF Cons.prems(1) x(4) ix Cons.prems(4) x(2) this rest] step show ?case by simp
qed

text \<open>
  C2: The manifest is transparent.  Let an earlier scan of any files have been saved, and let
  any files be scanned now: unchanged, changed, new or listed twice, with or without the
  index of known resources.  Suppose only that equal path and identity mean equal bytes
  (\<open>same_bytes\<close>) and that no row of the index names a signed file under its present identity
  (\<open>honest_index\<close>).  Then, whenever reading every file succeeds, the scan with the
  loaded manifest succeeds with exactly the same records, hashes, seen paths, counts and
  index, and exactly the images whose record is the one of the earlier scan are answered
  from the manifest instead of being read.
\<close>

theorem scan_cache_transparent:
  assumes "hash_sizes (hash_fun E)" and "hash_fun E\<^sub>0 = hash_fun E"
    and "scan E\<^sub>0 Map.empty ys ix\<^sub>0 = Inr st\<^sub>0"
    and "save_cache dumps_len own m (manifest_of st\<^sub>0) = Inr mf"
    and "same_bytes xs (xs @ ys)" and "honest_index E xs ix"
    and "scan E Map.empty xs ix = Inr st"
  shows "scan E (map_of (load_cache (Some mf))) xs ix =
    Inr (st\<lparr>cached := card (unchanged_images st st\<^sub>0)\<rparr>)"
proof -
  let ?R = "map_of (records st\<^sub>0)"
  have R: "cs \<noteq> [] \<and> (\<forall>r \<in> set cs. valid_record r) \<and>
      (\<exists>y \<in> set ys. fpath y = p \<and> key y = k \<and> code_hashes (hash_fun E) (content y) (fsize y) = Inr cs)"
    if "?R p = Some (k, cs)" for p k cs
    using read_from_scan [OF assms(3)] that code_hashes_valid_records [OF assms(1)] assms(2)
    by (fastforce simp: read_from_def)
  then have V: "\<forall>p k cs. ?R p = Some (k, cs) \<longrightarrow> cs \<noteq> [] \<and> (\<forall>r \<in> set cs. valid_record r)" by blast
  have now: "cs \<noteq> [] \<and> code_hashes (hash_fun E) (content x) (fsize x) = Inr cs"
    if x: "x \<in> set xs" "?R (fpath x) = Some (key x, cs)" for x cs
  proof -
    from R [OF x(2)] obtain y where y: "cs \<noteq> []" "y \<in> set ys" "fpath y = fpath x" "key y = key x"
      "code_hashes (hash_fun E) (content y) (fsize y) = Inr cs" by blast
    with assms(5) x(1) have "content y = content x" "fsize y = fsize x"
      unfolding same_bytes_def by (metis Un_iff set_append)+
    with y show ?thesis by simp
  qed
  have self: "same_bytes xs xs" using assms(5) unfolding same_bytes_def set_append by blast
  have start: "scan_start ix\<lparr>cached := card {p \<in> dom (map_of (records (scan_start ix))).
      ?R p = map_of (records (scan_start ix)) p}\<rparr> = scan_start ix" by (simp add: scan_start_def)
  have ix: "honest_index E xs (resources (scan_start ix))" using assms(6) by (simp add: scan_start_def)
  have "\<forall>x \<in> set xs. still_holds E ?R x" using now by (simp add: still_holds_def)
  moreover have "answers (map_of (manifest_of st\<^sub>0)) ?R"
    using manifest_answers [OF V] unfolding answers_def map_of_manifest by assumption
  ultimately have "foldE (scan_step E (map_of (manifest_of st\<^sub>0))) xs (scan_start ix\<lparr>cached := card {p \<in> dom (map_of (records (scan_start ix))).
      ?R p = map_of (records (scan_start ix)) p}\<rparr>) = Inr (st\<lparr>cached := card {p \<in> dom (map_of (records st)). ?R p = map_of (records st) p}\<rparr>)"
    by (intro replay [OF _ _ ix self subset_refl scan_wf_start assms(7) [unfolded scan_def]])
  then show ?thesis unfolding start by (simp add: scan_def load_save_cache [OF assms(4)] unchanged_images_def)
qed

text \<open>
  C1: Admission is complete.  When the run that follows a successful scan reports success and is
  not a dry run, the trust cache it leaves contains every hash of every recorded
  file, and the lower-case form of every hash required on the command line, and each recorded
  file still had the identity under which its signature was read.
\<close>

theorem admission_trusts:
  assumes "scan E cache xs ix = Inr st"
    and "admission D st now extra False readd c = Inr (r, c')"
  shows "\<exists>P. trusted_hashes D c' = Inr P \<and> lower ` set extra \<subseteq> P \<and>
    (\<forall>(p, k, cs) \<in> set (records st). now p = Some k \<and> chash ` set cs \<subseteq> P)"
proof -
  from scan_wf_scan [OF assms(1)] have wf: "scan_wf st" .
  from assms(2) obtain hs where hs: "foldE required_hash extra (hashes st) = Inr hs"
    and cur: "foldE (still_current now) (records st) () = Inr ()"
    and re: "restore D hs readd c = Inr (r, c')" by (auto simp: admission_def)
  have h: "hs = hashes st \<union> lower ` set extra" by (rule required_hashes [OF hs])
  with wf have "finite hs" by (simp add: scan_wf_def)
  from restore_trusts [OF re this] obtain P where P: "trusted_hashes D c' = Inr P" "hs \<subseteq> P" by blast
  have rec: "now p = Some k \<and> chash ` set cs \<subseteq> P" if "(p, k, cs) \<in> set (records st)" for p k cs
  proof -
    from that wf have "map_of (records st) p = Some (k, cs)" by (simp add: scan_wf_def)
    then have "(k, cs) \<in> ran (map_of (records st))" by (rule ranI)
    then have "chash ` set cs \<subseteq> recorded_hashes st" unfolding recorded_hashes_def by blast
    with wf h P(2) have "chash ` set cs \<subseteq> P" unfolding scan_wf_def by blast
    with all_current [OF cur that] show ?thesis by simp
  qed
  show ?thesis
  proof (intro exI conjI ballI)
    show "trusted_hashes D c' = Inr P" by (rule P(1))
    show "lower ` set extra \<subseteq> P" using P(2) h by blast
    fix y assume y: "y \<in> set (records st)"
    obtain p k cs where "y = (p, k, cs)" by (rule prod_cases3)
    with y show "case y of (p, k, cs) \<Rightarrow> now p = Some k \<and> chash ` set cs \<subseteq> P" by (simp add: rec)
  qed
qed

definition sample_env :: scan_env where
  "sample_env = \<lparr>hash_fun = sample_hasher, due = (\<lambda>_. False), progress = None, ldid = None\<rparr>"

definition sample_file :: observation where
  "sample_file = \<lparr>fpath = ''a'', key = [1, 2, 112, 3, 3], content = sample_image, fsize = 112,
     key_before = [1, 2, 112, 3, 3], key_after = [1, 2, 112, 3, 3]\<rparr>"

definition sample_code :: code_record where
  "sample_code = \<lparr>arch = ''arm64'', ctype = 2, chash = concat (replicate 20 ''2c'')\<rparr>"

definition sample_scan :: scan_state where
  "sample_scan = \<lparr>records = [(''a'', [1, 2, 112, 3, 3], [sample_code])], hashes = {chash sample_code},
     seen = {''a''}, scanned = 1, cached = 0, images = 1, resource_hits = 0, resources = None\<rparr>"

lemma sample_scan_run: "scan sample_env Map.empty [sample_file] None = Inr sample_scan"
  by (simp add: scan_def scan_start_def scan_step_def Let_def sample_env_def sample_file_def checkpoint_def
      resource_unchanged_def read_codes_def sample_code_hashes admit_def ldid_agrees_def sample_scan_def sample_code_def)

definition sample_device :: "string list trust_device" where
  "sample_device = \<lparr>jbctl_info = (\<lambda>c. Inr (''Trustcache '' @ concat (map (\<lambda>h. h @ '' '') c))),
     lib_add = None, jbctl_add = (\<lambda>h c. Inr (h # c))\<rparr>"

lemma sample_runs:
  "map lower (filter is_hex_any_case (word_runs [] ''Trustcache '')) = []"
  "map lower (filter is_hex_any_case (word_runs [] (''Trustcache '' @ concat (replicate 20 ''2c'') @ '' ''))) =
     [concat (replicate 20 ''2c'')]"
  "has_substring ''Trustcache'' ''Trustcache ''"
  "has_substring ''Trustcache'' (''Trustcache '' @ concat (replicate 20 ''2c'') @ '' '')"
  by code_simp+

lemma sample_trusted:
  "trusted_hashes sample_device [] = Inr {}"
  "trusted_hashes sample_device [chash sample_code] = Inr {chash sample_code}"
  using sample_runs arg_cong [OF sample_runs(1), of set] arg_cong [OF sample_runs(2), of set]
  by (simp_all add: trusted_hashes_def sample_device_def sample_code_def del: word_runs.simps has_substring.simps)

lemma sample_admission:
  "admission sample_device sample_scan [''a'' \<mapsto> [1, 2, 112, 3, 3]] [] False False [] =
     Inr ((1, ''jbctl''), [chash sample_code])"
proof -
  have "lib_add sample_device = None" and "jbctl_add sample_device h c = Inr (h # c)" for h c
    by (simp_all add: sample_device_def)
  then show ?thesis
    by (simp add: admission_def sample_scan_def still_current_def restore_def add_hash_def sample_trusted)
qed

theorem admission_trusts_witness:
  "\<exists>P. trusted_hashes sample_device [chash sample_code] = Inr P \<and> lower ` set [] \<subseteq> P \<and>
    (\<forall>(p, k, cs) \<in> set (records sample_scan). [''a'' \<mapsto> [1, 2, 112, 3, 3]] p = Some k \<and> chash ` set cs \<subseteq> P)"
  by (rule admission_trusts [OF sample_scan_run sample_admission])

text \<open>The file of the earlier scan, listed twice, and a file that is new since then.\<close>

definition sample_replaced :: observation where
  "sample_replaced = sample_file\<lparr>fpath := ''b''\<rparr>"

definition sample_rescan :: scan_state where
  "sample_rescan = \<lparr>records = [(''a'', [1, 2, 112, 3, 3], [sample_code]), (''b'', [1, 2, 112, 3, 3], [sample_code])],
     hashes = {chash sample_code}, seen = {''b'', ''a''}, scanned = 2, cached = 0, images = 2, resource_hits = 0,
     resources = None\<rparr>"

lemma sample_rescan_run: "scan sample_env Map.empty [sample_file, sample_replaced, sample_file] None = Inr sample_rescan"
  by (simp add: scan_def scan_start_def scan_step_def Let_def sample_env_def sample_file_def sample_replaced_def checkpoint_def
      resource_unchanged_def read_codes_def sample_code_hashes admit_def ldid_agrees_def sample_rescan_def sample_code_def)

lemma sample_unchanged: "unchanged_images sample_rescan sample_scan = {''a''}"
  by (auto simp: unchanged_images_def sample_rescan_def sample_scan_def)

lemma sample_manifest:
  "\<exists>mf. save_cache (\<lambda>_. 200) True 493 (manifest_of sample_scan) = Inr mf"
  by (simp add: save_cache_def writable_by_others_def MAX_CACHE_BYTES_def)

theorem scan_cache_transparent_witness:
  "\<exists>mf. save_cache (\<lambda>_. 200) True 493 (manifest_of sample_scan) = Inr mf \<and>
     scan sample_env (map_of (load_cache (Some mf))) [sample_file, sample_replaced, sample_file] None =
       Inr (sample_rescan\<lparr>cached := 1\<rparr>)"
proof -
  obtain mf where mf: "save_cache (\<lambda>_. 200) True 493 (manifest_of sample_scan) = Inr mf"
    using sample_manifest by blast
  have h: "hash_sizes (hash_fun sample_env)" by (simp add: sample_env_def sample_hasher_sizes)
  have b: "same_bytes [sample_file, sample_replaced, sample_file] ([sample_file, sample_replaced, sample_file] @ [sample_file])"
    by (auto simp: same_bytes_def sample_replaced_def)
  have i: "honest_index sample_env [sample_file, sample_replaced, sample_file] None" by (simp add: honest_index_def)
  from scan_cache_transparent [OF h refl sample_scan_run mf b i sample_rescan_run] mf
  show ?thesis by (simp add: sample_unchanged)
qed

end
