(* ===== verification/MachoDeps.thy ===== *)
theory MachoDeps
  imports BootTrust PyValue Strings
begin

text \<open>
  \<^verbatim>\<open>macws_macho_dependencies.py\<close>: the load commands of the arm64 slices of an image and the
  bounded closure of its dependencies over the files of a root file system.  The file
  system is a parameter: \<open>realpath\<close>, \<open>isfile\<close>, and what \<open>stat\<close> and \<open>open\<close> show for a path.
\<close>

subsection \<open>Load commands\<close>

definition DYLIB_COMMANDS :: "nat list" where
  "DYLIB_COMMANDS = [0x0c, 0x18, 0x1f, 0x20, 0x23]"

definition MAX_IMAGES :: nat where "MAX_IMAGES = 512"
definition MAX_DEPTH :: nat where "MAX_DEPTH = 32"

type_synonym dep_names = "string list \<times> string list"

text \<open>The name a dylib or rpath command carries.\<close>

definition command_name :: "bytes \<Rightarrow> endian \<Rightarrow> nat \<Rightarrow> nat \<Rightarrow> nat \<Rightarrow> string result" where
  "command_name d e command cursor width =
     (let minimum = (if command = 0x1c then 12 else 24) in
      bindE (read_at d (cursor + 8) 4 cursor (cursor + width)) (\<lambda>field.
      let offset = u32 e field 0 in
      if width < minimum \<or> offset < minimum \<or> offset \<ge> width
      then Inl (InvalidMachO ''invalid dependency name offset'')
      else bindE (read_at d (cursor + offset) (min (width - offset) 4096) cursor (cursor + width)) (\<lambda>text.
      if 0 \<notin> set text then Inl (InvalidMachO ''unterminated/oversized dependency name'')
      else decode_utf8 (until_nul text))))"

fun dep_walk :: "bytes \<Rightarrow> endian \<Rightarrow> nat \<Rightarrow> nat \<Rightarrow> nat \<Rightarrow> nat \<Rightarrow> dep_names \<Rightarrow> (nat \<times> dep_names) result" where
  "dep_walk d e base fin 0 cursor names = Inr (cursor, names)"
| "dep_walk d e base fin (Suc n) cursor (loads, rpaths) =
     bindE (read_at d cursor 8 (base + 32) fin) (\<lambda>head.
     let width = u32 e head 4 in
     if width < 8 \<or> width mod 4 \<noteq> 0 \<or> cursor + width > fin
     then Inl (InvalidMachO ''invalid dependency load command'')
     else
     let command = u32 e head 0 mod 0x80000000 in
     if command \<in> set DYLIB_COMMANDS \<or> command = 0x1c
     then bindE (command_name d e command cursor width) (\<lambda>name.
       dep_walk d e base fin n (cursor + width)
         (if command = 0x1c then (loads, add_new name rpaths) else (add_new name loads, rpaths)))
     else dep_walk d e base fin n (cursor + width) (loads, rpaths))"

definition slice_commands :: "bytes \<Rightarrow> nat \<Rightarrow> nat \<Rightarrow> dep_names \<Rightarrow> dep_names result" where
  "slice_commands d base len names =
     bindE (read_at d base 32 base (base + len)) (\<lambda>header.
     if take 4 header \<noteq> [0xcf, 0xfa, 0xed, 0xfe] \<and> take 4 header \<noteq> [0xfe, 0xed, 0xfa, 0xcf] then Inr names
     else
     let e = (if take 4 header = [0xcf, 0xfa, 0xed, 0xfe] then LE else BE) in
     if u32 e header 4 \<noteq> 0x0100000c then Inr names
     else
     let count = u32 e header 16; command_bytes = u32 e header 20; fin = base + 32 + command_bytes in
     if count > 65536 \<or> command_bytes > 4 * 1024 * 1024 \<or> fin > base + len
     then Inl (InvalidMachO ''invalid dependency load table'')
     else bindE (dep_walk d e base fin count (base + 32) names) (\<lambda>(cursor, names').
     if cursor \<noteq> fin then Inl (InvalidMachO ''dependency command count/size mismatch'')
     else Inr names'))"

text \<open>
  \<open>native_slices\<close> is a generator: a row of the fat table is read only when the slices
  before it have been processed, so the model runs the consumer inside the loop.
\<close>

definition slice_row ::
  "bytes \<Rightarrow> nat \<Rightarrow> endian \<Rightarrow> bool \<Rightarrow> nat \<Rightarrow> nat \<Rightarrow> dep_names \<Rightarrow> dep_names result" where
  "slice_row d sz e wide count index names =
     (let width = (if wide then 32 else 20) in
      bindE (read_at d (8 + index * width) width 0 sz) (\<lambda>row.
      case fat_fields e wide row of (cpu, _, off, len) \<Rightarrow>
      if off < 8 + count * width \<or> off + len > sz
      then Inl (InvalidMachO ''dependency slice outside file'')
      else if cpu = 0x0100000c then slice_commands d off len names
      else Inr names))"

definition load_commands :: "bytes \<Rightarrow> nat \<Rightarrow> dep_names result" where
  "load_commands d sz =
     bindE (read_at d 0 4 0 sz) (\<lambda>magic.
     if magic \<in> set fat_magics then
       let e = (if take 2 magic = [0xca, 0xfe] then BE else LE);
           wide = (magic = [0xca, 0xfe, 0xba, 0xbf] \<or> magic = [0xbf, 0xba, 0xfe, 0xca]);
           width = (if wide then 32 else 20) in
       bindE (read_at d 4 4 0 sz) (\<lambda>field.
       let count = u32 e field 0 in
       if count > 64 \<or> 8 + count * width > sz
       then Inl (InvalidMachO ''invalid fat dependency table'')
       else foldE (slice_row d sz e wide count) [0..<count] ([], []))
     else slice_commands d 0 sz ([], []))"

subsection \<open>The file system and the closure\<close>

text \<open>
  What \<open>stat\<close> shows of a path, the bytes \<open>open\<close> gives and the identity \<open>fstat\<close> reports after
  reading them.
\<close>

record dep_file =
  regular_file :: bool
  dev_ino :: "int \<times> int"
  stat_identity :: identity
  stat_size :: nat
  file_bytes :: bytes
  open_identity :: identity

record dep_fs =
  realpath :: "string \<Rightarrow> string"
  isfile :: "string \<Rightarrow> bool"
  stat_file :: "string \<Rightarrow> dep_file option"

record dep_state =
  ordered :: "string list"
  visited :: "(int \<times> int) set"
  metadata :: "(string \<times> dep_names \<times> identity) list"

definition contained :: "dep_fs \<Rightarrow> string \<Rightarrow> string \<Rightarrow> string result" where
  "contained F root path =
     (let canonical = realpath F path in
      if starts (root @ ''/'') canonical then Inr canonical
      else Inl (ValueError ''dependency escapes rootfs: ''))"

definition expand :: "string \<Rightarrow> string \<Rightarrow> string \<Rightarrow> string \<Rightarrow> string option" where
  "expand root executable_dir name loader =
     (if starts ''@loader_path/'' name then Some (path_join loader (drop 13 name))
      else if starts ''@executable_path/'' name then Some (path_join executable_dir (drop 17 name))
      else if starts ''/'' name then Some (root @ name)
      else None)"

text \<open>A cached entry is used when it is well formed and its identity is the file's.\<close>

definition cached_names :: "pyval \<Rightarrow> string list option" where
  "cached_names v =
     (case v of
        PList vs \<Rightarrow>
          if length vs \<le> 65536 \<and> list_all (\<lambda>w. case w of PStr s \<Rightarrow> str_length s < 4096 | _ \<Rightarrow> False) vs
          then Some (map (\<lambda>w. case w of PStr s \<Rightarrow> s | _ \<Rightarrow> []) vs) else None
      | _ \<Rightarrow> None)"

definition cached_commands :: "pyval option \<Rightarrow> identity \<Rightarrow> dep_names option" where
  "cached_commands previous identity =
     (case previous of
        Some (PDict kv) \<Rightarrow>
          if py_eq (py_get kv ''identity'') (PList (map PInt identity))
          then (case (cached_names (py_get kv ''loads''), cached_names (py_get kv ''rpaths'')) of
                  (Some loads, Some rpaths) \<Rightarrow> Some (loads, rpaths)
                | _ \<Rightarrow> None)
          else None
      | _ \<Rightarrow> None)"

definition read_commands :: "(string \<rightharpoonup> pyval) \<Rightarrow> string \<Rightarrow> dep_file \<Rightarrow> dep_names result" where
  "read_commands cached path f =
     (case cached_commands (cached path) (stat_identity f) of
        Some commands \<Rightarrow> Inr commands
      | None \<Rightarrow>
          bindE (load_commands (file_bytes f) (stat_size f)) (\<lambda>commands.
          if open_identity f \<noteq> stat_identity f
          then Inl (ValueError ''dependency changed during metadata read'')
          else Inr commands))"

definition truthy :: "string option list \<Rightarrow> string list" where
  "truthy vs = filter (\<lambda>s. s \<noteq> []) (concat (map (\<lambda>v. case v of None \<Rightarrow> [] | Some s \<Rightarrow> [s]) vs))"

definition search_path :: "string \<Rightarrow> string \<Rightarrow> string \<Rightarrow> string list \<Rightarrow> string list \<Rightarrow> string list" where
  "search_path root executable_dir loader rpaths inherited =
     dedupe (truthy (map (\<lambda>v. expand root executable_dir v loader) rpaths) @ filter (\<lambda>s. s \<noteq> []) inherited)"

definition candidates :: "string \<Rightarrow> string \<Rightarrow> string list \<Rightarrow> string \<Rightarrow> string \<Rightarrow> string list" where
  "candidates root executable_dir rpaths loader name =
     (if starts ''@rpath/'' name then map (\<lambda>v. path_join v (drop 7 name)) rpaths
      else truthy [expand root executable_dir name loader])"

text \<open>The candidate the inner loop stops at: the first that is a file.\<close>

fun pick :: "dep_fs \<Rightarrow> string \<Rightarrow> string list \<Rightarrow> string option result" where
  "pick F root [] = Inr None"
| "pick F root (c # cs) =
     (if c = [] then pick F root cs
      else bindE (contained F root c) (\<lambda>p. if isfile F p then Inr (Some p) else pick F root cs))"

text \<open>
  \<open>visit(path, inherited, depth)\<close>, with \<open>left = MAX_DEPTH + 1 - depth\<close>, so that the budget
  check \<open>depth > MAX_DEPTH\<close> is \<open>left = 0\<close>.
\<close>

fun visit :: "dep_fs \<Rightarrow> string \<Rightarrow> string \<Rightarrow> (string \<rightharpoonup> pyval) \<Rightarrow> nat \<Rightarrow> string \<Rightarrow> string list
    \<Rightarrow> dep_state \<Rightarrow> dep_state result" where
  "visit F root exe_dir cached left path inherited st =
     bindE (contained F root path) (\<lambda>path.
     case stat_file F path of None \<Rightarrow> Inl (OSError ''stat'')
     | Some f \<Rightarrow>
       if \<not> regular_file f then Inl (ValueError ''dependency is not a regular file: '')
       else if dev_ino f \<in> visited st then Inr st
       else case left of 0 \<Rightarrow> Inl (ValueError ''dependency graph budget exceeded'')
       | Suc rest \<Rightarrow>
         if card (visited st) \<ge> MAX_IMAGES then Inl (ValueError ''dependency graph budget exceeded'')
         else
         let st = st\<lparr>visited := insert (dev_ino f) (visited st), ordered := ordered st @ [path]\<rparr> in
         bindE (read_commands cached path f) (\<lambda>(loads, rpaths).
         let st = st\<lparr>metadata := py_set (metadata st) path ((loads, rpaths), stat_identity f)\<rparr>;
             loader = path_dirname path;
             search = search_path root exe_dir loader rpaths inherited in
         foldE (\<lambda>name st.
           bindE (pick F root (candidates root exe_dir search loader name)) (\<lambda>target.
           case target of None \<Rightarrow> Inr st
           | Some p \<Rightarrow> visit F root exe_dir cached rest p search st)) loads st))"

declare visit.simps [simp del]

definition closure ::
  "dep_fs \<Rightarrow> string \<Rightarrow> string list \<Rightarrow> string \<Rightarrow> (string \<rightharpoonup> pyval) \<Rightarrow> dep_state result" where
  "closure F executable seeds root0 cached =
     (let root = realpath F root0; exe_dir = path_dirname (realpath F executable);
          start = \<lparr>ordered = [], visited = {}, metadata = []\<rparr> in
      bindE (visit F root exe_dir cached (MAX_DEPTH + 1) executable [] start) (\<lambda>st.
      case map_of (metadata st) (realpath F executable) of
        None \<Rightarrow> Inl KeyError
      | Some ((_, rpaths), _) \<Rightarrow>
          let inherited = truthy (map (\<lambda>v. expand root exe_dir v exe_dir) rpaths) in
          foldE (\<lambda>seed. visit F root exe_dir cached (MAX_DEPTH + 1) seed inherited) seeds st))"

subsection \<open>The closure is contained, bounded and closed\<close>

text \<open>A path is listed when the closure returns an image that is the same file.\<close>

definition listed :: "dep_fs \<Rightarrow> string \<Rightarrow> dep_state \<Rightarrow> bool" where
  "listed F q st \<longleftrightarrow> (\<exists>f g. stat_file F (realpath F q) = Some f \<and>
     (\<exists>p \<in> set (ordered st). stat_file F p = Some g \<and> dev_ino g = dev_ino f))"

definition resolved :: "dep_fs \<Rightarrow> string \<Rightarrow> string list \<Rightarrow> dep_state \<Rightarrow> bool" where
  "resolved F root cs st \<longleftrightarrow>
     (case pick F root cs of Inl _ \<Rightarrow> False | Inr None \<Rightarrow> True | Inr (Some q) \<Rightarrow> listed F q st)"

text \<open>
  The commands of a file: those of the cache under its present identity, or else those its
  own load commands hold.
\<close>

definition names_of :: "(string \<rightharpoonup> pyval) \<Rightarrow> string \<Rightarrow> dep_file \<Rightarrow> dep_names \<Rightarrow> bool" where
  "names_of cached p f names \<longleftrightarrow>
     (case cached_commands (cached p) (stat_identity f) of
        Some commands \<Rightarrow> names = commands
      | None \<Rightarrow> load_commands (file_bytes f) (stat_size f) = Inr names \<and> open_identity f = stat_identity f)"

text \<open>
  The search paths an image inherits: \<open>S\<close> holds what the executable and the seeds start
  with, and an image passes its own search path to the images its commands resolve to.
\<close>

inductive carried :: "dep_fs \<Rightarrow> string \<Rightarrow> string \<Rightarrow> (string \<times> string list) set \<Rightarrow>
    (string \<rightharpoonup> dep_names \<times> identity) \<Rightarrow> string \<Rightarrow> string list \<Rightarrow> bool"
  for F root exe_dir S M where
  carried_start: "(p, inh) \<in> S \<Longrightarrow> carried F root exe_dir S M (realpath F p) inh"
| carried_load: "carried F root exe_dir S M p inh \<Longrightarrow> M p = Some ((loads, rpaths), k) \<Longrightarrow> name \<in> set loads \<Longrightarrow>
    search = search_path root exe_dir (path_dirname p) rpaths inh \<Longrightarrow>
    pick F root (candidates root exe_dir search (path_dirname p) name) = Inr (Some q) \<Longrightarrow>
    carried F root exe_dir S M (realpath F q) search"

definition closed_at :: "dep_fs \<Rightarrow> string \<Rightarrow> string \<Rightarrow> (string \<times> string list) set \<Rightarrow> (string \<rightharpoonup> pyval) \<Rightarrow>
    string \<Rightarrow> dep_state \<Rightarrow> bool" where
  "closed_at F root exe_dir S cached p st \<longleftrightarrow>
     (\<exists>f loads rpaths inh. stat_file F p = Some f \<and> regular_file f \<and> names_of cached p f (loads, rpaths) \<and>
       map_of (metadata st) p = Some ((loads, rpaths), stat_identity f) \<and>
       carried F root exe_dir S (map_of (metadata st)) p inh \<and>
       (\<forall>name \<in> set loads. resolved F root (candidates root exe_dir
          (search_path root exe_dir (path_dirname p) rpaths inh) (path_dirname p) name) st))"

text \<open>The search paths the executable and the seeds start with.\<close>

definition first_paths :: "dep_fs \<Rightarrow> string \<Rightarrow> string \<Rightarrow> string list \<Rightarrow> dep_state \<Rightarrow> (string \<times> string list) set" where
  "first_paths F root executable seeds st =
     insert (executable, []) {(q, truthy (map (\<lambda>v. expand root exe_dir v exe_dir) rpaths)) |q rpaths exe_dir loads k.
       q \<in> set seeds \<and> exe_dir = path_dirname (realpath F executable) \<and>
       map_of (metadata st) (realpath F executable) = Some ((loads, rpaths), k)}"

definition dep_inv :: "dep_fs \<Rightarrow> string \<Rightarrow> dep_state \<Rightarrow> bool" where
  "dep_inv F root st \<longleftrightarrow>
     distinct (ordered st) \<and> dom (map_of (metadata st)) = set (ordered st) \<and>
     finite (visited st) \<and> card (visited st) = length (ordered st) \<and> length (ordered st) \<le> MAX_IMAGES \<and>
     (\<forall>v \<in> visited st. \<exists>p \<in> set (ordered st). \<exists>f. stat_file F p = Some f \<and> dev_ino f = v) \<and>
     (\<forall>p \<in> set (ordered st). starts (root @ ''/'') p \<and> (\<exists>f. stat_file F p = Some f \<and> dev_ino f \<in> visited st))"

definition dep_grow :: "dep_fs \<Rightarrow> string \<Rightarrow> string \<Rightarrow> (string \<times> string list) set \<Rightarrow> (string \<rightharpoonup> pyval) \<Rightarrow>
    dep_state \<Rightarrow> dep_state \<Rightarrow> bool" where
  "dep_grow F root exe_dir S cached s t \<longleftrightarrow>
     map_of (metadata s) \<subseteq>\<^sub>m map_of (metadata t) \<and> set (ordered s) \<subseteq> set (ordered t) \<and>
     (\<forall>p \<in> set (ordered t) - set (ordered s). closed_at F root exe_dir S cached p t)"

lemma contained_eq_Inr [simp]:
  "contained F root path = Inr q \<longleftrightarrow> q = realpath F path \<and> starts (root @ ''/'') (realpath F path)"
  by (auto simp: contained_def Let_def)

lemma map_le_SomeD: "M \<subseteq>\<^sub>m M' \<Longrightarrow> M x = Some v \<Longrightarrow> M' x = Some v"
  by (force simp: map_le_def)

lemma listed_mono: "listed F q s \<Longrightarrow> set (ordered s) \<subseteq> set (ordered t) \<Longrightarrow> listed F q t"
  unfolding listed_def by blast

lemma resolved_mono: "resolved F root cs s \<Longrightarrow> set (ordered s) \<subseteq> set (ordered t) \<Longrightarrow> resolved F root cs t"
  by (auto simp: resolved_def listed_mono split: sum.splits option.splits)

lemma carried_mono:
  assumes "carried F root exe_dir S M p inh" and "M \<subseteq>\<^sub>m M'" and "S \<subseteq> S'"
  shows "carried F root exe_dir S' M' p inh"
  using assms(1)
proof induction
  case (carried_start p inh)
  then show ?case using assms(3) by (blast intro: carried.carried_start)
next
  case (carried_load p inh loads rpaths k name search q)
  have "M' p = Some ((loads, rpaths), k)" by (rule map_le_SomeD [OF assms(2) carried_load.hyps(2)])
  with carried_load show ?case by (blast intro: carried.carried_load)
qed

lemma closed_mono:
  assumes "closed_at F root exe_dir S cached p s" and "map_of (metadata s) \<subseteq>\<^sub>m map_of (metadata t)"
    and "set (ordered s) \<subseteq> set (ordered t)" and "S \<subseteq> S'"
  shows "closed_at F root exe_dir S' cached p t"
proof -
  from assms(1) obtain f loads rpaths inh where f: "stat_file F p = Some f" "regular_file f" "names_of cached p f (loads, rpaths)"
    and m: "map_of (metadata s) p = Some ((loads, rpaths), stat_identity f)"
    and i: "carried F root exe_dir S (map_of (metadata s)) p inh"
    and r: "\<forall>name \<in> set loads. resolved F root (candidates root exe_dir
          (search_path root exe_dir (path_dirname p) rpaths inh) (path_dirname p) name) s"
    unfolding closed_at_def by blast
  have "map_of (metadata t) p = Some ((loads, rpaths), stat_identity f)"
    by (rule map_le_SomeD [OF assms(2) m])
  with f r show ?thesis unfolding closed_at_def
    using resolved_mono [OF _ assms(3)] carried_mono [OF i assms(2,4)] by blast
qed

lemma dep_grow_refl: "dep_grow F root exe_dir S cached s s"
  by (simp add: dep_grow_def)

lemma dep_grow_trans:
  assumes g: "dep_grow F root exe_dir S cached s t" and h: "dep_grow F root exe_dir S cached t u"
  shows "dep_grow F root exe_dir S cached s u"
proof -
  have "closed_at F root exe_dir S cached p u" if p: "p \<in> set (ordered u) - set (ordered s)" for p
  proof (cases "p \<in> set (ordered t)")
    case True
    with p g have "closed_at F root exe_dir S cached p t" by (simp add: dep_grow_def)
    then show ?thesis by (rule closed_mono) (use h in \<open>simp_all add: dep_grow_def\<close>)
  next
    case False
    with p h show ?thesis by (simp add: dep_grow_def)
  qed
  then show ?thesis using g h unfolding dep_grow_def by (blast intro: map_le_trans)
qed

lemma dep_loop:
  assumes "foldE f xs s = Inr t" and "dep_inv F root s" and "map_of (metadata s0) \<subseteq>\<^sub>m map_of (metadata s)"
    and "\<And>x s t. x \<in> set xs \<Longrightarrow> f x s = Inr t \<Longrightarrow> dep_inv F root s \<Longrightarrow>
      map_of (metadata s0) \<subseteq>\<^sub>m map_of (metadata s) \<Longrightarrow>
      dep_inv F root t \<and> dep_grow F root exe_dir S cached s t \<and> Q x t"
    and "\<And>x s t. Q x s \<Longrightarrow> dep_grow F root exe_dir S cached s t \<Longrightarrow> Q x t"
  shows "dep_inv F root t \<and> dep_grow F root exe_dir S cached s t \<and> (\<forall>x \<in> set xs. Q x t)"
  using assms(1-4)
proof (induction xs arbitrary: s)
  case Nil
  then show ?case by (simp add: dep_grow_refl)
next
  case (Cons x xs)
  then obtain u where u: "f x s = Inr u" and rest: "foldE f xs u = Inr t" by auto
  have h: "dep_inv F root u" "dep_grow F root exe_dir S cached s u" "Q x u"
    using Cons.prems(4) [OF _ u Cons.prems(2,3)] by auto
  have "map_of (metadata s0) \<subseteq>\<^sub>m map_of (metadata u)"
    using Cons.prems(3) h(2) unfolding dep_grow_def by (blast intro: map_le_trans)
  then have "dep_inv F root t \<and> dep_grow F root exe_dir S cached u t \<and> (\<forall>x \<in> set xs. Q x t)"
    by (intro Cons.IH [OF rest h(1)] Cons.prems(4)) auto
  then show ?case using h dep_grow_trans assms(5) by auto
qed

lemma dep_inv_add:
  assumes "dep_inv F root st" and "stat_file F p = Some f"
    and "starts (root @ ''/'') p" and "dev_ino f \<notin> visited st" and "card (visited st) < MAX_IMAGES"
    and "t = st\<lparr>visited := insert (dev_ino f) (visited st), ordered := ordered st @ [p],
               metadata := py_set (metadata st) p v\<rparr>"
  shows "dep_inv F root t" and "p \<notin> set (ordered st)" and "map_of (metadata st) \<subseteq>\<^sub>m map_of (metadata t)"
proof -
  show new: "p \<notin> set (ordered st)" using assms(1,2,4) by (auto simp: dep_inv_def)
  then have "p \<notin> dom (map_of (metadata st))" using assms(1) by (simp add: dep_inv_def)
  then show "map_of (metadata st) \<subseteq>\<^sub>m map_of (metadata t)" by (auto simp: assms(6) map_le_def)
  show "dep_inv F root t" using assms new by (auto simp: dep_inv_def)
qed

lemma visited_listed:
  "dep_inv F root st \<Longrightarrow> stat_file F (realpath F q) = Some f \<Longrightarrow> dev_ino f \<in> visited st \<Longrightarrow> listed F q st"
  by (fastforce simp: dep_inv_def listed_def)

lemma read_commands_names: "read_commands cached p f = Inr names \<Longrightarrow> names_of cached p f names"
  by (auto simp: read_commands_def names_of_def split: option.splits if_splits)

lemma visit_spec:
  assumes "visit F root exe_dir cached left path inherited st = Inr st'" and "dep_inv F root st"
    and "carried F root exe_dir S (map_of (metadata st)) (realpath F path) inherited"
  shows "dep_inv F root st' \<and> dep_grow F root exe_dir S cached st st' \<and> listed F path st'"
  using assms
proof (induction left arbitrary: path inherited st st')
  case 0
  then show ?case
    by (subst (asm) visit.simps)
      (auto simp: visited_listed dep_grow_refl split: option.splits if_splits)
next
  case (Suc rest)
  let ?p = "realpath F path"
  from Suc.prems(1) obtain f where c: "starts (root @ ''/'') ?p" and f: "stat_file F ?p = Some f" "regular_file f"
    by (subst (asm) visit.simps) (auto simp: split: option.splits if_splits)
  show ?case
  proof (cases "dev_ino f \<in> visited st")
    case True
    with Suc.prems c f show ?thesis
      by (subst (asm) visit.simps) (auto simp: visited_listed dep_grow_refl)
  next
    case False
    from Suc.prems(1) c f False obtain loads rpaths where small: "card (visited st) < MAX_IMAGES"
      and rc: "read_commands cached ?p f = Inr (loads, rpaths)"
      and loop: "foldE (\<lambda>name st. bindE (pick F root (candidates root exe_dir
            (search_path root exe_dir (path_dirname ?p) rpaths inherited) (path_dirname ?p) name))
          (\<lambda>target. case target of None \<Rightarrow> Inr st
            | Some q \<Rightarrow> visit F root exe_dir cached rest q
               (search_path root exe_dir (path_dirname ?p) rpaths inherited) st)) loads
          (st\<lparr>visited := insert (dev_ino f) (visited st), ordered := ordered st @ [?p],
              metadata := py_set (metadata st) ?p ((loads, rpaths), stat_identity f)\<rparr>) = Inr st'"
      by (subst (asm) visit.simps) (auto simp: Let_def not_le split: if_splits prod.splits)
    let ?t = "st\<lparr>visited := insert (dev_ino f) (visited st), ordered := ordered st @ [?p],
              metadata := py_set (metadata st) ?p ((loads, rpaths), stat_identity f)\<rparr>"
    let ?search = "search_path root exe_dir (path_dirname ?p) rpaths inherited"
    let ?cs = "\<lambda>name. candidates root exe_dir ?search (path_dirname ?p) name"
    note add = dep_inv_add [OF Suc.prems(2) f(1) c False small refl]
    have here: "carried F root exe_dir S (map_of (metadata ?t)) ?p inherited"
      by (rule carried_mono [OF Suc.prems(3) add(3) subset_refl])
    have mt: "map_of (metadata ?t) ?p = Some ((loads, rpaths), stat_identity f)" by simp
    have l: "dep_inv F root st' \<and> dep_grow F root exe_dir S cached ?t st' \<and>
        (\<forall>name \<in> set loads. resolved F root (?cs name) st')"
    proof (rule dep_loop [OF loop add(1) map_le_refl])
      fix x s t assume x: "x \<in> set loads" and b: "bindE (pick F root (?cs x))
          (\<lambda>target. case target of None \<Rightarrow> Inr s
            | Some q \<Rightarrow> visit F root exe_dir cached rest q ?search s) = Inr t" and s: "dep_inv F root s"
        and le: "map_of (metadata ?t) \<subseteq>\<^sub>m map_of (metadata s)"
      from b obtain target where target: "pick F root (?cs x) = Inr target" by auto
      show "dep_inv F root t \<and> dep_grow F root exe_dir S cached s t \<and> resolved F root (?cs x) t"
      proof (cases target)
        case None
        with b s target show ?thesis by (simp add: resolved_def dep_grow_refl)
      next
        case (Some q)
        have "carried F root exe_dir S (map_of (metadata ?t)) (realpath F q) ?search"
          by (rule carried_load [OF here mt x refl target [unfolded Some]])
        from carried_mono [OF this le subset_refl] Suc.IH s b target Some
        show ?thesis by (simp add: resolved_def)
      qed
    next
      fix x s t assume "resolved F root (?cs x) s" "dep_grow F root exe_dir S cached s t"
      then show "resolved F root (?cs x) t" by (auto simp: dep_grow_def intro: resolved_mono)
    qed
    then have g: "dep_grow F root exe_dir S cached ?t st'" by simp
    then have le: "map_of (metadata ?t) \<subseteq>\<^sub>m map_of (metadata st')" and o: "set (ordered ?t) \<subseteq> set (ordered st')"
      unfolding dep_grow_def by blast+
    have "map_of (metadata st') ?p = Some ((loads, rpaths), stat_identity f)"
      by (rule map_le_SomeD [OF le mt])
    moreover have "\<forall>name \<in> set loads. resolved F root (?cs name) st'" using l by simp
    moreover note carried_mono [OF here le subset_refl]
    ultimately have "closed_at F root exe_dir S cached ?p st'" unfolding closed_at_def
      by (intro exI [of _ f] exI [of _ loads] exI [of _ rpaths] exI [of _ inherited] conjI f read_commands_names [OF rc])
    moreover have "map_of (metadata st) \<subseteq>\<^sub>m map_of (metadata st')" using add(3) le map_le_trans by blast
    ultimately have "dep_grow F root exe_dir S cached st st'" using g o by (auto simp: dep_grow_def)
    moreover have "listed F path st'" using o f by (auto simp: listed_def)
    ultimately show ?thesis using l by simp
  qed
qed

lemma first_path_executable:
  assumes "map_of (metadata st) \<subseteq>\<^sub>m map_of (metadata st')"
    and "map_of (metadata st) (realpath F executable) = Some ((loads, rpaths), k)"
    and "exe_dir = path_dirname (realpath F executable)"
  shows "first_paths F root executable seeds st' =
    insert (executable, []) ((\<lambda>q. (q, truthy (map (\<lambda>v. expand root exe_dir v exe_dir) rpaths))) ` set seeds)"
proof -
  have "map_of (metadata st') (realpath F executable) = Some ((loads, rpaths), k)"
    by (rule map_le_SomeD [OF assms(1,2)])
  then show ?thesis using assms(3) by (auto simp: first_paths_def)
qed

lemma closure_facts:
  assumes "closure F executable seeds root0 cached = Inr st"
  shows "distinct (ordered st) \<and> length (ordered st) \<le> 512 \<and> set (map fst (metadata st)) = set (ordered st) \<and>
    (\<forall>q \<in> set (executable # seeds). listed F q st) \<and>
    (\<forall>p \<in> set (ordered st). starts (realpath F root0 @ ''/'') p \<and>
       closed_at F (realpath F root0) (path_dirname (realpath F executable))
         (first_paths F (realpath F root0) executable seeds st) cached p st)"
proof -
  let ?root = "realpath F root0" and ?exe = "path_dirname (realpath F executable)"
  let ?start = "\<lparr>ordered = [], visited = {}, metadata = []\<rparr>"
  have start: "dep_inv F ?root ?start" by (simp add: dep_inv_def)
  from assms obtain s loads rpaths k where s: "visit F ?root ?exe cached (MAX_DEPTH + 1) executable [] ?start = Inr s"
    and m: "map_of (metadata s) (realpath F executable) = Some ((loads, rpaths), k)"
    and loop: "foldE (\<lambda>seed. visit F ?root ?exe cached (MAX_DEPTH + 1) seed
        (truthy (map (\<lambda>v. expand ?root ?exe v ?exe) rpaths))) seeds s = Inr st"
    by (auto simp: closure_def Let_def split: option.splits prod.splits)
  let ?inh = "truthy (map (\<lambda>v. expand ?root ?exe v ?exe) rpaths)"
  let ?S = "insert (executable, []) ((\<lambda>q. (q, ?inh)) ` set seeds)"
  from visit_spec [OF s start carried_start [of executable "[]" ?S]]
  have i: "dep_inv F ?root s" "dep_grow F ?root ?exe ?S cached ?start s" "listed F executable s" by auto
  have l: "dep_inv F ?root st \<and> dep_grow F ?root ?exe ?S cached s st \<and> (\<forall>x \<in> set seeds. listed F x st)"
  proof (rule dep_loop [OF loop i(1) map_le_refl])
    fix x u t assume "x \<in> set seeds" "visit F ?root ?exe cached (MAX_DEPTH + 1) x ?inh u = Inr t" "dep_inv F ?root u"
    then show "dep_inv F ?root t \<and> dep_grow F ?root ?exe ?S cached u t \<and> listed F x t"
      using visit_spec carried_start [of x ?inh ?S] by blast
  qed (auto simp: dep_grow_def intro: listed_mono)
  then have g: "dep_grow F ?root ?exe ?S cached ?start st" using i(2) dep_grow_trans by blast
  have "map_of (metadata s) \<subseteq>\<^sub>m map_of (metadata st)" using l unfolding dep_grow_def by blast
  from first_path_executable [OF this m refl] have S: "first_paths F ?root executable seeds st = ?S" .
  from l i(3) have "listed F executable st" by (auto simp: dep_grow_def intro: listed_mono)
  moreover have "set (map fst (metadata st)) = dom (map_of (metadata st))" by (simp add: dom_map_of_conv_image_fst)
  ultimately show ?thesis unfolding S using l g by (auto simp: dep_inv_def dep_grow_def MAX_IMAGES_def)
qed

text \<open>
  C4: The closure of an executable and its seeds stays inside the root file system, lists at
  most 512 distinct paths and records commands for exactly those; the executable and every
  seed are among the listed files, and the list is closed: each listed image is a regular
  file whose recorded commands are those of the cache under its present identity or of its
  own load commands, it inherits the search path of a chain of loaders that starts at the
  executable or a seed, and with that search path each of its load commands either resolves
  to no existing file or to a file on the list, never outside the root.
\<close>

theorem closure_closed:
  assumes "closure F executable seeds root0 cached = Inr st"
  shows "distinct (ordered st) \<and> length (ordered st) \<le> 512 \<and> set (map fst (metadata st)) = set (ordered st) \<and>
    (\<forall>q \<in> set (executable # seeds). listed F q st) \<and>
    (\<forall>p \<in> set (ordered st). starts (realpath F root0 @ ''/'') p \<and>
       closed_at F (realpath F root0) (path_dirname (realpath F executable))
         (first_paths F (realpath F root0) executable seeds st) cached p st)"
  by (rule closure_facts [OF assms])

text \<open>A root with an executable that names one library, both already in the cache.\<close>

definition sample_dep :: "int \<Rightarrow> dep_file" where
  "sample_dep n = \<lparr>regular_file = True, dev_ino = (1, n), stat_identity = [1, n], stat_size = 0,
     file_bytes = [], open_identity = [1, n]\<rparr>"

definition sample_fs :: dep_fs where
  "sample_fs = \<lparr>realpath = id, isfile = (\<lambda>p. p \<in> {''/r/a'', ''/r/b''}),
     stat_file = [''/r/a'' \<mapsto> sample_dep 1, ''/r/b'' \<mapsto> sample_dep 2]\<rparr>"

definition sample_meta :: "int \<Rightarrow> string list \<Rightarrow> pyval" where
  "sample_meta n loads = PDict [(''identity'', PList [PInt 1, PInt n]),
     (''loads'', PList (map PStr loads)), (''rpaths'', PList [])]"

definition sample_closure :: dep_state where
  "sample_closure = \<lparr>ordered = [''/r/a'', ''/r/b''], visited = {(1, 2), (1, 1)},
     metadata = [(''/r/a'', (([''/b''], []), [1, 1])), (''/r/b'', (([''@rpath/c''], []), [1, 2]))]\<rparr>"

lemma sample_closure_run:
  "closure sample_fs ''/r/a'' [''/r/b''] ''/r''
     [''/r/a'' \<mapsto> sample_meta 1 [''/b''], ''/r/b'' \<mapsto> sample_meta 2 [''@rpath/c'']] = Inr sample_closure"
  by (simp add: closure_def visit.simps contained_def starts_def sample_fs_def sample_dep_def read_commands_def
      cached_commands_def cached_names_def sample_meta_def py_get_def str_length_def MAX_DEPTH_def MAX_IMAGES_def
      search_path_def dedupe_def truthy_def candidates_def expand_def sample_closure_def)

theorem closure_closed_witness:
  "distinct (ordered sample_closure) \<and> listed sample_fs ''/r/b'' sample_closure \<and>
   closed_at sample_fs ''/r'' (path_dirname ''/r/a'') (first_paths sample_fs ''/r'' ''/r/a'' [''/r/b''] sample_closure)
     [''/r/a'' \<mapsto> sample_meta 1 [''/b''], ''/r/b'' \<mapsto> sample_meta 2 [''@rpath/c'']] ''/r/a'' sample_closure"
proof -
  have F: "realpath sample_fs p = p" for p by (simp add: sample_fs_def)
  have o: "ordered sample_closure = [''/r/a'', ''/r/b'']" by (simp add: sample_closure_def)
  show ?thesis using closure_closed [OF sample_closure_run] unfolding F o by simp
qed

end
