(* ===== verification/AtomicFile.thy ===== *)
theory AtomicFile
  imports Bytes
begin

text \<open>
  \<open>replace_atomically\<close> of the image scripts: a temporary file beside the target is created
  exclusively, written, synchronised, given the mode and owner of the target and renamed over
  it; whatever happens, the temporary file is removed.  The directory is a map from paths to
  files.  A run is the list of the states another process can see, one for each system call
  that took effect; \<open>fails i\<close> says whether the \<open>i\<close>-th call raises \<open>OSError\<close>.
\<close>

record fnode =
  fdata :: bytes
  fperm :: nat
  fowner :: "nat \<times> nat"

type_synonym directory = "string \<rightharpoonup> fnode"

definition set_node :: "string \<Rightarrow> (fnode \<Rightarrow> fnode) \<Rightarrow> directory \<Rightarrow> directory" where
  "set_node p f s = (case s p of None \<Rightarrow> s | Some n \<Rightarrow> s(p \<mapsto> f n))"

definition rename :: "string \<Rightarrow> string \<Rightarrow> directory \<Rightarrow> directory" where
  "rename src dst s = (case s src of None \<Rightarrow> s | Some n \<Rightarrow> (s(src := None))(dst \<mapsto> n))"

text \<open>
  The calls in order; \<open>chowned\<close> says whether \<open>chown\<close> is permitted (a \<open>PermissionError\<close> is
  ignored), \<open>umask_node\<close> is the empty file \<open>open(..., "xb")\<close> creates.
\<close>

definition replace_steps ::
  "string \<Rightarrow> string \<Rightarrow> bytes \<Rightarrow> fnode \<Rightarrow> bool \<Rightarrow> fnode \<Rightarrow> (directory \<Rightarrow> directory) list" where
  "replace_steps path temporary d current chowned umask_node =
     [\<lambda>s. s(temporary \<mapsto> umask_node\<lparr>fdata := []\<rparr>),
      set_node temporary (\<lambda>n. n\<lparr>fdata := d\<rparr>),
      id,
      set_node temporary (\<lambda>n. n\<lparr>fperm := fperm current mod 4096\<rparr>),
      (if chowned then set_node temporary (\<lambda>n. n\<lparr>fowner := fowner current\<rparr>) else id),
      rename temporary path]"

fun run_steps :: "(nat \<Rightarrow> bool) \<Rightarrow> nat \<Rightarrow> (directory \<Rightarrow> directory) list \<Rightarrow> directory \<Rightarrow> directory list \<times> bool" where
  "run_steps fails i [] s = ([s], True)"
| "run_steps fails i (f # fs) s =
     (if fails i then ([s], False)
      else case run_steps fails (Suc i) fs (f s) of (tr, ok) \<Rightarrow> (s # tr, ok))"

text \<open>
  The visible states and whether the call returned normally.  \<open>os.stat\<close> precedes the \<open>try\<close>;
  an existing temporary file makes the exclusive open raise, and \<open>finally\<close> then removes it.
\<close>

definition replace_atomically ::
  "(nat \<Rightarrow> bool) \<Rightarrow> bool \<Rightarrow> fnode \<Rightarrow> string \<Rightarrow> string \<Rightarrow> bytes \<Rightarrow> directory \<Rightarrow> directory list \<times> bool" where
  "replace_atomically fails chowned umask_node path temporary d s =
     (case s path of
        None \<Rightarrow> ([s], False)
      | Some current \<Rightarrow>
          (case (if s temporary \<noteq> None then ([s], False)
                 else run_steps fails 0 (replace_steps path temporary d current chowned umask_node) s) of
             (tr, ok) \<Rightarrow> (tr @ [(last tr)(temporary := None)], ok)))"

subsection \<open>Every visible state has a complete file\<close>

definition new_node :: "bytes \<Rightarrow> fnode \<Rightarrow> bool \<Rightarrow> fnode \<Rightarrow> fnode" where
  "new_node d current chowned umask_node =
     umask_node\<lparr>fdata := d, fperm := fperm current mod 4096,
       fowner := if chowned then fowner current else fowner umask_node\<rparr>"

text \<open>
  C10: Replacing a file is atomic and leaves nothing behind.  In every state another process
  can see, the target is the complete old file or the complete new content with the old mode
  bits, and every other path but the temporary one is untouched; at the end the temporary
  file does not exist; and the target is the new file exactly when the call returned normally.
\<close>

theorem replace_atomically_atomic:
  assumes "replace_atomically fails chowned umask_node path temporary d s = (tr, ok)"
    and "s path = Some current" and "temporary \<noteq> path"
  shows "list_all (\<lambda>t. t path \<in> {Some current, Some (new_node d current chowned umask_node)} \<and>
       t(path := None, temporary := None) = s(path := None, temporary := None)) tr \<and>
     last tr temporary = None \<and>
     last tr path = Some (if ok then new_node d current chowned umask_node else current)"
proof (cases "s temporary")
  case (Some n)
  with assms show ?thesis by (auto simp: replace_atomically_def fun_upd_twist)
next
  case None
  with assms have "replace_atomically fails chowned umask_node path temporary d s =
     (case run_steps fails 0 (replace_steps path temporary d current chowned umask_node) s of
        (tr, ok) \<Rightarrow> (tr @ [(last tr)(temporary := None)], ok))" by (simp add: replace_atomically_def)
  with assms None show ?thesis
    by (auto simp: replace_steps_def set_node_def rename_def new_node_def fun_upd_twist split: if_splits)
qed

theorem replace_atomically_atomic_witness:
  "\<exists>tr. replace_atomically (\<lambda>i. i = 5) True \<lparr>fdata = [], fperm = 420, fowner = (0, 0)\<rparr> ''p'' ''t'' [1]
        [''p'' \<mapsto> \<lparr>fdata = [7], fperm = 493, fowner = (1, 1)\<rparr>] = (tr, False) \<and>
     last tr ''t'' = None \<and> last tr ''p'' = Some \<lparr>fdata = [7], fperm = 493, fowner = (1, 1)\<rparr>"
proof -
  let ?s = "[''p'' \<mapsto> \<lparr>fdata = [7], fperm = 493, fowner = (1, 1)\<rparr>] :: directory"
  let ?u = "\<lparr>fdata = [], fperm = 420, fowner = (0, 0)\<rparr>"
  obtain tr ok where r: "replace_atomically (\<lambda>i. i = 5) True ?u ''p'' ''t'' [1] ?s = (tr, ok)"
    by (cases "replace_atomically (\<lambda>i. i = 5) True ?u ''p'' ''t'' [1] ?s")
  then have "\<not> ok" by (auto simp: replace_atomically_def replace_steps_def)
  with r replace_atomically_atomic [OF r] show ?thesis by auto
qed

end
