(* ===== verification/FatSlices.thy ===== *)
theory FatSlices
  imports Bytes Strings
begin

text \<open>
  The scripts that relabel ARM64/E images as ARM64/ALL: \<^verbatim>\<open>prepare_ventura_windowserver.py\<close>
  (extract one verified slice), \<^verbatim>\<open>ensure_objc_trampolines_arm64.py\<close> (append a relabelled
  copy of a slice), \<^verbatim>\<open>misc/arm64ify_macho.py\<close> (relabel in place) and
  \<^verbatim>\<open>misc/exec_to_dylib.py\<close> (turn an executable slice into a dylib).
\<close>

subsection \<open>Constants and the architecture table\<close>

definition FAT_MAGIC :: nat where "FAT_MAGIC = 0xcafebabe"
definition FAT_MAGIC_64 :: nat where "FAT_MAGIC_64 = 0xcafebabf"
definition MH_MAGIC_64 :: nat where "MH_MAGIC_64 = 0xfeedfacf"
definition CPU_TYPE_ARM64 :: nat where "CPU_TYPE_ARM64 = 0x0100000c"
definition CPU_SUBTYPE_ARM64E :: nat where "CPU_SUBTYPE_ARM64E = 2"
definition LC_UUID :: nat where "LC_UUID = 0x1b"

definition EXPECTED_UUID :: bytes where
  "EXPECTED_UUID = [0x46, 0x54, 0x22, 0xc7, 0x3c, 0xfc, 0x3e, 0x9f, 0x9c, 0x04, 0x81, 0x3f, 0x3a, 0x26, 0x5a, 0xa6]"

definition subtype_base :: "nat \<Rightarrow> nat" where
  "subtype_base v = v mod 0x1000000"

text \<open>\<open>(cputype, cpusubtype, offset, size, alignment)\<close>\<close>

type_synonym fat_arch = "nat \<times> nat \<times> nat \<times> nat \<times> nat"

definition is_arm64e :: "fat_arch \<Rightarrow> bool" where
  "is_arm64e a = (case a of (ct, cs, _) \<Rightarrow> ct = CPU_TYPE_ARM64 \<and> subtype_base cs = CPU_SUBTYPE_ARM64E)"

definition is_arm64_all :: "fat_arch \<Rightarrow> bool" where
  "is_arm64_all a = (case a of (ct, cs, _) \<Rightarrow> ct = CPU_TYPE_ARM64 \<and> subtype_base cs = 0)"

definition arch32 :: "bytes \<Rightarrow> nat \<Rightarrow> fat_arch" where
  "arch32 d i = (u32 BE d i, u32 BE d (i + 4), u32 BE d (i + 8), u32 BE d (i + 12), u32 BE d (i + 16))"

definition arch64 :: "bytes \<Rightarrow> nat \<Rightarrow> fat_arch" where
  "arch64 d i = (u32 BE d i, u32 BE d (i + 4), u64 BE d (i + 8), u64 BE d (i + 16), u32 BE d (i + 24))"

subsection \<open>The Ventura WindowServer\<close>

text \<open>\<open>read_fat_arches\<close> checks each slice against the file as it goes.\<close>

definition ventura_arch :: "bytes \<Rightarrow> nat \<Rightarrow> nat \<Rightarrow> fat_arch result" where
  "ventura_arch d magic index =
     (let offset = 8 + index * (if magic = FAT_MAGIC then 20 else 32);
          a = (if magic = FAT_MAGIC then arch32 d offset else arch64 d offset) in
      case a of (_, _, slice_offset, sz, _) \<Rightarrow>
      if slice_offset + sz > length d then Inl (FormatError ''fat slice lies outside the file'') else Inr a)"

definition read_fat_arches :: "bytes \<Rightarrow> fat_arch list result" where
  "read_fat_arches d =
     (if length d < 8 then Inl (FormatError ''file is shorter than a fat header'')
      else
      let magic = u32 BE d 0; count = u32 BE d 4 in
      if magic \<noteq> FAT_MAGIC \<and> magic \<noteq> FAT_MAGIC_64
      then Inl (FormatError ''file is not a supported universal Mach-O'')
      else
      let entry_size = (if magic = FAT_MAGIC then 20 else 32) in
      if count = 0 \<or> count > 64 \<or> 8 + count * entry_size > length d
      then Inl (FormatError ''invalid fat architecture count'')
      else mapE (ventura_arch d magic) [0..<count])"

fun uuid_walk :: "bytes \<Rightarrow> nat \<Rightarrow> nat \<Rightarrow> nat \<Rightarrow> bytes result" where
  "uuid_walk d commands_end 0 cursor = Inl (FormatError ''Mach-O slice has no LC_UUID'')"
| "uuid_walk d commands_end (Suc n) cursor =
     (if cursor + 8 > commands_end then Inl (FormatError ''truncated Mach-O load command'')
      else
      let command = u32 LE d cursor; command_size = u32 LE d (cursor + 4) in
      if command_size < 8 \<or> cursor + command_size > commands_end
      then Inl (FormatError ''invalid Mach-O load-command size'')
      else if command = LC_UUID
      then (if command_size < 24 then Inl (FormatError ''truncated LC_UUID'')
            else Inr (slice d (cursor + 8) 16))
      else uuid_walk d commands_end n (cursor + command_size))"

definition read_thin_uuid :: "bytes \<Rightarrow> bytes result" where
  "read_thin_uuid d =
     (if length d < 32 then Inl (FormatError ''Mach-O slice is shorter than its header'')
      else if u32 LE d 0 \<noteq> MH_MAGIC_64 \<or> u32 LE d 4 \<noteq> CPU_TYPE_ARM64
      then Inl (FormatError ''slice is not a little-endian ARM64 Mach-O'')
      else
      let ncmds = u32 LE d 16; commands_end = 32 + u32 LE d 20 in
      if ncmds > 4096 \<or> commands_end > length d
      then Inl (FormatError ''invalid Mach-O load-command extent'')
      else uuid_walk d commands_end ncmds 32)"

datatype preparation = Ready | Needs_Conversion

definition preparation_state :: "bytes \<Rightarrow> preparation result" where
  "preparation_state d =
     (if length d \<ge> 12 \<and> u32 LE d 0 = MH_MAGIC_64
      then
        if u32 LE d 4 \<noteq> CPU_TYPE_ARM64 \<or> subtype_base (u32 LE d 8) \<noteq> 0
        then Inl (FormatError ''thin image is not ARM64/ALL'')
        else bindE (read_thin_uuid d) (\<lambda>uuid.
          if uuid \<noteq> EXPECTED_UUID then Inl (FormatError ''unsupported thin WindowServer UUID'')
          else Inr Ready)
      else bindE (read_fat_arches d) (\<lambda>arches.
        case List.find is_arm64e arches of
          None \<Rightarrow> Inl (FormatError ''universal image has no ARM64/E slice'')
        | Some (_, _, offset, sz, _) \<Rightarrow>
            bindE (read_thin_uuid (slice d offset sz)) (\<lambda>uuid.
            if uuid \<noteq> EXPECTED_UUID then Inl (FormatError ''unsupported universal WindowServer UUID'')
            else Inr Needs_Conversion)))"

definition prepare_bytes :: "bytes \<Rightarrow> bytes result" where
  "prepare_bytes d =
     bindE (preparation_state d) (\<lambda>state.
     if state = Ready then Inr d
     else bindE (read_fat_arches d) (\<lambda>arches.
       case List.find is_arm64e arches of
         None \<Rightarrow> Inl (RuntimeError ''StopIteration'')
       | Some (_, _, offset, sz, _) \<Rightarrow>
           bindE (pack_into LE 4 (slice d offset sz) 8 0) (\<lambda>result.
           bindE (preparation_state result) (\<lambda>final.
           if final \<noteq> Ready then Inl (FormatError ''converted WindowServer failed its postcondition'')
           else Inr result))))"

text \<open>
  \<open>main\<close> on the content of the file: the exit status and, when the file is to be replaced,
  its new content.  The two caught exception classes give status 2.
\<close>

definition caught :: "py_error \<Rightarrow> bool" where
  "caught e = (case e of OSError _ \<Rightarrow> True | FormatError _ \<Rightarrow> True | _ \<Rightarrow> False)"

definition ventura_main :: "bool \<Rightarrow> bytes result \<Rightarrow> (nat \<times> bytes option) result" where
  "ventura_main check content =
     (let body =
        bindE content (\<lambda>original.
        bindE (preparation_state original) (\<lambda>state.
        if state = Ready then Inr (0, None)
        else if check then Inr (1, None)
        else bindE (prepare_bytes original) (\<lambda>prepared. Inr (0, Some prepared))))
      in case body of Inl e \<Rightarrow> if caught e then Inr (2, None) else Inl e | Inr r \<Rightarrow> Inr r)"

subsection \<open>The trampoline library\<close>

definition trampoline_arches :: "bytes \<Rightarrow> fat_arch list result" where
  "trampoline_arches d =
     (if length d < 8 then Inl (FormatError ''file is shorter than a fat header'')
      else if u32 BE d 0 \<noteq> FAT_MAGIC then Inl (FormatError ''unsupported fat magic'')
      else
      let count = u32 BE d 4 in
      if count = 0 \<or> count > 64 \<or> 8 + count * 20 > length d
      then Inl (FormatError ''invalid fat architecture count'')
      else Inr (map (\<lambda>i. arch32 d (8 + i * 20)) [0..<count]))"

definition has_arm64_all :: "fat_arch list \<Rightarrow> bool" where
  "has_arm64_all arches = list_ex is_arm64_all arches"

text \<open>
  \<open>struct.pack_into(">IIIII", ...)\<close>: five fields, all checked before any is written.
\<close>

definition put_arch32 :: "bytes \<Rightarrow> nat \<Rightarrow> fat_arch \<Rightarrow> bytes result" where
  "put_arch32 d i a =
     (case a of (ct, cs, offset, sz, alignment) \<Rightarrow>
      if i + 20 \<le> length d \<and> ct < 2 ^ 32 \<and> cs < 2 ^ 32 \<and> offset < 2 ^ 32 \<and> sz < 2 ^ 32 \<and> alignment < 2 ^ 32
      then Inr (put BE 4 (put BE 4 (put BE 4 (put BE 4 (put BE 4 d i ct) (i + 4) cs) (i + 8) offset) (i + 12) sz)
                 (i + 16) alignment)
      else Inl StructError)"

definition source_slice :: "bytes \<Rightarrow> fat_arch list \<Rightarrow> fat_arch \<Rightarrow> bytes result" where
  "source_slice d arches source =
     (case source of (_, _, source_offset, src_size, alignment) \<Rightarrow>
      if alignment > 30 then Inl (FormatError ''unreasonable ARM64/E alignment'')
      else if source_offset < 8 + length arches * 20 \<or> source_offset + src_size > length d
      then Inl (FormatError ''ARM64/E slice lies outside the fat file'')
      else
      let s = slice d source_offset src_size in
      if length s < 12 then Inl (FormatError ''ARM64/E slice is shorter than a Mach header'')
      else if u32 LE s 0 \<noteq> MH_MAGIC_64 \<or> u32 LE s 4 \<noteq> CPU_TYPE_ARM64 \<or>
              subtype_base (u32 LE s 8) \<noteq> CPU_SUBTYPE_ARM64E
      then Inl (FormatError ''ARM64/E fat entry does not match its thin Mach header'')
      else Inr s)"

definition append_slice :: "bytes \<Rightarrow> fat_arch list \<Rightarrow> fat_arch \<Rightarrow> bytes \<Rightarrow> bytes result" where
  "append_slice d arches source s =
     (case source of (ct, _, _, src_size, alignment) \<Rightarrow>
      if 8 + (length arches + 1) * 20 > Min (set (map (\<lambda>(_, _, offset, _). offset) arches))
      then Inl (FormatError ''fat header has no room for one architecture entry'')
      else
      let new_offset = round_up (length d) (2 ^ alignment);
          padded = d @ replicate (new_offset - length d) 0 in
      bindE (pack_into LE 4 s 8 0) (\<lambda>s'.
      bindE (pack_into BE 4 (padded @ s') 4 (length arches + 1)) (\<lambda>result.
      put_arch32 result (8 + length arches * 20) (ct, 0, new_offset, src_size, alignment))))"

definition add_arm64_all_slice :: "bytes \<Rightarrow> bytes result" where
  "add_arm64_all_slice d =
     bindE (trampoline_arches d) (\<lambda>arches.
     if has_arm64_all arches then Inr d
     else case List.find is_arm64e arches of
       None \<Rightarrow> Inl (FormatError ''no ARM64/E source slice'')
     | Some source \<Rightarrow> bindE (source_slice d arches source) (append_slice d arches source))"

text \<open>\<open>main\<close> on the content, as for the WindowServer.\<close>

definition trampolines_main :: "bool \<Rightarrow> bytes result \<Rightarrow> (nat \<times> bytes option) result" where
  "trampolines_main check content =
     (let body =
        bindE content (\<lambda>original.
        bindE (trampoline_arches original) (\<lambda>arches.
        if has_arm64_all arches then Inr (0, None)
        else if check then Inr (1, None)
        else bindE (add_arm64_all_slice original) (\<lambda>repaired. Inr (0, Some repaired))))
      in case body of Inl e \<Rightarrow> if caught e then Inr (2, None) else Inl e | Inr r \<Rightarrow> Inr r)"

subsection \<open>Relabelling in place\<close>

definition relabel_thin :: "bytes \<Rightarrow> nat \<Rightarrow> bytes option" where
  "relabel_thin buf offset =
     (if length buf < offset + 12 then None
      else if u32 LE buf offset \<noteq> MH_MAGIC_64 \<or> u32 LE buf (offset + 4) \<noteq> CPU_TYPE_ARM64 \<or>
              subtype_base (u32 LE buf (offset + 8)) \<noteq> CPU_SUBTYPE_ARM64E
      then None
      else Some (put LE 4 buf (offset + 8) 0))"

definition fat_entry_size :: "nat \<Rightarrow> nat" where
  "fat_entry_size magic = (if magic = FAT_MAGIC_64 then 32 else 20)"

text \<open>One entry of the table: \<open>">III"\<close> whatever the magic.\<close>

definition relabel_entry :: "nat \<Rightarrow> nat \<Rightarrow> bytes \<times> bool \<Rightarrow> (bytes \<times> bool) result" where
  "relabel_entry step i st =
     (case st of (buf, changed) \<Rightarrow>
      let entry = 8 + i * step in
      if u32 BE buf entry \<noteq> CPU_TYPE_ARM64 \<or> subtype_base (u32 BE buf (entry + 4)) \<noteq> CPU_SUBTYPE_ARM64E
      then Inr st
      else case relabel_thin buf (u32 BE buf (entry + 8)) of
        None \<Rightarrow> Inl (FormatError ''fat entry claims arm64e but slice is not'')
      | Some buf' \<Rightarrow> Inr (put BE 4 buf' (entry + 4) 0, True))"

definition is_fat :: "bytes \<Rightarrow> bool" where
  "is_fat d \<longleftrightarrow> 8 \<le> length d \<and> (u32 BE d 0 = FAT_MAGIC \<or> u32 BE d 0 = FAT_MAGIC_64) \<and>
     0 < u32 BE d 4 \<and> u32 BE d 4 \<le> 64"

definition arm64ify :: "bytes \<Rightarrow> bytes result" where
  "arm64ify d =
     (if is_fat d then
        let step = fat_entry_size (u32 BE d 0); count = u32 BE d 4 in
        if 8 + count * step > length d then Inl (FormatError ''fat arch table overruns file'')
        else bindE (foldE (relabel_entry step) [0..<count] (d, False)) (\<lambda>(buf, changed).
          if \<not> changed then Inl (FormatError ''fat file has no ARM64/E slice'') else Inr buf)
      else case relabel_thin d 0 of
        Some buf \<Rightarrow> Inr buf
      | None \<Rightarrow> Inl (FormatError ''no ARM64/E slice found''))"

text \<open>The report: \<open>None\<close> stands for an architecture that is not ARM64.\<close>

definition arch_name :: "nat \<Rightarrow> nat \<Rightarrow> string option" where
  "arch_name ct cs =
     (if ct = CPU_TYPE_ARM64
      then Some (if subtype_base cs = CPU_SUBTYPE_ARM64E then ''arm64e'' else ''arm64'') else None)"

definition arch_names :: "bytes \<Rightarrow> string option list result" where
  "arch_names d =
     (if is_fat d
      then mapE (\<lambda>i. let entry = 8 + i * fat_entry_size (u32 BE d 0) in
             bindE (room d entry 8) (\<lambda>_. Inr (arch_name (u32 BE d entry) (u32 BE d (entry + 4)))))
             [0..<u32 BE d 4]
      else if 12 \<le> length d \<and> u32 LE d 0 = MH_MAGIC_64 \<and> u32 LE d 4 = CPU_TYPE_ARM64
      then Inr [arch_name (u32 LE d 4) (u32 LE d 8)]
      else Inr [])"

text \<open>
  One file of \<open>main\<close>: the new content (\<open>None\<close> with \<open>--check\<close>) and whether the exit status
  becomes 1.
\<close>

definition arm64ify_file :: "bool \<Rightarrow> bytes result \<Rightarrow> (bytes option \<times> bool) result" where
  "arm64ify_file check content =
     (let body =
        bindE content (\<lambda>d.
        bindE (arch_names d) (\<lambda>names.
        if check then Inr None
        else bindE (arm64ify d) (\<lambda>new. Inr (Some new))))
      in case body of
           Inl e \<Rightarrow> if caught e then Inr (None, True) else Inl e
         | Inr r \<Rightarrow> Inr (r, False))"

subsection \<open>An executable as a dylib\<close>

definition DYLIB_NAME :: bytes where
  "DYLIB_NAME = encode_str ''launchservicesd_arm64e.dylib'' @ [0]"

fun arm64e_row :: "bytes \<Rightarrow> nat list \<Rightarrow> bytes result" where
  "arm64e_row d [] = Inl (FormatError ''no arm64e slice'')"
| "arm64e_row d (i # is) =
     bindE (room d (8 + i * 20) 20) (\<lambda>_.
     case arch32 d (8 + i * 20) of (ct, cs, off, sz, al) \<Rightarrow>
     if is_arm64e (ct, cs, off, sz, al) then Inr (slice d off sz) else arm64e_row d is)"

definition arm64e_slice :: "bytes \<Rightarrow> bytes result" where
  "arm64e_slice d =
     (if 8 \<le> length d \<and> u32 BE d 0 = FAT_MAGIC \<and> 0 < u32 BE d 4 \<and> u32 BE d 4 \<le> 64
      then arm64e_row d [0..<u32 BE d 4] else Inr d)"

text \<open>The zero bytes that follow the load commands, looking at 4096 at most.\<close>

definition slack_after :: "bytes \<Rightarrow> nat \<Rightarrow> nat" where
  "slack_after s fin = length (takeWhile (\<lambda>b. b = 0) (slice s fin 4096))"

definition put_pair :: "bytes \<Rightarrow> nat \<Rightarrow> nat \<Rightarrow> nat \<Rightarrow> bytes" where
  "put_pair s i a b = put LE 4 (put LE 4 s i a) (i + 4) b"

definition dylib_cmdsize :: nat where
  "dylib_cmdsize = round_up (24 + length DYLIB_NAME) 8"

definition id_command :: "bytes \<Rightarrow> nat \<Rightarrow> bytes" where
  "id_command s fin =
     splice (put_pair (put_pair (put_pair s fin 0x0d dylib_cmdsize) (fin + 8) 24 2) (fin + 16) 0x10000 0x10000)
       (fin + 24) DYLIB_NAME"

definition to_dylib :: "bytes \<Rightarrow> bytes result" where
  "to_dylib d =
     bindE (arm64e_slice d) (\<lambda>s.
     bindE (room s 0 32) (\<lambda>_.
     if u32 LE s 0 \<noteq> MH_MAGIC_64 then Inl (FormatError ''slice is not a 64-bit Mach-O'')
     else if u32 LE s 12 \<noteq> 2 then Inl (FormatError ''filetype, expected EXECUTE'')
     else
     let ncmds = u32 LE s 16; sizeofcmds = u32 LE s 20; fin = 32 + sizeofcmds in
     if slack_after s fin < dylib_cmdsize then Inl (FormatError ''slack after load commands'')
     else
     bindE (pack_into LE 4 (id_command s fin) 12 6) (\<lambda>s1.
     bindE (pack_into LE 4 s1 16 (ncmds + 1)) (\<lambda>s2.
     pack_into LE 4 s2 20 (sizeofcmds + dylib_cmdsize)))))"

subsection \<open>The Ventura conversion always succeeds\<close>

lemma uuid_walk_put:
  assumes "12 \<le> cursor" and "commands_end \<le> length s"
  shows "uuid_walk (put LE 4 s 8 v) commands_end n cursor = uuid_walk s commands_end n cursor"
  using assms
proof (induction n arbitrary: cursor)
  case 0
  then show ?case by simp
next
  case (Suc n)
  show ?case
  proof (cases "cursor + 8 \<le> commands_end")
    case True
    with Suc.prems have "slice (put LE 4 s 8 v) (cursor + 8) 16 = slice s (cursor + 8) 16"
      "fld LE 4 (put LE 4 s 8 v) cursor = fld LE 4 s cursor"
      "fld LE 4 (put LE 4 s 8 v) (cursor + 4) = fld LE 4 s (cursor + 4)"
      by (auto simp: slice_put fld_put_other)
    with Suc show ?thesis by (simp add: Let_def)
  qed simp
qed

lemma read_thin_uuid_put: "read_thin_uuid (put LE 4 s 8 v) = read_thin_uuid s"
proof (cases "length s < 32")
  case True
  show ?thesis
  proof (cases "12 \<le> length s")
    case True
    with \<open>length s < 32\<close> show ?thesis by (simp add: read_thin_uuid_def)
  next
    case False
    then have "length (put LE 4 s 8 v) < 32" by (simp add: put_def splice_def)
    with \<open>length s < 32\<close> show ?thesis by (simp add: read_thin_uuid_def)
  qed
next
  case False
  then show ?thesis by (simp add: read_thin_uuid_def fld_put_other uuid_walk_put Let_def)
qed

lemma prepared_ready:
  assumes "read_thin_uuid s = Inr EXPECTED_UUID"
  shows "preparation_state (put LE 4 s 8 0) = Inr Ready"
proof -
  from assms have h: "32 \<le> length s" "u32 LE s 0 = MH_MAGIC_64" "u32 LE s 4 = CPU_TYPE_ARM64"
    by (auto simp: read_thin_uuid_def not_less)
  then have "u32 LE (put LE 4 s 8 0) 0 = MH_MAGIC_64" "u32 LE (put LE 4 s 8 0) 4 = CPU_TYPE_ARM64"
    "u32 LE (put LE 4 s 8 0) 8 = 0" by (simp_all add: fld_put_other fld_put)
  with h assms show ?thesis by (simp add: preparation_state_def read_thin_uuid_put subtype_base_def)
qed

lemma ventura_arch_in: "ventura_arch d magic i = Inr (ct, cs, off, sz, al) \<Longrightarrow> off + sz \<le> length d"
  by (auto simp: ventura_arch_def Let_def split: if_splits prod.splits)

lemma fat_slices_in:
  assumes "read_fat_arches d = Inr arches" and "(ct, cs, off, sz, al) \<in> set arches"
  shows "off + sz \<le> length d"
  using assms by (auto simp: read_fat_arches_def Let_def dest!: mapE_set dest: ventura_arch_in)

lemma nth_slice: "i + n \<le> length d \<Longrightarrow> j < n \<Longrightarrow> slice d i n ! j = d ! (i + j)"
  by (simp add: slice_def)

lemma enc_zero: "enc e k 0 = replicate k 0"
proof -
  have "le_bytes k 0 = replicate k 0" by (induction k) simp_all
  then show ?thesis by (simp add: enc_def split: endian.split)
qed

lemma nth_put_zero:
  assumes "i + 4 \<le> length s" and "j < length s"
  shows "put LE 4 s i 0 ! j = (if i \<le> j \<and> j < i + 4 then 0 else s ! j)"
  using assms by (auto simp: put_def nth_splice enc_zero)

text \<open>
  C5: The conversion of an accepted universal WindowServer never fails its own
  postcondition: it yields the ARM64/E slice the file names, byte for byte except that the
  four bytes of the Mach header's cpusubtype are zero; the result is classified as ready, and
  converting it again changes nothing.
\<close>

theorem prepare_bytes_correct:
  assumes "preparation_state d = Inr Needs_Conversion"
  shows "\<exists>arches ct cs off sz al out. read_fat_arches d = Inr arches \<and>
    List.find is_arm64e arches = Some (ct, cs, off, sz, al) \<and> off + sz \<le> length d \<and>
    prepare_bytes d = Inr out \<and> preparation_state out = Inr Ready \<and> prepare_bytes out = Inr out \<and>
    length out = sz \<and> (\<forall>j < sz. out ! j = (if 8 \<le> j \<and> j < 12 then 0 else d ! (off + j)))"
proof -
  from assms obtain arches ct cs off sz al where a: "read_fat_arches d = Inr arches"
    and f: "List.find is_arm64e arches = Some (ct, cs, off, sz, al)"
    and u: "read_thin_uuid (slice d off sz) = Inr EXPECTED_UUID"
    by (auto simp: preparation_state_def Let_def split: if_splits option.splits)
  have i: "off + sz \<le> length d" using fat_slices_in [OF a] find_SomeD [OF f] by blast
  let ?out = "put LE 4 (slice d off sz) 8 0"
  have r: "preparation_state ?out = Inr Ready" by (rule prepared_ready [OF u])
  have l: "32 \<le> sz" using u i by (auto simp: read_thin_uuid_def not_less length_slice)
  have p: "prepare_bytes d = Inr ?out"
    using assms a f r l i by (simp add: prepare_bytes_def)
  have "prepare_bytes ?out = Inr ?out" using r by (simp add: prepare_bytes_def)
  moreover have "length ?out = sz" using l i by simp
  moreover have "\<forall>j < sz. ?out ! j = (if 8 \<le> j \<and> j < 12 then 0 else d ! (off + j))"
    using l i by (simp add: nth_put_zero nth_slice)
  ultimately show ?thesis using a f i p r by blast
qed

subsection \<open>The appended slice\<close>

lemma put_arch32_spec:
  assumes "put_arch32 d i a = Inr d'"
  shows "length d' = length d" and "arch32 d' i = a"
    and "j + n \<le> i \<or> i + 20 \<le> j \<Longrightarrow> slice d' j n = slice d j n"
  using assms
  by (auto simp: put_arch32_def arch32_def fld_put fld_put_other slice_put split: prod.splits if_splits)

lemma arch32_cong: "slice d i 20 = slice d' j 20 \<Longrightarrow> arch32 d i = arch32 d' j"
proof -
  assume a: "slice d i 20 = slice d' j 20"
  have "fld BE 4 d (i + k) = fld BE 4 d' (j + k)" if "k + 4 \<le> 20" for k
    using that a fld_slice [of k 4 20 BE d i] fld_slice [of k 4 20 BE d' j] by simp
  from this [of 0] this [of 4] this [of 8] this [of 12] this [of 16] show ?thesis
    by (simp add: arch32_def)
qed

lemma arches_Inr:
  "trampoline_arches d = Inr arches \<longleftrightarrow>
     8 \<le> length d \<and> u32 BE d 0 = FAT_MAGIC \<and> 0 < length arches \<and> length arches \<le> 64 \<and>
     8 + length arches * 20 \<le> length d \<and> u32 BE d 4 = length arches \<and>
     (\<forall>i < length arches. arches ! i = arch32 d (8 + i * 20))"
proof -
  have "map f [0..<n] = arches \<longleftrightarrow> n = length arches \<and> (\<forall>i < length arches. arches ! i = f i)"
    for f :: "nat \<Rightarrow> fat_arch" and n by (auto simp: list_eq_iff_nth_eq)
  then show ?thesis by (auto simp: trampoline_arches_def Let_def not_less)
qed

lemma append_slice_spec:
  assumes a: "trampoline_arches d = Inr arches" and n: "length arches < 64"
    and src: "source \<in> set arches" "source = (ct, cs, off, sz, al)" "CPU_TYPE_ARM64 = ct"
    and s: "source_slice d arches source = Inr s" and out: "append_slice d arches source s = Inr out"
  defines "base \<equiv> round_up (length d) (2 ^ al)"
  shows "trampoline_arches out = Inr (arches @ [(ct, 0, base, sz, al)])"
    and "8 + (length arches + 1) * 20 \<le> j \<Longrightarrow> j + m \<le> length d \<Longrightarrow> slice out j m = slice d j m"
    and "slice out base sz = put LE 4 s 8 0" and "length out = base + sz"
    and "(ct', cs', j, rest) \<in> set arches \<Longrightarrow> 8 + (length arches + 1) * 20 \<le> j"
proof -
  let ?n = "length arches"
  let ?s = "put LE 4 s 8 0" and ?pad = "d @ replicate (base - length d) 0"
  from s src have len: "length s = sz" "12 \<le> sz" "off + sz \<le> length d" and sl: "s = slice d off sz"
    by (auto simp: source_slice_def Let_def not_less)
  let ?m = "Min (set (map (\<lambda>(_, _, offset, _). offset) arches))"
  have room: "8 + (?n + 1) * 20 \<le> ?m" using out src by (auto simp: append_slice_def split: if_splits)
  have low: "?m \<le> j'" if "(ct', cs', j', rest') \<in> set arches" for ct' cs' j' rest'
    by (rule Min_le) (use that in force)+
  show "(ct', cs', j, rest) \<in> set arches \<Longrightarrow> 8 + (?n + 1) * 20 \<le> j"
    using room low order_trans by blast
  have off: "8 + (?n + 1) * 20 \<le> off" using room low [of ct cs off "(sz, al)"] src(1,2) by simp
  have b: "length d \<le> base" unfolding base_def by (rule round_up_ge) simp
  let ?r = "put BE 4 (?pad @ ?s) 4 (?n + 1)"
  have lp: "length (?pad @ ?s) = base + sz" "length ?pad = base" using b len by simp_all
  from out src room len have fin: "put_arch32 ?r (8 + ?n * 20) (ct, 0, base, sz, al) = Inr out"
    by (auto simp: append_slice_def Let_def base_def [symmetric] split: if_splits)
  note spec = put_arch32_spec [OF fin]
  show l: "length out = base + sz" using spec(1) lp len off by simp
  have keep: "slice out j m = slice (?pad @ ?s) j m"
    if "8 + (?n + 1) * 20 \<le> j \<or> (8 \<le> j \<and> j + m \<le> 8 + ?n * 20)" for j m
  proof -
    have "slice out j m = slice ?r j m" by (rule spec(3)) (use that in auto)
    also have "\<dots> = slice (?pad @ ?s) j m" by (rule slice_put) (use lp len that in auto)
    finally show ?thesis .
  qed
  have pad: "slice (?pad @ ?s) j m = slice d j m" if "j + m \<le> length d" for j m
    using that b by (simp add: slice_append_left)
  show "8 + (?n + 1) * 20 \<le> j \<Longrightarrow> j + m \<le> length d \<Longrightarrow> slice out j m = slice d j m"
    using keep pad by simp
  have "slice out base sz = slice (?pad @ ?s) base sz" by (rule keep) (use off len b in simp)
  also have "\<dots> = ?s" using slice_append_right [of ?pad ?s 0 sz] lp len by (simp add: slice_def)
  finally show "slice out base sz = ?s" .
  have d: "8 \<le> length d" "u32 BE d 0 = FAT_MAGIC" "0 < ?n" "8 + ?n * 20 \<le> length d"
    "\<forall>i < ?n. arches ! i = arch32 d (8 + i * 20)" using a by (auto simp: arches_Inr)
  have "slice out 0 4 = slice d 0 4"
    using spec(3) [of 0 4] slice_put [of 4 4 "?pad @ ?s" 0 4 BE "?n + 1"] lp len pad [of 0 4] d by simp
  then have magic: "u32 BE out 0 = FAT_MAGIC" using d(2) fld_cong by metis
  have "slice out 4 4 = slice ?r 4 4" by (rule spec(3)) simp
  then have "u32 BE out 4 = u32 BE ?r 4" by (rule fld_cong)
  also have "\<dots> = ?n + 1" by (rule fld_put) (use lp len n in simp_all)
  finally have count: "u32 BE out 4 = ?n + 1" .
  have old: "arch32 out (8 + i * 20) = arch32 d (8 + i * 20)" if "i < ?n" for i
  proof (rule arch32_cong)
    have "8 + i * 20 + 20 \<le> 8 + ?n * 20" using that by simp
    then show "slice out (8 + i * 20) 20 = slice d (8 + i * 20) 20"
      using keep [of "8 + i * 20" 20] pad [of "8 + i * 20" 20] d(4) by simp
  qed
  have "8 + (?n + 1) * 20 \<le> length out" using off len l b by simp
  then show "trampoline_arches out = Inr (arches @ [(ct, 0, base, sz, al)])"
    unfolding arches_Inr using magic count n d(5) old spec(2)
    by (auto simp: nth_append less_Suc_eq)
qed

text \<open>
  C6: Adding the ARM64/ALL slice is conservative.  The new table is the old one followed by
  one ARM64/ALL entry; every slice of the old table that lies in the file keeps its bytes; the
  new slice is an exact copy of the ARM64/E slice with a zero cpusubtype, placed past the old
  end at the alignment of its source; and running the script on the result changes nothing.
  (The reader accepts 64 entries at most, so the table must have room for one more.)
\<close>

theorem add_slice_correct:
  assumes "trampoline_arches d = Inr arches" and "\<not> has_arm64_all arches" and "length arches < 64"
    and "add_arm64_all_slice d = Inr out"
  shows "\<exists>cs off sz al base. (CPU_TYPE_ARM64, cs, off, sz, al) \<in> set arches \<and>
    trampoline_arches out = Inr (arches @ [(CPU_TYPE_ARM64, 0, base, sz, al)]) \<and>
    add_arm64_all_slice out = Inr out \<and> 2 ^ al dvd base \<and> length d \<le> base \<and>
    slice out base sz = put LE 4 (slice d off sz) 8 0 \<and>
    (\<forall>(ct', cs', j, m, al') \<in> set arches. j + m \<le> length d \<longrightarrow> slice out j m = slice d j m)"
proof -
  from assms obtain source s where f: "List.find is_arm64e arches = Some source"
    and s: "source_slice d arches source = Inr s" and out: "append_slice d arches source s = Inr out"
    by (auto simp: add_arm64_all_slice_def split: option.splits)
  obtain cs off sz al where src: "source = (CPU_TYPE_ARM64, cs, off, sz, al)"
    using find_SomeD [OF f] by (cases source) (auto simp: is_arm64e_def)
  have m: "source \<in> set arches" using find_SomeD [OF f] by simp
  note spec = append_slice_spec [OF assms(1,3) m src refl s out]
  have sl: "s = slice d off sz" using s src by (auto simp: source_slice_def Let_def)
  have again: "add_arm64_all_slice out = Inr out"
    using spec(1) by (simp add: add_arm64_all_slice_def has_arm64_all_def is_arm64_all_def subtype_base_def)
  have keep: "\<forall>(ct', cs', j, m, al') \<in> set arches. j + m \<le> length d \<longrightarrow> slice out j m = slice d j m"
    using spec(2,5) by fastforce
  show ?thesis
    using spec(1,3) m src sl again keep round_up_dvd round_up_ge [of "2 ^ al" "length d"] by auto
qed

subsection \<open>Relabelling in place\<close>

definition entry_at :: "bytes \<Rightarrow> nat \<Rightarrow> fat_arch" where
  "entry_at d i = arch32 d (8 + i * 20)"

definition relabelled :: "bytes \<Rightarrow> nat \<Rightarrow> nat set" where
  "relabelled d k =
     {p. \<exists>i < k. is_arm64e (entry_at d i) \<and>
        (8 + i * 20 + 4 \<le> p \<and> p < 8 + i * 20 + 8 \<or>
         fst (snd (snd (entry_at d i))) + 8 \<le> p \<and> p < fst (snd (snd (entry_at d i))) + 12)}"

definition slices_past_table :: "bytes \<Rightarrow> nat \<Rightarrow> bool" where
  "slices_past_table d n \<longleftrightarrow>
     (\<forall>i < n. is_arm64e (entry_at d i) \<longrightarrow> 8 + n * 20 \<le> fst (snd (snd (entry_at d i))))"

lemma nth_put_zero_be:
  assumes "i + 4 \<le> length s" and "j < length s"
  shows "put BE 4 s i 0 ! j = (if i \<le> j \<and> j < i + 4 then 0 else s ! j)"
  using assms by (auto simp: put_def nth_splice enc_zero)

lemma slice_eq_nth:
  assumes "length d' = length d" and "\<And>p. i \<le> p \<Longrightarrow> p < i + n \<Longrightarrow> p < length d \<Longrightarrow> d' ! p = d ! p"
  shows "slice d' i n = slice d i n"
  using assms by (intro nth_equalityI) (auto simp: slice_def)

lemma entry_untouched:
  assumes "length buf = length d" and "\<forall>p < length d. buf ! p = (if p \<in> relabelled d k then 0 else d ! p)"
    and "slices_past_table d n" and "k \<le> i" and "i < n"
  shows "entry_at buf i = entry_at d i"
  unfolding entry_at_def
proof (rule arch32_cong, rule slice_eq_nth [OF assms(1)])
  fix p assume p: "8 + i * 20 \<le> p" "p < 8 + i * 20 + 20" "p < length d"
  have "p \<notin> relabelled d k"
  proof
    assume "p \<in> relabelled d k"
    then obtain j where j: "j < k" "is_arm64e (entry_at d j)"
      and w: "8 + j * 20 + 4 \<le> p \<and> p < 8 + j * 20 + 8 \<or>
         fst (snd (snd (entry_at d j))) + 8 \<le> p" unfolding relabelled_def by blast
    have "8 + n * 20 \<le> fst (snd (snd (entry_at d j)))"
      using assms(3-5) j by (simp add: slices_past_table_def)
    moreover have "8 + i * 20 + 20 \<le> 8 + n * 20" using assms(5) by simp
    moreover have "8 + j * 20 + 8 < 8 + i * 20" using j(1) assms(4) by simp
    ultimately show False using w p by linarith
  qed
  with assms(2) p(3) show "buf ! p = d ! p" by simp
qed

lemma relabel_entry_Inr:
  assumes "relabel_entry 20 k (buf, ch) = Inr (buf', ch')" and "8 + k * 20 + 20 \<le> length buf"
  shows "length buf' = length buf \<and>
    (if is_arm64e (entry_at buf k)
     then ch' \<and> fst (snd (snd (entry_at buf k))) + 12 \<le> length buf \<and>
       (\<forall>p < length buf. buf' ! p =
         (if 8 + k * 20 + 4 \<le> p \<and> p < 8 + k * 20 + 8 \<or>
            fst (snd (snd (entry_at buf k))) + 8 \<le> p \<and> p < fst (snd (snd (entry_at buf k))) + 12
          then 0 else buf ! p))
     else buf' = buf \<and> ch' = ch)"
proof (cases "is_arm64e (entry_at buf k)")
  case False
  with assms show ?thesis by (auto simp: relabel_entry_def entry_at_def arch32_def is_arm64e_def Let_def split: if_splits)
next
  case True
  let ?off = "fst (snd (snd (entry_at buf k)))"
  have off: "u32 BE buf (16 + k * 20) = ?off" by (simp add: entry_at_def arch32_def add.commute)
  from True assms(1) have r: "relabel_thin buf ?off = Some (put LE 4 buf (?off + 8) 0)" and ch: "ch'"
    and b: "buf' = put BE 4 (put LE 4 buf (?off + 8) 0) (8 + k * 20 + 4) 0" and l: "?off + 12 \<le> length buf"
    by (auto simp: relabel_entry_def relabel_thin_def entry_at_def arch32_def is_arm64e_def Let_def add.commute
        split: if_splits option.splits)
  have "length buf' = length buf" using b l assms(2) by simp
  moreover have "\<forall>p < length buf. buf' ! p =
         (if 8 + k * 20 + 4 \<le> p \<and> p < 8 + k * 20 + 8 \<or> ?off + 8 \<le> p \<and> p < ?off + 12 then 0 else buf ! p)"
    using l assms(2) by (auto simp: b nth_put_zero_be nth_put_zero)
  ultimately show ?thesis using True ch l by simp
qed

lemma relabelled_Suc:
  "relabelled d (Suc k) = relabelled d k \<union>
     {p. is_arm64e (entry_at d k) \<and>
        (8 + k * 20 + 4 \<le> p \<and> p < 8 + k * 20 + 8 \<or>
         fst (snd (snd (entry_at d k))) + 8 \<le> p \<and> p < fst (snd (snd (entry_at d k))) + 12)}"
  by (auto simp: relabelled_def less_Suc_eq)

lemma relabel_fold:
  assumes "foldE (relabel_entry 20) [0..<k] (d, False) = Inr (buf, ch)" and "k \<le> n"
    and "slices_past_table d n" and "8 + n * 20 \<le> length d"
  shows "length buf = length d \<and> (\<forall>p < length d. buf ! p = (if p \<in> relabelled d k then 0 else d ! p)) \<and>
    (ch \<longleftrightarrow> (\<exists>i < k. is_arm64e (entry_at d i)))"
  using assms(1,2)
proof (induction k arbitrary: buf ch)
  case 0
  then show ?case by (simp add: relabelled_def)
next
  case (Suc k)
  then obtain b c where b: "foldE (relabel_entry 20) [0..<k] (d, False) = Inr (b, c)"
    and s: "relabel_entry 20 k (b, c) = Inr (buf, ch)"
    by (auto simp: foldE_append)
  have IH: "length b = length d" "\<forall>p < length d. b ! p = (if p \<in> relabelled d k then 0 else d ! p)"
    "c \<longleftrightarrow> (\<exists>i < k. is_arm64e (entry_at d i))" using Suc.IH [OF b] Suc.prems(2) by auto
  have e: "entry_at b k = entry_at d k"
    using entry_untouched [OF IH(1,2) assms(3)] Suc.prems(2) by simp
  have "8 + k * 20 + 20 \<le> length b" using Suc.prems(2) assms(4) IH(1) by simp
  note r = relabel_entry_Inr [OF s this, unfolded e]
  show ?case
  proof (cases "is_arm64e (entry_at d k)")
    case True
    with r IH show ?thesis by (auto simp: relabelled_Suc)
  next
    case False
    with r IH show ?thesis by (auto simp: relabelled_Suc less_Suc_eq)
  qed
qed

lemma out_entries:
  assumes "length buf = length d" and "\<forall>p < length d. buf ! p = (if p \<in> relabelled d n then 0 else d ! p)"
    and "slices_past_table d n" and "i < n" and "8 + n * 20 \<le> length d"
  shows "\<not> is_arm64e (entry_at buf i)"
proof (cases "is_arm64e (entry_at d i)")
  case True
  have "slice buf (8 + i * 20 + 4) 4 = replicate 4 0"
  proof (rule nth_equalityI)
    fix j assume j: "j < length (slice buf (8 + i * 20 + 4) 4)"
    then have j4: "j < 4" by (simp add: length_slice)
    have "8 + i * 20 + 20 \<le> length d" using assms(4,5) by simp
    moreover have "8 + i * 20 + 4 + j \<in> relabelled d n" using True assms(4) j4 by (auto simp: relabelled_def)
    ultimately show "slice buf (8 + i * 20 + 4) 4 ! j = replicate 4 0 ! j"
      using assms(1,2) j4 by (simp add: slice_def)
  qed (use assms(1,4,5) in \<open>simp add: length_slice\<close>)
  then have "u32 BE buf (8 + i * 20 + 4) = 0" by (simp add: fld_def dec_def numeral_eq_Suc)
  then show ?thesis
    by (simp add: entry_at_def arch32_def is_arm64e_def subtype_base_def CPU_SUBTYPE_ARM64E_def)
next
  case False
  have "p \<notin> relabelled d n" if "8 + i * 20 \<le> p" "p < 8 + i * 20 + 20" for p
  proof
    assume "p \<in> relabelled d n"
    then obtain j where j: "j < n" "is_arm64e (entry_at d j)"
      and w: "8 + j * 20 + 4 \<le> p \<and> p < 8 + j * 20 + 8 \<or>
         fst (snd (snd (entry_at d j))) + 8 \<le> p" unfolding relabelled_def by blast
    have "8 + n * 20 \<le> fst (snd (snd (entry_at d j)))" using assms(3) j by (simp add: slices_past_table_def)
    moreover have "8 + i * 20 + 20 \<le> 8 + n * 20" using assms(4) by simp
    moreover have "j \<noteq> i" using j(2) False by auto
    then have "j * 20 + 20 \<le> i * 20 \<or> i * 20 + 20 \<le> j * 20" by linarith
    ultimately show False using w that by linarith
  qed
  with assms(1,2) have "slice buf (8 + i * 20) 20 = slice d (8 + i * 20) 20"
    by (intro slice_eq_nth) auto
  then have "entry_at buf i = entry_at d i" unfolding entry_at_def by (rule arch32_cong)
  with False show ?thesis by simp
qed

text \<open>
  Relabelling a 32-bit universal file in place writes zeros over exactly the cpusubtype
  fields of its ARM64/E table entries and of the Mach headers they name, leaves every other
  byte alone, and leaves no ARM64/E entry in the table, whenever the slices lie past the
  table.
\<close>

theorem arm64ify_exact:
  assumes "arm64ify d = Inr out" and "is_fat d" and "u32 BE d 0 = FAT_MAGIC"
    and "slices_past_table d (u32 BE d 4)"
  shows "length out = length d \<and>
    (\<forall>p < length d. out ! p = (if p \<in> relabelled d (u32 BE d 4) then 0 else d ! p)) \<and>
    (\<exists>i < u32 BE d 4. is_arm64e (entry_at d i)) \<and> (\<forall>i < u32 BE d 4. \<not> is_arm64e (entry_at out i))"
proof -
  have "fat_entry_size (u32 BE d 0) = 20" using assms(3) by (simp add: fat_entry_size_def FAT_MAGIC_def FAT_MAGIC_64_def)
  with assms(1,2) have len: "8 + u32 BE d 4 * 20 \<le> length d"
    and f: "foldE (relabel_entry 20) [0..<u32 BE d 4] (d, False) = Inr (out, True)"
    by (auto simp: arm64ify_def Let_def not_less)
  note r = relabel_fold [OF f order_refl assms(4) len]
  then show ?thesis using out_entries [OF _ _ assms(4) _ len] by auto
qed

subsection \<open>64-bit tables\<close>

lemma fat64_not_thin:
  assumes "u32 BE d 0 = FAT_MAGIC_64" and "4 \<le> length d"
  shows "relabel_thin d 0 = None"
proof -
  have "enc BE 4 (dec BE (slice d 0 4)) = slice d 0 4" using enc_dec [of BE "slice d 0 4"] assms(2) by simp
  then have "slice d 0 4 = enc BE 4 FAT_MAGIC_64" using assms(1) by (simp add: fld_def)
  then have "u32 LE d 0 = dec LE (enc BE 4 FAT_MAGIC_64)" by (simp add: fld_def)
  also have "\<dots> = 0xbfbafeca" by code_simp
  finally show ?thesis by (simp add: relabel_thin_def MH_MAGIC_64_def)
qed

lemma high_half:
  assumes "u64 BE d i < 2 ^ 32" and "i + 8 \<le> length d"
  shows "u32 BE d i = 0"
proof -
  have app: "le_nat (xs @ ys) = le_nat xs + 256 ^ length xs * le_nat ys" for xs ys
    by (induction xs) (simp_all add: algebra_simps)
  have "slice d i 8 = slice d i 4 @ slice d (i + 4) 4" using slice_join [of d i 4 4] by simp
  then have "u64 BE d i = le_nat (rev (slice d (i + 4) 4)) + 256 ^ 4 * u32 BE d i"
    using assms(2) by (simp add: fld_def dec_def app)
  with assms(1) show ?thesis by simp
qed

text \<open>
  C7: A 64-bit universal file whose ARM64/E slices start below 4 GiB is always refused: the
  relabelling loop unpacks every entry with the 32-bit layout, reads the high half of the
  64-bit offset (zero) and inspects the fat header itself, so the first ARM64/E entry raises
  although the documentation says that fat files are handled.
\<close>

theorem arm64ify_fat64_refused:
  assumes "is_fat d" and "u32 BE d 0 = FAT_MAGIC_64" and "8 + u32 BE d 4 * 32 \<le> length d"
    and "i < u32 BE d 4" and "is_arm64e (arch64 d (8 + i * 32))"
    and "\<forall>j < u32 BE d 4. is_arm64e (arch64 d (8 + j * 32)) \<longrightarrow> u64 BE d (8 + j * 32 + 8) < 2 ^ 32"
  shows "arm64ify d = Inl (FormatError ''fat entry claims arm64e but slice is not'')"
proof -
  let ?e = "Inl (FormatError ''fat entry claims arm64e but slice is not'') :: (bytes \<times> bool) result"
  have step: "relabel_entry 32 j (d, ch) = (if is_arm64e (arch64 d (8 + j * 32)) then ?e else Inr (d, ch))"
    if "j < u32 BE d 4" for j ch
  proof (cases "is_arm64e (arch64 d (8 + j * 32))")
    case False
    then show ?thesis by (auto simp: relabel_entry_def arch64_def is_arm64e_def Let_def)
  next
    case True
    have "8 + j * 32 + 32 \<le> length d" using that assms(3) by simp
    then have "u32 BE d (8 + j * 32 + 8) = 0" using True assms(6) that by (intro high_half) auto
    with True assms(2,3) show ?thesis
      by (simp add: relabel_entry_def arch64_def is_arm64e_def Let_def fat64_not_thin)
  qed
  have "foldE (relabel_entry 32) [0..<k] (d, False) =
      (if \<exists>j < k. is_arm64e (arch64 d (8 + j * 32)) then ?e else Inr (d, False))" if "k \<le> u32 BE d 4" for k
    using that by (induction k) (auto simp: foldE_append step less_Suc_eq)
  moreover have "\<exists>j < u32 BE d 4. is_arm64e (arch64 d (8 + j * 32))" using assms(4,5) by blast
  ultimately have "foldE (relabel_entry 32) [0..<u32 BE d 4] (d, False) = ?e" by simp
  then show ?thesis using assms(1-3) by (simp add: arm64ify_def Let_def fat_entry_size_def)
qed

subsection \<open>The dylib conversion\<close>

lemma dylib_sizes: "length DYLIB_NAME = 29" "dylib_cmdsize = 56"
  by (simp_all add: DYLIB_NAME_def dylib_cmdsize_def round_up_def)

lemma slack_zero:
  assumes "n \<le> slack_after s fin"
  shows "fin + n \<le> length s \<or> n = 0" and "slice s fin n = replicate n 0"
proof -
  let ?w = "slice s fin 4096"
  have len: "slack_after s fin \<le> length ?w" by (simp add: slack_after_def length_takeWhile_le)
  then show "fin + n \<le> length s \<or> n = 0" using assms by (auto simp: length_slice)
  have "takeWhile (\<lambda>b. b = 0) ?w = replicate (slack_after s fin) 0"
    unfolding slack_after_def by (rule replicate_eqI) (auto dest: set_takeWhileD)
  then have "take n ?w = replicate n 0"
    using assms by (metis min.absorb1 slack_after_def take_replicate take_take takeWhile_eq_take)
  moreover have "n \<le> 4096" using assms len by (simp add: length_slice)
  ultimately show "slice s fin n = replicate n 0" by (simp add: slice_def min_absorb1)
qed

lemma put_pair_spec:
  assumes "i + 8 \<le> length s"
  shows "length (put_pair s i a b) = length s"
    and "j + n \<le> i \<or> i + 8 \<le> j \<Longrightarrow> slice (put_pair s i a b) j n = slice s j n"
    and "a < 2 ^ 32 \<Longrightarrow> u32 LE (put_pair s i a b) i = a"
    and "b < 2 ^ 32 \<Longrightarrow> u32 LE (put_pair s i a b) (i + 4) = b"
  using assms by (auto simp: put_pair_def slice_put fld_put fld_put_other)

lemma id_command_spec:
  assumes "fin + 56 \<le> length s"
  shows "length (id_command s fin) = length s"
    and "j + n \<le> fin \<or> fin + 53 \<le> j \<Longrightarrow> slice (id_command s fin) j n = slice s j n"
    and "map (\<lambda>k. u32 LE (id_command s fin) (fin + 4 * k)) [0..<6] = [0x0d, 56, 24, 2, 0x10000, 0x10000]"
    and "slice (id_command s fin) (fin + 24) 29 = DYLIB_NAME"
proof -
  let ?s1 = "put_pair s fin 0x0d 56" let ?s2 = "put_pair ?s1 (fin + 8) 24 2"
  let ?s3 = "put_pair ?s2 (fin + 16) 0x10000 0x10000"
  have c: "id_command s fin = splice ?s3 (fin + 24) DYLIB_NAME" by (simp add: id_command_def dylib_sizes)
  have l: "length ?s1 = length s" "length ?s2 = length s" "length ?s3 = length s"
    using assms by (simp_all add: put_pair_spec(1))
  show "length (id_command s fin) = length s" unfolding c using assms l dylib_sizes(1) by simp
  show "slice (id_command s fin) (fin + 24) 29 = DYLIB_NAME"
    unfolding c using slice_splice_same [of "fin + 24" DYLIB_NAME ?s3] assms l dylib_sizes by simp
  have keep: "slice (id_command s fin) j n = slice ?s3 j n" if "j + n \<le> fin + 24 \<or> fin + 53 \<le> j" for j n
    unfolding c by (rule slice_splice_other) (use assms l that in \<open>auto simp: dylib_sizes(1)\<close>)
  show "slice (id_command s fin) j n = slice s j n" if "j + n \<le> fin \<or> fin + 53 \<le> j"
  proof -
    have "slice (id_command s fin) j n = slice ?s3 j n" by (rule keep) (use that in auto)
    also have "\<dots> = slice ?s2 j n" using assms l that by (intro put_pair_spec(2)) auto
    also have "\<dots> = slice ?s1 j n" using assms l that by (intro put_pair_spec(2)) auto
    also have "\<dots> = slice s j n" using assms that by (intro put_pair_spec(2)) auto
    finally show ?thesis .
  qed
  have k: "u32 LE (id_command s fin) j = u32 LE ?s3 j" if "j + 4 \<le> fin + 24" for j
    by (rule fld_cong, rule keep) (use that in simp)
  have k3: "u32 LE ?s3 j = u32 LE ?s2 j" if "j + 4 \<le> fin + 16" for j
    by (rule fld_cong, rule put_pair_spec(2)) (use that assms l in auto)
  have k2: "u32 LE ?s2 j = u32 LE ?s1 j" if "j + 4 \<le> fin + 8" for j
    by (rule fld_cong, rule put_pair_spec(2)) (use that assms l in auto)
  have "u32 LE (id_command s fin) fin = 0x0d" "u32 LE (id_command s fin) (fin + 4) = 56"
    using k [of fin] k3 [of fin] k2 [of fin] k [of "fin + 4"] k3 [of "fin + 4"] k2 [of "fin + 4"]
      put_pair_spec(3,4) [of fin s] assms by simp_all
  moreover have "u32 LE (id_command s fin) (fin + 8) = 24" "u32 LE (id_command s fin) (fin + 12) = 2"
    using k [of "fin + 8"] k3 [of "fin + 8"] k [of "fin + 12"] k3 [of "fin + 12"]
      put_pair_spec(3,4) [of "fin + 8" ?s1] assms l by (simp_all add: add.assoc)
  moreover have "u32 LE (id_command s fin) (fin + 16) = 0x10000" "u32 LE (id_command s fin) (fin + 20) = 0x10000"
    using k [of "fin + 16"] k [of "fin + 20"] put_pair_spec(3,4) [of "fin + 16" ?s2] assms l by (simp_all add: add.assoc)
  ultimately show "map (\<lambda>k. u32 LE (id_command s fin) (fin + 4 * k)) [0..<6] = [0x0d, 56, 24, 2, 0x10000, 0x10000]"
    by (simp add: upt_rec)
qed

text \<open>
  The conversion of an executable slice to a dylib writes its identification command over
  zero padding only: the 56 bytes after the load commands were zero and inside the slice; the
  result has the same length, file type 6, one more command and 56 more command bytes; all
  header fields after them, all load commands and everything after the padding are those of
  the slice; and the new command carries the name, offset 24, timestamp 2 and versions 1.0.0.
\<close>

theorem to_dylib_correct:
  assumes "arm64e_slice d = Inr s" and "to_dylib d = Inr out"
  defines "fin \<equiv> 32 + u32 LE s 20"
  shows "slice s fin 56 = replicate 56 0 \<and> fin + 56 \<le> length s \<and> length out = length s \<and>
    u32 LE out 12 = 6 \<and> u32 LE out 16 = u32 LE s 16 + 1 \<and> u32 LE out 20 = u32 LE s 20 + 56 \<and>
    slice out 0 12 = slice s 0 12 \<and> slice out 24 (fin - 24) = slice s 24 (fin - 24) \<and>
    slice out (fin + 53) n = slice s (fin + 53) n \<and>
    map (\<lambda>k. u32 LE out (fin + 4 * k)) [0..<6] = [0x0d, 56, 24, 2, 0x10000, 0x10000] \<and>
    slice out (fin + 24) 29 = DYLIB_NAME"
proof -
  let ?c = "id_command s fin"
  let ?s1 = "put LE 4 ?c 12 6" let ?s2 = "put LE 4 ?s1 16 (u32 LE s 16 + 1)"
  from assms have slack: "56 \<le> slack_after s fin" and out: "out = put LE 4 ?s2 20 (u32 LE s 20 + 56)"
    and b: "u32 LE s 16 + 1 < 2 ^ 32" "u32 LE s 20 + 56 < 2 ^ 32"
    by (auto simp: to_dylib_def fin_def dylib_sizes Let_def not_less split: if_splits)
  note z = slack_zero [OF slack]
  have len: "fin + 56 \<le> length s" using z(1) by simp
  note c = id_command_spec [OF len]
  have l: "length ?c = length s" "length ?s1 = length s" "length ?s2 = length s" "length out = length s"
    "24 \<le> length s" using c(1) len by (simp_all add: out fin_def)
  have keep: "slice out j m = slice ?c j m" if "j + m \<le> 12 \<or> 24 \<le> j" for j m
  proof -
    have "slice out j m = slice ?s2 j m" unfolding out by (rule slice_put) (use l that in auto)
    also have "\<dots> = slice ?s1 j m" by (rule slice_put) (use l that in auto)
    also have "\<dots> = slice ?c j m" by (rule slice_put) (use l that in auto)
    finally show ?thesis .
  qed
  have "u32 LE out 20 = u32 LE s 20 + 56" unfolding out using l b by (simp add: fld_put)
  moreover have "u32 LE out 16 = u32 LE s 16 + 1" unfolding out using l b by (simp add: fld_put_other fld_put)
  moreover have "u32 LE out 12 = 6" unfolding out using l by (simp add: fld_put_other fld_put)
  moreover have "slice out 0 12 = slice s 0 12"
    using keep [of 0 12] c(2) [of 0 12] by (simp add: fin_def)
  moreover have "slice out 24 (fin - 24) = slice s 24 (fin - 24)"
    using keep [of 24 "fin - 24"] c(2) [of 24 "fin - 24"] by (simp add: fin_def)
  moreover have "slice out (fin + 53) n = slice s (fin + 53) n"
    using keep [of "fin + 53" n] c(2) [of "fin + 53" n] by (simp add: fin_def)
  moreover have "u32 LE out (fin + 4 * k) = u32 LE ?c (fin + 4 * k)" for k
    by (rule fld_cong, rule keep) (simp add: fin_def)
  moreover have "slice out (fin + 24) 29 = DYLIB_NAME"
    using keep [of "fin + 24" 29] c(4) by (simp add: fin_def)
  ultimately show ?thesis using z(2) len l c(3) by simp
qed

subsection \<open>Concrete images\<close>

definition sample_thin :: "nat \<Rightarrow> bytes" where
  "sample_thin sub =
     enc LE 4 0xfeedfacf @ enc LE 4 0x0100000c @ enc LE 4 sub @ enc LE 4 2 @
     enc LE 4 1 @ enc LE 4 24 @ enc LE 8 0 @ enc LE 4 0x1b @ enc LE 4 24 @ EXPECTED_UUID"

definition sample_fat :: bytes where
  "sample_fat =
     enc BE 4 0xcafebabe @ enc BE 4 1 @ enc BE 4 0x0100000c @ enc BE 4 2 @ enc BE 4 64 @ enc BE 4 56 @
     enc BE 4 2 @ replicate 36 0 @ sample_thin 2"

lemma sample_fat_slices:
  "slice sample_fat 0 4 = enc BE 4 0xcafebabe" "slice sample_fat 4 4 = enc BE 4 1"
  "slice sample_fat 8 4 = enc BE 4 0x0100000c" "slice sample_fat 12 4 = enc BE 4 2"
  "slice sample_fat 16 4 = enc BE 4 64" "slice sample_fat 20 4 = enc BE 4 56" "slice sample_fat 24 4 = enc BE 4 2"
  "slice sample_fat 64 56 = sample_thin 2"
  by code_simp+

lemma sample_fat_length: "length sample_fat = 120" "length (sample_thin v) = 56"
  by (simp_all add: sample_fat_def sample_thin_def EXPECTED_UUID_def)

lemma sample_fat_fields:
  "u32 BE sample_fat 0 = FAT_MAGIC" "u32 LE sample_fat 0 = 0xbebafeca" "u32 BE sample_fat 4 = 1"
  "arch32 sample_fat 8 = (CPU_TYPE_ARM64, 2, 64, 56, 2)"
  by (simp_all add: arch32_def fld_def sample_fat_slices) code_simp+

lemma sample_thin_fields:
  "u32 LE (sample_thin 2) 0 = MH_MAGIC_64" "u32 LE (sample_thin 2) 4 = CPU_TYPE_ARM64"
  "u32 LE (sample_thin 2) 8 = 2" "u32 LE (sample_thin 2) 12 = 2"
  "u32 LE (sample_thin 2) 16 = 1" "u32 LE (sample_thin 2) 20 = 24"
  "u32 LE (sample_thin 2) 32 = 0x1b" "u32 LE (sample_thin 2) 36 = 24"
  "slice (sample_thin 2) 40 16 = EXPECTED_UUID"
  by code_simp+

lemma sample_state: "preparation_state sample_fat = Inr Needs_Conversion"
proof -
  have "read_thin_uuid (sample_thin 2) = Inr EXPECTED_UUID"
    by (simp add: read_thin_uuid_def sample_thin_fields sample_fat_length LC_UUID_def)
  moreover have "read_fat_arches sample_fat = Inr [(CPU_TYPE_ARM64, 2, 64, 56, 2)]"
    by (simp add: read_fat_arches_def sample_fat_fields sample_fat_length ventura_arch_def FAT_MAGIC_def)
  ultimately show ?thesis
    by (simp add: preparation_state_def sample_fat_fields sample_fat_length MH_MAGIC_64_def is_arm64e_def
        subtype_base_def CPU_SUBTYPE_ARM64E_def sample_fat_slices)
qed

theorem prepare_bytes_correct_witness:
  "\<exists>arches ct cs off sz al out. read_fat_arches sample_fat = Inr arches \<and>
    List.find is_arm64e arches = Some (ct, cs, off, sz, al) \<and> off + sz \<le> length sample_fat \<and>
    prepare_bytes sample_fat = Inr out \<and> preparation_state out = Inr Ready \<and> prepare_bytes out = Inr out \<and>
    length out = sz \<and> (\<forall>j < sz. out ! j = (if 8 \<le> j \<and> j < 12 then 0 else sample_fat ! (off + j)))"
  by (rule prepare_bytes_correct [OF sample_state])

lemma sample_arches: "trampoline_arches sample_fat = Inr [(CPU_TYPE_ARM64, 2, 64, 56, 2)]"
  by (simp add: trampoline_arches_def sample_fat_fields sample_fat_length)

lemma sample_added: "\<exists>out. add_arm64_all_slice sample_fat = Inr out"
  by (simp add: add_arm64_all_slice_def sample_arches has_arm64_all_def is_arm64_all_def is_arm64e_def
      CPU_SUBTYPE_ARM64E_def subtype_base_def source_slice_def append_slice_def sample_fat_length sample_fat_slices
      sample_thin_fields put_arch32_def round_up_def CPU_TYPE_ARM64_def)

theorem add_slice_correct_witness:
  "\<exists>out cs off sz al base. add_arm64_all_slice sample_fat = Inr out \<and>
    (CPU_TYPE_ARM64, cs, off, sz, al) \<in> set [(CPU_TYPE_ARM64, 2, 64, 56, 2)] \<and>
    trampoline_arches out = Inr ([(CPU_TYPE_ARM64, 2, 64, 56, 2)] @ [(CPU_TYPE_ARM64, 0, base, sz, al)]) \<and>
    slice out base sz = put LE 4 (slice sample_fat off sz) 8 0"
proof -
  obtain out where out: "add_arm64_all_slice sample_fat = Inr out" using sample_added by blast
  have "\<not> has_arm64_all [(CPU_TYPE_ARM64, 2, 64, 56, 2)]"
    by (simp add: has_arm64_all_def is_arm64_all_def subtype_base_def)
  from add_slice_correct [OF sample_arches this _ out] out show ?thesis by auto
qed

lemma sample_fat_cases: "is_fat sample_fat" "slices_past_table sample_fat (u32 BE sample_fat 4)"
  by (simp_all add: is_fat_def sample_fat_fields sample_fat_length slices_past_table_def entry_at_def)

lemma sample_relabelled: "\<exists>out. arm64ify sample_fat = Inr out"
proof -
  have "u32 BE sample_fat 8 = CPU_TYPE_ARM64" "u32 BE sample_fat 12 = 2" "u32 BE sample_fat 16 = 64"
    using sample_fat_fields(4) by (simp_all add: arch32_def)
  moreover have "u32 LE sample_fat 64 = MH_MAGIC_64" "u32 LE sample_fat 68 = CPU_TYPE_ARM64" "u32 LE sample_fat 72 = 2"
    using fld_slice [of 0 4 56 LE sample_fat 64] fld_slice [of 4 4 56 LE sample_fat 64]
      fld_slice [of 8 4 56 LE sample_fat 64] sample_thin_fields(1-3) by (simp_all add: sample_fat_slices(8))
  ultimately show ?thesis
    by (simp add: arm64ify_def sample_fat_cases(1) sample_fat_fields fat_entry_size_def FAT_MAGIC_def FAT_MAGIC_64_def
        sample_fat_length relabel_entry_def relabel_thin_def subtype_base_def CPU_SUBTYPE_ARM64E_def upt_rec)
qed

theorem arm64ify_exact_witness:
  "\<exists>out. arm64ify sample_fat = Inr out \<and> length out = 120 \<and> \<not> is_arm64e (entry_at out 0)"
proof -
  obtain out where out: "arm64ify sample_fat = Inr out" using sample_relabelled by blast
  from arm64ify_exact [OF out sample_fat_cases(1) sample_fat_fields(1) sample_fat_cases(2)] out
  show ?thesis by (auto simp: sample_fat_fields sample_fat_length)
qed

text \<open>The same slice in a 64-bit table.\<close>

definition sample_fat64 :: bytes where
  "sample_fat64 =
     enc BE 4 0xcafebabf @ enc BE 4 1 @ enc BE 4 0x0100000c @ enc BE 4 2 @ enc BE 8 64 @ enc BE 8 56 @
     enc BE 4 2 @ enc BE 4 0 @ replicate 24 0 @ sample_thin 2"

lemma sample_fat64_facts:
  "u32 BE sample_fat64 0 = FAT_MAGIC_64" "u32 BE sample_fat64 4 = 1" "length sample_fat64 = 120"
  "u32 BE sample_fat64 8 = CPU_TYPE_ARM64" "u32 BE sample_fat64 12 = 2" "u64 BE sample_fat64 16 = 64"
  by code_simp+

theorem arm64ify_fat64_refused_witness:
  "arm64ify sample_fat64 = Inl (FormatError ''fat entry claims arm64e but slice is not'')"
  by (rule arm64ify_fat64_refused [of sample_fat64 0])
    (simp_all add: sample_fat64_facts is_fat_def is_arm64e_def arch64_def subtype_base_def CPU_SUBTYPE_ARM64E_def)

definition sample_exec :: bytes where
  "sample_exec = sample_thin 2 @ replicate 60 0"

lemma sample_exec_facts:
  "u32 BE sample_exec 0 = 0xcffaedfe" "u32 LE sample_exec 0 = MH_MAGIC_64" "u32 LE sample_exec 12 = 2"
  "u32 LE sample_exec 16 = 1" "u32 LE sample_exec 20 = 24" "slice sample_exec 56 4096 = replicate 60 0"
  "length sample_exec = 116"
  by code_simp+

lemma sample_exec_slice: "arm64e_slice sample_exec = Inr sample_exec"
  by (simp add: arm64e_slice_def sample_exec_facts FAT_MAGIC_def)

lemma sample_exec_converts: "\<exists>out. to_dylib sample_exec = Inr out"
proof -
  have "slack_after sample_exec 56 = 60" by (simp add: slack_after_def sample_exec_facts(6))
  moreover have "length (id_command sample_exec 56) = 116"
    using id_command_spec(1) [of 56 sample_exec] by (simp add: sample_exec_facts)
  ultimately show ?thesis
    by (simp add: to_dylib_def sample_exec_slice sample_exec_facts dylib_sizes)
qed

theorem to_dylib_correct_witness:
  "\<exists>out. to_dylib sample_exec = Inr out \<and> u32 LE out 12 = 6 \<and> u32 LE out 16 = 2 \<and> u32 LE out 20 = 80 \<and>
     slice out 80 29 = DYLIB_NAME"
proof -
  obtain out where out: "to_dylib sample_exec = Inr out" using sample_exec_converts by blast
  from to_dylib_correct [OF sample_exec_slice out, of 0] out show ?thesis by (auto simp: sample_exec_facts)
qed

end
