(* ===== verification/LoadCommands.thy ===== *)
theory LoadCommands
  imports FatSlices
begin

text \<open>
  The scripts that edit load commands in place: \<^verbatim>\<open>misc/add_macho_load_dylib.py\<close> and
  \<^verbatim>\<open>misc/add_macho_env_insert.py\<close>, which append one command in the zero padding of a header,
  and the two \<^verbatim>\<open>set_macos_version.py\<close> (the one installed and the one of \<^verbatim>\<open>misc\<close>), which rewrite
  the build-version command.
\<close>

subsection \<open>Architecture rows\<close>

definition thin_fields :: "bytes \<Rightarrow> (nat \<times> nat \<times> nat \<times> nat) list result" where
  "thin_fields d =
     bindE (unpack_from LE 4 d 4) (\<lambda>cpu. bindE (unpack_from LE 4 d 8) (\<lambda>subtype.
     Inr [(cpu, subtype mod 0x1000000, 0, length d)]))"

definition slice_entry :: "bytes \<Rightarrow> nat \<Rightarrow> (nat \<times> nat \<times> nat \<times> nat) result" where
  "slice_entry d index =
     (case arch32 d (8 + index * 20) of (cpu, subtype, offset, sz, _) \<Rightarrow>
      if offset + sz > length d then Inl (ValueError ''fat slice exceeds file'')
      else Inr (cpu, subtype mod 0x1000000, offset, sz))"

text \<open>\<open>slices\<close>: \<open>(cpu, subtype, offset, size)\<close> of every slice of a fat or thin file.\<close>

definition fat_table :: "bytes \<Rightarrow> (nat \<times> nat \<times> nat \<times> nat) list result" where
  "fat_table d =
     (let count = u32 BE d 4 in
      if length d < 8 + count * 20 then Inl (ValueError ''truncated fat header'')
      else mapE (slice_entry d) [0..<count])"

definition env_slices :: "bytes \<Rightarrow> (nat \<times> nat \<times> nat \<times> nat) list result" where
  "env_slices d =
     (if length d < 8 then Inl (ValueError ''file is too small'')
      else if u32 BE d 0 = FAT_MAGIC then fat_table d else thin_fields d)"

definition dylib_slices :: "bytes \<Rightarrow> (nat \<times> nat \<times> nat) list result" where
  "dylib_slices d =
     (if length d < 8 then Inl (ValueError ''file is too small'')
      else if u32 BE d 0 = FAT_MAGIC
      then bindE (fat_table d) (\<lambda>rows. Inr (map (\<lambda>(cpu, _, offset, sz). (cpu, offset, sz)) rows))
      else Inr [(u32 LE d 4, 0, length d)])"

subsection \<open>Appending a command in the padding\<close>

definition c_string :: "bytes \<Rightarrow> nat \<Rightarrow> nat \<Rightarrow> string result" where
  "c_string d start limit =
     (let window = slice d start (limit - start) in
      if 0 \<notin> set window then Inl (ValueError ''unterminated load-command string'')
      else decode_utf8 (until_nul window))"

text \<open>The lowest file offset of the sections of one segment command.\<close>

definition lowest_section :: "bytes \<Rightarrow> nat \<Rightarrow> nat \<Rightarrow> nat \<Rightarrow> nat \<Rightarrow> nat" where
  "lowest_section d base cursor count first =
     foldl (\<lambda>low i. let file_offset = u32 LE d (cursor + 72 + i * 80 + 48) in
              if file_offset \<noteq> 0 then min low (base + file_offset) else low) first [0..<count]"

text \<open>
  The traversal both scripts make: \<open>exam\<close> looks at one command and says whether it is the one
  to add (then nothing is added), \<open>seg\<close> recognises a segment.  \<open>None\<close> is the early
  \<open>return False\<close>.
\<close>

fun insert_walk ::
  "(nat \<Rightarrow> bool) \<Rightarrow> (bytes \<Rightarrow> nat \<Rightarrow> nat \<Rightarrow> nat \<Rightarrow> bool result) \<Rightarrow> bytes \<Rightarrow> nat \<Rightarrow> nat
     \<Rightarrow> nat \<Rightarrow> nat \<Rightarrow> nat \<Rightarrow> (nat \<times> nat) option result" where
  "insert_walk seg exam d base commands_end 0 cursor first = Inr (Some (cursor, first))"
| "insert_walk seg exam d base commands_end (Suc n) cursor first =
     (if cursor + 8 > commands_end then Inl (ValueError ''truncated load command'')
      else
      let command = u32 LE d cursor; command_size = u32 LE d (cursor + 4) in
      if command_size < 8 \<or> cursor + command_size > commands_end
      then Inl (ValueError ''invalid load command'')
      else bindE (exam d command cursor command_size) (\<lambda>present.
      if present then Inr None
      else if seg command \<and> command_size \<ge> 72
      then
        let section_count = u32 LE d (cursor + 64) in
        if 72 + section_count * 80 > command_size then Inl (ValueError ''invalid section table in command'')
        else insert_walk seg exam d base commands_end n (cursor + command_size)
               (lowest_section d base cursor section_count first)
      else insert_walk seg exam d base commands_end n (cursor + command_size) first))"

definition write_command :: "bytes \<Rightarrow> bytes \<Rightarrow> nat \<Rightarrow> nat \<Rightarrow> nat \<Rightarrow> nat \<Rightarrow> (bytes \<times> bool) result" where
  "write_command cmd d base ncmds sizeofcmds first_section =
     (let commands_end = base + 32 + sizeofcmds; new_end = commands_end + length cmd in
      if new_end > first_section then Inl (ValueError ''need bytes of header padding'')
      else if list_ex (\<lambda>b. b \<noteq> 0) (slice d commands_end (length cmd))
      then Inl (ValueError ''prospective load-command padding is not zero-filled'')
      else if ncmds + 1 < 2 ^ 32 \<and> sizeofcmds + length cmd < 2 ^ 32
      then Inr (put_pair (splice d commands_end cmd) (base + 16) (ncmds + 1) (sizeofcmds + length cmd), True)
      else Inl StructError)"

definition insert_command ::
  "(nat \<Rightarrow> bool) \<Rightarrow> (bytes \<Rightarrow> nat \<Rightarrow> nat \<Rightarrow> nat \<Rightarrow> bool result) \<Rightarrow> bytes
     \<Rightarrow> bytes \<Rightarrow> nat \<Rightarrow> nat \<Rightarrow> (bytes \<times> bool) result" where
  "insert_command seg exam cmd d base sz =
     (if sz < 32 \<or> u32 LE d base \<noteq> MH_MAGIC_64 then Inl (ValueError ''ARM64 slice is not 64-bit Mach-O'')
      else
      let ncmds = u32 LE d (base + 16); sizeofcmds = u32 LE d (base + 20);
          commands_end = base + 32 + sizeofcmds; slice_end = base + sz in
      if commands_end > slice_end then Inl (ValueError ''load commands exceed slice'')
      else bindE (insert_walk seg exam d base commands_end ncmds (base + 32) slice_end) (\<lambda>found.
      case found of None \<Rightarrow> Inr (d, False)
      | Some (cursor, first_section) \<Rightarrow>
        if cursor \<noteq> commands_end then Inl (ValueError ''sizeofcmds does not match load-command traversal'')
        else write_command cmd d base ncmds sizeofcmds first_section))"

text \<open>\<open>add_macho_load_dylib\<close>: one \<open>LC_LOAD_DYLIB\<close> that names the library.\<close>

definition LINK_COMMANDS :: "nat list" where
  "LINK_COMMANDS = [0x0c, 0x18, 0x1f, 0x20, 0x23]"

definition dylib_exam :: "string \<Rightarrow> bytes \<Rightarrow> nat \<Rightarrow> nat \<Rightarrow> nat \<Rightarrow> bool result" where
  "dylib_exam dylib d command cursor command_size =
     (if command mod 0x80000000 \<in> set LINK_COMMANDS \<and> command_size \<ge> 24
      then
        let name_offset = u32 LE d (cursor + 8) in
        if 24 \<le> name_offset \<and> name_offset < command_size
        then bindE (c_string d (cursor + name_offset) (cursor + command_size)) (\<lambda>existing. Inr (existing = dylib))
        else Inr False
      else Inr False)"

definition dylib_segment :: "nat \<Rightarrow> bool" where
  "dylib_segment command \<longleftrightarrow> command mod 0x80000000 = 0x19"

definition padded_command :: "bytes \<Rightarrow> nat \<Rightarrow> bytes" where
  "padded_command c n = c @ replicate (n - length c) 0"

definition dylib_command :: "string \<Rightarrow> bytes" where
  "dylib_command dylib =
     (let encoded = encode_str dylib @ [0]; command_size = round_up (24 + length encoded) 8 in
      padded_command
        (enc LE 4 0x0c @ enc LE 4 command_size @ enc LE 4 24 @ enc LE 4 0 @ enc LE 4 0 @ enc LE 4 0 @ encoded)
        command_size)"

definition add_load_dylib :: "string \<Rightarrow> bytes \<Rightarrow> nat \<Rightarrow> nat \<Rightarrow> (bytes \<times> bool) result" where
  "add_load_dylib dylib = insert_command dylib_segment (dylib_exam dylib) (dylib_command dylib)"

text \<open>
  \<open>add_macho_env_insert\<close>: one \<open>LC_ENVIRONMENT\<close>-style command with the payload; a second,
  different one is refused.
\<close>

definition env_exam :: "string \<Rightarrow> bytes \<Rightarrow> nat \<Rightarrow> nat \<Rightarrow> nat \<Rightarrow> bool result" where
  "env_exam payload d command cursor command_size =
     (if command = 0x27 \<and> command_size \<ge> 16
      then bindE (c_string d (cursor + 12) (cursor + command_size)) (\<lambda>existing.
        if existing = payload then Inr True
        else Inl (ValueError ''slice already carries LC_ENVIRONMENT_DYLD_INSERT_LIBRARIES''))
      else Inr False)"

definition env_segment :: "nat \<Rightarrow> bool" where
  "env_segment command \<longleftrightarrow> command = 0x19"

definition env_command :: "string \<Rightarrow> bytes" where
  "env_command payload =
     (let encoded = encode_str payload @ [0]; command_size = round_up (12 + length encoded) 8 in
      padded_command (enc LE 4 0x27 @ enc LE 4 command_size @ enc LE 4 12 @ encoded) command_size)"

definition add_env_insert :: "string \<Rightarrow> bytes \<Rightarrow> nat \<Rightarrow> nat \<Rightarrow> (bytes \<times> bool) result" where
  "add_env_insert payload = insert_command env_segment (env_exam payload) (env_command payload)"

text \<open>
  The two \<open>main\<close> loops: the bytes, the number of ARM64 slices and of modified slices.  The
  slice table is read once, before the first edit; the file is rewritten when a slice changed.
\<close>

definition insert_main ::
  "(nat \<times> nat \<times> nat) list \<Rightarrow> (bytes \<Rightarrow> nat \<Rightarrow> nat \<Rightarrow> (bytes \<times> bool) result) \<Rightarrow> bytes
     \<Rightarrow> (bytes \<times> nat \<times> nat) result" where
  "insert_main rows add d =
     foldE (\<lambda>(cpu, offset, sz) (d, arm, changed).
       if cpu \<noteq> CPU_TYPE_ARM64 then Inr (d, arm, changed)
       else bindE (add d offset sz) (\<lambda>(d', c). Inr (d', arm + 1, if c then changed + 1 else changed)))
       rows (d, 0, 0)"

definition written :: "bytes \<times> nat \<times> nat \<Rightarrow> bytes option result" where
  "written r = (case r of (d, arm, changed) \<Rightarrow>
     if arm = 0 then Inl (RuntimeError ''no ARM64 Mach-O slice found'')
     else Inr (if changed = 0 then None else Some d))"

definition dylib_main :: "string \<Rightarrow> bytes \<Rightarrow> bytes option result" where
  "dylib_main dylib d =
     bindE (dylib_slices d) (\<lambda>rows. bindE (insert_main rows (add_load_dylib dylib) d) written)"

definition env_main :: "string \<Rightarrow> bool \<Rightarrow> bytes \<Rightarrow> bytes option result" where
  "env_main payload arm64e d =
     bindE (env_slices d) (\<lambda>rows.
     bindE (insert_main (map (\<lambda>(cpu, _, offset, sz). (cpu, offset, sz))
              (filter (\<lambda>(cpu, subtype, _). \<not> (subtype = 2 \<and> \<not> arm64e)) rows))
            (add_env_insert payload) d) written)"

subsection \<open>The build version\<close>

definition MACOS_13 :: nat where "MACOS_13 = 13 * 2 ^ 16"

definition put4 :: "endian \<Rightarrow> bytes \<Rightarrow> nat \<Rightarrow> nat \<Rightarrow> nat \<Rightarrow> nat \<Rightarrow> nat \<Rightarrow> bytes" where
  "put4 e d i a b c v = put e 4 (put e 4 (put e 4 (put e 4 d i a) (i + 4) b) (i + 8) c) (i + 12) v"

text \<open>The command loop of \<open>patch_slice\<close>; the flag says whether the bytes were changed.\<close>

fun version_walk :: "endian \<Rightarrow> nat \<Rightarrow> bytes \<Rightarrow> nat \<Rightarrow> nat \<Rightarrow> (bytes \<times> bool) result" where
  "version_walk e limit d 0 command = Inl (ValueError ''no supported build-version command'')"
| "version_walk e limit d (Suc n) command =
     (if command + 8 > limit then Inl (ValueError ''truncated load-command table'')
      else
      let cmd = u32 e d command; cmdsize = u32 e d (command + 4) in
      if cmdsize < 8 \<or> command + cmdsize > limit then Inl (ValueError ''invalid load command size'')
      else if cmd = 0x32
      then (if cmdsize < 24 then Inl (ValueError ''truncated LC_BUILD_VERSION'')
            else if u32 e d (command + 8) = 1 \<and> u32 e d (command + 12) = MACOS_13 \<and> u32 e d (command + 16) = MACOS_13
            then Inr (d, False)
            else Inr (put4 e d (command + 8) 1 MACOS_13 MACOS_13 (u32 e d (command + 20)), True))
      else if cmd = 0x25
      then (if cmdsize < 16 then Inl (ValueError ''truncated LC_VERSION_MIN_IPHONEOS'')
            else Inr (put4 e d command 0x24 cmdsize MACOS_13 MACOS_13, True))
      else version_walk e limit d n (command + cmdsize))"

definition slice_endian :: "bytes \<Rightarrow> nat \<Rightarrow> endian option" where
  "slice_endian d offset =
     (if u32 LE d offset = MH_MAGIC_64 then Some LE
      else if u32 LE d offset = 0xcffaedfe then Some BE else None)"

definition patch_slice :: "bytes \<Rightarrow> nat \<Rightarrow> nat \<Rightarrow> (bytes \<times> bool) result" where
  "patch_slice d offset sz =
     (if sz < 32 \<or> offset + sz > length d then Inl (ValueError ''invalid slice range'')
      else case slice_endian d offset of
        None \<Rightarrow> Inl (ValueError ''unsupported Mach-O magic'')
      | Some e \<Rightarrow> version_walk e (offset + sz) d (u32 e d (offset + 16)) (offset + 32))"

definition version_rows :: "bytes \<Rightarrow> (nat \<times> nat) list result" where
  "version_rows d =
     (let magic = u32 BE d 0 in
      if magic = FAT_MAGIC \<or> magic = FAT_MAGIC_64
      then
        let count = u32 BE d 4; entry_size = (if magic = FAT_MAGIC_64 then 32 else 20) in
        if 8 + count * entry_size > length d then Inl (ValueError ''truncated fat header'')
        else Inr (map (\<lambda>i. case (if magic = FAT_MAGIC_64 then arch64 else arch32) d (8 + i * entry_size) of
                             (_, _, offset, sz, _) \<Rightarrow> (offset, sz)) [0..<count])
      else Inr [(0, length d)])"

text \<open>\<open>patch_file\<close>: the new content, \<open>None\<close> when the file is left unchanged.\<close>

definition patch_file :: "bytes \<Rightarrow> bytes option result" where
  "patch_file d =
     (if length d < 32 then Inl (ValueError ''file is too small'')
      else bindE (version_rows d) (\<lambda>rows.
        bindE (foldE (\<lambda>(offset, sz) (d, changed).
                 bindE (patch_slice d offset sz) (\<lambda>(d', c). Inr (d', c \<or> changed))) rows (d, False))
          (\<lambda>(d', changed). Inr (if changed then Some d' else None))))"

text \<open>
  The \<^verbatim>\<open>misc\<close> script: no bounds but those of the file, and a found command is always rewritten.
\<close>

fun rewrite_walk :: "endian \<Rightarrow> bytes \<Rightarrow> nat \<Rightarrow> nat \<Rightarrow> (bytes \<times> bool) result" where
  "rewrite_walk e d 0 cmd_offset = Inr (d, False)"
| "rewrite_walk e d (Suc n) cmd_offset =
     bindE (room d cmd_offset 8) (\<lambda>_.
     let cmd = u32 e d cmd_offset; cmdsize = u32 e d (cmd_offset + 4) in
     if cmd = 0x32
     then bindE (room d (cmd_offset + 8) 16) (\<lambda>_.
       Inr (put4 e d (cmd_offset + 8) 1 MACOS_13 MACOS_13 (u32 e d (cmd_offset + 20)), True))
     else if cmd = 0x25
     then bindE (room d (cmd_offset + 8) 8) (\<lambda>_.
       Inr (put4 e d cmd_offset 0x24 cmdsize MACOS_13 MACOS_13, True))
     else rewrite_walk e d n (cmd_offset + cmdsize))"

definition process_macho_slice :: "bytes \<Rightarrow> nat \<Rightarrow> (bytes \<times> bool) result" where
  "process_macho_slice d offset =
     bindE (room d offset 4) (\<lambda>_.
     case slice_endian d offset of
       None \<Rightarrow> Inr (d, False)
     | Some e \<Rightarrow> bindE (room d offset 32) (\<lambda>_. rewrite_walk e d (u32 e d (offset + 16)) (offset + 32)))"

definition process_row :: "bool \<Rightarrow> nat \<Rightarrow> bytes \<times> bool \<Rightarrow> (bytes \<times> bool) result" where
  "process_row wide i st =
     (case st of (d, modified) \<Rightarrow>
      let entry_size = (if wide then 32 else 20) in
      bindE (room d (8 + i * entry_size) entry_size) (\<lambda>_.
      case (if wide then arch64 else arch32) d (8 + i * entry_size) of (_, _, offset, _) \<Rightarrow>
      bindE (process_macho_slice d offset) (\<lambda>(d', c). Inr (d', c \<or> modified))))"

definition process_file :: "bytes \<Rightarrow> bytes option result" where
  "process_file d =
     bindE (room d 0 4) (\<lambda>_.
     let magic = u32 BE d 0; wide = (magic = FAT_MAGIC_64) in
     bindE (if magic = FAT_MAGIC \<or> magic = FAT_MAGIC_64
            then bindE (room d 4 4) (\<lambda>_. foldE (process_row wide) [0..<u32 BE d 4] (d, False))
            else process_macho_slice d 0)
       (\<lambda>(d', modified). Inr (if modified then Some d' else None)))"

subsection \<open>The contract of an inserted command\<close>

definition valid_name :: "string \<Rightarrow> bool" where
  "valid_name s \<longleftrightarrow> utf8_ok (encode_str s) \<and> 0 \<notin> set (encode_str s) \<and> length s < 2 ^ 31"

lemma foldl_decreasing:
  fixes a :: nat
  assumes "\<And>a i. g a i \<le> a"
  shows "foldl g a xs \<le> a"
proof (induction xs arbitrary: a)
  case Nil
  then show ?case by simp
next
  case (Cons x xs)
  have "foldl g (g a x) xs \<le> g a x" by (rule Cons)
  also have "g a x \<le> a" by (rule assms)
  finally show ?case by simp
qed

lemma lowest_section_le: "lowest_section d base cursor count first \<le> first"
  unfolding lowest_section_def by (rule foldl_decreasing) (simp add: Let_def)

lemma lowest_section_cong:
  assumes "slice d cursor width = slice d' cursor width" and "72 + count * 80 \<le> width"
  shows "lowest_section d base cursor count first = lowest_section d' base cursor count first"
proof -
  have "u32 LE d (cursor + 72 + i * 80 + 48) = u32 LE d' (cursor + 72 + i * 80 + 48)" if "i < count" for i
  proof -
    have "72 + i * 80 + 80 \<le> 72 + count * 80" using that by simp
    then have "72 + i * 80 + 48 + 4 \<le> width" using assms(2) by linarith
    from fld_slice [OF this, of LE d cursor] fld_slice [OF this, of LE d' cursor] assms(1)
    show ?thesis by (simp add: add.assoc)
  qed
  then show ?thesis unfolding lowest_section_def by (intro foldl_cong) auto
qed

locale command_inserter =
  fixes seg :: "nat \<Rightarrow> bool" and exam :: "string \<Rightarrow> bytes \<Rightarrow> nat \<Rightarrow> nat \<Rightarrow> nat \<Rightarrow> bool result"
    and cmd :: "string \<Rightarrow> bytes"
  assumes exam_local: "slice d cursor w = slice d' cursor w \<Longrightarrow> exam s d k cursor w = exam s d' k cursor w"
    and cmd_size: "valid_name s \<Longrightarrow> 8 \<le> length (cmd s) \<and> u32 LE (cmd s) 4 = length (cmd s)"
    and cmd_found: "valid_name s \<Longrightarrow> slice d cursor (length (cmd s)) = cmd s \<Longrightarrow>
        exam s d (u32 LE (cmd s) 0) cursor (length (cmd s)) = Inr True"
begin

lemma walk_extend:
  assumes "insert_walk seg (exam s) d base fin n cursor first = Inr (Some (c, f))"
    and "\<And>i m. base + 32 \<le> i \<Longrightarrow> i + m \<le> fin \<Longrightarrow> slice d' i m = slice d i m"
    and "base + 32 \<le> cursor" and "fin \<le> fin'"
  shows "insert_walk seg (exam s) d' base fin' (n + m) cursor first = insert_walk seg (exam s) d' base fin' m c f \<and> f \<le> first"
  using assms(1,3)
proof (induction n arbitrary: cursor first)
  case 0
  then show ?case by simp
next
  case (Suc n)
  let ?w = "u32 LE d (cursor + 4)"
  from Suc.prems have in_range: "cursor + 8 \<le> fin" "8 \<le> ?w" "cursor + ?w \<le> fin"
    by (auto simp: Let_def not_less split: if_splits)
  have same: "slice d' cursor ?w = slice d cursor ?w" using assms(2) Suc.prems(2) in_range by simp
  have f: "u32 LE d' (cursor + k) = u32 LE d (cursor + k)" if "k + 4 \<le> ?w" for k
    by (rule fld_cong, rule assms(2)) (use Suc.prems(2) in_range that in auto)
  have fs: "u32 LE d' cursor = u32 LE d cursor" "u32 LE d' (cursor + 4) = ?w"
    "72 \<le> ?w \<Longrightarrow> u32 LE d' (cursor + 64) = u32 LE d (cursor + 64)"
    using f [of 0] f [of 4] f [of 64] in_range by simp_all
  have ex: "exam s d' k cursor ?w = exam s d k cursor ?w" for k by (rule exam_local [OF same])
  define first' where "first' = (if seg (u32 LE d cursor) \<and> 72 \<le> ?w
      then lowest_section d base cursor (u32 LE d (cursor + 64)) first else first)"
  from Suc.prems(1) in_range have e: "exam s d (u32 LE d cursor) cursor ?w = Inr False"
    and sec: "seg (u32 LE d cursor) \<Longrightarrow> 72 \<le> ?w \<Longrightarrow> 72 + u32 LE d (cursor + 64) * 80 \<le> ?w"
    and rest: "insert_walk seg (exam s) d base fin n (cursor + ?w) first' = Inr (Some (c, f))"
    by (auto simp: Let_def not_less first'_def split: if_splits)
  have IH: "insert_walk seg (exam s) d' base fin' (n + m) (cursor + ?w) first' = insert_walk seg (exam s) d' base fin' m c f \<and> f \<le> first'"
    by (rule Suc.IH [OF rest]) (use Suc.prems(2) in simp)
  have low: "lowest_section d' base cursor (u32 LE d (cursor + 64)) first =
      lowest_section d base cursor (u32 LE d (cursor + 64)) first"
    if "seg (u32 LE d cursor)" "72 \<le> ?w" by (rule lowest_section_cong [OF same sec [OF that]])
  have "first' \<le> first" by (simp add: first'_def lowest_section_le)
  moreover have "insert_walk seg (exam s) d' base fin' (Suc n + m) cursor first =
      insert_walk seg (exam s) d' base fin' (n + m) (cursor + ?w) first'"
    using in_range assms(4) e ex fs sec low by (auto simp: Let_def not_less first'_def)
  ultimately show ?case using IH by auto
qed

lemma inserted:
  assumes "insert_command seg (exam s) (cmd s) d base sz = Inr (d', True)" and "base + sz \<le> length d"
    and "valid_name s"
  defines "fin \<equiv> base + 32 + u32 LE d (base + 20)"
  shows "fin + length (cmd s) \<le> base + sz" and "32 \<le> sz" and "length d' = length d"
    and "slice d fin (length (cmd s)) = replicate (length (cmd s)) 0"
    and "slice d' fin (length (cmd s)) = cmd s"
    and "u32 LE d' (base + 16) = u32 LE d (base + 16) + 1"
    and "u32 LE d' (base + 20) = u32 LE d (base + 20) + length (cmd s)"
    and "j + n \<le> base + 16 \<or> base + 24 \<le> j \<and> j + n \<le> fin \<or> fin + length (cmd s) \<le> j \<Longrightarrow> slice d' j n = slice d j n"
    and "u32 LE d base = MH_MAGIC_64"
    and "\<exists>f. insert_walk seg (exam s) d base fin (u32 LE d (base + 16)) (base + 32) (base + sz) = Inr (Some (fin, f))
           \<and> fin + length (cmd s) \<le> f"
proof -
  let ?c = "cmd s" let ?sp = "splice d fin ?c"
  from assms(1) obtain f where w: "insert_walk seg (exam s) d base fin (u32 LE d (base + 16)) (base + 32) (base + sz) = Inr (Some (fin, f))"
    and wr: "write_command ?c d base (u32 LE d (base + 16)) (u32 LE d (base + 20)) f = Inr (d', True)"
    and sz: "32 \<le> sz" and mg: "u32 LE d base = MH_MAGIC_64"
    by (auto simp: insert_command_def Let_def fin_def not_less split: option.splits prod.splits if_splits)
  from walk_extend [OF w refl, of fin 0] have "f \<le> base + sz" by simp
  with wr have room: "fin + length ?c \<le> base + sz" "fin + length ?c \<le> f"
    by (auto simp: write_command_def Let_def fin_def not_less split: if_splits)
  from wr have b: "u32 LE d (base + 16) + 1 < 2 ^ 32" "u32 LE d (base + 20) + length ?c < 2 ^ 32"
    and d': "d' = put_pair ?sp (base + 16) (u32 LE d (base + 16) + 1) (u32 LE d (base + 20) + length ?c)"
    and z: "\<forall>x \<in> set (slice d fin (length ?c)). x = 0"
    by (auto simp: write_command_def Let_def fin_def list_ex_iff split: if_splits)
  have l: "length ?sp = length d" "fin + length ?c \<le> length d" "base + 32 \<le> length d" "base + 32 \<le> fin"
    using room assms(2) sz by (simp_all add: fin_def)
  show "fin + length ?c \<le> base + sz" "32 \<le> sz" "u32 LE d base = MH_MAGIC_64" using room sz mg by auto
  show "length d' = length d" unfolding d' using put_pair_spec(1) [of "base + 16" ?sp] l by simp
  show "slice d fin (length ?c) = replicate (length ?c) 0"
    using z l(2) by (intro replicate_eqI) auto
  show "u32 LE d' (base + 16) = u32 LE d (base + 16) + 1"
    unfolding d' using put_pair_spec(3) [of "base + 16" ?sp] l b by simp
  show "u32 LE d' (base + 20) = u32 LE d (base + 20) + length ?c"
    unfolding d' using put_pair_spec(4) [of "base + 16" ?sp] l b by (simp add: add.assoc)
  show "slice d' fin (length ?c) = ?c"
    unfolding d' using put_pair_spec(2) [of "base + 16" ?sp fin "length ?c"] slice_splice_same [of fin ?c d] l by simp
  show "slice d' j n = slice d j n"
    if "j + n \<le> base + 16 \<or> base + 24 \<le> j \<and> j + n \<le> fin \<or> fin + length ?c \<le> j"
  proof -
    have "slice d' j n = slice ?sp j n" unfolding d' by (rule put_pair_spec(2)) (use that l in auto)
    also have "\<dots> = slice d j n" by (rule slice_splice_other) (use that l in auto)
    finally show ?thesis .
  qed
  show "\<exists>f. insert_walk seg (exam s) d base fin (u32 LE d (base + 16)) (base + 32) (base + sz) = Inr (Some (fin, f))
           \<and> fin + length (cmd s) \<le> f" using w room(2) by blast
qed

lemma insert_again:
  assumes "insert_command seg (exam s) (cmd s) d base sz = Inr (d', True)" and "base + sz \<le> length d"
    and "valid_name s"
  shows "insert_command seg (exam s) (cmd s) d' base sz = Inr (d', False)"
proof -
  let ?fin = "base + 32 + u32 LE d (base + 20)" let ?c = "cmd s"
  note i = inserted [OF assms]
  obtain f where w: "insert_walk seg (exam s) d base ?fin (u32 LE d (base + 16)) (base + 32) (base + sz) = Inr (Some (?fin, f))"
    using i(10) by blast
  have step: "insert_walk seg (exam s) d' base (?fin + length ?c) (u32 LE d (base + 16) + Suc 0) (base + 32) (base + sz) =
      insert_walk seg (exam s) d' base (?fin + length ?c) (Suc 0) ?fin f"
  proof (rule walk_extend [THEN conjunct1, OF w])
    show "slice d' i m = slice d i m" if "base + 32 \<le> i" "i + m \<le> ?fin" for i m
      by (rule i(8)) (use that in simp)
  qed simp_all
  have cs: "8 \<le> length ?c" "u32 LE ?c 4 = length ?c" using cmd_size [OF assms(3)] by auto
  have "u32 LE d' (?fin + k) = u32 LE ?c k" if "k + 4 \<le> length ?c" for k
    using fld_slice [OF that, of LE d' ?fin] i(5) by simp
  from this [of 0] this [of 4] cs have "u32 LE d' ?fin = u32 LE ?c 0" "u32 LE d' (?fin + 4) = length ?c" by simp_all
  then have "insert_walk seg (exam s) d' base (?fin + length ?c) (Suc 0) ?fin f = Inr None"
    using cs cmd_found [OF assms(3) i(5)] by (simp add: Let_def)
  moreover have "u32 LE d' base = MH_MAGIC_64" using i(8) [of base 4] i(9) fld_cong [of d' base 4 d base] by simp
  moreover have "base + 32 + u32 LE d' (base + 20) = ?fin + length ?c" using i(7) by simp
  moreover have "u32 LE d' (base + 16) = u32 LE d (base + 16) + Suc 0" using i(6) by simp
  ultimately show ?thesis
    using step i(1,2) by (simp add: insert_command_def Let_def add.assoc del: insert_walk.simps add_Suc_right)
qed

end

subsection \<open>Both scripts satisfy it\<close>

lemma decode_encode: "utf8_ok (encode_str s) \<Longrightarrow> decode_utf8 (encode_str s) = Inr s"
proof -
  have "char_of (unat (of_nat (of_char c) :: byte)) = c" for c :: char
    using of_char_mod_256 [of c, where 'a = nat] by (simp add: unat_of_nat)
  then show "utf8_ok (encode_str s) \<Longrightarrow> decode_utf8 (encode_str s) = Inr s"
    by (simp add: decode_utf8_def encode_str_def comp_def)
qed

lemma c_string_found:
  assumes "slice d start (limit - start) = encode_str s @ 0 # rest" and "valid_name s"
  shows "c_string d start limit = Inr s"
proof -
  have "\<forall>b \<in> set (encode_str s). b \<noteq> 0" using assms(2) unfolding valid_name_def by metis
  then have "until_nul (encode_str s @ 0 # rest) = encode_str s"
    by (simp add: until_nul_def)
  with assms show ?thesis by (simp add: c_string_def decode_encode valid_name_def)
qed

lemma c_string_cong:
  "slice d start (limit - start) = slice d' start (limit - start) \<Longrightarrow> c_string d start limit = c_string d' start limit"
  by (simp add: c_string_def)

lemma sub_slice:
  assumes "slice d i w = slice d' i w" and "j + n \<le> w"
  shows "slice d (i + j) n = slice d' (i + j) n"
  using slice_slice [OF assms(2), of d i] slice_slice [OF assms(2), of d' i] assms(1) by simp

lemma dylib_exam_local:
  assumes "slice d cursor w = slice d' cursor w"
  shows "dylib_exam s d k cursor w = dylib_exam s d' k cursor w"
proof (cases "24 \<le> w")
  case True
  have "u32 LE d (cursor + 8) = u32 LE d' (cursor + 8)"
    by (rule fld_cong, rule sub_slice [OF assms]) (use True in simp)
  moreover have "c_string d (cursor + n) (cursor + w) = c_string d' (cursor + n) (cursor + w)" if "n < w" for n
    using sub_slice [OF assms, of n "w - n"] that by (intro c_string_cong) simp
  ultimately show ?thesis by (simp add: dylib_exam_def Let_def)
qed (simp add: dylib_exam_def)

lemma env_exam_local:
  assumes "slice d cursor w = slice d' cursor w"
  shows "env_exam s d k cursor w = env_exam s d' k cursor w"
proof (cases "16 \<le> w")
  case True
  then have "c_string d (cursor + 12) (cursor + w) = c_string d' (cursor + 12) (cursor + w)"
    using sub_slice [OF assms, of 12 "w - 12"] by (intro c_string_cong) simp
  then show ?thesis by (simp add: env_exam_def)
qed (simp add: env_exam_def)

lemma fld_append_left: "i + k \<le> length xs \<Longrightarrow> fld e k (xs @ ys) i = fld e k xs i"
  by (simp add: fld_def slice_append_left)

lemma fld_append_enc: "length xs = i \<Longrightarrow> v < 256 ^ k \<Longrightarrow> fld e k (xs @ enc e k v @ ys) i = v"
  using slice_append_right [of xs "enc e k v @ ys" 0 k] by (simp add: fld_def slice_append_left dec_enc slice_def)

lemma dylib_command_facts:
  assumes "valid_name s"
  shows "length (dylib_command s) = round_up (25 + length s) 8" and "25 + length s \<le> length (dylib_command s)"
    and "u32 LE (dylib_command s) 0 = 0x0c" and "u32 LE (dylib_command s) 4 = length (dylib_command s)"
    and "u32 LE (dylib_command s) 8 = 24" and "\<exists>rest. drop 24 (dylib_command s) = encode_str s @ 0 # rest"
proof -
  let ?n = "round_up (25 + length s) 8"
  have n: "25 + length s \<le> ?n" "?n < 33 + length s"
    using round_up_ge [of 8 "25 + length s"] round_up_less [of 8 "25 + length s"] by simp_all
  then have "?n < 2 ^ 32" using assms by (simp add: valid_name_def)
  have c: "dylib_command s = enc LE 4 0x0c @ enc LE 4 ?n @ enc LE 4 24 @ replicate 12 0 @ encode_str s @ 0 # replicate (?n - (25 + length s)) 0"
    by (simp add: dylib_command_def padded_command_def enc_zero Let_def flip: replicate_add)
  show "length (dylib_command s) = ?n" "25 + length s \<le> length (dylib_command s)" using n by (simp_all add: c)
  then show "u32 LE (dylib_command s) 0 = 0x0c" "u32 LE (dylib_command s) 4 = length (dylib_command s)"
    "u32 LE (dylib_command s) 8 = 24"
    using fld_append_enc [where xs = "[]" and i = 0 and v = "0x0c" and k = 4 and e = LE] fld_append_enc [where xs = "enc LE 4 0x0c" and i = 4 and v = ?n and k = 4 and e = LE]
      fld_append_enc [where xs = "enc LE 4 0x0c @ enc LE 4 ?n" and i = 8 and v = "24" and k = 4 and e = LE] \<open>?n < 2 ^ 32\<close> by (simp_all add: c)
  show "\<exists>rest. drop 24 (dylib_command s) = encode_str s @ 0 # rest" by (simp add: c)
qed

lemma env_command_facts:
  assumes "valid_name s"
  shows "length (env_command s) = round_up (13 + length s) 8" and "16 \<le> length (env_command s)"
    and "u32 LE (env_command s) 0 = 0x27" and "u32 LE (env_command s) 4 = length (env_command s)"
    and "\<exists>rest. drop 12 (env_command s) = encode_str s @ 0 # rest"
proof -
  let ?n = "round_up (13 + length s) 8"
  have n: "13 + length s \<le> ?n" "?n < 21 + length s"
    using round_up_ge [of 8 "13 + length s"] round_up_less [of 8 "13 + length s"] by simp_all
  have "8 dvd ?n" by simp
  then have "16 \<le> ?n" using n(1) by presburger
  have "?n < 2 ^ 32" using n assms by (simp add: valid_name_def)
  have c: "env_command s = enc LE 4 0x27 @ enc LE 4 ?n @ enc LE 4 12 @ encode_str s @ 0 # replicate (?n - (13 + length s)) 0"
    by (simp add: env_command_def padded_command_def Let_def)
  show "length (env_command s) = ?n" "16 \<le> length (env_command s)" using n \<open>16 \<le> ?n\<close> by (simp_all add: c)
  then show "u32 LE (env_command s) 0 = 0x27" "u32 LE (env_command s) 4 = length (env_command s)"
    using fld_append_enc [where xs = "[]" and i = 0 and v = "0x27" and k = 4 and e = LE] fld_append_enc [where xs = "enc LE 4 0x27" and i = 4 and v = ?n and k = 4 and e = LE] \<open>?n < 2 ^ 32\<close>
    by (simp_all add: c)
  show "\<exists>rest. drop 12 (env_command s) = encode_str s @ 0 # rest" by (simp add: c)
qed

lemma tail_of_slice:
  assumes "slice d cursor (length c) = c" and "k \<le> length c"
  shows "slice d (cursor + k) (cursor + length c - (cursor + k)) = drop k c"
proof -
  have "slice d (cursor + k) (length c - k) = slice (slice d cursor (length c)) k (length c - k)"
    using assms(2) by (simp add: slice_slice)
  also have "\<dots> = drop k c" using assms by (simp add: slice_def)
  finally show ?thesis by simp
qed

interpretation load: command_inserter dylib_segment dylib_exam dylib_command
proof unfold_locales
  fix s d cursor
  assume v: "valid_name s" and sl: "slice d cursor (length (dylib_command s)) = dylib_command s"
  note f = dylib_command_facts [OF v]
  have "u32 LE d (cursor + 8) = 24"
    using fld_slice [of 8 4 "length (dylib_command s)" LE d cursor] sl f(2,5) by simp
  moreover obtain rest where "drop 24 (dylib_command s) = encode_str s @ 0 # rest" using f(6) by blast
  then have "c_string d (cursor + 24) (cursor + length (dylib_command s)) = Inr s"
    using tail_of_slice [OF sl, of 24] f(2) by (intro c_string_found [OF _ v]) simp
  ultimately show "dylib_exam s d (u32 LE (dylib_command s) 0) cursor (length (dylib_command s)) = Inr True"
    using f by (simp add: dylib_exam_def LINK_COMMANDS_def)
next
  fix s assume v: "valid_name s"
  show "8 \<le> length (dylib_command s) \<and> u32 LE (dylib_command s) 4 = length (dylib_command s)"
    using dylib_command_facts(2,4) [OF v] by simp
qed (rule dylib_exam_local)

interpretation env: command_inserter env_segment env_exam env_command
proof unfold_locales
  fix s d cursor
  assume v: "valid_name s" and sl: "slice d cursor (length (env_command s)) = env_command s"
  note f = env_command_facts [OF v]
  obtain rest where "drop 12 (env_command s) = encode_str s @ 0 # rest" using f(5) by blast
  then have "c_string d (cursor + 12) (cursor + length (env_command s)) = Inr s"
    using tail_of_slice [OF sl, of 12] f(2) by (intro c_string_found [OF _ v]) simp
  then show "env_exam s d (u32 LE (env_command s) 0) cursor (length (env_command s)) = Inr True"
    using f by (simp add: env_exam_def)
next
  fix s assume v: "valid_name s"
  show "8 \<le> length (env_command s) \<and> u32 LE (env_command s) 4 = length (env_command s)"
    using env_command_facts(2,4) [OF v] by simp
qed (rule env_exam_local)

text \<open>
  C8: Adding a dylib to a slice is done in the header padding alone.  When the slice changes,
  the file keeps its length; the bytes overwritten after the load commands were all zero and
  lie inside the slice; they now hold the new command; the command count and size grow by one
  and by its length; every byte outside these two places, the old load commands included, is
  unchanged; and running the tool on the result finds the dylib and changes nothing.
\<close>

theorem add_load_dylib_correct:
  assumes "add_load_dylib dylib d base sz = Inr (d', True)" and "base + sz \<le> length d" and "valid_name dylib"
  defines "fin \<equiv> base + 32 + u32 LE d (base + 20)"
  shows "length d' = length d \<and> fin + length (dylib_command dylib) \<le> base + sz \<and>
    slice d fin (length (dylib_command dylib)) = replicate (length (dylib_command dylib)) 0 \<and>
    slice d' fin (length (dylib_command dylib)) = dylib_command dylib \<and>
    u32 LE d' (base + 16) = u32 LE d (base + 16) + 1 \<and>
    u32 LE d' (base + 20) = u32 LE d (base + 20) + length (dylib_command dylib) \<and>
    slice d' 0 (base + 16) = slice d 0 (base + 16) \<and> slice d' (base + 24) (fin - (base + 24)) = slice d (base + 24) (fin - (base + 24)) \<and>
    slice d' (fin + length (dylib_command dylib)) n = slice d (fin + length (dylib_command dylib)) n \<and>
    add_load_dylib dylib d' base sz = Inr (d', False)"
proof -
  note a = assms(1) [unfolded add_load_dylib_def]
  note i = load.inserted [OF a assms(2,3), folded fin_def]
  have "slice d' 0 (base + 16) = slice d 0 (base + 16)" by (rule i(8)) simp
  moreover have "slice d' (base + 24) (fin - (base + 24)) = slice d (base + 24) (fin - (base + 24))"
    by (rule i(8)) (simp add: fin_def)
  moreover have "slice d' (fin + length (dylib_command dylib)) n = slice d (fin + length (dylib_command dylib)) n"
    by (rule i(8)) simp
  moreover have "add_load_dylib dylib d' base sz = Inr (d', False)"
    unfolding add_load_dylib_def by (rule load.insert_again [OF a assms(2,3)])
  ultimately show ?thesis using i(1,3-7) by blast
qed

text \<open>
  The same holds of the environment payload: the padding it overwrites was zero, the load
  commands before it and everything after it keep their bytes, and a second run with the same
  payload recognises it and leaves the file alone.
\<close>

theorem add_env_insert_correct:
  assumes "add_env_insert payload d base sz = Inr (d', True)" and "base + sz \<le> length d" and "valid_name payload"
  defines "fin \<equiv> base + 32 + u32 LE d (base + 20)"
  shows "length d' = length d \<and> fin + length (env_command payload) \<le> base + sz \<and>
    slice d fin (length (env_command payload)) = replicate (length (env_command payload)) 0 \<and>
    slice d' fin (length (env_command payload)) = env_command payload \<and>
    slice d' (base + 24) (fin - (base + 24)) = slice d (base + 24) (fin - (base + 24)) \<and>
    slice d' (fin + length (env_command payload)) n = slice d (fin + length (env_command payload)) n \<and>
    add_env_insert payload d' base sz = Inr (d', False)"
proof -
  note a = assms(1) [unfolded add_env_insert_def]
  note i = env.inserted [OF a assms(2,3), folded fin_def]
  have "slice d' (base + 24) (fin - (base + 24)) = slice d (base + 24) (fin - (base + 24))"
    by (rule i(8)) (simp add: fin_def)
  moreover have "slice d' (fin + length (env_command payload)) n = slice d (fin + length (env_command payload)) n"
    by (rule i(8)) simp
  moreover have "add_env_insert payload d' base sz = Inr (d', False)"
    unfolding add_env_insert_def by (rule env.insert_again [OF a assms(2,3)])
  ultimately show ?thesis using i(1,3-5) by blast
qed

subsection \<open>The build version\<close>

lemma put_same: "i + k \<le> length d \<Longrightarrow> put e k d i (fld e k d i) = d"
proof -
  assume a: "i + k \<le> length d"
  have "enc e k (fld e k d i) = slice d i k" using enc_dec [of e "slice d i k"] a by (simp add: fld_def)
  moreover have "splice d i (slice d i k) = d"
    using a by (simp add: splice_def slice_def) (metis append_take_drop_id drop_drop add.commute)
  ultimately show ?thesis by (simp add: put_def)
qed

lemma put4_spec:
  assumes "i + 16 \<le> length d"
  shows "length (put4 e d i a b c v) = length d"
    and "j + n \<le> i \<or> i + 16 \<le> j \<Longrightarrow> slice (put4 e d i a b c v) j n = slice d j n"
    and "a < 2 ^ 32 \<Longrightarrow> u32 e (put4 e d i a b c v) i = a"
    and "b < 2 ^ 32 \<Longrightarrow> u32 e (put4 e d i a b c v) (i + 4) = b"
    and "c < 2 ^ 32 \<Longrightarrow> u32 e (put4 e d i a b c v) (i + 8) = c"
    and "v < 2 ^ 32 \<Longrightarrow> u32 e (put4 e d i a b c v) (i + 12) = v"
  using assms by (auto simp: put4_def slice_put fld_put fld_put_other)

lemma put4_same: "i + 16 \<le> length d \<Longrightarrow>
    put4 e d i (u32 e d i) (u32 e d (i + 4)) (u32 e d (i + 8)) (u32 e d (i + 12)) = d"
  by (simp add: put4_def put_same)

lemma MACOS_13_small: "MACOS_13 < 2 ^ 32"
  by (simp add: MACOS_13_def)

definition build_at :: "endian \<Rightarrow> nat \<Rightarrow> bytes \<Rightarrow> nat \<Rightarrow> bytes \<Rightarrow> bool" where
  "build_at e limit d c d' \<longleftrightarrow> u32 e d c = 0x32 \<and> c + 24 \<le> limit \<and>
     d' = put4 e d (c + 8) 1 MACOS_13 MACOS_13 (u32 e d (c + 20))"

definition iphone_at :: "endian \<Rightarrow> nat \<Rightarrow> bytes \<Rightarrow> nat \<Rightarrow> bytes \<Rightarrow> bool" where
  "iphone_at e limit d c d' \<longleftrightarrow> u32 e d c = 0x25 \<and> c + 16 \<le> limit \<and>
     d' = put4 e d c 0x24 (u32 e d (c + 4)) MACOS_13 MACOS_13"

lemma version_walk_found:
  assumes "version_walk e limit d n cmd = Inr (d', True)" and "limit \<le> length d"
  shows "\<exists>c \<ge> cmd. build_at e limit d c d' \<and> version_walk e limit d' n cmd = Inr (d', False) \<or> iphone_at e limit d c d'"
  using assms(1)
proof (induction n arbitrary: cmd)
  case 0
  then show ?case by simp
next
  case (Suc n)
  let ?s = "u32 e d (cmd + 4)"
  from Suc.prems have r: "cmd + 8 \<le> limit" "8 \<le> ?s" "cmd + ?s \<le> limit"
    by (auto simp: Let_def not_less split: if_splits)
  show ?case
  proof (cases "u32 e d cmd = 0x32")
    case True
    with Suc.prems r have s: "24 \<le> ?s" and d': "d' = put4 e d (cmd + 8) 1 MACOS_13 MACOS_13 (u32 e d (cmd + 20))"
      by (auto simp: Let_def not_less split: if_splits)
    have room: "cmd + 8 + 16 \<le> length d" using r s assms(2) by simp
    note p = put4_spec [OF room, where e = e and a = 1 and b = MACOS_13 and c = MACOS_13 and v = "u32 e d (cmd + 20)", folded d']
    have "u32 e d' cmd = 0x32" "u32 e d' (cmd + 4) = ?s"
      using fld_cong [OF p(2) [where j = cmd and n = 4]] fld_cong [OF p(2) [where j = "cmd + 4" and n = 4]] True by simp_all
    moreover have "u32 e d' (cmd + 8) = 1" "u32 e d' (cmd + 12) = MACOS_13" "u32 e d' (cmd + 16) = MACOS_13"
      using p(3-5) MACOS_13_small by (simp_all add: add.assoc)
    ultimately have "version_walk e limit d' (Suc n) cmd = Inr (d', False)" using r s by (simp add: Let_def)
    moreover have "build_at e limit d cmd d'" using True d' s r by (simp add: build_at_def)
    ultimately show ?thesis by blast
  next
    case False
    show ?thesis
    proof (cases "u32 e d cmd = 0x25")
      case True
      with Suc.prems r have "iphone_at e limit d cmd d'"
        by (auto simp: Let_def not_less iphone_at_def split: if_splits)
      then show ?thesis by blast
    next
      case no: False
      with False Suc.prems r have "version_walk e limit d n (cmd + ?s) = Inr (d', True)"
        by (auto simp: Let_def not_less)
      from Suc.IH [OF this] obtain c where c: "cmd + ?s \<le> c"
        and or: "build_at e limit d c d' \<and> version_walk e limit d' n (cmd + ?s) = Inr (d', False) \<or> iphone_at e limit d c d'"
        by blast
      show ?thesis
      proof (cases "iphone_at e limit d c d'")
        case True
        with c show ?thesis by (auto intro: exI [of _ c])
      next
        case nip: False
        with or have b: "build_at e limit d c d'" and w: "version_walk e limit d' n (cmd + ?s) = Inr (d', False)" by auto
        from b have room: "c + 8 + 16 \<le> length d" using assms(2) by (simp add: build_at_def)
        have keep: "slice d' j m = slice d j m" if "j + m \<le> c" for j m
          using b put4_spec(2) [OF room, where j = j and n = m] that by (simp add: build_at_def)
        have "u32 e d' cmd = u32 e d cmd" "u32 e d' (cmd + 4) = ?s"
          using keep [of cmd 4] keep [of "cmd + 4" 4] c r by (auto intro: fld_cong)
        then have "version_walk e limit d' (Suc n) cmd = Inr (d', False)"
          using w False no r by (simp add: Let_def)
        with b c show ?thesis by (auto intro: exI [of _ c])
      qed
    qed
  qed
qed

text \<open>
  When the installed script changes a slice, it changes one command of that slice and
  nothing else: either a build-version command, whose platform, minimum and SDK become macOS
  13 with the tool count kept, and then a second run reports it as already set and changes
  nothing; or an iOS version-min command, which becomes the macOS one with both versions 13.
\<close>

theorem patch_slice_correct:
  assumes "patch_slice d offset sz = Inr (d', True)"
  shows "length d' = length d \<and> (\<exists>e c. slice_endian d offset = Some e \<and> offset + 32 \<le> c \<and>
    (u32 e d c = 0x32 \<and> c + 24 \<le> offset + sz \<and>
       u32 e d' (c + 8) = 1 \<and> u32 e d' (c + 12) = MACOS_13 \<and> u32 e d' (c + 16) = MACOS_13 \<and>
       slice d' 0 (c + 8) = slice d 0 (c + 8) \<and> drop (c + 20) d' = drop (c + 20) d \<and>
       patch_slice d' offset sz = Inr (d', False)
     \<or> u32 e d c = 0x25 \<and> c + 16 \<le> offset + sz \<and>
       u32 e d' c = 0x24 \<and> u32 e d' (c + 4) = u32 e d (c + 4) \<and> u32 e d' (c + 8) = MACOS_13 \<and>
       u32 e d' (c + 12) = MACOS_13 \<and> slice d' 0 c = slice d 0 c \<and> drop (c + 16) d' = drop (c + 16) d))"
proof -
  let ?lim = "offset + sz"
  from assms obtain e where e: "slice_endian d offset = Some e" and lim: "32 \<le> sz" "?lim \<le> length d"
    and w: "version_walk e ?lim d (u32 e d (offset + 16)) (offset + 32) = Inr (d', True)"
    by (auto simp: patch_slice_def split: option.splits if_splits)
  from version_walk_found [OF w lim(2)] obtain c where c: "offset + 32 \<le> c"
    and or: "build_at e ?lim d c d' \<and> version_walk e ?lim d' (u32 e d (offset + 16)) (offset + 32) = Inr (d', False)
       \<or> iphone_at e ?lim d c d'" by blast
  have tail: "slice x j (length d) = slice y j (length d) \<Longrightarrow> length x = length d \<Longrightarrow> length y = length d \<Longrightarrow>
      drop j x = drop j y" for x y :: bytes and j by (simp add: slice_def)
  show ?thesis
  proof (cases "iphone_at e ?lim d c d'")
    case True
    then have room: "c + 16 \<le> length d" and d': "d' = put4 e d c 0x24 (u32 e d (c + 4)) MACOS_13 MACOS_13"
      using lim by (simp_all add: iphone_at_def)
    note p = put4_spec [OF room, where e = e and a = "0x24" and b = "u32 e d (c + 4)" and c = MACOS_13 and v = MACOS_13, folded d']
    have "drop (c + 16) d' = drop (c + 16) d" using p(1) p(2) [where j = "c + 16" and n = "length d"] by (intro tail) simp_all
    with p True e c u32_bound [of e d "c + 4"] MACOS_13_small show ?thesis
      by (intro conjI exI [of _ e] exI [of _ c] disjI2) (simp_all add: iphone_at_def)
  next
    case False
    with or have b: "build_at e ?lim d c d'"
      and w': "version_walk e ?lim d' (u32 e d (offset + 16)) (offset + 32) = Inr (d', False)" by auto
    then have room: "c + 8 + 16 \<le> length d"
      and d': "d' = put4 e d (c + 8) 1 MACOS_13 MACOS_13 (u32 e d (c + 20))" using lim by (simp_all add: build_at_def)
    note p = put4_spec [OF room, where e = e and a = 1 and b = MACOS_13 and c = MACOS_13 and v = "u32 e d (c + 20)", folded d']
    have f: "u32 k d' j = u32 k d j" if "j + 4 \<le> c + 8" for k j using p(2) that by (intro fld_cong) simp
    have "slice_endian d' offset = Some e" "u32 e d' (offset + 16) = u32 e d (offset + 16)"
      using e c f by (simp_all add: slice_endian_def split: if_splits)
    with w' lim p(1) have again: "patch_slice d' offset sz = Inr (d', False)" by (simp add: patch_slice_def)
    have "slice d' (c + 20) 4 = slice d (c + 20) 4"
    proof -
      have "enc e 4 (u32 e d' (c + 20)) = enc e 4 (u32 e d (c + 20))"
        using p(6) u32_bound [of e d "c + 20"] by (simp add: add.assoc)
      moreover have "enc e 4 (u32 e x j) = slice x j 4" if "j + 4 \<le> length x" for x j
        using enc_dec [of e "slice x j 4"] that by (simp add: fld_def)
      ultimately show ?thesis using room p(1) by simp
    qed
    moreover have "slice d' (c + 24) (length d) = slice d (c + 24) (length d)" using p(2) by simp
    ultimately have "slice d' (c + 20) (4 + length d) = slice d (c + 20) (4 + length d)"
      by (simp add: slice_join add.assoc)
    then have "drop (c + 20) d' = drop (c + 20) d" using p(1) by (simp add: slice_def)
    moreover have "u32 e d' (c + 8) = 1" "u32 e d' (c + 12) = MACOS_13" "u32 e d' (c + 16) = MACOS_13"
      using p(3-5) MACOS_13_small by (simp_all add: add.assoc)
    ultimately show ?thesis using p(1,2) b e c again
      by (intro conjI exI [of _ e] exI [of _ c] disjI1) (simp_all add: build_at_def)
  qed
qed

lemma walks_agree:
  assumes "version_walk e limit d n cmd = Inr (d', b)" and "limit \<le> length d"
  shows "rewrite_walk e d n cmd = Inr (d', True)"
  using assms(1)
proof (induction n arbitrary: cmd)
  case 0
  then show ?case by simp
next
  case (Suc n)
  let ?s = "u32 e d (cmd + 4)"
  from Suc.prems have r: "cmd + 8 \<le> limit" "8 \<le> ?s" "cmd + ?s \<le> limit"
    by (auto simp: Let_def not_less split: if_splits)
  then have rm: "room d cmd 8 = Inr ()" using assms(2) by simp
  consider "u32 e d cmd = 0x32" | "u32 e d cmd = 0x25" | "u32 e d cmd \<noteq> 0x32" "u32 e d cmd \<noteq> 0x25" by blast
  then show ?case
  proof cases
    case 1
    with Suc.prems r have s: "24 \<le> ?s" by (auto simp: Let_def split: if_splits)
    then have rm2: "room d (cmd + 8) 16 = Inr ()" using r assms(2) by simp
    have "put4 e d (cmd + 8) 1 MACOS_13 MACOS_13 (u32 e d (cmd + 20)) = d"
      if "u32 e d (cmd + 8) = 1" "u32 e d (cmd + 12) = MACOS_13" "u32 e d (cmd + 16) = MACOS_13"
      using put4_same [of "cmd + 8" d e] that r s assms(2) by (simp add: add.assoc)
    with 1 Suc.prems r s rm rm2 show ?thesis by (auto simp: Let_def split: if_splits)
  next
    case 2
    with Suc.prems r have s: "16 \<le> ?s" by (auto simp: Let_def split: if_splits)
    then have "room d (cmd + 8) 8 = Inr ()" using r assms(2) by simp
    with 2 Suc.prems r s rm show ?thesis by (auto simp: Let_def split: if_splits)
  next
    case 3
    with Suc.prems r have "version_walk e limit d n (cmd + ?s) = Inr (d', b)" by (auto simp: Let_def)
    from Suc.IH [OF this] 3 rm show ?thesis by (simp add: Let_def)
  qed
qed

text \<open>
  C9: The unchecked script of \<^verbatim>\<open>misc\<close> and the installed one agree: on every slice the installed
  script accepts, changed or already right, the other produces the same bytes (and always
  reports a modification).
\<close>

theorem version_scripts_agree:
  assumes "patch_slice d offset sz = Inr (d', b)"
  shows "process_macho_slice d offset = Inr (d', True)"
proof -
  from assms obtain e where e: "slice_endian d offset = Some e" and lim: "32 \<le> sz" "offset + sz \<le> length d"
    and w: "version_walk e (offset + sz) d (u32 e d (offset + 16)) (offset + 32) = Inr (d', b)"
    by (auto simp: patch_slice_def split: option.splits if_splits)
  from walks_agree [OF w lim(2)] e lim show ?thesis
    by (simp add: process_macho_slice_def room_def)
qed

subsection \<open>Concrete slices\<close>

text \<open>A header with no command and room; and one with an iOS build-version command.\<close>

definition sample_header :: "nat \<Rightarrow> nat \<Rightarrow> bytes" where
  "sample_header n len =
     enc LE 4 0xfeedfacf @ enc LE 4 0x0100000c @ enc LE 4 0 @ enc LE 4 2 @ enc LE 4 n @ enc LE 4 len @ enc LE 8 0"

definition sample_empty :: bytes where
  "sample_empty = sample_header 0 0 @ replicate 48 0"

lemma sample_empty_facts:
  "u32 LE sample_empty 0 = MH_MAGIC_64" "u32 LE sample_empty 16 = 0" "u32 LE sample_empty 20 = 0"
  "slice sample_empty 32 32 = replicate 32 0" "slice sample_empty 32 16 = replicate 16 0" "length sample_empty = 80"
  by code_simp+

lemma sample_names: "valid_name ''/a''" "valid_name ''a=b''"
  "length (dylib_command ''/a'') = 32" "length (env_command ''a=b'') = 16"
  by code_simp+

lemma sample_load: "\<exists>d'. add_load_dylib ''/a'' sample_empty 0 80 = Inr (d', True)"
  by (simp add: add_load_dylib_def insert_command_def sample_empty_facts write_command_def sample_names list_ex_iff)

theorem add_load_dylib_correct_witness:
  "\<exists>d'. add_load_dylib ''/a'' sample_empty 0 80 = Inr (d', True) \<and> u32 LE d' 16 = 1 \<and> u32 LE d' 20 = 32 \<and>
     slice d' 32 32 = dylib_command ''/a'' \<and> add_load_dylib ''/a'' d' 0 80 = Inr (d', False)"
proof -
  obtain d' where d': "add_load_dylib ''/a'' sample_empty 0 80 = Inr (d', True)" using sample_load by blast
  from add_load_dylib_correct [OF d' _ sample_names(1), of 0] d' show ?thesis
    by (auto simp: sample_empty_facts sample_names)
qed

lemma sample_env_added: "\<exists>d'. add_env_insert ''a=b'' sample_empty 0 80 = Inr (d', True)"
  by (simp add: add_env_insert_def insert_command_def sample_empty_facts write_command_def sample_names list_ex_iff)

theorem add_env_insert_correct_witness:
  "\<exists>d'. add_env_insert ''a=b'' sample_empty 0 80 = Inr (d', True) \<and>
     slice d' 32 16 = env_command ''a=b'' \<and> add_env_insert ''a=b'' d' 0 80 = Inr (d', False)"
proof -
  obtain d' where d': "add_env_insert ''a=b'' sample_empty 0 80 = Inr (d', True)" using sample_env_added by blast
  from add_env_insert_correct [OF d' _ sample_names(2), of 0] d' show ?thesis
    by (auto simp: sample_empty_facts sample_names)
qed

definition sample_ios :: bytes where
  "sample_ios = sample_header 1 24 @ enc LE 4 0x32 @ enc LE 4 24 @ enc LE 4 2 @ enc LE 4 0x100000 @ enc LE 4 0x110000 @ enc LE 4 0"

lemma sample_ios_facts:
  "u32 LE sample_ios 0 = MH_MAGIC_64" "u32 LE sample_ios 16 = 1" "u32 LE sample_ios 32 = 0x32"
  "u32 LE sample_ios 36 = 24" "u32 LE sample_ios 40 = 2" "length sample_ios = 56"
  by code_simp+

lemma sample_patched:
  "patch_slice sample_ios 0 56 = Inr (put4 LE sample_ios 40 1 MACOS_13 MACOS_13 (u32 LE sample_ios 52), True)"
  by (simp add: patch_slice_def slice_endian_def sample_ios_facts numeral_eq_Suc [of "num.One"])

theorem patch_slice_correct_witness:
  "\<exists>d' e c. patch_slice sample_ios 0 56 = Inr (d', True) \<and> length d' = 56 \<and>
     slice_endian sample_ios 0 = Some e \<and> 32 \<le> c \<and> slice d' 0 c = slice sample_ios 0 c"
proof -
  let ?d = "put4 LE sample_ios 40 1 MACOS_13 MACOS_13 (u32 LE sample_ios 52)"
  from patch_slice_correct [OF sample_patched] obtain e c where l: "length ?d = 56"
    and e: "slice_endian sample_ios 0 = Some e" "32 \<le> c"
    and or: "slice ?d 0 (c + 8) = slice sample_ios 0 (c + 8) \<or> slice ?d 0 c = slice sample_ios 0 c"
    by (auto simp: sample_ios_facts)
  have "slice ?d 0 c = slice sample_ios 0 c"
    using or slice_slice [of 0 c "c + 8" ?d 0] slice_slice [of 0 c "c + 8" sample_ios 0] by auto
  with l e sample_patched show ?thesis by blast
qed

theorem version_scripts_agree_witness:
  "process_macho_slice sample_ios 0 = Inr (put4 LE sample_ios 40 1 MACOS_13 MACOS_13 (u32 LE sample_ios 52), True)"
  by (rule version_scripts_agree [OF sample_patched])

end
