(* ===== verification/AgxSegments.thy ===== *)
theory AgxSegments
  imports FatSlices
begin

text \<open>
  \<^verbatim>\<open>misc/parse_agx_segment_list.py\<close>: the strict decoder of captured IOGPU segment lists.  Two
  framings are flattened first (a chain with two signal records, a fragmented list with
  interleaved events); the direct list is then walked entry by entry, in step with the
  command stream.  A function that returns \<open>None\<close> for a capture it does not recognise has the
  result type \<open>'a option result\<close>: \<open>Inl\<close> is an exception (a read past the end of a buffer),
  \<open>Inr None\<close> the early \<open>return None\<close>.
\<close>

unbundle bit_operations_syntax

subsection \<open>Reads and lazy conjunctions\<close>

definition is32 :: "bytes \<Rightarrow> nat \<Rightarrow> (nat \<Rightarrow> bool) \<Rightarrow> bool result" where
  "is32 d i p = bindE (unpack_from LE 4 d i) (\<lambda>v. Inr (p v))"

text \<open>Python's \<open>and\<close>: a conjunct is evaluated only when those before it hold.\<close>

fun all_hold :: "bool result list \<Rightarrow> bool result" where
  "all_hold [] = Inr True"
| "all_hold (r # rs) = bindE r (\<lambda>b. if b then all_hold rs else Inr False)"

lemma all_hold_True: "all_hold rs = Inr True \<longleftrightarrow> list_all (\<lambda>r. r = Inr True) rs"
  by (induction rs) (auto split: if_splits)

lemma is32_True [simp]: "is32 d i p = Inr True \<longleftrightarrow> i + 4 \<le> length d \<and> p (u32 LE d i)"
  by (auto simp: is32_def)

definition pack_pair :: "bytes \<Rightarrow> nat \<Rightarrow> nat \<Rightarrow> nat \<Rightarrow> bytes result" where
  "pack_pair d i a b =
     (if i + 8 \<le> length d \<and> a < 2 ^ 32 \<and> b < 2 ^ 32 then Inr (put_pair d i a b) else Inl StructError)"

lemma pack_pair_eq_Inr [simp]:
  "pack_pair d i a b = Inr d' \<longleftrightarrow> i + 8 \<le> length d \<and> a < 2 ^ 32 \<and> b < 2 ^ 32 \<and> d' = put_pair d i a b"
  by (auto simp: pack_pair_def)

subsection \<open>The two-stage signal chain\<close>

definition type5_signal :: "bytes \<Rightarrow> nat \<Rightarrow> nat \<Rightarrow> nat list \<Rightarrow> bool result" where
  "type5_signal commands offset ordinal prior =
     all_hold
       [is32 commands offset (\<lambda>v. v = 5), is32 commands (offset + 4) (\<lambda>v. v = 0x18),
        is32 commands (offset + 8) (\<lambda>v. v = ordinal), is32 commands (offset + 0x0c) (\<lambda>v. v \<in> set prior),
        is32 commands (offset + 0x10) (\<lambda>v. v = 1), is32 commands (offset + 0x14) (\<lambda>v. v = 0)]"

text \<open>The two list lengths, when the lists and signals fit the buffer exactly.\<close>

definition type5_lengths :: "bytes \<Rightarrow> bytes \<Rightarrow> (nat \<times> nat) option" where
  "type5_lengths commands segments =
     (if length commands < 0x900 \<or> length segments < 0x90 then None
      else
      let first_list_length = u32 LE segments 0x0c; second_list_offset = first_list_length + 0x18 in
      if first_list_length < 0x30 then None
      else if second_list_offset + 0x30 + 0x18 > length segments then None
      else
      let second_list_length = u32 LE segments (second_list_offset + 0x0c) in
      if second_list_length < 0x30 then None
      else if second_list_offset + second_list_length + 0x18 \<noteq> length segments then None
      else Some (first_list_length, second_list_length))"

definition type5_lists :: "bytes \<Rightarrow> bytes \<Rightarrow> nat \<Rightarrow> nat \<Rightarrow> bool" where
  "type5_lists commands segments first_len second_len =
     (let second_list = first_len + 0x18; second_signal = second_list + second_len;
          token = u64 LE segments 0;
          first_start = u32 LE segments 0x18; first_end = u32 LE segments 0x1c;
          second_start = u32 LE segments (second_list + 0x18); second_end = u32 LE segments (second_list + 0x1c)
      in
      u32 LE segments 8 = 1 \<and> u64 LE segments first_len = token \<and> u32 LE segments (first_len + 8) = 1 \<and>
      u32 LE segments (first_len + 0x0c) = 0x40000001 \<and>
      u64 LE segments second_list = token \<and> u32 LE segments (second_list + 8) = 1 \<and>
      u64 LE segments second_signal = token \<and> u32 LE segments (second_signal + 8) = 1 \<and>
      u32 LE segments (second_signal + 0x0c) = 0xc0000001 \<and>
      first_start = 0 \<and> u32 LE segments (first_len + 0x10) = first_end \<and>
      u32 LE segments (first_len + 0x14) = first_end + 0x18 \<and>
      second_start = u32 LE segments (first_len + 0x14) \<and>
      u32 LE segments (second_signal + 0x10) = second_end \<and>
      u32 LE segments (second_signal + 0x14) = length commands \<and> second_end + 0x18 = length commands)"

definition type5_commands :: "bytes \<Rightarrow> nat \<Rightarrow> nat \<Rightarrow> nat \<Rightarrow> bool result" where
  "type5_commands commands first_end second_start second_end =
     all_hold
       [is32 commands 0 (\<lambda>v. v = 0x10000 \<or> v = 0x10001), is32 commands 4 (\<lambda>v. v = first_end),
        type5_signal commands first_end 1 [0],
        is32 commands second_start (\<lambda>v. v = 0x10000 \<or> v = 0x10001),
        is32 commands (second_start + 4) (\<lambda>v. int v = int second_end - int second_start),
        type5_signal commands second_end 2 [0, 0x18]]"

definition flatten_type5 :: "bytes \<Rightarrow> bytes \<Rightarrow> (bytes \<times> bytes) option result" where
  "flatten_type5 commands segments =
     (case type5_lengths commands segments of
        None \<Rightarrow> Inr None
      | Some (first_len, second_len) \<Rightarrow>
        if \<not> type5_lists commands segments first_len second_len then Inr None
        else
        let second_list = first_len + 0x18;
            first_end = u32 LE segments 0x1c;
            second_start = u32 LE segments (second_list + 0x18);
            second_end = u32 LE segments (second_list + 0x1c) in
        bindE (type5_commands commands first_end second_start second_end) (\<lambda>ok.
        if \<not> ok then Inr None
        else
        let first_entry = slice segments 0x10 (first_len - 0x10);
            second_entry = slice segments (second_list + 0x10) (second_len - 0x10);
            direct_commands = take first_end commands @ slice commands second_start (second_end - second_start);
            direct = take 0x10 segments @ first_entry @ second_entry in
        bindE (pack_into LE 4 direct 8 2) (\<lambda>direct.
        bindE (pack_into LE 4 direct 0x0c (0x80000000 OR length direct)) (\<lambda>direct.
        bindE (pack_pair direct 0x18 0 first_end) (\<lambda>direct.
        bindE (pack_pair direct (first_len + 8) first_end (length direct_commands)) (\<lambda>direct.
        Inr (Some (direct_commands, direct))))))))"

subsection \<open>The fragmented list\<close>

text \<open>One entry: its offset and length in the list and its command range.\<close>

type_synonym frag_entry = "nat \<times> nat \<times> nat \<times> nat"

record frag_state =
  list_cursor :: nat
  command_cursor :: nat
  entries :: "frag_entry list"
  fragment_count :: nat
  signal_count :: nat

definition valid_counts :: "bytes \<Rightarrow> nat \<Rightarrow> nat \<Rightarrow> nat list" where
  "valid_counts segments entry group_count =
     map (\<lambda>group. u16 LE segments (entry + 0x20 + group * 0x40 + 0x3e)) [0..<group_count]"

definition event_ok :: "bytes \<Rightarrow> nat \<Rightarrow> bool" where
  "event_ok commands offset \<longleftrightarrow>
     u32 LE commands offset \<in> {3, 4, 5, 6, 10} \<and> u32 LE commands (offset + 4) = 0x18 \<and>
     u32 LE commands (offset + 8) \<noteq> 0 \<and> (u32 LE commands offset \<noteq> 3 \<or> u32 LE commands (offset + 0x0c) = 0)"

text \<open>An event record of the list.\<close>

definition frag_event :: "bytes \<Rightarrow> bytes \<Rightarrow> nat \<Rightarrow> frag_state \<Rightarrow> frag_state option" where
  "frag_event commands segments count st =
     (let c = list_cursor st in
      if count \<noteq> 1 \<or> c + 0x18 > length segments then None
      else
      let event_start = u32 LE segments (c + 0x10); event_end = u32 LE segments (c + 0x14) in
      if event_start = command_cursor st \<and> event_end > event_start \<and> event_end \<le> length commands \<and>
         event_end - event_start \<le> 0x30 \<and> (event_end - event_start) mod 0x18 = 0 \<and>
         list_all (\<lambda>k. event_ok commands (event_start + k * 0x18)) [0..<(event_end - event_start) div 0x18]
      then Some (st\<lparr>signal_count := signal_count st + 1, command_cursor := event_end, list_cursor := c + 0x18\<rparr>)
      else None)"

text \<open>One entry of a fragment; the pair is the entry cursor and the state.\<close>

definition frag_entry_step ::
  "bytes \<Rightarrow> bytes \<Rightarrow> nat \<Rightarrow> nat \<Rightarrow> nat \<times> frag_state \<Rightarrow> (nat \<times> frag_state) option result" where
  "frag_entry_step commands segments base chunk_length s =
     (case s of (entry_cursor, st) \<Rightarrow>
      let entry = base + entry_cursor in
      if entry + 0x20 > base + chunk_length then Inr None
      else
      let resource_count = u32 LE segments (entry + 0x18); group_count = u32 LE segments (entry + 0x1c);
          maximum_groups = (base + chunk_length - entry - 0x20) div 0x40;
          entry_length = 0x20 + group_count * 0x40 in
      if group_count > maximum_groups then Inr None
      else if entry + entry_length > base + chunk_length then Inr None
      else
      let counts = valid_counts segments entry group_count in
      if list_ex (\<lambda>v. v > 6) counts then Inr None
      else if sum_list counts \<noteq> resource_count then Inr None
      else
      let start = u32 LE segments (entry + 8); fin = u32 LE segments (entry + 0x0c) in
      bindE (all_hold [Inr (start = command_cursor st), Inr (fin > start), Inr (fin \<le> length commands),
               is32 commands start (\<lambda>v. v = 0x10000 \<or> v = 0x10001), is32 commands (start + 4) (\<lambda>v. v = fin - start)])
        (\<lambda>ok. if \<not> ok then Inr None
         else Inr (Some (entry_cursor + entry_length,
           st\<lparr>entries := entries st @ [(entry, entry_length, start, fin)], command_cursor := fin\<rparr>))))"

fun frag_entries ::
  "bytes \<Rightarrow> bytes \<Rightarrow> nat \<Rightarrow> nat \<Rightarrow> nat \<Rightarrow> nat \<times> frag_state \<Rightarrow> (nat \<times> frag_state) option result" where
  "frag_entries commands segments base chunk_length 0 s = Inr (Some s)"
| "frag_entries commands segments base chunk_length (Suc n) s =
     bindE (frag_entry_step commands segments base chunk_length s) (\<lambda>r.
     case r of None \<Rightarrow> Inr None | Some s' \<Rightarrow> frag_entries commands segments base chunk_length n s')"

definition close_fragment ::
  "bytes \<Rightarrow> nat \<Rightarrow> nat \<Rightarrow> bool \<Rightarrow> nat \<times> frag_state \<Rightarrow> (bool \<times> frag_state) option" where
  "close_fragment segments c chunk_length terminal s =
     (if fst s \<noteq> chunk_length then None
      else if terminal \<and> c + chunk_length \<noteq> length segments then None
      else Some (terminal,
        (snd s)\<lparr>fragment_count := fragment_count (snd s) + 1, list_cursor := c + chunk_length\<rparr>))"

text \<open>
  One iteration of the loop: \<open>None\<close> is \<open>return None\<close>; the flag is set by the \<open>break\<close> after a
  terminal fragment.
\<close>

definition frag_step :: "bytes \<Rightarrow> bytes \<Rightarrow> nat \<Rightarrow> frag_state \<Rightarrow> (bool \<times> frag_state) option result" where
  "frag_step commands segments token st =
     (let c = list_cursor st in
      if u64 LE segments c \<noteq> token then Inr None
      else
      let count = u32 LE segments (c + 8); encoded = u32 LE segments (c + 0x0c) in
      if encoded = 0x40000001 \<or> encoded = 0xc0000001
      then Inr (map_option (Pair False) (frag_event commands segments count st))
      else
      let terminal = (encoded \<ge> 0x80000000); chunk_length = encoded mod 0x80000000 in
      if count < 1 \<or> count > 1024 \<or> chunk_length < 0x30 then Inr None
      else if c + chunk_length > length segments then Inr None
      else bindE (frag_entries commands segments c chunk_length count (0x10, st)) (\<lambda>r.
        Inr (Option.bind r (close_fragment segments c chunk_length terminal))))"

lemma frag_event_progress:
  "frag_event commands segments count st = Some st' \<Longrightarrow> list_cursor st < list_cursor st'"
  by (auto simp: frag_event_def Let_def split: if_splits)

lemma close_fragment_progress:
  "close_fragment segments c n t s = Some (b, st') \<Longrightarrow> list_cursor st' = c + n"
  by (auto simp: close_fragment_def split: if_splits)

lemma frag_step_progress:
  "frag_step commands segments token st = Inr (Some (b, st')) \<Longrightarrow> list_cursor st < list_cursor st'"
  by (auto simp: frag_step_def Let_def bind_eq_Some_conv split: if_splits
      dest!: frag_event_progress close_fragment_progress)

function frag_loop :: "bytes \<Rightarrow> bytes \<Rightarrow> nat \<Rightarrow> frag_state \<Rightarrow> frag_state option result" where
  "frag_loop commands segments token st =
     (if list_cursor st + 0x10 > length segments then Inr (Some st)
      else case frag_step commands segments token st of
        Inl e \<Rightarrow> Inl e
      | Inr None \<Rightarrow> Inr None
      | Inr (Some (terminal, st')) \<Rightarrow>
          if terminal then Inr (Some st') else frag_loop commands segments token st')"
  by pat_completeness auto
termination
  by (relation "measure (\<lambda>(commands, segments, token, st). length segments - list_cursor st)")
    (auto dest: frag_step_progress)

declare frag_loop.simps [simp del]

text \<open>The rewritten entries: consecutive command ranges from zero.\<close>

fun rewritten_ranges :: "nat \<Rightarrow> frag_entry list \<Rightarrow> (nat \<times> nat) list" where
  "rewritten_ranges cursor [] = []"
| "rewritten_ranges cursor ((_, _, start, fin) # es) =
     (cursor, cursor + (fin - start)) # rewritten_ranges (cursor + (fin - start)) es"

definition direct_entry :: "bytes \<Rightarrow> frag_entry \<times> nat \<times> nat \<Rightarrow> bytes result" where
  "direct_entry segments er =
     (case er of ((entry, entry_length, _, _), (start, fin)) \<Rightarrow>
      pack_pair (slice segments entry entry_length) 8 start fin)"

definition flatten_fragmented :: "bytes \<Rightarrow> bytes \<Rightarrow> (bytes \<times> bytes) option result" where
  "flatten_fragmented commands segments =
     (if length commands < 0x100 \<or> length segments < 0x60 then Inr None
      else
      let start = \<lparr>list_cursor = 0, command_cursor = 0, entries = [], fragment_count = 0, signal_count = 0\<rparr> in
      bindE (frag_loop commands segments (u64 LE segments 0) start) (\<lambda>r.
      case r of None \<Rightarrow> Inr None
      | Some st \<Rightarrow>
        if \<not> (fragment_count st \<ge> 1 \<and> signal_count st \<ge> 1 \<and> length (entries st) \<ge> 1 \<and>
               command_cursor st = length commands \<and> list_cursor st = length segments)
        then Inr None
        else
        let direct_commands = concat (map (\<lambda>(_, _, start, fin). slice commands start (fin - start)) (entries st)) in
        bindE (mapE (direct_entry segments) (zip (entries st) (rewritten_ranges 0 (entries st)))) (\<lambda>parts.
        bindE (pack_into LE 4 (take 0x10 segments @ concat parts) 8 (length (entries st))) (\<lambda>direct.
        bindE (pack_into LE 4 direct 0x0c (0x80000000 OR length direct)) (\<lambda>direct.
        Inr (Some (direct_commands, direct)))))))"

subsection \<open>Event records\<close>

text \<open>\<open>(offset, type, id, word 0x0c, value)\<close> of the events of one range.\<close>

type_synonym event_record = "nat \<times> nat \<times> nat \<times> nat \<times> nat"

definition event_at :: "bytes \<Rightarrow> nat \<Rightarrow> event_record" where
  "event_at commands offset =
     (offset, u32 LE commands offset, u32 LE commands (offset + 8), u32 LE commands (offset + 0x0c),
      u64 LE commands (offset + 0x10))"

definition event_range :: "bytes \<Rightarrow> nat \<Rightarrow> nat \<Rightarrow> event_record list option" where
  "event_range commands start fin =
     (if fin \<le> start \<or> fin > length commands \<or> (fin - start) mod 0x18 \<noteq> 0 then None
      else
      let offsets = map (\<lambda>k. start + k * 0x18) [0..<(fin - start) div 0x18] in
      if list_ex (\<lambda>offset. u32 LE commands (offset + 4) \<noteq> 0x18) offsets then None
      else Some (map (event_at commands) offsets))"

text \<open>The walk; \<open>None\<close> stands for \<open>return []\<close>.\<close>

function event_walk :: "bytes \<Rightarrow> bytes \<Rightarrow> nat \<Rightarrow> nat \<Rightarrow> event_record list \<Rightarrow> event_record list option" where
  "event_walk commands segments token cursor records =
     (if cursor + 0x10 > length segments then (if cursor = length segments then Some records else None)
      else if u64 LE segments cursor \<noteq> token then None
      else
      let count = u32 LE segments (cursor + 8); encoded = u32 LE segments (cursor + 0x0c) in
      if encoded = 0x40000001 \<or> encoded = 0xc0000001
      then
        (if count \<noteq> 1 \<or> cursor + 0x18 > length segments then None
         else case event_range commands (u32 LE segments (cursor + 0x10)) (u32 LE segments (cursor + 0x14)) of
           None \<Rightarrow> None
         | Some rs \<Rightarrow> event_walk commands segments token (cursor + 0x18) (records @ rs))
      else
      let chunk_length = encoded mod 0x80000000 in
      if count < 1 \<or> chunk_length < 0x30 \<or> cursor + chunk_length > length segments then None
      else if encoded \<ge> 0x80000000
      then (if cursor + chunk_length = length segments then Some records else None)
      else event_walk commands segments token (cursor + chunk_length) records)"
  by pat_completeness auto
termination
  by (relation "measure (\<lambda>(commands, segments, token, cursor, records). length segments - cursor)") auto

declare event_walk.simps [simp del]

definition interleaved_event_records :: "bytes \<Rightarrow> bytes \<Rightarrow> event_record list" where
  "interleaved_event_records commands segments =
     (if length segments < 0x10 then []
      else case event_walk commands segments (u64 LE segments 0) 0 [] of None \<Rightarrow> [] | Some rs \<Rightarrow> rs)"

subsection \<open>The direct list\<close>

type_synonym agx_resource = "nat \<times> nat \<times> nat"

record agx_segment =
  seg_token :: nat
  seg_range :: "nat \<times> nat"
  seg_type :: nat
  seg_header :: nat
  seg_field_10 :: nat
  seg_field_14 :: nat
  seg_groups :: nat
  seg_resources :: "agx_resource list"

definition group_resources :: "bytes \<Rightarrow> nat \<Rightarrow> nat \<Rightarrow> agx_resource list result" where
  "group_resources d header_offset group_index =
     (let group = header_offset + 0x20 + group_index * 0x40; valid_count = u16 LE d (group + 0x3e) in
      if valid_count > 6 then Inl (ValueError ''valid count > 6'')
      else Inr (map (\<lambda>item. (u32 LE d (group + item * 4), u32 LE d (group + 0x18 + item * 4),
                              u16 LE d (group + 0x30 + item * 2))) [0..<valid_count]))"

text \<open>One segment at a command offset and a descriptor cursor.\<close>

definition decode_segment :: "bytes \<Rightarrow> bytes \<Rightarrow> nat \<Rightarrow> nat \<Rightarrow> agx_segment result" where
  "decode_segment commands d command_start header =
     (if command_start + 8 > length commands then Inl (ValueError ''KCMD header is truncated'')
      else
      let command_span = u32 LE commands (command_start + 4); command_end = command_start + command_span in
      if command_span < 8 \<or> command_end > length commands then Inl (ValueError ''invalid KCMD span'')
      else if header + 0x20 > length d then Inl (ValueError ''header is truncated'')
      else if (u32 LE d (header + 8), u32 LE d (header + 0x0c)) \<noteq> (command_start, command_end)
      then Inl (ValueError ''structured range does not match KCMD'')
      else
      let resource_count = u32 LE d (header + 0x18); group_count = u32 LE d (header + 0x1c);
          maximum_groups = (length d - header - 0x20) div 0x40 in
      if group_count > maximum_groups then Inl (ValueError ''group count exceeds the remaining-list bound'')
      else if header + 0x20 + group_count * 0x40 > length d then Inl (ValueError ''descriptor groups are truncated'')
      else bindE (mapE (group_resources d header) [0..<group_count]) (\<lambda>rss.
      if length (concat rss) \<noteq> resource_count then Inl (ValueError ''header count != decoded count'')
      else Inr \<lparr>seg_token = u64 LE d header, seg_range = (command_start, command_end),
             seg_type = u32 LE commands command_start, seg_header = header,
             seg_field_10 = u32 LE d (header + 0x10), seg_field_14 = u32 LE d (header + 0x14),
             seg_groups = group_count, seg_resources = concat rss\<rparr>))"

fun decode_segments :: "bytes \<Rightarrow> bytes \<Rightarrow> nat \<Rightarrow> nat \<Rightarrow> nat \<Rightarrow> (agx_segment list \<times> nat \<times> nat) result" where
  "decode_segments commands d 0 command_start cursor = Inr ([], command_start, cursor)"
| "decode_segments commands d (Suc n) command_start cursor =
     bindE (decode_segment commands d command_start cursor) (\<lambda>s.
     bindE (decode_segments commands d n (snd (seg_range s)) (cursor + 0x20 + seg_groups s * 0x40))
       (\<lambda>(ss, c, q). Inr (s # ss, c, q)))"

subsection \<open>The trailing wrapper\<close>

text \<open>\<open>(generation, start, end, type, opcode)\<close> of an accepted wrapper.\<close>

type_synonym trailing_wrapper = "nat \<times> nat \<times> nat \<times> nat \<times> nat"

definition wrapper_records_ok :: "bytes \<Rightarrow> nat \<Rightarrow> nat \<Rightarrow> bool" where
  "wrapper_records_ok commands wrapper_start wrapper_bytes \<longleftrightarrow>
     list_all (\<lambda>k. let offset = wrapper_start + k * 0x18 in
        u32 LE commands offset = 3 \<and> u32 LE commands (offset + 4) = 0x18 \<and>
        u32 LE commands (offset + 8) = u32 LE commands (wrapper_start + 8)) [0..<wrapper_bytes div 0x18]"

definition wrapper_signal_ok :: "bytes \<Rightarrow> nat \<Rightarrow> nat \<Rightarrow> bool" where
  "wrapper_signal_ok commands wrapper_start wrapper_bytes \<longleftrightarrow>
     wrapper_bytes = 0x18 \<and> u32 LE commands wrapper_start = 5 \<and> u32 LE commands (wrapper_start + 4) = 0x18 \<and>
     u32 LE commands (wrapper_start + 8) \<noteq> 0 \<and> u32 LE commands (wrapper_start + 0x10) = 1 \<and>
     u32 LE commands (wrapper_start + 0x14) = 0"

definition check_trailing :: "bytes \<Rightarrow> bytes \<Rightarrow> nat \<Rightarrow> nat \<Rightarrow> trailing_wrapper result" where
  "check_trailing commands list_bytes encoded_length command_start =
     (let wrapper = drop encoded_length list_bytes;
          generation = u32 LE list_bytes 4;
          wrapper_start = u32 LE wrapper 0x10; wrapper_end = u32 LE wrapper 0x14 in
      if generation \<notin> {0, 1, 2, 3, 4} then Inl (ValueError ''unobserved trailing-wrapper list generation'')
      else if u32 LE wrapper 0 \<noteq> u32 LE list_bytes 0
      then Inl (ValueError ''trailing-wrapper magic does not match outer list'')
      else if u32 LE wrapper 4 \<noteq> generation
      then Inl (ValueError ''trailing-wrapper generation does not match outer list'')
      else if u32 LE wrapper 8 \<noteq> 1 \<or> u32 LE wrapper 0x0c \<noteq> 0xc0000001
      then Inl (ValueError ''trailing-wrapper record framing is unknown'')
      else if wrapper_start \<noteq> command_start \<or> wrapper_end \<noteq> length commands
      then Inl (ValueError ''trailing-wrapper KCMD range does not follow decoded chain or file end'')
      else
      let wrapper_bytes = wrapper_end - wrapper_start in
      if wrapper_bytes \<noteq> 0x18 \<and> wrapper_bytes \<noteq> 0x30
      then Inl (ValueError ''trailing-wrapper KCMD size is not one/two records'')
      else
      let wrapper_type = u32 LE commands wrapper_start in
      if wrapper_type = 3 \<and> \<not> wrapper_records_ok commands wrapper_start wrapper_bytes
      then Inl (ValueError ''trailing KCMD wrapper framing is unknown'')
      else if wrapper_type \<noteq> 3 \<and> \<not> wrapper_signal_ok commands wrapper_start wrapper_bytes
      then Inl (ValueError ''trailing type-5 KCMD wrapper framing is unknown'')
      else Inr (generation, wrapper_start, wrapper_end, wrapper_type, u32 LE commands (wrapper_start + 8)))"

subsection \<open>The whole decoder\<close>

datatype list_form = Leading_Wrapper | Fragmented_List | Type5_Chain | Direct_List | Trailing_Wrapper

record decoded =
  dec_events :: "event_record list"
  dec_form :: list_form
  dec_token :: nat
  dec_encoded :: nat
  dec_segments :: "agx_segment list"
  dec_wrapper :: "trailing_wrapper option"
  dec_gids :: "nat set"

text \<open>The flattening stage: the streams to decode and the form they had.\<close>

definition flatten_capture :: "bytes \<Rightarrow> bytes \<Rightarrow> (bytes \<times> bytes \<times> list_form option) result" where
  "flatten_capture commands segments =
     bindE (flatten_fragmented commands segments) (\<lambda>r.
     case r of
       Some (c, s) \<Rightarrow> Inr (c, s, Some Fragmented_List)
     | None \<Rightarrow> bindE (flatten_type5 commands segments) (\<lambda>r.
         case r of
           Some (c, s) \<Rightarrow> Inr (c, s, Some Type5_Chain)
         | None \<Rightarrow> Inr (commands, segments, None)))"

definition leading_wrapper :: "bytes \<Rightarrow> bool" where
  "leading_wrapper segments \<longleftrightarrow>
     length segments \<ge> 0x38 \<and> u32 LE segments 8 = 1 \<and> u32 LE segments 0x0c = 0x40000001 \<and>
     u32 LE segments 0x10 = 0 \<and> u32 LE segments 0x14 = 0x10 \<and>
     u32 LE segments 0x18 = u32 LE segments 0 \<and> u32 LE segments 0x1c = u32 LE segments 4"

text \<open>Where the descriptors start in the command stream: after the leading record, if any.\<close>

definition first_command :: "bytes \<Rightarrow> bool \<Rightarrow> nat result" where
  "first_command commands leading =
     (if \<not> leading then Inr 0
      else if length commands < 0x10 then Inl (ValueError ''leading-wrapper KCMD record is truncated'')
      else if u32 LE commands 0 \<noteq> 9 \<or> u32 LE commands 4 \<noteq> 0x10 \<or> u32 LE commands 8 \<noteq> 1
      then Inl (ValueError ''leading-wrapper KCMD framing is unknown'')
      else Inr 0x10)"

definition form_name :: "bool \<Rightarrow> list_form option \<Rightarrow> bool \<Rightarrow> list_form" where
  "form_name leading chain direct =
     (if leading then Leading_Wrapper
      else case chain of Some f \<Rightarrow> f | None \<Rightarrow> if direct then Direct_List else Trailing_Wrapper)"

text \<open>From the first descriptor to the end, over the descriptor bytes \<open>d\<close> of \<open>list_bytes\<close>.\<close>

definition decode_body ::
  "bytes \<Rightarrow> bytes \<Rightarrow> bytes \<Rightarrow> bool \<Rightarrow> bool \<Rightarrow> list_form \<Rightarrow> event_record list \<Rightarrow> decoded result" where
  "decode_body commands list_bytes d leading trailing form events =
     bindE (first_command commands leading) (\<lambda>start.
     bindE (decode_segments commands d (u32 LE list_bytes 8) start 0x10) (\<lambda>(segs, command_start, cursor).
     if cursor \<noteq> length d then Inl (ValueError ''structured descriptor walk ends early'')
     else
     bindE (if trailing
            then bindE (check_trailing commands list_bytes (u32 LE list_bytes 0x0c) command_start) (\<lambda>w. Inr (Some w))
            else Inr None) (\<lambda>wrapper.
     if command_start \<noteq> (case wrapper of None \<Rightarrow> length commands | Some (_, wrapper_start, _) \<Rightarrow> wrapper_start)
     then Inl (ValueError ''decoded KCMD chain ends before the descriptor-backed end'')
     else Inr \<lparr>dec_events = events, dec_form = form, dec_token = u64 LE list_bytes 0,
            dec_encoded = u32 LE list_bytes 0x0c, dec_segments = segs, dec_wrapper = wrapper,
            dec_gids = fst ` set (concat (map seg_resources segs))\<rparr>)))"

definition decode_list ::
  "bytes \<Rightarrow> bytes \<Rightarrow> list_form option \<Rightarrow> event_record list \<Rightarrow> decoded result" where
  "decode_list commands segments chain events =
     (let leading = leading_wrapper segments;
          list_bytes = (if leading then drop 0x18 segments else segments);
          segment_count = u32 LE list_bytes 8; encoded_length = u32 LE list_bytes 0x0c;
          direct = (encoded_length = 0x80000000 OR length list_bytes);
          trailing = (\<not> leading \<and> encoded_length \<ge> 0x20 \<and> encoded_length + 0x18 = length list_bytes) in
      if \<not> direct \<and> \<not> trailing
      then Inl (ValueError ''encoded length is neither direct nor a 0x18-byte trailing-wrapper offset'')
      else if segment_count = 0 \<or> segment_count > 1024 then Inl (ValueError ''implausible segment count'')
      else decode_body commands list_bytes (if direct then list_bytes else take encoded_length list_bytes)
             leading trailing (form_name leading chain direct) events)"

definition decode_capture :: "bytes \<Rightarrow> bytes \<Rightarrow> decoded result" where
  "decode_capture raw_commands raw_segments =
     (if length raw_segments < 0x10 then Inl (ValueError ''segment list is shorter than its 0x10-byte header'')
      else bindE (flatten_capture raw_commands raw_segments) (\<lambda>(commands, segments, chain).
        decode_list commands segments chain (interleaved_event_records raw_commands raw_segments)))"

subsection \<open>Decoded segments cover the command stream\<close>

fun chained :: "nat \<Rightarrow> (nat \<times> nat) list \<Rightarrow> nat \<Rightarrow> bool" where
  "chained a [] b \<longleftrightarrow> a = b"
| "chained a (r # rs) b \<longleftrightarrow> fst r = a \<and> a + 8 \<le> snd r \<and> chained (snd r) rs b"

definition resources_at :: "bytes \<Rightarrow> nat \<Rightarrow> agx_resource list" where
  "resources_at s entry =
     concat (map (\<lambda>i. let group = entry + 0x20 + i * 0x40 in
        map (\<lambda>item. (u32 LE s (group + item * 4), u32 LE s (group + 0x18 + item * 4), u16 LE s (group + 0x30 + item * 2)))
          [0..<u16 LE s (group + 0x3e)]) [0..<u32 LE s (entry + 0x1c)])"

text \<open>The descriptors stand one behind the other, each as long as its groups make it.\<close>

fun header_chain :: "nat \<Rightarrow> agx_segment list \<Rightarrow> nat \<Rightarrow> bool" where
  "header_chain a [] b \<longleftrightarrow> a = b"
| "header_chain a (s # ss) b \<longleftrightarrow> seg_header s = a \<and> header_chain (a + 0x20 + seg_groups s * 0x40) ss b"

definition segment_ok :: "bytes \<Rightarrow> bytes \<Rightarrow> agx_segment \<Rightarrow> bool" where
  "segment_ok commands d s \<longleftrightarrow>
     snd (seg_range s) \<le> length commands \<and>
     seg_type s = u32 LE commands (fst (seg_range s)) \<and>
     u32 LE commands (fst (seg_range s) + 4) = snd (seg_range s) - fst (seg_range s) \<and>
     seg_range s = (u32 LE d (seg_header s + 8), u32 LE d (seg_header s + 0x0c)) \<and>
     seg_token s = u64 LE d (seg_header s) \<and> seg_resources s = resources_at d (seg_header s) \<and>
     length (seg_resources s) = u32 LE d (seg_header s + 0x18) \<and>
     length (seg_resources s) \<le> 6 * seg_groups s \<and> seg_groups s = u32 LE d (seg_header s + 0x1c)"

lemma group_resources_le: "group_resources d h i = Inr rs \<Longrightarrow> length rs \<le> 6"
  by (auto simp: group_resources_def Let_def split: if_splits)

lemma group_resources_eq:
  "group_resources d h i = Inr rs \<Longrightarrow> rs =
     (let group = h + 0x20 + i * 0x40 in
        map (\<lambda>item. (u32 LE d (group + item * 4), u32 LE d (group + 0x18 + item * 4), u16 LE d (group + 0x30 + item * 2)))
          [0..<u16 LE d (group + 0x3e)])"
  by (auto simp: group_resources_def Let_def split: if_splits)

lemma mapE_values:
  "mapE f xs = Inr ys \<Longrightarrow> (\<And>x y. x \<in> set xs \<Longrightarrow> f x = Inr y \<Longrightarrow> y = g x) \<Longrightarrow> ys = map g xs"
  by (induction xs arbitrary: ys) auto

lemma concat_le: "(\<And>x. x \<in> set xs \<Longrightarrow> length x \<le> k) \<Longrightarrow> length (concat xs) \<le> k * length xs"
proof (induction xs)
  case Nil
  then show ?case by simp
next
  case (Cons x xs)
  then have "length x \<le> k" "length (concat xs) \<le> k * length xs" by simp_all
  then show ?case by simp
qed

lemma decode_segment_ok:
  assumes "decode_segment commands d start header = Inr s"
  shows "segment_ok commands d s" and "fst (seg_range s) = start" and "start + 8 \<le> snd (seg_range s)"
    and "seg_header s = header" and "header + 0x20 + seg_groups s * 0x40 \<le> length d"
proof -
  let ?g = "u32 LE d (header + 0x1c)" let ?fin = "start + u32 LE commands (start + 4)"
  from assms obtain rss where rss: "mapE (group_resources d header) [0..<?g] = Inr rss"
    and n: "length (concat rss) = u32 LE d (header + 0x18)"
    and s: "s = \<lparr>seg_token = u64 LE d header, seg_range = (start, ?fin), seg_type = u32 LE commands start,
      seg_header = header, seg_field_10 = u32 LE d (header + 0x10), seg_field_14 = u32 LE d (header + 0x14),
      seg_groups = ?g, seg_resources = concat rss\<rparr>"
    and r: "8 \<le> u32 LE commands (start + 4)" "?fin \<le> length commands" "u32 LE d (header + 8) = start"
      "u32 LE d (header + 0x0c) = ?fin" "header + 0x20 + ?g * 0x40 \<le> length d"
    by (auto simp: decode_segment_def Let_def not_less split: if_splits)
  have "length (concat rss) \<le> 6 * length rss"
    using mapE_set [OF rss] group_resources_le by (intro concat_le) blast
  moreover have "length rss = ?g" using mapE_length [OF rss] by simp
  moreover have "rss = map (\<lambda>i. let group = header + 0x20 + i * 0x40 in
        map (\<lambda>item. (u32 LE d (group + item * 4), u32 LE d (group + 0x18 + item * 4), u16 LE d (group + 0x30 + item * 2)))
          [0..<u16 LE d (group + 0x3e)]) [0..<?g]"
    by (rule mapE_values [OF rss group_resources_eq])
  then have "concat rss = resources_at d header" by (simp add: resources_at_def)
  ultimately show "segment_ok commands d s" using r n by (simp add: segment_ok_def s)
  show "fst (seg_range s) = start" "start + 8 \<le> snd (seg_range s)" "seg_header s = header"
    "header + 0x20 + seg_groups s * 0x40 \<le> length d" using r by (simp_all add: s)
qed

lemma decode_segments_ok:
  assumes "decode_segments commands d n start cursor = Inr (segs, fin, stop)"
  shows "length segs = n \<and> list_all (segment_ok commands d) segs \<and> chained start (map seg_range segs) fin \<and>
    header_chain cursor segs stop"
  using assms
proof (induction n arbitrary: start cursor segs)
  case 0
  then show ?case by simp
next
  case (Suc n)
  then obtain s ss where s: "decode_segment commands d start cursor = Inr s" and segs: "segs = s # ss"
    and rest: "decode_segments commands d n (snd (seg_range s)) (cursor + 0x20 + seg_groups s * 0x40) = Inr (ss, fin, stop)"
    by auto
  from Suc.IH [OF rest] decode_segment_ok [OF s] segs show ?case by simp
qed

lemma decode_body_Inr:
  assumes "decode_body commands lb d leading trailing form ev = Inr r"
  obtains start cursor fin where "first_command commands leading = Inr start"
    and "decode_segments commands d (u32 LE lb 8) start 0x10 = Inr (dec_segments r, fin, cursor)"
    and "cursor = length d"
    and "(if trailing then bindE (check_trailing commands lb (u32 LE lb 0x0c) fin) (\<lambda>w. Inr (Some w)) else Inr None)
              = Inr (dec_wrapper r)"
    and "fin = (case dec_wrapper r of None \<Rightarrow> length commands | Some (_, wrapper_start, _) \<Rightarrow> wrapper_start)"
proof -
  from assms obtain start x where st: "first_command commands leading = Inr start"
    and x: "decode_segments commands d (u32 LE lb 8) start 0x10 = Inr x"
    and rest: "(case x of (segs, command_start, cursor) \<Rightarrow>
       if cursor \<noteq> length d then Inl (ValueError ''structured descriptor walk ends early'')
       else bindE (if trailing
            then bindE (check_trailing commands lb (u32 LE lb 0x0c) command_start) (\<lambda>w. Inr (Some w))
            else Inr None) (\<lambda>wrapper.
       if command_start \<noteq> (case wrapper of None \<Rightarrow> length commands | Some (_, wrapper_start, _) \<Rightarrow> wrapper_start)
       then Inl (ValueError ''decoded KCMD chain ends before the descriptor-backed end'')
       else Inr \<lparr>dec_events = ev, dec_form = form, dec_token = u64 LE lb 0,
            dec_encoded = u32 LE lb 0x0c, dec_segments = segs, dec_wrapper = wrapper,
            dec_gids = fst ` set (concat (map seg_resources segs))\<rparr>)) = Inr r"
    unfolding decode_body_def bindE_eq_Inr by blast
  obtain segs fin cursor where xx: "x = (segs, fin, cursor)" by (rule prod_cases3)
  from rest have c: "cursor = length d" unfolding xx prod.case by (rule contrapos_pp) simp
  with rest obtain w where w: "(if trailing
            then bindE (check_trailing commands lb (u32 LE lb 0x0c) fin) (\<lambda>w. Inr (Some w)) else Inr None) = Inr w"
    and r: "(if fin \<noteq> (case w of None \<Rightarrow> length commands | Some (_, wrapper_start, _) \<Rightarrow> wrapper_start)
       then Inl (ValueError ''decoded KCMD chain ends before the descriptor-backed end'')
       else Inr \<lparr>dec_events = ev, dec_form = form, dec_token = u64 LE lb 0,
            dec_encoded = u32 LE lb 0x0c, dec_segments = segs, dec_wrapper = w,
            dec_gids = fst ` set (concat (map seg_resources segs))\<rparr>) = Inr r"
    unfolding xx prod.case if_not_P [OF c [THEN not_not [THEN iffD2]]] bindE_eq_Inr by blast
  from r have f: "fin = (case w of None \<Rightarrow> length commands | Some (_, wrapper_start, _) \<Rightarrow> wrapper_start)"
    by (rule contrapos_pp) simp
  have "r = \<lparr>dec_events = ev, dec_form = form, dec_token = u64 LE lb 0,
            dec_encoded = u32 LE lb 0x0c, dec_segments = segs, dec_wrapper = w,
            dec_gids = fst ` set (concat (map seg_resources segs))\<rparr>"
    using r unfolding if_not_P [OF f [THEN not_not [THEN iffD2]]] by simp
  then have dw: "dec_wrapper r = w" and ds: "dec_segments r = segs" by simp_all
  show ?thesis by (rule that [OF st x [unfolded xx ds [symmetric]] c w [folded dw] f [folded dw]])
qed

lemma check_trailing_Inr:
  assumes "check_trailing commands lb n fin = Inr (g, a, b, t)"
  shows "g \<le> 4 \<and> a = fin \<and> b = length commands \<and> length commands - fin \<in> {0x18, 0x30}"
  using assms unfolding check_trailing_def Let_def if_Inl_eq_Inr by auto

lemma no_wrapper_iff: "(if t then bindE x (\<lambda>w. Inr (Some w)) else Inr None) = Inr None \<longleftrightarrow> \<not> t"
  by (cases x) auto

text \<open>
  C11: A capture is decoded only when its descriptors account for every byte of both streams, in order.
  The list, behind a leading wrapper if there is one, states how many descriptors it has, between 1 and
  1024, and how long they are: all of it, or all but a trailing wrapper of 24 bytes.  From offset
  16 of these bytes the descriptors follow each other without a gap to their end.  The decoded segments,
  one for each of them, form one chain of records of at least eight bytes, from the start of
  the (flattened) command stream, or from its sixteenth byte behind a leading wrapper, to its end or to a final
  trailing wrapper of one or two 24-byte records; each segment's range is both the one its descriptor
  states and the one its command header states; and its token and resources are those of
  the groups of its descriptor, as many as the descriptor says, six per group at most.
\<close>

theorem decode_capture_covers:
  assumes "decode_capture raw_commands raw_segments = Inr r"
    and "flatten_capture raw_commands raw_segments = Inr (commands, segments, chain)"
  shows "let list_bytes = (if leading_wrapper segments then drop 0x18 segments else segments);
      encoded = u32 LE list_bytes 0x0c; direct = (encoded = 0x80000000 OR length list_bytes);
      d = (if direct then list_bytes else take encoded list_bytes) in
    (direct \<or> encoded + 0x18 = length list_bytes) \<and>
    length (dec_segments r) = u32 LE list_bytes 8 \<and> 0 < length (dec_segments r) \<and> length (dec_segments r) \<le> 1024 \<and>
    list_all (segment_ok commands d) (dec_segments r) \<and> header_chain 0x10 (dec_segments r) (length d) \<and>
    chained (if leading_wrapper segments then 0x10 else 0) (map seg_range (dec_segments r))
      (case dec_wrapper r of None \<Rightarrow> length commands | Some (_, wrapper_start, _) \<Rightarrow> wrapper_start) \<and>
    (case dec_wrapper r of
       None \<Rightarrow> direct
     | Some (generation, wrapper_start, wrapper_end, _) \<Rightarrow> generation \<le> 4 \<and>
         wrapper_end = length commands \<and> length commands - wrapper_start \<in> {0x18, 0x30})"
proof -
  let ?lb = "if leading_wrapper segments then drop 0x18 segments else segments"
  let ?enc = "u32 LE ?lb 0x0c"
  let ?direct = "?enc = 0x80000000 OR length ?lb"
  let ?d = "if ?direct then ?lb else take ?enc ?lb"
  let ?trailing = "\<not> leading_wrapper segments \<and> ?enc \<ge> 0x20 \<and> ?enc + 0x18 = length ?lb"
  from assms obtain ev where "decode_list commands segments chain ev = Inr r"
    by (auto simp: decode_capture_def split: if_splits)
  then obtain form where n: "0 < u32 LE ?lb 8" "u32 LE ?lb 8 \<le> 1024" and dt: "?direct \<or> ?trailing"
    and b: "decode_body commands ?lb ?d (leading_wrapper segments) ?trailing form ev = Inr r"
    unfolding decode_list_def Let_def if_Inl_eq_Inr by (metis not_gr_zero not_le)
  from b obtain start cursor fin where
    st: "first_command commands (leading_wrapper segments) = Inr start"
    and dec: "decode_segments commands ?d (u32 LE ?lb 8) start 0x10 = Inr (dec_segments r, fin, cursor)"
    and cur: "cursor = length ?d"
    and w: "(if ?trailing then bindE (check_trailing commands ?lb ?enc fin) (\<lambda>w. Inr (Some w)) else Inr None)
              = Inr (dec_wrapper r)"
    and fin: "fin = (case dec_wrapper r of None \<Rightarrow> length commands | Some (_, wrapper_start, _) \<Rightarrow> wrapper_start)"
    by (rule decode_body_Inr)
  have start: "start = (if leading_wrapper segments then 0x10 else 0)"
    using st by (auto simp: first_command_def split: if_splits)
  have wrap: "case dec_wrapper r of None \<Rightarrow> ?direct
     | Some (generation, wrapper_start, wrapper_end, _) \<Rightarrow> generation \<le> 4 \<and>
         wrapper_end = length commands \<and> length commands - wrapper_start \<in> {0x18, 0x30}"
  proof (cases "dec_wrapper r")
    case None
    note w = w [unfolded None]
    with w have "\<not> ?trailing" unfolding no_wrapper_iff by simp
    with dt None show ?thesis by simp
  next
    case (Some x)
    with w have "check_trailing commands ?lb ?enc fin = Inr x" by (auto split: if_splits)
    moreover obtain g a b t where "x = (g, a, b, t)" by (rule prod_cases4)
    ultimately show ?thesis using check_trailing_Inr [of commands ?lb ?enc fin g a b t] by (simp add: Some)
  qed
  have "length (dec_segments r) = u32 LE ?lb 8" "list_all (segment_ok commands ?d) (dec_segments r)"
    "chained start (map seg_range (dec_segments r)) fin" "header_chain 0x10 (dec_segments r) (length ?d)"
    using decode_segments_ok [OF dec] unfolding cur by blast+
  moreover have "?direct \<or> ?enc + 0x18 = length ?lb" using dt by blast
  ultimately show ?thesis unfolding Let_def using n wrap unfolding fin [symmetric] start by metis
qed

subsection \<open>A flattened list is a direct list\<close>

definition good_entry :: "bytes \<Rightarrow> bytes \<Rightarrow> frag_entry \<Rightarrow> bool" where
  "good_entry commands segments e =
     (case e of (entry, len, start, fin) \<Rightarrow>
      entry + len \<le> length segments \<and> len = 0x20 + u32 LE segments (entry + 0x1c) * 0x40 \<and>
      (\<forall>v \<in> set (valid_counts segments entry (u32 LE segments (entry + 0x1c))). v \<le> 6) \<and>
      sum_list (valid_counts segments entry (u32 LE segments (entry + 0x1c))) = u32 LE segments (entry + 0x18) \<and>
      start < fin \<and> fin \<le> length commands \<and> start + 8 \<le> length commands \<and>
      u32 LE commands (start + 4) = fin - start)"

lemma frag_entry_step_good:
  assumes "frag_entry_step commands segments base n s = Inr (Some s')" and "base + n \<le> length segments"
    and "list_all (good_entry commands segments) (entries (snd s))"
  shows "list_all (good_entry commands segments) (entries (snd s'))"
proof -
  obtain cur st where s: "s = (cur, st)" by (cases s)
  show ?thesis
    using assms(1,2,3) unfolding s frag_entry_step_def Let_def prod.case
    by (auto simp: all_hold_True good_entry_def list_ex_iff not_less split: if_split_asm)
qed

lemma frag_entries_good:
  assumes "frag_entries commands segments base n count s = Inr (Some s')" and "base + n \<le> length segments"
    and "list_all (good_entry commands segments) (entries (snd s))"
  shows "list_all (good_entry commands segments) (entries (snd s'))"
  using assms(1,3)
proof (induction count arbitrary: s)
  case 0
  then show ?case by simp
next
  case (Suc count)
  then obtain t where t: "frag_entry_step commands segments base n s = Inr (Some t)"
    and rest: "frag_entries commands segments base n count t = Inr (Some s')"
    by (auto split: option.splits)
  show ?case by (rule Suc.IH [OF rest frag_entry_step_good [OF t assms(2) Suc.prems(2)]])
qed

lemma frag_step_good:
  assumes "frag_step commands segments token st = Inr (Some (b, st'))"
    and "list_all (good_entry commands segments) (entries st)"
  shows "list_all (good_entry commands segments) (entries st')"
  using assms frag_entries_good [where s = "(0x10, st)"]
  by (fastforce simp: frag_step_def Let_def bind_eq_Some_conv close_fragment_def frag_event_def split: if_split_asm)

lemma frag_loop_good:
  assumes "frag_loop commands segments token st = Inr (Some st')"
    and "list_all (good_entry commands segments) (entries st)"
  shows "list_all (good_entry commands segments) (entries st')"
  using assms
proof (induction commands segments token st rule: frag_loop.induct)
  case (1 commands segments token st)
  show ?case
  proof (cases "list_cursor st + 0x10 > length segments")
    case True
    with "1.prems" show ?thesis by (simp add: frag_loop.simps [of commands segments token st])
  next
    case False
    with "1.prems"(1) obtain terminal t where s: "frag_step commands segments token st = Inr (Some (terminal, t))"
      and rest: "if terminal then st' = t else frag_loop commands segments token t = Inr (Some st')"
      by (subst (asm) frag_loop.simps) (auto split: sum.split_asm option.split_asm if_split_asm)
    note g = frag_step_good [OF s "1.prems"(2)]
    show ?thesis
    proof (cases terminal)
      case True
      with rest g show ?thesis by simp
    next
      case nt: False
      then show ?thesis using "1.IH" [OF False s refl refl nt _ g] rest by simp
    qed
  qed
qed

lemma mapE_all: "(\<And>x. x \<in> set xs \<Longrightarrow> f x = Inr (g x)) \<Longrightarrow> mapE f xs = Inr (map g xs)"
  by (induction xs) auto

lemma fld_middle: "k + w \<le> length b \<Longrightarrow> fld e w (a @ b @ c) (length a + k) = fld e w b k"
  using slice_append_right [of a "b @ c" k w] by (simp add: fld_def slice_append_left)

lemma decode_entry:
  assumes "good_entry commands segments (entry, len, start, fin)" and "8 \<le> fin - start"
    and "length pc + (fin - start) < 2 ^ 32"
  defines "part \<equiv> put_pair (slice segments entry len) 8 (length pc) (length pc + (fin - start))"
  shows "\<exists>sg. decode_segment (pc @ slice commands start (fin - start) @ rc) (ps @ part @ rs) (length pc) (length ps) = Inr sg \<and>
      seg_range sg = (length pc, length pc + (fin - start)) \<and> 0x20 + seg_groups sg * 0x40 = len \<and>
      seg_resources sg = resources_at segments entry"
proof -
  let ?c = "pc @ slice commands start (fin - start) @ rc" let ?d = "ps @ part @ rs"
  let ?g = "u32 LE segments (entry + 0x1c)"
  from assms(1) have g: "entry + len \<le> length segments" "len = 0x20 + ?g * 0x40"
    "\<And>v. v \<in> set (valid_counts segments entry ?g) \<Longrightarrow> v \<le> 6"
    "sum_list (valid_counts segments entry ?g) = u32 LE segments (entry + 0x18)"
    "start < fin" "fin \<le> length commands" "u32 LE commands (start + 4) = fin - start"
    by (auto simp: good_entry_def)
  have lp: "length part = len" using g(1,2) by (simp add: part_def put_pair_spec(1))
  have f: "fld e w ?d (length ps + k) = fld e w segments (entry + k)" if "0x10 \<le> k" "k + w \<le> len" for e w k
  proof -
    have "fld e w ?d (length ps + k) = fld e w part k" by (rule fld_middle) (use that lp in simp)
    also have "\<dots> = fld e w (slice segments entry len) k"
      unfolding part_def by (rule fld_cong, rule put_pair_spec(2)) (use that g(1,2) in auto)
    also have "\<dots> = fld e w segments (entry + k)" by (rule fld_slice [OF that(2)])
    finally show ?thesis .
  qed
  have range: "u32 LE ?d (length ps + 8) = length pc" "u32 LE ?d (length ps + 12) = length pc + (fin - start)"
    using fld_middle [of 8 4 part LE ps rs] fld_middle [of 12 4 part LE ps rs] lp g(1,2) assms(3)
      put_pair_spec(3,4) [of 8 "slice segments entry len"] by (simp_all add: part_def)
  have head: "u32 LE ?c (length pc + 4) = fin - start" "length pc + 8 \<le> length ?c"
    using fld_middle [of 4 4 "slice commands start (fin - start)" LE pc rc] fld_slice [of 4 4 "fin - start" LE commands start]
      g(5-7) assms(2) by simp_all
  let ?rs = "\<lambda>i. let group = entry + 0x20 + i * 0x40 in
        map (\<lambda>item. (u32 LE segments (group + item * 4), u32 LE segments (group + 0x18 + item * 4), u16 LE segments (group + 0x30 + item * 2)))
          [0..<u16 LE segments (group + 0x3e)]"
  have gr: "group_resources ?d (length ps) i = Inr (?rs i)" if i: "i < ?g" for i
  proof -
    have le: "0x20 + i * 0x40 + 0x40 \<le> len" using i g(2) by simp
    have count: "u16 LE segments (entry + 0x20 + i * 0x40 + 0x3e) \<le> 6"
      by (rule g(3)) (use i in \<open>auto simp: valid_counts_def\<close>)
    have fg: "fld LE w ?d (length ps + 0x20 + i * 0x40 + k) = fld LE w segments (entry + 0x20 + i * 0x40 + k)"
      if "k + w \<le> 0x40" for w k
      using f [of "0x20 + i * 0x40 + k" w LE] that le by (simp add: add.assoc)
    have "(u32 LE ?d (length ps + 0x20 + i * 0x40 + item * 4), u32 LE ?d (length ps + 0x20 + i * 0x40 + 0x18 + item * 4),
        u16 LE ?d (length ps + 0x20 + i * 0x40 + 0x30 + item * 2)) =
      (u32 LE segments (entry + 0x20 + i * 0x40 + item * 4), u32 LE segments (entry + 0x20 + i * 0x40 + 0x18 + item * 4),
        u16 LE segments (entry + 0x20 + i * 0x40 + 0x30 + item * 2))" if "item < 6" for item
      using fg [of "item * 4" 4] fg [of "0x18 + item * 4" 4] fg [of "0x30 + item * 2" 2] that by (simp add: add.assoc)
    then show ?thesis
      using fg [of "0x3e" 2] count by (auto simp: group_resources_def Let_def)
  qed
  have m: "mapE (group_resources ?d (length ps)) [0..<?g] = Inr (map ?rs [0..<?g])"
    using gr by (intro mapE_all) simp
  have "length (concat (map ?rs [0..<?g])) = sum_list (valid_counts segments entry ?g)"
    by (simp add: length_concat valid_counts_def Let_def comp_def)
  then have tot: "length (concat (map ?rs [0..<?g])) = u32 LE ?d (length ps + 0x18)"
    using g(2,4) f [of "0x18" 4 LE] by simp
  have gg: "u32 LE ?d (length ps + 0x1c) = ?g" using f [of "0x1c" 4 LE] g(2) by simp
  have room: "length ps + 0x20 + ?g * 0x40 \<le> length ?d" using lp g(2) by simp
  then have mx: "?g \<le> (length ?d - length ps - 0x20) div 0x40" by (simp add: less_eq_div_iff_mult_less_eq)
  have "decode_segment ?c ?d (length pc) (length ps) = Inr \<lparr>seg_token = u64 LE ?d (length ps),
      seg_range = (length pc, length pc + (fin - start)), seg_type = u32 LE ?c (length pc), seg_header = length ps,
      seg_field_10 = u32 LE ?d (length ps + 0x10), seg_field_14 = u32 LE ?d (length ps + 0x14),
      seg_groups = ?g, seg_resources = concat (map ?rs [0..<?g])\<rparr>"
    unfolding decode_segment_def Let_def gg m bindE_simps head(1) range
    using head(2) assms(2) g(5,6) mx room tot by simp
  then show ?thesis using g(2) by (simp add: resources_at_def)
qed

definition entry_commands :: "bytes \<Rightarrow> frag_entry \<Rightarrow> bytes" where
  "entry_commands commands e = (case e of (_, _, start, fin) \<Rightarrow> slice commands start (fin - start))"

definition decodes_to :: "bytes \<Rightarrow> bytes \<Rightarrow> bytes \<Rightarrow> frag_entry \<Rightarrow> agx_segment \<Rightarrow> bool" where
  "decodes_to commands segments c e sg \<longleftrightarrow>
     seg_resources sg = resources_at segments (fst e) \<and>
     slice c (fst (seg_range sg)) (snd (seg_range sg) - fst (seg_range sg)) = entry_commands commands e"

lemma direct_entry_eq:
  "direct_entry segments ((entry, len, x), (a, b)) = pack_pair (slice segments entry len) 8 a b"
  by (cases x) (simp add: direct_entry_def)

lemma decode_flat:
  assumes "list_all (good_entry commands segments) es"
    and "list_all (\<lambda>(_, _, start, fin). 8 \<le> fin - start) es"
    and "mapE (direct_entry segments) (zip es (rewritten_ranges (length pc) es)) = Inr parts"
  shows "\<exists>sgs. decode_segments (pc @ concat (map (entry_commands commands) es)) (ps @ concat parts) (length es) (length pc) (length ps) =
        Inr (sgs, length (pc @ concat (map (entry_commands commands) es)), length (ps @ concat parts)) \<and>
      list_all2 (decodes_to commands segments (pc @ concat (map (entry_commands commands) es))) es sgs"
  using assms
proof (induction es arbitrary: pc ps parts)
  case Nil
  then show ?case by simp
next
  case (Cons e es)
  obtain entry len start fin where e: "e = (entry, len, start, fin)" by (cases e)
  let ?n = "fin - start" let ?cs = "slice commands start ?n"
  let ?part = "put_pair (slice segments entry len) 8 (length pc) (length pc + ?n)"
  from Cons.prems e obtain ps' where b: "length pc + ?n < 2 ^ 32" and parts: "parts = ?part # ps'"
    and rest: "mapE (direct_entry segments) (zip es (rewritten_ranges (length pc + ?n) es)) = Inr ps'"
    and good: "good_entry commands segments (entry, len, start, fin)" and n: "8 \<le> ?n"
    by (auto simp: direct_entry_eq)
  have lcs: "length ?cs = ?n" using good by (simp add: good_entry_def)
  have lp: "length ?part = len" using good by (simp add: good_entry_def put_pair_spec(1))
  obtain sg where sg: "decode_segment (pc @ ?cs @ concat (map (entry_commands commands) es)) (ps @ ?part @ concat ps')
        (length pc) (length ps) = Inr sg"
    and r: "seg_range sg = (length pc, length pc + ?n)" "0x20 + seg_groups sg * 0x40 = len"
      "seg_resources sg = resources_at segments entry"
    using decode_entry [OF good n b] by blast
  have "\<exists>sgs. decode_segments ((pc @ ?cs) @ concat (map (entry_commands commands) es)) ((ps @ ?part) @ concat ps') (length es)
        (length (pc @ ?cs)) (length (ps @ ?part)) =
      Inr (sgs, length ((pc @ ?cs) @ concat (map (entry_commands commands) es)), length ((ps @ ?part) @ concat ps')) \<and>
      list_all2 (decodes_to commands segments ((pc @ ?cs) @ concat (map (entry_commands commands) es))) es sgs"
    by (rule Cons.IH) (use Cons.prems rest lcs in simp_all)
  then obtain sgs where sgs: "decode_segments (pc @ ?cs @ concat (map (entry_commands commands) es)) (ps @ ?part @ concat ps') (length es)
        (length pc + ?n) (length ps + len) =
      Inr (sgs, length (pc @ ?cs @ concat (map (entry_commands commands) es)), length (ps @ ?part @ concat ps'))"
    and all: "list_all2 (decodes_to commands segments (pc @ ?cs @ concat (map (entry_commands commands) es))) es sgs"
    by (auto simp: lcs lp)
  have "slice (pc @ ?cs @ concat (map (entry_commands commands) es)) (length pc) ?n = ?cs"
    using lcs by (simp add: slice_def)
  with r all have "list_all2 (decodes_to commands segments (pc @ ?cs @ concat (map (entry_commands commands) es))) (e # es) (sg # sgs)"
    by (simp add: decodes_to_def e entry_commands_def [of _ "(entry, len, start, fin)"])
  moreover have "entry_commands commands e = ?cs" by (simp add: e entry_commands_def)
  moreover have cur: "length ps + 32 + seg_groups sg * 64 = length ps + len" using r(2) by simp
  ultimately show ?case
    using sg sgs [folded cur] r(1) by (intro exI [of _ "sg # sgs"]) (simp add: parts)
qed

text \<open>And only then: a record shorter than its header is refused.\<close>

lemma decode_entry_span:
  assumes "good_entry commands segments (entry, len, start, fin)" and "length pc + (fin - start) < 2 ^ 32"
    and "decode_segment c (ps @ put_pair (slice segments entry len) 8 (length pc) (length pc + (fin - start)) @ rs)
           (length pc) (length ps) = Inr sg"
  shows "8 \<le> fin - start"
proof -
  let ?part = "put_pair (slice segments entry len) 8 (length pc) (length pc + (fin - start))"
  let ?d = "ps @ ?part @ rs"
  have l: "0x20 \<le> len" "entry + len \<le> length segments" using assms(1) by (auto simp: good_entry_def)
  then have lp: "length ?part = len" by (simp add: put_pair_spec(1))
  have "u32 LE ?d (length ps + 12) = length pc + (fin - start)"
    using fld_middle [of 12 4 ?part LE ps rs] lp l assms(2) put_pair_spec(4) [of 8 "slice segments entry len"] by simp
  moreover have "length pc + 8 \<le> u32 LE ?d (length ps + 12)"
    using decode_segment_ok [OF assms(3)] unfolding segment_ok_def by fastforce
  ultimately show ?thesis by simp
qed

lemma decode_flat_spans:
  assumes "list_all (good_entry commands segments) es"
    and "mapE (direct_entry segments) (zip es (rewritten_ranges (length pc) es)) = Inr parts"
    and "decode_segments (pc @ concat (map (entry_commands commands) es)) (ps @ concat parts) (length es) (length pc) (length ps) = Inr x"
  shows "list_all (\<lambda>(_, _, start, fin). 8 \<le> fin - start) es"
  using assms
proof (induction es arbitrary: pc ps parts x)
  case Nil
  then show ?case by simp
next
  case (Cons e es)
  obtain entry len start fin where e: "e = (entry, len, start, fin)" by (cases e)
  let ?n = "fin - start" let ?cs = "slice commands start ?n"
  let ?part = "put_pair (slice segments entry len) 8 (length pc) (length pc + ?n)"
  from Cons.prems(1,2) e obtain ps' where b: "length pc + ?n < 2 ^ 32" and parts: "parts = ?part # ps'"
    and rest: "mapE (direct_entry segments) (zip es (rewritten_ranges (length pc + ?n) es)) = Inr ps'"
    and good: "good_entry commands segments (entry, len, start, fin)"
    by (auto simp: direct_entry_eq)
  have lcs: "length ?cs = ?n" using good by (simp add: good_entry_def)
  have lp: "length ?part = len" using good by (simp add: good_entry_def put_pair_spec(1))
  have ec: "entry_commands commands e = ?cs" by (simp add: e entry_commands_def)
  from Cons.prems(3) obtain sg y where
    sg: "decode_segment (pc @ ?cs @ concat (map (entry_commands commands) es)) (ps @ ?part @ concat ps') (length pc) (length ps) = Inr sg"
    and y: "decode_segments (pc @ ?cs @ concat (map (entry_commands commands) es)) (ps @ ?part @ concat ps') (length es)
       (snd (seg_range sg)) (length ps + 0x20 + seg_groups sg * 0x40) = Inr y"
    by (auto simp: parts ec)
  have n: "8 \<le> ?n" by (rule decode_entry_span [OF good b sg])
  from decode_entry [OF good n b, of "concat (map (entry_commands commands) es)" ps "concat ps'"] sg
  have r: "snd (seg_range sg) = length (pc @ ?cs)" "length ps + 0x20 + seg_groups sg * 0x40 = length (ps @ ?part)"
    by (auto simp: lcs lp)
  have "list_all (\<lambda>(_, _, start, fin). 8 \<le> fin - start) es"
  proof (rule Cons.IH)
    show "mapE (direct_entry segments) (zip es (rewritten_ranges (length (pc @ ?cs)) es)) = Inr ps'" using rest lcs by simp
    show "decode_segments ((pc @ ?cs) @ concat (map (entry_commands commands) es)) ((ps @ ?part) @ concat ps') (length es)
      (length (pc @ ?cs)) (length (ps @ ?part)) = Inr y" using y unfolding r append_assoc .
  qed (use Cons.prems(1) in simp)
  with n show ?case by (simp add: e)
qed

lemma or_high: "0x80000000 OR n \<noteq> (0x40000001 :: nat)"
proof
  assume a: "0x80000000 OR n = (0x40000001 :: nat)"
  have "bit (0x80000000 :: nat) 31" by (simp add: bit_iff_odd)
  then have "bit (0x80000000 OR n) 31" unfolding bit_or_iff by blast
  then show False unfolding a by (simp add: bit_iff_odd)
qed

lemma or_nat_ge: "m \<le> n OR (m :: nat)"
proof -
  have "int m \<le> int n OR int m" using OR_lower [of "int n" "int m"] or_greater_eq [of "int n" "int m"]
    by (metis of_nat_0_le_iff or.commute or_greater_eq)
  also have "\<dots> = int (n OR m)" by (simp add: of_nat_or_eq)
  finally show ?thesis by simp
qed

text \<open>The records the strict decoder takes: at most 1024, none shorter than its own header.\<close>

definition accepted_records :: "frag_entry list \<Rightarrow> bool" where
  "accepted_records es \<longleftrightarrow> length es \<le> 1024 \<and> list_all (\<lambda>(_, _, start, fin). 8 \<le> fin - start) es"

text \<open>
  C12: Flattening a fragmented capture is faithful.  The strict decoder accepts the two streams it
  produces if and only if they name at most 1024 records, none shorter than the eight bytes of a record
  header (the flattening itself checks neither); and whenever it accepts them, the walk ends exactly at
  the end of both, without a wrapper, and the segments are, in order, the entries the fragments
  listed, each with the resources its entry had and with exactly the command bytes its original range had.
\<close>

theorem flatten_fragmented_decodes:
  assumes "frag_loop commands segments (u64 LE segments 0)
      \<lparr>list_cursor = 0, command_cursor = 0, entries = [], fragment_count = 0, signal_count = 0\<rparr> = Inr (Some st)"
    and "flatten_fragmented commands segments = Inr (Some (c, s))"
  shows "((\<exists>r. decode_list c s (Some Fragmented_List) events = Inr r) \<longleftrightarrow> accepted_records (entries st)) \<and>
    (\<forall>r. decode_list c s (Some Fragmented_List) events = Inr r \<longrightarrow> dec_form r = Fragmented_List \<and>
      dec_wrapper r = None \<and> list_all2 (decodes_to commands segments c) (entries st) (dec_segments r))"
proof -
  let ?es = "entries st" let ?p0 = "take 0x10 segments"
  have c: "map (\<lambda>(_, _, start, fin). slice commands start (fin - start)) ?es = map (entry_commands commands) ?es"
    by (simp add: entry_commands_def)
  from assms(1,2) obtain parts where parts: "mapE (direct_entry segments) (zip ?es (rewritten_ranges 0 ?es)) = Inr parts"
    and cc: "c = concat (map (entry_commands commands) ?es)" and l0: "0x60 \<le> length segments"
    and b: "length ?es < 2 ^ 32" "0x80000000 OR (length ?p0 + length (concat parts)) < 2 ^ 32"
    and s: "s = put LE 4 (put LE 4 (?p0 @ concat parts) 8 (length ?es)) 12 (0x80000000 OR (length ?p0 + length (concat parts)))"
    and ne: "1 \<le> length ?es"
    by (auto simp: flatten_fragmented_def Let_def c not_less min_def split: if_split_asm)
  have l: "length ?p0 = 0x10" "length s = 0x10 + length (concat parts)" using l0 by (simp_all add: s)
  define ps where "ps = take 0x10 s"
  have "slice s 0x10 (length (concat parts)) = slice (?p0 @ concat parts) 0x10 (length (concat parts))"
    unfolding s using l0 by (simp add: slice_put)
  then have "drop 0x10 s = concat parts" using l l0 by (simp add: slice_def)
  then have sp: "s = ps @ concat parts" "length ps = 0x10" unfolding ps_def
    using l(2) by (metis append_take_drop_id, simp)
  have good: "list_all (good_entry commands segments) ?es" using frag_loop_good [OF assms(1)] by simp
  have flat: "\<exists>sgs. decode_segments c s (length ?es) 0 0x10 = Inr (sgs, length c, length s) \<and>
      list_all2 (decodes_to commands segments c) ?es sgs" if "list_all (\<lambda>(_, _, start, fin). 8 \<le> fin - start) ?es"
    using decode_flat [OF good that, of "[]" parts ps] parts unfolding cc sp(1) using sp(2) by auto
  have spans: "list_all (\<lambda>(_, _, start, fin). 8 \<le> fin - start) ?es" if "decode_segments c s (length ?es) 0 0x10 = Inr x" for x
    by (rule decode_flat_spans [OF good, of "[]" parts ps x]) (use parts that sp in \<open>simp_all add: cc\<close>)
  have f8: "u32 LE s 8 = length ?es" unfolding s using b l0 by (simp add: fld_put_other fld_put)
  have f12: "u32 LE s 12 = 0x80000000 OR length s"
    using l b(2) l0 unfolding l(2) unfolding s l(1) by (subst fld_put) simp_all
  have nl: "\<not> leading_wrapper s" using f12 or_high by (simp add: leading_wrapper_def)
  have "\<not> (u32 LE s 12 + 0x18 = length s)"
  proof
    assume "u32 LE s 12 + 0x18 = length s"
    moreover have "length s \<le> 0x80000000 OR length s" by (metis f12 or_nat_ge)
    ultimately show False using f12 by simp
  qed
  moreover have "?es \<noteq> []" using ne by auto
  ultimately have "decode_list c s (Some Fragmented_List) events = (if 1024 < length ?es
      then Inl (ValueError ''implausible segment count'') else decode_body c s s False False Fragmented_List events)"
    using nl f8 f12 by (simp add: decode_list_def Let_def form_name_def)
  moreover have "decode_body c s s False False Fragmented_List events = Inr r \<Longrightarrow> \<exists>x. decode_segments c s (length ?es) 0 0x10 = Inr x" for r
    by (auto simp: decode_body_def first_command_def f8)
  moreover have "\<exists>r. decode_body c s s False False Fragmented_List events = Inr r \<and> dec_form r = Fragmented_List \<and>
      dec_wrapper r = None \<and> list_all2 (decodes_to commands segments c) ?es (dec_segments r)"
    if "list_all (\<lambda>(_, _, start, fin). 8 \<le> fin - start) ?es"
    using flat [OF that] f8 by (auto simp: decode_body_def first_command_def)
  ultimately show ?thesis using spans unfolding accepted_records_def
    by (metis Inl_Inr_False linorder_not_le sum.inject(2))
qed

subsection \<open>Concrete captures\<close>

text \<open>One record and its descriptor, without resources; then the same between two events.\<close>

definition sample_kcmd :: bytes where
  "sample_kcmd = enc LE 4 0x10000 @ enc LE 4 0x10 @ enc LE 8 0"

definition sample_list :: bytes where
  "sample_list = enc LE 8 7 @ enc LE 4 1 @ enc LE 4 0x80000030 @
     enc LE 8 9 @ enc LE 4 0 @ enc LE 4 0x10 @ enc LE 8 0 @ enc LE 4 0 @ enc LE 4 0"

lemma sample_list_facts:
  "u32 LE sample_list 0 = 7" "u32 LE sample_list 8 = 1" "u32 LE sample_list 12 = 0x80000030"
  "u32 LE sample_list 24 = 0" "u32 LE sample_list 28 = 16" "u32 LE sample_list 40 = 0" "u32 LE sample_list 44 = 0"
  "length sample_list = 48" "u32 LE sample_kcmd 4 = 16" "length sample_kcmd = 16"
  by code_simp+

lemma sample_or: "0x80000000 OR 48 = (0x80000030 :: nat)" "0x80000000 OR (48 + 0) = (0x80000030 :: nat)"
  by code_simp+

lemma sample_flat: "flatten_capture sample_kcmd sample_list = Inr (sample_kcmd, sample_list, None)"
  by (simp add: flatten_capture_def flatten_fragmented_def flatten_type5_def type5_lengths_def sample_list_facts)

lemma sample_decoded: "\<exists>r. decode_capture sample_kcmd sample_list = Inr r"
  by (simp add: decode_capture_def sample_flat sample_list_facts decode_list_def leading_wrapper_def decode_body_def
      first_command_def decode_segment_def sample_or)

theorem decode_capture_covers_witness:
  "\<exists>r. decode_capture sample_kcmd sample_list = Inr r \<and> 0 < length (dec_segments r)"
proof -
  obtain r where r: "decode_capture sample_kcmd sample_list = Inr r" using sample_decoded by blast
  from decode_capture_covers [OF r sample_flat] r show ?thesis unfolding Let_def by blast
qed

definition sample_event :: bytes where
  "sample_event = enc LE 4 3 @ enc LE 4 0x18 @ enc LE 4 1 @ enc LE 4 0 @ enc LE 8 5"

definition sample_frag_kcmd :: bytes where
  "sample_frag_kcmd = sample_event @ enc LE 4 0x10000 @ enc LE 4 0xd0 @ replicate 0xc8 0 @ sample_event"

definition sample_frag_list :: bytes where
  "sample_frag_list =
     enc LE 8 7 @ enc LE 4 1 @ enc LE 4 0x40000001 @ enc LE 4 0 @ enc LE 4 0x18 @
     enc LE 8 7 @ enc LE 4 1 @ enc LE 4 0x30 @
       enc LE 8 9 @ enc LE 4 0x18 @ enc LE 4 0xe8 @ enc LE 8 0 @ enc LE 4 0 @ enc LE 4 0 @
     enc LE 8 7 @ enc LE 4 1 @ enc LE 4 0xc0000001 @ enc LE 4 0xe8 @ enc LE 4 0x100"

lemma sample_frag_facts:
  "length sample_frag_kcmd = 256" "length sample_frag_list = 96"
  "u64 LE sample_frag_list 0 = 7" "u32 LE sample_frag_list 8 = 1" "u32 LE sample_frag_list 12 = 0x40000001"
  "u32 LE sample_frag_list 16 = 0" "u32 LE sample_frag_list 20 = 24"
  "u64 LE sample_frag_list 24 = 7" "u32 LE sample_frag_list 32 = 1" "u32 LE sample_frag_list 36 = 48"
  "u32 LE sample_frag_list 48 = 24" "u32 LE sample_frag_list 52 = 232"
  "u32 LE sample_frag_list 64 = 0" "u32 LE sample_frag_list 68 = 0"
  "u64 LE sample_frag_list 72 = 7" "u32 LE sample_frag_list 80 = 1" "u32 LE sample_frag_list 84 = 0xc0000001"
  "u32 LE sample_frag_list 88 = 232" "u32 LE sample_frag_list 92 = 256"
  "event_ok sample_frag_kcmd 0" "event_ok sample_frag_kcmd 232"
  "u32 LE sample_frag_kcmd 24 = 0x10000" "u32 LE sample_frag_kcmd 28 = 208"
  by code_simp+

definition sample_frag_end :: frag_state where
  "sample_frag_end = \<lparr>list_cursor = 96, command_cursor = 256, entries = [(40, 32, 24, 232)],
     fragment_count = 1, signal_count = 2\<rparr>"

lemma sample_frag_loop:
  "frag_loop sample_frag_kcmd sample_frag_list (u64 LE sample_frag_list 0)
     \<lparr>list_cursor = 0, command_cursor = 0, entries = [], fragment_count = 0, signal_count = 0\<rparr> = Inr (Some sample_frag_end)"
proof -
  have "frag_step sample_frag_kcmd sample_frag_list 7
     \<lparr>list_cursor = 0, command_cursor = 0, entries = [], fragment_count = 0, signal_count = 0\<rparr> =
     Inr (Some (False, \<lparr>list_cursor = 24, command_cursor = 24, entries = [], fragment_count = 0, signal_count = 1\<rparr>))"
    by (simp add: frag_step_def frag_event_def sample_frag_facts)
  moreover have "frag_step sample_frag_kcmd sample_frag_list 7
     \<lparr>list_cursor = 24, command_cursor = 24, entries = [], fragment_count = 0, signal_count = 1\<rparr> =
     Inr (Some (False, \<lparr>list_cursor = 72, command_cursor = 232, entries = [(40, 32, 24, 232)], fragment_count = 1, signal_count = 1\<rparr>))"
    by (simp add: frag_step_def frag_entry_step_def valid_counts_def is32_def unpack_from_def close_fragment_def sample_frag_facts)
  moreover have "frag_step sample_frag_kcmd sample_frag_list 7
     \<lparr>list_cursor = 72, command_cursor = 232, entries = [(40, 32, 24, 232)], fragment_count = 1, signal_count = 1\<rparr> =
     Inr (Some (False, sample_frag_end))"
    by (simp add: frag_step_def frag_event_def sample_frag_facts sample_frag_end_def)
  ultimately show ?thesis
    by (simp add: frag_loop.simps sample_frag_facts) (simp add: sample_frag_end_def)
qed

lemma sample_frag_flat: "\<exists>c s. flatten_fragmented sample_frag_kcmd sample_frag_list = Inr (Some (c, s))"
proof -
  have "0x80000000 OR 48 < (2 ^ 32 :: nat)" by (simp add: sample_or)
  then show ?thesis
    using sample_frag_loop
    by (simp add: flatten_fragmented_def sample_frag_facts(1,2) sample_frag_end_def direct_entry_eq put_pair_spec(1)
        length_slice sample_or)
qed

theorem flatten_fragmented_decodes_witness:
  "\<exists>c s r. flatten_fragmented sample_frag_kcmd sample_frag_list = Inr (Some (c, s)) \<and>
     decode_list c s (Some Fragmented_List) [] = Inr r \<and>
     list_all2 (decodes_to sample_frag_kcmd sample_frag_list c) [(40, 32, 24, 232)] (dec_segments r)"
proof -
  obtain c s where f: "flatten_fragmented sample_frag_kcmd sample_frag_list = Inr (Some (c, s))"
    using sample_frag_flat by blast
  have "accepted_records (entries sample_frag_end)" by (simp add: accepted_records_def sample_frag_end_def)
  with flatten_fragmented_decodes [OF sample_frag_loop f, of "[]"] obtain r where
    r: "decode_list c s (Some Fragmented_List) [] = Inr r" by blast
  with flatten_fragmented_decodes [OF sample_frag_loop f, of "[]"] f show ?thesis
    by (auto simp: sample_frag_end_def)
qed

end
