(* ===== verification/MetalLib.thy ===== *)
theory MetalLib
  imports FatSlices
begin

text \<open>
  \<^verbatim>\<open>misc/repack_metallib_macabi.py\<close>: the MTLB container.  Function records and header extension
  tags are parsed strictly; every module is hashed, converted and laid out again; the header
  and the offsets of the trailing sections are rebuilt; and the result is parsed and hashed
  once more.  SHA-256 and the LLVM round trip of one module are parameters.
\<close>

subsection \<open>Targets\<close>

definition MACOS_PLATFORM :: nat where "MACOS_PLATFORM = 0x8001"
definition IOS_PLATFORM :: nat where "IOS_PLATFORM = 0x0001"
definition MACOS_TARGET_OS :: nat where "MACOS_TARGET_OS = 0x81"
definition IOS_TARGET_OS :: nat where "IOS_TARGET_OS = 0x82"
definition MACABI_TARGET_OS :: nat where "MACABI_TARGET_OS = 0x86"
definition MTLB_HEADER_SIZE :: nat where "MTLB_HEADER_SIZE = 88"

definition OFFSET_SECTION_TAGS :: "string list" where
  "OFFSET_SECTION_TAGS = [''HDYN'', ''VLST'', ''ILST'', ''HSRD'', ''HSRC'', ''RLST'']"

definition container_targets :: "string \<Rightarrow> (nat \<times> nat) option" where
  "container_targets target =
     (if target = ''macabi'' then Some (MACOS_PLATFORM, MACABI_TARGET_OS)
      else if target = ''ios'' then Some (IOS_PLATFORM, IOS_TARGET_OS)
      else if target = ''macos'' then Some (MACOS_PLATFORM, MACOS_TARGET_OS)
      else None)"

text \<open>
  The regular expressions of a target triple.  A step consumes a prefix of the text and
  returns the rest; every choice is decided by the next character, so the greedy choice is
  the only one that can match.
\<close>

definition is_digit :: "char \<Rightarrow> bool" where
  "is_digit c \<longleftrightarrow> (let n = (of_char c :: nat) in 48 \<le> n \<and> n \<le> 57)"

definition lit :: "string \<Rightarrow> string \<Rightarrow> string option" where
  "lit p s = (if starts p s then Some (drop (length p) s) else None)"

definition digits :: "string \<Rightarrow> string option" where
  "digits s = (case s of [] \<Rightarrow> None | c # _ \<Rightarrow> if is_digit c then Some (dropWhile is_digit s) else None)"

definition maybe :: "(string \<Rightarrow> string option) \<Rightarrow> string \<Rightarrow> string" where
  "maybe f s = (case f s of None \<Rightarrow> s | Some t \<Rightarrow> t)"

definition dotted :: "string \<Rightarrow> string option" where
  "dotted s = Option.bind (lit ''.'' s) digits"

definition air_prefix :: "string \<Rightarrow> string option" where
  "air_prefix s =
     Option.bind (lit ''air64'' s) (\<lambda>s. lit ''-apple-'' (maybe (\<lambda>s. Option.bind (lit ''_v'' s) digits) s))"

definition version_numbers :: "string \<Rightarrow> string option" where
  "version_numbers s = map_option (\<lambda>s. maybe dotted (maybe dotted s)) (digits s)"

definition target_triple_matches_container :: "string \<Rightarrow> string \<Rightarrow> bool" where
  "target_triple_matches_container triple target =
     (let after = (\<lambda>os. Option.bind (Option.bind (air_prefix triple) (lit os)) version_numbers) in
      if target = ''macabi'' then after ''ios'' = Some ''-macabi''
      else if target = ''ios'' then after ''ios'' = Some ''''
      else if target = ''macos'' then after ''macosx'' = Some ''''
      else False)"

text \<open>\<open>AIR_TARGET_BYTES\<close> at one place: the text after the match.\<close>

definition air_target :: "string \<Rightarrow> string option" where
  "air_target s =
     Option.bind (air_prefix s) (\<lambda>s.
     Option.bind (case lit ''ios'' s of Some t \<Rightarrow> Some t | None \<Rightarrow> lit ''macosx'' s) (\<lambda>s.
     map_option (maybe (lit ''-macabi'')) (version_numbers s)))"

definition text_of :: "bytes \<Rightarrow> string" where
  "text_of bs = map (char_of \<circ> unat) bs"

text \<open>\<open>finditer\<close>: the start and end of the matches, left to right, without overlap.\<close>

fun air_matches :: "nat \<Rightarrow> nat \<Rightarrow> string \<Rightarrow> (nat \<times> nat) list" where
  "air_matches i skip [] = []"
| "air_matches i (Suc skip) (c # s) = air_matches (Suc i) skip s"
| "air_matches i 0 (c # s) =
     (case air_target (c # s) of
        Some rest \<Rightarrow> (let len = length (c # s) - length rest in (i, i + len) # air_matches (Suc i) (len - 1) s)
      | None \<Rightarrow> air_matches (Suc i) 0 s)"

definition retarget_air_in_place :: "bytes \<Rightarrow> string \<Rightarrow> bytes result" where
  "retarget_air_in_place module triple =
     (case air_matches 0 0 (text_of module) of
        [(a, b)] \<Rightarrow>
          (if \<not> list_all (\<lambda>x. x < 0x80) (encode_str triple) then Inl UnicodeError
           else if length (encode_str triple) \<noteq> b - a then Inl (ValueError ''in-place AIR target must remain bytes'')
           else Inr (splice module a (encode_str triple)))
      | _ \<Rightarrow> Inl (ValueError ''expected exactly one AIR target triple''))"

subsection \<open>Function records\<close>

text \<open>\<open>decode('ascii')\<close>\<close>

definition decode_ascii :: "bytes \<Rightarrow> string result" where
  "decode_ascii bs = (if list_all (\<lambda>b. b < 0x80) bs then Inr (text_of bs) else Inl UnicodeError)"

type_synonym tag = "string \<times> nat \<times> nat"

text \<open>The tags of one group up to its \<open>ENDT\<close>: the cursor after it and the tags in order.\<close>

function group_tags :: "bytes \<Rightarrow> nat \<Rightarrow> tag list \<Rightarrow> (nat \<times> tag list) result" where
  "group_tags d cursor tags =
     (case decode_ascii (slice d cursor 4) of
        Inl _ \<Rightarrow> Inl (ValueError ''invalid tag name'')
      | Inr name \<Rightarrow>
        if name = ''ENDT'' then Inr (cursor + 4, tags)
        else if cursor + 6 > length d then Inl StructError
        else
        let sz = u16 LE d (cursor + 4) in
        if name \<in> set (map fst tags) then Inl (ValueError ''duplicate tag'')
        else group_tags d (cursor + 6 + sz) (tags @ [(name, cursor + 6, sz)]))"
  by pat_completeness auto
termination
  by (relation "measure (\<lambda>(d, cursor, tags). length d - cursor)") auto

declare group_tags.simps [simp del]

record function_record =
  frec_index :: nat
  frec_name :: string
  frec_tags :: "tag list"
  frec_type :: "nat option"
  frec_versions :: "(nat \<times> nat \<times> nat \<times> nat) option"
  frec_offset :: nat
  frec_size :: nat

definition tag_at :: "tag list \<Rightarrow> string \<Rightarrow> nat" where
  "tag_at tags name = (case map_of tags name of None \<Rightarrow> 0 | Some (offset, _) \<Rightarrow> offset)"

definition tag_ok :: "tag list \<Rightarrow> string \<Rightarrow> nat \<Rightarrow> bool" where
  "tag_ok tags name sz = (case map_of tags name of None \<Rightarrow> True | Some (_, n) \<Rightarrow> n = sz)"

text \<open>One group: its record and the cursor after it.\<close>

definition read_group :: "bytes \<Rightarrow> nat \<Rightarrow> nat \<Rightarrow> (function_record \<times> nat) result" where
  "read_group d index group_start =
     bindE (unpack_from LE 4 d group_start) (\<lambda>group_size.
     bindE (group_tags d (group_start + 4) []) (\<lambda>(cursor, tags).
     if cursor - group_start \<noteq> group_size then Inl (ValueError ''tag-group size mismatch'')
     else if list_ex (\<lambda>t. map_of tags t = None) [''NAME'', ''HASH'', ''OFFT'', ''MDSZ'']
     then Inl (ValueError ''incomplete function record'')
     else if \<not> (tag_ok tags ''HASH'' 32 \<and> tag_ok tags ''OFFT'' 24 \<and> tag_ok tags ''MDSZ'' 8)
     then Inl (ValueError ''unexpected fixed tag size'')
     else if \<not> tag_ok tags ''TYPE'' 1 then Inl (ValueError ''unexpected TYPE tag size'')
     else if \<not> tag_ok tags ''VERS'' 8 then Inl (ValueError ''unexpected VERS tag size'')
     else
     let name_bytes = (case map_of tags ''NAME'' of Some (offset, sz) \<Rightarrow> slice d offset sz | None \<Rightarrow> []) in
     if name_bytes = [] \<or> last name_bytes \<noteq> 0 then Inl (ValueError ''NAME is not NUL-terminated'')
     else
     bindE (decode_utf8 (butlast name_bytes)) (\<lambda>name.
     Inr (\<lparr>frec_index = index, frec_name = name, frec_tags = tags,
       frec_type = map_option (\<lambda>(offset, _). unat (d ! offset)) (map_of tags ''TYPE''),
       frec_versions = map_option (\<lambda>(offset, _). (u16 LE d offset, u16 LE d (offset + 2), u16 LE d (offset + 4),
          u16 LE d (offset + 6))) (map_of tags ''VERS''),
       frec_offset = u64 LE d (tag_at tags ''OFFT'' + 16), frec_size = u64 LE d (tag_at tags ''MDSZ'')\<rparr>, cursor))))"

fun read_groups :: "bytes \<Rightarrow> nat \<Rightarrow> nat \<Rightarrow> nat \<Rightarrow> (function_record list \<times> nat) result" where
  "read_groups d index 0 cursor = Inr ([], cursor)"
| "read_groups d index (Suc n) cursor =
     bindE (read_group d index cursor) (\<lambda>(r, cursor').
     bindE (read_groups d (index + 1) n cursor') (\<lambda>(rs, fin). Inr (r # rs, fin)))"

definition parse_function_records :: "bytes \<Rightarrow> function_record list result" where
  "parse_function_records d =
     bindE (room d 24 16) (\<lambda>_.
     let function_offset = u64 LE d 24; function_size = u64 LE d 32 in
     if function_offset < MTLB_HEADER_SIZE \<or> function_offset + function_size \<ge> length d
     then Inl (ValueError ''invalid function-list bounds'')
     else
     bindE (unpack_from LE 4 d function_offset) (\<lambda>count.
     bindE (read_groups d 0 count (function_offset + 4)) (\<lambda>(records, cursor).
     if cursor \<noteq> function_offset + function_size + 4
     then Inl (ValueError ''function-list size does not end after final group'')
     else if slice d (cursor - 4) 4 \<noteq> encode_str ''ENDT''
     then Inl (ValueError ''function-list ENDT marker is missing'')
     else Inr records)))"

text \<open>The header extension between the function list and the public metadata.\<close>

function extension_tags :: "bytes \<Rightarrow> nat \<Rightarrow> nat \<Rightarrow> tag list \<Rightarrow> tag list result" where
  "extension_tags d public_offset cursor tags =
     (if cursor \<ge> public_offset then Inl (ValueError ''header extension has no ENDT marker'')
      else bindE (decode_ascii (slice d cursor 4)) (\<lambda>name.
      if name = ''ENDT''
      then (if cursor + 4 \<noteq> public_offset then Inl (ValueError ''unexpected bytes after header extension ENDT'')
            else Inr tags)
      else bindE (unpack_from LE 2 d (cursor + 4)) (\<lambda>sz.
        extension_tags d public_offset (cursor + 6 + sz) (tags @ [(name, cursor + 6, sz)]))))"
  by pat_completeness auto
termination
  by (relation "measure (\<lambda>(d, public_offset, cursor, tags). public_offset - cursor)") auto

declare extension_tags.simps [simp del]

definition parse_header_extension_tags :: "bytes \<Rightarrow> tag list result" where
  "parse_header_extension_tags d =
     bindE (room d 24 24) (\<lambda>_.
     let function_end = u64 LE d 24 + u64 LE d 32 + 4; public_offset = u64 LE d 40 in
     if function_end = public_offset then Inr []
     else if function_end > public_offset then Inl (ValueError ''header extension overlaps public metadata'')
     else extension_tags d public_offset function_end [])"

subsection \<open>The input checks\<close>

record repack_args =
  target_triple :: string
  container_target :: string
  target_major :: nat
  target_minor :: nat
  only_functions :: "string list"
  fract_names :: "string list"
  memset_names :: "string list"
  half_names :: "string list"
  auto_lower :: bool
  in_place :: bool
  preserve_target :: bool

definition legacy_unknown_target :: "bytes \<Rightarrow> bool" where
  "legacy_unknown_target d \<longleftrightarrow>
     u16 LE d 4 \<in> {IOS_PLATFORM, MACOS_PLATFORM} \<and> d ! 11 = 0 \<and> u16 LE d 6 = 2 \<and> u16 LE d 8 = 3"

definition known_target :: "bytes \<Rightarrow> bool" where
  "known_target d \<longleftrightarrow>
     (u16 LE d 4, unat (d ! 11)) \<in>
       {(IOS_PLATFORM, IOS_TARGET_OS), (MACOS_PLATFORM, MACOS_TARGET_OS), (MACOS_PLATFORM, MACABI_TARGET_OS)}"

text \<open>The container itself.\<close>

definition check_container :: "repack_args \<Rightarrow> bytes \<Rightarrow> unit result" where
  "check_container A d =
     (if length d < MTLB_HEADER_SIZE \<or> take 4 d \<noteq> encode_str ''MTLB''
      then Inl (ValueError ''input is not an MTLB container'')
      else if \<not> known_target d \<and> \<not> legacy_unknown_target d
      then Inl (ValueError ''input must be an iOS, macOS, or Mac Catalyst executable MTLB'')
      else if d ! 10 \<noteq> 0 then Inl (ValueError ''input must be an executable MTLB'')
      else if \<not> preserve_target A \<and> \<not> target_triple_matches_container (target_triple A) (container_target A)
      then Inl (ValueError ''AIR target does not match MTLB container target'')
      else if u64 LE d 16 \<noteq> length d then Inl (ValueError ''input file-size field is invalid'')
      else if u64 LE d 72 < MTLB_HEADER_SIZE \<or> u64 LE d 72 + u64 LE d 80 > length d
      then Inl (ValueError ''input bitcode-section bounds are invalid'')
      else Inr ())"

text \<open>The combinations of options the conversion accepts.\<close>

definition check_selection :: "repack_args \<Rightarrow> bool \<Rightarrow> unit result" where
  "check_selection A legacy =
     (if in_place A \<and> \<not> legacy then Inl (ValueError ''--in-place-air-target currently accepts only the legacy format'')
      else if in_place A \<and> (preserve_target A \<or> only_functions A \<noteq> [] \<or> fract_names A \<noteq> [] \<or> memset_names A \<noteq> [] \<or>
                auto_lower A \<or> half_names A \<noteq> [])
      then Inl (ValueError ''--in-place-air-target cannot be combined'')
      else if preserve_target A \<and> only_functions A = [] \<and> \<not> legacy
      then Inl (ValueError ''--preserve-container-target without --function is accepted only for the legacy format'')
      else if only_functions A \<noteq> [] \<and> \<not> set (fract_names A) \<subseteq> set (only_functions A)
      then Inl (ValueError ''--rewrite-fract-v3f16-function must also be selected by --function'')
      else if only_functions A \<noteq> [] \<and> \<not> set (memset_names A) \<subseteq> set (only_functions A)
      then Inl (ValueError ''--lower-zero-memset-function must also be selected by --function'')
      else if only_functions A \<noteq> [] \<and> \<not> set (half_names A) \<subseteq> set (only_functions A)
      then Inl (ValueError ''--saturate-half-float-texture-writes-function must also be selected by --function'')
      else Inr ())"

definition module_of :: "bytes \<Rightarrow> function_record \<Rightarrow> bytes" where
  "module_of d r = slice d (u64 LE d 72 + frec_offset r) (frec_size r)"

definition check_legacy :: "bytes \<Rightarrow> function_record \<Rightarrow> unit \<Rightarrow> unit result" where
  "check_legacy d r _ =
     (let expected = (if u16 LE d 4 = MACOS_PLATFORM then ''air64-apple-macosx'' else ''air64-apple-ios'') in
      if \<not> contains (encode_str expected) (module_of d r)
      then Inl (ValueError ''legacy MTLB AIR target does not match the container platform'') else Inr ())"

subsection \<open>Conversion of the modules\<close>

type_synonym sha256 = "bytes \<Rightarrow> bytes"
type_synonym air_tools = "function_record \<Rightarrow> bytes \<Rightarrow> bytes result"

text \<open>
  The end of \<open>retarget_air\<close>; \<open>tools\<close> stands for llvm-dis, the rewriting of the assembly text
  and llvm-as.
\<close>

definition retarget_air :: "air_tools \<Rightarrow> function_record \<Rightarrow> bytes \<Rightarrow> bytes result" where
  "retarget_air tools r module =
     bindE (tools r module) (\<lambda>rebuilt.
     if take 4 rebuilt \<noteq> [0xde, 0xc0, 0x17, 0x0b]
     then Inl (ValueError ''llvm-as did not emit wrapped LLVM bitcode'')
     else Inr (rebuilt @ replicate ((16 - length rebuilt mod 16) mod 16) 0))"

definition convert_module ::
  "repack_args \<Rightarrow> sha256 \<Rightarrow> air_tools \<Rightarrow> bytes \<Rightarrow> function_record \<Rightarrow> bytes result" where
  "convert_module A sha tools d r =
     (let module = module_of d r in
      if sha module \<noteq> slice d (tag_at (frec_tags r) ''HASH'') 32 then Inl (ValueError ''input SHA-256 mismatch'')
      else if in_place A then retarget_air_in_place module (target_triple A)
      else if only_functions A = [] \<or> frec_name r \<in> set (only_functions A) then retarget_air tools r module
      else Inr module)"

text \<open>The record of one module, rewritten in the head: size, hash and offset.\<close>

definition write_record :: "sha256 \<Rightarrow> function_record \<Rightarrow> bytes \<Rightarrow> nat \<Rightarrow> bytes \<Rightarrow> bytes result" where
  "write_record sha r converted next_offset head =
     bindE (pack_into LE 8 head (tag_at (frec_tags r) ''MDSZ'') (length converted)) (\<lambda>head.
     pack_into LE 8 (splice head (tag_at (frec_tags r) ''HASH'') (sha converted))
       (tag_at (frec_tags r) ''OFFT'' + 16) next_offset)"

fun convert_modules ::
  "repack_args \<Rightarrow> sha256 \<Rightarrow> air_tools \<Rightarrow> bytes \<Rightarrow> function_record list \<Rightarrow> bytes \<Rightarrow> nat
     \<Rightarrow> (bytes \<times> bytes list) result" where
  "convert_modules A sha tools d [] head next_offset = Inr (head, [])"
| "convert_modules A sha tools d (r # rs) head next_offset =
     bindE (convert_module A sha tools d r) (\<lambda>converted.
     bindE (write_record sha r converted next_offset head) (\<lambda>head.
     bindE (convert_modules A sha tools d rs head (next_offset + length converted)) (\<lambda>(head, modules).
     Inr (head, converted # modules))))"

subsection \<open>The rebuilt container\<close>

definition write_target :: "repack_args \<Rightarrow> bool \<Rightarrow> bytes \<Rightarrow> bytes result" where
  "write_target A legacy d =
     (if preserve_target A then Inr d
      else case container_targets (container_target A) of
        None \<Rightarrow> Inl KeyError
      | Some (platform, os) \<Rightarrow>
          bindE (pack_into LE 2 d 4 platform) (\<lambda>d.
          bindE (if legacy then bindE (pack_into LE 2 d 6 2) (\<lambda>d. pack_into LE 2 d 8 7) else Inr d) (\<lambda>d.
          bindE (pack_into LE 1 d 11 os) (\<lambda>d.
          bindE (pack_into LE 2 d 12 (target_major A)) (\<lambda>d.
          pack_into LE 2 d 14 (target_minor A))))))"

text \<open>One tag of the header extension: an offset behind the old bitcode moves with it.\<close>

definition relocate_tag :: "nat \<Rightarrow> nat \<Rightarrow> nat \<Rightarrow> tag \<Rightarrow> bytes \<Rightarrow> bytes result" where
  "relocate_tag bitcode_end old_size new_size t d =
     (case t of (name, content, sz) \<Rightarrow>
      if name \<notin> set OFFSET_SECTION_TAGS then Inr d
      else if sz \<noteq> 16 then Inl (ValueError ''expected offset/size pair'')
      else bindE (unpack_from LE 8 d content) (\<lambda>offset.
        if offset \<ge> bitcode_end then pack_into LE 8 d content (offset + new_size - old_size) else Inr d))"

definition verify_record :: "sha256 \<Rightarrow> bytes \<Rightarrow> nat \<Rightarrow> function_record \<Rightarrow> unit \<Rightarrow> unit result" where
  "verify_record sha d bitcode_offset r _ =
     (if sha (slice d (bitcode_offset + frec_offset r) (frec_size r)) \<noteq> slice d (tag_at (frec_tags r) ''HASH'') 32
      then Inl (ValueError ''output SHA-256 mismatch'') else Inr ())"

definition assemble :: "repack_args \<Rightarrow> sha256 \<Rightarrow> bytes \<Rightarrow> bytes \<Rightarrow> bytes list \<Rightarrow> bytes result" where
  "assemble A sha d head modules =
     (let bitcode_offset = u64 LE d 72; bitcode_size = u64 LE d 80; bitcode_end = bitcode_offset + bitcode_size;
          new_bitcode = concat modules in
      bindE (write_target A (legacy_unknown_target d) (head @ new_bitcode @ drop bitcode_end d)) (\<lambda>out.
      bindE (pack_into LE 8 out 16 (length out)) (\<lambda>out.
      bindE (pack_into LE 8 out 80 (length new_bitcode)) (\<lambda>out.
      bindE (parse_header_extension_tags out) (\<lambda>tags.
      bindE (foldE (relocate_tag bitcode_end bitcode_size (length new_bitcode)) tags out) (\<lambda>out.
      bindE (parse_function_records out) (\<lambda>final.
      bindE (foldE (verify_record sha out bitcode_offset) final ()) (\<lambda>_. Inr out))))))))"

definition convert :: "repack_args \<Rightarrow> sha256 \<Rightarrow> air_tools \<Rightarrow> bytes \<Rightarrow> bytes result" where
  "convert A sha tools d =
     bindE (check_container A d) (\<lambda>_.
     bindE (check_selection A (legacy_unknown_target d)) (\<lambda>_.
     let head = take (u64 LE d 72) d in
     bindE (parse_function_records head) (\<lambda>records.
     bindE (if legacy_unknown_target d then foldE (check_legacy d) records () else Inr ()) (\<lambda>_.
     if \<not> set (only_functions A) \<subseteq> set (map frec_name records)
     then Inl (ValueError ''requested function(s) not present: '')
     else
     bindE (convert_modules A sha tools d records head 0) (\<lambda>(head, modules).
     assemble A sha d head modules)))))"

subsection \<open>Where the parsed tags lie\<close>

lemma decode_ascii_length: "decode_ascii bs = Inr s \<Longrightarrow> length s = length bs"
  by (auto simp: decode_ascii_def text_of_def split: if_splits)

definition tags_in :: "nat \<Rightarrow> nat \<Rightarrow> tag list \<Rightarrow> bool" where
  "tags_in lo hi tags \<longleftrightarrow> (\<forall>(name, offset, sz) \<in> set tags. lo \<le> offset \<and> offset + sz \<le> hi)"

lemma tags_in_mono: "tags_in lo hi tags \<Longrightarrow> lo' \<le> lo \<Longrightarrow> hi \<le> hi' \<Longrightarrow> tags_in lo' hi' tags"
  by (fastforce simp: tags_in_def)

lemma group_tags_in:
  assumes "group_tags d cursor tags = Inr (c, ts)" and "tags_in lo cursor tags" and "lo \<le> cursor"
  shows "cursor + 4 \<le> c \<and> c \<le> length d \<and> tags_in lo c ts"
  using assms
proof (induction d cursor tags rule: group_tags.induct)
  case (1 d cursor tags)
  from "1.prems"(1) obtain name where n: "decode_ascii (slice d cursor 4) = Inr name"
    by (subst (asm) group_tags.simps) (auto split: sum.splits)
  show ?case
  proof (cases "name = ''ENDT''")
    case True
    then have "length (slice d cursor 4) = 4" using decode_ascii_length [OF n] by simp
    then have "cursor + 4 \<le> length d" by (simp add: length_slice)
    moreover have "c = cursor + 4" "ts = tags"
      using "1.prems"(1) n True by (simp_all add: group_tags.simps [of d cursor tags])
    ultimately show ?thesis using "1.prems"(2) by (auto intro: tags_in_mono)
  next
    case False
    let ?sz = "u16 LE d (cursor + 4)"
    from "1.prems"(1) n False have r: "\<not> cursor + 6 > length d" "name \<notin> set (map fst tags)"
      and rest: "group_tags d (cursor + 6 + ?sz) (tags @ [(name, cursor + 6, ?sz)]) = Inr (c, ts)"
      by (simp_all add: group_tags.simps [of d cursor tags] Let_def split: if_split_asm)
    have "tags_in lo (cursor + 6 + ?sz) (tags @ [(name, cursor + 6, ?sz)])"
      using "1.prems"(2,3) by (fastforce simp: tags_in_def)
    with "1.IH" [OF n False r(1) refl r(2) rest] "1.prems"(3) show ?thesis by simp
  qed
qed

definition record_in :: "nat \<Rightarrow> nat \<Rightarrow> function_record \<Rightarrow> bool" where
  "record_in lo hi r \<longleftrightarrow>
     lo \<le> tag_at (frec_tags r) ''MDSZ'' \<and> tag_at (frec_tags r) ''MDSZ'' + 8 \<le> hi \<and>
     lo \<le> tag_at (frec_tags r) ''HASH'' \<and> tag_at (frec_tags r) ''HASH'' + 32 \<le> hi \<and>
     lo \<le> tag_at (frec_tags r) ''OFFT'' \<and> tag_at (frec_tags r) ''OFFT'' + 24 \<le> hi"

lemma tag_in:
  assumes "tags_in lo hi tags" and "map_of tags name \<noteq> None" and "tag_ok tags name sz"
  shows "lo \<le> tag_at tags name \<and> tag_at tags name + sz \<le> hi"
proof -
  from assms(2) obtain offset n where m: "map_of tags name = Some (offset, n)" by auto
  then have "(name, offset, n) \<in> set tags" by (rule map_of_SomeD)
  with assms(1) have "lo \<le> offset \<and> offset + n \<le> hi" by (auto simp: tags_in_def)
  with m assms(3) show ?thesis by (simp add: tag_at_def tag_ok_def)
qed

lemma read_group_in:
  assumes "read_group d index start = Inr (r, c)"
  shows "start \<le> c \<and> c \<le> length d \<and> record_in start (length d) r"
proof -
  from assms obtain tags where g: "group_tags d (start + 4) [] = Inr (c, tags)" and r: "frec_tags r = tags"
    and p: "\<forall>t \<in> {''HASH'', ''OFFT'', ''MDSZ''}. map_of tags t \<noteq> None"
    and s: "tag_ok tags ''HASH'' 32" "tag_ok tags ''OFFT'' 24" "tag_ok tags ''MDSZ'' 8"
    unfolding read_group_def by (auto simp: Let_def split: if_split_asm)
  have "start + 4 + 4 \<le> c \<and> c \<le> length d \<and> tags_in (start + 4) c tags"
    using group_tags_in [OF g, of "start + 4"] by (simp add: tags_in_def)
  then have c: "start \<le> c" "c \<le> length d" and t: "tags_in start (length d) tags"
    by (auto intro: tags_in_mono)
  have "record_in start (length d) r"
    using tag_in [OF t _ s(1)] tag_in [OF t _ s(2)] tag_in [OF t _ s(3)] p by (simp add: record_in_def r)
  with c show ?thesis by simp
qed

lemma record_in_mono: "record_in lo hi r \<Longrightarrow> lo' \<le> lo \<Longrightarrow> record_in lo' hi r"
  by (auto simp: record_in_def)

lemma read_groups_in:
  assumes "read_groups d index n start = Inr (rs, c)"
  shows "start \<le> c \<and> (\<forall>r \<in> set rs. record_in start (length d) r)"
  using assms
proof (induction n arbitrary: index start rs)
  case 0
  then show ?case by simp
next
  case (Suc n)
  then obtain r c' rs' where g: "read_group d index start = Inr (r, c')" and rs: "rs = r # rs'"
    and rest: "read_groups d (index + 1) n c' = Inr (rs', c)" by auto
  from Suc.IH [OF rest] read_group_in [OF g] rs show ?case by (auto intro: record_in_mono)
qed

lemma parsed_records_in:
  assumes "parse_function_records d = Inr records"
  shows "88 \<le> u64 LE d 24 \<and> u64 LE d 24 + u64 LE d 32 < length d \<and> (\<forall>r \<in> set records. record_in 88 (length d) r)"
proof -
  from assms obtain count c where b: "88 \<le> u64 LE d 24" "u64 LE d 24 + u64 LE d 32 < length d"
    and g: "read_groups d 0 count (u64 LE d 24 + 4) = Inr (records, c)"
    by (auto simp: parse_function_records_def Let_def MTLB_HEADER_SIZE_def not_less not_le split: if_split_asm)
  with read_groups_in [OF g] show ?thesis by (auto intro: record_in_mono)
qed

subsection \<open>The rebuilt container\<close>

text \<open>Same length, and equal outside \<open>[lo, hi)\<close>.\<close>

definition same_outside :: "nat \<Rightarrow> nat \<Rightarrow> bytes \<Rightarrow> bytes \<Rightarrow> bool" where
  "same_outside lo hi d d' \<longleftrightarrow>
     length d' = length d \<and> (\<forall>j n. j + n \<le> lo \<or> hi \<le> j \<longrightarrow> slice d' j n = slice d j n)"

lemma same_refl [simp]: "same_outside lo hi d d"
  by (simp add: same_outside_def)

lemma same_trans: "same_outside lo hi a b \<Longrightarrow> same_outside lo hi b c \<Longrightarrow> same_outside lo hi a c"
  by (auto simp: same_outside_def)

lemma same_wider: "same_outside lo hi a b \<Longrightarrow> lo' \<le> lo \<Longrightarrow> hi \<le> hi' \<Longrightarrow> same_outside lo' hi' a b"
  by (auto simp: same_outside_def)

lemma same_put: "lo \<le> i \<Longrightarrow> i + k \<le> hi \<Longrightarrow> i + k \<le> length d \<Longrightarrow> same_outside lo hi d (put e k d i v)"
  by (auto simp: same_outside_def slice_put)

lemma same_splice:
  "lo \<le> i \<Longrightarrow> i + length bs \<le> hi \<Longrightarrow> i + length bs \<le> length d \<Longrightarrow> same_outside lo hi d (splice d i bs)"
  by (auto simp: same_outside_def slice_splice_other)

lemma same_fld: "same_outside lo hi a b \<Longrightarrow> j + k \<le> lo \<or> hi \<le> j \<Longrightarrow> fld e k b j = fld e k a j"
  by (auto simp: same_outside_def intro: fld_cong)

lemma write_target_same:
  assumes "write_target A legacy d = Inr d'"
  shows "same_outside 4 16 d d'"
proof (cases "preserve_target A")
  case True
  with assms show ?thesis by (simp add: write_target_def)
next
  case False
  then obtain p os where t: "container_targets (container_target A) = Some (p, os)"
    using assms by (auto simp: write_target_def split: option.splits)
  from False assms t obtain d1 where l: "16 \<le> length d" and d1: "d1 = (if legacy then put LE 2 (put LE 2 (put LE 2 d 4 p) 6 2) 8 7 else put LE 2 d 4 p)"
    and d': "d' = put LE 2 (put LE 2 (put LE 1 d1 11 os) 12 (target_major A)) 14 (target_minor A)"
    by (auto simp: write_target_def split: if_split_asm)
  have a: "same_outside 4 16 x (put LE k x i v)" if "length x = length d" "4 \<le> i" "i + k \<le> 16" for x k i v
    using that l by (intro same_put) auto
  have "same_outside 4 16 d d1"
    unfolding d1 using l by (auto intro!: a intro: same_trans [OF a same_trans [OF a a]])
  then show ?thesis
    unfolding d' using l by (auto simp: same_outside_def [of 4 16 d d1] intro: same_trans [OF _ same_trans [OF a same_trans [OF a a]]])
qed

lemma relocate_tag_same:
  assumes "relocate_tag e old new t d = Inr d'" and "lo \<le> fst (snd t)" and "fst (snd t) + snd (snd t) \<le> hi"
  shows "same_outside lo hi d d'"
proof -
  obtain name content sz where t: "t = (name, content, sz)" by (rule prod_cases3)
  show ?thesis
  proof (cases "name \<in> set OFFSET_SECTION_TAGS \<and> u64 LE d content \<ge> e")
    case True
    with assms t have "sz = 16" "content + 8 \<le> length d" "d' = put LE 8 d content (u64 LE d content + new - old)"
      by (auto simp: relocate_tag_def split: if_split_asm)
    with assms(2,3) t show ?thesis by (simp add: same_put)
  next
    case False
    with assms(1) t have "d' = d" by (auto simp: relocate_tag_def split: if_split_asm)
    then show ?thesis by simp
  qed
qed

lemma convert_Inr:
  assumes "convert A sha tools d = Inr out"
  obtains records head modules where "check_container A d = Inr ()" "parse_function_records (take (u64 LE d 72) d) = Inr records"
    "convert_modules A sha tools d records (take (u64 LE d 72) d) 0 = Inr (head, modules)"
    "assemble A sha d head modules = Inr out"
  using assms by (auto simp: convert_def Let_def split: if_split_asm)

subsection \<open>The repacked container is parsed as what was written\<close>

text \<open>The fields of a record that a conversion writes, and the tags as they follow each other.\<close>

definition fields_of :: "function_record \<Rightarrow> (nat \<times> nat) list" where
  "fields_of r = [(tag_at (frec_tags r) ''MDSZ'', 8), (tag_at (frec_tags r) ''HASH'', 32), (tag_at (frec_tags r) ''OFFT'' + 16, 8)]"

definition clear_of :: "(nat \<times> nat) list \<Rightarrow> nat \<Rightarrow> nat \<Rightarrow> bool" where
  "clear_of fs j n \<longleftrightarrow> (\<forall>(i, k) \<in> set fs. j + n \<le> i \<or> i + k \<le> j)"

definition agree :: "bytes \<Rightarrow> bytes \<Rightarrow> nat \<Rightarrow> nat \<Rightarrow> (nat \<times> nat) list \<Rightarrow> bool" where
  "agree d d' lo hi fs \<longleftrightarrow>
     hi \<le> length d' \<and> (\<forall>j n. lo \<le> j \<longrightarrow> j + n \<le> hi \<longrightarrow> clear_of fs j n \<longrightarrow> slice d' j n = slice d j n)"

lemma clear_of_append: "clear_of (fs @ gs) j n \<longleftrightarrow> clear_of fs j n \<and> clear_of gs j n"
  by (auto simp: clear_of_def)

lemma clear_of_Nil [simp]: "clear_of [] j n"
  by (simp add: clear_of_def)

lemma agree_fld: "agree d d' lo hi fs \<Longrightarrow> lo \<le> j \<Longrightarrow> j + k \<le> hi \<Longrightarrow> clear_of fs j k \<Longrightarrow> fld e k d' j = fld e k d j"
  by (auto simp: agree_def intro: fld_cong)

lemma agree_slice: "agree d d' lo hi fs \<Longrightarrow> lo \<le> j \<Longrightarrow> j + k \<le> hi \<Longrightarrow> clear_of fs j k \<Longrightarrow> slice d' j k = slice d j k"
  by (simp add: agree_def)

definition tags_apart :: "tag list \<Rightarrow> bool" where
  "tags_apart ts \<longleftrightarrow> (\<forall>(a, i, k) \<in> set ts. \<forall>(b, j, l) \<in> set ts. a \<noteq> b \<longrightarrow> i + k \<le> j \<or> j + l \<le> i)"

lemma tags_apart_snoc:
  "tags_apart ts \<Longrightarrow> tags_in lo cursor ts \<Longrightarrow> cursor \<le> i \<Longrightarrow> tags_apart (ts @ [(a, i, k)])"
  by (fastforce simp: tags_apart_def tags_in_def)

lemma group_tags_shape:
  assumes "group_tags d cursor tags = Inr (c, ts)" and "tags_in lo cursor tags" and "lo \<le> cursor" and "tags_apart tags"
  shows "\<exists>new. ts = tags @ new \<and> (\<forall>(a, i, k) \<in> set new. cursor + 6 \<le> i) \<and> tags_in lo (c - 4) ts \<and> cursor + 4 \<le> c \<and>
    c \<le> length d \<and> tags_apart ts"
  using assms
proof (induction d cursor tags rule: group_tags.induct)
  case (1 d cursor tags)
  from "1.prems"(1) obtain name where n: "decode_ascii (slice d cursor 4) = Inr name"
    by (subst (asm) group_tags.simps) (auto split: sum.splits)
  show ?case
  proof (cases "name = ''ENDT''")
    case True
    then have "c = cursor + 4" "ts = tags"
      using "1.prems"(1) n by (simp_all add: group_tags.simps [of d cursor tags])
    with "1.prems" group_tags_in [OF "1.prems"(1-3)] show ?thesis by auto
  next
    case False
    let ?sz = "u16 LE d (cursor + 4)"
    from "1.prems"(1) n False have r: "\<not> cursor + 6 > length d" "name \<notin> set (map fst tags)"
      and rest: "group_tags d (cursor + 6 + ?sz) (tags @ [(name, cursor + 6, ?sz)]) = Inr (c, ts)"
      by (simp_all add: group_tags.simps [of d cursor tags] Let_def split: if_split_asm)
    have "tags_in lo (cursor + 6 + ?sz) (tags @ [(name, cursor + 6, ?sz)])"
      using "1.prems"(2,3) by (fastforce simp: tags_in_def)
    from "1.IH" [OF n False r(1) refl r(2) rest this _ tags_apart_snoc [OF "1.prems"(4,2)]] "1.prems"(3)
    obtain new where h: "ts = (tags @ [(name, cursor + 6, ?sz)]) @ new" "\<forall>(a, i, k) \<in> set new. cursor + 6 + ?sz + 6 \<le> i"
      "tags_in lo (c - 4) ts" "cursor + 6 + ?sz + 4 \<le> c" "c \<le> length d" "tags_apart ts" by auto
    then show ?thesis by (intro exI [of _ "(name, cursor + 6, ?sz) # new"]) fastforce
  qed
qed

definition tag_fields :: "tag list \<Rightarrow> (nat \<times> nat) list" where
  "tag_fields ts = map snd ts"

lemma group_tags_again:
  assumes "group_tags d cursor tags = Inr (c, ts)" and "tags_in lo cursor tags" and "lo \<le> cursor" and "tags_apart tags"
    and "agree d d' cursor c (tag_fields ts)"
  shows "group_tags d' cursor tags = Inr (c, ts)"
  using assms
proof (induction d cursor tags rule: group_tags.induct)
  case (1 d cursor tags)
  from "1.prems"(1) obtain name where n: "decode_ascii (slice d cursor 4) = Inr name"
    by (subst (asm) group_tags.simps) (auto split: sum.splits)
  from group_tags_shape [OF "1.prems"(1-4)] obtain new where
    sh: "ts = tags @ new" "\<forall>(a, i, k) \<in> set new. cursor + 6 \<le> i" "cursor + 4 \<le> c" by blast
  have clear: "clear_of (tag_fields ts) j k" if "cursor \<le> j" "j + k \<le> cursor + 6" for j k
    using that sh(1,2) "1.prems"(2) by (fastforce simp: clear_of_def tag_fields_def tags_in_def)
  have s4: "slice d' cursor 4 = slice d cursor 4"
    by (rule agree_slice [OF "1.prems"(5)]) (use sh(3) clear in auto)
  show ?case
  proof (cases "name = ''ENDT''")
    case True
    then show ?thesis
      using "1.prems"(1) n s4 by (simp add: group_tags.simps [of d cursor tags] group_tags.simps [of d' cursor ts])
  next
    case False
    let ?sz = "u16 LE d (cursor + 4)"
    from "1.prems"(1) n False have r: "\<not> cursor + 6 > length d" "name \<notin> set (map fst tags)"
      and rest: "group_tags d (cursor + 6 + ?sz) (tags @ [(name, cursor + 6, ?sz)]) = Inr (c, ts)"
      by (simp_all add: group_tags.simps [of d cursor tags] Let_def split: if_split_asm)
    have ti: "tags_in lo (cursor + 6 + ?sz) (tags @ [(name, cursor + 6, ?sz)])"
      using "1.prems"(2,3) by (fastforce simp: tags_in_def)
    note ap = tags_apart_snoc [OF "1.prems"(4,2), of "cursor + 6" name ?sz]
    have lo: "lo \<le> cursor + 6 + ?sz" using "1.prems"(3) by simp
    from group_tags_shape [OF rest ti lo ap] have c: "cursor + 6 \<le> c" by auto
    have "agree d d' (cursor + 6 + ?sz) c (tag_fields ts)" using "1.prems"(5) by (simp add: agree_def)
    note IH = "1.IH" [OF n False r(1) refl r(2) rest ti lo ap this]
    have "u16 LE d' (cursor + 4) = ?sz"
      by (rule agree_fld [OF "1.prems"(5)]) (use c clear in auto)
    moreover have "\<not> cursor + 6 > length d'" using c "1.prems"(5) by (simp add: agree_def)
    ultimately show ?thesis
      using n False r(2) s4 IH by (simp add: group_tags.simps [of d' cursor tags] Let_def)
  qed
qed

lemma read_group_shape:
  assumes "read_group d index start = Inr (r, c)"
  obtains "group_tags d (start + 4) [] = Inr (c, frec_tags r)" and "c - start = u32 LE d start" and "start + 8 \<le> c"
    and "c \<le> length d" and "tags_in (start + 4) (c - 4) (frec_tags r)" and "tags_apart (frec_tags r)"
    and "map_of (frec_tags r) ''HASH'' = Some (tag_at (frec_tags r) ''HASH'', 32)"
    and "map_of (frec_tags r) ''OFFT'' = Some (tag_at (frec_tags r) ''OFFT'', 24)"
    and "map_of (frec_tags r) ''MDSZ'' = Some (tag_at (frec_tags r) ''MDSZ'', 8)"
proof -
  from assms obtain tags where g: "group_tags d (start + 4) [] = Inr (c, tags)" and r: "frec_tags r = tags"
    and u: "c - start = u32 LE d start"
    and p: "\<forall>t \<in> {''HASH'', ''OFFT'', ''MDSZ''}. map_of tags t \<noteq> None"
    and s: "tag_ok tags ''HASH'' 32" "tag_ok tags ''OFFT'' 24" "tag_ok tags ''MDSZ'' 8"
    unfolding read_group_def by (auto simp: Let_def split: if_split_asm)
  have m: "map_of tags t = Some (tag_at tags t, n)" if "t \<in> {''HASH'', ''OFFT'', ''MDSZ''}" "tag_ok tags t n" for t n
    using that p by (fastforce simp: tag_ok_def tag_at_def)
  from group_tags_shape [OF g, of "start + 4"] have "start + 4 + 4 \<le> c" "c \<le> length d" "tags_in (start + 4) (c - 4) tags"
    "tags_apart tags" by (auto simp: tags_in_def tags_apart_def)
  with g u m s show thesis by (intro that) (simp_all add: r)
qed

lemma fields_in_group:
  assumes "read_group d index start = Inr (r, c)"
  shows "\<forall>(i, k) \<in> set (fields_of r). start + 4 \<le> i \<and> i + k \<le> c - 4"
proof -
  have in_tags: "start + 4 \<le> i \<and> i + k \<le> c - 4" if "tags_in (start + 4) (c - 4) ts" "map_of ts name = Some (i, k)" for ts name i k
    using that by (fastforce simp: tags_in_def dest: map_of_SomeD)
  from assms obtain ti: "tags_in (start + 4) (c - 4) (frec_tags r)"
    and m: "map_of (frec_tags r) ''HASH'' = Some (tag_at (frec_tags r) ''HASH'', 32)"
      "map_of (frec_tags r) ''OFFT'' = Some (tag_at (frec_tags r) ''OFFT'', 24)"
      "map_of (frec_tags r) ''MDSZ'' = Some (tag_at (frec_tags r) ''MDSZ'', 8)" by (rule read_group_shape)
  from in_tags [OF ti m(1)] in_tags [OF ti m(2)] in_tags [OF ti m(3)] show ?thesis by (auto simp: fields_of_def)
qed

lemma other_tag_clear:
  assumes "tags_apart ts" and "map_of ts a = Some (i, k)" and "map_of ts b = Some (j, l)" and "a \<noteq> b"
  shows "i + k \<le> j \<or> j + l \<le> i"
  using assms by (fastforce simp: tags_apart_def dest: map_of_SomeD)

lemma read_group_again:
  assumes g: "read_group d index start = Inr (r, c)" and a: "agree d d' start c (fields_of r)"
  shows "read_group d' index start =
    Inr (r\<lparr>frec_offset := u64 LE d' (tag_at (frec_tags r) ''OFFT'' + 16), frec_size := u64 LE d' (tag_at (frec_tags r) ''MDSZ'')\<rparr>, c)"
proof -
  let ?ts = "frec_tags r"
  from g obtain tags: "group_tags d (start + 4) [] = Inr (c, ?ts)" and sz: "c - start = u32 LE d start" "start + 8 \<le> c"
    and cl: "c \<le> length d" and ti: "tags_in (start + 4) (c - 4) ?ts" and ap: "tags_apart ?ts"
    and m: "map_of ?ts ''HASH'' = Some (tag_at ?ts ''HASH'', 32)" "map_of ?ts ''OFFT'' = Some (tag_at ?ts ''OFFT'', 24)"
      "map_of ?ts ''MDSZ'' = Some (tag_at ?ts ''MDSZ'', 8)" by (rule read_group_shape)
  have fin: "\<forall>(i, k) \<in> set (fields_of r). start + 4 \<le> i \<and> i + k \<le> c - 4" by (rule fields_in_group [OF g])
  have sub: "clear_of (fields_of r) j n" if "clear_of (tag_fields ?ts) j n" for j n
    using that m [THEN map_of_SomeD] by (fastforce simp: clear_of_def tag_fields_def fields_of_def)
  then have "agree d d' (start + 4) c (tag_fields ?ts)" using a by (simp add: agree_def)
  from group_tags_again [OF tags _ _ _ this, of "start + 4"]
  have tags': "group_tags d' (start + 4) [] = Inr (c, ?ts)" by (simp add: tags_in_def tags_apart_def)
  have "clear_of (fields_of r) start 4" using fin by (fastforce simp: clear_of_def)
  then have u: "unpack_from LE 4 d start = Inr (u32 LE d start)" "unpack_from LE 4 d' start = Inr (u32 LE d start)"
    using agree_fld [OF a, of start 4 LE] sz(2) cl a by (auto simp: unpack_from_def agree_def)
  have other: "slice d' i k = slice d i k" if "map_of ?ts name = Some (i, k)" "name \<notin> {''HASH'', ''OFFT'', ''MDSZ''}" for name i k
  proof (rule agree_slice [OF a])
    have "(name, i, k) \<in> set ?ts" using that(1) by (rule map_of_SomeD)
    with ti show "start \<le> i" "i + k \<le> c" by (fastforce simp: tags_in_def)+
    show "clear_of (fields_of r) i k"
      using other_tag_clear [OF ap that(1) m(1)] other_tag_clear [OF ap that(1) m(2)] other_tag_clear [OF ap that(1) m(3)] that(2)
      by (auto simp: clear_of_def fields_of_def)
  qed
  have byte: "d' ! i = d ! i" if "map_of ?ts name = Some (i, 1)" "name \<notin> {''HASH'', ''OFFT'', ''MDSZ''}" for name i
  proof -
    have "(name, i, 1) \<in> set ?ts" using that(1) by (rule map_of_SomeD)
    with ti have "i < c" using sz(2) by (fastforce simp: tags_in_def)
    then have "i < length d" "i < length d'" using cl a by (auto simp: agree_def)
    then have "slice d i 1 ! 0 = d ! i" "slice d' i 1 ! 0 = d' ! i" by (simp_all add: slice_def)
    with other [OF that] show ?thesis by simp
  qed
  have vers: "u16 LE d' (i + n) = u16 LE d (i + n)" if "map_of ?ts ''VERS'' = Some (i, 8)" "n + 2 \<le> 8" for i n
  proof -
    have "slice d' (i + n) 2 = slice (slice d' i 8) n 2" "slice d (i + n) 2 = slice (slice d i 8) n 2"
      using that(2) by (simp_all add: slice_slice)
    with other [OF that(1)] show ?thesis by (intro fld_cong) simp
  qed
  from g tags u obtain nm x where nt: "map_of ?ts ''NAME'' = Some nm" "tag_ok ?ts ''TYPE'' 1" "tag_ok ?ts ''VERS'' 8"
    and sizes: "tag_ok ?ts ''HASH'' 32" "tag_ok ?ts ''OFFT'' 24" "tag_ok ?ts ''MDSZ'' 8"
    and nb: "slice d (fst nm) (snd nm) \<noteq> [] \<and> last (slice d (fst nm) (snd nm)) = 0"
    and dn: "decode_utf8 (butlast (slice d (fst nm) (snd nm))) = Inr x"
    and r: "r = \<lparr>frec_index = index, frec_name = x, frec_tags = ?ts,
       frec_type = map_option (\<lambda>(offset, _). unat (d ! offset)) (map_of ?ts ''TYPE''),
       frec_versions = map_option (\<lambda>(offset, _). (u16 LE d offset, u16 LE d (offset + 2), u16 LE d (offset + 4),
          u16 LE d (offset + 6))) (map_of ?ts ''VERS''),
       frec_offset = u64 LE d (tag_at ?ts ''OFFT'' + 16), frec_size = u64 LE d (tag_at ?ts ''MDSZ'')\<rparr>"
    by (fastforce simp: read_group_def Let_def split: if_split_asm)
  have nb': "slice d' (fst nm) (snd nm) = slice d (fst nm) (snd nm)"
    by (rule other [of "''NAME''"]) (use nt(1) in simp_all)
  have ty: "map_option (\<lambda>(offset, _). unat (d' ! offset)) (map_of ?ts ''TYPE'') =
      map_option (\<lambda>(offset, _). unat (d ! offset)) (map_of ?ts ''TYPE'')"
    using nt(2) byte [of "''TYPE''"] by (cases "map_of ?ts ''TYPE''") (auto simp: tag_ok_def)
  have ve: "map_option (\<lambda>(offset, _). (u16 LE d' offset, u16 LE d' (offset + 2), u16 LE d' (offset + 4), u16 LE d' (offset + 6))) (map_of ?ts ''VERS'') =
      map_option (\<lambda>(offset, _). (u16 LE d offset, u16 LE d (offset + 2), u16 LE d (offset + 4), u16 LE d (offset + 6))) (map_of ?ts ''VERS'')"
    using nt(3) vers [of _ 0] vers [of _ 2] vers [of _ 4] vers [of _ 6]
    by (cases "map_of ?ts ''VERS''") (auto simp: tag_ok_def)
  have "read_group d' index start = Inr (\<lparr>frec_index = index, frec_name = x, frec_tags = ?ts,
       frec_type = map_option (\<lambda>(offset, _). unat (d ! offset)) (map_of ?ts ''TYPE''),
       frec_versions = map_option (\<lambda>(offset, _). (u16 LE d offset, u16 LE d (offset + 2), u16 LE d (offset + 4),
          u16 LE d (offset + 6))) (map_of ?ts ''VERS''),
       frec_offset = u64 LE d' (tag_at ?ts ''OFFT'' + 16), frec_size = u64 LE d' (tag_at ?ts ''MDSZ'')\<rparr>, c)"
    unfolding read_group_def u(2) bindE_simps tags' prod.case Let_def ty ve
    using sz(1) m nt sizes nb dn nb' by (cases nm) simp
  then show ?thesis by (subst r) simp
qed

text \<open>Where the written fields of all the records lie.\<close>

definition group_fields :: "nat \<Rightarrow> nat \<Rightarrow> function_record \<Rightarrow> bool" where
  "group_fields lo c r \<longleftrightarrow> lo + 8 \<le> c \<and> (\<forall>(i, k) \<in> set (fields_of r). lo + 4 \<le> i \<and> i + k \<le> c - 4) \<and>
     clear_of [(tag_at (frec_tags r) ''HASH'', 32), (tag_at (frec_tags r) ''OFFT'' + 16, 8)] (tag_at (frec_tags r) ''MDSZ'') 8 \<and>
     clear_of [(tag_at (frec_tags r) ''OFFT'' + 16, 8)] (tag_at (frec_tags r) ''HASH'') 32"

fun rec_chain :: "nat \<Rightarrow> function_record list \<Rightarrow> nat \<Rightarrow> bool" where
  "rec_chain lo [] hi \<longleftrightarrow> lo = hi"
| "rec_chain lo (r # rs) hi \<longleftrightarrow> (\<exists>c. group_fields lo c r \<and> rec_chain c rs hi)"

definition all_fields :: "function_record list \<Rightarrow> (nat \<times> nat) list" where
  "all_fields rs = concat (map fields_of rs)"

lemma all_fields_Cons [simp]: "all_fields (r # rs) = fields_of r @ all_fields rs"
  by (simp add: all_fields_def)

lemma all_fields_Nil [simp]: "all_fields [] = []"
  by (simp add: all_fields_def)

lemma rec_chain_bounds:
  "rec_chain lo rs hi \<Longrightarrow> lo \<le> hi \<and> (\<forall>(i, k) \<in> set (all_fields rs). lo + 4 \<le> i \<and> i + k \<le> hi - 4)"
proof (induction rs arbitrary: lo)
  case Nil
  then show ?case by simp
next
  case (Cons r rs)
  then obtain c where g: "group_fields lo c r" and rest: "rec_chain c rs hi" by auto
  from Cons.IH [OF rest] g show ?case by (fastforce simp: group_fields_def)
qed

lemma rec_chain_clear: "rec_chain lo rs hi \<Longrightarrow> j + k \<le> lo + 4 \<or> hi \<le> j + 4 \<Longrightarrow> clear_of (all_fields rs) j k"
  using rec_chain_bounds [of lo rs hi] by (fastforce simp: clear_of_def)

lemma read_group_fields:
  assumes "read_group d index start = Inr (r, c)"
  shows "group_fields start c r"
proof -
  from assms obtain sz: "start + 8 \<le> c" and ap: "tags_apart (frec_tags r)"
    and m: "map_of (frec_tags r) ''HASH'' = Some (tag_at (frec_tags r) ''HASH'', 32)"
      "map_of (frec_tags r) ''OFFT'' = Some (tag_at (frec_tags r) ''OFFT'', 24)"
      "map_of (frec_tags r) ''MDSZ'' = Some (tag_at (frec_tags r) ''MDSZ'', 8)" by (rule read_group_shape)
  from other_tag_clear [OF ap m(3,1)] other_tag_clear [OF ap m(3,2)] other_tag_clear [OF ap m(1,2)] sz fields_in_group [OF assms]
  show ?thesis by (auto simp: group_fields_def clear_of_def)
qed

definition reread :: "bytes \<Rightarrow> function_record \<Rightarrow> function_record" where
  "reread d r = r\<lparr>frec_offset := u64 LE d (tag_at (frec_tags r) ''OFFT'' + 16), frec_size := u64 LE d (tag_at (frec_tags r) ''MDSZ'')\<rparr>"

lemma read_groups_again:
  assumes "read_groups d index n start = Inr (rs, c)"
  shows "rec_chain start rs c \<and> (agree d d' start c (all_fields rs) \<longrightarrow> read_groups d' index n start = Inr (map (reread d') rs, c))"
  using assms
proof (induction n arbitrary: index start rs)
  case 0
  then show ?case by simp
next
  case (Suc n)
  then obtain r c' rs' where g: "read_group d index start = Inr (r, c')" and rs: "rs = r # rs'"
    and rest: "read_groups d (index + 1) n c' = Inr (rs', c)" by auto
  note IH = Suc.IH [OF rest]
  note gf = read_group_fields [OF g]
  from IH have ch: "rec_chain c' rs' c" by simp
  have "read_groups d' index (Suc n) start = Inr (map (reread d') rs, c)" if a: "agree d d' start c (all_fields rs)"
  proof -
    have le: "c' \<le> c" "start \<le> c'" using rec_chain_bounds [OF ch] gf by (auto simp: group_fields_def)
    have "clear_of (all_fields rs) j k" if "clear_of (fields_of r) j k" "j + k \<le> c'" for j k
      using that rec_chain_clear [OF ch, of j k] by (simp add: rs clear_of_append)
    then have "agree d d' start c' (fields_of r)" using a le by (simp add: agree_def)
    note first = read_group_again [OF g this]
    have "clear_of (fields_of r) j k" if "c' \<le> j" for j k
      using that gf by (fastforce simp: group_fields_def clear_of_def)
    then have "agree d d' c' c (all_fields rs')" using a le by (simp add: agree_def rs clear_of_append)
    with IH first show ?thesis by (simp add: rs reread_def)
  qed
  with gf ch show ?case by (auto simp: rs)
qed

lemma parse_records_again:
  assumes p: "parse_function_records d = Inr records"
    and same: "u64 LE d' 24 = u64 LE d 24" "u64 LE d' 32 = u64 LE d 32"
    and a: "agree d d' (u64 LE d 24) (u64 LE d 24 + u64 LE d 32 + 4) (all_fields records)"
  shows "parse_function_records d' = Inr (map (reread d') records)"
proof -
  let ?fo = "u64 LE d 24" let ?fe = "?fo + u64 LE d 32 + 4"
  from p have lo: "88 \<le> ?fo" "?fo + u64 LE d 32 < length d"
    and g: "read_groups d 0 (u32 LE d ?fo) (?fo + 4) = Inr (records, ?fe)"
    and e: "slice d (?fe - 4) 4 = encode_str ''ENDT''"
    and u: "?fo + 4 \<le> length d"
    by (auto simp: parse_function_records_def Let_def MTLB_HEADER_SIZE_def not_less not_le split: if_split_asm)
  from read_groups_again [OF g] have ch: "rec_chain (?fo + 4) records ?fe" by simp
  have le: "?fo + 4 \<le> ?fe" "?fe \<le> length d'" using rec_chain_bounds [OF ch] a by (auto simp: agree_def)
  have "agree d d' (?fo + 4) ?fe (all_fields records)" using a by (simp add: agree_def)
  then have g': "read_groups d' 0 (u32 LE d ?fo) (?fo + 4) = Inr (map (reread d') records, ?fe)"
    using read_groups_again [OF g] by simp
  have c: "u32 LE d' ?fo = u32 LE d ?fo"
    by (rule agree_fld [OF a]) (use le rec_chain_clear [OF ch, of ?fo 4] in auto)
  have e': "slice d' (?fe - 4) 4 = slice d (?fe - 4) 4"
    by (rule agree_slice [OF a]) (use le rec_chain_clear [OF ch, of "?fe - 4" 4] in auto)
  have "room d' 24 16 = Inr ()" "unpack_from LE 4 d' ?fo = Inr (u32 LE d ?fo)"
    using le lo c by (simp_all add: unpack_from_def)
  moreover have "\<not> (?fo < MTLB_HEADER_SIZE \<or> ?fo + u64 LE d 32 \<ge> length d')"
    using lo le(2) by (simp add: MTLB_HEADER_SIZE_def)
  ultimately show ?thesis using g' e e' by (simp add: parse_function_records_def Let_def same)
qed

lemma parsed_chain:
  "parse_function_records d = Inr records \<Longrightarrow> rec_chain (u64 LE d 24 + 4) records (u64 LE d 24 + u64 LE d 32 + 4)"
  by (auto simp: parse_function_records_def Let_def split: if_split_asm dest!: read_groups_again)

subsection \<open>What the conversion writes\<close>

text \<open>The records of the new container: offsets without gaps, and the sizes of the conversions.\<close>

fun place :: "nat \<Rightarrow> function_record list \<Rightarrow> bytes list \<Rightarrow> function_record list" where
  "place off (r # rs) (m # ms) = r\<lparr>frec_offset := off, frec_size := length m\<rparr> # place (off + length m) rs ms"
| "place off _ _ = []"

fun placed :: "sha256 \<Rightarrow> bytes \<Rightarrow> nat \<Rightarrow> function_record list \<Rightarrow> bytes list \<Rightarrow> bool" where
  "placed sha d off [] ms \<longleftrightarrow> ms = []"
| "placed sha d off (r # rs) [] \<longleftrightarrow> False"
| "placed sha d off (r # rs) (m # ms) \<longleftrightarrow> u64 LE d (tag_at (frec_tags r) ''MDSZ'') = length m \<and>
     slice d (tag_at (frec_tags r) ''HASH'') 32 = sha m \<and> u64 LE d (tag_at (frec_tags r) ''OFFT'' + 16) = off \<and>
     placed sha d (off + length m) rs ms"

lemma placed_place: "placed sha d off rs ms \<Longrightarrow> map (reread d) rs = place off rs ms"
  by (induction sha d off rs ms rule: placed.induct) (auto simp: reread_def)

lemma placed_hashes:
  "placed sha d off rs ms \<Longrightarrow> list_all2 (\<lambda>r m. slice d (tag_at (frec_tags r) ''HASH'') 32 = sha m) rs ms"
  by (induction sha d off rs ms rule: placed.induct) auto

lemma placed_cong:
  assumes "\<And>i k. (i, k) \<in> set (all_fields rs) \<Longrightarrow> slice d' i k = slice d i k"
  shows "placed sha d' off rs ms = placed sha d off rs ms"
  using assms
proof (induction sha d off rs ms rule: placed.induct)
  case (3 sha d off r rs m ms)
  have f: "slice d' i k = slice d i k" if "(i, k) \<in> set (fields_of r)" for i k using "3.prems" that by simp
  have "u64 LE d' (tag_at (frec_tags r) ''MDSZ'') = u64 LE d (tag_at (frec_tags r) ''MDSZ'')"
    "u64 LE d' (tag_at (frec_tags r) ''OFFT'' + 16) = u64 LE d (tag_at (frec_tags r) ''OFFT'' + 16)"
    "slice d' (tag_at (frec_tags r) ''HASH'') 32 = slice d (tag_at (frec_tags r) ''HASH'') 32"
    by (intro fld_cong f, simp add: fields_of_def)+
  with "3.IH" "3.prems" show ?case by simp
qed simp_all

lemma write_record_fields:
  assumes w: "write_record sha r m next head = Inr head'" and g: "group_fields lo c r" and l: "c \<le> length head"
    and sha: "\<And>x. length (sha x) = 32"
  shows "length head' = length head \<and> (\<forall>j k. clear_of (fields_of r) j k \<longrightarrow> slice head' j k = slice head j k) \<and>
    u64 LE head' (tag_at (frec_tags r) ''MDSZ'') = length m \<and> slice head' (tag_at (frec_tags r) ''HASH'') 32 = sha m \<and>
    u64 LE head' (tag_at (frec_tags r) ''OFFT'' + 16) = next"
proof -
  let ?M = "tag_at (frec_tags r) ''MDSZ''" and ?H = "tag_at (frec_tags r) ''HASH''" and ?O = "tag_at (frec_tags r) ''OFFT'' + 16"
  let ?h1 = "put LE 8 head ?M (length m)"
  let ?h2 = "splice ?h1 ?H (sha m)"
  from w have h: "head' = put LE 8 ?h2 ?O next" and v: "length m < 2 ^ 64" "next < 2 ^ 64"
    by (auto simp: write_record_def)
  have b: "?M + 8 \<le> length head" "?H + 32 \<le> length head" "?O + 8 \<le> length head"
    using g l by (auto simp: group_fields_def fields_of_def)
  have ap: "?M + 8 \<le> ?H \<or> ?H + 32 \<le> ?M" "?M + 8 \<le> ?O \<or> ?O + 8 \<le> ?M" "?H + 32 \<le> ?O \<or> ?O + 8 \<le> ?H"
    using g by (auto simp: group_fields_def clear_of_def)
  have l1: "length ?h1 = length head" using b by simp
  have l2: "length ?h2 = length head" using b sha by (simp add: l1)
  have s1: "slice ?h1 j k = slice head j k" if "j + k \<le> ?M \<or> ?M + 8 \<le> j" for j k
    using that b by (simp add: slice_put)
  have s2: "slice ?h2 j k = slice ?h1 j k" if "j + k \<le> ?H \<or> ?H + 32 \<le> j" for j k
    using that b sha by (intro slice_splice_other) (auto simp: l1)
  have s3: "slice head' j k = slice ?h2 j k" if "j + k \<le> ?O \<or> ?O + 8 \<le> j" for j k
    unfolding h using that b l2 by (simp add: slice_put)
  have "slice head' ?H 32 = slice ?h2 ?H 32" using ap by (intro s3) auto
  also have "\<dots> = sha m" using b sha by (simp add: splice_def slice_def l1)
  finally have H: "slice head' ?H 32 = sha m" .
  have "u64 LE head' ?M = u64 LE ?h1 ?M"
    by (rule fld_cong) (use ap s3 [of ?M 8] s2 [of ?M 8] in auto)
  then have M: "u64 LE head' ?M = length m" using b v by (simp add: fld_put)
  have O: "u64 LE head' ?O = next" unfolding h using b l2 v by (simp add: fld_put)
  have "slice head' j k = slice head j k" if "clear_of (fields_of r) j k" for j k
    using that s1 [of j k] s2 [of j k] s3 [of j k] by (auto simp: clear_of_def fields_of_def)
  moreover have "length head' = length head" unfolding h using b l2 by simp
  ultimately show ?thesis using H M O by blast
qed

lemma convert_modules_placed:
  assumes "convert_modules A sha tools d rs head next = Inr (head', ms)" and "rec_chain lo rs hi" and "hi \<le> length head"
    and sha: "\<And>x. length (sha x) = 32"
  shows "length head' = length head \<and> (\<forall>j k. clear_of (all_fields rs) j k \<longrightarrow> slice head' j k = slice head j k) \<and>
    placed sha head' next rs ms \<and> list_all2 (\<lambda>r m. convert_module A sha tools d r = Inr m) rs ms"
  using assms(1-3)
proof (induction rs arbitrary: head "next" ms lo)
  case Nil
  then show ?case by simp
next
  case (Cons r rs)
  then obtain m h ms' c where m: "convert_module A sha tools d r = Inr m"
    and w: "write_record sha r m next head = Inr h" and ms: "ms = m # ms'"
    and rest: "convert_modules A sha tools d rs h (next + length m) = Inr (head', ms')"
    and g: "group_fields lo c r" and ch: "rec_chain c rs hi" by auto
  have "c \<le> length head" using rec_chain_bounds [OF ch] Cons.prems(3) by simp
  note wf = write_record_fields [OF w g this sha]
  from Cons.IH [OF rest ch] wf Cons.prems(3)
  have IH: "length head' = length h" "\<And>j k. clear_of (all_fields rs) j k \<Longrightarrow> slice head' j k = slice h j k"
    "placed sha head' (next + length m) rs ms'" "list_all2 (\<lambda>r m. convert_module A sha tools d r = Inr m) rs ms'" by auto
  have keep: "slice head' i k = slice h i k" if "(i, k) \<in> set (fields_of r)" for i k
    using that g by (intro IH(2) rec_chain_clear [OF ch]) (fastforce simp: group_fields_def)
  have "u64 LE head' (tag_at (frec_tags r) ''MDSZ'') = length m" "u64 LE head' (tag_at (frec_tags r) ''OFFT'' + 16) = next"
    "slice head' (tag_at (frec_tags r) ''HASH'') 32 = sha m"
    using wf fld_cong [OF keep, of "tag_at (frec_tags r) ''MDSZ''" 8 LE] fld_cong [OF keep, of "tag_at (frec_tags r) ''OFFT'' + 16" 8 LE]
      keep [of "tag_at (frec_tags r) ''HASH''" 32] by (simp_all add: fields_of_def)
  then show ?case using IH wf m by (simp add: ms clear_of_append)
qed

subsection \<open>The relocated offsets\<close>

fun tag_seq :: "nat \<Rightarrow> tag list \<Rightarrow> nat \<Rightarrow> bool" where
  "tag_seq lo [] hi \<longleftrightarrow> lo \<le> hi"
| "tag_seq lo ((_, i, k) # ts) hi \<longleftrightarrow> lo \<le> i \<and> tag_seq (i + k) ts hi"

lemma tag_seq_in: "tag_seq lo ts hi \<Longrightarrow> (a, i, k) \<in> set ts \<Longrightarrow> lo \<le> i \<and> i + k \<le> hi"
proof (induction ts arbitrary: lo)
  case Nil
  then show ?case by simp
next
  case (Cons t ts)
  obtain b j l where t: "t = (b, j, l)" by (rule prod_cases3)
  have up: "lo' \<le> hi" if "tag_seq lo' ts hi" for lo' ts
    using that by (induction ts arbitrary: lo') force+
  from Cons t up show ?case by fastforce
qed

lemma extension_tags_again:
  assumes "extension_tags d public cursor tags = Inr ts" and "agree d d' cursor public []"
  shows "extension_tags d' public cursor tags = Inr ts \<and> cursor + 4 \<le> public \<and> (\<exists>new. ts = tags @ new \<and> tag_seq cursor new public)"
  using assms
proof (induction d public cursor tags rule: extension_tags.induct)
  case (1 d public cursor tags)
  from "1.prems"(1) obtain name where c: "\<not> cursor \<ge> public" and n: "decode_ascii (slice d cursor 4) = Inr name"
    by (subst (asm) extension_tags.simps) (auto split: if_split_asm)
  show ?case
  proof (cases "name = ''ENDT''")
    case True
    with "1.prems"(1) c n have e: "cursor + 4 = public" "ts = tags"
      by (simp_all add: extension_tags.simps [of d public cursor tags] split: if_split_asm)
    have "slice d' cursor 4 = slice d cursor 4" by (rule agree_slice [OF "1.prems"(2)]) (use e in auto)
    with True c n e show ?thesis
      by (simp add: extension_tags.simps [of d' public cursor tags])
  next
    case False
    with "1.prems"(1) c n obtain sz where u: "unpack_from LE 2 d (cursor + 4) = Inr sz"
      and rest: "extension_tags d public (cursor + 6 + sz) (tags @ [(name, cursor + 6, sz)]) = Inr ts"
      by (auto simp: extension_tags.simps [of d public cursor tags])
    have "agree d d' (cursor + 6 + sz) public []" using "1.prems"(2) by (simp add: agree_def)
    from "1.IH" [OF c n False u rest this] obtain new where
      IH: "extension_tags d' public (cursor + 6 + sz) (tags @ [(name, cursor + 6, sz)]) = Inr ts"
        "cursor + 6 + sz + 4 \<le> public" "ts = (tags @ [(name, cursor + 6, sz)]) @ new" "tag_seq (cursor + 6 + sz) new public" by blast
    have s: "slice d' cursor 4 = slice d cursor 4" "fld LE 2 d' (cursor + 4) = fld LE 2 d (cursor + 4)"
      using agree_slice [OF "1.prems"(2), of cursor 4] agree_fld [OF "1.prems"(2), of "cursor + 4" 2 LE] IH(2) by simp_all
    have "unpack_from LE 2 d' (cursor + 4) = Inr sz"
      using u s(2) IH(2) "1.prems"(2) by (auto simp: unpack_from_def agree_def split: if_splits)
    with False c n s IH show ?thesis
      by (simp add: extension_tags.simps [of d' public cursor tags])
  qed
qed

definition relocated :: "nat \<Rightarrow> nat \<Rightarrow> nat \<Rightarrow> bytes \<Rightarrow> bytes \<Rightarrow> tag \<Rightarrow> bool" where
  "relocated bitcode_end old new d out t \<longleftrightarrow>
     (case t of (name, i, k) \<Rightarrow>
        if name \<in> set OFFSET_SECTION_TAGS
        then k = 16 \<and> u64 LE out (i + 8) = u64 LE d (i + 8) \<and>
          u64 LE out i = (if u64 LE d i \<ge> bitcode_end then u64 LE d i + new - old else u64 LE d i)
        else slice out i k = slice d i k)"

lemma relocated_cong:
  assumes "slice a i k = slice b i k"
  shows "relocated e old new a out (name, i, k) = relocated e old new b out (name, i, k)"
proof (cases "k = 16")
  case True
  have "slice a i 8 = slice (slice a i k) 0 8" "slice b i 8 = slice (slice b i k) 0 8"
    "slice a (i + 8) 8 = slice (slice a i k) 8 8" "slice b (i + 8) 8 = slice (slice b i k) 8 8"
    by (simp_all add: slice_slice True)
  with assms have "u64 LE a i = u64 LE b i" "u64 LE a (i + 8) = u64 LE b (i + 8)" by (simp_all add: fld_def)
  with assms show ?thesis by (simp add: relocated_def)
qed (use assms in \<open>simp add: relocated_def\<close>)

lemma relocate_tags_exact:
  assumes "foldE (relocate_tag e old new) ts d = Inr out" and "tag_seq lo ts hi"
  shows "same_outside lo hi d out \<and> list_all (relocated e old new d out) ts"
  using assms
proof (induction ts arbitrary: d lo)
  case Nil
  then show ?case by simp
next
  case (Cons t ts)
  obtain name i k where t: "t = (name, i, k)" by (rule prod_cases3)
  from Cons.prems obtain d1 where a: "relocate_tag e old new t d = Inr d1"
    and b: "foldE (relocate_tag e old new) ts d1 = Inr out" and lo: "lo \<le> i" and sq: "tag_seq (i + k) ts hi"
    by (auto simp: t)
  from Cons.IH [OF b sq] have IH: "same_outside (i + k) hi d1 out" "list_all (relocated e old new d1 out) ts" by auto
  have s1: "same_outside i (i + k) d d1" by (rule relocate_tag_same [OF a]) (simp_all add: t)
  have hi: "i + k \<le> hi" using tag_seq_in [of lo "t # ts" hi name i k] Cons.prems(2) by (simp add: t)
  have "same_outside lo hi d out"
    using same_trans [OF same_wider [OF s1 lo hi] same_wider [OF IH(1), of lo hi]] lo by simp
  moreover have "relocated e old new d out t"
  proof (cases "name \<in> set OFFSET_SECTION_TAGS")
    case True
    with a have k: "k = 16" "i + 8 \<le> length d"
      "d1 = (if u64 LE d i \<ge> e then put LE 8 d i (u64 LE d i + new - old) else d)"
      "u64 LE d i \<ge> e \<Longrightarrow> u64 LE d i + new - old < 256 ^ 8"
      by (auto simp: relocate_tag_def t split: if_splits)
    have o: "u64 LE out i = u64 LE d1 i" "u64 LE out (i + 8) = u64 LE d1 (i + 8)"
      using k(1) by (simp_all add: same_fld [OF IH(1)])
    have "u64 LE d1 (i + 8) = u64 LE d (i + 8)" unfolding k(3) using k(2) by (simp add: fld_put_other)
    moreover have "u64 LE d1 i = (if u64 LE d i \<ge> e then u64 LE d i + new - old else u64 LE d i)"
      unfolding k(3) using k(2,4) by (simp add: fld_put)
    ultimately show ?thesis using True k(1) o by (simp add: relocated_def t)
  next
    case False
    with a have "d1 = d" by (simp add: relocate_tag_def t)
    with IH(1) False show ?thesis by (simp add: relocated_def t same_outside_def)
  qed
  moreover have "list_all (relocated e old new d out) ts"
  proof -
    have "relocated e old new d out u" if u: "u \<in> set ts" for u
    proof -
      obtain b j l where uu: "u = (b, j, l)" by (rule prod_cases3)
      have "i + k \<le> j" using tag_seq_in [OF sq, of b j l] u uu by simp
      then have "slice d1 j l = slice d j l" using s1 by (simp add: same_outside_def)
      with relocated_cong [of d1 j l d e old new out b] IH(2) u uu show ?thesis by (auto simp: list_all_iff)
    qed
    then show ?thesis by (simp add: list_all_iff)
  qed
  ultimately show ?case by simp
qed

lemma header_tags_again:
  assumes "parse_header_extension_tags d = Inr ts" and "agree d d' 24 48 []"
    and "agree d d' (u64 LE d 24 + u64 LE d 32 + 4) (u64 LE d 40) []"
  shows "parse_header_extension_tags d' = Inr ts \<and> tag_seq (u64 LE d 24 + u64 LE d 32 + 4) ts (u64 LE d 40)"
proof -
  have f: "u64 LE d' 24 = u64 LE d 24" "u64 LE d' 32 = u64 LE d 32" "u64 LE d' 40 = u64 LE d 40"
    by (rule agree_fld [OF assms(2)]; simp)+
  have r: "room d' 24 24 = Inr ()" using assms(2) by (simp add: agree_def)
  show ?thesis
  proof (cases "u64 LE d 24 + u64 LE d 32 + 4 = u64 LE d 40")
    case True
    with assms(1) f r show ?thesis by (simp add: parse_header_extension_tags_def Let_def)
  next
    case False
    with assms(1) have "extension_tags d (u64 LE d 40) (u64 LE d 24 + u64 LE d 32 + 4) [] = Inr ts"
      and "\<not> u64 LE d 24 + u64 LE d 32 + 4 > u64 LE d 40"
      by (auto simp: parse_header_extension_tags_def Let_def split: if_split_asm)
    with extension_tags_again [OF this(1) assms(3)] f r False show ?thesis
      by (simp add: parse_header_extension_tags_def Let_def)
  qed
qed

subsection \<open>The whole container\<close>

lemma endt_length: "length (encode_str ''ENDT'') = 4"
  by code_simp

lemma parsed_end: "parse_function_records d = Inr records \<Longrightarrow> u64 LE d 24 + u64 LE d 32 + 4 \<le> length d"
proof -
  assume p: "parse_function_records d = Inr records"
  then have "slice d (u64 LE d 24 + u64 LE d 32 + 4 - 4) 4 = encode_str ''ENDT''"
    by (auto simp: parse_function_records_def Let_def split: if_split_asm)
  then have "length (slice d (u64 LE d 24 + u64 LE d 32) 4) = 4" by (simp add: endt_length)
  then show ?thesis by (simp add: length_slice min_def split: if_split_asm)
qed

lemma assemble_exact:
  assumes ok: "assemble A sha d head modules = Inr out"
    and head: "length head = u64 LE d 72" "88 \<le> u64 LE d 72" "88 \<le> u64 LE d 24"
      "u64 LE d 24 + u64 LE d 32 + 4 \<le> length head"
    and keep: "\<And>j k. j + k \<le> u64 LE d 24 + 4 \<or> u64 LE d 24 + u64 LE d 32 + 4 \<le> j \<Longrightarrow> j + k \<le> length head \<Longrightarrow>
      slice head j k = slice d j k"
    and inside: "u64 LE d 40 \<le> u64 LE d 72" "u64 LE d 72 + u64 LE d 80 \<le> length d"
  shows "length out = u64 LE d 72 + length (concat modules) + (length d - (u64 LE d 72 + u64 LE d 80)) \<and>
    u64 LE out 16 = length out \<and> u64 LE out 80 = length (concat modules) \<and> slice out 24 56 = slice d 24 56 \<and>
    slice out (u64 LE d 24) (u64 LE d 32 + 4) = slice head (u64 LE d 24) (u64 LE d 32 + 4) \<and>
    slice out (u64 LE d 40) (u64 LE d 72 - u64 LE d 40) = slice d (u64 LE d 40) (u64 LE d 72 - u64 LE d 40) \<and>
    slice out (u64 LE d 72) (length (concat modules)) = concat modules \<and>
    drop (u64 LE d 72 + length (concat modules)) out = drop (u64 LE d 72 + u64 LE d 80) d \<and>
    (\<exists>tags. parse_header_extension_tags d = Inr tags \<and>
       list_all (relocated (u64 LE d 72 + u64 LE d 80) (u64 LE d 80) (length (concat modules)) d out) tags)"
proof -
  let ?bo = "u64 LE d 72" and ?new = "concat modules" and ?fo = "u64 LE d 24"
  let ?e = "?bo + u64 LE d 80" and ?fe = "?fo + u64 LE d 32 + 4" and ?po = "u64 LE d 40"
  define d0 where "d0 = head @ ?new @ drop ?e d"
  from ok obtain d1 tags where d1: "write_target A (legacy_unknown_target d) d0 = Inr d1"
    and r: "24 \<le> length d1" "88 \<le> length d1" "length d1 < 256 ^ 8" "length ?new < 256 ^ 8"
    and tags: "parse_header_extension_tags (put LE 8 (put LE 8 d1 16 (length d1)) 80 (length ?new)) = Inr tags"
    and out: "foldE (relocate_tag ?e (u64 LE d 80) (length ?new)) tags
        (put LE 8 (put LE 8 d1 16 (length d1)) 80 (length ?new)) = Inr out"
    by (auto simp: assemble_def Let_def d0_def)
  define d2 where "d2 = put LE 8 (put LE 8 d1 16 (length d1)) 80 (length ?new)"
  have s1: "same_outside 4 16 d0 d1" by (rule write_target_same [OF d1])
  then have l1: "length d1 = length d0" by (simp add: same_outside_def)
  have f2: "u64 LE d2 16 = length d1" "u64 LE d2 80 = length ?new" and l2: "length d2 = length d1"
    using r by (simp_all add: d2_def fld_put fld_put_other)
  have to0: "slice d2 j n = slice d0 j n" if "24 \<le> j \<and> j + n \<le> 80 \<or> 88 \<le> j" for j n
  proof -
    have "slice d2 j n = slice d1 j n" using r that by (auto simp: d2_def slice_put)
    also have "\<dots> = slice d0 j n" using s1 that by (auto simp: same_outside_def)
    finally show ?thesis .
  qed
  have to_head: "slice d2 j n = slice head j n" if "24 \<le> j \<and> j + n \<le> 80 \<or> 88 \<le> j" "j + n \<le> length head" for j n
    using to0 [OF that(1)] that(2) by (simp add: d0_def slice_append_left)
  have to_d: "slice d2 j n = slice d j n"
    if "24 \<le> j \<and> j + n \<le> 80 \<or> ?fe \<le> j" "j + n \<le> length head" for j n
  proof -
    have "24 \<le> j \<and> j + n \<le> 80 \<or> 88 \<le> j" "j + n \<le> ?fo + 4 \<or> ?fe \<le> j" using that(1) head(3) by auto
    with to_head [of j n] keep [of j n] that(2) show ?thesis by simp
  qed
  have hd: "u64 LE d2 24 = ?fo" "u64 LE d2 32 = u64 LE d 32" "u64 LE d2 40 = ?po"
    by (rule fld_cong, rule to_d; use head(1,2) in simp)+
  have "agree d2 d 24 48 []" "agree d2 d ?fe ?po []"
    using to_d head(1,2) inside by (auto simp: agree_def)
  from header_tags_again [OF tags [folded d2_def] this(1)] this(2)
  have tags_d: "parse_header_extension_tags d = Inr tags" and sq: "tag_seq ?fe tags ?po" by (simp_all add: hd)
  from relocate_tags_exact [OF out [folded d2_def] sq]
  have s3: "same_outside ?fe ?po d2 out" and rl: "list_all (relocated ?e (u64 LE d 80) (length ?new) d2 out) tags" by auto
  then have l3: "length out = length d2" by (simp add: same_outside_def)
  have "relocated ?e (u64 LE d 80) (length ?new) d out t" if t: "t \<in> set tags" for t
  proof -
    obtain b j l where tt: "t = (b, j, l)" by (rule prod_cases3)
    have "?fe \<le> j \<and> j + l \<le> ?po" using tag_seq_in [OF sq, of b j l] t tt by simp
    then have "slice d2 j l = slice d j l" using to_d inside(1) head(1) by simp
    with relocated_cong [of d2 j l d] rl t tt show ?thesis by (auto simp: list_all_iff)
  qed
  then have rel: "list_all (relocated ?e (u64 LE d 80) (length ?new) d out) tags" by (simp add: list_all_iff)
  have fo2: "slice out j n = slice d2 j n" if "j + n \<le> ?fe \<or> ?po \<le> j" for j n
    using s3 that unfolding same_outside_def by blast
  have tl: "slice out j n = slice d0 j n" if "?bo \<le> j" for j n
    using fo2 [of j n] to0 [of j n] that inside(1) head(2) by simp
  have "slice out ?bo (length ?new) = ?new" using tl [of ?bo "length ?new"] head(1) by (simp add: d0_def slice_def)
  moreover have "drop (?bo + length ?new) out = drop ?e d"
    using tl [of "?bo + length ?new" "length out"] head(1) l1 l2 l3 by (simp add: d0_def slice_def)
  moreover have "u64 LE out 16 = length out" "u64 LE out 80 = length ?new"
    using s3 f2 l2 l3 head(3) by (simp_all add: same_fld)
  moreover have "length out = ?bo + length ?new + (length d - ?e)"
    using l1 l2 l3 head(1) inside(2) by (simp add: d0_def)
  moreover have "slice out 24 56 = slice d 24 56"
    using fo2 [of 24 56] to_d [of 24 56] head(1-3) by simp
  moreover have "slice out ?fo (u64 LE d 32 + 4) = slice head ?fo (u64 LE d 32 + 4)"
    using fo2 [of ?fo "u64 LE d 32 + 4"] to_head [of ?fo "u64 LE d 32 + 4"] head(3,4) by simp
  moreover have "slice out ?po (?bo - ?po) = slice d ?po (?bo - ?po)"
  proof (cases "?fe \<le> ?po")
    case True
    then show ?thesis using fo2 [of ?po "?bo - ?po"] to_d [of ?po "?bo - ?po"] inside(1) head(1) by simp
  next
    case False
    with tags hd show ?thesis by (simp add: parse_header_extension_tags_def Let_def d2_def split: if_split_asm)
  qed
  ultimately show ?thesis using tags_d rel by blast
qed

text \<open>C13: Repacking a Metal library never guesses.  Provided that the public metadata starts no later
  than the bitcode section, a successful run gives a container of which every byte behind the sixteenth is
  determined: the file length and the bitcode size are right, the rest of the header is kept;
  parsed again, it has the same function records with the same names, tags, types and versions, but the
  offsets place the conversions one behind the other without gaps, the sizes are theirs, and the digest
  field of each record is the SHA-256 of its conversion; each offset of the header extension that pointed
  behind the old bitcode section has moved with it and every other tag is unchanged; the
  public metadata is kept; the bitcode section is exactly the conversions of the modules the records
  name, in order; and everything behind the old bitcode section follows unchanged.\<close>

theorem convert_layout:
  assumes "convert A sha tools d = Inr out" and "\<forall>x. length (sha x) = 32"
    and "u64 LE d 40 \<le> u64 LE d 72"
  shows "\<exists>records modules tags.
    parse_function_records (take (u64 LE d 72) d) = Inr records \<and>
    list_all2 (\<lambda>r m. convert_module A sha tools d r = Inr m) records modules \<and>
    length out = u64 LE d 72 + length (concat modules) + (length d - (u64 LE d 72 + u64 LE d 80)) \<and>
    u64 LE out 16 = length out \<and> u64 LE out 80 = length (concat modules) \<and> slice out 24 56 = slice d 24 56 \<and>
    parse_function_records out = Inr (place 0 records modules) \<and>
    list_all2 (\<lambda>r m. slice out (tag_at (frec_tags r) ''HASH'') 32 = sha m) records modules \<and>
    parse_header_extension_tags d = Inr tags \<and>
    list_all (relocated (u64 LE d 72 + u64 LE d 80) (u64 LE d 80) (length (concat modules)) d out) tags \<and>
    slice out (u64 LE d 40) (u64 LE d 72 - u64 LE d 40) = slice d (u64 LE d 40) (u64 LE d 72 - u64 LE d 40) \<and>
    slice out (u64 LE d 72) (length (concat modules)) = concat modules \<and>
    drop (u64 LE d 72 + length (concat modules)) out = drop (u64 LE d 72 + u64 LE d 80) d"
proof -
  from assms(1) obtain records head modules where c: "check_container A d = Inr ()"
    and p: "parse_function_records (take (u64 LE d 72) d) = Inr records"
    and m: "convert_modules A sha tools d records (take (u64 LE d 72) d) 0 = Inr (head, modules)"
    and a: "assemble A sha d head modules = Inr out" by (rule convert_Inr)
  let ?bo = "u64 LE d 72" and ?fo = "u64 LE d 24" and ?fs = "u64 LE d 32 + 4"
  from c have b: "88 \<le> ?bo" "?bo + u64 LE d 80 \<le> length d"
    by (auto simp: check_container_def MTLB_HEADER_SIZE_def split: if_split_asm)
  have l: "length (take ?bo d) = ?bo" using b by simp
  have sl: "slice (take ?bo d) j k = slice d j k" if "j + k \<le> ?bo" for j k
    using that by (simp add: slice_def drop_take min_def)
  have hf: "u64 LE (take ?bo d) 24 = ?fo" "u64 LE (take ?bo d) 32 = u64 LE d 32" using b(1) sl by (auto intro: fld_cong)
  from parsed_records_in [OF p] have lo: "88 \<le> ?fo" by (simp add: hf)
  from parsed_chain [OF p] have ch: "rec_chain (?fo + 4) records (?fo + ?fs)" by (simp add: hf add.assoc)
  from parsed_end [OF p] have fe: "?fo + ?fs \<le> ?bo" using l hf by simp
  from convert_modules_placed [OF m ch] fe l assms(2)
  have hl: "length head = ?bo" and hk: "\<And>j k. clear_of (all_fields records) j k \<Longrightarrow> slice head j k = slice (take ?bo d) j k"
    and pl: "placed sha head 0 records modules"
    and cm: "list_all2 (\<lambda>r m. convert_module A sha tools d r = Inr m) records modules" by auto
  have keep: "slice head j k = slice d j k" if "j + k \<le> ?fo + 4 \<or> ?fo + u64 LE d 32 + 4 \<le> j" "j + k \<le> length head" for j k
    using hk [OF rec_chain_clear [OF ch, of j k]] that sl [of j k] hl by auto
  have fe': "?fo + u64 LE d 32 + 4 \<le> length head" using fe hl by simp
  note ex = assemble_exact [OF a hl b(1) lo fe' keep assms(3) b(2)]
  then have lst: "slice out ?fo ?fs = slice head ?fo ?fs" and lout: "?bo \<le> length out" and h24: "slice out 24 56 = slice d 24 56" by auto
  have inl: "slice out j k = slice head j k" if "?fo \<le> j" "j + k \<le> ?fo + ?fs" for j k
  proof -
    have "slice out j k = slice (slice out ?fo ?fs) (j - ?fo) k" "slice head j k = slice (slice head ?fo ?fs) (j - ?fo) k"
      using that by (simp_all add: slice_slice)
    with lst show ?thesis by simp
  qed
  have agr: "agree (take ?bo d) out ?fo (?fo + u64 LE d 32 + 4) (all_fields records)"
    unfolding agree_def using fe lout inl hk by auto
  have o24: "u64 LE out 24 = ?fo" "u64 LE out 32 = u64 LE d 32"
  proof -
    have "slice out 24 8 = slice (slice out 24 56) 0 8" "slice d 24 8 = slice (slice d 24 56) 0 8"
      "slice out 32 8 = slice (slice out 24 56) 8 8" "slice d 32 8 = slice (slice d 24 56) 8 8" by (simp_all add: slice_slice)
    with h24 show "u64 LE out 24 = ?fo" "u64 LE out 32 = u64 LE d 32" by (simp_all add: fld_def)
  qed
  have "placed sha out 0 records modules = placed sha head 0 records modules"
  proof (rule placed_cong)
    fix i k assume "(i, k) \<in> set (all_fields records)"
    with rec_chain_bounds [OF ch] have "?fo + 4 + 4 \<le> i \<and> i + k \<le> ?fo + ?fs - 4" by blast
    then show "slice out i k = slice head i k" by (intro inl) auto
  qed
  with pl have po: "placed sha out 0 records modules" by simp
  from parse_records_again [OF p, of out] agr o24 hf placed_place [OF po]
  have "parse_function_records out = Inr (place 0 records modules)" by simp
  with ex p cm placed_hashes [OF po] show ?thesis by blast
qed

text \<open>A container with one function, a relocated tag and four trailing bytes.\<close>

definition sample_sha :: sha256 where
  "sample_sha x = replicate 31 0 @ [of_nat (length x)]"

definition sample_args :: repack_args where
  "sample_args = \<lparr>target_triple = ''air64-apple-ios17.0-macabi'', container_target = ''macabi'', target_major = 17,
     target_minor = 0, only_functions = [], fract_names = [], memset_names = [], half_names = [], auto_lower = False,
     in_place = False, preserve_target = False\<rparr>"

definition sample_tools :: air_tools where
  "sample_tools r m = Inr ([0xde, 0xc0, 0x17, 0x0b] @ m)"

definition sample_head :: bytes where
  "sample_head =
    [77, 84, 76, 66, 1, 0, 2, 0, 7, 0, 0, 130, 0, 0, 0, 0, 224, 0, 0, 0, 0, 0, 0, 0, 88, 0, 0, 0, 0, 0, 0, 0, 98,
    0, 0, 0, 0, 0, 0, 0, 216, 0, 0, 0, 0, 0, 0, 0, 0, 0, 0, 0, 0, 0, 0, 0, 0, 0, 0, 0, 0, 0, 0, 0, 0, 0, 0, 0, 0,
    0, 0, 0, 216, 0, 0, 0, 0, 0, 0, 0, 4, 0, 0, 0, 0, 0, 0, 0, 1, 0, 0, 0, 98, 0, 0, 0, 78, 65, 77, 69, 2, 0, 102,
    0, 72, 65, 83, 72, 32, 0, 0, 0, 0, 0, 0, 0, 0, 0, 0, 0, 0, 0, 0, 0, 0, 0, 0, 0, 0, 0, 0, 0, 0, 0, 0, 0, 0, 0,
    0, 0, 0, 4, 79, 70, 70, 84, 24, 0, 0, 0, 0, 0, 0, 0, 0, 0, 0, 0, 0, 0, 0, 0, 0, 0, 0, 0, 0, 0, 0, 0, 0, 0, 77,
    68, 83, 90, 8, 0, 4, 0, 0, 0, 0, 0, 0, 0, 69, 78, 68, 84, 72, 68, 89, 78, 16, 0, 220, 0, 0, 0, 0, 0, 0, 0, 4,
    0, 0, 0, 0, 0, 0, 0, 69, 78, 68, 84]"

definition sample_head_out :: bytes where
  "sample_head_out =
    [77, 84, 76, 66, 1, 0, 2, 0, 7, 0, 0, 130, 0, 0, 0, 0, 224, 0, 0, 0, 0, 0, 0, 0, 88, 0, 0, 0, 0, 0, 0, 0, 98,
    0, 0, 0, 0, 0, 0, 0, 216, 0, 0, 0, 0, 0, 0, 0, 0, 0, 0, 0, 0, 0, 0, 0, 0, 0, 0, 0, 0, 0, 0, 0, 0, 0, 0, 0, 0,
    0, 0, 0, 216, 0, 0, 0, 0, 0, 0, 0, 4, 0, 0, 0, 0, 0, 0, 0, 1, 0, 0, 0, 98, 0, 0, 0, 78, 65, 77, 69, 2, 0, 102,
    0, 72, 65, 83, 72, 32, 0, 0, 0, 0, 0, 0, 0, 0, 0, 0, 0, 0, 0, 0, 0, 0, 0, 0, 0, 0, 0, 0, 0, 0, 0, 0, 0, 0, 0,
    0, 0, 0, 16, 79, 70, 70, 84, 24, 0, 0, 0, 0, 0, 0, 0, 0, 0, 0, 0, 0, 0, 0, 0, 0, 0, 0, 0, 0, 0, 0, 0, 0, 0,
    77, 68, 83, 90, 8, 0, 16, 0, 0, 0, 0, 0, 0, 0, 69, 78, 68, 84, 72, 68, 89, 78, 16, 0, 220, 0, 0, 0, 0, 0, 0,
    0, 4, 0, 0, 0, 0, 0, 0, 0, 69, 78, 68, 84]"

definition sample_metallib :: bytes where
  "sample_metallib = sample_head @ [1, 2, 3, 4, 9, 9, 9, 9]"

definition sample_out :: bytes where
  "sample_out =
    [77, 84, 76, 66, 1, 128, 2, 0, 7, 0, 0, 134, 17, 0, 0, 0, 236, 0, 0, 0, 0, 0, 0, 0, 88, 0, 0, 0, 0, 0, 0, 0,
    98, 0, 0, 0, 0, 0, 0, 0, 216, 0, 0, 0, 0, 0, 0, 0, 0, 0, 0, 0, 0, 0, 0, 0, 0, 0, 0, 0, 0, 0, 0, 0, 0, 0, 0, 0,
    0, 0, 0, 0, 216, 0, 0, 0, 0, 0, 0, 0, 16, 0, 0, 0, 0, 0, 0, 0, 1, 0, 0, 0, 98, 0, 0, 0, 78, 65, 77, 69, 2, 0,
    102, 0, 72, 65, 83, 72, 32, 0, 0, 0, 0, 0, 0, 0, 0, 0, 0, 0, 0, 0, 0, 0, 0, 0, 0, 0, 0, 0, 0, 0, 0, 0, 0, 0,
    0, 0, 0, 0, 0, 16, 79, 70, 70, 84, 24, 0, 0, 0, 0, 0, 0, 0, 0, 0, 0, 0, 0, 0, 0, 0, 0, 0, 0, 0, 0, 0, 0, 0, 0,
    0, 77, 68, 83, 90, 8, 0, 16, 0, 0, 0, 0, 0, 0, 0, 69, 78, 68, 84, 72, 68, 89, 78, 16, 0, 232, 0, 0, 0, 0, 0,
    0, 0, 4, 0, 0, 0, 0, 0, 0, 0, 69, 78, 68, 84, 222, 192, 23, 11, 1, 2, 3, 4, 0, 0, 0, 0, 0, 0, 0, 0, 9, 9, 9,
    9]"

definition sample_frec :: "nat \<Rightarrow> function_record" where
  "sample_frec n = \<lparr>frec_index = 0, frec_name = ''f'',
     frec_tags = [(''NAME'', 102, 2), (''HASH'', 110, 32), (''OFFT'', 148, 24), (''MDSZ'', 178, 8)],
     frec_type = None, frec_versions = None, frec_offset = 0, frec_size = n\<rparr>"

lemma sample_strings:
  "decode_ascii [78, 65, 77, 69] = Inr ''NAME''" "decode_ascii [72, 65, 83, 72] = Inr ''HASH''"
  "decode_ascii [79, 70, 70, 84] = Inr ''OFFT''" "decode_ascii [77, 68, 83, 90] = Inr ''MDSZ''"
  "decode_ascii [69, 78, 68, 84] = Inr ''ENDT''" "decode_ascii [72, 68, 89, 78] = Inr ''HDYN''"
  "decode_utf8 [102] = Inr ''f''" "encode_str ''ENDT'' = [69, 78, 68, 84]" "encode_str ''MTLB'' = [77, 84, 76, 66]"
  by code_simp+

lemma sample_head_facts:
  "length sample_head = 216" "fld LE 8 sample_head 24 = 88" "fld LE 8 sample_head 32 = 98" "fld LE 4 sample_head 88 = 1"
  "fld LE 4 sample_head 92 = 98" "fld LE 2 sample_head 100 = 2" "fld LE 2 sample_head 108 = 32" "fld LE 2 sample_head 146 = 24"
  "fld LE 2 sample_head 176 = 8" "fld LE 8 sample_head 164 = 0" "fld LE 8 sample_head 178 = 4" "slice sample_head 96 4 = [78, 65, 77, 69]"
  "slice sample_head 104 4 = [72, 65, 83, 72]" "slice sample_head 142 4 = [79, 70, 70, 84]" "slice sample_head 172 4 = [77, 68, 83, 90]" "slice sample_head 186 4 = [69, 78, 68, 84]"
  "slice sample_head 102 2 = [102, 0]" "slice sample_head 110 32 = [0, 0, 0, 0, 0, 0, 0, 0, 0, 0, 0, 0, 0, 0, 0, 0, 0, 0, 0, 0, 0, 0, 0, 0, 0, 0, 0, 0, 0, 0, 0, 4]"
  by (simp_all add: sample_head_def fld_def slice_def dec_def)

lemma sample_out_facts:
  "length sample_out = 236" "fld LE 8 sample_out 24 = 88" "fld LE 8 sample_out 32 = 98" "fld LE 4 sample_out 88 = 1"
  "fld LE 4 sample_out 92 = 98" "fld LE 2 sample_out 100 = 2" "fld LE 2 sample_out 108 = 32" "fld LE 2 sample_out 146 = 24"
  "fld LE 2 sample_out 176 = 8" "fld LE 8 sample_out 164 = 0" "fld LE 8 sample_out 178 = 16" "slice sample_out 96 4 = [78, 65, 77, 69]"
  "slice sample_out 104 4 = [72, 65, 83, 72]" "slice sample_out 142 4 = [79, 70, 70, 84]" "slice sample_out 172 4 = [77, 68, 83, 90]" "slice sample_out 186 4 = [69, 78, 68, 84]"
  "slice sample_out 102 2 = [102, 0]" "slice sample_out 110 32 = [0, 0, 0, 0, 0, 0, 0, 0, 0, 0, 0, 0, 0, 0, 0, 0, 0, 0, 0, 0, 0, 0, 0, 0, 0, 0, 0, 0, 0, 0, 0, 16]"
  by (simp_all add: sample_out_def fld_def slice_def dec_def)

lemmas parse_eval = parse_function_records_def read_group_def group_tags.simps room_def unpack_from_def MTLB_HEADER_SIZE_def
  tag_ok_def tag_at_def sample_strings sample_frec_def

lemma sample_parse:
  "parse_function_records sample_head = Inr [sample_frec 4]" "parse_function_records sample_out = Inr [sample_frec 16]"
  by (simp_all add: parse_eval sample_head_facts sample_out_facts)

lemma sample_metallib_facts:
  "length sample_metallib = 224" "take 216 sample_metallib = sample_head" "drop 220 sample_metallib = [9, 9, 9, 9]"
  "take 4 sample_metallib = [77, 84, 76, 66]" "fld LE 2 sample_metallib 4 = 1" "fld LE 2 sample_metallib 6 = 2"
  "fld LE 2 sample_metallib 8 = 7" "sample_metallib ! 10 = 0" "sample_metallib ! 11 = 0x82"
  "fld LE 8 sample_metallib 16 = 224" "fld LE 8 sample_metallib 24 = 88" "fld LE 8 sample_metallib 40 = 216"
  "fld LE 8 sample_metallib 72 = 216" "fld LE 8 sample_metallib 80 = 4" "slice sample_metallib 216 4 = [1, 2, 3, 4]"
  "slice sample_metallib 110 32 = [0, 0, 0, 0, 0, 0, 0, 0, 0, 0, 0, 0, 0, 0, 0, 0, 0, 0, 0, 0, 0, 0, 0, 0, 0, 0, 0, 0, 0, 0, 0, 4]"
  by (simp_all add: sample_metallib_def sample_head_def fld_def slice_def dec_def)

lemma sample_triple: "target_triple_matches_container ''air64-apple-ios17.0-macabi'' ''macabi''"
  by code_simp

lemma sample_checks:
  "check_container sample_args sample_metallib = Inr ()" "legacy_unknown_target sample_metallib = False"
  "check_selection sample_args False = Inr ()"
  by (simp_all add: check_container_def check_selection_def sample_args_def legacy_unknown_target_def known_target_def
    sample_metallib_facts sample_strings sample_triple MTLB_HEADER_SIZE_def IOS_PLATFORM_def IOS_TARGET_OS_def)

lemma sample_zeros: "replicate 31 0 = [0, 0, 0, 0, 0, 0, 0, 0, 0, 0, 0, 0, 0, 0, 0, 0, 0, 0, 0, 0, 0, 0, 0, 0, 0, 0, 0, 0, 0, 0, 0]" "replicate 8 0 = [0, 0, 0, 0, 0, 0, 0, 0]"
  by (simp_all add: numeral_eq_Suc)

lemma le_bytes_numeral: "le_bytes (numeral k) v = of_nat v # le_bytes (pred_numeral k) (v div 256)"
  by (subst numeral_eq_Suc) (rule le_bytes.simps(2))

lemma sample_conversion:
  "convert_module sample_args sample_sha sample_tools sample_metallib (sample_frec 4) =
     Inr [0xde, 0xc0, 0x17, 0x0b, 1, 2, 3, 4, 0, 0, 0, 0, 0, 0, 0, 0]"
  by (simp add: convert_module_def module_of_def retarget_air_def sample_args_def sample_frec_def
    sample_tools_def sample_sha_def tag_at_def sample_metallib_facts sample_zeros)

lemma sample_write: "write_record sample_sha (sample_frec 4)
    [0xde, 0xc0, 0x17, 0x0b, 1, 2, 3, 4, 0, 0, 0, 0, 0, 0, 0, 0] 0 sample_head = Inr sample_head_out"
  by (simp add: write_record_def pack_into_def sample_head_facts tag_at_def sample_frec_def sample_sha_def sample_zeros)
    (simp add: put_def splice_def enc_def sample_head_def sample_head_out_def le_bytes_numeral)

definition sample_new :: bytes where
  "sample_new = [0xde, 0xc0, 0x17, 0x0b, 1, 2, 3, 4, 0, 0, 0, 0, 0, 0, 0, 0]"

text \<open>The rebuilt file before its tags are relocated.\<close>

definition sample_mid :: bytes where
  "sample_mid = take 196 sample_out @ [220] @ drop 197 sample_out"

definition sample_first :: bytes where
  "sample_first = take 16 sample_out @ drop 16 (sample_head_out @ sample_new @ [9, 9, 9, 9])"

lemma sample_target:
  "write_target sample_args False (sample_head_out @ sample_new @ [9, 9, 9, 9]) = Inr (sample_first)"
  by (simp add: sample_first_def write_target_def sample_args_def container_targets_def MACOS_PLATFORM_def MACABI_TARGET_OS_def
    pack_into_def sample_new_def put_def splice_def enc_def sample_head_out_def sample_out_def le_bytes_numeral)

lemma sample_resized:
  "put LE 8 (put LE 8 sample_first 16 236) 80 16 = sample_mid"
  by (simp add: sample_first_def sample_new_def sample_mid_def put_def splice_def enc_def sample_head_out_def sample_out_def le_bytes_numeral)

lemma sample_mid_facts:
  "length sample_mid = 236" "fld LE 8 sample_mid 24 = 88" "fld LE 8 sample_mid 32 = 98" "fld LE 8 sample_mid 40 = 216"
  "slice sample_mid 190 4 = [72, 68, 89, 78]" "fld LE 2 sample_mid 194 = 16" "fld LE 8 sample_mid 196 = 220"
  "slice sample_mid 212 4 = [69, 78, 68, 84]" "put LE 8 sample_mid 196 232 = sample_out"
  "slice sample_out 216 16 = sample_new"
  by (simp_all add: sample_mid_def sample_out_def sample_new_def fld_def slice_def dec_def put_def splice_def enc_def
    le_bytes_numeral)

lemma sample_tags: "parse_header_extension_tags sample_mid = Inr [(''HDYN'', 196, 16)]"
  by (simp add: parse_header_extension_tags_def extension_tags.simps unpack_from_def room_def sample_mid_facts sample_strings)

lemma sample_assemble: "assemble sample_args sample_sha sample_metallib sample_head_out [sample_new] = Inr sample_out"
proof -
  have "length sample_first = 236" "length sample_new = 16"
    by (simp_all add: sample_first_def sample_out_def sample_head_out_def sample_new_def)
  moreover have "verify_record sample_sha sample_out 216 (sample_frec 16) () = Inr ()"
    by (simp add: verify_record_def sample_frec_def tag_at_def sample_mid_facts sample_out_facts)
      (simp add: sample_sha_def sample_new_def sample_zeros)
  moreover have "relocate_tag 220 4 16 (''HDYN'', 196, 16) sample_mid = Inr sample_out"
    by (simp add: relocate_tag_def OFFSET_SECTION_TAGS_def unpack_from_def pack_into_def sample_mid_facts)
  ultimately show ?thesis
    by (simp add: assemble_def sample_checks sample_metallib_facts sample_target sample_resized sample_tags sample_parse
      pack_into_def)
qed

lemma sample_converted: "convert sample_args sample_sha sample_tools sample_metallib = Inr sample_out"
proof -
  have "only_functions sample_args = []" by (simp add: sample_args_def)
  moreover have "convert_modules sample_args sample_sha sample_tools sample_metallib [sample_frec 4] sample_head 0 =
      Inr (sample_head_out, [sample_new])"
    by (simp add: sample_conversion sample_write sample_new_def)
  ultimately show ?thesis
    by (simp add: convert_def sample_checks sample_metallib_facts sample_parse sample_assemble del: convert_modules.simps)
qed

theorem convert_layout_witness:
  "convert sample_args sample_sha sample_tools sample_metallib = Inr sample_out \<and>
   slice sample_out 216 16 = sample_new \<and>
   (\<exists>records modules tags. slice sample_out 216 (length (concat modules)) = concat modules \<and>
      parse_function_records sample_out = Inr (place 0 records modules) \<and>
      parse_header_extension_tags sample_metallib = Inr tags \<and>
      list_all (relocated 220 4 (length (concat modules)) sample_metallib sample_out) tags)"
  using convert_layout [OF sample_converted] sample_converted sample_mid_facts(10)
  by (auto simp: sample_metallib_facts sample_sha_def)

subsection \<open>In-place retargeting\<close>

text \<open>A regular-expression step consumes a prefix.\<close>

definition consumes :: "(string \<Rightarrow> string option) \<Rightarrow> bool" where
  "consumes f \<longleftrightarrow> (\<forall>s t. f s = Some t \<longrightarrow> (\<exists>p. s = p @ t))"

lemma lit_Some: "lit p s = Some t \<longleftrightarrow> s = p @ t"
  by (auto simp: lit_def starts_iff)

lemma consumes_lit: "consumes (lit p)"
  by (auto simp: consumes_def lit_Some)

lemma consumes_digits: "consumes digits"
  by (auto simp: consumes_def digits_def split: list.splits if_split_asm)
    (metis takeWhile_dropWhile_id dropWhile.simps(2))

lemma consumes_bind: "consumes f \<Longrightarrow> consumes g \<Longrightarrow> consumes (\<lambda>s. Option.bind (f s) g)"
  by (fastforce simp: consumes_def bind_eq_Some_conv)

lemma consumes_maybe: "consumes f \<Longrightarrow> \<exists>p. s = p @ maybe f s"
  by (auto simp: consumes_def maybe_def split: option.splits)

lemma consumes_map_maybe: "consumes f \<Longrightarrow> consumes g \<Longrightarrow> consumes (\<lambda>s. map_option (maybe g) (f s))"
  unfolding consumes_def [of f] by (auto simp: consumes_def [of "\<lambda>s. map_option (maybe g) (f s)"]) (metis append.assoc consumes_maybe)

lemma consumes_alt:
  "consumes f \<Longrightarrow> consumes g \<Longrightarrow> consumes (\<lambda>s. case f s of Some t \<Rightarrow> Some t | None \<Rightarrow> g s)"
  by (auto simp: consumes_def split: option.splits)

lemma consumes_version: "consumes version_numbers"
proof -
  have d: "consumes dotted" unfolding dotted_def [abs_def] by (intro consumes_bind consumes_lit consumes_digits)
  then have "consumes (\<lambda>s. map_option (maybe dotted) (map_option (maybe dotted) (digits s)))"
    by (intro consumes_map_maybe consumes_digits)
  then show ?thesis by (simp add: version_numbers_def [abs_def] option.map_comp comp_def)
qed

lemma air_target_consumes:
  assumes "air_target s = Some t"
  shows "\<exists>p. s = p @ t \<and> p \<noteq> []"
proof -
  from assms obtain u where u: "lit ''air64'' s = Some u"
    by (auto simp: air_target_def air_prefix_def bind_eq_Some_conv)
  have v: "consumes (\<lambda>s. Option.bind (lit ''_v'' s) digits)"
    by (intro consumes_bind consumes_lit consumes_digits)
  obtain w where w: "air_prefix s = Some w" and t: "Option.bind (case lit ''ios'' w of Some t \<Rightarrow> Some t | None \<Rightarrow> lit ''macosx'' w)
      (\<lambda>s. map_option (maybe (lit ''-macabi'')) (version_numbers s)) = Some t"
    using assms by (auto simp: air_target_def bind_eq_Some_conv)
  from w u have l: "lit ''-apple-'' (maybe (\<lambda>s. Option.bind (lit ''_v'' s) digits) u) = Some w"
    by (simp add: air_prefix_def)
  obtain p3 where "w = p3 @ t"
  proof -
    have "consumes (\<lambda>w. Option.bind (case lit ''ios'' w of Some t \<Rightarrow> Some t | None \<Rightarrow> lit ''macosx'' w)
      (\<lambda>s. map_option (maybe (lit ''-macabi'')) (version_numbers s)))"
      by (intro consumes_bind consumes_alt consumes_lit consumes_map_maybe consumes_version)
    with t show ?thesis unfolding consumes_def using that by blast
  qed
  moreover obtain p2 where "maybe (\<lambda>s. Option.bind (lit ''_v'' s) digits) u = p2 @ w"
    using l consumes_lit unfolding consumes_def by blast
  moreover obtain p where "u = p @ maybe (\<lambda>s. Option.bind (lit ''_v'' s) digits) u" using consumes_maybe [OF v] by blast
  moreover have "s = ''air64'' @ u" using u by (simp only: lit_Some)
  ultimately have "s = (''air64'' @ p @ p2 @ p3) @ t" by simp
  then show ?thesis by blast
qed

lemma air_matches_in:
  assumes "(a, b) \<in> set (air_matches i skip s)"
  shows "i \<le> a \<and> a < b \<and> b \<le> i + length s \<and> air_target (drop (a - i) s) = Some (drop (b - i) s)"
  using assms
proof (induction i skip s rule: air_matches.induct)
  case (1 i skip)
  then show ?case by simp
next
  case (2 i skip c s)
  then show ?case by (auto simp: Suc_diff_le drop_Cons')
next
  case (3 i c s)
  show ?case
  proof (cases "air_target (c # s)")
    case None
    with 3 show ?thesis by (auto simp: drop_Cons')
  next
    case (Some t)
    then obtain p where p: "c # s = p @ t" "p \<noteq> []" using air_target_consumes by blast
    then have l: "length (c # s) - length t = length p" "length p \<le> Suc (length s)" by (metis add_diff_cancel_right' length_append, metis le_add1 length_Cons length_append)
    have e: "air_matches i 0 (c # s) = (i, i + length p) # air_matches (Suc i) (length p - 1) s"
      using Some l(1) by (simp add: Let_def)
    show ?thesis
    proof (cases "(a, b) = (i, i + length p)")
      case True
      with Some p l show ?thesis by (auto simp: drop_append)
    next
      case False
      with 3(3) e have "(a, b) \<in> set (air_matches (Suc i) (length p - 1) s)" by auto
      with 3(2) [OF Some refl] l(1)
      have "Suc i \<le> a \<and> a < b \<and> b \<le> Suc i + length s \<and> air_target (drop (a - Suc i) s) = Some (drop (b - Suc i) s)"
        by (simp only:)
      then show ?thesis by (simp add: drop_Cons')
    qed
  qed
qed

text \<open>Retargeting a legacy module in place changes exactly its one AIR target triple: the module
  keeps its length, the new text stands where the old triple was matched, and every other byte is
  unchanged.\<close>

theorem retarget_in_place_exact:
  assumes "retarget_air_in_place module triple = Inr out"
  shows "\<exists>a b. air_matches 0 0 (text_of module) = [(a, b)] \<and> a < b \<and> b \<le> length module \<and>
    air_target (drop a (text_of module)) = Some (drop b (text_of module)) \<and>
    length out = length module \<and> slice out a (b - a) = encode_str triple \<and>
    take a out = take a module \<and> drop b out = drop b module"
proof -
  from assms obtain a b where m: "air_matches 0 0 (text_of module) = [(a, b)]"
    and l: "length (encode_str triple) = b - a" and out: "out = splice module a (encode_str triple)"
    by (auto simp: retarget_air_in_place_def split: list.splits if_split_asm)
  from air_matches_in [of a b 0 0 "text_of module"] m
  have b: "a < b" "b \<le> length module" "air_target (drop a (text_of module)) = Some (drop b (text_of module))"
    by (simp_all add: text_of_def)
  then have "a + length (encode_str triple) = b" using l by simp
  with b m l show ?thesis unfolding out by (simp add: slice_splice_same [of a "encode_str triple" module, simplified]) (auto simp: splice_def slice_def)
qed

theorem retarget_in_place_exact_witness:
  "\<exists>out. retarget_air_in_place ([1, 2] @ encode_str ''air64-apple-ios13.0'' @ [3]) ''air64-apple-ios17.5'' = Inr out \<and>
    length out = 22 \<and> drop 21 out = [3]"
proof -
  let ?m = "[1, 2] @ encode_str ''air64-apple-ios13.0'' @ [3]"
  have e: "?m = [1, 2, 97, 105, 114, 54, 52, 45, 97, 112, 112, 108, 101, 45, 105, 111, 115, 49, 51, 46, 48, 3]" by code_simp
  have "isl (retarget_air_in_place ?m ''air64-apple-ios17.5'') = False" by code_simp
  then obtain out where out: "retarget_air_in_place ?m ''air64-apple-ios17.5'' = Inr out"
    by (cases "retarget_air_in_place ?m ''air64-apple-ios17.5''") auto
  have "air_matches 0 0 (text_of ?m) = [(2, 21)]" by code_simp
  with retarget_in_place_exact [OF out] have "length out = length ?m" "drop 21 out = drop 21 ?m" by auto
  then show ?thesis using out unfolding e by simp
qed

end
