(* ===== verification/ManagedJobs.thy ===== *)
theory ManagedJobs
  imports PyValue Strings
begin

text \<open>
  \<^verbatim>\<open>layout/usr/macOS/bin/macws_refresh_managed_job.py\<close>: the activation of an upgraded launchd
  job.  The script reads the launchctl and ps inventories twice and loads a job only when both
  say that it is absent; it never unloads anything.  The processes it starts are a parameter,
  \<open>execute\<close>, which answers the \<open>i\<close>-th command line with its standard output or an error; the
  command lines issued are part of the result.  Texts are ASCII: other whitespace and digits of
  Unicode do not occur in the two inventories.
\<close>

subsection \<open>Splitting text\<close>

definition is_space :: "char \<Rightarrow> bool" where
  "is_space c \<longleftrightarrow> (let n = (of_char c :: nat) in (9 \<le> n \<and> n \<le> 13) \<or> (28 \<le> n \<and> n \<le> 32))"

definition is_break :: "char \<Rightarrow> bool" where
  "is_break c \<longleftrightarrow> (let n = (of_char c :: nat) in (10 \<le> n \<and> n \<le> 13) \<or> (28 \<le> n \<and> n \<le> 30))"

definition strip :: "string \<Rightarrow> string" where
  "strip s = rev (dropWhile is_space (rev (dropWhile is_space s)))"

text \<open>\<open>text.splitlines()\<close>; \<open>line\<close> is the current line, reversed.\<close>

fun split_lines :: "string \<Rightarrow> string \<Rightarrow> string list" where
  "split_lines line [] = (if line = [] then [] else [rev line])"
| "split_lines line (c # s) =
     (if is_break c
      then rev line # split_lines [] (if c = CHR 0x0d \<and> take 1 s = [CHR 0x0a] then drop 1 s else s)
      else split_lines (c # line) s)"

text \<open>\<open>text.split(None, n)\<close>: at most \<open>n\<close> splits, the last field keeps the rest of the text.\<close>

fun split_fields :: "nat \<Rightarrow> string \<Rightarrow> string list" where
  "split_fields n s =
     (let t = dropWhile is_space s in
      if t = [] then []
      else case n of
        0 \<Rightarrow> [t]
      | Suc m \<Rightarrow> takeWhile (Not \<circ> is_space) t # split_fields m (dropWhile (Not \<circ> is_space) t))"

declare split_fields.simps [simp del]

definition decimal_digit :: "char \<Rightarrow> bool" where
  "decimal_digit c \<longleftrightarrow> (let n = (of_char c :: nat) in 48 \<le> n \<and> n \<le> 57)"

definition all_digits :: "string \<Rightarrow> bool" where
  "all_digits s \<longleftrightarrow> s \<noteq> [] \<and> list_all decimal_digit s"

definition read_decimal :: "string \<Rightarrow> nat" where
  "read_decimal s = foldl (\<lambda>n c. 10 * n + (of_char c - 48)) 0 s"

subsection \<open>The inventories\<close>

definition LAUNCHCTL :: string where "LAUNCHCTL = ''/var/jb/usr/bin/launchctl''"
definition PS :: string where "PS = ''/bin/ps''"

definition CHROOT :: "string list" where
  "CHROOT = [''/var/jb/usr/macOS/bin/launchdchrootexec'', ''0'', ''0'', ''/var/mnt/rootfs'']"

record managed_job =
  mj_label :: string
  mj_plist :: string
  mj_arguments :: "string list"
  mj_start_if_absent :: bool

definition JOBS :: "string \<Rightarrow> managed_job option" where
  "JOBS job =
     (if job = ''hostd'' then Some \<lparr>mj_label = ''com.macwsguide.hostd'',
        mj_plist = ''/var/jb/Library/LaunchDaemons/com.macwsguide.hostd.plist'',
        mj_arguments = [''/var/jb/usr/macOS/bin/macwshostd''], mj_start_if_absent = True\<rparr>
      else if job = ''keychain'' then Some \<lparr>mj_label = ''com.macwsguide.keychain'',
        mj_plist = ''/var/jb/Library/LaunchDaemons/com.macwsguide.keychain.plist'',
        mj_arguments = [''/var/jb/usr/macOS/bin/macwskeychaind''], mj_start_if_absent = True\<rparr>
      else if job = ''input'' then Some \<lparr>mj_label = ''UIKitApplication:com.macwsguide.input'',
        mj_plist = ''/var/jb/usr/macOS/LaunchDaemons/com.macwsguide.input.plist'',
        mj_arguments = CHROOT @ [''/usr/local/bin/macwsinputd''], mj_start_if_absent = False\<rparr>
      else if job = ''dock'' then Some \<lparr>mj_label = ''com.macwsguide.dock'',
        mj_plist = ''/var/jb/usr/macOS/gui-launchd/com.macwsguide.dock.plist'',
        mj_arguments = CHROOT @ [''/System/Library/CoreServices/Dock.app/Contents/MacOS/Dock''],
        mj_start_if_absent = False\<rparr>
      else None)"

type_synonym job_table = "(string \<times> nat option) list"

definition job_row :: "string \<Rightarrow> job_table \<Rightarrow> job_table result" where
  "job_row row result =
     (case split_fields 2 row of
        [pid, status, label] \<Rightarrow>
          (if (pid \<noteq> ''-'' \<and> (\<not> all_digits pid \<or> read_decimal pid = 0)) \<or>
              \<not> all_digits (dropWhile (\<lambda>c. c = CHR ''-'') status) \<or> label \<in> set (map fst result)
           then Inl (UnsafeState ''Ambiguous launchctl inventory row'')
           else Inr (result @ [(label, if pid = ''-'' then None else Some (read_decimal pid))]))
      | _ \<Rightarrow> Inl (UnsafeState ''Malformed launchctl inventory row''))"

definition parse_jobs :: "string \<Rightarrow> job_table result" where
  "parse_jobs text =
     (case split_lines [] text of
        [] \<Rightarrow> Inl (UnsafeState ''Unrecognized launchctl process inventory'')
      | header # lines \<Rightarrow>
          if split_fields (length header) header \<noteq> [''PID'', ''Status'', ''Label'']
          then Inl (UnsafeState ''Unrecognized launchctl process inventory'')
          else foldE job_row lines [])"

record process =
  pr_pid :: nat
  pr_group :: nat
  pr_state :: string
  pr_command :: string
  pr_live :: bool

definition ps_row :: "string \<Rightarrow> process list \<Rightarrow> process list result" where
  "ps_row row result =
     (case split_fields 3 row of
        [pid, pgid, state, command] \<Rightarrow>
          (if \<not> all_digits pid \<or> \<not> all_digits pgid \<or> state = [] \<or> command = []
           then Inl (UnsafeState ''Unrecognized process inventory'')
           else if read_decimal pid \<in> set (map pr_pid result) then Inl (UnsafeState ''Duplicate process identity'')
           else Inr (result @ [\<lparr>pr_pid = read_decimal pid, pr_group = read_decimal pgid, pr_state = state,
             pr_command = command, pr_live = \<not> starts ''Z'' state\<rparr>]))
      | _ \<Rightarrow> Inl (UnsafeState ''Malformed process inventory row''))"

definition parse_processes :: "string \<Rightarrow> process list result" where
  "parse_processes text =
     bindE (foldE ps_row (split_lines [] text) []) (\<lambda>result.
     if result = [] then Inl (UnsafeState ''Empty process inventory'') else Inr result)"

subsection \<open>The decision\<close>

datatype action = Defer | PreserveStopped | Load

datatype reason =
    AlreadyLoaded "nat option" "(nat \<times> string) list"
  | StoppedGui
  | UnregisteredLive
  | AbsentAndIdle

text \<open>The live processes that share the process group of a loaded job.\<close>

definition group_peers :: "nat option \<Rightarrow> process list \<Rightarrow> (nat \<times> string) list" where
  "group_peers pid processes =
     (case Option.bind pid (\<lambda>n. List.find (\<lambda>p. pr_pid p = n) processes) of
        None \<Rightarrow> []
      | Some leader \<Rightarrow>
          map (\<lambda>p. (pr_pid p, path_basename (pr_command p)))
            (take 12 (filter (\<lambda>p. pr_live p \<and> pr_group p = pr_group leader \<and> Some (pr_pid p) \<noteq> pid) processes)))"

definition decide :: "managed_job \<Rightarrow> job_table \<Rightarrow> process list \<Rightarrow> action \<times> reason" where
  "decide job jobs processes =
     (case map_of jobs (mj_label job) of
        Some pid \<Rightarrow> (Defer, AlreadyLoaded pid (group_peers pid processes))
      | None \<Rightarrow>
          if \<not> mj_start_if_absent job then (PreserveStopped, StoppedGui)
          else if list_ex (\<lambda>p. pr_live p \<and>
              path_basename (pr_command p) = path_basename (last (mj_arguments job))) processes
          then (Defer, UnregisteredLive)
          else (Load, AbsentAndIdle))"

subsection \<open>The property list\<close>

record plist_file =
  pf_regular :: bool
  pf_size :: nat
  pf_uid :: nat
  pf_mode :: nat
  pf_config :: "pyval result"

definition py_default :: "(string \<times> pyval) list \<Rightarrow> string \<Rightarrow> pyval \<Rightarrow> pyval" where
  "py_default kv k v = (case map_of kv k of None \<Rightarrow> v | Some w \<Rightarrow> w)"

definition validate_plist :: "plist_file \<Rightarrow> string \<Rightarrow> string list \<Rightarrow> unit result" where
  "validate_plist f label arguments =
     (if \<not> pf_regular f \<or> pf_size f > 65536 then Inl (UnsafeState ''Managed plist is not a bounded regular file'')
      else if pf_uid f \<noteq> 0 \<or> pf_mode f div 16 mod 2 = 1 \<or> pf_mode f div 2 mod 2 = 1
      then Inl (UnsafeState ''Managed plist ownership/permissions are unsafe'')
      else bindE (pf_config f) (\<lambda>config.
        case config of
          PDict kv \<Rightarrow>
            if \<not> py_eq (py_get kv ''Label'') (PStr label) \<or>
               \<not> py_eq (py_get kv ''ProgramArguments'') (PList (map PStr arguments)) \<or>
               \<not> py_eq (py_default kv ''Program'' (PStr (hd arguments))) (PStr (hd arguments))
            then Inl (UnsafeState ''Plist identity does not match the exact managed job'')
            else Inr ()
        | _ \<Rightarrow> Inl (UnsafeState ''Plist identity does not match the exact managed job'')))"

subsection \<open>The refresh\<close>

type_synonym execute = "nat \<Rightarrow> string list \<Rightarrow> string result"

definition LIST_JOBS :: "string list" where "LIST_JOBS = [LAUNCHCTL, ''list'']"
definition LIST_PROCESSES :: "string list" where
  "LIST_PROCESSES = [PS, ''-axo'', ''pid=,pgid=,stat=,comm='']"

text \<open>The commands one inventory issues (the \<open>n\<close>-th and the next one) and its result.\<close>

definition inventory :: "execute \<Rightarrow> nat \<Rightarrow> string list list \<times> (job_table \<times> process list) result" where
  "inventory execute n =
     (case bindE (execute n LIST_JOBS) parse_jobs of
        Inl e \<Rightarrow> ([LIST_JOBS], Inl e)
      | Inr jobs \<Rightarrow>
          ([LIST_JOBS, LIST_PROCESSES],
           bindE (bindE (execute (n + 1) LIST_PROCESSES) parse_processes) (\<lambda>processes. Inr (jobs, processes))))"

datatype outcome = NoGuiJob | Deferred reason | RemainsStopped | ChangedBeforeLoad reason | Unverified py_error
  | LoadFailed py_error | Requested

definition state_caught :: "py_error \<Rightarrow> bool" where
  "state_caught e =
     (case e of OSError _ \<Rightarrow> True | ValueError _ \<Rightarrow> True | UnicodeError \<Rightarrow> True | ExpatError \<Rightarrow> True
      | SubprocessError \<Rightarrow> True | UnsafeState _ \<Rightarrow> True | _ \<Rightarrow> False)"

definition caught_load :: "py_error \<Rightarrow> bool" where
  "caught_load e = (case e of OSError _ \<Rightarrow> True | SubprocessError \<Rightarrow> True | UnsafeState _ \<Rightarrow> True | _ \<Rightarrow> False)"

text \<open>What the \<open>try\<close> block decides: an early outcome, or to go on and load.\<close>

definition verify_state ::
  "execute \<Rightarrow> (string \<Rightarrow> plist_file option) \<Rightarrow> managed_job \<Rightarrow> string list list \<times> outcome option result" where
  "verify_state execute files job =
     (case inventory execute 0 of
        (cs, Inl e) \<Rightarrow> (cs, Inl e)
      | (cs, Inr (jobs, processes)) \<Rightarrow>
          case files (mj_plist job) of
            None \<Rightarrow> (cs, if \<not> mj_start_if_absent job \<and> mj_label job \<notin> set (map fst jobs)
                         then Inr (Some NoGuiJob) else Inl (OSError ''FileNotFoundError''))
          | Some f \<Rightarrow>
              case validate_plist f (mj_label job) (mj_arguments job) of
                Inl e \<Rightarrow> (cs, Inl e)
              | Inr _ \<Rightarrow>
                  case decide job jobs processes of
                    (Defer, r) \<Rightarrow> (cs, Inr (Some (Deferred r)))
                  | (PreserveStopped, _) \<Rightarrow> (cs, Inr (Some RemainsStopped))
                  | (Load, _) \<Rightarrow>
                      case inventory execute 2 of
                        (cs', Inl e) \<Rightarrow> (cs @ cs', Inl e)
                      | (cs', Inr (jobs', processes')) \<Rightarrow>
                          case decide job jobs' processes' of
                            (Load, _) \<Rightarrow> (cs @ cs', Inr None)
                          | (_, r) \<Rightarrow> (cs @ cs', Inr (Some (ChangedBeforeLoad r))))"

definition refresh ::
  "execute \<Rightarrow> (string \<Rightarrow> plist_file option) \<Rightarrow> string \<Rightarrow> string list list \<times> outcome result" where
  "refresh execute files name =
     (case JOBS name of
        None \<Rightarrow> ([], Inl (ValueError ''Unknown managed job''))
      | Some job \<Rightarrow>
          case verify_state execute files job of
            (cs, Inl e) \<Rightarrow> (cs, if state_caught e then Inr (Unverified e) else Inl e)
          | (cs, Inr (Some out)) \<Rightarrow> (cs, Inr out)
          | (cs, Inr None) \<Rightarrow>
              (cs @ [[LAUNCHCTL, ''load'', mj_plist job]],
               case execute 4 [LAUNCHCTL, ''load'', mj_plist job] of
                 Inl e \<Rightarrow> if caught_load e then Inr (LoadFailed e) else Inl e
               | Inr _ \<Rightarrow> Inr Requested))"

subsection \<open>Nothing is unloaded, and loading needs two idle inventories\<close>

text \<open>The \<open>n\<close>-th inventory shows neither the job nor a live process of its name.\<close>

definition idle_inventory :: "execute \<Rightarrow> nat \<Rightarrow> managed_job \<Rightarrow> bool" where
  "idle_inventory execute n job \<longleftrightarrow>
     (case snd (inventory execute n) of
        Inl _ \<Rightarrow> False
      | Inr (jobs, processes) \<Rightarrow> mj_label job \<notin> set (map fst jobs) \<and>
          list_all (\<lambda>p. pr_live p \<longrightarrow>
            path_basename (pr_command p) \<noteq> path_basename (last (mj_arguments job))) processes)"

lemma decide_Load:
  "decide job jobs processes = (Load, r) \<Longrightarrow> mj_start_if_absent job \<and> mj_label job \<notin> set (map fst jobs) \<and>
     list_all (\<lambda>p. pr_live p \<longrightarrow> path_basename (pr_command p) \<noteq> path_basename (last (mj_arguments job))) processes"
  by (auto simp: decide_def map_of_eq_None_iff list_all_iff list_ex_iff split: option.splits if_split_asm)

lemma inventory_commands:
  obtains "fst (inventory execute n) = [LIST_JOBS]" "\<exists>e. snd (inventory execute n) = Inl e"
  | "fst (inventory execute n) = [LIST_JOBS, LIST_PROCESSES]"
  by (cases "bindE (execute n LIST_JOBS) parse_jobs") (auto simp: inventory_def)

text \<open>What the verification issues, and what a decision to load rests on.\<close>

lemma verify_state_spec:
  assumes "verify_state execute files job = (cs, v)"
  shows "(\<exists>n. cs = take n [LIST_JOBS, LIST_PROCESSES, LIST_JOBS, LIST_PROCESSES]) \<and>
    (v = Inr None \<longrightarrow> cs = [LIST_JOBS, LIST_PROCESSES, LIST_JOBS, LIST_PROCESSES] \<and>
       mj_start_if_absent job \<and> idle_inventory execute 0 job \<and> idle_inventory execute 2 job \<and>
       (\<exists>f. files (mj_plist job) = Some f \<and> validate_plist f (mj_label job) (mj_arguments job) = Inr ()))"
proof -
  have one: "\<exists>n. [LIST_JOBS] = take n [LIST_JOBS, LIST_PROCESSES, LIST_JOBS, LIST_PROCESSES]"
    by (rule exI [of _ 1]) simp
  have two: "\<exists>n. [LIST_JOBS, LIST_PROCESSES] = take n [LIST_JOBS, LIST_PROCESSES, LIST_JOBS, LIST_PROCESSES]"
    by (rule exI [of _ 2]) simp
  have three: "\<exists>n. [LIST_JOBS, LIST_PROCESSES, LIST_JOBS] = take n [LIST_JOBS, LIST_PROCESSES, LIST_JOBS, LIST_PROCESSES]"
    by (rule exI [of _ 3]) simp
  have four: "\<exists>n. [LIST_JOBS, LIST_PROCESSES, LIST_JOBS, LIST_PROCESSES] = take n [LIST_JOBS, LIST_PROCESSES, LIST_JOBS, LIST_PROCESSES]"
    by (rule exI [of _ 4]) simp
  obtain cs1 r1 where i1: "inventory execute 0 = (cs1, r1)" by (cases "inventory execute 0")
  have c1: "cs1 = [LIST_JOBS] \<and> (\<exists>e. r1 = Inl e) \<or> cs1 = [LIST_JOBS, LIST_PROCESSES]"
    using i1 by (metis fst_conv snd_conv inventory_commands)
  obtain cs2 r2 where i2: "inventory execute 2 = (cs2, r2)" by (cases "inventory execute 2")
  have c2: "cs2 = [LIST_JOBS] \<and> (\<exists>e. r2 = Inl e) \<or> cs2 = [LIST_JOBS, LIST_PROCESSES]"
    using i2 by (metis fst_conv snd_conv inventory_commands)
  from assms i1 i2 c1 c2 one two three four show ?thesis
    unfolding verify_state_def idle_inventory_def
    by (auto split: sum.splits option.splits prod.splits action.splits if_split_asm dest!: decide_Load) force+
qed

text \<open>C14: Refreshing a managed job never disturbs a running service.  The command lines it issues are
  always an initial part of: job list, process list, job list, process list, load; nothing is ever
  unloaded.  The load is issued only for a job that may be started when absent, whose property list
  was validated, and after both inventories showed neither the job nor a live process of its name.\<close>

theorem refresh_never_disturbs:
  assumes "JOBS name = Some job" and "refresh execute files name = (cs, out)"
  shows "(\<exists>n. cs = take n [LIST_JOBS, LIST_PROCESSES, LIST_JOBS, LIST_PROCESSES, [LAUNCHCTL, ''load'', mj_plist job]]) \<and>
    (5 \<le> length cs \<or> out = Inr Requested \<longrightarrow> length cs = 5 \<and>
       mj_start_if_absent job \<and> idle_inventory execute 0 job \<and> idle_inventory execute 2 job \<and>
       (\<exists>f. files (mj_plist job) = Some f \<and> validate_plist f (mj_label job) (mj_arguments job) = Inr ()))"
proof -
  let ?load = "[LAUNCHCTL, ''load'', mj_plist job]"
  let ?ls = "[LIST_JOBS, LIST_PROCESSES, LIST_JOBS, LIST_PROCESSES]"
  obtain cs' v where v: "verify_state execute files job = (cs', v)" by (cases "verify_state execute files job")
  note s = verify_state_spec [OF v]
  show ?thesis
  proof (cases "v = Inr None")
    case True
    with s assms v have "cs = take 5 (?ls @ [?load])" by (auto simp: refresh_def)
    with s True show ?thesis by (auto intro: exI [of _ 5])
  next
    case False
    with assms v have cs: "cs = cs'" by (auto simp: refresh_def split: sum.splits option.splits)
    have out: "out \<noteq> Inr Requested" using False assms v
      by (auto simp: refresh_def verify_state_def split: sum.splits option.splits prod.splits action.splits if_split_asm)
    from s obtain n where n: "cs' = take n ?ls" by blast
    have "take (min n 4) (?ls @ [?load]) = take (min n 4) ?ls" by (simp only: take_append) simp
    moreover have "take (min n 4) ?ls = take n ?ls" by (simp add: min_def)
    ultimately have "cs' = take (min n 4) [LIST_JOBS, LIST_PROCESSES, LIST_JOBS, LIST_PROCESSES, ?load]" using n by simp
    moreover have "length cs' \<le> 4" using n by simp
    ultimately show ?thesis using cs out by auto
  qed
qed


text \<open>Four answers of an idle system and the keychain daemon's property list.\<close>

definition sample_answers :: execute where
  "sample_answers i cmd =
     (if cmd = LIST_JOBS then Inr (''PID'' @ [CHR 0x09] @ ''Status'' @ [CHR 0x09] @ ''Label'' @ [CHR 0x0a] @ ''12 0 com.apple.x'')
      else if cmd = LIST_PROCESSES then Inr (''  1  1 Ss /sbin/launchd'' @ [CHR 0x0a] @ '' 12 12 Z /usr/macwskeychaind'')
      else Inr [])"

definition sample_files :: "string \<Rightarrow> plist_file option" where
  "sample_files p = Some \<lparr>pf_regular = True, pf_size = 400, pf_uid = 0, pf_mode = 0x81a4,
     pf_config = Inr (PDict [(''Label'', PStr ''com.macwsguide.keychain''),
       (''ProgramArguments'', PList [PStr ''/var/jb/usr/macOS/bin/macwskeychaind''])])\<rparr>"

lemma sample_refresh:
  "(case refresh sample_answers sample_files ''keychain'' of (cs, out) \<Rightarrow> length cs = 5 \<and> out = Inr Requested)"
  by code_simp

theorem refresh_never_disturbs_witness:
  "\<exists>cs job. refresh sample_answers sample_files ''keychain'' = (cs, Inr Requested) \<and> JOBS ''keychain'' = Some job \<and>
     cs ! 4 = [LAUNCHCTL, ''load'', mj_plist job] \<and> idle_inventory sample_answers 0 job \<and> idle_inventory sample_answers 2 job"
proof -
  obtain cs where r: "refresh sample_answers sample_files ''keychain'' = (cs, Inr Requested)" "length cs = 5"
    using sample_refresh by (auto split: prod.splits)
  obtain job where j: "JOBS ''keychain'' = Some job" by (simp add: JOBS_def)
  from refresh_never_disturbs [OF j r(1)] r obtain n
    where "cs = take n [LIST_JOBS, LIST_PROCESSES, LIST_JOBS, LIST_PROCESSES, [LAUNCHCTL, ''load'', mj_plist job]]"
      and i: "idle_inventory sample_answers 0 job" "idle_inventory sample_answers 2 job" by auto
  with r(2) have "cs ! 4 = [LAUNCHCTL, ''load'', mj_plist job]" by simp
  with r j i show ?thesis by blast
qed

subsection \<open>The inventories are read back as printed\<close>

lemma digit_char: "n < 10 \<Longrightarrow> (of_char (char_of (48 + n) :: char) :: nat) = 48 + n"
  by (simp add: of_char_of take_bit_nat_eq_self)

lemma show_decimal_digits: "list_all decimal_digit (show_decimal n) \<and> show_decimal n \<noteq> []"
proof (induction n rule: show_decimal.induct)
  case (1 n)
  have "decimal_digit (char_of (48 + n mod 10))" by (simp add: decimal_digit_def digit_char)
  with 1 show ?case by (subst (1 2) show_decimal.simps) simp
qed

lemma all_digits_show [simp]: "all_digits (show_decimal n)"
  using show_decimal_digits [of n] by (simp add: all_digits_def)

lemma read_show_decimal [simp]: "read_decimal (show_decimal n) = n"
proof (induction n rule: show_decimal.induct)
  case (1 n)
  have d: "(of_char (char_of (48 + n mod 10) :: char) :: nat) = 48 + n mod 10" by (simp add: digit_char)
  show ?case
  proof (cases "n < 10")
    case True
    with d show ?thesis by (subst show_decimal.simps) (simp add: read_decimal_def)
  next
    case False
    with 1 d show ?thesis by (subst show_decimal.simps) (simp add: read_decimal_def)
  qed
qed

text \<open>A word has no blank; a label starts with none and has no line break.\<close>

definition word_ok :: "string \<Rightarrow> bool" where
  "word_ok s \<longleftrightarrow> s \<noteq> [] \<and> list_all (Not \<circ> is_space) s"

definition tail_ok :: "string \<Rightarrow> bool" where
  "tail_ok s \<longleftrightarrow> s \<noteq> [] \<and> \<not> is_space (hd s) \<and> list_all (Not \<circ> is_break) s"

lemma break_space: "is_break c \<Longrightarrow> is_space c"
  by (auto simp: is_break_def is_space_def Let_def)

lemma digit_no_space: "decimal_digit c \<Longrightarrow> \<not> is_space c"
  by (auto simp: decimal_digit_def is_space_def Let_def)

lemma word_ok_show [simp]: "word_ok (show_decimal n)"
  using show_decimal_digits [of n] by (auto simp: word_ok_def list_all_iff dest: digit_no_space)

lemma word_no_break: "word_ok s \<Longrightarrow> list_all (Not \<circ> is_break) s"
  by (auto simp: word_ok_def list_all_iff dest: break_space)

lemma split_word:
  assumes "word_ok w" and "is_space b"
  shows "split_fields (Suc n) (w @ b # s) = w # split_fields n s"
proof -
  from assms have d: "dropWhile is_space (w @ b # s) = w @ b # s" by (cases w) (auto simp: word_ok_def)
  have "takeWhile (Not \<circ> is_space) (w @ b # s) = w" "dropWhile (Not \<circ> is_space) (w @ b # s) = b # s"
    using assms by (auto simp: word_ok_def list_all_iff takeWhile_append2 dropWhile_append2)
  moreover have "split_fields n (b # s) = split_fields n s"
    using assms(2) by (simp add: split_fields.simps [of n])
  ultimately show ?thesis using d assms(1) by (subst split_fields.simps) (simp add: word_ok_def)
qed

lemma split_tail: "tail_ok s \<Longrightarrow> split_fields 0 s = [s]"
  by (cases s) (auto simp: tail_ok_def split_fields.simps)

lemma split_lines_line:
  "list_all (Not \<circ> is_break) s \<Longrightarrow> split_lines acc (s @ CHR 0x0a # t) = (rev acc @ s) # split_lines [] t"
  by (induction s arbitrary: acc) (auto simp: is_break_def)

lemma split_lines_all:
  assumes "list_all (list_all (Not \<circ> is_break)) ls"
  shows "split_lines [] (concat (map (\<lambda>l. l @ [CHR 0x0a]) ls)) = ls"
  using assms by (induction ls) (auto simp: split_lines_line)

text \<open>How launchctl prints a job and ps a process.\<close>

definition show_job :: "(string \<times> nat option) \<Rightarrow> nat \<Rightarrow> string" where
  "show_job r status =
     (case snd r of None \<Rightarrow> ''-'' | Some pid \<Rightarrow> show_decimal pid) @ CHR 0x09 # show_decimal status @ CHR 0x09 # fst r"

definition show_process :: "process \<Rightarrow> string" where
  "show_process p = show_decimal (pr_pid p) @ CHR 0x20 # show_decimal (pr_group p) @ CHR 0x20 # pr_state p @
     CHR 0x20 # pr_command p"

definition print_lines :: "string list \<Rightarrow> string" where
  "print_lines ls = concat (map (\<lambda>l. l @ [CHR 0x0a]) ls)"

lemma job_row_show:
  assumes "tail_ok (fst r)" and "snd r \<noteq> Some 0" and "fst r \<notin> set (map fst done)"
  shows "job_row (show_job r status) done = Inr (done @ [r])"
proof -
  obtain label pid where r: "r = (label, pid)" by (cases r)
  have sp: "is_space (CHR 0x09)" by (simp add: is_space_def)
  have w: "word_ok ''-''" by (simp add: word_ok_def is_space_def)
  have f: "split_fields 2 (show_job r status) =
      [case pid of None \<Rightarrow> ''-'' | Some pid \<Rightarrow> show_decimal pid, show_decimal status, label]"
    using assms(1) r sp split_word [OF w sp, simplified]
    by (cases pid) (simp_all add: show_job_def numeral_2_eq_2 split_word split_tail)
  have "show_decimal k \<noteq> ''-''" for k
    using show_decimal_digits [of k] by (auto simp: decimal_digit_def)
  moreover have "dropWhile (\<lambda>c. c = CHR ''-'') (show_decimal k) = show_decimal k" for k
    using show_decimal_digits [of k] by (cases "show_decimal k") (auto simp: decimal_digit_def)
  ultimately show ?thesis using assms r f by (cases pid) (simp_all add: job_row_def)
qed

lemma job_rows_show:
  assumes "list_all (\<lambda>(r, _). tail_ok (fst r) \<and> snd r \<noteq> Some 0) rs" and "distinct (map fst done @ map (fst \<circ> fst) rs)"
  shows "foldE job_row (map (\<lambda>(r, status). show_job r status) rs) done = Inr (done @ map fst rs)"
  using assms
proof (induction rs arbitrary: "done")
  case Nil
  then show ?case by simp
next
  case (Cons x rs)
  obtain r status where x: "x = (r, status)" by (cases x)
  with Cons.prems have "job_row (show_job r status) done = Inr (done @ [r])"
    by (intro job_row_show) auto
  with Cons x show ?case by simp
qed

lemma ps_row_show:
  assumes "word_ok (pr_state p)" and "tail_ok (pr_command p)" and "pr_live p = (\<not> starts ''Z'' (pr_state p))"
    and "pr_pid p \<notin> set (map pr_pid done)"
  shows "ps_row (show_process p) done = Inr (done @ [p])"
proof -
  have sp: "is_space (CHR 0x20)" by (simp add: is_space_def)
  have f: "split_fields 3 (show_process p) =
      [show_decimal (pr_pid p), show_decimal (pr_group p), pr_state p, pr_command p]"
    using assms(1,2) sp by (simp add: show_process_def numeral_3_eq_3 split_word split_tail)
  with assms show ?thesis
    by (cases p) (auto simp: ps_row_def word_ok_def tail_ok_def)
qed

lemma ps_rows_show:
  assumes "list_all (\<lambda>p. word_ok (pr_state p) \<and> tail_ok (pr_command p) \<and> pr_live p = (\<not> starts ''Z'' (pr_state p))) ps"
    and "distinct (map pr_pid done @ map pr_pid ps)"
  shows "foldE ps_row (map show_process ps) done = Inr (done @ ps)"
  using assms by (induction ps arbitrary: "done") (auto simp: ps_row_show)

lemma show_job_no_break: "tail_ok (fst r) \<Longrightarrow> list_all (Not \<circ> is_break) (show_job r status)"
  using word_no_break [OF word_ok_show]
  by (auto simp: show_job_def tail_ok_def is_break_def split: option.splits)

lemma show_process_no_break:
  "word_ok (pr_state p) \<Longrightarrow> tail_ok (pr_command p) \<Longrightarrow> list_all (Not \<circ> is_break) (show_process p)"
  using word_no_break [OF word_ok_show]
  by (auto simp: show_process_def tail_ok_def dest: word_no_break) (simp_all add: is_break_def)

text \<open>The inventories are read back exactly as printed.  For every job table with distinct labels
  and positive process identifiers, in launchctl's three-column layout, and every process table with
  distinct identifiers, in ps's four-column layout, the parsers return the printed tables; labels and
  commands may contain blanks.\<close>

theorem inventories_read_back:
  assumes "list_all (\<lambda>(r, _). tail_ok (fst r) \<and> snd r \<noteq> Some 0) rs" and "distinct (map (fst \<circ> fst) rs)"
    and "list_all (\<lambda>p. word_ok (pr_state p) \<and> tail_ok (pr_command p) \<and> pr_live p = (\<not> starts ''Z'' (pr_state p))) ps"
    and "distinct (map pr_pid ps)" and "ps \<noteq> []"
  shows "parse_jobs (print_lines ((''PID'' @ [CHR 0x09] @ ''Status'' @ [CHR 0x09] @ ''Label'') #
      map (\<lambda>(r, status). show_job r status) rs)) = Inr (map fst rs) \<and>
    parse_processes (print_lines (map show_process ps)) = Inr ps"
proof -
  let ?h = "''PID'' @ [CHR 0x09] @ ''Status'' @ [CHR 0x09] @ ''Label''"
  have h: "split_fields (length ?h) ?h = [''PID'', ''Status'', ''Label'']" "list_all (Not \<circ> is_break) ?h" by code_simp+
  have "list_all (list_all (Not \<circ> is_break)) (?h # map (\<lambda>(r, status). show_job r status) rs)"
    using h(2) assms(1) show_job_no_break by (fastforce simp: list_all_iff)
  from split_lines_all [OF this]
  have j: "split_lines [] (print_lines (?h # map (\<lambda>(r, status). show_job r status) rs)) =
      ?h # map (\<lambda>(r, status). show_job r status) rs" by (simp add: print_lines_def)
  have "list_all (list_all (Not \<circ> is_break)) (map show_process ps)"
    using assms(3) show_process_no_break by (fastforce simp: list_all_iff)
  from split_lines_all [OF this]
  have p: "split_lines [] (print_lines (map show_process ps)) = map show_process ps" by (simp only: print_lines_def)
  have "parse_jobs (print_lines (?h # map (\<lambda>(r, status). show_job r status) rs)) = Inr (map fst rs)"
    unfolding parse_jobs_def j using h(1) job_rows_show [OF assms(1), of "[]"] assms(2) by simp
  moreover have "parse_processes (print_lines (map show_process ps)) = Inr ps"
    unfolding parse_processes_def p using ps_rows_show [OF assms(3), of "[]"] assms(4,5) by simp
  ultimately show ?thesis by simp
qed

theorem inventories_read_back_witness:
  "parse_jobs (print_lines [''PID'' @ [CHR 0x09] @ ''Status'' @ [CHR 0x09] @ ''Label'', show_job (''a b'', Some 7) 0,
     show_job (''c'', None) 78]) = Inr [(''a b'', Some 7), (''c'', None)]"
  using inventories_read_back [of "[((''a b'', Some 7), 0), ((''c'', None), 78)]"
    "[\<lparr>pr_pid = 1, pr_group = 1, pr_state = ''Ss'', pr_command = ''/sbin/launchd'', pr_live = True\<rparr>]"]
  by (simp add: tail_ok_def word_ok_def is_space_def is_break_def starts_def)

end
