(* ===== verification/LegacyJobs.thy ===== *)
theory LegacyJobs
  imports PyValue Strings "HOL-Library.Char_ord" "HOL-Library.List_Lexorder"
begin

text \<open>
  \<^verbatim>\<open>layout/usr/macOS/bin/macws_retire_legacy_boot_jobs.py\<close>: historical boot jobs are moved out of
  the launch directories into an archive.  The file system below the prefix is a map from
  paths (lists of components) to nodes; hard links to one file are equal nodes.  SHA-256 and
  the property list parser are parameters.  Between the steps of the archival, other processes
  may change the file system: \<open>others i\<close> is what they do before the \<open>i\<close>-th step.
\<close>

subsection \<open>The file system\<close>

text \<open>What \<open>lstat\<close> says of a file besides its kind, its size and its number of links.\<close>

record file_info =
  fi_dev :: nat
  fi_ino :: nat
  fi_mtime_ns :: int
  fi_uid :: nat
  fi_gid :: nat
  fi_mode :: nat

datatype node = Folder | SymbolicLink | Regular file_info bytes | OtherNode

type_synonym path = "string list"
type_synonym tree = "path \<rightharpoonup> node"

text \<open>\<open>identity\<close> also holds the size, which is the length of the content read.\<close>

definition boot_identity :: "file_info \<Rightarrow> bytes \<Rightarrow> nat \<times> nat \<times> nat \<times> int \<times> nat \<times> nat \<times> nat" where
  "boot_identity i content = (fi_dev i, fi_ino i, length content, fi_mtime_ns i, fi_uid i, fi_gid i, fi_mode i)"

definition LIMIT :: nat where "LIMIT = 65536"

text \<open>\<open>directory(base, relative, create)\<close>, for the components after \<open>base\<close>.\<close>

fun real_directory :: "bool \<Rightarrow> path \<Rightarrow> path \<Rightarrow> tree \<Rightarrow> tree result" where
  "real_directory create base [] t = Inr t"
| "real_directory create base (c # cs) t =
     (let here = base @ [c]; t = (if t here = None \<and> create then t(here \<mapsto> Folder) else t) in
      case t here of
        None \<Rightarrow> Inl (OSError ''FileNotFoundError'')
      | Some Folder \<Rightarrow> real_directory create here cs t
      | Some _ \<Rightarrow> Inl (ValueError ''expected a real directory: ''))"

definition read_regular :: "tree \<Rightarrow> path \<Rightarrow> (bytes \<times> file_info) result" where
  "read_regular t p =
     (case t p of
        None \<Rightarrow> Inl (OSError ''FileNotFoundError'')
      | Some SymbolicLink \<Rightarrow> Inl (OSError ''ELOOP'')
      | Some (Regular i content) \<Rightarrow>
          if length content > LIMIT then Inl (ValueError ''expected a bounded regular plist: '') else Inr (content, i)
      | Some _ \<Rightarrow> Inl (ValueError ''expected a bounded regular plist: ''))"

subsection \<open>Recognition\<close>

definition RETIRED :: "(string \<times> string) list" where
  "RETIRED =
    [(''com.apple.InstallerProgress.plist'',
      ''64742fdbce90a1a654245a3114f7849a10efc8f6ef1e5933c532bb19f1ddc2b3''),
     (''com.macwsguide.chrome150.debug.plist'',
      ''e7e06efd1ef316f7069cbe624c00fe1f999888f4ba64ba8c7430fb2ce18a0d4f''),
     (''com.macwsguide.chrome150.plist'',
      ''915328ea97aee058a01565f2b03a09db7de38deeb4dd36d808b2513d6af25809''),
     (''com.macwsguide.cpu-fp-probe.plist'',
      ''df8f39fb78c0f8f9e235a08efe245106df7c9233537142397bc7b41e3ae9e531''),
     (''com.macwsguide.jitprobe.plist'',
      ''8ff45c1a40697d5bc66d09fa97824633466c0871a6e0251360a801c78b5d586d''),
     (''com.macwsguide.rootdir-ios-probe.plist'',
      ''138f68f3706f58b24d20476a32c275c8385958b057d1bfe7bc1e62b1079d216f''),
     (''com.macwsguide.rootdir-macos-probe.plist'',
      ''b416c96dcf235053adcfbf3af54064752707481a6692ccaaf5287c5588ea1ddc''),
     (''com.macwsguide.steam.runtime.plist'',
      ''1fcb5c5db2030f3057d9d51504ccda04f499d2411f316d821f6db80edaf771a4''),
     (''com.macwsguide.systemsettings.plist'',
      ''2c6785ddd74eb9091523f0c834cd1a8b5da3b248fc8c879019085a5a0a5fb1b6'')]"

definition EXTRA_RETIRED :: "(path \<times> string) list" where
  "EXTRA_RETIRED =
    [([''usr'', ''macOS'', ''LaunchDaemons'', ''com.macwsguide.macos-locationd.plist''],
      ''d15d4ceff906560bd8f24d4e74301e5c8cdfe098ef400f1647492f286a8ebd4d''),
     ([''usr'', ''macOS'', ''gui-launchd'', ''com.macwsguide.sandbox-audit-probe.plist''],
      ''33bec0abbfc95c19327fd77e07270b83608e2b50e0d9076aecc3abd5b5e0dc12''),
     ([''usr'', ''macOS'', ''gui-launchd'', ''com.macwsguide.spaceprobe.plist''],
      ''de2748fc762d765f1fcaa08e94417f56e7b6ca49ba8299063f8c4dde746395d0''),
     ([''usr'', ''macOS'', ''gui-launchd'', ''com.macwsguide.glassdemo.plist''],
      ''8eb420ad86a56fb62d9c1b89571cc276dc4808853e6c04a6856449be942b3670''),
     ([''usr'', ''macOS'', ''gui-launchd'', ''com.macwsguide.iconservicesagent.diag.plist''],
      ''6c68a3d5a0f68d26a1d44180b0b4a786369a3fd4f1d5a3646880c3032fa3f244''),
     ([''usr'', ''macOS'', ''gui-launchd'', ''com.macwsguide.inputlab.plist''],
      ''16bfac3b4e87d9083abb7d27e14a82bba53fb715ed77e3540a201b0f7ada6699''),
     ([''usr'', ''macOS'', ''gui-launchd'', ''com.macwsguide.maps.plist''],
      ''daaf979705c4ba5c95893752e74f57a948f80b03b42e11cd3e88a88f6b6a52ab'')]"

text \<open>The current daemons: label and program.\<close>

definition CURRENT :: "(string \<times> string \<times> string) list" where
  "CURRENT =
    [(''com.macwsguide.alloc.plist'', ''com.macwsguide.alloc'', ''macwsallocd''),
     (''com.macwsguide.hostd.plist'', ''com.macwsguide.hostd'', ''macwshostd''),
     (''com.macwsguide.keychain.plist'', ''com.macwsguide.keychain'', ''macwskeychaind'')]"

definition CHROOT_EXEC :: "string list" where
  "CHROOT_EXEC = [''/var/jb/usr/macOS/bin/launchdchrootexec'', ''0'', ''0'', ''/var/mnt/rootfs'']"

definition legacy_str :: "pyval \<Rightarrow> string \<Rightarrow> bool" where
  "legacy_str v s \<longleftrightarrow> py_eq v (PStr s)"

definition recognized_legacy :: "string \<Rightarrow> (string \<times> pyval) list \<Rightarrow> string \<Rightarrow> bool" where
  "recognized_legacy name job digest =
     (if map_of RETIRED name = Some digest then True
      else
      let arguments = py_get job ''ProgramArguments'' in
      if map_of job ''Program'' \<noteq> None \<and>
         (case arguments of PList (a # _) \<Rightarrow> \<not> py_eq (py_get job ''Program'') a | _ \<Rightarrow> True)
      then False
      else if name = ''com.macwsguide.glassdemo.plist'' \<and> legacy_str (py_get job ''Label'') ''com.macwsguide.glassdemo'' \<and>
         py_eq arguments (PList (map PStr (CHROOT_EXEC @ [''/tmp/GlassDemo''])))
      then True
      else (name = ''com.macwsguide.vscode.plist'' \<and>
        (legacy_str (py_get job ''Label'') ''com.macwsguide.vscode'' \<or>
         legacy_str (py_get job ''Label'') ''UIKitApplication:com.macwsguide.vscode'') \<and>
        (case arguments of
           PList vs \<Rightarrow> list_all is_str vs \<and>
             py_eq (PList (take 5 vs)) (PList (map PStr (CHROOT_EXEC @
               [''/Applications/Visual Studio Code.app/Contents/MacOS/Electron''])))
         | _ \<Rightarrow> False)))"

subsection \<open>The plan\<close>

text \<open>\<open>re.sub(b"<!--[\s\S]*?-->", b"", raw)\<close>: the rest after the first \<open>--\>\<close>, when there is one.\<close>

fun after_close :: "bytes \<Rightarrow> bytes option" where
  "after_close [] = None"
| "after_close (b # s) = (if starts (encode_str ''-->'') (b # s) then Some (drop 2 s) else after_close s)"

lemma after_close_shorter: "after_close s = Some r \<Longrightarrow> length r < length s"
  by (induction s) (auto split: if_split_asm)

function strip_comments :: "bytes \<Rightarrow> bytes" where
  "strip_comments [] = []"
| "strip_comments (b # s) =
     (case (if starts (encode_str ''<!--'') (b # s) then after_close (drop 3 s) else None) of
        Some r \<Rightarrow> strip_comments r
      | None \<Rightarrow> b # strip_comments s)"
  by pat_completeness auto
termination
  by (relation "measure length") (auto dest!: after_close_shorter split: if_split_asm)

record planned_job =
  pj_source :: path
  pj_raw :: bytes
  pj_info :: file_info
  pj_digest :: string

type_synonym plist_loads = "bytes \<Rightarrow> pyval option"
type_synonym sha256_hex = "bytes \<Rightarrow> string"

definition current_daemon_ok :: "string \<Rightarrow> string \<Rightarrow> (string \<times> pyval) list \<Rightarrow> unit result" where
  "current_daemon_ok label program job =
     (let executable = ''/var/jb/usr/macOS/bin/'' @ program;
          allowed = (if program = ''macwshostd'' then [(''CA_VSYNC_OFF'', ''1''), (''CA_DISABLE_SWAP_ICC'', ''1'')] else []) in
      if \<not> legacy_str (py_get job ''Label'') label \<or>
         \<not> py_eq (py_get job ''ProgramArguments'') (PList [PStr executable]) \<or>
         (case map_of job ''Program'' of None \<Rightarrow> False | Some v \<Rightarrow> \<not> legacy_str v executable)
      then Inl (ValueError ''current daemon identity mismatch: '')
      else if (case map_of job ''EnvironmentVariables'' of
                 None \<Rightarrow> False
               | Some (PDict kv) \<Rightarrow> list_ex (\<lambda>(k, v).
                   \<not> py_eq (case map_of allowed k of None \<Rightarrow> PNone | Some s \<Rightarrow> PStr s) v) kv
               | Some _ \<Rightarrow> True)
      then Inl (ValueError ''unexpected production boot environment: '')
      else Inr ())"

definition macws_name :: "string \<Rightarrow> bool" where
  "macws_name name \<longleftrightarrow> starts ''com.macwsguide.'' name"

definition owned_job :: "string \<Rightarrow> (string \<times> pyval) list \<Rightarrow> bytes \<Rightarrow> bool" where
  "owned_job name job raw \<longleftrightarrow> macws_name name \<or>
     (case py_get job ''Label'' of
        PStr l \<Rightarrow> starts ''com.macwsguide.'' l \<or> starts ''UIKitApplication:com.macwsguide.'' l
      | _ \<Rightarrow> False) \<or>
     contains (encode_str ''launchdchrootexec'') raw"

definition BOOT :: path where "BOOT = [''Library'', ''LaunchDaemons'']"
definition ARCHIVE :: path where "ARCHIVE = [''usr'', ''macOS'', ''retired-launch-jobs'']"

text \<open>One property list of the boot directory.\<close>

definition plan_boot ::
  "plist_loads \<Rightarrow> sha256_hex \<Rightarrow> tree \<Rightarrow> string \<Rightarrow> planned_job list \<Rightarrow> planned_job list result" where
  "plan_boot loads sha t name planned =
     (case read_regular t (BOOT @ [name]) of
        Inl e \<Rightarrow>
          if name \<in> set (map fst CURRENT) \<or> name \<in> set (map fst RETIRED) \<or> macws_name name then Inl e else Inr planned
      | Inr (raw, info) \<Rightarrow>
          case loads (strip_comments raw) of
            None \<Rightarrow> if macws_name name \<or> contains (encode_str ''launchdchrootexec'') raw
                    then Inl (ValueError ''unrecognized MacWS boot job: '') else Inr planned
          | Some (PDict job) \<Rightarrow>
              (case map_of CURRENT name of
                 Some (label, program) \<Rightarrow> bindE (current_daemon_ok label program job) (\<lambda>_. Inr planned)
               | None \<Rightarrow>
                   if \<not> owned_job name job raw then Inr planned
                   else if \<not> recognized_legacy name job (sha raw)
                   then Inl (ValueError ''unrecognized legacy MacWS boot job retained: '')
                   else Inr (planned @ [\<lparr>pj_source = BOOT @ [name], pj_raw = raw, pj_info = info, pj_digest = sha raw\<rparr>]))
          | Some _ \<Rightarrow> if macws_name name then Inl (ValueError ''invalid MacWS boot job: '') else Inr planned)"

text \<open>
  \<open>source.exists() or source.is_symlink()\<close>; below a symbolic link the answer is the
  parameter \<open>follows\<close>.
\<close>

definition present :: "(path \<Rightarrow> bool) \<Rightarrow> tree \<Rightarrow> path \<Rightarrow> bool" where
  "present follows t p \<longleftrightarrow>
     (if list_ex (\<lambda>k. t (take k p) = Some SymbolicLink) [0..<length p] then follows p else t p \<noteq> None)"

definition plan_extra ::
  "(path \<Rightarrow> bool) \<Rightarrow> sha256_hex \<Rightarrow> tree \<Rightarrow> path \<times> string \<Rightarrow> planned_job list \<Rightarrow> planned_job list result" where
  "plan_extra follows sha t row planned =
     (let source = fst row in
      if \<not> present follows t source then Inr planned
      else
      bindE (real_directory False [] (butlast source) t) (\<lambda>_.
      bindE (read_regular t source) (\<lambda>x.
      if sha (fst x) \<noteq> snd row then Inl (ValueError ''unrecognized legacy GUI job retained: '')
      else Inr (planned @ [\<lparr>pj_source = source, pj_raw = fst x, pj_info = snd x, pj_digest = sha (fst x)\<rparr>]))))"

text \<open>The whole inventory, validated before anything changes; \<open>names\<close> lists the boot directory.\<close>

definition plan_retirement ::
  "plist_loads \<Rightarrow> sha256_hex \<Rightarrow> (path \<Rightarrow> bool) \<Rightarrow> string list \<Rightarrow> tree \<Rightarrow> planned_job list result" where
  "plan_retirement loads sha follows names t =
     bindE (real_directory False [] BOOT t) (\<lambda>_.
     bindE (foldE (plan_boot loads sha t) (sort (filter (ends ''.plist'') names)) []) (\<lambda>planned.
     foldE (plan_extra follows sha t) EXTRA_RETIRED planned))"

subsection \<open>The archival\<close>

definition archive_name :: "planned_job \<Rightarrow> path" where
  "archive_name p = ARCHIVE @ [last (pj_source p) @ ''.'' @ pj_digest p @ ''.'' @
     show_decimal (fi_dev (pj_info p)) @ ''.'' @ show_decimal (fi_ino (pj_info p)) @ ''.disabled'']"

definition same_file :: "planned_job \<Rightarrow> bytes \<times> file_info \<Rightarrow> bool" where
  "same_file p x \<longleftrightarrow> boot_identity (snd x) (fst x) = boot_identity (pj_info p) (pj_raw p)"

type_synonym others = "nat \<Rightarrow> tree \<Rightarrow> tree"

text \<open>\<open>os.link(source, destination, follow_symlinks=False)\<close>, or the check of an existing archive.\<close>

definition archive_copy :: "planned_job \<Rightarrow> tree \<Rightarrow> tree result" where
  "archive_copy p t =
     (case t (archive_name p) of
        Some _ \<Rightarrow> bindE (read_regular t (archive_name p)) (\<lambda>x.
          if fst x \<noteq> pj_raw p \<or> \<not> same_file p x then Inl (ValueError ''archive collision: '') else Inr t)
      | None \<Rightarrow>
          (case t (pj_source p) of
             None \<Rightarrow> Inl (OSError ''FileNotFoundError'')
           | Some Folder \<Rightarrow> Inl (OSError ''EPERM'')
           | Some n \<Rightarrow> Inr (t(archive_name p \<mapsto> n))))"

definition remove_source :: "planned_job \<Rightarrow> tree \<Rightarrow> tree result" where
  "remove_source p t =
     (case t (pj_source p) of
        None \<Rightarrow> Inl (OSError ''FileNotFoundError'')
      | Some (Regular i content) \<Rightarrow>
          if same_file p (content, i) then Inr (t(pj_source p := None))
          else Inl (ValueError ''boot job replaced during archival: '')
      | Some _ \<Rightarrow> Inl (ValueError ''boot job replaced during archival: ''))"

definition archive_job :: "others \<Rightarrow> nat \<Rightarrow> planned_job \<Rightarrow> tree \<Rightarrow> tree \<times> path result" where
  "archive_job others i p t =
     (let t = others i t in
      case read_regular t (pj_source p) of
        Inl e \<Rightarrow> (t, Inl e)
      | Inr x \<Rightarrow>
          if \<not> same_file p x \<or> fst x \<noteq> pj_raw p then (t, Inl (ValueError ''boot job changed before archival: ''))
          else
          let t = others (i + 1) t in
          case archive_copy p t of
            Inl e \<Rightarrow> (t, Inl e)
          | Inr t \<Rightarrow>
              let t = others (i + 2) t in
              case remove_source p t of
                Inl e \<Rightarrow> (t, Inl e)
              | Inr t \<Rightarrow> (t, Inr (archive_name p)))"

fun archive_jobs :: "others \<Rightarrow> nat \<Rightarrow> planned_job list \<Rightarrow> tree \<Rightarrow> tree \<times> path list result" where
  "archive_jobs others i [] t = (t, Inr [])"
| "archive_jobs others i (p # ps) t =
     (case archive_job others i p t of
        (t, Inl e) \<Rightarrow> (t, Inl e)
      | (t, Inr destination) \<Rightarrow>
          case archive_jobs others (i + 3) ps t of
            (t, Inl e) \<Rightarrow> (t, Inl e)
          | (t, Inr retired) \<Rightarrow> (t, Inr (destination # retired)))"

definition retire_jobs ::
  "plist_loads \<Rightarrow> sha256_hex \<Rightarrow> (path \<Rightarrow> bool) \<Rightarrow> string list \<Rightarrow> others \<Rightarrow> bool \<Rightarrow> tree \<Rightarrow> tree \<times> path list result" where
  "retire_jobs loads sha follows names others check t =
     (case plan_retirement loads sha follows names t of
        Inl e \<Rightarrow> (t, Inl e)
      | Inr planned \<Rightarrow>
          if check then (t, Inr (map pj_source planned))
          else if planned = [] then (t, Inr [])
          else
          case real_directory True [] ARCHIVE t of
            Inl e \<Rightarrow> (t, Inl e)
          | Inr t \<Rightarrow> archive_jobs others 0 planned t)"

subsection \<open>The plan names files outside the archive, as they were found\<close>

definition in_archive :: "path \<Rightarrow> bool" where
  "in_archive p \<longleftrightarrow> take 3 p = ARCHIVE"

definition found_at :: "tree \<Rightarrow> planned_job \<Rightarrow> bool" where
  "found_at t p \<longleftrightarrow> t (pj_source p) = Some (Regular (pj_info p) (pj_raw p)) \<and> \<not> in_archive (pj_source p)"

lemma archive_name_in [simp]: "in_archive (archive_name p)"
  by (simp add: in_archive_def archive_name_def ARCHIVE_def)

lemma read_regular_Inr: "read_regular t p = Inr (content, i) \<longleftrightarrow> t p = Some (Regular i content) \<and> length content \<le> LIMIT"
  by (auto simp: read_regular_def split: option.splits node.splits)

lemma plan_boot_found:
  assumes "plan_boot loads sha t name ps = Inr qs" and "list_all (found_at t) ps"
  shows "list_all (found_at t) qs"
proof (cases "read_regular t (BOOT @ [name])")
  case (Inl e)
  with assms show ?thesis by (auto simp: plan_boot_def split: if_split_asm)
next
  case (Inr x)
  obtain raw info where x: "x = (raw, info)" by (cases x)
  with Inr have "t (BOOT @ [name]) = Some (Regular info raw)" by (simp add: read_regular_Inr)
  then have "found_at t \<lparr>pj_source = BOOT @ [name], pj_raw = raw, pj_info = info, pj_digest = sha raw\<rparr>"
    by (simp add: found_at_def in_archive_def BOOT_def ARCHIVE_def)
  with assms Inr x show ?thesis
    by (auto simp: plan_boot_def split: option.splits pyval.splits if_split_asm)
qed

lemma extra_outside: "row \<in> set EXTRA_RETIRED \<Longrightarrow> \<not> in_archive (fst row)"
  by (auto simp: EXTRA_RETIRED_def in_archive_def ARCHIVE_def)

lemma plan_extra_found:
  assumes "plan_extra follows sha t row ps = Inr qs" and "list_all (found_at t) ps" and "row \<in> set EXTRA_RETIRED"
  shows "list_all (found_at t) qs"
  using assms extra_outside [OF assms(3)]
  by (auto simp: plan_extra_def found_at_def Let_def read_regular_Inr split: if_split_asm)

lemma plan_found:
  assumes "plan_retirement loads sha follows names t = Inr planned"
  shows "list_all (found_at t) planned"
proof -
  from assms obtain ps where b: "foldE (plan_boot loads sha t) (sort (filter (ends ''.plist'') names)) [] = Inr ps"
    and e: "foldE (plan_extra follows sha t) EXTRA_RETIRED ps = Inr planned" by (auto simp: plan_retirement_def)
  have "list_all (found_at t) ps" by (rule foldE_invariant [OF b]) (auto intro: plan_boot_found)
  then show ?thesis by (rule foldE_invariant [OF e]) (auto intro: plan_extra_found)
qed

subsection \<open>Archival under interference\<close>

definition planned_node :: "planned_job \<Rightarrow> node option \<Rightarrow> bool" where
  "planned_node p n \<longleftrightarrow> (\<exists>i c. n = Some (Regular i c) \<and> same_file p (c, i))"

text \<open>
  What is assumed of other processes: they leave the archive alone, and a name they replace
  does not get the identity of the planned file back.
\<close>

definition well_behaved :: "planned_job list \<Rightarrow> others \<Rightarrow> bool" where
  "well_behaved planned others \<longleftrightarrow> (\<forall>i t. (\<forall>q. in_archive q \<longrightarrow> others i t q = t q) \<and>
     (\<forall>p \<in> set planned. others i t (pj_source p) = t (pj_source p) \<or> \<not> planned_node p (others i t (pj_source p))))"

lemma well_behaved_archive: "well_behaved planned others \<Longrightarrow> others i t (archive_name p) = t (archive_name p)"
  by (simp add: well_behaved_def)

lemma well_behaved_source:
  "well_behaved planned others \<Longrightarrow> p \<in> set planned \<Longrightarrow> planned_node p (others i t (pj_source p)) \<Longrightarrow>
     others i t (pj_source p) = t (pj_source p)"
  by (auto simp: well_behaved_def)

lemma same_file_info: "same_file p (pj_raw p, i) \<Longrightarrow> i = pj_info p"
  by (simp add: same_file_def boot_identity_def)

lemma archive_copy_Inr:
  assumes "archive_copy p t = Inr t'" and "\<not> in_archive (pj_source p)"
  shows "t' (pj_source p) = t (pj_source p) \<and> (\<forall>q. q \<noteq> archive_name p \<longrightarrow> t' q = t q) \<and>
    (\<forall>q n. t q = Some n \<longrightarrow> t' q = Some n) \<and>
    (t' (archive_name p) = Some (Regular (pj_info p) (pj_raw p)) \<or> t' (archive_name p) = t (pj_source p))"
proof (cases "t (archive_name p)")
  case None
  moreover have "pj_source p \<noteq> archive_name p" using assms(2) by auto
  ultimately show ?thesis using assms(1) by (auto simp: archive_copy_def split: option.splits node.splits)
next
  case (Some n)
  with assms(1) obtain i where "t' = t" "t (archive_name p) = Some (Regular i (pj_raw p))" "same_file p (pj_raw p, i)"
    by (auto simp: archive_copy_def read_regular_Inr split: if_split_asm)
  with same_file_info [of p i] show ?thesis by simp
qed

lemma remove_source_Inr:
  "remove_source p t = Inr t' \<Longrightarrow> planned_node p (t (pj_source p)) \<and> t' = t(pj_source p := None)"
  by (auto simp: remove_source_def planned_node_def split: option.splits node.splits if_split_asm)

lemma archive_job_Inr:
  assumes ok: "archive_job others i p t = (t', Inr d)"
    and r: "well_behaved planned others" "p \<in> set planned" and out: "\<not> in_archive (pj_source p)"
  shows "d = archive_name p \<and> t' (archive_name p) = Some (Regular (pj_info p) (pj_raw p)) \<and>
    (\<forall>q n. in_archive q \<longrightarrow> t q = Some n \<longrightarrow> t' q = Some n)"
proof -
  define t0 where "t0 = others i t"
  define t1 where "t1 = others (i + 1) t0"
  from ok obtain li t2 where rd: "read_regular t0 (pj_source p) = Inr (pj_raw p, li)" "same_file p (pj_raw p, li)"
    and c: "archive_copy p t1 = Inr t2" and rm: "remove_source p (others (i + 2) t2) = Inr t'" and d: "d = archive_name p"
    by (auto simp: archive_job_def Let_def t0_def t1_def split: sum.splits if_split_asm)
  let ?file = "Some (Regular (pj_info p) (pj_raw p))"
  have t0: "t0 (pj_source p) = ?file" using rd same_file_info [OF rd(2)] by (simp add: read_regular_Inr)
  note cs = archive_copy_Inr [OF c out] and rs = remove_source_Inr [OF rm]
  have s3: "others (i + 2) t2 (pj_source p) = t2 (pj_source p)"
    using well_behaved_source [OF r] rs by blast
  then have "planned_node p (t1 (pj_source p))" using rs cs by simp
  then have "t1 (pj_source p) = t0 (pj_source p)" unfolding t1_def by (rule well_behaved_source [OF r])
  with cs t0 have a: "t2 (archive_name p) = ?file" by auto
  have arch: "in_archive q \<Longrightarrow> t' q = t2 q" for q using rs r(1) out by (auto simp: well_behaved_def)
  moreover have "in_archive q \<Longrightarrow> t q = Some n \<Longrightarrow> t2 q = Some n" for q n
    using cs r(1) by (auto simp: well_behaved_def t0_def t1_def)
  ultimately show ?thesis using d a by auto
qed

lemma archive_jobs_Inr:
  assumes "archive_jobs others i ps t = (t', Inr retired)"
    and "well_behaved planned others" and "set ps \<subseteq> set planned" and "\<forall>p \<in> set ps. \<not> in_archive (pj_source p)"
  shows "retired = map archive_name ps \<and>
    list_all (\<lambda>p. t' (archive_name p) = Some (Regular (pj_info p) (pj_raw p))) ps \<and>
    (\<forall>q n. in_archive q \<longrightarrow> t q = Some n \<longrightarrow> t' q = Some n)"
  using assms
proof (induction ps arbitrary: i t retired)
  case Nil
  then show ?case by simp
next
  case (Cons p ps)
  then obtain t1 d rs where j: "archive_job others i p t = (t1, Inr d)"
    and rest: "archive_jobs others (i + 3) ps t1 = (t', Inr rs)" and ret: "retired = d # rs"
    by (auto split: prod.splits sum.splits)
  have a: "d = archive_name p \<and> t1 (archive_name p) = Some (Regular (pj_info p) (pj_raw p)) \<and>
    (\<forall>q n. in_archive q \<longrightarrow> t q = Some n \<longrightarrow> t1 q = Some n)"
    by (rule archive_job_Inr [OF j Cons.prems(2)]) (use Cons.prems in auto)
  with Cons.IH [OF rest Cons.prems(2)] Cons.prems(3,4) ret show ?case by auto
qed

text \<open>C15: A retired boot job is preserved byte for byte.  Other processes may act between any two
  steps, as long as they are \<open>well_behaved\<close>: they leave the archive directory alone, and a planned path
  they change does not carry the identity (device, inode, size, time, owner and mode) of the
  planned file afterwards; anything else, such as removing, replacing or truncating a planned file or changing any other, they may do.
  Then, when the retirement succeeds, every planned file, with the content and identity it was
  recognised by, stands in the archive, under a name that records its digest, device and
  inode; and it was found at its launch path in the initial file system.\<close>

theorem retirement_preserves_originals:
  assumes "retire_jobs loads sha follows names others False t = (t', Inr retired)"
    and "plan_retirement loads sha follows names t = Inr planned" and "well_behaved planned others"
  shows "retired = map archive_name planned \<and>
    list_all (\<lambda>p. t (pj_source p) = Some (Regular (pj_info p) (pj_raw p)) \<and>
      t' (archive_name p) = Some (Regular (pj_info p) (pj_raw p))) planned"
proof (cases "planned = []")
  case True
  with assms show ?thesis by (simp add: retire_jobs_def)
next
  case False
  note f = plan_found [OF assms(2)]
  from False assms(1,2) obtain t0 where "archive_jobs others 0 planned t0 = (t', Inr retired)"
    by (auto simp: retire_jobs_def split: sum.splits)
  from archive_jobs_Inr [OF this assms(3)] f
  show ?thesis by (auto simp: found_at_def list_all_iff)
qed

subsection \<open>Nothing is lost, whatever happens\<close>

text \<open>Every node is still at its path, or is a planned source that has moved to the archive.\<close>

definition kept :: "planned_job list \<Rightarrow> tree \<Rightarrow> tree \<Rightarrow> bool" where
  "kept planned t t' \<longleftrightarrow> (\<forall>q n. t q = Some n \<longrightarrow>
     t' q = Some n \<or> (\<exists>p \<in> set planned. q = pj_source p \<and> t' (archive_name p) = Some n))"

lemma kept_refl [simp]: "kept planned t t"
  by (simp add: kept_def)

lemma kept_trans:
  assumes "kept planned a b" and "kept planned b c" and "\<forall>p \<in> set planned. \<not> in_archive (pj_source p)"
  shows "kept planned a c"
  unfolding kept_def
proof (intro allI impI)
  fix q n assume "a q = Some n"
  with assms(1) consider "b q = Some n" | p where "p \<in> set planned" "q = pj_source p" "b (archive_name p) = Some n"
    unfolding kept_def by blast
  then show "c q = Some n \<or> (\<exists>p \<in> set planned. q = pj_source p \<and> c (archive_name p) = Some n)"
  proof cases
    case 1
    with assms(2) show ?thesis unfolding kept_def by blast
  next
    case 2
    have "archive_name p \<noteq> pj_source p'" if "p' \<in> set planned" for p'
      using assms(3) that by (metis archive_name_in)
    with 2 assms(2) have "c (archive_name p) = Some n" unfolding kept_def by blast
    with 2 show ?thesis by blast
  qed
qed

lemma archive_job_kept:
  assumes "archive_job (\<lambda>i t. t) i p t = (t', r)" and "p \<in> set planned" and "\<not> in_archive (pj_source p)"
  shows "kept planned t t'"
proof (cases "read_regular t (pj_source p)")
  case (Inl e)
  with assms(1) show ?thesis by (simp add: archive_job_def)
next
  case (Inr x)
  show ?thesis
  proof (cases "same_file p x \<and> fst x = pj_raw p")
    case False
    with Inr assms(1) have "t' = t" by (auto simp: archive_job_def Let_def split: if_split_asm)
    then show ?thesis by simp
  next
    case True
    show ?thesis
    proof (cases "archive_copy p t")
      case (Inl e)
      with Inr True assms(1) show ?thesis by (simp add: archive_job_def)
    next
      case (Inr t1)
      have src: "t (pj_source p) = Some (Regular (pj_info p) (pj_raw p))"
        using \<open>read_regular t (pj_source p) = Inr x\<close> True same_file_info [of p "snd x"]
        by (cases x) (auto simp: read_regular_Inr)
      note c = archive_copy_Inr [OF Inr assms(3)]
      from True \<open>read_regular t (pj_source p) = Inr x\<close> Inr assms(1) consider "t' = t1" | "remove_source p t1 = Inr t'"
        by (auto simp: archive_job_def split: sum.splits)
      then show ?thesis
      proof cases
        case 1
        with c show ?thesis by (auto simp: kept_def)
      next
        case 2
        have "archive_name p \<noteq> pj_source p" using assms(3) by (metis archive_name_in)
        with 2 remove_source_Inr [OF 2] c src assms(2) show ?thesis by (auto simp: kept_def)
      qed
    qed
  qed
qed

lemma archive_jobs_kept:
  assumes "archive_jobs (\<lambda>i t. t) i ps t = (t', r)" and "set ps \<subseteq> set planned"
    and "\<forall>p \<in> set planned. \<not> in_archive (pj_source p)"
  shows "kept planned t t'"
  using assms(1,2)
proof (induction ps arbitrary: i t r)
  case Nil
  then show ?case by simp
next
  case (Cons p ps)
  obtain t1 d where j: "archive_job (\<lambda>i t. t) i p t = (t1, d)" by (cases "archive_job (\<lambda>i t. t) i p t")
  with Cons.prems(2) assms(3) have k: "kept planned t t1" by (auto intro: archive_job_kept)
  show ?case
  proof (cases d)
    case (Inl e)
    with j k Cons.prems(1) show ?thesis by simp
  next
    case (Inr a)
    with j Cons.prems(1) obtain r' where "archive_jobs (\<lambda>i t. t) (i + 3) ps t1 = (t', r')"
      by (auto split: prod.splits sum.splits)
    from Cons.IH [OF this] Cons.prems(2) have "kept planned t1 t'" by simp
    then show ?thesis by (rule kept_trans [OF k _ assms(3)])
  qed
qed

lemma real_directory_kept: "real_directory True base cs t = Inr t' \<Longrightarrow> kept planned t t'"
proof (induction cs arbitrary: base t)
  case Nil
  then show ?case by simp
next
  case (Cons c cs)
  define u where "u = (if t (base @ [c]) = None then t(base @ [c] \<mapsto> Folder) else t)"
  from Cons.prems have "real_directory True (base @ [c]) cs u = Inr t'"
    by (auto simp: u_def Let_def split: option.splits node.splits if_split_asm)
  then have "kept planned u t'" by (rule Cons.IH)
  moreover have "t q = Some n \<Longrightarrow> u q = Some n" for q n by (auto simp: u_def)
  ultimately show ?case by (auto simp: kept_def)
qed

text \<open>C16: No file is ever lost.  When no other process interferes, then however the run ends - retired,
  check only, refused, or stopped by an error half way - every file of the initial file system is
  still at its path, unchanged, except that a recognised legacy job may be in the archive instead;
  and a check, or a plan that is refused, changes nothing at all.\<close>

theorem nothing_lost:
  assumes "retire_jobs loads sha follows names (\<lambda>i t. t) check t = (t', r)"
  shows "(case plan_retirement loads sha follows names t of
      Inl _ \<Rightarrow> t' = t
    | Inr planned \<Rightarrow> (if check then t' = t else kept planned t t'))"
proof (cases "plan_retirement loads sha follows names t")
  case (Inl e)
  with assms show ?thesis by (simp add: retire_jobs_def)
next
  case (Inr planned)
  have outside: "\<forall>p \<in> set planned. \<not> in_archive (pj_source p)"
    using plan_found [OF Inr] by (auto simp: list_all_iff found_at_def)
  show ?thesis
  proof (cases "check \<or> planned = []")
    case True
    with Inr assms show ?thesis by (auto simp: retire_jobs_def)
  next
    case False
    show ?thesis
    proof (cases "real_directory True [] ARCHIVE t")
      case (Inl e)
      with Inr False assms \<open>plan_retirement _ _ _ _ _ = _\<close> show ?thesis by (simp add: retire_jobs_def)
    next
      case (Inr t1)
      with False assms \<open>plan_retirement _ _ _ _ _ = _\<close>
      have a: "archive_jobs (\<lambda>i t. t) 0 planned t1 = (t', r)" by (simp add: retire_jobs_def)
      have "kept planned t t'"
        by (rule kept_trans [OF real_directory_kept [OF Inr] archive_jobs_kept [OF a _ outside] outside]) simp
      with False \<open>plan_retirement _ _ _ _ _ = _\<close> show ?thesis by simp
    qed
  qed
qed

text \<open>A launch directory with the project's demonstration job and an unrelated link.\<close>

definition sample_info :: file_info where
  "sample_info = \<lparr>fi_dev = 1, fi_ino = 12, fi_mtime_ns = 5, fi_uid = 0, fi_gid = 0, fi_mode = 0x81a4\<rparr>"

definition sample_tree :: tree where
  "sample_tree = [[''Library''] \<mapsto> Folder, [''Library'', ''LaunchDaemons''] \<mapsto> Folder, [''usr''] \<mapsto> Folder,
     [''usr'', ''macOS''] \<mapsto> Folder,
     [''Library'', ''LaunchDaemons'', ''com.macwsguide.glassdemo.plist''] \<mapsto> Regular sample_info [60, 1],
     [''Library'', ''LaunchDaemons'', ''org.x.plist''] \<mapsto> SymbolicLink]"

definition sample_loads :: plist_loads where
  "sample_loads raw = (if raw = [60, 1] then Some (PDict [(''Label'', PStr ''com.macwsguide.glassdemo''),
     (''ProgramArguments'', PList (map PStr (CHROOT_EXEC @ [''/tmp/GlassDemo''])))]) else None)"

definition sample_listing :: "string list" where
  "sample_listing = [''org.x.plist'', ''com.macwsguide.glassdemo.plist'', ''README'']"

definition sample_plan :: "planned_job list" where
  "sample_plan = [\<lparr>pj_source = BOOT @ [''com.macwsguide.glassdemo.plist''], pj_raw = [60, 1], pj_info = sample_info,
     pj_digest = ''ab''\<rparr>]"

text \<open>Another process adds a file while the job is archived.\<close>

definition sample_others :: others where
  "sample_others i t = (if i = 1 then t([''Library'', ''new''] \<mapsto> SymbolicLink) else t)"

lemma sample_planned:
  "plan_retirement sample_loads (\<lambda>b. ''ab'') (\<lambda>p. False) sample_listing sample_tree = Inr sample_plan"
  by code_simp

lemma sample_retired:
  "snd (retire_jobs sample_loads (\<lambda>b. ''ab'') (\<lambda>p. False) sample_listing sample_others False sample_tree) =
     Inr [ARCHIVE @ [''com.macwsguide.glassdemo.plist.ab.1.12.disabled'']]"
  "fst (retire_jobs sample_loads (\<lambda>b. ''ab'') (\<lambda>p. False) sample_listing sample_others False sample_tree)
     [''Library'', ''LaunchDaemons'', ''com.macwsguide.glassdemo.plist''] = None"
  by code_simp+

theorem retirement_preserves_originals_witness:
  "\<exists>t'. retire_jobs sample_loads (\<lambda>b. ''ab'') (\<lambda>p. False) sample_listing sample_others False sample_tree =
       (t', Inr (map archive_name sample_plan)) \<and>
     t' (ARCHIVE @ [''com.macwsguide.glassdemo.plist.ab.1.12.disabled'']) = Some (Regular sample_info [60, 1])"
proof -
  obtain t' where t': "retire_jobs sample_loads (\<lambda>b. ''ab'') (\<lambda>p. False) sample_listing sample_others False sample_tree =
      (t', Inr [ARCHIVE @ [''com.macwsguide.glassdemo.plist.ab.1.12.disabled'']])"
    using sample_retired(1) by (metis prod.collapse)
  have w: "well_behaved sample_plan sample_others"
    by (auto simp: well_behaved_def sample_others_def in_archive_def ARCHIVE_def sample_plan_def BOOT_def)
  have n: "map archive_name sample_plan = [ARCHIVE @ [''com.macwsguide.glassdemo.plist.ab.1.12.disabled'']]"
    by code_simp
  from retirement_preserves_originals [OF t' sample_planned w] t' n show ?thesis
    by (auto simp: sample_plan_def)
qed

theorem nothing_lost_witness:
  "\<exists>t' r. retire_jobs sample_loads (\<lambda>b. ''ab'') (\<lambda>p. False) sample_listing (\<lambda>i t. t) False sample_tree = (t', r) \<and>
     kept sample_plan sample_tree t'"
proof -
  obtain t' r where t': "retire_jobs sample_loads (\<lambda>b. ''ab'') (\<lambda>p. False) sample_listing (\<lambda>i t. t) False sample_tree = (t', r)"
    by (metis prod.collapse)
  from nothing_lost [OF t'] t' show ?thesis by (simp add: sample_planned)
qed

end
