(* ===== verification/Runs.thy ===== *)
theory Runs
  imports Prelude
begin

text \<open>
  Runs that can be cut off: an operation on a shared state returns every state another process, or a
  restart after a crash, can see - from the state it starts in to the state it ends in - and its
  result.  \<open>through K m s\<close> says that all these states are related by \<open>K\<close> to the one it starts in; for
  a reflexive and transitive \<open>K\<close> it composes along the operations (locale \<open>kept\<close>).
\<close>

type_synonym ('s, 'a) trace = "'s \<Rightarrow> 's list \<times> 'a result"

definition pure_run :: "'a result \<Rightarrow> ('s, 'a) trace" where
  "pure_run r s = ([s], r)"

definition look :: "('s \<Rightarrow> 'a result) \<Rightarrow> ('s, 'a) trace" where
  "look f s = ([s], f s)"

definition act :: "('s \<Rightarrow> 's) \<Rightarrow> ('s, unit) trace" where
  "act f s = ([s, f s], Inr ())"

definition bind_run :: "('s, 'a) trace \<Rightarrow> ('a \<Rightarrow> ('s, 'b) trace) \<Rightarrow> ('s, 'b) trace" where
  "bind_run m f s =
     (case m s of
        (tr, Inl e) \<Rightarrow> (tr, Inl e)
      | (tr, Inr x) \<Rightarrow> (case f x (last tr) of (tr', r) \<Rightarrow> (tr @ tl tr', r)))"

fun each_run :: "('a \<Rightarrow> ('s, unit) trace) \<Rightarrow> 'a list \<Rightarrow> ('s, unit) trace" where
  "each_run f [] = pure_run (Inr ())"
| "each_run f (x # xs) = bind_run (f x) (\<lambda>_. each_run f xs)"

text \<open>\<open>try ... except\<close> for the exceptions \<open>caught\<close> names, and \<open>finally\<close> with one action.\<close>

definition catch_run :: "(py_error \<Rightarrow> bool) \<Rightarrow> ('s, 'a) trace \<Rightarrow> ('s, 'a) trace \<Rightarrow> ('s, 'a) trace" where
  "catch_run caught m h s =
     (case m s of
        (tr, Inl e) \<Rightarrow> if caught e then (case h (last tr) of (tr', r) \<Rightarrow> (tr @ tl tr', r)) else (tr, Inl e)
      | (tr, Inr x) \<Rightarrow> (tr, Inr x))"

definition finally_run :: "('s, 'a) trace \<Rightarrow> ('s \<Rightarrow> 's) \<Rightarrow> ('s, 'a) trace" where
  "finally_run m f s = (case m s of (tr, r) \<Rightarrow> (tr @ [f (last tr)], r))"

lemma last_act [simp]: "act f s = (tr, Inr x) \<Longrightarrow> last tr = f s"
  by (auto simp: act_def)

lemma look_Inr: "look f s = (tr, Inr x) \<longleftrightarrow> tr = [s] \<and> f s = Inr x"
  by (auto simp: look_def)

lemma last_bind:
  "bind_run m f s = (tr, Inr y) \<longleftrightarrow>
     (\<exists>tr1 x tr2. m s = (tr1, Inr x) \<and> f x (last tr1) = (tr2, Inr y) \<and> tr = tr1 @ tl tr2)"
  by (auto simp: bind_run_def split: prod.splits sum.splits)

subsection \<open>Relations kept by a run\<close>

definition through :: "('s \<Rightarrow> 's \<Rightarrow> bool) \<Rightarrow> ('s, 'a) trace \<Rightarrow> 's \<Rightarrow> bool" where
  "through K m s \<longleftrightarrow> fst (m s) \<noteq> [] \<and> hd (fst (m s)) = s \<and> list_all (K s) (fst (m s))"

locale kept =
  fixes K :: "'s \<Rightarrow> 's \<Rightarrow> bool"
  assumes refl: "K s s" and trans: "K s t \<Longrightarrow> K t u \<Longrightarrow> K s u"
begin

lemma pure: "through K (pure_run r) s"
  by (simp add: through_def pure_run_def refl)

lemma look: "through K (look f) s"
  by (simp add: through_def look_def refl)

lemma act: "K s (f s) \<Longrightarrow> through K (act f) s"
  by (simp add: through_def act_def refl)

lemma at_last: "through K m s \<Longrightarrow> m s = (tr, r) \<Longrightarrow> K s (last tr)"
  by (auto simp: through_def list_all_iff)

lemma bind:
  assumes "through K m s" and "\<And>x tr. m s = (tr, Inr x) \<Longrightarrow> through K (f x) (last tr)"
  shows "through K (bind_run m f) s"
proof -
  obtain tr r where m: "m s = (tr, r)" by (cases "m s")
  show ?thesis
  proof (cases r)
    case (Inl e)
    with m assms(1) show ?thesis by (simp add: through_def bind_run_def)
  next
    case (Inr x)
    obtain tr' r' where f: "f x (last tr) = (tr', r')" by (cases "f x (last tr)")
    have k: "through K (f x) (last tr)" using assms(2) m Inr by simp
    have "K s (last tr)" by (rule at_last [OF assms(1) m])
    with k f have "list_all (K s) tr'"
      by (auto simp: through_def list_all_iff intro: trans)
    with assms(1) m Inr f show ?thesis
      by (cases tr') (auto simp: through_def bind_run_def list_all_iff)
  qed
qed

lemma bind_all: "through K m s \<Longrightarrow> (\<And>x t. through K (f x) t) \<Longrightarrow> through K (bind_run m f) s"
  by (rule bind)

lemma each: "(\<And>x t. x \<in> set xs \<Longrightarrow> through K (f x) t) \<Longrightarrow> through K (each_run f xs) s"
  by (induction xs arbitrary: s) (auto intro: bind pure)

lemma catching:
  assumes "through K m s" and "\<And>t. through K h t"
  shows "through K (catch_run caught m h) s"
proof -
  obtain tr r where m: "m s = (tr, r)" by (cases "m s")
  obtain tr' r' where h: "h (last tr) = (tr', r')" by (cases "h (last tr)")
  have "K s (last tr)" by (rule at_last [OF assms(1) m])
  with assms(2) [of "last tr"] h have "list_all (K s) tr'"
    by (auto simp: through_def list_all_iff intro: trans)
  with assms(1) m h show ?thesis
    by (cases tr'; cases r) (auto simp: through_def catch_run_def list_all_iff)
qed

lemma finishing:
  assumes "through K m s" and "\<And>t. K t (f t)"
  shows "through K (finally_run m f) s"
proof -
  obtain tr r where m: "m s = (tr, r)" by (cases "m s")
  with at_last [OF assms(1) m] assms(1) show ?thesis
    by (auto simp: through_def finally_run_def intro: trans assms(2))
qed

subsection \<open>Runs that returned\<close>

lemma bind_done:
  assumes "bind_run m f s = (tr, Inr y)" and "\<And>x t. through K (f x) t"
  obtains tr1 x tr2 where "m s = (tr1, Inr x)" "f x (last tr1) = (tr2, Inr y)" "last tr = last tr2"
proof -
  from assms(1) obtain tr1 x tr2 where m: "m s = (tr1, Inr x)" and f: "f x (last tr1) = (tr2, Inr y)"
    and tr: "tr = tr1 @ tl tr2" by (auto simp: last_bind)
  have "tr2 \<noteq> []" "hd tr2 = last tr1" using assms(2) [of x "last tr1"] f by (simp_all add: through_def)
  moreover have "last tr = last tr2" if "tr1 \<noteq> []" using that calculation tr by (cases tr2) auto
  ultimately show ?thesis using that [OF m f] tr by (cases tr1; cases tr2) auto
qed

lemma look_done:
  assumes "bind_run (look f) g s = (tr, Inr y)" and "\<And>x t. through K (g x) t"
  obtains x where "f s = Inr x" "g x s = (tr, Inr y)"
proof -
  from assms(1) obtain x tr2 where x: "f s = Inr x" and g: "g x s = (tr2, Inr y)" and tr: "tr = [s] @ tl tr2"
    by (auto simp: last_bind look_Inr)
  have "tr2 \<noteq> []" "hd tr2 = s" using assms(2) [of x s] g by (simp_all add: through_def)
  then have "tr = tr2" using tr by (cases tr2) auto
  with x g show ?thesis by (auto intro: that)
qed

lemma each_done:
  assumes "each_run f xs s = (tr, Inr u)" and "x \<in> set xs" and "\<And>x t. x \<in> set xs \<Longrightarrow> through K (f x) t"
  shows "\<exists>t tr'. f x t = (tr', Inr ()) \<and> K (last tr') (last tr)"
  using assms
proof (induction xs arbitrary: s tr)
  case Nil
  then show ?case by simp
next
  case (Cons y xs)
  have k: "through K (each_run f xs) t" for t by (rule each) (use Cons.prems(3) in simp)
  from Cons.prems(1) obtain tr1 v tr2 where m: "f y s = (tr1, Inr v)" and r: "each_run f xs (last tr1) = (tr2, Inr u)"
    and l: "last tr = last tr2" by (simp del: split_paired_Ex) (rule bind_done, auto intro: k)
  show ?case
  proof (cases "x = y")
    case True
    have "K (last tr1) (last tr2)" by (rule at_last [OF k r])
    with m True l show ?thesis by auto
  next
    case False
    with Cons.IH [OF r] Cons.prems(2,3) l show ?thesis by simp
  qed
qed

end

text \<open>Every run starts in the state it is given: the case where nothing else is asked.\<close>

interpretation any_run: kept "\<lambda>_ _. True"
  by unfold_locales simp_all

end
