(* ===== verification/MetalCache.thy ===== *)
theory MetalCache
  imports Runs PyValue Strings "HOL-Library.Char_ord" "HOL-Library.List_Lexorder"
begin

text \<open>
  \<^verbatim>\<open>layout/usr/macOS/bin/macws_metal_cache_migration.py\<close>: derived Metal library caches are moved
  to an archive under a journal, so that an interrupted run can be resumed.  The root file system
  is an association list from paths to nodes.  Every operation returns the list of states another
  process, or a restart after a crash, can see - from the state it starts in to the state it ends
  in - and its result.  The process inventory, the names and the metadata of new files are
  parameters.
\<close>

subsection \<open>Files\<close>

text \<open>The metadata \<open>stamp\<close> looks at, and the text of a file: a JSON document or something else.\<close>

record cache_stat =
  cs_dev :: int
  cs_ino :: int
  cs_mode :: int
  cs_uid :: int
  cs_gid :: int
  cs_size :: int
  cs_mtime_ns :: int

datatype body = Bytes bytes | Document pyval

datatype cnode = CFolder | CLink | CFile cache_stat nat body | COther

type_synonym rootfs = "(cpath \<times> cnode) list"

text \<open>The names in a directory, sorted.\<close>

definition entries_of :: "rootfs \<Rightarrow> cpath \<Rightarrow> string list" where
  "entries_of s p = sort (remdups (map last (filter (\<lambda>q. q \<noteq> [] \<and> butlast q = p) (map fst s))))"

record cache_env =
  ce_suffix :: "rootfs \<Rightarrow> string"
  ce_stat :: "rootfs \<Rightarrow> pyval \<Rightarrow> cache_stat"
  ce_live :: "nat \<Rightarrow> rootfs \<Rightarrow> nat list result"
  ce_lock_free :: bool

subsection \<open>Runs\<close>

type_synonym 'a run = "(rootfs, 'a) trace"

subsection \<open>Names\<close>

definition SCHEMA :: string where "SCHEMA = ''macws-macabi-image-filter-v3''"

definition CACHE_RELATIVE :: cpath where
  "CACHE_RELATIVE = [''private'', ''var'', ''folders'', ''zz'', ''zyxvpxvq6csfxvn_n0000000000000'', ''C'']"

definition STATE_RELATIVE :: cpath where
  "STATE_RELATIVE = [''Library'', ''Caches'', ''MacWS'', ''metal-library-target'']"

definition NAMES :: "string list" where "NAMES = [''libraries.list'', ''libraries.data'']"

text \<open>\<open>checked\<close>: no symbolic link and no ancestor that is not a directory.\<close>

fun check_components :: "rootfs \<Rightarrow> bool \<Rightarrow> cpath \<Rightarrow> cpath \<Rightarrow> unit result" where
  "check_components s folder base [] = Inr ()"
| "check_components s folder base (c # cs) =
     (case map_of s (base @ [c]) of
        None \<Rightarrow> check_components s folder (base @ [c]) cs
      | Some CLink \<Rightarrow> Inl (MigrationError ''symlink refused: '')
      | Some CFolder \<Rightarrow> check_components s folder (base @ [c]) cs
      | Some _ \<Rightarrow> if cs \<noteq> [] \<or> folder then Inl (MigrationError ''non-directory ancestor: '')
                  else check_components s folder (base @ [c]) cs)"

definition checked :: "bool \<Rightarrow> cpath \<Rightarrow> rootfs \<Rightarrow> cpath result" where
  "checked folder p s =
     (if p = [] \<or> hd p = ''/'' \<or> ''.'' \<in> set p \<or> ''..'' \<in> set p
      then Inl (MigrationError ''invalid relative path: '')
      else bindE (check_components s folder [] p) (\<lambda>_. Inr p))"

definition stamp :: "cpath \<Rightarrow> rootfs \<Rightarrow> cache_stat option result" where
  "stamp p s =
     (case map_of s p of
        None \<Rightarrow> Inr None
      | Some (CFile st links b) \<Rightarrow>
          if links \<noteq> 1 then Inl (MigrationError ''expected one regular cache file: '') else Inr (Some st)
      | Some _ \<Rightarrow> Inl (MigrationError ''expected one regular cache file: ''))"

definition stat_json :: "cache_stat \<Rightarrow> pyval" where
  "stat_json st = PDict
     [(''st_dev'', PInt (cs_dev st)), (''st_ino'', PInt (cs_ino st)), (''st_mode'', PInt (cs_mode st)),
      (''st_uid'', PInt (cs_uid st)), (''st_gid'', PInt (cs_gid st)), (''st_size'', PInt (cs_size st)),
      (''st_mtime_ns'', PInt (cs_mtime_ns st))]"

definition stamp_is :: "cache_stat option \<Rightarrow> pyval \<Rightarrow> bool" where
  "stamp_is info expected \<longleftrightarrow> (case info of None \<Rightarrow> expected = PNone | Some st \<Rightarrow> py_eq (stat_json st) expected)"

subsection \<open>JSON files\<close>

definition read_json :: "cpath \<Rightarrow> rootfs \<Rightarrow> pyval result" where
  "read_json p s =
     bindE (stamp p s) (\<lambda>info.
     case info of
       None \<Rightarrow> Inr PNone
     | Some st \<Rightarrow>
         if cs_size st > 1024 * 1024 then Inl (MigrationError ''oversized cache revision record'')
         else case map_of s p of
           Some (CFile _ _ (Document v)) \<Rightarrow> Inr v
         | _ \<Rightarrow> Inl (ValueError ''JSONDecodeError''))"

text \<open>A temporary file is created, written and renamed over the target; \<open>finally\<close> finds it gone.\<close>

definition atomic_json :: "cache_env \<Rightarrow> cpath \<Rightarrow> pyval \<Rightarrow> unit run" where
  "atomic_json E p payload s =
     (let temporary = butlast p @ [''.commit-'' @ ce_suffix E s] in
      bind_run (act (\<lambda>s. py_set s temporary (CFile (ce_stat E s PNone) 1 (Bytes [])))) (\<lambda>_.
      bind_run (act (\<lambda>s. py_set s temporary (CFile (ce_stat E s payload) 1 (Document payload)))) (\<lambda>_.
      act (\<lambda>s. case map_of s temporary of
             None \<Rightarrow> s
           | Some n \<Rightarrow> py_set (py_pop s temporary) p n))) s)"

subsection \<open>The cache files\<close>

text \<open>The cache-client directories below one directory.\<close>

definition client_children :: "rootfs \<Rightarrow> cpath \<Rightarrow> cpath list result" where
  "client_children s p =
     foldE (\<lambda>name cs.
       case map_of s (p @ [name]) of
         Some CLink \<Rightarrow> Inl (MigrationError ''symlink WindowServer cache-client refused: '')
       | Some CFolder \<Rightarrow> Inr (cs @ [p @ [name]])
       | _ \<Rightarrow> Inr cs) (entries_of s p) []"

definition client_entry :: "rootfs \<Rightarrow> string \<Rightarrow> cpath list \<Rightarrow> cpath list result" where
  "client_entry s name clients =
     (let p = CACHE_RELATIVE @ [name] in
      if starts ''.'' name \<or> name = ''com.apple.metal'' then Inr clients
      else case map_of s p of
        Some CLink \<Rightarrow> Inl (MigrationError ''symlink cache-client directory refused: '')
      | Some CFolder \<Rightarrow>
          if name = ''WindowServer'' then bindE (client_children s p) (\<lambda>cs. Inr (clients @ p # cs))
          else Inr (clients @ [p])
      | _ \<Rightarrow> Inr clients)"

definition library_at :: "rootfs \<Rightarrow> cpath \<Rightarrow> (cpath \<times> cache_stat) list \<Rightarrow> (cpath \<times> cache_stat) list result" where
  "library_at s relative found =
     bindE (checked False relative s) (\<lambda>p.
     bindE (stamp p s) (\<lambda>info.
     case info of None \<Rightarrow> Inr found | Some st \<Rightarrow> Inr (found @ [(relative, st)])))"

definition library_candidates :: "rootfs \<Rightarrow> (cpath \<times> cache_stat) list result" where
  "library_candidates s =
     bindE (checked True CACHE_RELATIVE s) (\<lambda>base.
     if map_of s base = None then Inr []
     else
     bindE (foldE (client_entry s) (entries_of s base) [base]) (\<lambda>clients.
     if length clients > 1024 then Inl (MigrationError ''cache-client inventory exceeds bound'')
     else foldE (library_at s)
       (concat (map (\<lambda>client. map (\<lambda>name. client @ [''com.apple.metal'', ''31001'', name]) NAMES) clients)) []))"

definition candidate_json :: "cpath \<times> cache_stat \<Rightarrow> pyval" where
  "candidate_json c = PDict [(''path'', PStr (join_slash (fst c))), (''stat'', stat_json (snd c))]"

subsection \<open>The journal\<close>

definition valid_cache_relative :: "string \<Rightarrow> bool" where
  "valid_cache_relative value =
     (let relative = posix_parts value; parts = drop (length CACHE_RELATIVE) relative in
      starts CACHE_RELATIVE relative \<and> length parts \<in> {3, 4, 5} \<and>
      take 2 (drop (length parts - 3) parts) = [''com.apple.metal'', ''31001''] \<and>
      last parts \<in> set NAMES \<and> ''.'' \<notin> set relative \<and> ''..'' \<notin> set relative \<and>
      (length parts = 5 \<longrightarrow> hd parts = ''WindowServer''))"

definition current_schema :: "rootfs \<Rightarrow> bool result" where
  "current_schema s =
     bindE (checked False (STATE_RELATIVE @ [''schema.json'']) s) (\<lambda>p.
     bindE (read_json p s) (\<lambda>record.
     Inr (py_eq record (PDict [(''schema'', PStr SCHEMA)]))))"

definition stat_keys :: "string list" where
  "stat_keys = [''st_dev'', ''st_ino'', ''st_mode'', ''st_uid'', ''st_gid'', ''st_size'', ''st_mtime_ns'']"

definition nonnegative :: "pyval \<Rightarrow> bool" where
  "nonnegative v = (case v of PInt i \<Rightarrow> 0 \<le> i | _ \<Rightarrow> False)"

definition regular_mode :: "pyval \<Rightarrow> bool" where
  "regular_mode v = (case v of PInt i \<Rightarrow> i div 4096 mod 16 = 8 | _ \<Rightarrow> False)"

text \<open>An entry's path and expected metadata.\<close>

definition entry_path :: "pyval \<Rightarrow> string option" where
  "entry_path v =
     (case v of PDict kv \<Rightarrow> (case py_get kv ''path'' of PStr p \<Rightarrow> Some p | _ \<Rightarrow> None) | _ \<Rightarrow> None)"

definition entry_stat :: "pyval \<Rightarrow> pyval" where
  "entry_stat v = (case v of PDict kv \<Rightarrow> py_get kv ''stat'' | _ \<Rightarrow> PNone)"

definition journal_entry :: "pyval \<Rightarrow> (string \<times> pyval) result" where
  "journal_entry v =
     (case entry_path v of
        None \<Rightarrow> Inl (MigrationError ''invalid cache migration inventory'')
      | Some p \<Rightarrow>
          if valid_cache_relative p \<and>
            (case entry_stat v of
               PDict kv \<Rightarrow> set (map fst kv) = set stat_keys \<and> list_all (\<lambda>(k, x). nonnegative x) kv \<and>
                 regular_mode (py_get kv ''st_mode'')
             | _ \<Rightarrow> False)
          then Inr (p, entry_stat v)
          else Inl (MigrationError ''invalid cache migration target/metadata''))"

definition generation_of :: "(string \<times> pyval) list \<Rightarrow> nat result" where
  "generation_of journal =
     (case (case map_of journal ''generation'' of None \<Rightarrow> PInt 0 | Some v \<Rightarrow> v) of
        PInt g \<Rightarrow> if 0 \<le> g \<and> g \<le> 1024 then Inr (nat g) else Inl (MigrationError ''invalid cache generation'')
      | _ \<Rightarrow> Inl (MigrationError ''invalid cache generation''))"

text \<open>The journal's generation and its entries.\<close>

definition journal_files :: "pyval \<Rightarrow> (nat \<times> (string \<times> pyval) list) result" where
  "journal_files journal =
     (case journal of
        PDict kv \<Rightarrow>
          (case py_get kv ''files'' of
             PList files \<Rightarrow>
               if \<not> py_eq (py_get kv ''schema'') (PStr SCHEMA)
               then Inl (MigrationError ''invalid cache migration journal'')
               else
               bindE (generation_of kv) (\<lambda>generation.
               if length files > 2048 \<or> list_ex (\<lambda>v. entry_path v = None) files \<or> \<not> distinct (map entry_path files)
               then Inl (MigrationError ''invalid cache migration inventory'')
               else bindE (mapE journal_entry files) (\<lambda>es. Inr (generation, es)))
           | _ \<Rightarrow> Inl (MigrationError ''invalid cache migration journal''))
      | _ \<Rightarrow> Inl (MigrationError ''invalid cache migration journal''))"

definition RETIRED_BASE :: cpath where "RETIRED_BASE = STATE_RELATIVE @ [''retired'', SCHEMA]"

definition archive_of :: "nat \<Rightarrow> string \<Rightarrow> cpath" where
  "archive_of generation p =
     RETIRED_BASE @ (if generation = 0 then [] else [''generations'', show_decimal generation]) @ posix_parts p"

definition archived_path :: "nat \<Rightarrow> string \<Rightarrow> rootfs \<Rightarrow> cpath result" where
  "archived_path generation p = checked False (archive_of generation p)"

subsection \<open>A new generation\<close>

definition JOURNAL :: cpath where "JOURNAL = STATE_RELATIVE @ [SCHEMA @ ''.json'']"

definition history_name :: "nat \<Rightarrow> cpath" where
  "history_name generation = STATE_RELATIVE @ [SCHEMA @ ''.history.'' @ show_decimal generation @ ''.json'']"

text \<open>One entry of the old plan: whether it asks for a new one, and the paths not archived yet.\<close>

definition review_entry ::
  "rootfs \<Rightarrow> nat \<Rightarrow> string \<times> pyval \<Rightarrow> bool \<times> string list \<Rightarrow> (bool \<times> string list) result" where
  "review_entry s generation e x =
     bindE (checked False (posix_parts (fst e)) s) (\<lambda>source.
     bindE (stamp source s) (\<lambda>source_info.
     bindE (archived_path generation (fst e) s) (\<lambda>archived.
     bindE (stamp archived s) (\<lambda>archived_info.
     if archived_info \<noteq> None
     then (if \<not> stamp_is archived_info (snd e) then Inl (MigrationError ''retired cache metadata changed: '')
           else Inr (fst x \<or> source_info \<noteq> None, snd x))
     else Inr (fst x \<or> \<not> stamp_is source_info (snd e), snd x @ [fst e])))))"

definition needs_refresh :: "rootfs \<Rightarrow> nat \<Rightarrow> (string \<times> pyval) list \<Rightarrow> (bool \<times> (cpath \<times> cache_stat) list) result" where
  "needs_refresh s generation files =
     bindE (foldE (review_entry s generation) files (False, [])) (\<lambda>x.
     bindE (library_candidates s) (\<lambda>available.
     Inr (fst x \<or> \<not> set (map (join_slash \<circ> fst) available) \<subseteq> set (snd x), available)))"

definition next_journal :: "nat \<Rightarrow> (cpath \<times> cache_stat) list \<Rightarrow> pyval" where
  "next_journal generation available = PDict
     [(''schema'', PStr SCHEMA), (''generation'', PInt (int generation + 1)),
      (''previous_generation'', PInt (int generation)), (''files'', PList (map candidate_json available))]"

definition keep_history :: "cache_env \<Rightarrow> nat \<Rightarrow> pyval \<Rightarrow> unit run" where
  "keep_history E generation journal =
     bind_run (look (\<lambda>s. bindE (checked False (history_name generation) s) (\<lambda>p. read_json p s))) (\<lambda>old.
     if old \<noteq> PNone \<and> \<not> py_eq old journal then pure_run (Inl (MigrationError ''cache generation history collision''))
     else if old = PNone then atomic_json E (history_name generation) journal
     else pure_run (Inr ()))"

definition refresh_generation :: "cache_env \<Rightarrow> pyval \<Rightarrow> pyval run" where
  "refresh_generation E journal =
     bind_run (look (\<lambda>s. bindE (journal_files journal) (\<lambda>x.
       bindE (needs_refresh s (fst x) (snd x)) (\<lambda>y. Inr (fst x, y))))) (\<lambda>(generation, refresh, available).
     if \<not> refresh then pure_run (Inr journal)
     else if generation \<ge> 1024 then pure_run (Inl (Busy ''too many interrupted cache generations''))
     else
     bind_run (keep_history E generation journal) (\<lambda>_.
     bind_run (atomic_json E JOURNAL (next_journal generation available)) (\<lambda>_.
     pure_run (Inr (next_journal generation available)))))"

subsection \<open>The migration\<close>

definition mkdir_one :: "cpath \<Rightarrow> unit run" where
  "mkdir_one p s =
     (case map_of s p of
        None \<Rightarrow> act (\<lambda>s. py_set s p CFolder) s
      | Some CFolder \<Rightarrow> pure_run (Inr ()) s
      | Some _ \<Rightarrow> pure_run (Inl (OSError ''FileExistsError'')) s)"

definition mkdirs :: "cpath \<Rightarrow> unit run" where
  "mkdirs p = each_run (\<lambda>k. mkdir_one (take (k + 1) p)) [0..<length p]"

definition rename_run :: "cpath \<Rightarrow> cpath \<Rightarrow> unit run" where
  "rename_run src dst = act (\<lambda>s. case map_of s src of None \<Rightarrow> s | Some n \<Rightarrow> py_set (py_pop s src) dst n)"

text \<open>One entry of the journal; \<open>None\<close> says that it is already archived.\<close>

definition inspect_entry :: "nat \<Rightarrow> string \<times> pyval \<Rightarrow> rootfs \<Rightarrow> (cpath \<times> cpath) option result" where
  "inspect_entry generation e s =
     bindE (checked False (posix_parts (fst e)) s) (\<lambda>source.
     bindE (archived_path generation (fst e) s) (\<lambda>archived.
     bindE (stamp source s) (\<lambda>source_info.
     bindE (stamp archived s) (\<lambda>archived_info.
     if archived_info \<noteq> None
     then (if \<not> stamp_is archived_info (snd e) then Inl (MigrationError ''retired cache metadata changed: '')
           else if source_info \<noteq> None then Inl (Busy ''cache writer recreated a source during retirement: '')
           else Inr None)
     else if \<not> stamp_is source_info (snd e) \<or> source_info = None
     then Inl (Busy ''cache changed during migration; will retire its new generation: '')
     else Inr (Some (source, archived))))))"

definition retire_entry :: "nat \<Rightarrow> string \<times> pyval \<Rightarrow> unit run" where
  "retire_entry generation e =
     bind_run (look (inspect_entry generation e)) (\<lambda>x.
     case x of
       None \<Rightarrow> pure_run (Inr ())
     | Some (source, archived) \<Rightarrow>
         bind_run (mkdirs (butlast archived)) (\<lambda>_.
         bind_run (rename_run source archived) (\<lambda>_.
         look (\<lambda>s. bindE (stamp archived s) (\<lambda>info.
           if \<not> stamp_is info (snd e) then Inl (MigrationError ''cache metadata changed while retiring: '')
           else Inr ())))))"

definition open_lock :: "cache_env \<Rightarrow> unit run" where
  "open_lock E s =
     (let p = STATE_RELATIVE @ [''migration.lock''] in
      case checked False p s of
        Inl e \<Rightarrow> ([s], Inl e)
      | Inr _ \<Rightarrow>
          (case map_of s p of
             None \<Rightarrow> act (\<lambda>s. py_set s p (CFile (ce_stat E s PNone) 1 (Bytes []))) s
           | Some (CFile _ _ _) \<Rightarrow> ([s], Inr ())
           | Some _ \<Rightarrow> ([s], Inl (OSError ''cannot open the lock file''))))"

definition idle :: "cache_env \<Rightarrow> nat \<Rightarrow> string \<Rightarrow> unit run" where
  "idle E k message = look (\<lambda>s. bindE (ce_live E k s) (\<lambda>live. if live \<noteq> [] then Inl (Busy message) else Inr ()))"

datatype migration = AlreadyCurrent | Migrated nat

definition load_journal :: "cache_env \<Rightarrow> pyval run" where
  "load_journal E =
     bind_run (look (\<lambda>s. bindE (checked False JOURNAL s) (\<lambda>p. read_json p s))) (\<lambda>journal.
     if journal \<noteq> PNone then pure_run (Inr journal)
     else
     bind_run (look library_candidates) (\<lambda>available.
     let journal = PDict [(''schema'', PStr SCHEMA), (''files'', PList (map candidate_json available))] in
     bind_run (atomic_json E JOURNAL journal) (\<lambda>_. pure_run (Inr journal))))"

text \<open>The commit: only when no cache file is left and still nobody runs.\<close>

definition commit_schema :: "cache_env \<Rightarrow> nat \<Rightarrow> migration run" where
  "commit_schema E n =
     bind_run (look (\<lambda>s. bindE (library_candidates s) (\<lambda>cs.
       if cs \<noteq> [] then Inl (Busy ''new cache writer appeared during migration; generation remains pending'')
       else Inr ()))) (\<lambda>_.
     bind_run (idle E 2 ''cache retirement is recoverable but new clients defer schema commit: '') (\<lambda>_.
     bind_run (look (checked False (STATE_RELATIVE @ [''schema.json'']))) (\<lambda>p.
     bind_run (atomic_json E p (PDict [(''schema'', PStr SCHEMA)])) (\<lambda>_.
     pure_run (Inr (Migrated n))))))"

definition retire_files :: "cache_env \<Rightarrow> pyval \<Rightarrow> migration run" where
  "retire_files E journal =
     bind_run (look (\<lambda>s. journal_files journal)) (\<lambda>x.
     bind_run (each_run (retire_entry (fst x)) (snd x)) (\<lambda>_.
     commit_schema E (length (snd x))))"

text \<open>What runs under the lock.\<close>

definition migrate_locked :: "cache_env \<Rightarrow> migration run" where
  "migrate_locked E =
     bind_run (look current_schema) (\<lambda>current.
     if current then pure_run (Inr AlreadyCurrent)
     else
     bind_run (idle E 1 ''macOS clients appeared before cache mutation: '') (\<lambda>_.
     bind_run (load_journal E) (\<lambda>journal.
     bind_run (refresh_generation E journal) (retire_files E))))"

definition migrate :: "cache_env \<Rightarrow> migration run" where
  "migrate E =
     bind_run (look current_schema) (\<lambda>current.
     if current then pure_run (Inr AlreadyCurrent)
     else
     bind_run (idle E 0 ''macOS clients still live: '') (\<lambda>_.
     bind_run (look (checked True STATE_RELATIVE)) (\<lambda>_.
     bind_run (mkdirs STATE_RELATIVE) (\<lambda>_.
     bind_run (open_lock E) (\<lambda>_.
     if \<not> ce_lock_free E then pure_run (Inl (Busy ''cache migration already running''))
     else migrate_locked E)))))"

subsection \<open>What a run may do to the files\<close>

definition in_cache :: "cpath \<Rightarrow> bool" where
  "in_cache q \<longleftrightarrow> starts CACHE_RELATIVE q"

definition archive_at :: "nat \<Rightarrow> cpath \<Rightarrow> cpath" where
  "archive_at generation q =
     RETIRED_BASE @ (if generation = 0 then [] else [''generations'', show_decimal generation]) @ q"

text \<open>Archived files and the plans of earlier generations.\<close>

definition permanent :: "cpath \<Rightarrow> cnode \<Rightarrow> bool" where
  "permanent q n \<longleftrightarrow> starts (STATE_RELATIVE @ [''retired'']) q \<or>
     butlast q = STATE_RELATIVE \<and> starts (SCHEMA @ ''.history.'') (last q) \<and>
     (\<exists>st l v. n = CFile st l (Document v) \<and> v \<noteq> PNone)"

definition files_kept :: "rootfs \<Rightarrow> rootfs \<Rightarrow> bool" where
  "files_kept s t \<longleftrightarrow>
     (\<forall>q n. map_of s q = Some n \<longrightarrow> permanent q n \<longrightarrow> map_of t q = Some n) \<and>
     (\<forall>q n. map_of s q = Some n \<longrightarrow> in_cache q \<longrightarrow>
        map_of t q = Some n \<or> (\<exists>g. map_of t (archive_at g q) = Some n))"

lemma permanent_archive [simp]: "permanent (archive_at g q) n"
  by (simp add: permanent_def archive_at_def RETIRED_BASE_def starts_def STATE_RELATIVE_def)

lemma files_kept_refl [simp]: "files_kept s s"
  by (simp add: files_kept_def)

lemma files_kept_trans: "files_kept a b \<Longrightarrow> files_kept b c \<Longrightarrow> files_kept a c"
  unfolding files_kept_def by (meson permanent_archive)

lemma files_kept_change:
  assumes "\<And>q n. map_of s q = Some n \<Longrightarrow> map_of t q = Some n \<or> \<not> in_cache q \<and> \<not> permanent q n"
  shows "files_kept s t"
  using assms unfolding files_kept_def by blast

lemma files_kept_new: "map_of s p = None \<Longrightarrow> files_kept s (py_set s p n)"
  by (rule files_kept_change) auto

subsection \<open>Runs that keep the files\<close>

abbreviation keeps :: "'a run \<Rightarrow> rootfs \<Rightarrow> bool" where
  "keeps \<equiv> through files_kept"

interpretation cache_runs: kept files_kept
  by unfold_locales (simp, rule files_kept_trans)

lemmas keeps_pure [simp] = cache_runs.pure
lemmas keeps_look [simp] = cache_runs.look
lemmas keeps_act = cache_runs.act
lemmas keeps_bind = cache_runs.bind
lemmas keeps_bind_all = cache_runs.bind_all
lemmas keeps_each = cache_runs.each

subsection \<open>The primitive operations\<close>

definition state_file :: "cpath \<Rightarrow> bool" where
  "state_file p \<longleftrightarrow> butlast p = STATE_RELATIVE \<and> last p \<noteq> ''retired''"

lemma state_file_outside: "state_file p \<Longrightarrow> \<not> in_cache p"
  by (cases p rule: rev_cases) (auto simp: state_file_def in_cache_def starts_def STATE_RELATIVE_def CACHE_RELATIVE_def)

lemma state_file_permanent:
  "state_file p \<Longrightarrow> permanent p n \<longleftrightarrow> starts (SCHEMA @ ''.history.'') (last p) \<and>
     (\<exists>st l v. n = CFile st l (Document v) \<and> v \<noteq> PNone)"
  by (cases p rule: rev_cases) (auto simp: state_file_def permanent_def starts_def STATE_RELATIVE_def)

lemma temporary_state_file:
  "butlast p = STATE_RELATIVE \<Longrightarrow> state_file (butlast p @ [''.commit-'' @ x])"
  by (simp add: state_file_def)

lemma temporary_not_permanent:
  "butlast p = STATE_RELATIVE \<Longrightarrow> \<not> permanent (butlast p @ [''.commit-'' @ x]) n"
  by (simp add: permanent_def starts_def SCHEMA_def STATE_RELATIVE_def)

text \<open>The three states of a published document.\<close>

lemma atomic_json_states:
  assumes "atomic_json E p payload s = (tr, r)"
  obtains t st1 st2 st3 where "t = butlast p @ [''.commit-'' @ ce_suffix E s]" "r = Inr ()" "tr = [s, st1, st2, st3]"
    "\<And>q. q \<noteq> t \<Longrightarrow> map_of st1 q = map_of s q" "\<And>q. q \<noteq> t \<Longrightarrow> map_of st2 q = map_of s q"
    "\<And>q. q \<noteq> t \<Longrightarrow> q \<noteq> p \<Longrightarrow> map_of st3 q = map_of s q" "\<exists>st. map_of st3 p = Some (CFile st 1 (Document payload))"
    "p \<noteq> t \<Longrightarrow> map_of st3 t = None"
proof -
  let ?t = "butlast p @ [''.commit-'' @ ce_suffix E s]"
  let ?s1 = "py_set s ?t (CFile (ce_stat E s PNone) 1 (Bytes []))"
  let ?n = "CFile (ce_stat E ?s1 payload) 1 (Document payload)"
  let ?s2 = "py_set ?s1 ?t ?n"
  from assms have "r = Inr ()" "tr = [s, ?s1, ?s2, py_set (py_pop ?s2 ?t) p ?n]"
    by (auto simp: atomic_json_def Let_def bind_run_def act_def)
  then show ?thesis by (intro that [of ?t ?s1 ?s2 "py_set (py_pop ?s2 ?t) p ?n"]) auto
qed

lemma keeps_atomic_json:
  assumes "state_file p" and "\<And>n. map_of s p = Some n \<Longrightarrow> \<not> permanent p n"
  shows "keeps (atomic_json E p payload) s"
proof -
  obtain tr r where a: "atomic_json E p payload s = (tr, r)" by (cases "atomic_json E p payload s")
  have b: "butlast p = STATE_RELATIVE" using assms(1) by (simp add: state_file_def)
  from a show ?thesis
  proof (rule atomic_json_states)
    fix t st1 st2 st3
    assume t: "t = butlast p @ [''.commit-'' @ ce_suffix E s]" and tr: "tr = [s, st1, st2, st3]"
      and c: "\<And>q. q \<noteq> t \<Longrightarrow> map_of st1 q = map_of s q" "\<And>q. q \<noteq> t \<Longrightarrow> map_of st2 q = map_of s q"
        "\<And>q. q \<noteq> t \<Longrightarrow> q \<noteq> p \<Longrightarrow> map_of st3 q = map_of s q"
    have tmp: "\<not> in_cache t" "\<not> permanent t n" for n
      unfolding t using temporary_state_file [OF b] temporary_not_permanent [OF b] by (auto dest: state_file_outside)
    have "files_kept s st1" "files_kept s st2"
      using c(1,2) tmp by (auto intro!: files_kept_change) metis+
    moreover have "files_kept s st3"
      using c(3) tmp assms state_file_outside [OF assms(1)] by (intro files_kept_change) metis
    ultimately show ?thesis using a tr by (simp add: through_def)
  qed
qed

lemma keeps_mkdir_one: "keeps (mkdir_one p) s"
  by (auto simp: mkdir_one_def through_def act_def pure_run_def intro!: files_kept_new split: option.splits cnode.splits)

lemma keeps_mkdirs: "keeps (mkdirs p) s"
  unfolding mkdirs_def by (rule keeps_each) (rule keeps_mkdir_one)

lemma keeps_open_lock: "keeps (open_lock E) s"
  by (auto simp: open_lock_def through_def act_def Let_def intro!: files_kept_new
      split: sum.splits option.splits cnode.splits)

subsection \<open>Retiring one entry\<close>

lemma mkdir_one_Inr:
  assumes "mkdir_one p s = (tr, Inr u)"
  shows "(map_of (last tr) q = map_of s q \<or> map_of s q = None \<and> q = p) \<and> tr \<noteq> []"
  using assms by (auto simp: mkdir_one_def act_def pure_run_def split: option.splits cnode.splits)

lemma mkdirs_Inr:
  assumes "mkdirs p s = (tr, Inr u)"
  shows "map_of (last tr) q = map_of s q \<or> map_of s q = None \<and> length q \<le> length p"
proof -
  have "each_run (\<lambda>k. mkdir_one (take (k + 1) p)) ks s = (tr, Inr u) \<Longrightarrow> set ks \<subseteq> {..<length p} \<Longrightarrow>
      tr \<noteq> [] \<and> (map_of (last tr) q = map_of s q \<or> map_of s q = None \<and> length q \<le> length p)" for ks
  proof (induction ks arbitrary: s tr)
    case Nil
    then show ?case by (auto simp: pure_run_def)
  next
    case (Cons k ks)
    then obtain tr1 tr2 where m: "mkdir_one (take (k + 1) p) s = (tr1, Inr ())"
      and r: "each_run (\<lambda>k. mkdir_one (take (k + 1) p)) ks (last tr1) = (tr2, Inr u)" and tr: "tr = tr1 @ tl tr2"
      by (auto simp: last_bind)
    from Cons.IH [OF r] Cons.prems(2) have i: "tr2 \<noteq> []"
      "map_of (last tr2) q = map_of (last tr1) q \<or> map_of (last tr1) q = None \<and> length q \<le> length p" by auto
    have h: "hd tr2 = last tr1" using r
      by (cases ks) (auto simp: pure_run_def bind_run_def mkdir_one_def act_def split: prod.splits sum.splits option.splits cnode.splits)
    have "last tr = last tr2"
      using i(1) h mkdir_one_Inr [OF m, of q] by (cases tr2) (auto simp: tr)
    moreover have "length q \<le> length p" if "q = take (k + 1) p" using that by simp
    ultimately show ?case using i mkdir_one_Inr [OF m, of q] tr by auto
  qed
  from this [of "[0..<length p]"] assms show ?thesis by (simp add: mkdirs_def atLeast0LessThan)
qed

lemma stamp_None: "stamp p s = Inr None \<longleftrightarrow> map_of s p = None"
  by (auto simp: stamp_def split: option.splits cnode.splits)

lemma stamp_Some: "stamp p s = Inr (Some st) \<longleftrightarrow> (\<exists>b. map_of s p = Some (CFile st 1 b))"
  by (auto simp: stamp_def split: option.splits cnode.splits)

lemma checked_Inr: "checked folder p s = Inr q \<Longrightarrow> q = p"
  by (auto simp: checked_def split: if_split_asm)

lemma archive_of_at: "archive_of g p = archive_at g (posix_parts p)"
  by (simp add: archive_of_def archive_at_def)

lemma inspect_entry_Some:
  assumes "inspect_entry g e s = Inr (Some (source, archived))"
  shows "source = posix_parts (fst e) \<and> archived = archive_at g source \<and> map_of s archived = None \<and>
    (\<exists>st b. map_of s source = Some (CFile st 1 b) \<and> stamp_is (Some st) (snd e))"
  using assms
  by (auto simp: inspect_entry_def archived_path_def archive_of_at stamp_None stamp_Some stamp_is_def dest!: checked_Inr
      split: if_split_asm option.splits)

definition valid_path :: "string \<Rightarrow> bool" where
  "valid_path p \<longleftrightarrow> in_cache (posix_parts p)"

lemma cache_not_permanent: "in_cache q \<Longrightarrow> \<not> permanent q n"
proof -
  assume "in_cache q"
  then have "hd q = ''private''" by (auto simp: in_cache_def starts_iff CACHE_RELATIVE_def)
  moreover have "hd q = ''Library''" if "permanent q n"
    using that
  proof (cases q rule: rev_cases)
    case Nil
    with that show ?thesis by (simp add: permanent_def starts_def STATE_RELATIVE_def)
  next
    case (snoc ys y)
    with that show ?thesis by (auto simp: permanent_def starts_iff STATE_RELATIVE_def)
  qed
  ultimately show "\<not> permanent q n" by auto
qed

lemma keeps_rename:
  assumes "in_cache q" and "map_of s (archive_at g q) = None" and "map_of s q = Some n"
  shows "files_kept s (py_set (py_pop s q) (archive_at g q) n)"
  using assms cache_not_permanent [OF assms(1)]
  by (auto simp: files_kept_def) (metis permanent_archive)

lemma keeps_retire_entry:
  assumes "valid_path (fst e)"
  shows "keeps (retire_entry g e) s"
  unfolding retire_entry_def
proof (rule keeps_bind, simp)
  fix x tr assume "look (inspect_entry g e) s = (tr, Inr x)"
  then have i: "inspect_entry g e s = Inr x" and tr: "last tr = s" by (auto simp: look_Inr)
  show "keeps (case x of None \<Rightarrow> pure_run (Inr ()) | Some (source, archived) \<Rightarrow>
      bind_run (mkdirs (butlast archived)) (\<lambda>_. bind_run (rename_run source archived) (\<lambda>_.
        look (\<lambda>s. bindE (stamp archived s) (\<lambda>info. if \<not> stamp_is info (snd e)
          then Inl (MigrationError ''cache metadata changed while retiring: '') else Inr ()))))) (last tr)"
  proof (cases x)
    case None
    then show ?thesis by simp
  next
    case (Some y)
    obtain source archived where y: "y = (source, archived)" by (cases y)
    with i Some have e: "source = posix_parts (fst e)" "archived = archive_at g source" "map_of s archived = None"
      and n: "\<exists>st b. map_of s source = Some (CFile st 1 b)" using inspect_entry_Some by blast+
    have "archived \<noteq> []" by (simp add: e(2) archive_at_def RETIRED_BASE_def)
    show ?thesis
      unfolding Some y option.case prod.case tr
    proof (rule keeps_bind [OF keeps_mkdirs], rule keeps_bind_all)
      fix u tr' assume m: "mkdirs (butlast archived) s = (tr', Inr u)"
      have "map_of (last tr') archived = None"
        using mkdirs_Inr [OF m, of archived] e(3) \<open>archived \<noteq> []\<close> by (auto simp: Suc_diff_le length_greater_0_conv [symmetric] simp del: length_greater_0_conv)
      moreover obtain n' where "map_of (last tr') source = Some n'"
        using mkdirs_Inr [OF m, of source] n by auto
      ultimately show "keeps (rename_run source archived) (last tr')"
        unfolding rename_run_def using assms e(1) by (intro keeps_act) (simp add: keeps_rename e(2) valid_path_def)
    qed simp
  qed
qed

lemma journal_files_valid:
  assumes "journal_files journal = Inr (g, files)" and "e \<in> set files"
  shows "valid_path (fst e)"
proof -
  from assms(1) obtain vs where "mapE journal_entry vs = Inr files"
    by (auto simp: journal_files_def split: pyval.splits if_split_asm)
  from mapE_set [OF this assms(2)] obtain v where "journal_entry v = Inr e" by blast
  then show ?thesis
    by (auto simp: journal_entry_def valid_path_def valid_cache_relative_def in_cache_def Let_def
        split: option.splits pyval.splits if_split_asm)
qed

subsection \<open>The whole migration keeps the files\<close>

lemma history_state_file: "state_file (history_name g)"
  by (simp add: state_file_def history_name_def SCHEMA_def)

lemma journal_state_file: "state_file JOURNAL" "\<not> permanent JOURNAL n"
  by (simp_all add: state_file_def JOURNAL_def SCHEMA_def permanent_def starts_def STATE_RELATIVE_def)

lemma schema_state_file:
  "state_file (STATE_RELATIVE @ [''schema.json''])" "\<not> permanent (STATE_RELATIVE @ [''schema.json'']) n"
  by (simp_all add: state_file_def SCHEMA_def permanent_def starts_def STATE_RELATIVE_def)

lemma read_json_None:
  "read_json p s = Inr PNone \<Longrightarrow> map_of s p = Some n \<Longrightarrow> \<exists>st l. n = CFile st l (Document PNone)"
  by (auto simp: read_json_def stamp_def split: option.splits cnode.splits body.splits if_split_asm)

lemma keeps_keep_history: "keeps (keep_history E g journal) s"
  unfolding keep_history_def
proof (rule keeps_bind, simp)
  fix x tr
  assume "look (\<lambda>s. bindE (checked False (history_name g) s) (\<lambda>p. read_json p s)) s = (tr, Inr x)"
  then have r: "read_json (history_name g) s = Inr x" and tr: "last tr = s"
    by (auto simp: look_Inr dest: checked_Inr)
  have "keeps (atomic_json E (history_name g) journal) s" if "x = PNone"
  proof (rule keeps_atomic_json [OF history_state_file])
    fix n assume "map_of s (history_name g) = Some n"
    with r that read_json_None show "\<not> permanent (history_name g) n"
      by (fastforce simp: state_file_permanent [OF history_state_file])
  qed
  with tr show "keeps (if x \<noteq> PNone \<and> \<not> py_eq x journal
      then pure_run (Inl (MigrationError ''cache generation history collision''))
      else if x = PNone then atomic_json E (history_name g) journal else pure_run (Inr ())) (last tr)"
    by (cases "x = PNone") auto
qed

lemma keeps_refresh: "keeps (refresh_generation E journal) s"
  unfolding refresh_generation_def
  by (auto intro!: keeps_bind_all keeps_keep_history keeps_atomic_json simp: journal_state_file split: prod.splits)

lemma keeps_load_journal: "keeps (load_journal E) s"
  unfolding load_journal_def Let_def
  by (auto intro!: keeps_bind_all keeps_atomic_json simp: journal_state_file)

lemma keeps_idle: "keeps (idle E k msg) s"
  by (simp add: idle_def)

lemma keeps_commit: "keeps (commit_schema E n) s"
proof -
  have schema: "keeps (bind_run (look (checked False (STATE_RELATIVE @ [''schema.json'']))) (\<lambda>p.
      bind_run (atomic_json E p (PDict [(''schema'', PStr SCHEMA)])) (\<lambda>_. pure_run (Inr (Migrated n))))) t" for t
    by (rule keeps_bind, simp) (auto simp: look_Inr schema_state_file dest!: checked_Inr intro!: keeps_bind_all keeps_atomic_json)
  show ?thesis unfolding commit_schema_def by (auto intro!: keeps_bind_all [OF keeps_look] keeps_bind_all [OF keeps_idle] schema)
qed

lemma keeps_retire_files: "keeps (retire_files E journal) s"
  unfolding retire_files_def
proof (rule keeps_bind, simp)
  fix x tr assume "look (\<lambda>s. journal_files journal) s = (tr, Inr x)"
  then have j: "journal_files journal = Inr (fst x, snd x)" by (simp add: look_Inr)
  have "keeps (retire_entry (fst x) e) t" if "e \<in> set (snd x)" for e t
    by (rule keeps_retire_entry [OF journal_files_valid [OF j that]])
  then show "keeps (bind_run (each_run (retire_entry (fst x)) (snd x)) (\<lambda>_. commit_schema E (length (snd x)))) (last tr)"
    by (intro keeps_bind_all keeps_each keeps_commit)
qed

lemma keeps_migrate_locked: "keeps (migrate_locked E) s"
  unfolding migrate_locked_def
  by (auto intro!: keeps_bind_all keeps_idle keeps_load_journal keeps_refresh keeps_retire_files)

lemma keeps_migrate: "keeps (migrate E) s"
  unfolding migrate_def
  by (auto intro!: keeps_bind_all keeps_idle keeps_mkdirs keeps_open_lock keeps_migrate_locked)

text \<open>
  A history of runs, each of which may be cut off in any state it passes through; the next one
  starts from what it left.
\<close>

inductive crash_runs :: "rootfs \<Rightarrow> rootfs \<Rightarrow> bool" where
  crash_start: "crash_runs s s"
| crash_again: "crash_runs s t \<Longrightarrow> u \<in> set (fst (migrate E t)) \<Longrightarrow> crash_runs s u"

text \<open>C17: Cache files and records survive every crash.  In every state that any number of migration
  runs can leave behind, each of them possibly cut off between two file operations, every file
  that was in the cache area is still there or stands unchanged in the archive below its own path,
  every archived file is untouched, and so is every retained plan of an earlier generation.\<close>

theorem crash_safe:
  assumes "crash_runs s t"
  shows "files_kept s t"
  using assms
proof (induction rule: crash_runs.induct)
  case (crash_start s)
  then show ?case by simp
next
  case (crash_again s t u E)
  have "keeps (migrate E) t" by (rule keeps_migrate)
  with crash_again.hyps(2) have "files_kept t u" by (simp add: through_def list_all_iff)
  with crash_again.IH show ?case by (rule files_kept_trans)
qed

subsection \<open>What a completed migration has done\<close>

definition archived_as :: "rootfs \<Rightarrow> nat \<Rightarrow> string \<times> pyval \<Rightarrow> bool" where
  "archived_as t g e \<longleftrightarrow> (\<exists>st b. map_of t (archive_of g (fst e)) = Some (CFile st 1 b) \<and> py_eq (stat_json st) (snd e))"

lemma archived_as_kept: "archived_as s g e \<Longrightarrow> files_kept s t \<Longrightarrow> archived_as t g e"
  unfolding archived_as_def files_kept_def archive_of_at by (meson permanent_archive)

lemma retire_entry_Inr:
  assumes "retire_entry g e s = (tr, Inr u)" and "snd e \<noteq> PNone"
  shows "archived_as (last tr) g e"
proof -
  from assms(1) obtain x tr2 where i: "inspect_entry g e s = Inr x"
    and r: "(case x of None \<Rightarrow> pure_run (Inr ()) | Some (source, archived) \<Rightarrow>
      bind_run (mkdirs (butlast archived)) (\<lambda>_. bind_run (rename_run source archived) (\<lambda>_.
        look (\<lambda>s. bindE (stamp archived s) (\<lambda>info. if \<not> stamp_is info (snd e)
          then Inl (MigrationError ''cache metadata changed while retiring: '') else Inr ()))))) s = (tr2, Inr u)"
    and tr: "tr = [s] @ tl tr2" by (auto simp: retire_entry_def last_bind look_Inr)
  show ?thesis
  proof (cases x)
    case None
    with i have "\<exists>st b. map_of s (archive_of g (fst e)) = Some (CFile st 1 b) \<and> py_eq (stat_json st) (snd e)"
      by (auto simp: inspect_entry_def archived_path_def stamp_Some stamp_is_def dest!: checked_Inr
          split: if_split_asm option.splits)
    with None r tr show ?thesis by (auto simp: pure_run_def archived_as_def)
  next
    case (Some y)
    obtain source archived where y: "y = (source, archived)" by (cases y)
    from inspect_entry_Some [of g e s source archived] i Some y have a: "archived = archive_of g (fst e)"
      by (simp add: archive_of_at)
    from r Some y have "bind_run (mkdirs (butlast archived)) (\<lambda>_. bind_run (rename_run source archived) (\<lambda>_.
        look (\<lambda>s. bindE (stamp archived s) (\<lambda>info. if \<not> stamp_is info (snd e)
          then Inl (MigrationError ''cache metadata changed while retiring: '') else Inr ())))) s = (tr2, Inr u)" by simp
    then obtain tra trb w trc where m: "mkdirs (butlast archived) s = (tra, Inr w)"
      and b: "rename_run source archived (last tra) = (trb, Inr ())"
      and c: "look (\<lambda>s. bindE (stamp archived s) (\<lambda>info. if \<not> stamp_is info (snd e)
          then Inl (MigrationError ''cache metadata changed while retiring: '') else Inr ())) (last trb) = (trc, Inr u)"
      and t2: "tr2 = tra @ tl (trb @ tl trc)" by (auto simp: last_bind)
    from b have b': "length trb = 2" by (auto simp: rename_run_def act_def)
    from c have c': "trc = [last trb]" by (simp add: look_def)
    have "tra \<noteq> []" using keeps_mkdirs [of "butlast archived" s] m by (simp add: through_def)
    with b' c' t2 tr have "last tr = last trb"
      by (cases trb; cases "tl trb"; cases tra) auto
    moreover from c assms(2) have "\<exists>st b. map_of (last trb) archived = Some (CFile st 1 b) \<and> py_eq (stat_json st) (snd e)"
      by (auto simp: look_Inr stamp_is_def stamp_Some split: option.splits if_split_asm)
    ultimately show ?thesis using a by (simp add: archived_as_def)
  qed
qed

lemma journal_files_stat:
  assumes "journal_files journal = Inr (g, files)" and "e \<in> set files"
  shows "snd e \<noteq> PNone"
proof -
  from assms(1) obtain vs where "mapE journal_entry vs = Inr files"
    by (auto simp: journal_files_def split: pyval.splits if_split_asm)
  from mapE_set [OF this assms(2)] obtain v where "journal_entry v = Inr e" by blast
  then show ?thesis by (auto simp: journal_entry_def split: option.splits pyval.splits if_split_asm)
qed

subsection \<open>The inventory looks only at the cache area\<close>

definition same_cache :: "rootfs \<Rightarrow> rootfs \<Rightarrow> bool" where
  "same_cache s t \<longleftrightarrow> (\<forall>q. q \<noteq> [] \<longrightarrow> hd q \<noteq> ''Library'' \<longrightarrow> map_of s q = map_of t q)"

lemma entries_of_names: "set (entries_of s p) = {n. map_of s (p @ [n]) \<noteq> None}"
proof -
  have "x \<in> set (entries_of s p) \<longleftrightarrow> p @ [x] \<in> fst ` set s" for x
    unfolding entries_of_def by (force simp: image_iff intro: rev_image_eqI dest!: append_butlast_last_id)
  then show ?thesis by (auto simp: map_of_eq_None_iff)
qed

lemma entries_of_cong:
  assumes "\<And>n. map_of s (p @ [n]) = map_of t (p @ [n])"
  shows "entries_of s p = entries_of t p"
proof -
  have "set (entries_of s p) = set (entries_of t p)" using assms by (simp add: entries_of_names)
  moreover have "sorted (entries_of u p) \<and> distinct (entries_of u p)" for u by (simp add: entries_of_def)
  ultimately show ?thesis by (metis sorted_distinct_set_unique)
qed

lemma check_components_cong:
  "(base = [] \<longrightarrow> cs \<noteq> [] \<longrightarrow> hd cs \<noteq> ''Library'') \<Longrightarrow> (base \<noteq> [] \<longrightarrow> hd base \<noteq> ''Library'') \<Longrightarrow> same_cache s t \<Longrightarrow>
   check_components s folder base cs = check_components t folder base cs"
proof (induction cs arbitrary: base)
  case Nil
  then show ?case by simp
next
  case (Cons c cs)
  have h: "hd (base @ [c]) \<noteq> ''Library''" using Cons.prems(1,2) by (cases base) auto
  then have "map_of s (base @ [c]) = map_of t (base @ [c])" using Cons.prems(3) by (auto simp: same_cache_def)
  moreover have "check_components s folder (base @ [c]) cs = check_components t folder (base @ [c]) cs"
    by (rule Cons.IH) (use h Cons.prems(3) in auto)
  ultimately show ?case by (simp split: option.split cnode.split)
qed

lemma checked_cong: "p \<noteq> [] \<Longrightarrow> hd p \<noteq> ''Library'' \<Longrightarrow> same_cache s t \<Longrightarrow> checked folder p s = checked folder p t"
  unfolding checked_def using check_components_cong [of "[]" p s t folder] by simp

lemma foldE_cong: "(\<And>x a. x \<in> set xs \<Longrightarrow> f x a = g x a) \<Longrightarrow> foldE f xs a = foldE g xs a"
  by (induction xs arbitrary: a) (auto intro!: bindE_cong)

lemma client_entry_cong: "same_cache s t \<Longrightarrow> client_entry s name cs = client_entry t name cs"
proof -
  assume c: "same_cache s t"
  have e: "map_of s (CACHE_RELATIVE @ q) = map_of t (CACHE_RELATIVE @ q)" for q
    using c by (simp add: same_cache_def CACHE_RELATIVE_def)
  have "client_children s (CACHE_RELATIVE @ [n]) = client_children t (CACHE_RELATIVE @ [n])" for n
    unfolding client_children_def using e [of "[n, _]"] by (simp add: entries_of_cong [of s _ t])
  then show "client_entry s name cs = client_entry t name cs"
    using e by (simp add: client_entry_def Let_def split: option.split cnode.split)
qed

lemma clients_in_cache:
  assumes "foldE (client_entry s) ns [CACHE_RELATIVE] = Inr cs" and "c \<in> set cs"
  shows "hd c = ''private'' \<and> c \<noteq> []"
proof -
  have h [simp]: "hd (CACHE_RELATIVE @ q) = ''private''" "CACHE_RELATIVE \<noteq> []" "hd CACHE_RELATIVE = ''private''" for q
    by (simp_all add: CACHE_RELATIVE_def)
  have children: "list_all (\<lambda>c. hd c = ''private'' \<and> c \<noteq> []) ks" if "client_children s (CACHE_RELATIVE @ [n]) = Inr ks" for n ks
    by (rule foldE_invariant [OF that [unfolded client_children_def]])
      (auto split: option.splits cnode.splits)
  have "list_all (\<lambda>c. hd c = ''private'' \<and> c \<noteq> []) cs"
    by (rule foldE_invariant [OF assms(1)])
      (auto simp: client_entry_def Let_def dest!: children split: if_split_asm option.splits cnode.splits)
  with assms(2) show ?thesis by (auto simp: list_all_iff)
qed

lemma library_candidates_cong:
  assumes "same_cache s t"
  shows "library_candidates s = library_candidates t"
proof -
  have base: "checked True CACHE_RELATIVE s = checked True CACHE_RELATIVE t"
    using assms by (intro checked_cong) (simp_all add: CACHE_RELATIVE_def)
  have m: "map_of s (CACHE_RELATIVE @ q) = map_of t (CACHE_RELATIVE @ q)" for q
    using assms by (simp add: same_cache_def CACHE_RELATIVE_def)
  have e: "entries_of s CACHE_RELATIVE = entries_of t CACHE_RELATIVE" by (rule entries_of_cong) (rule m)
  have c: "client_entry s = client_entry t" using client_entry_cong [OF assms] by blast
  have l: "library_at s (c @ q) f = library_at t (c @ q) f" if "hd c = ''private'' \<and> c \<noteq> []" for c q f
  proof -
    from that have "c @ q \<noteq> []" "hd (c @ q) \<noteq> ''Library''" by auto
    then have "checked False (c @ q) s = checked False (c @ q) t" "map_of s (c @ q) = map_of t (c @ q)"
      using assms by (auto simp: same_cache_def checked_cong)
    then show ?thesis unfolding library_at_def by (intro bindE_cong refl) (auto simp: stamp_def dest!: checked_Inr)
  qed
  show ?thesis
    unfolding library_candidates_def base
  proof (rule bindE_cong [OF refl])
    fix b assume "checked True CACHE_RELATIVE t = Inr b"
    then have b: "b = CACHE_RELATIVE" by (rule checked_Inr)
    have "foldE (library_at s) (concat (map (\<lambda>client. map (\<lambda>name. client @ [''com.apple.metal'', ''31001'', name]) NAMES) cs)) [] =
        foldE (library_at t) (concat (map (\<lambda>client. map (\<lambda>name. client @ [''com.apple.metal'', ''31001'', name]) NAMES) cs)) []"
      if "foldE (client_entry t) (entries_of t CACHE_RELATIVE) [CACHE_RELATIVE] = Inr cs" for cs
      by (rule foldE_cong) (auto dest: clients_in_cache [OF that] intro: l)
    then show "(if map_of s b = None then Inr [] else
        bindE (foldE (client_entry s) (entries_of s b) [b]) (\<lambda>clients.
        if length clients > 1024 then Inl (MigrationError ''cache-client inventory exceeds bound'')
        else foldE (library_at s)
          (concat (map (\<lambda>client. map (\<lambda>name. client @ [''com.apple.metal'', ''31001'', name]) NAMES) clients)) [])) =
      (if map_of t b = None then Inr [] else
        bindE (foldE (client_entry t) (entries_of t b) [b]) (\<lambda>clients.
        if length clients > 1024 then Inl (MigrationError ''cache-client inventory exceeds bound'')
        else foldE (library_at t)
          (concat (map (\<lambda>client. map (\<lambda>name. client @ [''com.apple.metal'', ''31001'', name]) NAMES) clients)) []))"
      using m [of "[]"] by (auto simp: b e c intro!: bindE_cong)
  qed
qed


subsection \<open>Completion\<close>

lemma schema_published:
  assumes "atomic_json E (STATE_RELATIVE @ [''schema.json'']) v s = (tr, r)"
  shows "(\<exists>st. map_of (last tr) (STATE_RELATIVE @ [''schema.json'']) = Some (CFile st 1 (Document v))) \<and>
    same_cache s (last tr)"
proof -
  from assms obtain t st3 where tr: "last tr = st3" and t: "t = STATE_RELATIVE @ [''.commit-'' @ ce_suffix E s]"
    and o: "\<And>q. q \<noteq> t \<Longrightarrow> q \<noteq> STATE_RELATIVE @ [''schema.json''] \<Longrightarrow> map_of st3 q = map_of s q"
    and p: "\<exists>st. map_of st3 (STATE_RELATIVE @ [''schema.json'']) = Some (CFile st 1 (Document v))"
    by (rule atomic_json_states) auto
  have "map_of s q = map_of st3 q" if "hd q \<noteq> ''Library''" for q
    using that o [of q] t by (cases "q = t \<or> q = STATE_RELATIVE @ [''schema.json'']") (auto simp: STATE_RELATIVE_def)
  with p tr show ?thesis by (simp add: same_cache_def)
qed

lemma commit_schema_Inr:
  assumes "commit_schema E n s = (tr, Inr y)"
  shows "y = Migrated n \<and> library_candidates (last tr) = Inr [] \<and>
    (\<exists>st. map_of (last tr) (STATE_RELATIVE @ [''schema.json'']) =
       Some (CFile st 1 (Document (PDict [(''schema'', PStr SCHEMA)]))))"
proof -
  have k: "keeps (bind_run (look (checked False (STATE_RELATIVE @ [''schema.json'']))) (\<lambda>p.
      bind_run (atomic_json E p (PDict [(''schema'', PStr SCHEMA)])) (\<lambda>_. pure_run (Inr (Migrated n))))) t" for t
    by (rule keeps_bind, simp) (auto simp: look_Inr schema_state_file dest!: checked_Inr intro!: keeps_bind_all keeps_atomic_json)
  have k2: "keeps (bind_run (idle E 2 msg) (\<lambda>_.
      bind_run (look (checked False (STATE_RELATIVE @ [''schema.json'']))) (\<lambda>p.
      bind_run (atomic_json E p (PDict [(''schema'', PStr SCHEMA)])) (\<lambda>_. pure_run (Inr (Migrated n)))))) t" for t msg
    by (rule keeps_bind_all [OF keeps_idle k])
  from cache_runs.look_done [OF assms [unfolded commit_schema_def] k2] obtain u :: unit
    where c0: "bindE (library_candidates s) (\<lambda>cs. if cs \<noteq> [] then
        Inl (Busy ''new cache writer appeared during migration; generation remains pending'') else Inr ()) = Inr u"
      and r: "bind_run (idle E 2 ''cache retirement is recoverable but new clients defer schema commit: '') (\<lambda>_.
      bind_run (look (checked False (STATE_RELATIVE @ [''schema.json'']))) (\<lambda>p.
      bind_run (atomic_json E p (PDict [(''schema'', PStr SCHEMA)])) (\<lambda>_. pure_run (Inr (Migrated n))))) s = (tr, Inr y)"
    by blast
  from c0 have c: "library_candidates s = Inr []" by (auto split: if_split_asm)
  from cache_runs.look_done [OF r [unfolded idle_def] k]
  have "bind_run (look (checked False (STATE_RELATIVE @ [''schema.json'']))) (\<lambda>p.
      bind_run (atomic_json E p (PDict [(''schema'', PStr SCHEMA)])) (\<lambda>_. pure_run (Inr (Migrated n)))) s = (tr, Inr y)"
    by blast
  then obtain tr1 where "bind_run (atomic_json E (STATE_RELATIVE @ [''schema.json'']) (PDict [(''schema'', PStr SCHEMA)]))
      (\<lambda>_. pure_run (Inr (Migrated n))) s = (tr1, Inr y)" "tr = [s] @ tl tr1"
    by (auto simp: last_bind look_Inr dest!: checked_Inr)
  then obtain u where y: "y = Migrated n"
    and a: "atomic_json E (STATE_RELATIVE @ [''schema.json'']) (PDict [(''schema'', PStr SCHEMA)]) s = (tr1, Inr u)"
    by (auto simp: last_bind pure_run_def)
  from a have "length tr1 = 4" by (rule atomic_json_states) simp
  then have l: "last tr = last tr1" using \<open>tr = [s] @ tl tr1\<close> by (cases tr1) (auto simp: numeral_eq_Suc length_Suc_conv)
  have "library_candidates (last tr) = Inr []" using schema_published [OF a] c l library_candidates_cong [of s "last tr"] by simp
  with schema_published [OF a] y l show ?thesis by simp
qed

lemma retire_files_Inr:
  assumes "retire_files E journal s = (tr, Inr y)"
  shows "\<exists>g files. journal_files journal = Inr (g, files) \<and> y = Migrated (length files) \<and>
    list_all (archived_as (last tr) g) files \<and> library_candidates (last tr) = Inr [] \<and>
    (\<exists>st. map_of (last tr) (STATE_RELATIVE @ [''schema.json'']) =
       Some (CFile st 1 (Document (PDict [(''schema'', PStr SCHEMA)]))))"
proof -
  from assms obtain x tr1 tr2 u where j: "journal_files journal = Inr (fst x, snd x)"
    and e: "each_run (retire_entry (fst x)) (snd x) s = (tr1, Inr u)"
    and c: "commit_schema E (length (snd x)) (last tr1) = (tr2, Inr y)" and tr: "tr = [s] @ tl (tr1 @ tl tr2)"
    by (auto simp: retire_files_def last_bind look_Inr)
  have k: "keeps (retire_entry (fst x) e) t" if "e \<in> set (snd x)" for e t
    using journal_files_valid [OF j that] by (rule keeps_retire_entry)
  have "keeps (each_run (retire_entry (fst x)) (snd x)) s" by (rule keeps_each) (rule k)
  with e have w1: "tr1 \<noteq> []" "hd tr1 = s" by (simp_all add: through_def)
  have kc: "keeps (commit_schema E (length (snd x))) (last tr1)" by (rule keeps_commit)
  with c have w2: "tr2 \<noteq> []" "hd tr2 = last tr1" by (simp_all add: through_def)
  from w1 w2 tr have l: "last tr = last tr2" by (cases tr1; cases tr2) auto
  have "archived_as (last tr) (fst x) e" if "e \<in> set (snd x)" for e
  proof -
    from cache_runs.each_done [OF e that k] obtain t tr' where r: "retire_entry (fst x) e t = (tr', Inr ())"
      and f: "files_kept (last tr') (last tr1)" by blast
    have "archived_as (last tr') (fst x) e" by (rule retire_entry_Inr [OF r journal_files_stat [OF j that]])
    moreover have "files_kept (last tr1) (last tr2)" by (rule cache_runs.at_last [OF kc c])
    ultimately show ?thesis using f l by (auto intro: archived_as_kept)
  qed
  with commit_schema_Inr [OF c] j l show ?thesis by (cases x) (auto simp: list_all_iff)
qed

text \<open>C18: A completed migration has really retired the caches.  When a run reports that it migrated n
  files, then in the state it leaves no Metal library cache is found any more, the schema record
  names the current revision, and each of the n files of a valid journal stands in the archive of
  its generation, below its own path, with exactly the metadata the journal recorded.\<close>

theorem migration_complete:
  assumes "migrate E s = (tr, Inr (Migrated n))"
  shows "library_candidates (last tr) = Inr [] \<and>
    (\<exists>st. map_of (last tr) (STATE_RELATIVE @ [''schema.json'']) =
       Some (CFile st 1 (Document (PDict [(''schema'', PStr SCHEMA)])))) \<and>
    (\<exists>journal g files. journal_files journal = Inr (g, files) \<and> length files = n \<and>
       list_all (archived_as (last tr) g) files)"
proof -
  have wf: "last (tr1 @ tl tr2) = last tr2" if "m t = (tr1, r)" "keeps m t" "m' (last tr1) = (tr2, r')" "keeps m' (last tr1)"
    for m :: "'x run" and m' :: "'y run" and t tr1 tr2 r r'
    using that by (cases tr2) (auto simp: through_def)
  note ks = keeps_migrate_locked keeps_open_lock keeps_mkdirs keeps_idle keeps_load_journal keeps_refresh keeps_retire_files
  from assms obtain t tr' where m: "migrate_locked E t = (tr', Inr (Migrated n))" and l: "last tr = last tr'"
    unfolding migrate_def
    by (rule cache_runs.bind_done) (auto intro!: keeps_bind_all ks split: if_split_asm simp: look_Inr pure_run_def
        elim!: cache_runs.bind_done)
  from m obtain journal t' tr'' where r: "retire_files E journal t' = (tr'', Inr (Migrated n))" and l': "last tr' = last tr''"
    unfolding migrate_locked_def
    by (rule cache_runs.bind_done) (auto intro!: keeps_bind_all ks split: if_split_asm simp: look_Inr pure_run_def
        elim!: cache_runs.bind_done)
  from retire_files_Inr [OF r] l l' show ?thesis by auto
qed

text \<open>One client with one library file.\<close>

definition sample_cache_stat :: cache_stat where
  "sample_cache_stat = \<lparr>cs_dev = 1, cs_ino = 7, cs_mode = 33188, cs_uid = 0, cs_gid = 0, cs_size = 4, cs_mtime_ns = 9\<rparr>"

definition sample_client :: cpath where
  "sample_client = CACHE_RELATIVE @ [''com.apple.metal'', ''31001'']"

definition sample_rootfs :: rootfs where
  "sample_rootfs = map (\<lambda>k. (take k sample_client, CFolder)) [1..<9] @
     [(sample_client @ [''libraries.list''], CFile sample_cache_stat 1 (Bytes [1, 2, 3, 4])), ([''Library''], CFolder)]"

definition sample_cache_env :: cache_env where
  "sample_cache_env = \<lparr>ce_suffix = (\<lambda>s. ''x''), ce_stat = (\<lambda>s v. sample_cache_stat), ce_live = (\<lambda>k s. Inr []), ce_lock_free = True\<rparr>"

lemma sample_candidates: "library_candidates sample_rootfs = Inr [(sample_client @ [''libraries.list''], sample_cache_stat)]"
  by code_simp

lemma sample_migrates: "snd (migrate sample_cache_env sample_rootfs) = Inr (Migrated 1)"
  by code_simp

theorem crash_safe_witness:
  "\<exists>t. crash_runs sample_rootfs t \<and> files_kept sample_rootfs t \<and> snd (migrate sample_cache_env sample_rootfs) = Inr (Migrated 1)"
proof -
  obtain tr where tr: "migrate sample_cache_env sample_rootfs = (tr, Inr (Migrated 1))"
    using sample_migrates by (metis prod.collapse)
  have "keeps (migrate sample_cache_env) sample_rootfs" by (rule keeps_migrate)
  then have "last tr \<in> set tr" using tr by (simp add: through_def)
  then have "crash_runs sample_rootfs (last tr)"
    using crash_again [OF crash_start, of "last tr" sample_cache_env sample_rootfs] tr by simp
  then show ?thesis using crash_safe tr by (metis snd_conv)
qed

theorem migration_complete_witness:
  "\<exists>tr g e. migrate sample_cache_env sample_rootfs = (tr, Inr (Migrated 1)) \<and> library_candidates (last tr) = Inr [] \<and>
     archived_as (last tr) g e"
proof -
  obtain tr where tr: "migrate sample_cache_env sample_rootfs = (tr, Inr (Migrated 1))"
    using sample_migrates by (metis prod.collapse)
  from migration_complete [OF tr] obtain g files where "library_candidates (last tr) = Inr []" "length files = 1"
    "list_all (archived_as (last tr) g) files" by blast
  moreover from this obtain e where "files = [e]" by (auto simp: length_Suc_conv)
  ultimately show ?thesis using tr by (cases e) auto
qed

end
