(* ===== verification/Immediates.thy ===== *)
theory Immediates
  imports Bytes
begin

text \<open>
  The AArch64 immediates of \<^verbatim>\<open>misc/patch_electron_pa_ios_va.py\<close>: decoding and rewriting the logical
  immediates of \<open>AND\<close>, \<open>ORR\<close>, \<open>EOR\<close>, \<open>ANDS\<close> and the 16-bit immediates of \<open>MOVZ\<close> and \<open>MOVN\<close>.
  Instructions are 32-bit words and immediates 64-bit words.
\<close>

unbundle bit_operations_syntax

type_synonym insn = "32 word"
type_synonym imm = "64 word"

subsection \<open>Logical immediates\<close>

fun bit_length :: "nat \<Rightarrow> nat" where
  "bit_length n = (if n = 0 then 0 else Suc (bit_length (n div 2)))"

declare bit_length.simps [simp del]

definition insn_field :: "insn \<Rightarrow> nat \<Rightarrow> nat \<Rightarrow> nat" where
  "insn_field w i k = unat (drop_bit i w AND mask k)"

definition rotate_right :: "imm \<Rightarrow> nat \<Rightarrow> nat \<Rightarrow> imm" where
  "rotate_right v amount width =
     (let amount = amount mod width in (drop_bit amount v OR push_bit (width - amount) v) AND mask width)"

text \<open>The immediate of the fields \<open>N\<close>, \<open>immr\<close>, \<open>imms\<close> at a register width.\<close>

definition replicate_element :: "nat \<Rightarrow> nat \<Rightarrow> imm \<Rightarrow> imm" where
  "replicate_element width element_width element =
     foldl (\<lambda>r k. r OR push_bit (k * element_width) element) 0 [0..<(width + element_width - 1) div element_width]"

definition immediate_of :: "nat \<Rightarrow> nat \<Rightarrow> nat \<Rightarrow> nat \<Rightarrow> imm option" where
  "immediate_of width n immr imms =
     (let len = bit_length (n * 64 + (63 - imms)) - 1; levels = 2 ^ len - 1; s = imms mod 2 ^ len; r = immr mod 2 ^ len in
      if len < 1 then None
      else if s = levels then None
      else Some (replicate_element width (2 ^ len) (rotate_right (mask (s + 1)) r (2 ^ len)) AND mask width))"

definition decode_logical_immediate :: "insn \<Rightarrow> imm option" where
  "decode_logical_immediate w =
     (if w AND 0x1F800000 \<noteq> 0x12000000 then None
      else immediate_of (if drop_bit 31 w \<noteq> 0 then 64 else 32) (insn_field w 22 1) (insn_field w 16 6) (insn_field w 10 6))"

definition immediate_bits :: "nat \<Rightarrow> nat \<Rightarrow> nat \<Rightarrow> insn" where
  "immediate_bits n immr imms = push_bit 22 (of_nat n) OR push_bit 16 (of_nat immr) OR push_bit 10 (of_nat imms)"

definition immediate_candidates :: "(nat \<times> nat \<times> nat) list" where
  "immediate_candidates =
     concat (map (\<lambda>n. concat (map (\<lambda>immr. map (\<lambda>imms. (n, immr, imms)) [0..<64]) [0..<64])) [0..<2])"

text \<open>\<open>logical_immediate_fields\<close> at its default width 64.\<close>

definition logical_immediate_fields :: "imm \<Rightarrow> (nat \<times> nat \<times> nat) result" where
  "logical_immediate_fields v =
     (case List.find (\<lambda>(n, immr, imms).
        decode_logical_immediate (0x80000000 OR 0x12000000 OR immediate_bits n immr imms) = Some v) immediate_candidates of
        None \<Rightarrow> Inl (ValueError ''value is not an AArch64 logical immediate'')
      | Some x \<Rightarrow> Inr x)"

definition rewrite_logical_immediate :: "insn \<Rightarrow> imm \<Rightarrow> insn result" where
  "rewrite_logical_immediate w v =
     bindE (logical_immediate_fields v) (\<lambda>(n, immr, imms).
     Inr ((w AND NOT 0x007FFC00) OR immediate_bits n immr imms))"

definition is_logical_mask_operation :: "insn \<Rightarrow> bool" where
  "is_logical_mask_operation w \<longleftrightarrow> insn_field w 29 2 \<in> {0, 3}"

subsection \<open>Move-wide immediates\<close>

definition decode_move_wide :: "insn \<Rightarrow> imm option" where
  "decode_move_wide w =
     (if w AND 0x1F800000 \<noteq> 0x12800000 \<or> drop_bit 31 w = 0 then None
      else
      let opcode = insn_field w 29 2; shift = insn_field w 21 2 * 16; immediate = (of_nat (insn_field w 5 16) :: imm) in
      if opcode = 2 then Some (push_bit shift immediate)
      else if opcode = 0 then Some (NOT (push_bit shift immediate))
      else None)"

definition rewrite_move_wide :: "insn \<Rightarrow> imm \<Rightarrow> insn result" where
  "rewrite_move_wide w v =
     (case List.find (\<lambda>k. v AND NOT (push_bit (k * 16) 0xFFFF) = 0) [0..<4] of
        None \<Rightarrow> Inl (ValueError ''value is not a single MOVZ immediate'')
      | Some k \<Rightarrow> Inr ((w AND NOT 0x607FFFE0) OR 0x40000000 OR push_bit 21 (of_nat k) OR
          push_bit 5 (ucast (drop_bit (k * 16) v AND 0xFFFF))))"

subsection \<open>Rewritten immediates decode to the new value\<close>

lemma field_bit: "bit (drop_bit i (w :: insn) AND mask k) j \<longleftrightarrow> j < k \<and> j < 32 \<and> bit w (i + j)"
  by (auto simp: bit_simps)

lemma insn_field_eqI:
  assumes "\<And>j. j < k \<Longrightarrow> bit w (i + j) = bit w' (i + j)"
  shows "insn_field w i k = insn_field w' i k"
proof -
  have "drop_bit i w AND mask k = drop_bit i w' AND mask k"
    by (rule bit_word_eqI) (use assms in \<open>auto simp: field_bit\<close>)
  then show ?thesis by (simp add: insn_field_def)
qed

definition IMM :: insn where "IMM = 0x007FFC00"

lemma bit_IMM: "bit IMM j \<longleftrightarrow> 10 \<le> j \<and> j < 23"
proof -
  have "IMM = push_bit 10 (mask 13)" by (simp add: IMM_def mask_eq_exp_minus_1)
  show ?thesis unfolding \<open>IMM = push_bit 10 (mask 13)\<close> by (auto simp: bit_simps)
qed

lemma small_bit: "n < 2 ^ k \<Longrightarrow> bit (of_nat n :: insn) j \<Longrightarrow> j < k"
  by (metis bit_of_nat_iff bit_take_bit_iff take_bit_nat_eq_self)

lemma immediate_bits_inside:
  assumes "n < 2" and "immr < 64" and "imms < 64" and "bit (immediate_bits n immr imms) j"
  shows "10 \<le> j \<and> j < 23"
  using assms small_bit [of n 1] small_bit [of immr 6] small_bit [of imms 6]
  by (fastforce simp: immediate_bits_def bit_simps)

lemma rewritten_bit:
  assumes "n < 2" and "immr < 64" and "imms < 64"
  shows "bit ((w AND NOT IMM) OR immediate_bits n immr imms) j \<longleftrightarrow>
     (if 10 \<le> j \<and> j < 23 then bit (immediate_bits n immr imms) j else j < 32 \<and> bit w j)"
  using immediate_bits_inside [OF assms, of j]
  by (auto simp: bit_simps bit_IMM)


lemma header_masks: "(0x1F800000 :: insn) = push_bit 23 (mask 6)" "(0x007FFC00 :: insn) = IMM"
  by (simp_all add: IMM_def mask_eq_exp_minus_1)

lemma same_header:
  assumes "\<And>j. 23 \<le> j \<Longrightarrow> j < 32 \<Longrightarrow> bit (x :: insn) j = bit w j"
  shows "x AND 0x1F800000 = w AND 0x1F800000" and "drop_bit 31 x = drop_bit 31 w"
    and "insn_field x 29 2 = insn_field w 29 2"
proof -
  show "x AND 0x1F800000 = w AND 0x1F800000"
    unfolding header_masks by (rule bit_word_eqI) (use assms in \<open>auto simp: bit_simps\<close>)
  show "drop_bit 31 x = drop_bit 31 w"
  proof (rule bit_word_eqI)
    fix k :: nat
    have "bit y (31 + k) \<Longrightarrow> k = 0" for y :: insn using bit_imp_le_length [of y "31 + k"] by simp
    then show "bit (drop_bit 31 x) k = bit (drop_bit 31 w) k" 
      using assms [of 31] by (cases "k = 0") (auto simp: bit_simps dest: bit_imp_le_length)
  qed
  show "insn_field x 29 2 = insn_field w 29 2" by (rule insn_field_eqI) (use assms in simp)
qed

lemma fields_inside:
  assumes "logical_immediate_fields v = Inr (n, immr, imms)"
  shows "n < 2 \<and> immr < 64 \<and> imms < 64 \<and>
    decode_logical_immediate (0x80000000 OR 0x12000000 OR immediate_bits n immr imms) = Some v"
proof -
  from assms have f: "List.find (\<lambda>(n, immr, imms).
      decode_logical_immediate (0x80000000 OR 0x12000000 OR immediate_bits n immr imms) = Some v) immediate_candidates =
      Some (n, immr, imms)" by (auto simp: logical_immediate_fields_def split: option.splits)
  from find_SomeD [OF f] show ?thesis by (auto simp: immediate_candidates_def)
qed

text \<open>The rewritten instruction keeps its opcode, its registers and its width.\<close>

lemma rewrite_logical_decodes:
  assumes r: "rewrite_logical_immediate w v = Inr w'"
    and w: "w AND 0x1F800000 = 0x12000000" "drop_bit 31 w \<noteq> 0"
  shows "decode_logical_immediate w' = Some v \<and> w' AND NOT IMM = w AND NOT IMM \<and>
    insn_field w' 29 2 = insn_field w 29 2 \<and> insn_field w' 5 5 = insn_field w 5 5 \<and> drop_bit 31 w' \<noteq> 0"
proof -
  from r obtain n immr imms where f: "logical_immediate_fields v = Inr (n, immr, imms)"
    and w': "w' = (w AND NOT IMM) OR immediate_bits n immr imms"
    by (auto simp: rewrite_logical_immediate_def header_masks)
  note i = fields_inside [OF f]
  then have l: "n < 2" "immr < 64" "imms < 64" by simp_all
  define c where "c = ((0x92000000 :: insn) AND NOT IMM) OR immediate_bits n immr imms"
  have "c = 0x80000000 OR 0x12000000 OR immediate_bits n immr imms"
  proof -
    have "(0x92000000 :: insn) AND NOT IMM = 0x80000000 OR 0x12000000" by (simp add: IMM_def)
    then show ?thesis by (simp only: c_def or.assoc)
  qed
  with i have d: "decode_logical_immediate c = Some v" by simp
  have b: "bit x j = bit y j" if "10 \<le> j" "j < 23" "x = (u AND NOT IMM) OR immediate_bits n immr imms"
    "y = (u' AND NOT IMM) OR immediate_bits n immr imms" for x y u u' :: insn and j
    using that rewritten_bit [OF l, of u j] rewritten_bit [OF l, of u' j] by simp
  have fields: "insn_field w' 22 1 = insn_field c 22 1" "insn_field w' 16 6 = insn_field c 16 6"
    "insn_field w' 10 6 = insn_field c 10 6"
    by (rule insn_field_eqI; rule b [OF _ _ w' c_def]; simp)+
  have hi: "bit w' j = bit w j" if "23 \<le> j" "j < 32" for j using that rewritten_bit [OF l, of w j] by (simp add: w')
  have hc: "bit c j = bit (0x92000000 :: insn) j" if "23 \<le> j" "j < 32" for j
    using that rewritten_bit [OF l, of "0x92000000" j] by (simp add: c_def)
  note sw = same_header [OF hi] and sc = same_header [OF hc]
  have "drop_bit 31 c \<noteq> 0" using sc(2) by simp
  then have dec: "decode_logical_immediate c = immediate_of 64 (insn_field c 22 1) (insn_field c 16 6) (insn_field c 10 6)"
    using sc(1) by (simp add: decode_logical_immediate_def)
  have "decode_logical_immediate w' = immediate_of 64 (insn_field w' 22 1) (insn_field w' 16 6) (insn_field w' 10 6)"
    using sw w by (simp add: decode_logical_immediate_def)
  moreover have "w' AND NOT IMM = w AND NOT IMM"
    by (rule bit_word_eqI) (use rewritten_bit [OF l, of w] in \<open>auto simp: w' bit_simps bit_IMM dest: immediate_bits_inside [OF l]\<close>)
  moreover have "insn_field w' 5 5 = insn_field w 5 5"
    by (rule insn_field_eqI) (use rewritten_bit [OF l, of w] in \<open>simp add: w'\<close>)
  ultimately show ?thesis using d dec fields sw w by simp
qed


text \<open>A \<open>MOVZ\<close> or \<open>MOVN\<close> rewritten for a value decodes to that value.\<close>

definition MOVE_FIELDS :: insn where "MOVE_FIELDS = 0x607FFFE0"

lemma bit_MOVE_FIELDS: "bit MOVE_FIELDS j \<longleftrightarrow> 5 \<le> j \<and> j < 23 \<or> j = 29 \<or> j = 30"
proof -
  have "MOVE_FIELDS = push_bit 5 (mask 18) OR push_bit 29 (mask 2)"
    by (simp add: MOVE_FIELDS_def mask_eq_exp_minus_1)
  show ?thesis unfolding \<open>MOVE_FIELDS = _\<close> by (auto simp: bit_simps)
qed

lemma insn_field_bits:
  assumes "\<And>j. j < k \<Longrightarrow> bit w (i + j) = bit (of_nat n :: insn) j" and "n < 2 ^ k" and "k \<le> 32"
  shows "insn_field w i k = n"
proof -
  have "drop_bit i w AND mask k = (of_nat n :: insn)"
    by (rule bit_word_eqI) (use assms(1) small_bit [OF assms(2)] in \<open>auto simp: field_bit\<close>)
  moreover have "n < 2 ^ 32" using assms(2,3) by (meson less_le_trans power_increasing one_le_numeral)
  ultimately show ?thesis by (simp add: insn_field_def unat_of_nat)
qed

lemma rewrite_move_decodes:
  assumes r: "rewrite_move_wide w v = Inr w'" and w: "decode_move_wide w = Some u"
  shows "decode_move_wide w' = Some v \<and> w' AND NOT MOVE_FIELDS = w AND NOT MOVE_FIELDS \<and>
    insn_field w' 29 2 = 2 \<and> insn_field w' 0 5 = insn_field w 0 5"
proof -
  from r obtain k where k: "List.find (\<lambda>k. v AND NOT (push_bit (k * 16) 0xFFFF) = 0) [0..<4] = Some k"
    and w': "w' = (w AND NOT MOVE_FIELDS) OR 0x40000000 OR push_bit 21 (of_nat k) OR
      push_bit 5 (ucast (drop_bit (k * 16) v AND 0xFFFF))"
    by (auto simp: rewrite_move_wide_def MOVE_FIELDS_def split: option.splits)
  from find_SomeD [OF k] have k4: "k < 4" and v: "v AND NOT (push_bit (k * 16) 0xFFFF) = 0" by auto
  define i where "i = drop_bit (k * 16) v AND 0xFFFF"
  have F: "(0xFFFF :: imm) = mask 16" "(0x40000000 :: insn) = push_bit 30 1" by (simp_all add: mask_eq_exp_minus_1)
  have bi: "bit i j \<longleftrightarrow> j < 16 \<and> bit v (k * 16 + j)" for j
    using k4 by (auto simp: i_def F bit_simps dest: bit_imp_le_length)
  have bk: "bit (of_nat k :: insn) j \<Longrightarrow> j < 2" for j using small_bit [of k 2 j] k4 by simp
  have b: "bit w' j \<longleftrightarrow> j < 32 \<and> (if 5 \<le> j \<and> j < 21 then bit i (j - 5) else if 21 \<le> j \<and> j < 23 then bit (of_nat k :: insn) (j - 21)
      else if j = 30 then True else if j = 29 then False else bit w j)" for j
  proof (cases "j < 32")
    case False
    then show ?thesis using bit_imp_le_length [of w' j] by auto
  next
    case True
    have b0: "bit w' j \<longleftrightarrow> bit w j \<and> \<not> (5 \<le> j \<and> j < 23 \<or> j = 29 \<or> j = 30) \<or> j = 30 \<or>
        21 \<le> j \<and> bit (of_nat k :: insn) (j - 21) \<or> 5 \<le> j \<and> bit i (j - 5)"
    proof -
      have p1: "bit (w AND NOT MOVE_FIELDS) j \<longleftrightarrow> bit w j \<and> \<not> (5 \<le> j \<and> j < 23 \<or> j = 29 \<or> j = 30)"
        using True by (simp add: bit_and_iff bit_not_iff bit_MOVE_FIELDS)
      have p2: "bit (0x40000000 :: insn) j \<longleftrightarrow> j = 30"
      proof -
        have "bit (push_bit 30 (1 :: insn)) j \<longleftrightarrow> j = 30" using True by (auto simp: bit_push_bit_iff bit_1_iff simp del: push_bit_of_1)
        then show ?thesis unfolding F(2) .
      qed
      have p3: "bit (push_bit 21 (of_nat k :: insn)) j \<longleftrightarrow> 21 \<le> j \<and> bit (of_nat k :: insn) (j - 21)"
        using True by (simp add: bit_push_bit_iff)
      have p4: "bit (push_bit 5 (ucast i :: insn)) j \<longleftrightarrow> 5 \<le> j \<and> bit i (j - 5)"
        using True by (auto simp: bit_push_bit_iff bit_ucast_iff)
      show ?thesis unfolding w' i_def [symmetric] bit_or_iff p1 p2 p3 p4 by blast
    qed
    consider "j < 5" | "5 \<le> j" "j < 21" | "21 \<le> j" "j < 23" | "23 \<le> j" "j \<noteq> 29" "j \<noteq> 30" | "j = 29" | "j = 30" by linarith
    then show ?thesis
      using True b0 bk [of "j - 21"] bi [of "j - 5"] by cases auto
  qed
  have "w' AND 0x1F800000 = w AND 0x1F800000"
    unfolding header_masks by (rule bit_word_eqI) (use b in \<open>auto simp: bit_simps\<close>)
  moreover have "drop_bit 31 w' = drop_bit 31 w"
  proof (rule bit_word_eqI)
    fix j :: nat
    show "bit (drop_bit 31 w') j = bit (drop_bit 31 w) j"
      by (cases "j = 0") (auto simp: bit_simps b dest: bit_imp_le_length)
  qed
  moreover have "w' AND NOT MOVE_FIELDS = w AND NOT MOVE_FIELDS"
    by (rule bit_word_eqI) (auto simp: bit_simps b bit_MOVE_FIELDS)
  moreover have "insn_field w' 0 5 = insn_field w 0 5" by (rule insn_field_eqI) (simp add: b)
  moreover have "insn_field w' 29 2 = 2"
  proof (rule insn_field_bits)
    fix j :: nat assume "j < 2"
    then have "j = 0 \<or> j = 1" by auto
    moreover have "bit (2 :: insn) 1" by code_simp
    ultimately show "bit w' (29 + j) = bit (of_nat 2 :: insn) j" by (auto simp: b)
  qed simp_all
  moreover have "insn_field w' 21 2 = k" by (rule insn_field_bits) (use k4 in \<open>auto simp: b\<close>)
  moreover have "push_bit (k * 16) (of_nat (insn_field w' 5 16)) = v"
  proof -
    have "(of_nat (insn_field w' 5 16) :: imm) = i"
    proof (rule bit_word_eqI)
      fix j :: nat
      have "(of_nat (insn_field w' 5 16) :: imm) = ucast (drop_bit 5 w' AND mask 16)"
        by (simp add: insn_field_def unsigned_def)
      then show "bit (of_nat (insn_field w' 5 16) :: imm) j = bit i j"
        by (auto simp: bit_simps b bi)
    qed
    moreover have "push_bit (k * 16) i = v"
    proof (rule bit_word_eqI)
      fix j :: nat assume "j < LENGTH(64)"
      have "bit v j \<Longrightarrow> k * 16 \<le> j \<and> j < k * 16 + 16"
        using arg_cong [OF v, of "\<lambda>x. bit x j"] \<open>j < LENGTH(64)\<close> by (auto simp: bit_simps F)
      then show "bit (push_bit (k * 16) i) j = bit v j"
        using \<open>j < LENGTH(64)\<close> by (auto simp: bit_simps bi)
    qed
    ultimately show ?thesis by simp
  qed
  ultimately show ?thesis using w by (auto simp: decode_move_wide_def Let_def split: if_split_asm)
qed

lemmas immediate_eval = decode_logical_immediate_def immediate_of_def insn_field_def bit_length.simps replicate_element_def
  rotate_right_def Let_def mask_eq_exp_minus_1

text \<open>
  C21: A 64-bit instruction rewritten for a new value reads back as that value and nothing else of it
  changes.  A logical-immediate instruction keeps everything outside its immediate fields; a
  \<open>MOVZ\<close> or \<open>MOVN\<close> becomes a \<open>MOVZ\<close> and keeps everything outside opcode, shift and immediate, its
  destination register among it; and rewriting either again for the same value is the identity.
\<close>

theorem immediates_read_back:
  assumes "w AND 0x1F800000 = 0x12000000" and "drop_bit 31 w \<noteq> 0" and "rewrite_logical_immediate w v = Inr w'"
    and "decode_move_wide m = Some u" and "rewrite_move_wide m x = Inr m'"
  shows "decode_logical_immediate w' = Some v \<and> w' AND NOT 0x007FFC00 = w AND NOT 0x007FFC00 \<and>
    rewrite_logical_immediate w' v = Inr w' \<and>
    decode_move_wide m' = Some x \<and> m' AND NOT 0x607FFFE0 = m AND NOT 0x607FFFE0 \<and>
    insn_field m' 29 2 = 2 \<and> insn_field m' 0 5 = insn_field m 0 5 \<and> rewrite_move_wide m' x = Inr m'"
proof -
  note r = rewrite_logical_decodes [OF assms(3,1,2)] and q = rewrite_move_decodes [OF assms(5,4)]
  from assms(3) r have "rewrite_logical_immediate w' v = Inr w'"
    by (auto simp: rewrite_logical_immediate_def header_masks)
  moreover have "rewrite_move_wide m' x = Inr m'"
    using assms(5) q [THEN conjunct2, THEN conjunct1, symmetric]
    by (auto simp: rewrite_move_wide_def MOVE_FIELDS_def [symmetric] split: option.split_asm option.split)
  ultimately show ?thesis using r q unfolding header_masks MOVE_FIELDS_def by blast
qed

theorem immediates_read_back_witness:
  "\<exists>w'. rewrite_logical_immediate 0x925e7420 0xfffffffe00000000 = Inr w' \<and>
     decode_logical_immediate w' = Some 0xfffffffe00000000 \<and>
     decode_move_wide 0xd2c00048 = Some 0x200000000 \<and> insn_field 0xd2c00048 0 5 = insn_field 0xd2c00088 0 5"
proof -
  have "(1, 31, 30) \<in> set immediate_candidates" by (force simp: immediate_candidates_def)
  moreover have "decode_logical_immediate (0x80000000 OR 0x12000000 OR immediate_bits 1 31 30) = Some 0xfffffffe00000000"
    by (simp add: immediate_eval immediate_bits_def)
  ultimately obtain w' where w': "rewrite_logical_immediate 0x925e7420 0xfffffffe00000000 = Inr w'"
    using find_exists [of "(1, 31, 30)" immediate_candidates "\<lambda>(n, immr, imms).
        decode_logical_immediate (0x80000000 OR 0x12000000 OR immediate_bits n immr imms) = Some 0xfffffffe00000000"]
    by (auto simp: rewrite_logical_immediate_def logical_immediate_fields_def)
  have "decode_move_wide 0xd2c00088 = Some 0x400000000" "rewrite_move_wide 0xd2c00088 0x200000000 = Inr 0xd2c00048"
    by (simp_all add: immediate_eval decode_move_wide_def rewrite_move_wide_def upt_rec)
  from immediates_read_back [OF _ _ w' this] w' show ?thesis by simp
qed

end
