(* ===== verification/VaPort.thy ===== *)
theory VaPort
  imports Immediates LoadCommands PyValue
begin

text \<open>
  \<^verbatim>\<open>misc/patch_electron_pa_ios_va.py\<close> and the manifests \<^verbatim>\<open>misc/patch_chrome150_pa_ios_va.py\<close> and
  \<^verbatim>\<open>misc/patch_chrome150_optimization_pa_ios_va.py\<close> that configure it: the port of PartitionAlloc's
  address-space geometry.  The module-level tables that the manifests replace are the fields of
  \<open>va_manifest\<close>.  Hashes, the printed report and the file copy are not modelled.
\<close>

unbundle bit_operations_syntax

subsection \<open>The Mach-O header\<close>

record text_section =
  ts_address :: nat
  ts_size :: nat
  ts_offset :: nat

definition LC_SEGMENT_64 :: nat where "LC_SEGMENT_64 = 0x19"

definition uuid_text :: "bytes \<Rightarrow> string" where
  "uuid_text raw = hex (slice raw 0 4) @ ''-'' @ hex (slice raw 4 2) @ ''-'' @ hex (slice raw 6 2) @ ''-'' @
     hex (slice raw 8 2) @ ''-'' @ hex (slice raw 10 6)"

fun section_walk :: "bytes \<Rightarrow> nat \<Rightarrow> nat \<Rightarrow> text_section option \<Rightarrow> text_section option result" where
  "section_walk d c 0 text = Inr text"
| "section_walk d c (Suc n) text =
     bindE (room d c 80) (\<lambda>_.
     section_walk d (c + 80) n
       (if until_nul (slice d (c + 16) 16) = encode_str ''__TEXT'' \<and> until_nul (slice d c 16) = encode_str ''__text''
        then Some \<lparr>ts_address = u64 LE d (c + 32), ts_size = u64 LE d (c + 40), ts_offset = u32 LE d (c + 48)\<rparr>
        else text))"

fun macho_walk :: "bytes \<Rightarrow> nat \<Rightarrow> nat \<Rightarrow> nat \<Rightarrow> string option \<times> text_section option
    \<Rightarrow> (string option \<times> text_section option) result" where
  "macho_walk d limit c 0 found = Inr found"
| "macho_walk d limit c (Suc n) found =
     bindE (room d c 8) (\<lambda>_.
     let cmdsize = u32 LE d (c + 4) in
     if cmdsize < 8 \<or> c + cmdsize > limit then Inl (ValueError ''invalid Mach-O load command size'')
     else bindE (if u32 LE d c = LC_UUID then Inr (Some (uuid_text (slice d (c + 8) 16)), snd found)
        else if u32 LE d c = LC_SEGMENT_64
        then bindE (room d (c + 8) 64) (\<lambda>_.
             bindE (section_walk d (c + 72) (u32 LE d (c + 64)) (snd found)) (\<lambda>text. Inr (fst found, text)))
        else Inr found) (\<lambda>found. macho_walk d limit (c + cmdsize) n found))"

definition parse_macho :: "bytes \<Rightarrow> (string \<times> text_section) result" where
  "parse_macho d =
     (if length d < 32 then Inl (ValueError ''file is too small for a Mach-O header'')
      else if u32 LE d 0 \<noteq> MH_MAGIC_64 then Inl (ValueError ''expected thin little-endian Mach-O 64'')
      else if 32 + u32 LE d 20 > length d then Inl (ValueError ''load commands extend beyond file'')
      else bindE (macho_walk d (32 + u32 LE d 20) 32 (u32 LE d 16) (None, None)) (\<lambda>found.
        case found of
          (Some uuid, Some text) \<Rightarrow> Inr (uuid, text)
        | _ \<Rightarrow> Inl (ValueError ''Mach-O UUID or __TEXT,__text section is missing'')))"

subsection \<open>Manifests\<close>

record va_manifest =
  vm_uuid :: string
  vm_map :: "(imm \<times> imm) list"
  vm_counts :: "(imm \<times> nat) list"
  vm_retained :: "(imm \<times> nat) list"
  vm_base_masks :: "(nat \<times> imm \<times> imm) list"
  vm_offset_masks :: "(nat \<times> imm \<times> imm) list"
  vm_init_masks :: "(nat \<times> imm \<times> imm) list"
  vm_init_moves :: "(nat \<times> imm \<times> imm) list"
  vm_cage_moves :: "(nat \<times> imm \<times> imm) list"
  vm_cage_words :: "(nat \<times> nat \<times> nat) list"
  vm_cage_data :: "(nat \<times> nat \<times> nat) list"
  vm_superpages :: "nat list"

definition electron_manifest :: va_manifest where
  "electron_manifest = \<lparr>
    vm_uuid = ''4c4c4442-5555-3144-a1a8-564169f3ff00'',
    vm_map = [(0xfffffffc00000000, 0xfffffffe00000000), (0x3ffffffff, 0x1ffffffff), (0xfffffff800000000, 0xfffffffc00000000),
     (0x7ffffffff, 0x3ffffffff)],
    vm_counts = [(0xfffffffc00000000, 35875), (0x3ffffffff, 460), (0xfffffff800000000, 59), (0x7ffffffff, 9)],
    vm_retained = [(0xfffffffc00000000, 153), (0x3ffffffff, 11), (0xfffffff800000000, 19), (0x7ffffffff, 38)],
    vm_base_masks = [(0x135bc9c, 0xfffffffc00000000, 0xfffffffe00000000), (0x135bd28, 0xfffffffc00000000, 0xfffffffe00000000)],
    vm_offset_masks = [],
    vm_init_masks = [],
    vm_init_moves = [(0x135c3bc, 0x800000000, 0x400000000), (0x135c3c0, 0x800000000, 0x400000000),
     (0x135c3e4, 0x400000000, 0x200000000), (0x135c404, 0x400000000, 0x200000000),
     (0x135c418, 0x400000000, 0x200000000), (0x135c454, 0x400000000, 0x200000000)],
    vm_cage_moves = [(0x1fbc114, 0x400000000, 0x100000000), (0x1fbc120, 0x800000000, 0x200000000),
     (0x1fbc124, 0x400000000, 0x200000000), (0x1fbc150, 0x400000000, 0x200000000),
     (0x1fbc1d8, 0x400000000, 0x100000000), (0x1fbc2c8, 0x400000000, 0x100000000),
     (0x1fbc328, 0x400000000, 0x100000000), (0x1fbc32c, 0x400000000, 0x200000000),
     (0x1fbc364, 0x400000000, 0x100000000), (0x1fbc368, 0x400000000, 0x200000000),
     (0x1fbc3a0, 0x400000000, 0x100000000), (0x1fbc3a4, 0x400000000, 0x200000000),
     (0x1fbc3dc, 0x400000000, 0x100000000), (0x1fbc3e0, 0x400000000, 0x200000000)],
    vm_cage_words = [(0x1fbc188, 0xd362fd29, 0xd361fd29), (0x1fbc1d4, 0xd362fd0a, 0xd360fd0a), (0x1fbc118, 0x925f7801, 0xd2c001c1),
     (0x1fbc158, 0xd2800008, 0x1400006c), (0x1fbc190, 0xb24086c9, 0xb24082c9), (0x1fbc320, 0x925f7904, 0xd2c001c4),
     (0x1fbc35c, 0x925f7904, 0xd2c001c4), (0x1fbc398, 0x925f7904, 0xd2c001c4), (0x1fbc3d4, 0x925f7904, 0xd2c001c4)],
    vm_cage_data = [(0xb142a00, 0x3ffffffff, 0x1ffffffff)],
    vm_superpages = [0x6328, 0x75b8, 0x33a04, 0x5bba0, 0x3401a0, 0x543b7e0]\<rparr>"

definition chrome_manifest :: va_manifest where
  "chrome_manifest = \<lparr>
    vm_uuid = ''4c4c4442-5555-3144-a16b-cc66de5d6913'',
    vm_map = [(0xfffffffc00000000, 0xfffffffe00000000), (0x3ffffffff, 0x1ffffffff), (0xfffffff800000000, 0xfffffffc00000000),
     (0x7ffffffff, 0x3ffffffff)],
    vm_counts = [(0xfffffffc00000000, 80320), (0x3ffffffff, 548), (0xfffffff800000000, 179), (0x7ffffffff, 10)],
    vm_retained = [(0xfffffffc00000000, 114), (0x3ffffffff, 14), (0xfffffff800000000, 24), (0x7ffffffff, 33)],
    vm_base_masks = [(0x128abe8, 0xfffffffc00000000, 0xfffffffe00000000), (0x128ade0, 0xfffffffc00000000, 0xfffffffe00000000)],
    vm_offset_masks = [(0x21ca8, 0x3ffffffff, 0x1ffffffff), (0x21ce8, 0x3ffffffff, 0x1ffffffff), (0x21e28, 0x3ffffffff, 0x1ffffffff),
     (0x21e60, 0x3ffffffff, 0x1ffffffff), (0x5e2864, 0x3ffffffff, 0x1ffffffff), (0x6cf2f4, 0x3ffffffff, 0x1ffffffff),
     (0x6cf340, 0x3ffffffff, 0x1ffffffff), (0x7772e48, 0x3ffffffff, 0x1ffffffff),
     (0x7772e6c, 0x3ffffffff, 0x1ffffffff)],
    vm_init_masks = [],
    vm_init_moves = [(0x128b500, 0x800000000, 0x400000000), (0x128b504, 0x800000000, 0x400000000),
     (0x128b528, 0x400000000, 0x200000000), (0x128b548, 0x400000000, 0x200000000),
     (0x128b55c, 0x400000000, 0x200000000), (0x128b590, 0x400000000, 0x200000000)],
    vm_cage_moves = [(0x25f0b38, 0x400000000, 0x100000000), (0x25f0b44, 0x800000000, 0x200000000),
     (0x25f0b48, 0x400000000, 0x200000000), (0x25f0b74, 0x400000000, 0x200000000),
     (0x25f0bfc, 0x400000000, 0x100000000), (0x25f0cec, 0x400000000, 0x100000000),
     (0x25f0d4c, 0x400000000, 0x100000000), (0x25f0d50, 0x400000000, 0x200000000),
     (0x25f0d88, 0x400000000, 0x100000000), (0x25f0d8c, 0x400000000, 0x200000000),
     (0x25f0dc4, 0x400000000, 0x100000000), (0x25f0dc8, 0x400000000, 0x200000000),
     (0x25f0e00, 0x400000000, 0x100000000), (0x25f0e04, 0x400000000, 0x200000000)],
    vm_cage_words = [(0x25f0b3c, 0x925f7801, 0xd2c001c1), (0x25f0b7c, 0xd2800008, 0x1400006c), (0x25f0bac, 0xd362fd29, 0xd361fd29),
     (0x25f0bb4, 0xb24086c9, 0xb24082c9), (0x25f0bf8, 0xd362fd0a, 0xd360fd0a), (0x25f0d44, 0x925f7904, 0xd2c001c4),
     (0x25f0d80, 0x925f7904, 0xd2c001c4), (0x25f0dbc, 0x925f7904, 0xd2c001c4), (0x25f0df8, 0x925f7904, 0xd2c001c4)],
    vm_cage_data = [(0xdb869c0, 0x3ffffffff, 0x1ffffffff)],
    vm_superpages = [0xca50, 0x21ae0, 0x22cc8, 0x29080]\<rparr>"

definition optimization_manifest :: va_manifest where
  "optimization_manifest = \<lparr>
    vm_uuid = ''4c4c448b-5555-3144-a117-5b3d8107eb3c'',
    vm_map = [(0xfffffffc00000000, 0xffffffffc0000000), (0x3ffffffff, 0x3fffffff), (0xfffffff800000000, 0xffffffff80000000),
     (0x7ffffffff, 0x7fffffff)],
    vm_counts = [(0xfffffffc00000000, 1279), (0xfffffff800000000, 25)],
    vm_retained = [(0xfffffffc00000000, 56), (0x3ffffffff, 1), (0xfffffff800000000, 1), (0x7ffffffff, 1)],
    vm_base_masks = [(0xb57c9c, 0xfffffffc00000000, 0xffffffffc0000000), (0xb57e4c, 0xfffffffc00000000, 0xffffffffc0000000)],
    vm_offset_masks = [(0xb5a504, 0x3ffffffff, 0x3fffffff), (0xb5a53c, 0x3ffffffff, 0x3fffffff), (0xb5ab78, 0x3ffffffff, 0x3fffffff),
     (0xb5abb8, 0x3ffffffff, 0x3fffffff), (0xd35f0c, 0x3ffffffff, 0x3fffffff)],
    vm_init_masks = [(0xb4a6e8, 0xfffffffc00000000, 0xffffffffc0000000)],
    vm_init_moves = [(0xb4a62c, 0x800000000, 0x80000000), (0xb4a630, 0x800000000, 0x80000000), (0xb4a64c, 0x400000000, 0x40000000),
     (0xb4a66c, 0x400000000, 0x40000000), (0xb4a680, 0x400000000, 0x40000000), (0xb4a6b0, 0x400000000, 0x40000000)],
    vm_cage_moves = [],
    vm_cage_words = [],
    vm_cage_data = [],
    vm_superpages = []\<rparr>"

definition UBFX_21_13_X8_X0 :: nat where "UBFX_21_13_X8_X0 = 0xD3558408"
definition UBFX_21_12_X8_X0 :: nat where "UBFX_21_12_X8_X0 = 0xD3558008"

subsection \<open>The mask pass\<close>

text \<open>What the pass does with one instruction word.\<close>

datatype mask_site =
    Untouched
  | Retained imm
  | Masked imm insn
  | BaseMask insn
  | OffsetMask insn
  | InitMask insn

text \<open>A locked \<open>MOV Xd, #imm\<close>, an \<open>ORR\<close> with the zero register.\<close>

definition materialize :: "insn \<Rightarrow> imm \<Rightarrow> imm \<times> imm \<Rightarrow> insn result" where
  "materialize w v pair =
     (if v \<noteq> fst pair \<or> insn_field w 29 2 \<noteq> 1 \<or> insn_field w 5 5 \<noteq> 31
      then Inl (ValueError ''expected MOV/ORR Xd, XZR'') else rewrite_logical_immediate w (snd pair))"

definition is_materialization :: "imm \<Rightarrow> insn \<Rightarrow> bool" where
  "is_materialization v w \<longleftrightarrow>
     decode_logical_immediate w = Some v \<and> insn_field w 29 2 = 1 \<and> insn_field w 5 5 = 31"

definition classify_site :: "va_manifest \<Rightarrow> nat \<Rightarrow> insn \<Rightarrow> mask_site result" where
  "classify_site M p w =
     (case decode_logical_immediate w of
        None \<Rightarrow> Inr Untouched
      | Some v \<Rightarrow>
        case map_of (vm_map M) v of
          None \<Rightarrow> Inr Untouched
        | Some new \<Rightarrow>
          if is_logical_mask_operation w then bindE (rewrite_logical_immediate w new) (\<lambda>w'. Inr (Masked v w'))
          else case map_of (vm_base_masks M) p of
            Some pair \<Rightarrow> bindE (materialize w v pair) (\<lambda>w'. Inr (BaseMask w'))
          | None \<Rightarrow>
          case map_of (vm_offset_masks M) p of
            Some pair \<Rightarrow> bindE (materialize w v pair) (\<lambda>w'. Inr (OffsetMask w'))
          | None \<Rightarrow>
          case map_of (vm_init_masks M) p of
            Some pair \<Rightarrow> bindE (materialize w v pair) (\<lambda>w'. Inr (InitMask w'))
          | None \<Rightarrow> Inr (Retained v))"

record va_state =
  vs_data :: bytes
  vs_counts :: "(imm \<times> nat) list"
  vs_retained :: "(imm \<times> nat) list"
  vs_base :: "nat list"
  vs_offset :: "nat list"
  vs_init :: "nat list"

definition word_at :: "bytes \<Rightarrow> nat \<Rightarrow> insn" where
  "word_at d p = of_nat (u32 LE d p)"

definition count_of :: "(imm \<times> nat) list \<Rightarrow> imm \<Rightarrow> nat" where
  "count_of counts v = (case map_of counts v of None \<Rightarrow> 0 | Some n \<Rightarrow> n)"

definition count_up :: "imm \<Rightarrow> (imm \<times> nat) list \<Rightarrow> (imm \<times> nat) list" where
  "count_up v counts = py_set counts v (count_of counts v + 1)"

definition apply_site :: "nat \<Rightarrow> mask_site \<Rightarrow> va_state \<Rightarrow> va_state" where
  "apply_site p site s =
     (case site of
        Untouched \<Rightarrow> s
      | Retained v \<Rightarrow> s\<lparr>vs_retained := count_up v (vs_retained s)\<rparr>
      | Masked v w \<Rightarrow> s\<lparr>vs_data := put LE 4 (vs_data s) p (unat w), vs_counts := count_up v (vs_counts s)\<rparr>
      | BaseMask w \<Rightarrow> s\<lparr>vs_data := put LE 4 (vs_data s) p (unat w), vs_base := vs_base s @ [p]\<rparr>
      | OffsetMask w \<Rightarrow> s\<lparr>vs_data := put LE 4 (vs_data s) p (unat w), vs_offset := vs_offset s @ [p]\<rparr>
      | InitMask w \<Rightarrow> s\<lparr>vs_data := put LE 4 (vs_data s) p (unat w), vs_init := vs_init s @ [p]\<rparr>)"

definition mask_step :: "va_manifest \<Rightarrow> nat \<Rightarrow> va_state \<Rightarrow> va_state result" where
  "mask_step M p s =
     bindE (room (vs_data s) p 4) (\<lambda>_.
     bindE (classify_site M p (word_at (vs_data s) p)) (\<lambda>site. Inr (apply_site p site s)))"

text \<open>\<open>range(text_offset, text_offset + text_size, 4)\<close>\<close>

definition text_words :: "text_section \<Rightarrow> nat list" where
  "text_words T = map (\<lambda>k. ts_offset T + 4 * k) [0..<(ts_size T + 3) div 4]"

definition counts_agree :: "(imm \<times> nat) list \<Rightarrow> (imm \<times> nat) list \<Rightarrow> bool" where
  "counts_agree counts expected \<longleftrightarrow> set counts = set expected"

definition mask_pass :: "va_manifest \<Rightarrow> text_section \<Rightarrow> bytes \<Rightarrow> bytes result" where
  "mask_pass M T d =
     bindE (foldE (mask_step M) (text_words T)
       \<lparr>vs_data = d, vs_counts = [], vs_retained = [], vs_base = [], vs_offset = [], vs_init = []\<rparr>) (\<lambda>s.
     if \<not> counts_agree (vs_counts s) (vm_counts M) then Inl (ValueError ''logical-immediate manifest mismatch'')
     else if \<not> counts_agree (vs_retained s) (vm_retained M)
     then Inl (ValueError ''retained logical-immediate manifest mismatch'')
     else if length (vs_base s) \<noteq> length (vm_base_masks M)
     then Inl (ValueError ''core-pool base-mask materialization mismatch'')
     else if length (vs_offset s) \<noteq> length (vm_offset_masks M)
     then Inl (ValueError ''core-pool offset-mask materialization mismatch'')
     else if length (vs_init s) \<noteq> length (vm_init_masks M)
     then Inl (ValueError ''init logical-immediate materialization mismatch'')
     else Inr (vs_data s))"

subsection \<open>The locked sites\<close>

definition in_text :: "text_section \<Rightarrow> nat \<Rightarrow> bool" where
  "in_text T p \<longleftrightarrow> ts_offset T \<le> p \<and> p < ts_offset T + ts_size T"

definition move_step :: "text_section \<Rightarrow> nat \<times> imm \<times> imm \<Rightarrow> bytes \<Rightarrow> bytes result" where
  "move_step T site d =
     (case site of (p, old, new) \<Rightarrow>
      if \<not> in_text T p then Inl (ValueError ''locked offset is outside __text'')
      else bindE (room d p 4) (\<lambda>_.
      if decode_move_wide (word_at d p) \<noteq> Some old then Inl (ValueError ''expected MOVZ'')
      else bindE (rewrite_move_wide (word_at d p) new) (\<lambda>w. Inr (put LE 4 d p (unat w)))))"

definition word_step :: "text_section \<Rightarrow> nat \<times> nat \<times> nat \<Rightarrow> bytes \<Rightarrow> bytes result" where
  "word_step T site d =
     (case site of (p, old, new) \<Rightarrow>
      if \<not> in_text T p then Inl (ValueError ''locked offset is outside __text'')
      else bindE (unpack_from LE 4 d p) (\<lambda>w.
      if w \<noteq> old then Inl (ValueError ''unexpected instruction word'') else pack_into LE 4 d p new))"

definition data_step :: "nat \<times> nat \<times> nat \<Rightarrow> bytes \<Rightarrow> bytes result" where
  "data_step site d =
     (case site of (p, old, new) \<Rightarrow>
      if p + 8 > length d then Inl (ValueError ''locked data offset is outside the file'')
      else if u64 LE d p \<noteq> old then Inl (ValueError ''unexpected data value'')
      else pack_into LE 8 d p new)"

text \<open>The six locked index extractions are word patches with one old and one new word.\<close>

definition superpage_sites :: "va_manifest \<Rightarrow> (nat \<times> nat \<times> nat) list" where
  "superpage_sites M = map (\<lambda>p. (p, UBFX_21_13_X8_X0, UBFX_21_12_X8_X0)) (sort (vm_superpages M))"

definition engine_patch :: "va_manifest \<Rightarrow> bytes \<Rightarrow> bytes result" where
  "engine_patch M d =
     bindE (parse_macho d) (\<lambda>(uuid, T).
     if uuid \<noteq> vm_uuid M then Inl (ValueError ''unsupported Electron Framework UUID'')
     else if ts_address T \<noteq> ts_offset T
     then Inl (ValueError ''this manifest requires __text VM addresses to equal file offsets'')
     else if ts_offset T + ts_size T > length d then Inl (ValueError ''__text extends beyond file'')
     else
     bindE (mask_pass M T d) (\<lambda>d.
     bindE (foldE (move_step T) (vm_init_moves M) d) (\<lambda>d.
     bindE (foldE (move_step T) (vm_cage_moves M) d) (\<lambda>d.
     bindE (foldE (word_step T) (vm_cage_words M) d) (\<lambda>d.
     bindE (foldE data_step (vm_cage_data M) d) (\<lambda>d.
     foldE (word_step T) (superpage_sites M) d))))))"

subsection \<open>Passes over sites of a buffer\<close>

text \<open>
  Every loop of the port visits sites of one width in a buffer and writes at most the site it
  visits.  With the sites apart, each one is rewritten as if it were the only one.
\<close>

definition apart :: "nat \<Rightarrow> nat list \<Rightarrow> bool" where
  "apart k ps \<longleftrightarrow> sorted_wrt (\<lambda>p q. p + k \<le> q \<or> q + k \<le> p) ps"

locale site_pass =
  fixes pos :: "'x \<Rightarrow> nat" and wid :: nat and buf :: "'s \<Rightarrow> bytes" and step :: "'x \<Rightarrow> 's \<Rightarrow> 's result"
  assumes step_len: "step x s = Inr t \<Longrightarrow> length (buf t) = length (buf s)"
    and step_frame: "step x s = Inr t \<Longrightarrow> j + n \<le> pos x \<or> pos x + wid \<le> j \<Longrightarrow> slice (buf t) j n = slice (buf s) j n"
begin

lemma pass_len: "foldE step xs s = Inr t \<Longrightarrow> length (buf t) = length (buf s)"
  by (induction xs arbitrary: s) (auto dest: step_len)

lemma pass_frame:
  assumes "foldE step xs s = Inr t" and "\<And>x. x \<in> set xs \<Longrightarrow> j + n \<le> pos x \<or> pos x + wid \<le> j"
  shows "slice (buf t) j n = slice (buf s) j n"
  using assms
proof (induction xs arbitrary: s)
  case (Cons x xs)
  then obtain s' where s': "step x s = Inr s'" "foldE step xs s' = Inr t" by auto
  with Cons.IH [OF s'(2)] Cons.prems(2) have "slice (buf t) j n = slice (buf s') j n" by simp
  with step_frame [OF s'(1), of j n] Cons.prems(2) show ?case by simp
qed simp

lemma pass_each:
  assumes "foldE step xs s = Inr t" and "apart wid (map pos xs)" and "x \<in> set xs"
  shows "\<exists>s' t'. step x s' = Inr t' \<and> length (buf s') = length (buf s) \<and>
     slice (buf s') (pos x) wid = slice (buf s) (pos x) wid \<and> slice (buf t) (pos x) wid = slice (buf t') (pos x) wid"
  using assms
proof (induction xs arbitrary: s)
  case (Cons y ys)
  then obtain s1 where s1: "step y s = Inr s1" "foldE step ys s1 = Inr t" by auto
  from Cons.prems(2) have a: "apart wid (map pos ys)"
    and far: "\<And>z. z \<in> set ys \<Longrightarrow> pos y + wid \<le> pos z \<or> pos z + wid \<le> pos y" by (auto simp: apart_def)
  show ?case
  proof (cases "x \<in> set ys")
    case True
    have "slice (buf s1) (pos x) wid = slice (buf s) (pos x) wid" "length (buf s1) = length (buf s)"
      using far [OF True] step_frame [OF s1(1), of "pos x" wid] step_len [OF s1(1)] by auto
    with Cons.IH [OF s1(2) a True] show ?thesis by metis
  next
    case False
    with Cons.prems(3) have x: "x = y" by simp
    have "slice (buf t) (pos x) wid = slice (buf s1) (pos x) wid"
      by (rule pass_frame [OF s1(2)]) (use far x in auto)
    with s1(1) x show ?thesis by blast
  qed
qed simp

end

lemma apart_words:
  assumes "distinct ps" and "\<And>p. p \<in> set ps \<Longrightarrow> p mod 4 = r"
  shows "apart 4 ps"
  using assms
proof (induction ps)
  case (Cons p ps)
  have "p + 4 \<le> q \<or> q + 4 \<le> p" if "q \<in> set ps" for q
  proof -
    have ne: "p \<noteq> q" and m: "p mod 4 = q mod 4" using Cons.prems that by auto
    have e: "p = 4 * (p div 4) + p mod 4" by simp
    have "q = 4 * (q div 4) + q mod 4" by simp
    with m have f: "q = 4 * (q div 4) + p mod 4" by argo
    from ne e f have "p div 4 < q div 4 \<or> q div 4 < p div 4" by (metis nat_neq_iff)
    with e f show ?thesis by linarith
  qed
  with Cons show ?case by (simp add: apart_def)
qed (simp add: apart_def)

lemma unat_insn: "unat (w :: insn) < 256 ^ 4"
  using unsigned_less [of w] by simp

lemma word_at_put [simp]: "p + 4 \<le> length d \<Longrightarrow> word_at (put LE 4 d p (unat w)) p = w"
  by (simp add: word_at_def fld_put [OF _ unat_insn])

lemma word_at_cong: "slice d p 4 = slice d' p 4 \<Longrightarrow> word_at d p = word_at d' p"
  unfolding word_at_def by (metis fld_cong)

lemma mask_step_eq:
  "mask_step M p s = Inr t \<longleftrightarrow>
     p + 4 \<le> length (vs_data s) \<and> (\<exists>site. classify_site M p (word_at (vs_data s) p) = Inr site \<and> t = apply_site p site s)"
  by (auto simp: mask_step_def)

lemma apply_site_frame:
  assumes "p + 4 \<le> length (vs_data s)"
  shows "length (vs_data (apply_site p site s)) = length (vs_data s)"
    and "j + n \<le> p \<or> p + 4 \<le> j \<Longrightarrow> slice (vs_data (apply_site p site s)) j n = slice (vs_data s) j n"
  using assms by (cases site; simp add: apply_site_def slice_put)+

interpretation mask_sites: site_pass id 4 vs_data "mask_step M" for M
  by unfold_locales (auto simp: mask_step_eq apply_site_frame)

interpretation move_sites: site_pass fst 4 id "move_step T" for T
  by unfold_locales (auto simp: move_step_def slice_put)

interpretation word_sites: site_pass fst 4 id "word_step T" for T
  by unfold_locales (auto simp: word_step_def slice_put)

interpretation data_sites: site_pass fst 8 id data_step
  by unfold_locales (auto simp: data_step_def slice_put)

lemma text_words_props:
  shows "distinct (text_words T)" and "p \<in> set (text_words T) \<Longrightarrow> p mod 4 = ts_offset T mod 4"
    and "p \<in> set (text_words T) \<Longrightarrow> in_text T p"
proof -
  show "distinct (text_words T)" by (simp add: text_words_def distinct_map inj_on_def)
qed (auto simp: text_words_def in_text_def)

lemma text_words_apart: "apart 4 (map id (text_words T))"
  using apart_words [OF text_words_props(1) text_words_props(2)] by simp

lemma in_text_word:
  assumes "in_text T p" and "p mod 4 = ts_offset T mod 4"
  shows "p \<in> set (text_words T)"
proof -
  from assms(1) have l: "ts_offset T \<le> p" "p - ts_offset T < ts_size T" by (auto simp: in_text_def)
  have "4 dvd p - ts_offset T" using assms(2) l(1) by (metis mod_eq_dvd_iff_nat)
  then obtain k where k: "p - ts_offset T = 4 * k" by blast
  with l have "p = ts_offset T + 4 * k" "k < (ts_size T + 3) div 4" by simp_all
  then show ?thesis by (auto simp: text_words_def)
qed

subsection \<open>What the mask pass does\<close>

definition new_word :: "insn \<Rightarrow> mask_site \<Rightarrow> insn" where
  "new_word w site =
     (case site of Untouched \<Rightarrow> w | Retained v \<Rightarrow> w | Masked v w' \<Rightarrow> w' | BaseMask w' \<Rightarrow> w' | OffsetMask w' \<Rightarrow> w' | InitMask w' \<Rightarrow> w')"

definition masks_of :: "va_manifest \<Rightarrow> (nat \<times> imm \<times> imm) list" where
  "masks_of M = vm_base_masks M @ vm_offset_masks M @ vm_init_masks M"

text \<open>Only the immediate of an instruction is replaced.\<close>

definition keeps_registers :: "insn \<Rightarrow> insn \<Rightarrow> bool" where
  "keeps_registers w w' \<longleftrightarrow> w' AND NOT 0x007FFC00 = w AND NOT 0x007FFC00"

text \<open>
  The contract of one text word: a pool mask used by \<open>AND\<close> or \<open>ANDS\<close> becomes the mask of the
  smaller pool, a listed materialization becomes the listed value, and any other word stays.
\<close>

definition ported :: "va_manifest \<Rightarrow> nat \<Rightarrow> insn \<Rightarrow> insn \<Rightarrow> bool" where
  "ported M p w w' \<longleftrightarrow>
     (case decode_logical_immediate w of
        None \<Rightarrow> w' = w
      | Some v \<Rightarrow>
        case map_of (vm_map M) v of
          None \<Rightarrow> w' = w
        | Some new \<Rightarrow>
          if is_logical_mask_operation w then decode_logical_immediate w' = Some new \<and> keeps_registers w w'
          else case map_of (masks_of M) p of
            None \<Rightarrow> w' = w
          | Some (old, new') \<Rightarrow> is_materialization old w \<and> is_materialization new' w' \<and> keeps_registers w w')"

lemma mask_low: "(v AND mask 32) AND NOT (mask 32) = (0 :: imm)"
  by (rule bit_word_eqI) (auto simp: bit_simps)

lemma immediate_of_narrow: "immediate_of 32 n immr imms = Some v \<Longrightarrow> v AND NOT (mask 32) = 0"
  by (auto simp: immediate_of_def Let_def mask_low split: if_split_asm)

text \<open>A 64-bit mask is decoded only from a 64-bit instruction.\<close>

lemma wide_instruction:
  assumes "decode_logical_immediate w = Some v" and "v AND NOT (mask 32) \<noteq> 0"
  shows "w AND 0x1F800000 = 0x12000000" and "drop_bit 31 w \<noteq> 0"
  using assms immediate_of_narrow by (auto simp: decode_logical_immediate_def split: if_split_asm)

lemma rewritten_wide:
  assumes "rewrite_logical_immediate w new = Inr w'" and "decode_logical_immediate w = Some v" and "v AND NOT (mask 32) \<noteq> 0"
  shows "decode_logical_immediate w' = Some new \<and> keeps_registers w w' \<and>
     (is_materialization v w \<longrightarrow> is_materialization new w')"
  using rewrite_logical_decodes [OF assms(1) wide_instruction [OF assms(2,3)]]
  by (auto simp: keeps_registers_def is_materialization_def header_masks)

lemma materialize_props:
  assumes "materialize w v (old, new) = Inr w'" and "decode_logical_immediate w = Some v" and "v AND NOT (mask 32) \<noteq> 0"
  shows "is_materialization old w \<and> is_materialization new w' \<and> keeps_registers w w'"
  using assms rewritten_wide [of w new w' v]
  by (auto simp: materialize_def is_materialization_def)

definition wide_map :: "(imm \<times> imm) list \<Rightarrow> bool" where
  "wide_map kv \<longleftrightarrow> (\<forall>(v, new) \<in> set kv. v AND NOT (mask 32) \<noteq> 0)"

lemma wide_mapD: "wide_map kv \<Longrightarrow> map_of kv v = Some new \<Longrightarrow> v AND NOT (mask 32) \<noteq> 0"
  by (auto simp: wide_map_def dest: map_of_SomeD)

lemma classify_ported:
  assumes "classify_site M p w = Inr site" and "wide_map (vm_map M)"
  shows "ported M p w (new_word w site)"
proof (cases "decode_logical_immediate w")
  case None
  with assms show ?thesis by (auto simp: classify_site_def ported_def new_word_def)
next
  case (Some v)
  show ?thesis
  proof (cases "map_of (vm_map M) v")
    case None
    with Some assms show ?thesis by (auto simp: classify_site_def ported_def new_word_def)
  next
    case (Some new)
    note wide = wide_mapD [OF assms(2) Some]
    note sv = \<open>decode_logical_immediate w = Some v\<close>
    show ?thesis
    proof (cases "is_logical_mask_operation w")
      case True
      with Some sv assms(1) rewritten_wide [OF _ sv wide] show ?thesis
        by (auto simp: classify_site_def ported_def new_word_def)
    next
      case False
      with Some sv assms(1) materialize_props [OF _ sv wide] show ?thesis
        by (auto simp: classify_site_def ported_def new_word_def masks_of_def map_add_def split: option.splits)
    qed
  qed
qed

subsubsection \<open>Tallies\<close>

definition masked_at :: "va_manifest \<Rightarrow> bytes \<Rightarrow> imm \<Rightarrow> nat \<Rightarrow> bool" where
  "masked_at M d v p \<longleftrightarrow> map_of (vm_map M) v \<noteq> None \<and> decode_logical_immediate (word_at d p) = Some v \<and>
     is_logical_mask_operation (word_at d p)"

definition retained_at :: "va_manifest \<Rightarrow> bytes \<Rightarrow> imm \<Rightarrow> nat \<Rightarrow> bool" where
  "retained_at M d v p \<longleftrightarrow> map_of (vm_map M) v \<noteq> None \<and> decode_logical_immediate (word_at d p) = Some v \<and>
     \<not> is_logical_mask_operation (word_at d p) \<and> map_of (masks_of M) p = None"

lemma count_up_of: "count_of (count_up v kv) u = count_of kv u + (if u = v then 1 else 0)"
  by (simp add: count_up_def count_of_def)

lemma distinct_count_up: "distinct (map fst kv) \<Longrightarrow> distinct (map fst (count_up v kv))"
  by (simp add: count_up_def distinct_py_set)

lemma counts_agree_of:
  assumes "counts_agree kv kv'" and "distinct (map fst kv)" and "distinct (map fst kv')"
  shows "count_of kv = count_of kv'"
  using assms map_of_inject_set [of kv kv'] by (auto simp: counts_agree_def count_of_def fun_eq_iff)

lemma classify_masked:
  assumes "classify_site M p (word_at d p) = Inr site"
  shows "(\<exists>w'. site = Masked v w') \<longleftrightarrow> masked_at M d v p" and "site = Retained v \<longleftrightarrow> retained_at M d v p"
  using assms
  by (auto simp: classify_site_def masked_at_def retained_at_def masks_of_def map_add_def
      split: option.splits if_split_asm)

text \<open>The state after the pass over the words \<open>ps\<close>.\<close>

lemma mask_fold_state:
  assumes "foldE (mask_step M) ps s = Inr t" and "apart 4 ps"
  defines "C \<equiv> \<lambda>p. classify_site M p (word_at (vs_data s) p)"
  shows "count_of (vs_counts t) v = count_of (vs_counts s) v + length (filter (masked_at M (vs_data s) v) ps)"
    and "count_of (vs_retained t) v = count_of (vs_retained s) v + length (filter (retained_at M (vs_data s) v) ps)"
    and "vs_base t = vs_base s @ filter (\<lambda>p. \<exists>w. C p = Inr (BaseMask w)) ps"
    and "vs_offset t = vs_offset s @ filter (\<lambda>p. \<exists>w. C p = Inr (OffsetMask w)) ps"
    and "vs_init t = vs_init s @ filter (\<lambda>p. \<exists>w. C p = Inr (InitMask w)) ps"
  using assms(1,2) unfolding C_def
proof (atomize (full), induction ps arbitrary: s)
  case Nil
  then show ?case by simp
next
  case (Cons p ps)
  then obtain s1 where s1: "mask_step M p s = Inr s1" "foldE (mask_step M) ps s1 = Inr t" by auto
  then obtain site where site: "p + 4 \<le> length (vs_data s)" "classify_site M p (word_at (vs_data s) p) = Inr site"
    "s1 = apply_site p site s" by (auto simp: mask_step_eq)
  from Cons.prems have a: "apart 4 ps" and far: "\<And>q. q \<in> set ps \<Longrightarrow> p + 4 \<le> q \<or> q + 4 \<le> p" by (auto simp: apart_def)
  have same: "word_at (vs_data s1) q = word_at (vs_data s) q" if "q \<in> set ps" for q
    using far [OF that] by (intro word_at_cong) (auto simp: site(1,3) apply_site_frame(2))
  have "filter (masked_at M (vs_data s1) v) ps = filter (masked_at M (vs_data s) v) ps"
    "filter (retained_at M (vs_data s1) v) ps = filter (retained_at M (vs_data s) v) ps"
    "filter (\<lambda>q. \<exists>w. classify_site M q (word_at (vs_data s1) q) = Inr (BaseMask w)) ps =
     filter (\<lambda>q. \<exists>w. classify_site M q (word_at (vs_data s) q) = Inr (BaseMask w)) ps"
    "filter (\<lambda>q. \<exists>w. classify_site M q (word_at (vs_data s1) q) = Inr (OffsetMask w)) ps =
     filter (\<lambda>q. \<exists>w. classify_site M q (word_at (vs_data s) q) = Inr (OffsetMask w)) ps"
    "filter (\<lambda>q. \<exists>w. classify_site M q (word_at (vs_data s1) q) = Inr (InitMask w)) ps =
     filter (\<lambda>q. \<exists>w. classify_site M q (word_at (vs_data s) q) = Inr (InitMask w)) ps"
    by (rule filter_cong; simp add: same masked_at_def retained_at_def)+
  note IH = Cons.IH [OF s1(2) a, unfolded this]
  show ?case
    using IH site classify_masked [OF site(2), of v]
    by (cases site) (auto simp: apply_site_def count_up_of)
qed

lemma distinct_apply_site:
  assumes "distinct (map fst (vs_counts s))" and "distinct (map fst (vs_retained s))"
  shows "distinct (map fst (vs_counts (apply_site p site s)))" and "distinct (map fst (vs_retained (apply_site p site s)))"
  using assms by (cases site; simp add: apply_site_def distinct_count_up)+

lemma distinct_mask_fold:
  assumes "foldE (mask_step M) ps s = Inr t" and "distinct (map fst (vs_counts s))" and "distinct (map fst (vs_retained s))"
  shows "distinct (map fst (vs_counts t)) \<and> distinct (map fst (vs_retained t))"
  by (rule foldE_invariant [OF assms(1), where I = "\<lambda>s. distinct (map fst (vs_counts s)) \<and> distinct (map fst (vs_retained s))"])
     (auto simp: assms mask_step_eq distinct_apply_site)

text \<open>A list of hits without repetition, as long as the table it comes from, hits every entry.\<close>

lemma all_hit:
  assumes "distinct hits" and "set hits \<subseteq> fst ` set tab" and "length hits = length tab" and "distinct (map fst tab)"
  shows "set hits = fst ` set tab"
proof (rule card_subset_eq)
  show "card (set hits) = card (fst ` set tab)"
    using assms distinct_card [of hits] distinct_card [of "map fst tab"] by simp
qed (use assms in simp_all)

lemma count_of_Nil [simp]: "count_of [] v = 0"
  by (simp add: count_of_def)

definition tables_ok :: "va_manifest \<Rightarrow> bool" where
  "tables_ok M \<longleftrightarrow> wide_map (vm_map M) \<and> distinct (map fst (vm_counts M)) \<and> distinct (map fst (vm_retained M)) \<and>
     distinct (map fst (masks_of M))"

lemma classify_listed:
  assumes "classify_site M p w = Inr site" and "tables_ok M"
  shows "site = BaseMask w' \<Longrightarrow> p \<in> fst ` set (vm_base_masks M)"
    and "site = OffsetMask w' \<Longrightarrow> p \<in> fst ` set (vm_offset_masks M)"
    and "site = InitMask w' \<Longrightarrow> p \<in> fst ` set (vm_init_masks M)"
    and "site = BaseMask w' \<or> site = OffsetMask w' \<or> site = InitMask w' \<Longrightarrow> (p, old, new) \<in> set (masks_of M) \<Longrightarrow>
      is_materialization old w \<and> is_materialization new w' \<and> keeps_registers w w'"
proof -
  assume l: "site = BaseMask w' \<or> site = OffsetMask w' \<or> site = InitMask w'" and m: "(p, old, new) \<in> set (masks_of M)"
  from m assms(2) have m: "map_of (masks_of M) p = Some (old, new)" by (simp add: tables_ok_def)
  have "ported M p w (new_word w site)" using classify_ported [OF assms(1)] assms(2) by (simp add: tables_ok_def)
  with l m assms(1) show "is_materialization old w \<and> is_materialization new w' \<and> keeps_registers w w'"
    by (auto simp: ported_def new_word_def classify_site_def split: option.splits if_split_asm)
qed (use assms(1) in \<open>auto simp: classify_site_def image_iff split: option.splits if_split_asm dest!: map_of_SomeD; force\<close>)+

text \<open>The pass over the text section, word by word.\<close>

lemma mask_pass_exact:
  assumes run: "mask_pass M T d = Inr d'" and ok: "tables_ok M"
  shows "length d' = length d"
    and "p \<in> set (text_words T) \<Longrightarrow> p + 4 \<le> length d \<and> ported M p (word_at d p) (word_at d' p)"
    and "(\<And>p. p \<in> set (text_words T) \<Longrightarrow> j + n \<le> p \<or> p + 4 \<le> j) \<Longrightarrow> slice d' j n = slice d j n"
    and "length (filter (masked_at M d v) (text_words T)) = count_of (vm_counts M) v"
    and "length (filter (retained_at M d v) (text_words T)) = count_of (vm_retained M) v"
    and "(p, old, new) \<in> set (masks_of M) \<Longrightarrow> p \<in> set (text_words T) \<and> is_materialization old (word_at d p) \<and>
      is_materialization new (word_at d' p) \<and> keeps_registers (word_at d p) (word_at d' p)"
proof -
  define s0 where "s0 = \<lparr>vs_data = d, vs_counts = [], vs_retained = [], vs_base = [], vs_offset = [], vs_init = []\<rparr>"
  define C where "C = (\<lambda>p. classify_site M p (word_at d p))"
  have s0: "vs_data s0 = d" "vs_counts s0 = []" "vs_retained s0 = []" "vs_base s0 = []" "vs_offset s0 = []" "vs_init s0 = []"
    by (simp_all add: s0_def)
  from run obtain t where t: "foldE (mask_step M) (text_words T) s0 = Inr t"
    and agree: "counts_agree (vs_counts t) (vm_counts M)" "counts_agree (vs_retained t) (vm_retained M)"
    and hit: "length (vs_base t) = length (vm_base_masks M)" "length (vs_offset t) = length (vm_offset_masks M)"
      "length (vs_init t) = length (vm_init_masks M)" and d': "d' = vs_data t"
    by (auto simp: mask_pass_def s0_def)
  note a = text_words_apart [of T]
  note fold = mask_fold_state [OF t a [unfolded list.map_id], unfolded s0]
  note dist = distinct_mask_fold [OF t]
  show "length d' = length d" using mask_sites.pass_len [OF t] by (simp add: d' s0)
  show "slice d' j n = slice d j n" if "\<And>p. p \<in> set (text_words T) \<Longrightarrow> j + n \<le> p \<or> p + 4 \<le> j"
    using mask_sites.pass_frame [OF t, of j n] that by (simp add: d' s0)
  have each: "p + 4 \<le> length d \<and> (\<exists>site. C p = Inr site \<and> word_at d' p = new_word (word_at d p) site)"
    if p: "p \<in> set (text_words T)" for p
  proof -
    from mask_sites.pass_each [OF t a p] obtain s' t' where st: "mask_step M p s' = Inr t'"
      "length (vs_data s') = length d" "slice (vs_data s') p 4 = slice d p 4" "slice d' p 4 = slice (vs_data t') p 4"
      by (auto simp: s0 d')
    from st(1) obtain site where site: "p + 4 \<le> length (vs_data s')"
      "classify_site M p (word_at (vs_data s') p) = Inr site" "t' = apply_site p site s'" by (auto simp: mask_step_eq)
    have "word_at (vs_data t') p = new_word (word_at (vs_data s') p) site"
      using site(1,3) by (cases site) (auto simp: apply_site_def new_word_def)
    with site st word_at_cong [OF st(3)] word_at_cong [OF st(4)] show ?thesis by (auto simp: C_def)
  qed
  show "p + 4 \<le> length d \<and> ported M p (word_at d p) (word_at d' p)" if "p \<in> set (text_words T)"
    using each [OF that] classify_ported [of M p "word_at d p"] ok by (auto simp: C_def tables_ok_def)
  show "length (filter (masked_at M d v) (text_words T)) = count_of (vm_counts M) v"
    using fold(1) [of v] counts_agree_of [OF agree(1)] dist ok by (simp add: s0 tables_ok_def)
  show "length (filter (retained_at M d v) (text_words T)) = count_of (vm_retained M) v"
    using fold(2) [of v] counts_agree_of [OF agree(2)] dist ok by (simp add: s0 tables_ok_def)
  have hits: "{p \<in> set (text_words T). \<exists>w. C p = Inr (con w)} = fst ` set tab"
    if "vs = filter (\<lambda>p. \<exists>w. C p = Inr (con w)) (text_words T)" "length vs = length tab" "distinct (map fst tab)"
      "\<And>p w. C p = Inr (con w) \<Longrightarrow> p \<in> fst ` set tab" for vs tab and con :: "insn \<Rightarrow> mask_site"
    using all_hit [of vs tab] that text_words_props(1) [of T] by auto
  have dm: "distinct (map fst (vm_base_masks M))" "distinct (map fst (vm_offset_masks M))" "distinct (map fst (vm_init_masks M))"
    using ok by (auto simp: tables_ok_def masks_of_def)
  have lists: "{p \<in> set (text_words T). \<exists>w. C p = Inr (BaseMask w)} = fst ` set (vm_base_masks M)"
    "{p \<in> set (text_words T). \<exists>w. C p = Inr (OffsetMask w)} = fst ` set (vm_offset_masks M)"
    "{p \<in> set (text_words T). \<exists>w. C p = Inr (InitMask w)} = fst ` set (vm_init_masks M)"
    using fold(3-5) classify_listed(1-3) [OF _ ok]
    by (intro hits [OF _ hit(1) dm(1)] hits [OF _ hit(2) dm(2)] hits [OF _ hit(3) dm(3)]; simp add: C_def)+
  show "p \<in> set (text_words T) \<and> is_materialization old (word_at d p) \<and>
      is_materialization new (word_at d' p) \<and> keeps_registers (word_at d p) (word_at d' p)" if m: "(p, old, new) \<in> set (masks_of M)"
  proof -
    from m have "p \<in> fst ` set (vm_base_masks M) \<union> fst ` set (vm_offset_masks M) \<union> fst ` set (vm_init_masks M)"
      by (force simp: masks_of_def)
    then obtain w where p: "p \<in> set (text_words T)" and w: "C p = Inr (BaseMask w) \<or> C p = Inr (OffsetMask w) \<or> C p = Inr (InitMask w)"
      unfolding lists [symmetric] by blast
    from each [OF p] w have "word_at d' p = w" by (auto simp: new_word_def)
    with p w classify_listed(4) [OF _ ok _ m, of "word_at d p"] show ?thesis by (auto simp: C_def)
  qed
qed

subsection \<open>What the locked sites become\<close>

lemma move_pass_exact:
  assumes "foldE (move_step T) sites d = Inr d'" and "apart 4 (map fst sites)" and "(p, old, new) \<in> set sites"
  shows "in_text T p" and "p + 4 \<le> length d" and "decode_move_wide (word_at d p) = Some old"
    and "decode_move_wide (word_at d' p) = Some new"
proof -
  from move_sites.pass_each [OF assms] obtain s t where st: "move_step T (p, old, new) s = Inr t"
    "length s = length d" "slice s p 4 = slice d p 4" "slice d' p 4 = slice t p 4" by auto
  from st(1) obtain w where w: "in_text T p" "p + 4 \<le> length s" "decode_move_wide (word_at s p) = Some old"
    "rewrite_move_wide (word_at s p) new = Inr w" "t = put LE 4 s p (unat w)" by (auto simp: move_step_def)
  show "in_text T p" "p + 4 \<le> length d" using w st(2) by simp_all
  show "decode_move_wide (word_at d p) = Some old" using w(3) word_at_cong [OF st(3)] by simp
  have "word_at d' p = w" using word_at_cong [OF st(4)] w(2,5) by simp
  then show "decode_move_wide (word_at d' p) = Some new" using rewrite_move_decodes [OF w(4,3)] by simp
qed

lemma word_pass_exact:
  assumes "foldE (word_step T) sites d = Inr d'" and "apart 4 (map fst sites)" and "(p, old, new) \<in> set sites"
  shows "in_text T p" and "p + 4 \<le> length d" and "u32 LE d p = old" and "u32 LE d' p = new"
proof -
  from word_sites.pass_each [OF assms] obtain s t where st: "word_step T (p, old, new) s = Inr t"
    "length s = length d" "slice s p 4 = slice d p 4" "slice d' p 4 = slice t p 4" by auto
  from st(1) have w: "in_text T p" "p + 4 \<le> length s" "u32 LE s p = old" "new < 256 ^ 4" "t = put LE 4 s p new"
    by (auto simp: word_step_def)
  show "in_text T p" "p + 4 \<le> length d" using w st(2) by simp_all
  show "u32 LE d p = old" using w(3) fld_cong [OF st(3)] by simp
  show "u32 LE d' p = new" using fld_cong [OF st(4)] fld_put [OF w(2,4)] w(5) by simp
qed

lemma data_pass_exact:
  assumes "foldE data_step sites d = Inr d'" and "apart 8 (map fst sites)" and "(p, old, new) \<in> set sites"
  shows "p + 8 \<le> length d" and "u64 LE d p = old" and "u64 LE d' p = new"
proof -
  from data_sites.pass_each [OF assms] obtain s t where st: "data_step (p, old, new) s = Inr t"
    "length s = length d" "slice s p 8 = slice d p 8" "slice d' p 8 = slice t p 8" by auto
  from st(1) have w: "p + 8 \<le> length s" "u64 LE s p = old" "new < 256 ^ 8" "t = put LE 8 s p new"
    by (auto simp: data_step_def)
  show "p + 8 \<le> length d" using w st(2) by simp
  show "u64 LE d p = old" using w(2) fld_cong [OF st(3)] by simp
  show "u64 LE d' p = new" using fld_cong [OF st(4)] fld_put [OF w(1,3)] w(4) by simp
qed

definition code_sites :: "va_manifest \<Rightarrow> nat list" where
  "code_sites M = map fst (vm_init_moves M) @ map fst (vm_cage_moves M) @ map fst (vm_cage_words M) @ sort (vm_superpages M)"

text \<open>
  What the tables have to satisfy: the masks are 64-bit values, no instruction is listed twice,
  instructions are aligned and data words do not overlap.
\<close>

definition manifest_ok :: "va_manifest \<Rightarrow> bool" where
  "manifest_ok M \<longleftrightarrow> tables_ok M \<and> distinct (map fst (masks_of M) @ code_sites M) \<and>
     (\<forall>p \<in> set (map fst (masks_of M) @ code_sites M). p mod 4 = 0) \<and> apart 8 (map fst (vm_cage_data M))"

lemma superpage_positions: "map fst (superpage_sites M) = sort (vm_superpages M)"
  by (simp add: superpage_sites_def comp_def)

text \<open>The run as a chain of passes.\<close>

definition passes :: "va_manifest \<Rightarrow> text_section \<Rightarrow> bytes list \<Rightarrow> bool" where
  "passes M T ds \<longleftrightarrow> (case ds of
       [d1, d2, d3, d4, d5, out] \<Rightarrow>
         foldE (move_step T) (vm_init_moves M) d1 = Inr d2 \<and> foldE (move_step T) (vm_cage_moves M) d2 = Inr d3 \<and>
         foldE (word_step T) (vm_cage_words M) d3 = Inr d4 \<and> foldE data_step (vm_cage_data M) d4 = Inr d5 \<and>
         foldE (word_step T) (superpage_sites M) d5 = Inr out
     | _ \<Rightarrow> False)"

lemma engine_patch_passes:
  assumes "engine_patch M d = Inr out" and "parse_macho d = Inr (uuid, T)"
  obtains d1 d2 d3 d4 d5 where "mask_pass M T d = Inr d1" and "passes M T [d1, d2, d3, d4, d5, out]"
    and "uuid = vm_uuid M" and "ts_address T = ts_offset T" and "ts_offset T + ts_size T \<le> length d"
  using assms by (auto simp: engine_patch_def passes_def)

lemma apart_appendD: "apart k (xs @ ys) \<Longrightarrow> apart k xs \<and> apart k ys"
  by (simp add: apart_def sorted_wrt_append)

lemma code_sites_apart:
  assumes "manifest_ok M"
  shows "apart 4 (map fst (vm_init_moves M))" and "apart 4 (map fst (vm_cage_moves M))"
    and "apart 4 (map fst (vm_cage_words M))" and "apart 4 (map fst (superpage_sites M))"
proof -
  have "apart 4 (code_sites M)" using assms by (intro apart_words [where r = 0]) (auto simp: manifest_ok_def)
  then show "apart 4 (map fst (vm_init_moves M))" "apart 4 (map fst (vm_cage_moves M))"
    "apart 4 (map fst (vm_cage_words M))" "apart 4 (map fst (superpage_sites M))"
    by (auto simp: code_sites_def superpage_positions dest!: apart_appendD)
qed

definition clear_of :: "nat \<Rightarrow> nat \<Rightarrow> nat \<Rightarrow> nat list \<Rightarrow> bool" where
  "clear_of j n k ps \<longleftrightarrow> (\<forall>p \<in> set ps. j + n \<le> p \<or> p + k \<le> j)"

lemma pass_clear:
  "foldE (move_step T) moves d = Inr d' \<Longrightarrow> clear_of j n 4 (map fst moves) \<Longrightarrow> slice d' j n = slice d j n"
  "foldE (word_step T) words d = Inr d' \<Longrightarrow> clear_of j n 4 (map fst words) \<Longrightarrow> slice d' j n = slice d j n"
  "foldE data_step datas d = Inr d' \<Longrightarrow> clear_of j n 8 (map fst datas) \<Longrightarrow> slice d' j n = slice d j n"
  using move_sites.pass_frame [of T moves d d' j n] word_sites.pass_frame [of T words d d' j n]
    data_sites.pass_frame [of datas d d' j n] by (auto simp: clear_of_def)

lemma passes_clear:
  assumes "passes M T [d1, d2, d3, d4, d5, out]" and "clear_of j n 8 (map fst (vm_cage_data M))"
  shows "clear_of j n 4 (map fst (vm_cage_moves M) @ map fst (vm_cage_words M) @ sort (vm_superpages M)) \<Longrightarrow>
      slice out j n = slice d2 j n"
    and "clear_of j n 4 (map fst (vm_cage_words M) @ sort (vm_superpages M)) \<Longrightarrow> slice out j n = slice d3 j n"
    and "clear_of j n 4 (sort (vm_superpages M)) \<Longrightarrow> slice out j n = slice d4 j n"
    and "clear_of j n 4 (code_sites M) \<Longrightarrow> slice out j n = slice d1 j n"
proof -
  from assms(1) have p: "foldE (move_step T) (vm_init_moves M) d1 = Inr d2" "foldE (move_step T) (vm_cage_moves M) d2 = Inr d3"
    "foldE (word_step T) (vm_cage_words M) d3 = Inr d4" "foldE data_step (vm_cage_data M) d4 = Inr d5"
    "foldE (word_step T) (superpage_sites M) d5 = Inr out" by (simp_all add: passes_def)
  have app: "clear_of j n 4 (xs @ ys) \<longleftrightarrow> clear_of j n 4 xs \<and> clear_of j n 4 ys" for xs ys by (auto simp: clear_of_def)
  show A: "slice out j n = slice d4 j n" if "clear_of j n 4 (sort (vm_superpages M))"
    using pass_clear(2) [OF p(5)] pass_clear(3) [OF p(4) assms(2)] that by (simp add: superpage_positions)
  show B: "slice out j n = slice d3 j n" if "clear_of j n 4 (map fst (vm_cage_words M) @ sort (vm_superpages M))"
    using A pass_clear(2) [OF p(3)] that by (simp add: app)
  show C: "slice out j n = slice d2 j n" if "clear_of j n 4 (map fst (vm_cage_moves M) @ map fst (vm_cage_words M) @ sort (vm_superpages M))"
    using B pass_clear(1) [OF p(2)] that by (simp add: app)
  show "slice out j n = slice d1 j n" if "clear_of j n 4 (code_sites M)"
    using C pass_clear(1) [OF p(1)] that by (simp add: app code_sites_def)
qed

text \<open>An aligned instruction that a table does not list is clear of that table.\<close>

lemma clear_aligned:
  assumes "p mod 4 = 0" and "\<forall>q \<in> set ps. q mod 4 = 0" and "p \<notin> set ps"
  shows "clear_of p 4 4 ps"
proof -
  have "apart 4 [p, q]" if "q \<in> set ps" for q
    using assms that by (intro apart_words [where r = 0]) auto
  then show ?thesis by (auto simp: clear_of_def apart_def)
qed

definition data_outside :: "va_manifest \<Rightarrow> text_section \<Rightarrow> bool" where
  "data_outside M T \<longleftrightarrow> (\<forall>p \<in> set (map fst (vm_cage_data M)). p + 8 \<le> ts_offset T \<or> ts_offset T + ts_size T \<le> p)"

definition text_aligned :: "text_section \<Rightarrow> bool" where
  "text_aligned T \<longleftrightarrow> ts_offset T mod 4 = 0 \<and> ts_size T mod 4 = 0"

lemma aligned_word:
  assumes "in_text T p" and "text_aligned T" and "p mod 4 = 0"
  shows "p + 4 \<le> ts_offset T + ts_size T" and "p \<in> set (text_words T)"
proof -
  show w: "p \<in> set (text_words T)" using assms in_text_word by (simp add: text_aligned_def)
  then obtain k where k: "p = ts_offset T + 4 * k" "k < (ts_size T + 3) div 4" by (auto simp: text_words_def)
  from assms(2) obtain m where "ts_size T = 4 * m" by (auto simp: text_aligned_def)
  with k show "p + 4 \<le> ts_offset T + ts_size T" by simp
qed

lemma word_clear_of_data:
  assumes "in_text T p" and "text_aligned T" and "p mod 4 = 0" and "data_outside M T"
  shows "clear_of p 4 8 (map fst (vm_cage_data M))"
  using aligned_word(1) [OF assms(1-3)] assms(1,4) by (fastforce simp: data_outside_def clear_of_def in_text_def)

lemma logical_not_move: "decode_move_wide w = Some v \<Longrightarrow> decode_logical_immediate w = None"
  by (auto simp: decode_move_wide_def decode_logical_immediate_def split: if_split_asm)

text \<open>A word that is a move after the mask pass was that move before it.\<close>

lemma ported_move:
  assumes "ported M p w w'" and "decode_move_wide w' = Some v"
  shows "w' = w"
  using assms logical_not_move [OF assms(2)]
  by (auto simp: ported_def is_materialization_def split: option.splits if_split_asm)

text \<open>A run of the port, pass by pass, on an image the tables fit.\<close>

definition port_run :: "va_manifest \<Rightarrow> text_section \<Rightarrow> bytes \<Rightarrow> bytes list \<Rightarrow> bool" where
  "port_run M T d ds \<longleftrightarrow> manifest_ok M \<and> text_aligned T \<and> data_outside M T \<and> mask_pass M T d = Inr (hd ds) \<and> passes M T ds"

lemma port_runD:
  assumes "port_run M T d [d1, d2, d3, d4, d5, out]"
  shows "manifest_ok M" and "text_aligned T" and "data_outside M T" and "mask_pass M T d = Inr d1"
    and "passes M T [d1, d2, d3, d4, d5, out]"
    and "foldE (move_step T) (vm_init_moves M) d1 = Inr d2" and "foldE (move_step T) (vm_cage_moves M) d2 = Inr d3"
    and "foldE (word_step T) (vm_cage_words M) d3 = Inr d4" and "foldE data_step (vm_cage_data M) d4 = Inr d5"
    and "foldE (word_step T) (superpage_sites M) d5 = Inr out" and "tables_ok M"
  using assms by (simp_all add: port_run_def passes_def manifest_ok_def)

lemma code_sites_facts:
  assumes "manifest_ok M"
  shows "distinct (code_sites M)" and "q \<in> set (code_sites M) \<Longrightarrow> q mod 4 = 0"
    and "set (code_sites M) = fst ` set (vm_init_moves M) \<union> fst ` set (vm_cage_moves M) \<union> fst ` set (vm_cage_words M) \<union>
      set (vm_superpages M)"
    and "p \<in> set (code_sites M) \<Longrightarrow> set ps \<subseteq> set (code_sites M) \<Longrightarrow> p \<notin> set ps \<Longrightarrow> clear_of p 4 4 ps"
    and "(p, old, new) \<in> set (masks_of M) \<Longrightarrow> p \<notin> set (code_sites M)"
proof -
  show "distinct (code_sites M)" using assms by (simp add: manifest_ok_def)
  show m: "q mod 4 = 0" if "q \<in> set (code_sites M)" for q using assms that by (simp add: manifest_ok_def)
  show "clear_of p 4 4 ps" if "p \<in> set (code_sites M)" "set ps \<subseteq> set (code_sites M)" "p \<notin> set ps"
    using that by (intro clear_aligned) (auto intro: m)
  show "p \<notin> set (code_sites M)" if "(p, old, new) \<in> set (masks_of M)"
  proof -
    have "p \<in> set (map fst (masks_of M))" using that by force
    with assms show ?thesis unfolding manifest_ok_def distinct_append by blast
  qed
qed (auto simp: code_sites_def)

lemma word_from_mask_pass:
  assumes "port_run M T d [d1, d2, d3, d4, d5, out]" and p: "p \<in> set (text_words T)" "p \<notin> set (code_sites M)"
  shows "word_at out p = word_at d1 p"
proof -
  note r = port_runD [OF assms(1)]
  have m: "p mod 4 = 0" using text_words_props(2) [OF p(1)] r(2) by (simp add: text_aligned_def)
  have "clear_of p 4 4 (code_sites M)" by (rule clear_aligned) (use m p(2) code_sites_facts(2) [OF r(1)] in auto)
  with passes_clear(4) [OF r(5) word_clear_of_data [OF text_words_props(3) [OF p(1)] r(2) m r(3)]]
  show ?thesis by (metis word_at_cong)
qed

lemma run_words:
  assumes "port_run M T d [d1, d2, d3, d4, d5, out]"
  shows "p \<in> set (text_words T) \<Longrightarrow> p \<notin> set (code_sites M) \<Longrightarrow> ported M p (word_at d p) (word_at out p)"
    and "(p, old, new) \<in> set (masks_of M) \<Longrightarrow> is_materialization old (word_at d p) \<and> is_materialization new (word_at out p)"
proof -
  note r = port_runD [OF assms] and mask = mask_pass_exact [OF port_runD(4,11) [OF assms]]
  show "ported M p (word_at d p) (word_at out p)" if "p \<in> set (text_words T)" "p \<notin> set (code_sites M)"
    using mask(2) [OF that(1)] word_from_mask_pass [OF assms that] by simp
  show "is_materialization old (word_at d p) \<and> is_materialization new (word_at out p)" if "(p, old, new) \<in> set (masks_of M)"
    using mask(6) [OF that] word_from_mask_pass [OF assms _ code_sites_facts(5) [OF r(1) that]] by auto
qed

lemma old_move:
  assumes "port_run M T d [d1, d2, d3, d4, d5, out]"
    and "in_text T p" and "p mod 4 = 0" and "decode_move_wide (word_at d1 p) = Some v"
  shows "word_at d p = word_at d1 p"
  using conjunct2 [OF mask_pass_exact(2) [OF port_runD(4,11) [OF assms(1)] aligned_word(2) [OF assms(2) port_runD(2) [OF assms(1)] assms(3)]]]
    ported_move [OF _ assms(4)] by metis

lemma run_init_moves:
  assumes "port_run M T d [d1, d2, d3, d4, d5, out]" and i: "(p, old, new) \<in> set (vm_init_moves M)"
  shows "decode_move_wide (word_at d p) = Some old \<and> decode_move_wide (word_at out p) = Some new"
proof -
  note r = port_runD [OF assms(1)] and c = code_sites_facts [OF port_runD(1) [OF assms(1)]]
  have mv: "in_text T p" "decode_move_wide (word_at d1 p) = Some old" "decode_move_wide (word_at d2 p) = Some new"
    using move_pass_exact [OF r(6) code_sites_apart(1) [OF r(1)] i] by simp_all
  from i have p: "p \<in> set (code_sites M)" "p \<in> fst ` set (vm_init_moves M)" by (force simp: c(3))+
  have "word_at out p = word_at d2 p"
    by (rule word_at_cong, rule passes_clear(1) [OF r(5) word_clear_of_data [OF mv(1) r(2) c(2) [OF p(1)] r(3)]], rule c(4) [OF p(1)])
       (use p(2) c(1) in \<open>auto simp: code_sites_def\<close>)
  with mv old_move [OF assms(1) mv(1) c(2) [OF p(1)] mv(2)] show ?thesis by simp
qed

lemma run_cage_moves:
  assumes "port_run M T d [d1, d2, d3, d4, d5, out]" and i: "(p, old, new) \<in> set (vm_cage_moves M)"
  shows "decode_move_wide (word_at d p) = Some old \<and> decode_move_wide (word_at out p) = Some new"
proof -
  note r = port_runD [OF assms(1)] and c = code_sites_facts [OF port_runD(1) [OF assms(1)]]
  have mv: "in_text T p" "decode_move_wide (word_at d2 p) = Some old" "decode_move_wide (word_at d3 p) = Some new"
    using move_pass_exact [OF r(7) code_sites_apart(2) [OF r(1)] i] by simp_all
  from i have p: "p \<in> set (code_sites M)" "p \<in> fst ` set (vm_cage_moves M)" by (force simp: c(3))+
  have "word_at out p = word_at d3 p"
    by (rule word_at_cong, rule passes_clear(2) [OF r(5) word_clear_of_data [OF mv(1) r(2) c(2) [OF p(1)] r(3)]], rule c(4) [OF p(1)])
       (use p(2) c(1) in \<open>auto simp: code_sites_def\<close>)
  moreover have "word_at d2 p = word_at d1 p"
    by (rule word_at_cong, rule pass_clear(1) [OF r(6)], rule c(4) [OF p(1)]) (use p(2) c(1) in \<open>auto simp: code_sites_def\<close>)
  ultimately show ?thesis using mv old_move [OF assms(1) mv(1) c(2) [OF p(1)], of old] by simp
qed

lemma run_locked_words:
  assumes "port_run M T d [d1, d2, d3, d4, d5, out]"
    and i: "(p, old, new) \<in> set (vm_cage_words M) \<union> set (superpage_sites M)"
  shows "u32 LE out p = new"
proof (cases "(p, old, new) \<in> set (superpage_sites M)")
  case True
  then show ?thesis
    using word_pass_exact(4) [OF port_runD(10) [OF assms(1)] code_sites_apart(4) [OF port_runD(1) [OF assms(1)]]] by simp
next
  case False
  with i have i: "(p, old, new) \<in> set (vm_cage_words M)" by simp
  note r = port_runD [OF assms(1)] and c = code_sites_facts [OF port_runD(1) [OF assms(1)]]
  have w: "in_text T p" "u32 LE d4 p = new" using word_pass_exact [OF r(8) code_sites_apart(3) [OF r(1)] i] by simp_all
  from i have p: "p \<in> set (code_sites M)" "p \<in> fst ` set (vm_cage_words M)" by (force simp: c(3))+
  have "slice out p 4 = slice d4 p 4"
    by (rule passes_clear(3) [OF r(5) word_clear_of_data [OF w(1) r(2) c(2) [OF p(1)] r(3)]], rule c(4) [OF p(1)])
       (use p(2) c(1) in \<open>auto simp: code_sites_def\<close>)
  with w(2) show ?thesis using fld_cong by metis
qed

text \<open>Every code table lists aligned words of the text section.\<close>

lemma run_sites_in_text:
  assumes "port_run M T d [d1, d2, d3, d4, d5, out]" and "p \<in> set (code_sites M)"
  shows "in_text T p" and "p mod 4 = 0"
proof -
  note r = port_runD [OF assms(1)] and c = code_sites_facts [OF port_runD(1) [OF assms(1)]]
  show "p mod 4 = 0" using c(2) assms(2) .
  note moves = move_pass_exact(1) [OF r(6) code_sites_apart(1) [OF r(1)]] move_pass_exact(1) [OF r(7) code_sites_apart(2) [OF r(1)]]
  note words = word_pass_exact(1) [OF r(8) code_sites_apart(3) [OF r(1)]] word_pass_exact(1) [OF r(10) code_sites_apart(4) [OF r(1)]]
  have "set (vm_superpages M) = fst ` set (superpage_sites M)" using superpage_positions [of M] by (metis list.set_map set_sort)
  with assms(2) show "in_text T p" unfolding c(3) using moves words by auto
qed

text \<open>The text passes leave every window outside the text section alone.\<close>

lemma run_outside_text:
  assumes run: "port_run M T d [d1, d2, d3, d4, d5, out]" and out: "j + n \<le> ts_offset T \<or> ts_offset T + ts_size T \<le> j"
  shows "slice d4 j n = slice d j n" and "slice out j n = slice d5 j n"
proof -
  note r = port_runD [OF run]
  have far: "clear_of j n 4 ps" if "\<And>q. q \<in> set ps \<Longrightarrow> in_text T q \<and> q mod 4 = 0" for ps
    using that aligned_word(1) [OF _ r(2)] out by (fastforce simp: clear_of_def in_text_def)
  have sites: "clear_of j n 4 ps" if "set ps \<subseteq> set (code_sites M)" for ps
    by (rule far) (use that run_sites_in_text [OF run] in auto)
  have "clear_of j n 4 (text_words T)"
    using text_words_props(2,3) r(2) by (intro far) (auto simp: text_aligned_def)
  then have "slice d1 j n = slice d j n" by (intro mask_pass_exact(3) [OF r(4,11)]) (auto simp: clear_of_def)
  moreover have "slice d2 j n = slice d1 j n" by (rule pass_clear(1) [OF r(6)], rule sites) (auto simp: code_sites_def)
  moreover have "slice d3 j n = slice d2 j n" by (rule pass_clear(1) [OF r(7)], rule sites) (auto simp: code_sites_def)
  moreover have "slice d4 j n = slice d3 j n" by (rule pass_clear(2) [OF r(8)], rule sites) (auto simp: code_sites_def)
  ultimately show "slice d4 j n = slice d j n" by simp
  show "slice out j n = slice d5 j n"
    by (rule pass_clear(2) [OF r(10)], rule sites) (auto simp: code_sites_def superpage_positions)
qed

lemma run_data:
  assumes run: "port_run M T d [d1, d2, d3, d4, d5, out]" and i: "(p, old, new) \<in> set (vm_cage_data M)"
  shows "u64 LE d p = old \<and> u64 LE out p = new"
proof -
  note r = port_runD [OF run]
  have "p \<in> set (map fst (vm_cage_data M))" using i by force
  with r(3) have "p + 8 \<le> ts_offset T \<or> ts_offset T + ts_size T \<le> p" unfolding data_outside_def by blast
  note o = run_outside_text [OF run this]
  have "apart 8 (map fst (vm_cage_data M))" using r(1) by (simp add: manifest_ok_def)
  from data_pass_exact(2,3) [OF r(9) this i] show ?thesis using fld_cong [OF o(1)] fld_cong [OF o(2)] by simp
qed

lemma engine_port_run:
  assumes "engine_patch M d = Inr out" and "parse_macho d = Inr (uuid, T)" and "manifest_ok M" and "text_aligned T" and "data_outside M T"
  obtains d1 d2 d3 d4 d5 where "port_run M T d [d1, d2, d3, d4, d5, out]" and "uuid = vm_uuid M"
    and "ts_offset T + ts_size T \<le> length d"
  by (rule engine_patch_passes [OF assms(1,2)], rule that) (use assms(3-5) in \<open>simp_all add: port_run_def\<close>)

text \<open>
  C19: The port of a Chromium framework rewrites exactly what it should: every instruction of the
  text section that applies a 64-bit pool mask of the table with \<open>AND\<close> or \<open>ANDS\<close> applies the mask
  of the smaller pool to the same registers; every listed materialization, move and data word held
  the old geometry and holds the new one, every listed replacement word is in place; every other
  text word is the one of the input; and the numbers of masks found are those of the manifest.
\<close>

theorem engine_patch_exact:
  assumes run: "engine_patch M d = Inr out" and parsed: "parse_macho d = Inr (uuid, T)"
    and ok: "manifest_ok M" and al: "text_aligned T" and dat: "data_outside M T"
  shows "uuid = vm_uuid M \<and>
    (\<forall>p \<in> set (text_words T). p \<notin> set (code_sites M) \<longrightarrow> ported M p (word_at d p) (word_at out p)) \<and>
    (\<forall>(p, old, new) \<in> set (masks_of M). is_materialization old (word_at d p) \<and> is_materialization new (word_at out p)) \<and>
    (\<forall>(p, old, new) \<in> set (vm_init_moves M) \<union> set (vm_cage_moves M).
        decode_move_wide (word_at d p) = Some old \<and> decode_move_wide (word_at out p) = Some new) \<and>
    (\<forall>(p, old, new) \<in> set (vm_cage_words M) \<union> set (superpage_sites M). u32 LE out p = new) \<and>
    (\<forall>(p, old, new) \<in> set (vm_cage_data M). u64 LE d p = old \<and> u64 LE out p = new) \<and>
    (\<forall>v. length (filter (masked_at M d v) (text_words T)) = count_of (vm_counts M) v \<and>
         length (filter (retained_at M d v) (text_words T)) = count_of (vm_retained M) v)"
proof -
  from engine_port_run [OF run parsed ok al dat] obtain d1 d2 d3 d4 d5 where r: "port_run M T d [d1, d2, d3, d4, d5, out]"
    and uuid: "uuid = vm_uuid M" .
  show ?thesis
    using uuid run_words [OF r] run_init_moves [OF r] run_cage_moves [OF r] run_locked_words [OF r] run_data [OF r]
      mask_pass_exact(4,5) [OF port_runD(4,11) [OF r]]
    by (intro conjI; fast)
qed

text \<open>
  The port keeps the length of the file and every byte outside the text section and the listed
  data words: headers, load commands, other sections and whatever follows the text.
\<close>

theorem engine_patch_confined:
  assumes run: "engine_patch M d = Inr out" and parsed: "parse_macho d = Inr (uuid, T)"
    and ok: "manifest_ok M" and al: "text_aligned T" and dat: "data_outside M T"
  shows "length out = length d \<and>
    (\<forall>j < length d. \<not> in_text T j \<and> (\<forall>p \<in> set (map fst (vm_cage_data M)). j < p \<or> p + 8 \<le> j) \<longrightarrow> out ! j = d ! j)"
proof (intro conjI allI impI)
  from engine_port_run [OF run parsed ok al dat] obtain d1 d2 d3 d4 d5 where r: "port_run M T d [d1, d2, d3, d4, d5, out]" .
  note p = port_runD [OF r]
  show len: "length out = length d"
    using mask_pass_exact(1) [OF p(4,11)] move_sites.pass_len [OF p(6)] move_sites.pass_len [OF p(7)]
      word_sites.pass_len [OF p(8)] data_sites.pass_len [OF p(9)] word_sites.pass_len [OF p(10)] by simp
  fix j assume j: "j < length d" and far: "\<not> in_text T j \<and> (\<forall>p \<in> set (map fst (vm_cage_data M)). j < p \<or> p + 8 \<le> j)"
  then have "j + 1 \<le> ts_offset T \<or> ts_offset T + ts_size T \<le> j" by (auto simp: in_text_def)
  note o = run_outside_text [OF r this]
  have "slice d5 j 1 = slice d4 j 1" by (rule pass_clear(3) [OF p(9)]) (use far in \<open>force simp: clear_of_def\<close>)
  with o have "slice out j 1 = slice d j 1" by simp
  then show "out ! j = d ! j" using j len by (simp add: slice_def take_Suc_conv_app_nth Cons_nth_drop_Suc [symmetric])
qed

subsection \<open>The tables of the repository\<close>

text \<open>The values some instruction can hold, for which \<open>logical_immediate_fields\<close> does not raise.\<close>

definition encodable_mask :: "imm \<Rightarrow> bool" where
  "encodable_mask v \<longleftrightarrow> (case logical_immediate_fields v of Inl _ \<Rightarrow> False | Inr _ \<Rightarrow> True)"

lemma encodable:
  assumes "n < 2" and "immr < 64" and "imms < 64"
    and "decode_logical_immediate (0x80000000 OR 0x12000000 OR immediate_bits n immr imms) = Some v"
  shows "encodable_mask v"
proof -
  have "(n, immr, imms) \<in> set immediate_candidates" using assms(1-3) by (force simp: immediate_candidates_def)
  from find_exists [OF this, where P = "\<lambda>(n, immr, imms).
      decode_logical_immediate (0x80000000 OR 0x12000000 OR immediate_bits n immr imms) = Some v"] assms(4)
  show ?thesis by (auto simp: encodable_mask_def logical_immediate_fields_def)
qed

text \<open>The masks of the smaller pools.\<close>

lemma pool_masks_encodable:
  "encodable_mask 0xfffffffe00000000" "encodable_mask 0xfffffffc00000000" "encodable_mask 0x1ffffffff" "encodable_mask 0x3ffffffff"
  "encodable_mask 0xffffffffc0000000" "encodable_mask 0xffffffff80000000" "encodable_mask 0x3fffffff" "encodable_mask 0x7fffffff"
proof -
  show "encodable_mask 0xfffffffe00000000" by (rule encodable [of 1 31 30]) (simp_all add: immediate_eval immediate_bits_def)
  show "encodable_mask 0xfffffffc00000000" by (rule encodable [of 1 30 29]) (simp_all add: immediate_eval immediate_bits_def)
  show "encodable_mask 0x1ffffffff" by (rule encodable [of 1 0 32]) (simp_all add: immediate_eval immediate_bits_def)
  show "encodable_mask 0x3ffffffff" by (rule encodable [of 1 0 33]) (simp_all add: immediate_eval immediate_bits_def)
  show "encodable_mask 0xffffffffc0000000" by (rule encodable [of 1 34 33]) (simp_all add: immediate_eval immediate_bits_def)
  show "encodable_mask 0xffffffff80000000" by (rule encodable [of 1 33 32]) (simp_all add: immediate_eval immediate_bits_def)
  show "encodable_mask 0x3fffffff" by (rule encodable [of 1 0 29]) (simp_all add: immediate_eval immediate_bits_def)
  show "encodable_mask 0x7fffffff" by (rule encodable [of 1 0 30]) (simp_all add: immediate_eval immediate_bits_def)
qed

definition movable :: "imm \<Rightarrow> bool" where
  "movable v \<longleftrightarrow> (\<exists>k \<in> set [0..<4]. v AND NOT (push_bit (k * 16) 0xFFFF) = 0)"

definition tables_consistent :: "va_manifest \<Rightarrow> bool" where
  "tables_consistent M \<longleftrightarrow>
     (\<forall>(old, new) \<in> set (vm_map M). encodable_mask new) \<and>
     (\<forall>(p, old, new) \<in> set (masks_of M). map_of (vm_map M) old = Some new) \<and>
     (\<forall>(p, old, new) \<in> set (vm_init_moves M @ vm_cage_moves M). movable new)"

lemma movable_values:
  "movable 0x400000000" "movable 0x200000000" "movable 0x100000000" "movable 0x80000000" "movable 0x40000000"
  by (simp_all add: movable_def upt_rec)

lemmas manifest_tables = masks_of_def code_sites_def manifest_ok_def tables_ok_def wide_map_def apart_def
  tables_consistent_def movable_values pool_masks_encodable mask_eq_exp_minus_1

lemma electron_ok: "manifest_ok electron_manifest \<and> tables_consistent electron_manifest"
  by (simp add: electron_manifest_def manifest_tables)

lemma chrome_ok: "manifest_ok chrome_manifest \<and> tables_consistent chrome_manifest"
  by (simp add: chrome_manifest_def manifest_tables)

lemma optimization_ok: "manifest_ok optimization_manifest \<and> tables_consistent optimization_manifest"
  by (simp add: optimization_manifest_def manifest_tables)


lemma encodable_rewrite: "encodable_mask v \<Longrightarrow> \<exists>w'. rewrite_logical_immediate w v = Inr w'"
  by (auto simp: encodable_mask_def rewrite_logical_immediate_def split: sum.splits)

lemma movable_rewrite: "movable v \<Longrightarrow> \<exists>w'. rewrite_move_wide w v = Inr w'"
  using find_exists [of _ "[0..<4]" "\<lambda>k. v AND NOT (push_bit (k * 16) 0xFFFF) = 0"]
  by (auto simp: movable_def rewrite_move_wide_def split: option.splits)

lemma consistent_mask:
  assumes "tables_consistent M" and "(p, old, new) \<in> set (masks_of M)"
  shows "\<exists>w'. rewrite_logical_immediate w new = Inr w'"
  using assms by (intro encodable_rewrite) (fastforce simp: tables_consistent_def dest: map_of_SomeD)

lemma consistent_classify:
  assumes "tables_consistent M" and "classify_site M p w = Inl e"
  shows "e = ValueError ''expected MOV/ORR Xd, XZR''"
proof -
  have map: "\<exists>w'. rewrite_logical_immediate w new = Inr w'" if "map_of (vm_map M) v = Some new" for v new
    using assms(1) that by (intro encodable_rewrite) (fastforce simp: tables_consistent_def dest: map_of_SomeD)
  have tab: "\<exists>w'. rewrite_logical_immediate w new = Inr w'"
    if "map_of (vm_base_masks M) p = Some (old, new) \<or> map_of (vm_offset_masks M) p = Some (old, new) \<or>
      map_of (vm_init_masks M) p = Some (old, new)" for old new
    using that by (intro consistent_mask [OF assms(1), of p old]) (auto simp: masks_of_def dest: map_of_SomeD)
  have mat: "x = ValueError ''expected MOV/ORR Xd, XZR''"
    if "materialize w v (old, new) = Inl x" "\<exists>w'. rewrite_logical_immediate w new = Inr w'" for v old new x
    using that by (auto simp: materialize_def split: if_split_asm)
  from assms(2) show ?thesis
    by (auto simp: classify_site_def bindE_eq_Inl split: option.splits if_split_asm dest!: map dest: mat [OF _ tab])
qed

text \<open>
  C20: The tables of all three frameworks fit the port: no instruction is listed twice, listed
  instructions are aligned, data words do not overlap, every locked materialization agrees with the
  mask table, and no rewrite can fail for want of an encoding, so that the only error of a text word
  is a listed site that does not hold the expected materialization.
\<close>

theorem manifests_sound:
  assumes "M \<in> {electron_manifest, chrome_manifest, optimization_manifest}"
  shows "manifest_ok M \<and> (\<forall>(p, old, new) \<in> set (masks_of M). map_of (vm_map M) old = Some new) \<and>
    (\<forall>p w e. classify_site M p w = Inl e \<longrightarrow> e = ValueError ''expected MOV/ORR Xd, XZR'') \<and>
    (\<forall>(p, old, new) \<in> set (vm_init_moves M @ vm_cage_moves M). \<forall>w. \<exists>w'. rewrite_move_wide w new = Inr w')"
proof -
  from assms have ok: "manifest_ok M" and c: "tables_consistent M"
    using electron_ok chrome_ok optimization_ok by auto
  have "\<forall>(p, old, new) \<in> set (vm_init_moves M @ vm_cage_moves M). \<forall>w. \<exists>w'. rewrite_move_wide w new = Inr w'"
    using c by (fastforce simp: tables_consistent_def intro: movable_rewrite)
  with ok c consistent_classify [OF c] show ?thesis unfolding tables_consistent_def by blast
qed

theorem manifests_sound_witness:
  "manifest_ok electron_manifest \<and> map_of (vm_map electron_manifest) 0xfffffffc00000000 = Some 0xfffffffe00000000 \<and>
   (\<exists>w'. rewrite_move_wide 0xd2c00088 0x200000000 = Inr w')"
proof -
  have "(0x135bc9c, 0xfffffffc00000000, 0xfffffffe00000000) \<in> set (masks_of electron_manifest)"
    "(0x1fbc120, 0x800000000, 0x200000000) \<in> set (vm_init_moves electron_manifest @ vm_cage_moves electron_manifest)"
    by (simp_all add: masks_of_def electron_manifest_def)
  with manifests_sound [of electron_manifest] show ?thesis by blast
qed

subsection \<open>A small image\<close>

definition sample_port_image :: bytes where
  "sample_port_image =
    [207, 250, 237, 254, 0, 0, 0, 0, 0, 0, 0, 0, 0, 0, 0, 0, 2, 0, 0, 0, 176, 0, 0, 0, 0, 0, 0, 0, 0, 0, 0, 0, 27, 0,
    0, 0, 24, 0, 0, 0, 0, 1, 2, 3, 4, 5, 6, 7, 8, 9, 10, 11, 12, 13, 14, 15, 25, 0, 0, 0, 152, 0, 0, 0, 95, 95, 84,
    69, 88, 84, 0, 0, 0, 0, 0, 0, 0, 0, 0, 0, 0, 0, 0, 0, 0, 0, 0, 0, 0, 0, 0, 0, 0, 0, 0, 0, 0, 0, 0, 0, 0, 0, 0, 0,
    0, 0, 0, 0, 0, 0, 0, 0, 0, 0, 0, 0, 0, 0, 0, 0, 1, 0, 0, 0, 0, 0, 0, 0, 95, 95, 116, 101, 120, 116, 0, 0, 0, 0,
    0, 0, 0, 0, 0, 0, 95, 95, 84, 69, 88, 84, 0, 0, 0, 0, 0, 0, 0, 0, 0, 0, 224, 0, 0, 0, 0, 0, 0, 0, 16, 0, 0, 0, 0,
    0, 0, 0, 224, 0, 0, 0, 0, 0, 0, 0, 0, 0, 0, 0, 0, 0, 0, 0, 0, 0, 0, 0, 0, 0, 0, 0, 0, 0, 0, 0, 0, 0, 0, 0, 0, 0,
    0, 0, 0, 0, 0, 0, 0, 0, 0, 0, 0, 0, 0, 0, 32, 116, 94, 146, 136, 0, 192, 210, 8, 132, 85, 211, 227, 119, 94, 178]"

definition sample_port_manifest :: va_manifest where
  "sample_port_manifest = \<lparr>vm_uuid = ''00010203-0405-0607-0809-0a0b0c0d0e0f'',
     vm_map = [(0xfffffffc00000000, 0xfffffffe00000000)], vm_counts = [(0xfffffffc00000000, 1)], vm_retained = [],
     vm_base_masks = [(236, 0xfffffffc00000000, 0xfffffffe00000000)], vm_offset_masks = [], vm_init_masks = [],
     vm_init_moves = [(228, 0x400000000, 0x200000000)], vm_cage_moves = [], vm_cage_words = [],
     vm_cage_data = [(192, 0, 5)], vm_superpages = [232]\<rparr>"

definition sample_port_text :: text_section where
  "sample_port_text = \<lparr>ts_address = 224, ts_size = 16, ts_offset = 224\<rparr>"

lemma sample_port_parsed: "parse_macho sample_port_image = Inr (''00010203-0405-0607-0809-0a0b0c0d0e0f'', sample_port_text)"
proof -
  note ev = sample_port_image_def fld_def slice_def dec_def
  have len: "length sample_port_image = 240" by (simp add: sample_port_image_def)
  have h: "u32 LE sample_port_image 0 = MH_MAGIC_64" "u32 LE sample_port_image 16 = 2" "u32 LE sample_port_image 20 = 176"
    "u32 LE sample_port_image 32 = LC_UUID" "u32 LE sample_port_image 36 = 24"
    "u32 LE sample_port_image 56 = LC_SEGMENT_64" "u32 LE sample_port_image 60 = 152" "u32 LE sample_port_image 120 = 1"
    "u64 LE sample_port_image 160 = 224" "u64 LE sample_port_image 168 = 16" "u32 LE sample_port_image 176 = 224"
    by (simp_all add: ev MH_MAGIC_64_def LC_UUID_def LC_SEGMENT_64_def)
  have names: "until_nul (slice sample_port_image 144 16) = encode_str ''__TEXT''" "until_nul (slice sample_port_image 128 16) = encode_str ''__text''"
    by (simp_all add: sample_port_image_def slice_def until_nul_def encode_str_def)
  have uuid: "uuid_text (slice sample_port_image 40 16) = ''00010203-0405-0607-0809-0a0b0c0d0e0f''"
    by (simp add: sample_port_image_def slice_def uuid_text_def hex_def hex_byte_def hex_digits_def)
  have "section_walk sample_port_image 128 1 None = Inr (Some sample_port_text)"
    using names h len by (simp add: sample_port_text_def room_def)
  then have "macho_walk sample_port_image 208 32 2 (None, None) =
      Inr (Some ''00010203-0405-0607-0809-0a0b0c0d0e0f'', Some sample_port_text)"
    using h len uuid by (simp add: room_def LC_UUID_def LC_SEGMENT_64_def numeral_2_eq_2)
  with h len show ?thesis by (simp add: parse_macho_def)
qed

lemma sample_port_words:
  "word_at sample_port_image 224 = 0x925e7420" "word_at sample_port_image 228 = 0xd2c00088" "u32 LE sample_port_image 232 = 0xD3558408"
  "word_at sample_port_image 232 = 0xD3558408" "word_at sample_port_image 236 = 0xb25e77e3" "u64 LE sample_port_image 192 = 0"
  "length sample_port_image = 240"
  by (simp_all add: sample_port_image_def word_at_def fld_def slice_def dec_def)

lemma sample_port_decoded:
  "decode_logical_immediate 0x925e7420 = Some 0xfffffffc00000000" "decode_logical_immediate 0xd2c00088 = None"
  "decode_logical_immediate 0xD3558408 = None" "decode_logical_immediate 0xb25e77e3 = Some 0xfffffffc00000000"
  "is_logical_mask_operation 0x925e7420" "\<not> is_logical_mask_operation 0xb25e77e3"
  "decode_move_wide 0xd2c00088 = Some 0x400000000" "insn_field 0xb25e77e3 29 2 = 1" "insn_field 0xb25e77e3 5 5 = 31"
  by (simp_all add: immediate_eval is_logical_mask_operation_def decode_move_wide_def)

lemma word_at_other: "p + 4 \<le> length d \<Longrightarrow> q + 4 \<le> p \<or> p + 4 \<le> q \<Longrightarrow> word_at (put LE 4 d p v) q = word_at d q"
  unfolding word_at_def by (simp add: fld_put_other)

lemma sample_port_runs: "\<exists>out. engine_patch sample_port_manifest sample_port_image = Inr out"
proof -
  obtain a where a: "rewrite_logical_immediate 0x925e7420 0xfffffffe00000000 = Inr a"
    using encodable_rewrite pool_masks_encodable(1) by blast
  obtain b where b: "rewrite_logical_immediate 0xb25e77e3 0xfffffffe00000000 = Inr b"
    using encodable_rewrite pool_masks_encodable(1) by blast
  obtain c where c: "rewrite_move_wide 0xd2c00088 0x200000000 = Inr c"
    using movable_rewrite movable_values(2) by blast
  note M = sample_port_manifest_def sample_port_text_def
  have words: "text_words sample_port_text = [224, 228, 232, 236]" by (simp add: text_words_def sample_port_text_def upt_rec)
  define d1 where "d1 = put LE 4 (put LE 4 sample_port_image 224 (unat a)) 236 (unat b)"
  have len1: "length d1 = 240" by (simp add: d1_def sample_port_words)
  have mask: "mask_pass sample_port_manifest sample_port_text sample_port_image = Inr d1"
    unfolding mask_pass_def words
    by (simp add: mask_step_def room_def sample_port_words classify_site_def sample_port_decoded M a b d1_def apply_site_def
      word_at_other materialize_def count_up_def count_of_def counts_agree_def)
  have w1: "word_at d1 228 = 0xd2c00088" "u32 LE d1 232 = 0xD3558408" "u64 LE d1 192 = 0"
    by (simp_all add: d1_def sample_port_words word_at_other fld_put_other)
  have move: "move_step sample_port_text (228, 0x400000000, 0x200000000) d1 = Inr (put LE 4 d1 228 (unat c))"
    by (simp add: move_step_def in_text_def sample_port_text_def room_def len1 w1 sample_port_decoded c)
  define d2 where "d2 = put LE 4 d1 228 (unat c)"
  have w2: "u32 LE d2 232 = 0xD3558408" "u64 LE d2 192 = 0" "length d2 = 240"
    by (simp_all add: d2_def len1 w1 fld_put_other)
  define d3 where "d3 = put LE 8 d2 192 5"
  have w3: "u32 LE d3 232 = 0xD3558408" "length d3 = 240" by (simp_all add: d3_def w2 fld_put_other)
  have rest: "data_step (192, 0, 5) d2 = Inr d3"
    "word_step sample_port_text (232, UBFX_21_13_X8_X0, UBFX_21_12_X8_X0) d3 = Inr (put LE 4 d3 232 UBFX_21_12_X8_X0)"
    by (simp_all add: data_step_def w2 pack_into_def d3_def [symmetric] word_step_def in_text_def sample_port_text_def unpack_from_def w3
      UBFX_21_13_X8_X0_def UBFX_21_12_X8_X0_def)
  show ?thesis
    using sample_port_parsed mask move rest len1
    by (simp add: engine_patch_def sample_port_manifest_def superpage_sites_def d2_def [symmetric])
       (simp add: sample_port_text_def sample_port_words)
qed

lemma sample_port_fits: "manifest_ok sample_port_manifest" "text_aligned sample_port_text" "data_outside sample_port_manifest sample_port_text"
  by (simp_all add: sample_port_manifest_def manifest_tables text_aligned_def sample_port_text_def data_outside_def)

theorem engine_patch_exact_witness:
  "\<exists>out. engine_patch sample_port_manifest sample_port_image = Inr out \<and> decode_move_wide (word_at out 228) = Some 0x200000000 \<and>
     is_materialization 0xfffffffe00000000 (word_at out 236) \<and> decode_logical_immediate (word_at out 224) = Some 0xfffffffe00000000"
proof -
  from sample_port_runs obtain out where run: "engine_patch sample_port_manifest sample_port_image = Inr out" by blast
  note e = engine_patch_exact [OF run sample_port_parsed sample_port_fits]
  have "ported sample_port_manifest 224 (word_at sample_port_image 224) (word_at out 224)"
    using e by (simp add: text_words_def sample_port_text_def upt_rec code_sites_def sample_port_manifest_def)
  then have "decode_logical_immediate (word_at out 224) = Some 0xfffffffe00000000"
    by (simp add: ported_def sample_port_words sample_port_decoded sample_port_manifest_def)
  with e run show ?thesis by (auto simp: sample_port_manifest_def masks_of_def)
qed

theorem engine_patch_confined_witness:
  "\<exists>out. engine_patch sample_port_manifest sample_port_image = Inr out \<and> length out = 240 \<and> out ! 0 = 0xCF"
proof -
  from sample_port_runs obtain out where run: "engine_patch sample_port_manifest sample_port_image = Inr out" by blast
  note e = engine_patch_confined [OF run sample_port_parsed sample_port_fits]
  have "\<not> in_text sample_port_text 0" by (simp add: in_text_def sample_port_text_def)
  moreover have "\<forall>p \<in> set (map fst (vm_cage_data sample_port_manifest)). 0 < p \<or> p + 8 \<le> 0" by (simp add: sample_port_manifest_def)
  ultimately have "out ! 0 = sample_port_image ! 0" using e by (metis length_greater_0_conv sample_port_words(7) zero_less_numeral)
  moreover have "sample_port_image ! 0 = 0xCF" by (simp add: sample_port_image_def)
  ultimately show ?thesis using run e by (simp add: sample_port_words)
qed

end
