(* ===== verification/SteamPort.thy ===== *)
theory SteamPort
  imports VaPort
begin

text \<open>
  \<^verbatim>\<open>misc/patch_steam_cef126_pa_ios_va.py\<close>: the same port for the Chromium framework of Steam, locked to
  known inputs and a known result, and its verifier.  SHA-256 is a parameter.
\<close>

unbundle bit_operations_syntax

subsection \<open>The Steam framework\<close>

record steam_profile =
  sp_uuid :: string
  sp_inputs :: "string list"
  sp_text :: string
  sp_sizes :: "nat list"
  sp_masks :: "nat list"

definition OLD_POOL_BASE_MASK :: imm where "OLD_POOL_BASE_MASK = 0xFFFFFFFC00000000"
definition NEW_POOL_BASE_MASK :: imm where "NEW_POOL_BASE_MASK = 0xFFFFFFFE00000000"
definition EXPECTED_INLINED_MASK_COUNT :: nat where "EXPECTED_INLINED_MASK_COUNT = 54298"
definition POOL_SIZE :: imm where "POOL_SIZE = push_bit 34 1"
definition NEW_POOL_SIZE :: imm where "NEW_POOL_SIZE = push_bit 33 1"

definition STEAM_PROFILES :: "steam_profile list" where
  "STEAM_PROFILES =
    [\<lparr>sp_uuid = ''4c4c44c4-5555-3144-a13e-0a3390079bb0'',
       sp_inputs = [''2072fe50e4d6e0fcf7b928fc1e50783e21ea1299de441a5810bfe5c451dc5b3f'',
         ''343e02d60ca848927c031eea73f8a938e8e376d6a12fb08cdb0b9fc7b7bc9d5f'',
         ''bc333167318f3e7b468315de8533c0c5c79c663db16dca4455ddcba9e367306b''],
       sp_text = ''56c9c8a25a07f21c9311ef1b6d39e6766bed8217fd09b3952c267db79cd9fc8b'',
       sp_sizes = [0x3b4dac0, 0x3b4dac4, 0x3b4dac8, 0x3b4dafc, 0x3b4db30, 0x3b4db44],
       sp_masks = [0x3b5a2d0, 0x6080a1c, 0x6080c08, 0x6081228, 0x60814f0, 0x60817b4]\<rparr>,
     \<lparr>sp_uuid = ''4c4c4427-5555-3144-a120-65601e40c415'',
       sp_inputs = [''4780238d15d61a9fe23c2a8022bd6f23a4b8487da9f11d2813874e61906cff77''],
       sp_text = ''1b3d3fc9bea85c760f076691c807d13fa9580740fae1cbfcb21ee1c38998a0f5'',
       sp_sizes = [0x3b4dca0, 0x3b4dca4, 0x3b4dca8, 0x3b4dcdc, 0x3b4dd10, 0x3b4dd24],
       sp_masks = [0x3b5a4b0, 0x6080bfc, 0x6080de8, 0x6081408, 0x60816d0, 0x6081994]\<rparr>]"

definition profile_for_input_hash :: "steam_profile list \<Rightarrow> string \<Rightarrow> steam_profile result" where
  "profile_for_input_hash profiles digest =
     (case List.find (\<lambda>p. digest \<in> set (sp_inputs p)) profiles of
        None \<Rightarrow> Inl (ValueError ''unsupported input SHA-256'') | Some p \<Rightarrow> Inr p)"

definition profile_for_uuid :: "steam_profile list \<Rightarrow> string \<Rightarrow> steam_profile result" where
  "profile_for_uuid profiles uuid =
     (case List.find (\<lambda>p. uuid = sp_uuid p) profiles of
        None \<Rightarrow> Inl (ValueError ''unsupported CEF UUID'') | Some p \<Rightarrow> Inr p)"

text \<open>One word of the text section; the number of masks seen so far.\<close>

definition steam_step :: "nat \<Rightarrow> bytes \<times> nat \<Rightarrow> (bytes \<times> nat) result" where
  "steam_step p s =
     bindE (room (fst s) p 4) (\<lambda>_.
     if decode_logical_immediate (word_at (fst s) p) \<noteq> Some OLD_POOL_BASE_MASK \<or>
        \<not> is_logical_mask_operation (word_at (fst s) p) then Inr s
     else bindE (rewrite_logical_immediate (word_at (fst s) p) NEW_POOL_BASE_MASK) (\<lambda>w.
     Inr (put LE 4 (fst s) p (unat w), snd s + 1)))"

definition size_site :: "nat \<Rightarrow> bytes \<Rightarrow> bytes result" where
  "size_site p d =
     bindE (room d p 4) (\<lambda>_.
     if decode_move_wide (word_at d p) \<noteq> Some POOL_SIZE then Inl (ValueError ''expected 16 GiB'')
     else bindE (rewrite_move_wide (word_at d p) NEW_POOL_SIZE) (\<lambda>w. Inr (put LE 4 d p (unat w))))"

definition mask_materialization :: "nat \<Rightarrow> bytes \<Rightarrow> bytes result" where
  "mask_materialization p d =
     bindE (room d p 4) (\<lambda>_.
     if \<not> is_materialization OLD_POOL_BASE_MASK (word_at d p) then Inl (ValueError ''unexpected word'')
     else bindE (rewrite_logical_immediate (word_at d p) NEW_POOL_BASE_MASK) (\<lambda>w. Inr (put LE 4 d p (unat w))))"

type_synonym sha256_text = "bytes \<Rightarrow> string"

definition steam_patch :: "steam_profile list \<Rightarrow> nat \<Rightarrow> sha256_text \<Rightarrow> bytes \<Rightarrow> bytes result" where
  "steam_patch profiles expected sha d =
     bindE (profile_for_input_hash profiles (sha d)) (\<lambda>P.
     bindE (parse_macho d) (\<lambda>(uuid, T).
     if uuid \<noteq> sp_uuid P then Inl (ValueError ''input hash selected another UUID'')
     else if ts_address T \<noteq> ts_offset T
     then Inl (ValueError ''manifest requires identical __text VM/file offsets'')
     else
     bindE (foldE steam_step (text_words T) (d, 0)) (\<lambda>x.
     if snd x \<noteq> expected then Inl (ValueError ''inlined pool-mask count'')
     else
     bindE (foldE size_site (sort (sp_sizes P)) (fst x)) (\<lambda>d.
     bindE (foldE mask_materialization (sort (sp_masks P)) d) (\<lambda>d.
     if sha (slice d (ts_offset T) (ts_size T)) \<noteq> sp_text P
     then Inl (ValueError ''patched __text SHA-256'') else Inr d)))))"

definition verify_size :: "bytes \<Rightarrow> nat \<Rightarrow> unit \<Rightarrow> unit result" where
  "verify_size d p _ =
     bindE (room d p 4) (\<lambda>_.
     if decode_move_wide (word_at d p) \<noteq> Some NEW_POOL_SIZE then Inl (ValueError ''ported size site'') else Inr ())"

definition verify_mask :: "bytes \<Rightarrow> nat \<Rightarrow> unit \<Rightarrow> unit result" where
  "verify_mask d p _ =
     bindE (room d p 4) (\<lambda>_.
     if \<not> is_materialization NEW_POOL_BASE_MASK (word_at d p)
     then Inl (ValueError ''ported mask materialization'') else Inr ())"

definition verify_patched :: "steam_profile list \<Rightarrow> sha256_text \<Rightarrow> bytes \<Rightarrow> steam_profile result" where
  "verify_patched profiles sha d =
     bindE (parse_macho d) (\<lambda>(uuid, T).
     bindE (profile_for_uuid profiles uuid) (\<lambda>P.
     if ts_address T \<noteq> ts_offset T
     then Inl (ValueError ''manifest requires identical __text VM/file offsets'')
     else if sha (slice d (ts_offset T) (ts_size T)) \<noteq> sp_text P
     then Inl (ValueError ''unported or partial __text SHA-256'')
     else
     bindE (foldE (verify_size d) (sort (sp_sizes P)) ()) (\<lambda>_.
     bindE (foldE (verify_mask d) (sort (sp_masks P)) ()) (\<lambda>_. Inr P))))"

interpretation steam_sites: site_pass id 4 fst steam_step
  by unfold_locales (auto simp: steam_step_def slice_put split: if_splits)

interpretation pool_size_sites: site_pass id 4 id size_site
  by unfold_locales (auto simp: size_site_def slice_put)

interpretation pool_mask_sites: site_pass id 4 id mask_materialization
  by unfold_locales (auto simp: mask_materialization_def slice_put)

subsection \<open>The ported Steam framework is accepted\<close>

text \<open>A header read from a prefix of the file is read the same way from the file.\<close>

lemma fld_take: "i + k \<le> n \<Longrightarrow> fld e k (take n d) i = fld e k d i"
  by (intro fld_cong) (auto simp: slice_def drop_take min_def)

lemma slice_take: "i + k \<le> n \<Longrightarrow> slice (take n d) i k = slice d i k"
  by (simp add: slice_def drop_take min_def)

lemma section_walk_prefix:
  assumes "section_walk (take n d) c k t = Inr r" and "n \<le> length d"
  shows "section_walk d c k t = Inr r"
  using assms
proof (induction k arbitrary: c t)
  case (Suc k)
  then have c: "c + 80 \<le> n" by (auto simp: min_def split: if_split_asm)
  have "u64 LE (take n d) (c + 32) = u64 LE d (c + 32)" "u64 LE (take n d) (c + 40) = u64 LE d (c + 40)"
    "u32 LE (take n d) (c + 48) = u32 LE d (c + 48)" "slice (take n d) (c + 16) 16 = slice d (c + 16) 16"
    "slice (take n d) c 16 = slice d c 16" using c by (auto intro: fld_take slice_take)
  note same = this
  from Suc.prems(1) have "section_walk (take n d) (c + 80) k
      (if until_nul (slice d (c + 16) 16) = encode_str ''__TEXT'' \<and> until_nul (slice d c 16) = encode_str ''__text''
       then Some \<lparr>ts_address = u64 LE d (c + 32), ts_size = u64 LE d (c + 40), ts_offset = u32 LE d (c + 48)\<rparr>
       else t) = Inr r"
    unfolding section_walk.simps same by simp
  from Suc.IH [OF this Suc.prems(2)] c Suc.prems(2) show ?case unfolding section_walk.simps by simp
qed simp

lemma macho_walk_prefix:
  assumes "macho_walk (take n d) limit c k found = Inr r" and "n \<le> length d" and "limit + 16 \<le> n"
  shows "macho_walk d limit c k found = Inr r"
  using assms
proof (induction k arbitrary: c found)
  case (Suc k)
  then have c: "c + 8 \<le> n" by (auto simp: min_def split: if_split_asm)
  from Suc.prems(1) c have w: "\<not> (u32 LE d (c + 4) < 8 \<or> c + u32 LE d (c + 4) > limit)" by (auto simp: fld_take Let_def)
  from Suc.prems(1) c obtain f where f: "macho_walk (take n d) limit (c + u32 LE d (c + 4)) k f = Inr r"
    and g: "(if u32 LE d c = LC_UUID then Inr (Some (uuid_text (slice (take n d) (c + 8) 16)), snd found)
        else if u32 LE d c = LC_SEGMENT_64
        then bindE (room (take n d) (c + 8) 64) (\<lambda>_.
             bindE (section_walk (take n d) (c + 72) (u32 LE (take n d) (c + 64)) (snd found)) (\<lambda>text. Inr (fst found, text)))
        else Inr found) = Inr f" by (auto simp: fld_take Let_def split: if_split_asm)
  have "(if u32 LE d c = LC_UUID then Inr (Some (uuid_text (slice d (c + 8) 16)), snd found)
        else if u32 LE d c = LC_SEGMENT_64
        then bindE (room d (c + 8) 64) (\<lambda>_.
             bindE (section_walk d (c + 72) (u32 LE d (c + 64)) (snd found)) (\<lambda>text. Inr (fst found, text)))
        else Inr found) = Inr f"
  proof (cases "u32 LE d c = LC_UUID")
    case True
    have "slice (take n d) (c + 8) 16 = slice d (c + 8) 16" by (rule slice_take) (use w Suc.prems(3) in simp)
    with True g show ?thesis by simp
  next
    case False
    show ?thesis
    proof (cases "u32 LE d c = LC_SEGMENT_64")
      case True
      with g False have "c + 72 \<le> n" by (auto simp: min_def split: if_split_asm)
      with g False True section_walk_prefix [OF _ Suc.prems(2)] Suc.prems(2) show ?thesis by (auto simp: fld_take)
    qed (use g False in simp)
  qed
  with Suc.IH [OF f Suc.prems(2,3)] c w Suc.prems(2) show ?case by (simp add: Let_def)
qed simp

definition header_before_text :: "bytes \<Rightarrow> string \<Rightarrow> text_section \<Rightarrow> bool" where
  "header_before_text d uuid T \<longleftrightarrow> 48 + u32 LE d 20 \<le> ts_offset T \<and> ts_offset T \<le> length d \<and>
     macho_walk (take (ts_offset T) d) (32 + u32 LE d 20) 32 (u32 LE d 16) (None, None) = Inr (Some uuid, Some T)"

lemma same_header_parse:
  assumes h: "header_before_text d uuid T" and p: "parse_macho d = Inr (uuid, T)"
    and same: "take (ts_offset T) d' = take (ts_offset T) d" and len: "length d' = length d"
  shows "parse_macho d' = Inr (uuid, T)"
proof -
  let ?n = "ts_offset T"
  from h have n: "48 \<le> ?n" "48 + u32 LE d 20 \<le> ?n" "?n \<le> length d" by (simp_all add: header_before_text_def)
  have f: "u32 LE d' i = u32 LE d i" if "i + 4 \<le> ?n" for i
    using fld_take [OF that, of LE d] fld_take [OF that, of LE d'] same by simp
  have e: "u32 LE d' 0 = u32 LE d 0" "u32 LE d' 16 = u32 LE d 16" "u32 LE d' 20 = u32 LE d 20" using n by (auto intro: f)
  have "macho_walk (take ?n d') (32 + u32 LE d 20) 32 (u32 LE d 16) (None, None) = Inr (Some uuid, Some T)"
    using h same by (simp add: header_before_text_def)
  from macho_walk_prefix [OF this] n len have
    "macho_walk d' (32 + u32 LE d 20) 32 (u32 LE d 16) (None, None) = Inr (Some uuid, Some T)" by simp
  with p e len n show ?thesis by (auto simp: parse_macho_def split: if_split_asm)
qed

lemma profile_by_uuid:
  assumes "distinct (map sp_uuid profiles)" and "P \<in> set profiles"
  shows "profile_for_uuid profiles (sp_uuid P) = Inr P"
proof -
  have "List.find (\<lambda>p. sp_uuid P = sp_uuid p) profiles = Some P"
    using assms by (induction profiles) (auto simp: image_iff dest: sym)
  then show ?thesis by (simp add: profile_for_uuid_def)
qed

lemma checks_pass: "(\<And>x. x \<in> set xs \<Longrightarrow> f x () = Inr ()) \<Longrightarrow> foldE f xs () = Inr ()"
  by (induction xs) auto

definition profile_ok :: "steam_profile \<Rightarrow> text_section \<Rightarrow> bool" where
  "profile_ok P T \<longleftrightarrow> distinct (sp_sizes P @ sp_masks P) \<and>
     (\<forall>p \<in> set (sp_sizes P @ sp_masks P). ts_offset T \<le> p \<and> p mod 4 = ts_offset T mod 4)"

lemma profile_sites:
  assumes "profile_ok P T"
  shows "apart 4 (map id (sort (sp_sizes P)))" and "apart 4 (map id (sort (sp_masks P)))"
    and "p \<in> set (sp_sizes P) \<Longrightarrow> q \<in> set (sp_masks P) \<Longrightarrow> p + 4 \<le> q \<or> q + 4 \<le> p"
proof -
  show "apart 4 (map id (sort (sp_sizes P)))" "apart 4 (map id (sort (sp_masks P)))"
    unfolding list.map_id using assms by (auto intro!: apart_words simp: profile_ok_def)
  assume pq: "p \<in> set (sp_sizes P)" "q \<in> set (sp_masks P)"
  have "apart 4 [p, q]" using assms pq by (intro apart_words [where r = "ts_offset T mod 4"]) (auto simp: profile_ok_def)
  then show "p + 4 \<le> q \<or> q + 4 \<le> p" by (simp add: apart_def)
qed

lemma size_pass_exact:
  assumes "foldE size_site ps d = Inr d'" and "apart 4 (map id ps)" and "p \<in> set ps"
  shows "p + 4 \<le> length d" and "decode_move_wide (word_at d' p) = Some NEW_POOL_SIZE"
proof -
  from pool_size_sites.pass_each [OF assms] obtain s t where st: "size_site p s = Inr t" "length s = length d"
    "slice d' p 4 = slice t p 4" by auto
  from st(1) obtain w where w: "p + 4 \<le> length s" "decode_move_wide (word_at s p) = Some POOL_SIZE"
    "rewrite_move_wide (word_at s p) NEW_POOL_SIZE = Inr w" "t = put LE 4 s p (unat w)" by (auto simp: size_site_def)
  show "p + 4 \<le> length d" using w st(2) by simp
  have "word_at d' p = w" using word_at_cong [OF st(3)] w by simp
  then show "decode_move_wide (word_at d' p) = Some NEW_POOL_SIZE" using rewrite_move_decodes [OF w(3,2)] by simp
qed

lemma materialization_pass_exact:
  assumes "foldE mask_materialization ps d = Inr d'" and "apart 4 (map id ps)" and "p \<in> set ps"
  shows "p + 4 \<le> length d" and "is_materialization NEW_POOL_BASE_MASK (word_at d' p)"
proof -
  from pool_mask_sites.pass_each [OF assms] obtain s t where st: "mask_materialization p s = Inr t" "length s = length d"
    "slice d' p 4 = slice t p 4" by auto
  from st(1) obtain w where w: "p + 4 \<le> length s" "is_materialization OLD_POOL_BASE_MASK (word_at s p)"
    "rewrite_logical_immediate (word_at s p) NEW_POOL_BASE_MASK = Inr w" "t = put LE 4 s p (unat w)"
    by (auto simp: mask_materialization_def)
  show "p + 4 \<le> length d" using w st(2) by simp
  have "OLD_POOL_BASE_MASK AND NOT (mask 32) \<noteq> 0" by (simp add: OLD_POOL_BASE_MASK_def mask_eq_exp_minus_1)
  with rewritten_wide [OF w(3), of OLD_POOL_BASE_MASK] w(2) have "is_materialization NEW_POOL_BASE_MASK w"
    by (simp add: is_materialization_def)
  then show "is_materialization NEW_POOL_BASE_MASK (word_at d' p)" using word_at_cong [OF st(3)] w by simp
qed

text \<open>
  C22: What the Steam port writes, its own verifier accepts: the verifier finds the profile the input
  hash selected, the hash of the ported text and every pool size and mask of the smaller geometry.
\<close>

theorem steam_port_verified:
  assumes run: "steam_patch profiles expected sha d = Inr out" and parsed: "parse_macho d = Inr (uuid, T)"
    and profile: "profile_for_input_hash profiles (sha d) = Inr P" and ids: "distinct (map sp_uuid profiles)"
    and ok: "profile_ok P T" and header: "header_before_text d uuid T"
  shows "verify_patched profiles sha out = Inr P \<and> length out = length d \<and>
    sha (slice out (ts_offset T) (ts_size T)) = sp_text P"
proof -
  from run parsed profile obtain k d1 d2 where uuid: "uuid = sp_uuid P" and at: "ts_address T = ts_offset T"
    and m: "foldE steam_step (text_words T) (d, 0) = Inr (d1, k)" and s: "foldE size_site (sort (sp_sizes P)) d1 = Inr d2"
    and f: "foldE mask_materialization (sort (sp_masks P)) d2 = Inr out"
    and hash: "sha (slice out (ts_offset T) (ts_size T)) = sp_text P" by (auto simp: steam_patch_def)
  have len: "length out = length d"
    using steam_sites.pass_len [OF m] pool_size_sites.pass_len [OF s] pool_mask_sites.pass_len [OF f] by simp
  have above: "ts_offset T \<le> p" if "p \<in> set (text_words T) \<union> set (sp_sizes P) \<union> set (sp_masks P)" for p
    using that ok by (auto simp: profile_ok_def text_words_def)
  have "slice out 0 (ts_offset T) = slice d2 0 (ts_offset T)"
    using pool_mask_sites.pass_frame [OF f, of 0 "ts_offset T"] above by simp
  also have "\<dots> = slice d1 0 (ts_offset T)" using pool_size_sites.pass_frame [OF s, of 0 "ts_offset T"] above by simp
  also have "\<dots> = slice d 0 (ts_offset T)" using steam_sites.pass_frame [OF m, of 0 "ts_offset T"] above by simp
  finally have parsed': "parse_macho out = Inr (uuid, T)"
    by (intro same_header_parse [OF header parsed]) (simp_all add: slice_def len)
  have mem: "P \<in> set profiles"
    using profile by (auto simp: profile_for_input_hash_def split: option.splits dest: find_SomeD)
  have sizes: "verify_size out p () = Inr ()" if p: "p \<in> set (sp_sizes P)" for p
  proof -
    note e = size_pass_exact [OF s profile_sites(1) [OF ok], of p]
    have "slice out p 4 = slice d2 p 4"
      using pool_mask_sites.pass_frame [OF f, of p 4] profile_sites(3) [OF ok p] by simp
    from word_at_cong [OF this] e p len steam_sites.pass_len [OF m] show ?thesis by (simp add: verify_size_def room_def)
  qed
  have masks: "verify_mask out p () = Inr ()" if "p \<in> set (sp_masks P)" for p
    using materialization_pass_exact [OF f profile_sites(2) [OF ok], of p] that len steam_sites.pass_len [OF m]
      pool_size_sites.pass_len [OF s] by (simp add: verify_mask_def room_def)
  have "foldE (verify_size out) (sort (sp_sizes P)) () = Inr ()" "foldE (verify_mask out) (sort (sp_masks P)) () = Inr ()"
    using sizes masks by (auto intro: checks_pass)
  then show ?thesis
    using parsed' profile_by_uuid [OF ids mem] uuid at hash len by (simp add: verify_patched_def)
qed

subsection \<open>A small framework\<close>

text \<open>A profile for the sample image, with the digest of a text section standing for SHA-256.\<close>

definition sample_port_profile :: "string \<Rightarrow> string \<Rightarrow> steam_profile" where
  "sample_port_profile input digest = \<lparr>sp_uuid = ''00010203-0405-0607-0809-0a0b0c0d0e0f'', sp_inputs = [input], sp_text = digest,
     sp_sizes = [228], sp_masks = [236]\<rparr>"

lemma sample_port_header: "header_before_text sample_port_image ''00010203-0405-0607-0809-0a0b0c0d0e0f'' sample_port_text"
proof -
  let ?d = "take 224 sample_port_image"
  have len: "length sample_port_image = 240" by (rule sample_port_words)
  have h: "u32 LE ?d 32 = LC_UUID" "u32 LE ?d 36 = 24" "u32 LE ?d 56 = LC_SEGMENT_64" "u32 LE ?d 60 = 152" "u32 LE ?d 120 = 1"
    "u64 LE ?d 160 = 224" "u64 LE ?d 168 = 16" "u32 LE ?d 176 = 224"
    "u32 LE sample_port_image 16 = 2" "u32 LE sample_port_image 20 = 176"
    by (simp_all add: fld_take) (simp_all add: sample_port_image_def fld_def slice_def dec_def LC_UUID_def LC_SEGMENT_64_def)
  have n: "until_nul (slice ?d 144 16) = encode_str ''__TEXT''" "until_nul (slice ?d 128 16) = encode_str ''__text''"
    by (simp_all add: slice_take) (simp_all add: sample_port_image_def slice_def until_nul_def encode_str_def)
  have uuid: "uuid_text (slice ?d 40 16) = ''00010203-0405-0607-0809-0a0b0c0d0e0f''"
    by (simp add: slice_take) (simp add: sample_port_image_def slice_def uuid_text_def hex_def hex_byte_def hex_digits_def)
  have "section_walk ?d 128 1 None = Inr (Some sample_port_text)"
    using n h len by (simp add: sample_port_text_def room_def)
  then have "macho_walk ?d 208 32 2 (None, None) =
      Inr (Some ''00010203-0405-0607-0809-0a0b0c0d0e0f'', Some sample_port_text)"
    using h len uuid by (simp add: room_def LC_UUID_def LC_SEGMENT_64_def numeral_2_eq_2)
  with h len show ?thesis by (simp add: header_before_text_def sample_port_text_def)
qed

lemma sample_port_steam: "\<exists>digest. \<exists>out. steam_patch [sample_port_profile (hex sample_port_image) digest] 1 hex sample_port_image = Inr out"
proof -
  obtain a where a: "rewrite_logical_immediate 0x925e7420 NEW_POOL_BASE_MASK = Inr a"
    unfolding NEW_POOL_BASE_MASK_def using encodable_rewrite pool_masks_encodable(1) by blast
  obtain b where b: "rewrite_logical_immediate 0xb25e77e3 NEW_POOL_BASE_MASK = Inr b"
    unfolding NEW_POOL_BASE_MASK_def using encodable_rewrite pool_masks_encodable(1) by blast
  obtain c where c: "rewrite_move_wide 0xd2c00088 NEW_POOL_SIZE = Inr c"
    using movable_rewrite movable_values(2) by (auto simp: NEW_POOL_SIZE_def)
  have words: "text_words sample_port_text = [224, 228, 232, 236]" by (simp add: text_words_def sample_port_text_def upt_rec)
  define d1 where "d1 = put LE 4 sample_port_image 224 (unat a)"
  define d2 where "d2 = put LE 4 d1 228 (unat c)"
  define d3 where "d3 = put LE 4 d2 236 (unat b)"
  note vals = OLD_POOL_BASE_MASK_def POOL_SIZE_def
  have masks: "foldE steam_step (text_words sample_port_text) (sample_port_image, 0) = Inr (d1, 1)"
    unfolding words using a by (simp add: steam_step_def room_def sample_port_words sample_port_decoded word_at_other d1_def vals)
  have len: "length d1 = 240" "length d2 = 240" by (simp_all add: d1_def d2_def sample_port_words)
  have w: "word_at d1 228 = 0xd2c00088" "word_at d2 236 = 0xb25e77e3"
    using len by (simp_all add: d1_def d2_def word_at_other sample_port_words)
  have size: "size_site 228 d1 = Inr d2" using c by (simp add: size_site_def room_def len w sample_port_decoded vals d2_def)
  have mat: "mask_materialization 236 d2 = Inr d3"
    using b by (simp add: mask_materialization_def is_materialization_def room_def len w sample_port_decoded vals d3_def)
  have "steam_patch [sample_port_profile (hex sample_port_image) (hex (slice d3 224 16))] 1 hex sample_port_image = Inr d3"
    using sample_port_parsed masks size mat
    by (simp add: steam_patch_def profile_for_input_hash_def sample_port_profile_def) (simp add: sample_port_text_def)
  then show ?thesis by blast
qed

theorem steam_port_verified_witness:
  "\<exists>P out. steam_patch [P] 1 hex sample_port_image = Inr out \<and> verify_patched [P] hex out = Inr P"
proof -
  from sample_port_steam obtain digest out where run: "steam_patch [sample_port_profile (hex sample_port_image) digest] 1 hex sample_port_image = Inr out" by blast
  have "profile_for_input_hash [sample_port_profile (hex sample_port_image) digest] (hex sample_port_image) = Inr (sample_port_profile (hex sample_port_image) digest)"
    by (simp add: profile_for_input_hash_def sample_port_profile_def)
  moreover have "profile_ok (sample_port_profile (hex sample_port_image) digest) sample_port_text"
    by (simp add: profile_ok_def sample_port_profile_def sample_port_text_def)
  ultimately show ?thesis using steam_port_verified [OF run sample_port_parsed _ _ _ sample_port_header] run by auto
qed

end
