(* ===== verification/Watchdog.thy ===== *)
theory Watchdog
  imports Complex_Main ManagedJobs
begin

text \<open>
  \<^verbatim>\<open>DevinWatchdog_mac/devin_iterm_watch.py\<close>: the loop that watches terminal sessions and types a
  message into those that stopped.  Times are real numbers on one wall clock; what the terminal
  shows, how long its calls take and whether they raise are inputs of a visit.  Text is ASCII and
  the patterns, which the source matches without case, are matched on lower-case text.
\<close>

subsection \<open>What the screen says\<close>

definition lower_char :: "char \<Rightarrow> char" where
  "lower_char c = (let n = of_char c :: nat in if 65 \<le> n \<and> n \<le> 90 then char_of (n + 32) else c)"

definition lower_ascii :: "string \<Rightarrow> string" where
  "lower_ascii s = map lower_char s"

definition word_char :: "char \<Rightarrow> bool" where
  "word_char c \<longleftrightarrow> (let n = of_char c :: nat in
     (48 \<le> n \<and> n \<le> 57) \<or> (65 \<le> n \<and> n \<le> 90) \<or> (97 \<le> n \<and> n \<le> 122) \<or> n = 95)"

text \<open>\<open>rate[ \-_]*limit\<close>\<close>

fun says_rate_limit :: "string \<Rightarrow> bool" where
  "says_rate_limit [] = False"
| "says_rate_limit (c # s) =
     (starts ''rate'' (c # s) \<and> starts ''limit'' (dropWhile (\<lambda>c. c \<in> set '' -_'') (drop 4 (c # s))) \<or> says_rate_limit s)"

text \<open>\<open>\b429\b\<close>, with whether the character before the text belongs to a word.\<close>

fun says_429 :: "bool \<Rightarrow> string \<Rightarrow> bool" where
  "says_429 inside [] = False"
| "says_429 inside (c # s) =
     (\<not> inside \<and> starts ''429'' (c # s) \<and> (drop 2 s = [] \<or> \<not> word_char (hd (drop 2 s))) \<or> says_429 (word_char c) s)"

definition RATE_LIMIT_TEXTS :: "string list" where
  "RATE_LIMIT_TEXTS = [''reached free model rate limit'', ''limit will reset in'', ''send a message to retry'',
     ''upgrade to max for higher limits'', ''too many requests'']"

definition tail_has_rate_limit :: "string \<Rightarrow> bool" where
  "tail_has_rate_limit text \<longleftrightarrow>
     (let t = lower_ascii text in list_ex (\<lambda>p. contains p t) RATE_LIMIT_TEXTS \<or> says_rate_limit t \<or> says_429 False t)"

definition WORKING_MARKERS :: "string list" where
  "WORKING_MARKERS = [''esc twice to interrupt'']"

definition IDLE_PROMPT_MARKERS :: "string list" where
  "IDLE_PROMPT_MARKERS = [''ask devin to build features'']"

definition is_working :: "string \<Rightarrow> bool" where
  "is_working text \<longleftrightarrow> list_ex (\<lambda>m. contains m (lower_ascii text)) WORKING_MARKERS"

definition at_idle_prompt :: "string list \<Rightarrow> string \<Rightarrow> bool" where
  "at_idle_prompt extra text \<longleftrightarrow>
     list_ex (\<lambda>m. contains m (lower_ascii text)) IDLE_PROMPT_MARKERS \<or> list_ex (\<lambda>m. contains (lower_ascii m) (lower_ascii text)) extra"

text \<open>\<open>reset in\s+(\d+)\s*(minute|minutes|min|second|seconds|sec|s\b)\<close>; the unit is true for minutes.\<close>

definition wait_unit :: "string \<Rightarrow> bool option" where
  "wait_unit s =
     (if starts ''min'' s then Some True
      else if starts ''sec'' s then Some False
      else if starts ''s'' s \<and> (tl s = [] \<or> \<not> word_char (hd (tl s))) then Some False else None)"

definition reset_here :: "string \<Rightarrow> (nat \<times> bool) option" where
  "reset_here s =
     (let r = drop 8 s; d = dropWhile is_space r; digits = takeWhile decimal_digit d in
      if starts ''reset in'' s \<and> r \<noteq> [] \<and> is_space (hd r) \<and> digits \<noteq> []
      then (case wait_unit (dropWhile is_space (drop (length digits) d)) of
              None \<Rightarrow> None | Some m \<Rightarrow> Some (read_decimal digits, m))
      else None)"

fun find_reset :: "string \<Rightarrow> (nat \<times> bool) option" where
  "find_reset [] = None"
| "find_reset (c # s) = (case reset_here (c # s) of Some x \<Rightarrow> Some x | None \<Rightarrow> find_reset s)"

text \<open>\<open>draw\<close> is what \<open>random.uniform(0, jitter)\<close> returns.\<close>

definition parse_wait :: "string \<Rightarrow> real \<Rightarrow> real \<Rightarrow> real \<Rightarrow> real" where
  "parse_wait text base_wait margin draw =
     (if base_wait \<le> 0 then 0
      else
      let wait = (case find_reset (lower_ascii text) of
          Some (n, minutes) \<Rightarrow> (if minutes then of_nat n * 60 else of_nat n) + margin
        | None \<Rightarrow> base_wait)
      in wait + (if wait > 0 then draw else 0))"

text \<open>\<open>s.replace("\\r", "\r")\<close> and its like: two characters become one.\<close>

fun replace_pair :: "char \<Rightarrow> char \<Rightarrow> char \<Rightarrow> string \<Rightarrow> string" where
  "replace_pair a b c (x # y # s) = (if x = a \<and> y = b then c # replace_pair a b c s else x # replace_pair a b c (y # s))"
| "replace_pair a b c s = s"

definition BACKSLASH :: char where "BACKSLASH = char_of (92 :: nat)"

definition decode_key :: "string \<Rightarrow> string" where
  "decode_key s = replace_pair BACKSLASH CHR ''t'' (char_of (9 :: nat))
     (replace_pair BACKSLASH CHR ''n'' (char_of (10 :: nat)) (replace_pair BACKSLASH CHR ''r'' (char_of (13 :: nat)) s))"

subsection \<open>Sessions\<close>

record terminal =
  te_id :: string
  te_name :: string
  te_job :: string
  te_command :: string

fun join_with :: "string \<Rightarrow> string list \<Rightarrow> string" where
  "join_with sep [] = []"
| "join_with sep [x] = x"
| "join_with sep (x # y # xs) = x @ sep @ join_with sep (y # xs)"

text \<open>\<open>search\<close> is \<open>re.search\<close> with the pattern and case given on the command line.\<close>

definition looks_like_devin :: "(string \<Rightarrow> bool) \<Rightarrow> terminal \<Rightarrow> bool" where
  "looks_like_devin search t =
     search (join_with '' '' (filter (\<lambda>x. x \<noteq> []) [te_name t, te_job t, te_command t]))"

definition discover_sessions :: "(string \<Rightarrow> bool) \<Rightarrow> string list \<Rightarrow> bool \<Rightarrow> terminal list \<Rightarrow> terminal list" where
  "discover_sessions search explicit watch_all ts =
     filter (\<lambda>t. if explicit \<noteq> [] then te_id t \<in> set explicit else watch_all \<or> looks_like_devin search t) ts"

definition rstrip :: "string \<Rightarrow> string" where
  "rstrip s = rev (dropWhile is_space (rev s))"

text \<open>The last \<open>max_lines\<close> lines of the screen, joined; zero means all of them.\<close>

definition tail_text :: "nat \<Rightarrow> string list \<Rightarrow> string" where
  "tail_text max_lines raw =
     (let lines = map rstrip raw in
      join_with [char_of (10 :: nat)] (if max_lines > 0 then drop (length lines - max_lines) lines else lines))"

subsection \<open>The watch loop\<close>

record watch_args =
  wa_lines :: nat
  wa_wait :: real
  wa_margin :: real
  wa_text :: string
  wa_enter_delay :: real
  wa_enter_key :: string
  wa_interval :: real
  wa_cooldown :: real
  wa_auto :: bool
  wa_idle :: bool
  wa_idle_seconds :: real
  wa_idle_markers :: "string list"
  wa_dry_run :: bool
  wa_once :: bool

text \<open>\<open>main\<close>: without \<open>--auto-continue\<close> the loop only watches.\<close>

definition effective :: "watch_args \<Rightarrow> watch_args" where
  "effective A = (if wa_auto A then A else A\<lparr>wa_dry_run := True\<rparr>)"

record session_state =
  ss_hash :: "int option"
  ss_since :: real
  ss_last :: real

record watch_state =
  ws_clock :: real
  ws_seen :: "(int \<times> (string \<times> real)) list"
  ws_sessions :: "(string \<times> session_state) list"

text \<open>
  What one visit of a session meets: the time until the screen has been read, the screen, the random
  draw, how late the wait ends, the screen after it, whether the two sends succeed and how long they take.
\<close>

record session_visit =
  vi_session :: string
  vi_delay :: real
  vi_screen :: "string list option"
  vi_draw :: real
  vi_late :: real
  vi_recheck :: "string list option"
  vi_sent :: "bool \<times> bool"
  vi_typing :: real

datatype event =
    Looked string string real
  | Typed string string
  | Injected string real
  | Rechecked string string real

definition log_events :: "event list \<Rightarrow> watch_state \<times> event list \<Rightarrow> watch_state \<times> event list" where
  "log_events ev x = (fst x, ev @ snd x)"

text \<open>\<open>_inject\<close> with \<open>send_message\<close>: the body, a pause, then the key on its own.\<close>

definition inject :: "watch_args \<Rightarrow> session_visit \<Rightarrow> watch_state \<Rightarrow> watch_state \<times> event list" where
  "inject A v s =
     (if \<not> wa_auto A then (s, [])
      else
      let sid = vi_session v;
          body = (if wa_text A \<noteq> [] then [Typed sid (wa_text A)] else []);
          t = ws_clock s + max (wa_enter_delay A) 0;
          now = t + vi_typing v
      in if wa_text A \<noteq> [] \<and> \<not> fst (vi_sent v) then (s, body)
         else if \<not> snd (vi_sent v) then (s\<lparr>ws_clock := t\<rparr>, body @ [Typed sid (decode_key (wa_enter_key A))])
         else (s\<lparr>ws_clock := now, ws_sessions := py_set (ws_sessions s) sid \<lparr>ss_hash = None, ss_since = now, ss_last = now\<rparr>\<rparr>,
               body @ [Typed sid (decode_key (wa_enter_key A)), Injected sid now]))"

definition session_of :: "watch_state \<Rightarrow> real \<Rightarrow> string \<Rightarrow> session_state" where
  "session_of s now sid =
     (case map_of (ws_sessions s) sid of None \<Rightarrow> \<lparr>ss_hash = None, ss_since = now, ss_last = 0\<rparr> | Some x \<Rightarrow> x)"

definition observe :: "real \<Rightarrow> int \<Rightarrow> session_state \<Rightarrow> session_state" where
  "observe now k x = (if ss_hash x \<noteq> Some k then x\<lparr>ss_hash := Some k, ss_since := now\<rparr> else x)"

text \<open>The branch for a rate limit; \<open>s\<close> already holds the observed session.\<close>

definition limited_step :: "watch_args \<Rightarrow> real \<Rightarrow> session_visit \<Rightarrow> string \<Rightarrow> int \<Rightarrow> session_state \<Rightarrow> watch_state \<Rightarrow> watch_state \<times> event list" where
  "limited_step A now v tail k x s =
     (if (case map_of (ws_seen s) k of None \<Rightarrow> False | Some (_, t) \<Rightarrow> now - t < 60) then (s, [])
      else
      let s = s\<lparr>ws_seen := py_set (ws_seen s) k (vi_session v, now)\<rparr>;
          wait = parse_wait tail (wa_wait A) (wa_margin A) (vi_draw v)
      in if now - ss_last x < wa_cooldown A then (s, [])
         else if wa_dry_run A then (s, [])
         else
         let s = (if wait > 0 then s\<lparr>ws_clock := ws_clock s + wait + vi_late v\<rparr> else s)
         in case vi_recheck v of
              None \<Rightarrow> inject A v s
            | Some raw \<Rightarrow>
                let again = tail_text (wa_lines A) raw
                in log_events [Rechecked (vi_session v) again (ws_clock s)]
                     (if \<not> tail_has_rate_limit again then (s, []) else inject A v s))"

definition idle_step :: "watch_args \<Rightarrow> real \<Rightarrow> session_visit \<Rightarrow> session_state \<Rightarrow> watch_state \<Rightarrow> watch_state \<times> event list" where
  "idle_step A now v x s =
     (if now - ss_since x < wa_idle_seconds A then (s, [])
      else if now - ss_last x < wa_cooldown A then (s, [])
      else if wa_dry_run A then (s, [])
      else inject A v s)"

text \<open>\<open>key\<close> is the hash of the screen text.\<close>

definition visit_step :: "watch_args \<Rightarrow> (string \<Rightarrow> int) \<Rightarrow> real \<Rightarrow> session_visit \<Rightarrow> watch_state \<Rightarrow> watch_state \<times> event list" where
  "visit_step A key now v s =
     (let s = s\<lparr>ws_clock := ws_clock s + vi_delay v\<rparr> in
      case vi_screen v of
        None \<Rightarrow> (s, [])
      | Some raw \<Rightarrow>
        let tail = tail_text (wa_lines A) raw; sid = vi_session v;
            x = observe now (key tail) (session_of s now sid);
            s = s\<lparr>ws_sessions := py_set (ws_sessions s) sid x\<rparr>
        in log_events [Looked sid tail (ws_clock s)]
             (if is_working tail then (s, [])
              else if tail_has_rate_limit tail then limited_step A now v tail (key tail) x s
              else if wa_idle A \<and> at_idle_prompt (wa_idle_markers A) tail then idle_step A now v x s
              else (s, [])))"

fun visits_run :: "watch_args \<Rightarrow> (string \<Rightarrow> int) \<Rightarrow> real \<Rightarrow> session_visit list \<Rightarrow> watch_state \<Rightarrow> watch_state \<times> event list" where
  "visits_run A key now [] s = (s, [])"
| "visits_run A key now (v # vs) s =
     (let x = visit_step A key now v s in log_events (snd x) (visits_run A key now vs (fst x)))"

text \<open>
  A round: the pause before it (none before the first), some more time, and the visits of the sessions
  found, or nothing when the application cannot be reached.
\<close>

fun watch_run :: "watch_args \<Rightarrow> (string \<Rightarrow> int) \<Rightarrow> bool \<Rightarrow> (real \<times> session_visit list option) list \<Rightarrow> watch_state \<Rightarrow> watch_state \<times> event list" where
  "watch_run A key first [] s = (s, [])"
| "watch_run A key first ((gap, vs) # rounds) s =
     (let s = s\<lparr>ws_clock := ws_clock s + (if first then 0 else max (wa_interval A) 1) + gap\<rparr>;
          x = (case vs of None \<Rightarrow> (s, []) | Some vs \<Rightarrow> visits_run A key (ws_clock s) vs s)
      in if wa_once A \<and> vs \<noteq> None then x else log_events (snd x) (watch_run A key False rounds (fst x)))"

definition run_watch :: "watch_args \<Rightarrow> (string \<Rightarrow> int) \<Rightarrow> (real \<times> session_visit list option) list \<Rightarrow> real \<Rightarrow> watch_state \<times> event list" where
  "run_watch A key rounds start =
     watch_run (effective A) key True rounds \<lparr>ws_clock = start, ws_seen = [], ws_sessions = []\<rparr>"

subsection \<open>When the loop types\<close>

fun event_session :: "event \<Rightarrow> string" where
  "event_session (Looked sid _ _) = sid"
| "event_session (Typed sid _) = sid"
| "event_session (Injected sid _) = sid"
| "event_session (Rechecked sid _ _) = sid"

text \<open>A visit begins with a look, and reads the screen once more after the wait for a rate limit.\<close>

fun is_look :: "event \<Rightarrow> bool" where
  "is_look (Looked _ _ _) = True"
| "is_look (Rechecked _ _ _) = True"
| "is_look _ = False"

text \<open>The times at which a message was completed in a session.\<close>

fun injections :: "string \<Rightarrow> event list \<Rightarrow> real list" where
  "injections sid [] = []"
| "injections sid (Injected s t # ev) = (if s = sid then t # injections sid ev else injections sid ev)"
| "injections sid (_ # ev) = injections sid ev"

definition acts :: "event list \<Rightarrow> bool" where
  "acts ev \<longleftrightarrow> list_ex (\<lambda>e. \<not> is_look e) ev"

definition stopped :: "watch_args \<Rightarrow> string \<Rightarrow> bool" where
  "stopped A tail \<longleftrightarrow> \<not> is_working tail \<and> (tail_has_rate_limit tail \<or> wa_idle A \<and> at_idle_prompt (wa_idle_markers A) tail)"

text \<open>
  \<open>ls\<close> are the looks before a send, the latest first: the latest one is the look at this session that
  began the visit, and its screen had stopped; or it is the second look of a visit that began with a
  rate-limited screen, and still shows the rate limit.
\<close>

definition may_type :: "watch_args \<Rightarrow> string \<Rightarrow> event list \<Rightarrow> bool" where
  "may_type A sid ls \<longleftrightarrow>
     (\<exists>tail c ms. ls = Looked sid tail c # ms \<and> stopped A tail) \<or>
     (\<exists>again c' tail c ms. ls = Rechecked sid again c' # Looked sid tail c # ms \<and>
        \<not> is_working tail \<and> tail_has_rate_limit tail \<and> tail_has_rate_limit again)"

definition typed_after_look :: "watch_args \<Rightarrow> event list \<Rightarrow> bool" where
  "typed_after_look A ev \<longleftrightarrow>
     (\<forall>before sid msg after. ev = before @ Typed sid msg # after \<longrightarrow> may_type A sid (rev (filter is_look before)))"

definition calm_visit :: "session_visit \<Rightarrow> bool" where
  "calm_visit v \<longleftrightarrow> 0 \<le> vi_delay v \<and> 0 \<le> vi_late v \<and> 0 \<le> vi_typing v"

definition calm_round :: "real \<times> session_visit list option \<Rightarrow> bool" where
  "calm_round r \<longleftrightarrow> 0 \<le> fst r \<and> (\<forall>vs. snd r = Some vs \<longrightarrow> list_all calm_visit vs)"

definition last_of :: "watch_state \<Rightarrow> string \<Rightarrow> real" where
  "last_of s sid = ss_last (session_of s 0 sid)"

lemma log_events_simps [simp]:
  "fst (log_events ev x) = fst x" "snd (log_events ev x) = ev @ snd x" "log_events [] x = x"
  by (simp_all add: log_events_def)

lemma injections_append [simp]: "injections sid (xs @ ys) = injections sid xs @ injections sid ys"
  by (induction sid xs rule: injections.induct) auto

lemma acts_simps [simp]: "\<not> acts []" "acts (xs @ ys) \<longleftrightarrow> acts xs \<or> acts ys" "acts (Looked a b c # xs) \<longleftrightarrow> acts xs"
  "acts (Rechecked a b c # xs) \<longleftrightarrow> acts xs"
  "acts (Typed a b # xs)" "acts (Injected a d # xs)"
  by (auto simp: acts_def)

text \<open>
  What an injecting step does to one session's clock, last message and trace, when it starts no
  earlier than \<open>now\<close> and only types after the cooldown.
\<close>

definition paced_step :: "watch_args \<Rightarrow> real \<Rightarrow> string \<Rightarrow> watch_state \<Rightarrow> watch_state \<times> event list \<Rightarrow> bool" where
  "paced_step A now sid s x \<longleftrightarrow> ws_clock s \<le> ws_clock (fst x) \<and>
     (injections sid (snd x) = [] \<and> last_of (fst x) sid = last_of s sid \<or>
      (\<exists>t. injections sid (snd x) = [t] \<and> last_of (fst x) sid = t \<and> last_of s sid + wa_cooldown A \<le> t))"

lemma paced_stay [simp]:
  "paced_step A now sid s (s, [])" "paced_step A now sid s (s, [Looked a b c])"
  by (simp_all add: paced_step_def)

lemma paced_log [simp]:
  "paced_step A now sid s (log_events [Looked a b c] x) \<longleftrightarrow> paced_step A now sid s x"
  "paced_step A now sid s (log_events [Rechecked a b c] x) \<longleftrightarrow> paced_step A now sid s x"
  by (simp_all add: paced_step_def)

lemma paced_inject:
  assumes "calm_visit v" and "sid = vi_session v \<Longrightarrow> last_of s sid + wa_cooldown A \<le> ws_clock s"
  shows "paced_step A now sid s (inject A v s)"
  using assms
  by (auto simp: paced_step_def inject_def Let_def calm_visit_def last_of_def session_of_def)

lemma paced_later:
  assumes "paced_step A now sid (f s) x" and "ws_clock s \<le> ws_clock (f s)" and "last_of (f s) sid = last_of s sid"
  shows "paced_step A now sid s x"
  using assms by (auto simp: paced_step_def)

lemma last_of_simps [simp]:
  "last_of (s\<lparr>ws_clock := c\<rparr>) sid = last_of s sid" "last_of (s\<lparr>ws_seen := q\<rparr>) sid = last_of s sid"
  "last_of (s\<lparr>ws_sessions := py_set (ws_sessions s) k x\<rparr>) sid = (if sid = k then ss_last x else last_of s sid)"
  by (simp_all add: last_of_def session_of_def)

lemma last_observe [simp]: "ss_last (observe now k (session_of s now sid)) = last_of s sid"
  by (simp add: observe_def session_of_def last_of_def split: option.splits)

lemma paced_limited:
  assumes v: "calm_visit v" and now: "now \<le> ws_clock s" and last: "last_of s (vi_session v) = ss_last x"
  shows "paced_step A now sid s (limited_step A now v tail k x s)"
proof -
  define s1 where "s1 = s\<lparr>ws_seen := py_set (ws_seen s) k (vi_session v, now)\<rparr>"
  define wait where "wait = parse_wait tail (wa_wait A) (wa_margin A) (vi_draw v)"
  define s2 where "s2 = (if wait > 0 then s1\<lparr>ws_clock := ws_clock s1 + wait + vi_late v\<rparr> else s1)"
  have s2: "ws_clock s \<le> ws_clock s2" "last_of s2 sid = last_of s sid" "last_of s2 (vi_session v) = ss_last x"
    using v last by (simp_all add: s2_def s1_def calm_visit_def)
  have inj: "paced_step A now sid s (inject A v s2)" if "\<not> now - ss_last x < wa_cooldown A"
    by (rule paced_later [where f = "\<lambda>_. s2", OF paced_inject [OF v] s2(1,2)]) (use s2 that now in auto)
  have stay: "paced_step A now sid s (s1, [])" "paced_step A now sid s (s2, [])"
    using s2 by (simp_all add: paced_step_def s1_def)
  show ?thesis
    using inj stay unfolding limited_step_def Let_def s1_def [symmetric] wait_def [symmetric] s2_def [symmetric]
    by (auto split: option.splits)
qed

lemma visit_paced:
  assumes v: "calm_visit v" and now: "now \<le> ws_clock s"
  shows "paced_step A now sid s (visit_step A key now v s)"
proof (cases "vi_screen v")
  case None
  with v show ?thesis by (simp add: visit_step_def paced_step_def calm_visit_def)
next
  case (Some raw)
  define s1 where "s1 = s\<lparr>ws_clock := ws_clock s + vi_delay v\<rparr>"
  define tail where "tail = tail_text (wa_lines A) raw"
  define x where "x = observe now (key tail) (session_of s1 now (vi_session v))"
  define s2 where "s2 = s1\<lparr>ws_sessions := py_set (ws_sessions s1) (vi_session v) x\<rparr>"
  have lx: "ss_last x = last_of s (vi_session v)" by (simp add: x_def s1_def)
  have s2: "ws_clock s \<le> ws_clock s2" "last_of s2 sid = last_of s sid" "now \<le> ws_clock s2" "last_of s2 (vi_session v) = ss_last x"
    using v now by (auto simp: s2_def lx calm_visit_def) (auto simp: s1_def)
  have idle: "paced_step A now sid s2 (idle_step A now v x s2)"
    unfolding idle_step_def using s2(3,4) by (auto intro!: paced_inject [OF v])
  have "paced_step A now sid s2 (if is_working tail then (s2, [])
      else if tail_has_rate_limit tail then limited_step A now v tail (key tail) x s2
      else if wa_idle A \<and> at_idle_prompt (wa_idle_markers A) tail then idle_step A now v x s2 else (s2, []))" (is "paced_step A now sid s2 ?step")
    using idle paced_limited [OF v s2(3,4)] by simp
  then have "paced_step A now sid s ?step" by (rule paced_later [where f = "\<lambda>_. s2", OF _ s2(1,2)])
  moreover have "visit_step A key now v s = log_events [Looked (vi_session v) tail (ws_clock s2)] ?step"
    using Some by (simp add: visit_step_def Let_def s1_def s2_def x_def tail_def)
  ultimately show ?thesis by simp
qed

text \<open>Along a run the completed messages of a session keep the cooldown.\<close>

definition paced :: "watch_args \<Rightarrow> string \<Rightarrow> watch_state \<Rightarrow> watch_state \<times> event list \<Rightarrow> bool" where
  "paced A sid s x \<longleftrightarrow> ws_clock s \<le> ws_clock (fst x) \<and>
     (let ts = injections sid (snd x) in
      successively (\<lambda>a b. a + wa_cooldown A \<le> b) ts \<and> (ts \<noteq> [] \<longrightarrow> last_of s sid + wa_cooldown A \<le> hd ts) \<and>
      last_of (fst x) sid = (if ts = [] then last_of s sid else last ts))"

lemma paced_of_step: "paced_step A now sid s x \<Longrightarrow> paced A sid s x"
  by (auto simp: paced_def paced_step_def)

lemma paced_trans:
  assumes "paced A sid s x" and "paced A sid (fst x) y"
  shows "paced A sid s (log_events (snd x) y)"
  using assms by (auto simp: paced_def Let_def successively_append_iff split: if_split_asm)

lemma visits_paced:
  assumes "list_all calm_visit vs" and "now \<le> ws_clock s"
  shows "paced A sid s (visits_run A key now vs s)"
  using assms
proof (induction vs arbitrary: s)
  case (Cons v vs)
  then have p: "paced A sid s (visit_step A key now v s)" by (intro paced_of_step [OF visit_paced]) auto
  then have "now \<le> ws_clock (fst (visit_step A key now v s))" using Cons.prems by (auto simp: paced_def)
  with Cons p show ?case by (auto simp: Let_def intro: paced_trans)
qed (simp add: paced_def)

lemma watch_paced:
  assumes "list_all calm_round rounds"
  shows "paced A sid s (watch_run A key first rounds s)"
  using assms
proof (induction rounds arbitrary: s first)
  case (Cons r rounds)
  obtain gap vs where r: "r = (gap, vs)" by force
  define s1 where "s1 = s\<lparr>ws_clock := ws_clock s + (if first then 0 else max (wa_interval A) 1) + gap\<rparr>"
  define x where "x = (case vs of None \<Rightarrow> (s1, []) | Some vs \<Rightarrow> visits_run A key (ws_clock s1) vs s1)"
  have s1: "ws_clock s \<le> ws_clock s1" "last_of s1 sid = last_of s sid"
    using Cons.prems by (auto simp: s1_def calm_round_def r)
  have "paced A sid s1 x"
  proof (cases vs)
    case None
    then show ?thesis by (simp add: x_def paced_def)
  next
    case (Some vs')
    then have "list_all calm_visit vs'" using Cons.prems by (simp add: r calm_round_def)
    then show ?thesis using visits_paced [of vs' "ws_clock s1" s1] Some by (simp add: x_def)
  qed
  with s1 have x: "paced A sid s x" by (simp add: paced_def Let_def)
  have "watch_run A key first (r # rounds) s =
      (if wa_once A \<and> vs \<noteq> None then x else log_events (snd x) (watch_run A key False rounds (fst x)))"
    unfolding r watch_run.simps s1_def [symmetric] Let_def x_def by (rule refl)
  with x Cons show ?case by (auto intro: paced_trans)
qed (simp add: paced_def)

subsection \<open>What is typed, and where\<close>

definition own_events :: "string \<Rightarrow> event list \<Rightarrow> bool" where
  "own_events sid ev \<longleftrightarrow> list_all (\<lambda>e. event_session e = sid) ev"

lemma inject_events: "own_events (vi_session v) (snd (inject A v s))" "acts (snd (inject A v s)) \<Longrightarrow> wa_auto A"
  by (auto simp: own_events_def inject_def Let_def split: if_split_asm)

lemma limited_events:
  "own_events (vi_session v) (snd (limited_step A now v tail k x s))"
  "acts (snd (limited_step A now v tail k x s)) \<Longrightarrow> wa_auto A \<and> \<not> wa_dry_run A"
  using inject_events [where v = v and A = A]
  by (auto simp: limited_step_def Let_def own_events_def split: option.splits if_split_asm)

lemma idle_events:
  "own_events (vi_session v) (snd (idle_step A now v x s))"
  "acts (snd (idle_step A now v x s)) \<Longrightarrow> wa_auto A \<and> \<not> wa_dry_run A"
  using inject_events [where v = v and A = A] by (auto simp: idle_step_def own_events_def split: if_split_asm)

lemma visit_events:
  assumes "snd (visit_step A key now v s) = ev" and "ev \<noteq> []"
  shows "\<exists>tail c rest. ev = Looked (vi_session v) tail c # rest \<and> own_events (vi_session v) rest \<and>
    (acts rest \<longrightarrow> stopped A tail \<and> wa_auto A \<and> \<not> wa_dry_run A)"
  using assms limited_events [where v = v and A = A] idle_events [where v = v and A = A]
  by (auto simp: visit_step_def Let_def stopped_def own_events_def split: option.splits if_split_asm)

text \<open>The looks of a visit.\<close>

lemma inject_no_look: "filter is_look (snd (inject A v s)) = []"
  by (auto simp: inject_def Let_def)

lemma idle_no_look: "filter is_look (snd (idle_step A now v x s)) = []"
  by (simp add: idle_step_def inject_no_look)

lemma limited_looks:
  "filter is_look (snd (limited_step A now v tail k x s)) = [] \<or>
   (\<exists>again c rest. snd (limited_step A now v tail k x s) = Rechecked (vi_session v) again c # rest \<and> filter is_look rest = [] \<and>
     (rest \<noteq> [] \<longrightarrow> tail_has_rate_limit again))"
  by (auto simp: limited_step_def Let_def inject_no_look split: option.splits)

lemma typed_own:
  assumes "rest = before @ Typed sid msg # after" and "own_events a rest"
  shows "sid = a"
  using assms by (simp add: own_events_def)

lemma split_at_event:
  assumes "xs @ ys = before @ e # after"
  obtains us where "xs = before @ e # us" | us where "before = xs @ us" "ys = us @ e # after"
  using assms by (fastforce simp: append_eq_append_conv2 append_eq_Cons_conv)

lemma typed_after_one_look:
  assumes quiet: "filter is_look rest = []" and own: "own_events a rest" and ok: "rest \<noteq> [] \<Longrightarrow> may_type A a (rev ls)"
    and ls: "list_all is_look ls"
  shows "typed_after_look A (ls @ rest)"
  unfolding typed_after_look_def
proof (intro allI impI)
  fix before sid msg after assume ev: "ls @ rest = before @ Typed sid msg # after"
  have False if "ls = before @ Typed sid msg # us" for us using ls by (simp add: that)
  with ev obtain ws where ws: "before = ls @ ws" "rest = ws @ Typed sid msg # after" by (auto elim: split_at_event)
  then have "filter is_look ws = []" using quiet by simp
  moreover have "filter is_look ls = ls" using ls by (simp add: filter_id_conv list_all_iff)
  moreover have "sid = a" by (rule typed_own [OF ws(2) own])
  ultimately show "may_type A sid (rev (filter is_look before))" using ok ws by simp
qed

lemma limited_typed_after:
  assumes "\<not> is_working tail" "tail_has_rate_limit tail"
  shows "typed_after_look A (Looked (vi_session v) tail c # snd (limited_step A now v tail k x s))" (is "typed_after_look A (?e # ?ev)")
proof -
  note own = limited_events(1) [where A = A and now = now and v = v and tail = tail and k = k and x = x and s = s]
  from limited_looks [where A = A and now = now and v = v and tail = tail and k = k and x = x and s = s] show ?thesis
  proof (elim disjE exE conjE)
    assume "filter is_look ?ev = []"
    with assms typed_after_one_look [OF _ own, where ls = "[?e]" and A = A] show ?thesis by (simp add: may_type_def stopped_def)
  next
    fix again c' rest
    assume r: "?ev = Rechecked (vi_session v) again c' # rest" "filter is_look rest = []" "rest \<noteq> [] \<longrightarrow> tail_has_rate_limit again"
    then have "own_events (vi_session v) rest" using own by (simp add: own_events_def)
    from typed_after_one_look [OF r(2) this, where ls = "[?e, Rechecked (vi_session v) again c']" and A = A] r assms
    show ?thesis by (simp add: may_type_def)
  qed
qed

lemma idle_typed_after:
  assumes "stopped A tail"
  shows "typed_after_look A (Looked (vi_session v) tail c # snd (idle_step A now v x s))"
  using assms typed_after_one_look [OF idle_no_look idle_events(1), where ls = "[Looked (vi_session v) tail c]" and A = A]
  by (simp add: may_type_def)

lemma typed_after_nothing [simp]: "typed_after_look A []" "typed_after_look A [Looked sid tail c]"
  by (auto simp: typed_after_look_def Cons_eq_append_conv)

lemma visit_typed_after_look: "typed_after_look A (snd (visit_step A key now v s))"
  by (auto simp: visit_step_def Let_def limited_typed_after idle_typed_after stopped_def split: option.split)

lemma may_type_append: "may_type A sid xs \<Longrightarrow> may_type A sid (xs @ ys)"
  by (auto simp: may_type_def)

lemma typed_after_look_append:
  assumes "typed_after_look A xs" and "typed_after_look A ys"
  shows "typed_after_look A (xs @ ys)"
  unfolding typed_after_look_def
proof (intro allI impI)
  fix before sid msg after assume ev: "xs @ ys = before @ Typed sid msg # after"
  then consider us where "xs = before @ Typed sid msg # us" | us where "before = xs @ us" "ys = us @ Typed sid msg # after"
    by (rule split_at_event)
  then show "may_type A sid (rev (filter is_look before))"
  proof cases
    case 1
    then show ?thesis using assms(1) by (simp add: typed_after_look_def)
  next
    case 2
    then have "may_type A sid (rev (filter is_look us))" using assms(2) by (simp add: typed_after_look_def)
    then show ?thesis by (simp add: 2 may_type_append)
  qed
qed

lemma watch_typed_after_look: "typed_after_look A (snd (watch_run A key first rounds s))"
proof -
  have vs: "typed_after_look A (snd (visits_run A key now vs s))" for now vs s
    by (induction vs arbitrary: s) (simp_all add: Let_def typed_after_look_append visit_typed_after_look)
  show ?thesis
    by (induction rounds arbitrary: first s)
       (auto simp: Let_def vs typed_after_look_append split: option.splits)
qed

lemma watch_silent:
  assumes "\<not> wa_auto A \<or> wa_dry_run A"
  shows "\<not> acts (snd (watch_run A key first rounds s))"
proof -
  have v: "\<not> acts (snd (visit_step A key now v s))" for now v s
    using visit_events [OF refl, of A key now v s] assms by (cases "snd (visit_step A key now v s) = []") auto
  have vs: "\<not> acts (snd (visits_run A key now vs s))" for now vs s
    by (induction vs arbitrary: s) (simp_all add: Let_def v)
  show ?thesis
    by (induction rounds arbitrary: first s) (auto simp: Let_def vs split: option.splits if_split_asm)
qed

subsection \<open>An idle session is resumed\<close>

lemma other_session:
  assumes "sid \<noteq> vi_session v"
  shows "map_of (ws_sessions (fst (visit_step A key now v s))) sid = map_of (ws_sessions s) sid"
    and "injections sid (snd (visit_step A key now v s)) = []"
proof -
  have inj: "map_of (ws_sessions (fst (inject A v s))) sid = map_of (ws_sessions s) sid" for s
    using assms by (simp add: inject_def Let_def)
  show "map_of (ws_sessions (fst (visit_step A key now v s))) sid = map_of (ws_sessions s) sid"
    using assms by (simp add: visit_step_def Let_def limited_step_def idle_step_def inj split: option.split)
  have own: "injections sid ev = []" if "own_events (vi_session v) ev" for ev
    using that assms by (induction sid ev rule: injections.induct) (auto simp: own_events_def)
  show "injections sid (snd (visit_step A key now v s)) = []"
    using visit_events [OF refl, of A key now v s] assms
    by (cases "snd (visit_step A key now v s) = []") (auto intro: own)
qed

text \<open>A round in which the session stands at its prompt and typing works.\<close>

definition idle_visit :: "watch_args \<Rightarrow> string \<Rightarrow> session_visit \<Rightarrow> bool" where
  "idle_visit A tail v \<longleftrightarrow> (\<exists>raw. vi_screen v = Some raw \<and> tail_text (wa_lines A) raw = tail) \<and> vi_sent v = (True, True)"

definition idle_round :: "watch_args \<Rightarrow> string \<Rightarrow> string \<Rightarrow> real \<times> session_visit list option \<Rightarrow> bool" where
  "idle_round A sid tail r \<longleftrightarrow>
     (\<exists>vs v. snd r = Some vs \<and> filter (\<lambda>v. vi_session v = sid) vs = [v] \<and> idle_visit A tail v)"

definition resumes :: "watch_args \<Rightarrow> string \<Rightarrow> bool" where
  "resumes A tail \<longleftrightarrow> wa_auto A \<and> wa_idle A \<and> \<not> wa_dry_run A \<and> \<not> is_working tail \<and> \<not> tail_has_rate_limit tail \<and>
     at_idle_prompt (wa_idle_markers A) tail"

lemma idle_visit_step:
  assumes "resumes A tail" and "idle_visit A tail v" and "x = observe now (key tail) (session_of s now (vi_session v))"
  shows "injections (vi_session v) (snd (visit_step A key now v s)) = [] \<Longrightarrow>
      \<not> (ss_since x + wa_idle_seconds A \<le> now \<and> ss_last x + wa_cooldown A \<le> now) \<and>
      map_of (ws_sessions (fst (visit_step A key now v s))) (vi_session v) = Some x"
  using assms
  by (auto simp: visit_step_def Let_def resumes_def idle_visit_def idle_step_def inject_def session_of_def)

lemma idle_visits_run:
  assumes A: "resumes A tail" and one: "filter (\<lambda>v. vi_session v = sid) vs = [v]" and v: "idle_visit A tail v"
    and quiet: "injections sid (snd (visits_run A key now vs s)) = []" and x: "x = observe now (key tail) (session_of s now sid)"
  shows "\<not> (ss_since x + wa_idle_seconds A \<le> now \<and> ss_last x + wa_cooldown A \<le> now) \<and>
     map_of (ws_sessions (fst (visits_run A key now vs s))) sid = Some x"
  using one quiet x
proof (induction vs arbitrary: s)
  case (Cons u us)
  define s1 where "s1 = fst (visit_step A key now u s)"
  have split: "injections sid (snd (visit_step A key now u s)) = []" "injections sid (snd (visits_run A key now us s1)) = []"
    using Cons.prems(2) by (simp_all add: Let_def s1_def)
  have same: "map_of (ws_sessions (fst (visits_run A key now us t))) sid = map_of (ws_sessions t) sid"
    if "filter (\<lambda>v. vi_session v = sid) us = []" for t
    using that by (induction us arbitrary: t) (auto simp: Let_def other_session split: if_split_asm)
  show ?case
  proof (cases "vi_session u = sid")
    case True
    with Cons.prems(1) have u: "u = v" and rest: "filter (\<lambda>v. vi_session v = sid) us = []" by auto
    from idle_visit_step [OF A v refl, of key now s] split(1) True u same [OF rest] Cons.prems(3) show ?thesis by (simp add: Let_def)
  next
    case False
    then have "session_of s1 now sid = session_of s now sid" by (simp add: session_of_def s1_def other_session)
    with Cons.IH [OF _ split(2)] Cons.prems(1,3) False show ?thesis by (simp add: Let_def s1_def del: last_observe)
  qed
qed simp

lemma idle_progress:
  assumes A: "resumes A tail" "\<not> wa_once A"
    and rounds: "list_all (idle_round A sid tail) rounds" "list_all calm_round rounds" "rounds \<noteq> []"
    and known: "map_of (ws_sessions s) sid = Some x" "ss_hash x = Some (key tail)"
    and due: "ss_since x + wa_idle_seconds A \<le> ws_clock s + length rounds * max (wa_interval A) 1"
    and cool: "ss_last x + wa_cooldown A \<le> ws_clock s"
  shows "injections sid (snd (watch_run A key False rounds s)) \<noteq> []"
  using rounds known due cool
proof (induction rounds arbitrary: s)
  case (Cons r rounds)
  obtain gap vs v where r: "r = (gap, Some vs)" and one: "filter (\<lambda>v. vi_session v = sid) vs = [v]" and v: "idle_visit A tail v"
    using Cons.prems(1) by (cases r) (auto simp: idle_round_def)
  define step where "step = max (wa_interval A) 1"
  define s1 where "s1 = s\<lparr>ws_clock := ws_clock s + step + gap\<rparr>"
  define now where "now = ws_clock s1"
  define s2 where "s2 = fst (visits_run A key now vs s1)"
  have calm: "0 \<le> gap" "list_all calm_visit vs" using Cons.prems(2) by (auto simp: r calm_round_def)
  have step: "1 \<le> step" by (simp add: step_def)
  have sn: "session_of s1 now sid = x" using Cons.prems(4) by (simp add: session_of_def s1_def)
  then have obs: "observe now (key tail) (session_of s1 now sid) = x" using Cons.prems(5) by (simp add: observe_def)
  have run: "snd (watch_run A key False (r # rounds) s) = snd (visits_run A key now vs s1) @ snd (watch_run A key False rounds s2)"
    using A(2) by (simp add: r Let_def s1_def now_def s2_def step_def)
  show ?case
  proof (cases "injections sid (snd (visits_run A key now vs s1)) = []")
    case False
    then show ?thesis by (simp add: run)
  next
    case True
    note q = idle_visits_run [OF A(1) one v True obs [symmetric]]
    have n: "ss_last x + wa_cooldown A \<le> now" using Cons.prems(7) calm(1) step by (simp add: now_def s1_def)
    with q have early: "now < ss_since x + wa_idle_seconds A" by auto
    have clock: "now \<le> ws_clock s2" using visits_paced [OF calm(2), of now s1] by (simp add: paced_def s2_def now_def)
    have len: "ss_since x + wa_idle_seconds A \<le> ws_clock s + step + length rounds * step"
      using Cons.prems(6) by (simp add: step_def algebra_simps)
    have ne: "rounds \<noteq> []"
    proof
      assume "rounds = []"
      with len early calm(1) show False by (simp add: now_def s1_def)
    qed
    have "injections sid (snd (watch_run A key False rounds s2)) \<noteq> []"
    proof (rule Cons.IH)
      show "ss_since x + wa_idle_seconds A \<le> ws_clock s2 + length rounds * max (wa_interval A) 1"
        using len clock calm(1) by (simp add: now_def s1_def step_def)
      show "ss_last x + wa_cooldown A \<le> ws_clock s2" using n clock by simp
    qed (use Cons.prems q ne in \<open>auto simp: s2_def\<close>)
    then show ?thesis by (simp add: run)
  qed
qed simp

subsection \<open>Properties\<close>

text \<open>
  C23: The watchdog types only where it may.  Without automatic continuation, or in a dry run, it
  types nothing.  Whatever it types goes to the session it looked at last, and that last look is
  either the first of a visit, at a screen that did not show a running task and showed a rate limit
  or, if enabled, the idle prompt; or it is the second look of a visit, after the wait for a rate
  limit, when the first one showed a rate limit and no running task and the second still shows a rate
  limit (the code asks no more of it).  Two messages completed in one session are at least the
  cooldown apart.
\<close>

theorem watchdog_types_safely:
  assumes "list_all calm_round rounds"
  shows "(\<not> wa_auto A \<or> wa_dry_run A \<longrightarrow> \<not> acts (snd (run_watch A key rounds start))) \<and>
    typed_after_look A (snd (run_watch A key rounds start)) \<and>
    successively (\<lambda>a b. a + wa_cooldown A \<le> b) (injections sid (snd (run_watch A key rounds start)))"
proof -
  let ?s = "\<lparr>ws_clock = start, ws_seen = [], ws_sessions = []\<rparr>"
  have eff: "wa_cooldown (effective A) = wa_cooldown A" "may_type (effective A) = may_type A"
    by (simp_all add: effective_def stopped_def may_type_def fun_eq_iff)
  have "typed_after_look A (snd (run_watch A key rounds start))"
    using watch_typed_after_look [where A = "effective A" and key = key and first = True and rounds = rounds and s = ?s]
    by (simp add: run_watch_def typed_after_look_def eff)
  moreover have "\<not> acts (snd (run_watch A key rounds start))" if "\<not> wa_auto A \<or> wa_dry_run A"
    unfolding run_watch_def by (rule watch_silent) (use that in \<open>auto simp: effective_def\<close>)
  moreover have "successively (\<lambda>a b. a + wa_cooldown A \<le> b) (injections sid (snd (run_watch A key rounds start)))"
    using watch_paced [OF assms, where A = "effective A" and sid = sid and key = key and first = True and s = ?s] by (simp add: run_watch_def paced_def Let_def eff)
  ultimately show ?thesis by blast
qed

text \<open>
  C24: With automatic and idle continuation on, a session that stands at its prompt in every round is
  resumed: once the rounds after the first span the idle time, a message has been completed in it,
  whatever happens in the other sessions.
\<close>

theorem idle_session_resumed:
  assumes A: "resumes A tail" "\<not> wa_once A"
    and rounds: "list_all (idle_round A sid tail) rounds" "list_all calm_round rounds" "length rounds = Suc n" "0 < n"
    and due: "wa_idle_seconds A \<le> n * max (wa_interval A) 1" and cool: "wa_cooldown A \<le> start"
  shows "injections sid (snd (run_watch A key rounds start)) \<noteq> []"
proof -
  obtain gap vs v rest where r: "rounds = (gap, Some vs) # rest" and one: "filter (\<lambda>v. vi_session v = sid) vs = [v]"
    and v: "idle_visit A tail v" using rounds(1,3) by (cases rounds) (auto simp: idle_round_def)
  have eff: "effective A = A" using A(1) by (simp add: effective_def resumes_def)
  define s1 where "s1 = \<lparr>ws_clock = start + gap, ws_seen = [], ws_sessions = []\<rparr>"
  define s2 where "s2 = fst (visits_run A key (start + gap) vs s1)"
  define x where "x = observe (start + gap) (key tail) (session_of s1 (start + gap) sid)"
  have run: "snd (run_watch A key rounds start) =
      snd (visits_run A key (start + gap) vs s1) @ snd (watch_run A key False rest s2)"
    using A(2) by (simp add: run_watch_def r eff Let_def s1_def s2_def)
  show ?thesis
  proof (cases "injections sid (snd (visits_run A key (start + gap) vs s1)) = []")
    case False
    then show ?thesis by (simp add: run)
  next
    case True
    from idle_visits_run [OF A(1) one v True x_def] have x: "map_of (ws_sessions s2) sid = Some x" by (simp add: s2_def)
    have xs: "ss_hash x = Some (key tail)" "ss_since x = start + gap" "ss_last x = 0"
      by (simp_all add: x_def observe_def session_of_def s1_def)
    have calm: "0 \<le> gap" "list_all calm_visit vs" using rounds(2) by (simp_all add: r calm_round_def)
    have clock: "start + gap \<le> ws_clock s2"
      using visits_paced [OF calm(2), where now = "start + gap" and s = s1 and A = A and sid = sid and key = key] by (simp add: paced_def s2_def s1_def)
    have "injections sid (snd (watch_run A key False rest s2)) \<noteq> []"
      using rounds r due clock xs cool calm(1) by (intro idle_progress [OF A _ _ _ x]) auto
    then show ?thesis by (simp add: run)
  qed
qed

subsection \<open>Two sessions\<close>

definition sample_watch :: watch_args where
  "sample_watch = \<lparr>wa_lines = 40, wa_wait = 130, wa_margin = 10, wa_text = ''go'', wa_enter_delay = 0, wa_enter_key = ''x'',
     wa_interval = 20, wa_cooldown = 180, wa_auto = True, wa_idle = True, wa_idle_seconds = 60, wa_idle_markers = [],
     wa_dry_run = False, wa_once = False\<rparr>"

definition sample_look :: "string \<Rightarrow> string list \<Rightarrow> string list option \<Rightarrow> session_visit" where
  "sample_look sid screen again = \<lparr>vi_session = sid, vi_delay = 0, vi_screen = Some screen, vi_draw = 0, vi_late = 0,
     vi_recheck = again, vi_sent = (True, True), vi_typing = 0\<rparr>"

definition limited_screen :: "string list" where "limited_screen = [''too many requests'']"
definition prompt_screen :: "string list" where "prompt_screen = [''Ask Devin to build features'']"
definition busy_screen :: "string list" where "busy_screen = [''too many requests'', ''Esc twice to interrupt'']"

lemma sample_screens:
  "is_working (tail_text 40 busy_screen)" "tail_has_rate_limit (tail_text 40 busy_screen)"
  "\<not> is_working (tail_text 40 limited_screen)" "tail_has_rate_limit (tail_text 40 limited_screen)"
  "\<not> is_working (tail_text 40 prompt_screen)" "\<not> tail_has_rate_limit (tail_text 40 prompt_screen)"
  "at_idle_prompt [] (tail_text 40 prompt_screen)" "find_reset (lower_ascii (tail_text 40 limited_screen)) = None"
  by code_simp+

definition text_key :: "string \<Rightarrow> int" where
  "text_key s = int (length s)"

definition sample_resumed :: "(real \<times> session_visit list option) list" where
  "sample_resumed = [(0, Some [sample_look ''a'' limited_screen (Some busy_screen)])]"

definition sample_pair :: "(real \<times> session_visit list option) list" where
  "sample_pair =
     [(0, Some [sample_look ''a'' limited_screen None, sample_look ''b'' prompt_screen None]),
      (0, Some [sample_look ''b'' prompt_screen None])]"

lemma sample_pair_run:
  "snd (run_watch sample_watch text_key sample_pair 1000) =
     [Looked ''a'' (tail_text 40 limited_screen) 1000, Typed ''a'' ''go'', Typed ''a'' ''x'', Injected ''a'' 1130,
      Looked ''b'' (tail_text 40 prompt_screen) 1130,
      Looked ''b'' (tail_text 40 prompt_screen) 1150, Typed ''b'' ''go'', Typed ''b'' ''x'', Injected ''b'' 1150]"
proof -
  have x: "decode_key ''x'' = ''x''" by code_simp
  let ?k = "text_key (tail_text 40 prompt_screen)" and ?seen = "[(text_key (tail_text 40 limited_screen), ''a'', 1000)]"
  let ?a = "(''a'', \<lparr>ss_hash = None, ss_since = 1130, ss_last = 1130\<rparr>)"
  let ?b = "(''b'', \<lparr>ss_hash = Some ?k, ss_since = 1000, ss_last = 0\<rparr>)"
  note ev = sample_look_def Let_def visit_step_def sample_screens inject_def session_of_def observe_def log_events_def sample_watch_def
  have v1: "visit_step sample_watch text_key 1000 (sample_look ''a'' limited_screen None) \<lparr>ws_clock = 1000, ws_seen = [], ws_sessions = []\<rparr> =
      (\<lparr>ws_clock = 1130, ws_seen = ?seen, ws_sessions = [?a]\<rparr>,
       [Looked ''a'' (tail_text 40 limited_screen) 1000, Typed ''a'' ''go'', Typed ''a'' ''x'', Injected ''a'' 1130])"
    by (simp add: ev x limited_step_def parse_wait_def)
  have v2: "visit_step sample_watch text_key 1000 (sample_look ''b'' prompt_screen None) \<lparr>ws_clock = 1130, ws_seen = ?seen, ws_sessions = [?a]\<rparr> =
      (\<lparr>ws_clock = 1130, ws_seen = ?seen, ws_sessions = [?a, ?b]\<rparr>, [Looked ''b'' (tail_text 40 prompt_screen) 1130])"
    by (simp add: ev idle_step_def)
  have v3: "snd (visit_step sample_watch text_key 1150 (sample_look ''b'' prompt_screen None) \<lparr>ws_clock = 1150, ws_seen = ?seen, ws_sessions = [?a, ?b]\<rparr>) =
      [Looked ''b'' (tail_text 40 prompt_screen) 1150, Typed ''b'' ''go'', Typed ''b'' ''x'', Injected ''b'' 1150]"
    by (simp add: ev x idle_step_def)
  have eff: "effective sample_watch = sample_watch" "wa_once sample_watch = False" "wa_interval sample_watch = 20"
    by (simp_all add: effective_def sample_watch_def)
  show ?thesis by (simp add: run_watch_def sample_pair_def eff Let_def v1 v2 v3)
qed

lemma sample_calm: "list_all calm_round sample_resumed" "list_all calm_round sample_pair"
  by (simp_all add: sample_resumed_def sample_pair_def calm_round_def calm_visit_def sample_look_def)

theorem watchdog_types_safely_witness:
  "typed_after_look sample_watch (snd (run_watch sample_watch text_key sample_pair 1000)) \<and>
   injections ''b'' (snd (run_watch sample_watch text_key sample_pair 1000)) = [1150]"
  using watchdog_types_safely [OF sample_calm(2), of sample_watch text_key 1000 "''b''"] by (simp add: sample_pair_run)

definition sample_idle_rounds :: "(real \<times> session_visit list option) list" where
  "sample_idle_rounds = replicate 4 (0, Some [sample_look ''b'' prompt_screen None])"

theorem idle_session_resumed_witness:
  "injections ''b'' (snd (run_watch sample_watch text_key sample_idle_rounds 1000)) \<noteq> []"
proof (rule idle_session_resumed [where n = 3 and tail = "tail_text 40 prompt_screen"])
  show "resumes sample_watch (tail_text 40 prompt_screen)"
    using sample_screens by (simp add: resumes_def sample_watch_def)
  show "list_all (idle_round sample_watch ''b'' (tail_text 40 prompt_screen)) sample_idle_rounds"
    by (simp add: sample_idle_rounds_def idle_round_def idle_visit_def sample_look_def sample_watch_def list_all_iff)
  show "list_all calm_round sample_idle_rounds"
    by (simp add: sample_idle_rounds_def calm_round_def calm_visit_def sample_look_def list_all_iff)
qed (simp_all add: sample_watch_def sample_idle_rounds_def)





end
