(* ===== verification/SystemApp.thy ===== *)
theory SystemApp
  imports TrustScan MachoDeps
begin

text \<open>
  \<^verbatim>\<open>macws_system_app_prepare.py\<close>: the execution policy of a first-party application's main image and
  the admission of its plug-ins and dependencies, on top of the trust scan and the dependency closure.
  The signing tool is a parameter; files are a map from paths, and \<open>ap_others\<close> is what other processes
  do to them between the preparation of the new image and the check that the old one has not changed.
\<close>

definition ROOT :: string where "ROOT = ''/var/mnt/rootfs''"

definition APP_ROOTS :: "string list" where
  "APP_ROOTS = [''/System/Applications/'', ''/System/Library/CoreServices/'',
     ''/System/Volumes/Preboot/Cryptexes/App/System/Applications/'']"

definition REQUIRED :: "string list" where
  "REQUIRED = [''com.apple.private.security.no-sandbox'', ''com.apple.private.security.no-container'', ''get-task-allow'']"

definition APP_MARKER :: string where "APP_MARKER = ''.app/Contents/MacOS/''"

record app_file =
  af_bytes :: bytes
  af_identity :: identity
  af_owner :: "int \<times> int"
  af_regular :: bool

type_synonym app_files = "string \<rightharpoonup> app_file"

text \<open>
  \<open>ap_rights\<close> is the property list \<open>ldid -e\<close> prints for an image and an architecture, \<open>ap_sign\<close> the image
  \<open>ldid -S -M\<close> writes, \<open>ap_profile\<close> the shipped profile, \<open>ap_temp\<close> the name \<open>mkstemp\<close> picks and \<open>ap_stamp\<close>
  the identity the kernel gives a file it writes.
\<close>

record 'c app_env =
  ap_realpath :: "string \<Rightarrow> string"
  ap_hash :: hasher
  ap_rights :: "bytes \<Rightarrow> string \<Rightarrow> (string \<times> pyval) list result"
  ap_sign :: "bytes \<Rightarrow> bytes result"
  ap_profile :: "(string \<times> pyval) list result"
  ap_temp :: string
  ap_stamp :: "string \<Rightarrow> bytes \<Rightarrow> identity"
  ap_others :: "app_files \<Rightarrow> app_files"
  ap_device :: "'c trust_device"

subsection \<open>The target\<close>

text \<open>\<open>path.rsplit(marker, 1)\<close>: the split at the last occurrence.\<close>

fun split_last :: "string \<Rightarrow> string \<Rightarrow> (string \<times> string) option" where
  "split_last m [] = None"
| "split_last m (c # s) =
     (case split_last m s of
        Some (a, b) \<Rightarrow> Some (c # a, b)
      | None \<Rightarrow> if starts m (c # s) then Some ([], drop (length m) (c # s)) else None)"

definition resolve_target :: "'c app_env \<Rightarrow> app_files \<Rightarrow> string \<Rightarrow> (string \<times> string) result" where
  "resolve_target E fs path =
     (if \<not> list_ex (\<lambda>r. starts r path) APP_ROOTS then Inl (ValueError ''not a first-party app main executable'')
      else case split_last APP_MARKER path of
        None \<Rightarrow> Inl (ValueError ''not a first-party app main executable'')
      | Some (bundle, name) \<Rightarrow>
        if name = [] \<or> CHR ''/'' \<in> set name \<or> name = ''.'' \<or> name = ''..''
        then Inl (ValueError ''not a direct app main executable'')
        else if ap_realpath E (ROOT @ path) \<noteq> ap_realpath E ROOT @ path
        then Inl (ValueError ''noncanonical target or rootfs escape'')
        else case fs (ROOT @ path) of
          None \<Rightarrow> Inl (OSError ''lstat'')
        | Some f \<Rightarrow>
          if \<not> af_regular f \<or> fst (af_owner f) \<noteq> 0
          then Inl (ValueError ''app executable must be a root-owned regular file'')
          else Inr (ROOT @ path, ROOT @ bundle @ ''.app/Contents/PlugIns''))"

subsection \<open>The execution policy of the main image\<close>

definition native_records :: "'c app_env \<Rightarrow> bytes \<Rightarrow> code_record list result" where
  "native_records E bs =
     bindE (code_hashes (ap_hash E) bs (length bs)) (\<lambda>rs.
     if rs = [] then Inl (ValueError ''main executable has no signed native slice'') else Inr rs)"

definition grants_all :: "(string \<times> pyval) list \<Rightarrow> bool" where
  "grants_all kv \<longleftrightarrow> list_all (\<lambda>k. py_get kv k = PBool True) REQUIRED"

fun arches_granted :: "'c app_env \<Rightarrow> bytes \<Rightarrow> string list \<Rightarrow> bool result" where
  "arches_granted E bs [] = Inr True"
| "arches_granted E bs (a # as) =
     bindE (ap_rights E bs a) (\<lambda>kv. if \<not> grants_all kv then Inr False else arches_granted E bs as)"

definition has_profile :: "'c app_env \<Rightarrow> bytes \<Rightarrow> code_record list \<Rightarrow> bool result" where
  "has_profile E bs rs = arches_granted E bs (sort (remdups (map arch rs)))"

text \<open>The body of the \<open>try\<close>, up to the trust of the candidate: its bytes and the new trust state.\<close>

definition candidate_image :: "'c app_env \<Rightarrow> bytes \<Rightarrow> 'c \<Rightarrow> (bytes \<times> 'c) result" where
  "candidate_image E bs c =
     bindE (ap_sign E bs) (\<lambda>once.
     bindE (ap_sign E once) (\<lambda>twice.
     bindE (native_records E twice) (\<lambda>prepared.
     bindE (has_profile E twice prepared) (\<lambda>ok.
     if \<not> ok then Inl (ValueError ''candidate still lacks chroot execution policy'')
     else bindE (restore (ap_device E) (chash ` set prepared) False c) (\<lambda>(_, c'). Inr (twice, c'))))))"

text \<open>
  The private copy is signed, checked and put in place; whatever happens, it is gone afterwards.
\<close>

definition replace_main :: "'c app_env \<Rightarrow> string \<Rightarrow> app_file \<Rightarrow> app_files \<Rightarrow> 'c \<Rightarrow> (bool \<times> 'c) result \<times> app_files" where
  "replace_main E path f fs c =
     (case candidate_image E (af_bytes f) c of
        Inl e \<Rightarrow> (Inl e, fs(ap_temp E := None))
      | Inr (bs, c') \<Rightarrow>
        let new = \<lparr>af_bytes = bs, af_identity = ap_stamp E (ap_temp E) bs, af_owner = af_owner f, af_regular = True\<rparr>;
            fs = ap_others E (fs(ap_temp E \<mapsto> new))
        in case fs path of
             None \<Rightarrow> (Inl (OSError ''stat''), fs(ap_temp E := None))
           | Some now \<Rightarrow>
             if af_identity now \<noteq> af_identity f
             then (Inl (ValueError ''application changed during admission''), fs(ap_temp E := None))
             else case fs (ap_temp E) of
               None \<Rightarrow> (Inl (OSError ''open''), fs)
             | Some candidate \<Rightarrow> (Inr (True, c'), fs(path \<mapsto> candidate, ap_temp E := None)))"

definition backup_of :: "string \<Rightarrow> code_record list \<Rightarrow> string" where
  "backup_of state rs = path_join state (''original-'' @ chash (hd rs))"

definition ensure_main_profile :: "'c app_env \<Rightarrow> string \<Rightarrow> string \<Rightarrow> app_files \<Rightarrow> 'c \<Rightarrow> (bool \<times> 'c) result \<times> app_files" where
  "ensure_main_profile E path state fs c =
     (case fs path of
        None \<Rightarrow> (Inl (OSError ''open''), fs)
      | Some f \<Rightarrow>
        case native_records E (af_bytes f) of
          Inl e \<Rightarrow> (Inl e, fs)
        | Inr rs \<Rightarrow>
          case has_profile E (af_bytes f) rs of
            Inl e \<Rightarrow> (Inl e, fs)
          | Inr True \<Rightarrow> (Inr (False, c), fs)
          | Inr False \<Rightarrow>
            case ap_profile E of
              Inl e \<Rightarrow> (Inl e, fs)
            | Inr profile \<Rightarrow>
              if \<not> grants_all profile then (Inl (ValueError ''shipped chroot profile is incomplete''), fs)
              else
              let backup = backup_of state rs;
                  fs = (if fs backup = None
                        then fs(backup \<mapsto> f\<lparr>af_identity := ap_stamp E backup (af_bytes f), af_owner := (0, 0)\<rparr>) else fs)
              in replace_main E path f fs c)"

subsection \<open>Admission\<close>

text \<open>
  What the rest of the run meets: the walk over the executable and its plug-ins, how a dependency is
  observed, the files of the closure, the two manifests, the negative index and what \<open>os.stat\<close> reports
  before trust is restored.
\<close>

record 'c admission_env =
  ae_app :: "'c app_env"
  ae_root :: bool
  ae_key :: "string \<Rightarrow> string"
  ae_state_owned :: bool
  ae_state_mode :: nat
  ae_scan :: scan_env
  ae_walk :: "string \<Rightarrow> string \<Rightarrow> app_files \<Rightarrow> observation list"
  ae_observe :: "string \<Rightarrow> observation"
  ae_fs :: dep_fs
  ae_manifest :: "manifest_file option"
  ae_dependencies :: "manifest_file option"
  ae_index :: resource_index
  ae_stat :: "string \<rightharpoonup> identity"
  ae_dumps :: "pyval \<Rightarrow> nat"

type_synonym app_records = "(string \<times> identity \<times> code_record list) list"

text \<open>\<open>records.update(extra)\<close>\<close>

definition merge_records :: "app_records \<Rightarrow> app_records \<Rightarrow> app_records" where
  "merge_records rs extra = foldl (\<lambda>kv (p, r). py_set kv p r) rs extra"

definition encode_dependency :: "dep_names \<times> identity \<Rightarrow> pyval" where
  "encode_dependency m =
     PDict [(''identity'', PList (map PInt (snd m))), (''loads'', PList (map PStr (fst (fst m)))),
            (''rpaths'', PList (map PStr (snd (fst m))))]"

record 'c prepared =
  pr_converted :: bool
  pr_records :: app_records
  pr_closure :: dep_state
  pr_added :: "nat \<times> string"
  pr_trust :: 'c

definition prepare_locked :: "'c admission_env \<Rightarrow> string \<Rightarrow> string \<Rightarrow> string \<Rightarrow> app_files \<Rightarrow> 'c \<Rightarrow> 'c prepared result \<times> app_files" where
  "prepare_locked E executable plugins state fs c =
     (case ensure_main_profile (ae_app E) executable state fs c of (r, fs') \<Rightarrow>
      (bindE r (\<lambda>(converted, c1).
       let cached = map_of (load_cache (ae_manifest E)) in
       bindE (scan (ae_scan E) cached (ae_walk E executable plugins fs') (Some (ae_index E))) (\<lambda>st1.
       bindE (closure (ae_fs E) executable (map fst (records st1)) ROOT (map_of (load_cache (ae_dependencies E)))) (\<lambda>deps.
       bindE (scan (ae_scan E) cached
          (map (ae_observe E) (filter (\<lambda>p. p \<notin> fst ` set (records st1)) (ordered deps))) (resources st1)) (\<lambda>st2.
       let recs = merge_records (records st1) (records st2) in
       bindE (foldE (still_current (ae_stat E)) recs ()) (\<lambda>_.
       bindE (restore (ap_device (ae_app E)) (hashes st1 \<union> hashes st2) False c1) (\<lambda>(added, c2).
       bindE (save_cache (ae_dumps E) (ae_state_owned E) (ae_state_mode E) (map (\<lambda>(p, r). (p, encode_record r)) recs)) (\<lambda>_.
       bindE (save_cache (ae_dumps E) (ae_state_owned E) (ae_state_mode E)
          (map (\<lambda>(p, m). (p, encode_dependency m)) (metadata deps))) (\<lambda>_.
       Inr \<lparr>pr_converted = converted, pr_records = recs, pr_closure = deps, pr_added = added, pr_trust = c2\<rparr>)))))))), fs'))"

definition STATE :: string where "STATE = ROOT @ ''/var/db/macws/system-app-admission''"

definition prepare :: "'c admission_env \<Rightarrow> string \<Rightarrow> app_files \<Rightarrow> 'c \<Rightarrow> 'c prepared result \<times> app_files" where
  "prepare E path fs c =
     (if \<not> ae_root E then (Inl (ValueError ''root required''), fs)
      else case resolve_target (ae_app E) fs path of
        Inl e \<Rightarrow> (Inl e, fs)
      | Inr (executable, plugins) \<Rightarrow>
        if \<not> ae_state_owned E \<or> writable_by_others (ae_state_mode E)
        then (Inl (ValueError ''unsafe admission state directory''), fs)
        else prepare_locked E executable plugins (path_join STATE (ae_key E path)) fs c)"

subsection \<open>The image is replaced as a transaction\<close>





subsection \<open>Admission covers the image and its dependencies\<close>

lemma set_py_set: "set (py_set kv k v) \<subseteq> insert (k, v) (set kv)"
  by (induction kv k v rule: py_set.induct) auto

lemma set_merge_records: "set (merge_records rs extra) \<subseteq> set rs \<union> set extra"
proof (induction extra arbitrary: rs)
  case (Cons x extra)
  obtain p r where x: "x = (p, r)" by (cases x)
  have "set (merge_records rs (x # extra)) \<subseteq> set (py_set rs p r) \<union> set extra"
    using Cons.IH [of "py_set rs p r"] by (simp add: merge_records_def x)
  with set_py_set [of rs p r] show ?case by (auto simp: x)
qed (simp add: merge_records_def)

lemma keys_merge_records: "fst ` set (merge_records rs extra) = fst ` set rs \<union> fst ` set extra"
proof (induction extra arbitrary: rs)
  case (Cons x extra)
  obtain p r where x: "x = (p, r)" by (cases x)
  have "fst ` set (merge_records rs (x # extra)) = fst ` set (py_set rs p r) \<union> fst ` set extra"
    using Cons.IH [of "py_set rs p r"] by (simp add: merge_records_def x)
  with keys_py_set [of rs p r] show ?case by (auto simp: x)
qed (simp add: merge_records_def)

text \<open>
  A path and identity without a signed native slice: the negative index given at the start says so, or
  one of the files met with them was read and had none.
\<close>

definition unsigned :: "scan_env \<Rightarrow> resource_index \<Rightarrow> observation set \<Rightarrow> string \<Rightarrow> identity \<Rightarrow> bool" where
  "unsigned E ix Y p k \<longleftrightarrow> unchanged ix p k = Inr True \<or> (\<exists>y \<in> Y. fpath y = p \<and> key y = k \<and> read_codes E y = Inr [])"

definition index_from :: "scan_env \<Rightarrow> resource_index \<Rightarrow> observation set \<Rightarrow> resource_index option \<Rightarrow> bool" where
  "index_from E ix Y r \<longleftrightarrow> (\<forall>ix' p k. r = Some ix' \<longrightarrow> unchanged ix' p k = Inr True \<longrightarrow> unsigned E ix Y p k)"

lemma unchanged_remember:
  assumes "remember ix p k = Inr ix'" and "unchanged ix' q l = Inr True"
  shows "unchanged ix q l = Inr True \<or> (q = p \<and> l = k)"
proof (cases "\<not> connected ix \<or> readonly ix")
  case False
  with assms(1) obtain packed where packed: "pack_identity k = Inr packed" and c: "connected ix'" "rows ix' = (rows ix)(p \<mapsto> packed)"
    by (auto simp: remember_def Let_def split: if_split_asm)
  show ?thesis
  proof (cases "q = p")
    case True
    with assms(2) c have "pack_identity l = Inr packed" by (auto simp: unchanged_def)
    with packed True show ?thesis using pack_identity_inj by blast
  qed (use assms(2) c False in \<open>simp add: unchanged_def\<close>)
qed (use assms in \<open>simp add: remember_def\<close>)

lemma admit_covers:
  assumes "admit E x codes st = Inr t" and "index_from E ix Y (resources st)"
    and "x \<in> Y" and "codes = [] \<Longrightarrow> read_codes E x = Inr []"
  shows "seen st \<subseteq> seen t" and "index_from E ix Y (resources t)" and "fpath x \<in> seen t \<or> unsigned E ix Y (fpath x) (key x)"
proof -
  have "seen st \<subseteq> seen t \<and> index_from E ix Y (resources t) \<and> (fpath x \<in> seen t \<or> unsigned E ix Y (fpath x) (key x))"
  proof (cases "codes = []")
    case True
    with assms(3,4) have u: "unsigned E ix Y (fpath x) (key x)" by (auto simp: unsigned_def)
    from assms(1) True have "resource_remember st x = Inr t" by (simp add: admit_def)
    with assms(2) have "seen t = seen st \<and> index_from E ix Y (resources t)"
      using u unchanged_remember by (auto simp: resource_remember_def index_from_def split: option.splits) metis
    with u show ?thesis by simp
  qed (use assms(1,2) in \<open>auto simp: admit_def Let_def split: if_split_asm\<close>)
  then show "seen st \<subseteq> seen t" and "index_from E ix Y (resources t)" and "fpath x \<in> seen t \<or> unsigned E ix Y (fpath x) (key x)"
    by auto
qed

lemma cached_codes_some: "cached_codes v k = Some codes \<Longrightarrow> codes \<noteq> []"
  by (auto simp: cached_codes_def split: pyval.splits if_split_asm option.splits)

lemma scan_step_covers:
  assumes step: "scan_step E cache x st = Inr t" and ix: "index_from E ix Y (resources st)" and Y: "x \<in> Y"
  shows "seen st \<subseteq> seen t \<and> index_from E ix Y (resources t) \<and> (fpath x \<in> seen t \<or> unsigned E ix Y (fpath x) (key x))"
proof (cases "fpath x \<in> seen st")
  case True
  with step ix show ?thesis by (simp add: scan_step_def)
next
  case False
  define st1 where "st1 = st\<lparr>scanned := scanned st + 1\<rparr>"
  have same: "seen st1 = seen st" "resources st1 = resources st" by (simp_all add: st1_def)
  define prev where "prev = Option.bind (cache (fpath x)) (\<lambda>previous. cached_codes previous (key x))"
  have "scan_step E cache x st = bindE (checkpoint E st1) (\<lambda>_. case prev of Some codes \<Rightarrow> admit E x codes (st1\<lparr>cached := cached st1 + 1\<rparr>)
      | None \<Rightarrow> bindE (resource_unchanged st1 x) (\<lambda>hit.
          if hit then Inr (st1\<lparr>resource_hits := resource_hits st1 + 1\<rparr>)
          else bindE (read_codes E x) (\<lambda>codes. admit E x codes st1)))"
    using False by (simp only: scan_step_def if_False Let_def st1_def prev_def)
  with step have run: "(case prev of Some codes \<Rightarrow> admit E x codes (st1\<lparr>cached := cached st1 + 1\<rparr>)
      | None \<Rightarrow> bindE (resource_unchanged st1 x) (\<lambda>hit.
          if hit then Inr (st1\<lparr>resource_hits := resource_hits st1 + 1\<rparr>)
          else bindE (read_codes E x) (\<lambda>codes. admit E x codes st1))) = Inr t"
    by (simp only: bindE_eq_Inr) blast
  show ?thesis
  proof (cases prev)
    case (Some codes)
    then have "codes \<noteq> []" by (auto simp: prev_def bind_eq_Some_conv dest: cached_codes_some)
    moreover from run Some have "admit E x codes (st1\<lparr>cached := cached st1 + 1\<rparr>) = Inr t" by simp
    ultimately show ?thesis using admit_covers [of E x codes "st1\<lparr>cached := cached st1 + 1\<rparr>" t ix Y] ix Y same by simp
  next
    case None
    with run obtain hit where hit: "resource_unchanged st1 x = Inr hit"
      and rest: "(if hit then Inr (st1\<lparr>resource_hits := resource_hits st1 + 1\<rparr>)
          else bindE (read_codes E x) (\<lambda>codes. admit E x codes st1)) = Inr t" by auto
    show ?thesis
    proof (cases hit)
      case True
      with hit ix same have "unsigned E ix Y (fpath x) (key x)"
        by (auto simp: resource_unchanged_def index_from_def split: option.splits)
      moreover have "t = st1\<lparr>resource_hits := resource_hits st1 + 1\<rparr>" using rest True by simp
      ultimately show ?thesis using same ix by simp
    next
      case False
      with rest obtain codes where "read_codes E x = Inr codes" "admit E x codes st1 = Inr t" by auto
      then show ?thesis using admit_covers [of E x codes st1 t ix Y] ix Y same by simp
    qed
  qed
qed

lemma scan_covers:
  assumes "scan E cache xs r = Inr st" and "index_from E ix Y r" and "set xs \<subseteq> Y"
  shows "index_from E ix Y (resources st)"
    and "x \<in> set xs \<Longrightarrow> fpath x \<in> fst ` set (records st) \<or> unsigned E ix Y (fpath x) (key x)"
proof -
  have "seen s \<subseteq> seen t \<and> index_from E ix Y (resources t) \<and> (\<forall>x \<in> set xs. fpath x \<in> seen t \<or> unsigned E ix Y (fpath x) (key x))"
    if "foldE (scan_step E cache) xs s = Inr t" "index_from E ix Y (resources s)" "set xs \<subseteq> Y" for xs s t
    using that
  proof (induction xs arbitrary: s)
    case (Cons y ys)
    then obtain u where u: "scan_step E cache y s = Inr u" "foldE (scan_step E cache) ys u = Inr t" by auto
    from Cons.prems(3) have y: "y \<in> Y" "set ys \<subseteq> Y" by auto
    from scan_step_covers [OF u(1) Cons.prems(2) y(1)] Cons.IH [OF u(2) _ y(2)] show ?case by auto
  qed simp
  from this [OF assms(1) [unfolded scan_def] _ assms(3)] assms(2)
  have "index_from E ix Y (resources st)" and all: "\<forall>x \<in> set xs. fpath x \<in> seen st \<or> unsigned E ix Y (fpath x) (key x)"
    by (auto simp: scan_start_def)
  then show "index_from E ix Y (resources st)" by simp
  have "seen st = fst ` set (records st)" using scan_wf_scan [OF assms(1)] by (simp add: scan_wf_def dom_map_of_conv_image_fst)
  with all show "x \<in> set xs \<Longrightarrow> fpath x \<in> fst ` set (records st) \<or> unsigned E ix Y (fpath x) (key x)" by auto
qed

lemma scan_hashes:
  assumes "scan E cache xs ix = Inr st"
  shows "finite (hashes st)" and "(p, k, cs) \<in> set (records st) \<Longrightarrow> chash ` set cs \<subseteq> hashes st"
proof -
  note w = scan_wf_scan [OF assms, unfolded scan_wf_def]
  show "finite (hashes st)" using w by simp
  assume "(p, k, cs) \<in> set (records st)"
  then have "map_of (records st) p = Some (k, cs)" using w by simp
  then have "(k, cs) \<in> ran (map_of (records st))" by (auto simp: ran_def)
  then have "chash ` set cs \<subseteq> recorded_hashes st" by (auto simp: recorded_hashes_def)
  then show "chash ` set cs \<subseteq> hashes st" using w by simp
qed

text \<open>
  C26: A prepared application can load.  When the preparation succeeds, the trust cache contains every
  hash of every recorded image and none of them has moved; the executable and the recorded images that seed the
  closure are among its listed files, all inside the root file system; every dependency a listed image
  resolves to is again a listed file (\<open>closed_at\<close>); and each listed image is recorded, and so
  trusted, or was found to carry no signed native slice, in this run or by the index it started with.
  Assumed is that observing a path yields an observation of that path.
\<close>

theorem prepared_app_trusted:
  assumes run: "prepare_locked E executable plugins state fs c = (Inr pr, fs')" and obs: "\<And>p. fpath (ae_observe E p) = p"
  shows "\<exists>P seeds. trusted_hashes (ap_device (ae_app E)) (pr_trust pr) = Inr P \<and>
    (\<forall>(p, k, cs) \<in> set (pr_records pr). ae_stat E p = Some k \<and> chash ` set cs \<subseteq> P) \<and>
    set seeds \<subseteq> fst ` set (pr_records pr) \<and> (\<forall>q \<in> set (executable # seeds). listed (ae_fs E) q (pr_closure pr)) \<and>
    (\<forall>p \<in> set (ordered (pr_closure pr)). starts (realpath (ae_fs E) ROOT @ ''/'') p \<and>
       closed_at (ae_fs E) (realpath (ae_fs E) ROOT) (path_dirname (realpath (ae_fs E) executable))
         (first_paths (ae_fs E) (realpath (ae_fs E) ROOT) executable seeds (pr_closure pr))
         (map_of (load_cache (ae_dependencies E))) p (pr_closure pr) \<and>
       (p \<in> fst ` set (pr_records pr) \<or> unsigned (ae_scan E) (ae_index E)
          (set (ae_walk E executable plugins fs') \<union> ae_observe E ` set (ordered (pr_closure pr))) p (key (ae_observe E p))))"
proof -
  let ?Y = "set (ae_walk E executable plugins fs') \<union> ae_observe E ` set (ordered (pr_closure pr))"
  from run obtain c1 st1 st2 where scan1: "scan (ae_scan E) (map_of (load_cache (ae_manifest E)))
      (ae_walk E executable plugins fs') (Some (ae_index E)) = Inr st1"
    and clo: "closure (ae_fs E) executable (map fst (records st1)) ROOT (map_of (load_cache (ae_dependencies E))) = Inr (pr_closure pr)"
    and scan2: "scan (ae_scan E) (map_of (load_cache (ae_manifest E)))
        (map (ae_observe E) (filter (\<lambda>p. p \<notin> fst ` set (records st1)) (ordered (pr_closure pr)))) (resources st1) = Inr st2"
    and recs: "pr_records pr = merge_records (records st1) (records st2)"
    and now: "foldE (still_current (ae_stat E)) (pr_records pr) () = Inr ()"
    and res: "restore (ap_device (ae_app E)) (hashes st1 \<union> hashes st2) False c1 = Inr (pr_added pr, pr_trust pr)"
    by (auto simp: prepare_locked_def Let_def split: prod.splits)
  from restore_trusts [OF res] scan_hashes(1) [OF scan1] scan_hashes(1) [OF scan2] obtain P
    where P: "trusted_hashes (ap_device (ae_app E)) (pr_trust pr) = Inr P" "hashes st1 \<union> hashes st2 \<subseteq> P" by auto
  have trusted: "ae_stat E p = Some k \<and> chash ` set cs \<subseteq> P" if "(p, k, cs) \<in> set (pr_records pr)" for p k cs
    using all_current [OF now that] that set_merge_records [of "records st1" "records st2"] P(2)
      scan_hashes(2) [OF scan1, of p k cs] scan_hashes(2) [OF scan2, of p k cs] by (auto simp: recs)
  have "index_from (ae_scan E) (ae_index E) ?Y (Some (ae_index E))" by (simp add: index_from_def unsigned_def)
  from scan_covers(1) [OF scan1 this] have ix: "index_from (ae_scan E) (ae_index E) ?Y (resources st1)" by simp
  have seen: "p \<in> fst ` set (pr_records pr) \<or> unsigned (ae_scan E) (ae_index E) ?Y p (key (ae_observe E p))"
    if "p \<in> set (ordered (pr_closure pr))" for p
    using scan_covers(2) [OF scan2 ix, of "ae_observe E p"] that obs [of p] by (auto simp: recs keys_merge_records)
  have seeds: "set (map fst (records st1)) \<subseteq> fst ` set (pr_records pr)" by (auto simp: recs keys_merge_records)
  show ?thesis
    apply (rule exI [of _ P], rule exI [of _ "map fst (records st1)"])
    using P(1) trusted seen closure_facts [OF clo] seeds by blast
qed

subsection \<open>A preparation\<close>

text \<open>The signed image with another flags field, as it is before the policy is merged into it.\<close>

definition sample_plain :: bytes where "sample_plain = sample_image[24 := 1]"

lemma sample_plain_slices:
  "slice sample_plain 0 4 = slice sample_image 0 4" "u32 LE (slice sample_plain 0 32) 4 = 0x0100000c"
  "u32 LE (slice sample_plain 0 32) 8 = 0" "u32 LE (slice sample_plain 0 32) 16 = 1" "u32 LE (slice sample_plain 0 32) 20 = 16"
  by code_simp+

lemma sample_plain_tail: "32 \<le> a \<Longrightarrow> slice sample_plain a n = slice sample_image a n"
  by (simp add: sample_plain_def slice_def drop_update_cancel)

lemma sample_plain_length: "length sample_plain = 112"
  by (simp add: sample_plain_def sample_length)

lemma sample_plain_ne: "sample_plain \<noteq> sample_image" "sample_image \<noteq> sample_plain"
proof -
  have "sample_plain ! 24 = 1" "sample_image ! 24 = 0" by code_simp+
  then show "sample_plain \<noteq> sample_image" "sample_image \<noteq> sample_plain" by auto
qed

lemma sample_plain_codes: "code_hashes sample_hasher sample_plain 112 = Inr [sample_code]"
proof -
  have "take 4 sample_plain = [0xcf, 0xfa, 0xed, 0xfe]"
    using sample_plain_slices(1) sample_slices(1) by (simp add: slice_def)
  moreover have "take 40 (hex (sample_hasher Sha256 (slice sample_plain 68 44))) = concat (replicate 20 ''2c'')"
    unfolding sample_plain_tail [of 68, simplified] by code_simp
  then have "directory_hash sample_hasher sample_plain 68 44 = Inr (3, 2, concat (replicate 20 ''2c''))"
    using digest_chunks_eq [of 68 44 sample_plain 0 "[]"]
    by (simp add: directory_hash_def read_at_def sample_plain_tail sample_fields sample_length sample_plain_length algorithms_def)
  moreover have "slice_header sample_plain 0 112 = Inr (Some (LE, ''arm64'', 1, 16))"
    by (simp add: slice_header_def read_at_def sample_slices(1) sample_plain_slices sample_plain_length)
  moreover have "signature_walk sample_plain LE 0 112 16 (Suc 0) 32 None = Inr (48, Some (48, 64))"
    by (simp add: signature_command_def read_at_def sample_plain_tail sample_fields sample_length sample_plain_length)
  ultimately show ?thesis
    by (simp add: code_hashes_def MAGICS_def thin_magics_def fat_magics_def slice_hash_def embedded_signature_def
        index_entry_def is_code_directory_slot_def better_def sample_code_def
        read_at_def sample_plain_tail sample_fields sample_length sample_plain_length)
qed

definition sample_policy :: "(string \<times> pyval) list" where
  "sample_policy = map (\<lambda>k. (k, PBool True)) REQUIRED"

definition sample_app :: "string list app_env" where
  "sample_app = \<lparr>ap_realpath = id, ap_hash = sample_hasher,
     ap_rights = (\<lambda>b a. Inr (if b = sample_image then sample_policy else [])),
     ap_sign = (\<lambda>b. Inr sample_image), ap_profile = Inr sample_policy, ap_temp = ''t'',
     ap_stamp = (\<lambda>p b. [1, 2, 112, 9, 9]), ap_others = id, ap_device = sample_device\<rparr>"

definition sample_main :: app_file where
  "sample_main = \<lparr>af_bytes = sample_plain, af_identity = [1, 2, 112, 3, 3], af_owner = (0, 80), af_regular = True\<rparr>"

lemma sample_records:
  "native_records sample_app sample_plain = Inr [sample_code]" "native_records sample_app sample_image = Inr [sample_code]"
  by (simp_all add: native_records_def sample_app_def sample_plain_length sample_length sample_plain_codes sample_code_hashes sample_code_def)

lemma sample_profiles:
  "has_profile sample_app sample_image [sample_code] = Inr True" "has_profile sample_app sample_plain [sample_code] = Inr False"
  "grants_all sample_policy"
proof -
  have "grants_all sample_policy" "\<not> grants_all []" by code_simp+
  then show "has_profile sample_app sample_image [sample_code] = Inr True" "has_profile sample_app sample_plain [sample_code] = Inr False"
    "grants_all sample_policy" by (simp_all add: has_profile_def sample_app_def sample_plain_ne)
qed

lemma sample_restore: "restore sample_device {chash sample_code} False [] = Inr ((1, ''jbctl''), [chash sample_code])"
proof -
  have "lib_add sample_device = None" and "jbctl_add sample_device h c = Inr (h # c)" for h c
    by (simp_all add: sample_device_def)
  then show ?thesis by (simp add: restore_def add_hash_def sample_trusted)
qed






definition sample_exe :: string where "sample_exe = ''/var/mnt/rootfs/a''"
definition sample_lib :: string where "sample_lib = ''/var/mnt/rootfs/b''"

definition sample_app_fs :: dep_fs where
  "sample_app_fs = \<lparr>realpath = id, isfile = (\<lambda>p. p \<in> {sample_exe, sample_lib}),
     stat_file = [sample_exe \<mapsto> sample_dep 1, sample_lib \<mapsto> sample_dep 2]\<rparr>"

definition sample_met :: "string \<Rightarrow> observation" where
  "sample_met p = sample_file\<lparr>fpath := p\<rparr>"

definition sample_dependencies :: manifest_file where
  "sample_dependencies = \<lparr>is_regular = True, owned = True, mode = 384, byte_size = 200,
     parsed = Some (PDict [(''schema'', PInt CACHE_SCHEMA),
       (''files'', PDict [(sample_exe, sample_meta 1 [''/b'']), (sample_lib, sample_meta 2 [])])])\<rparr>"

definition sample_admission_env :: "string list admission_env" where
  "sample_admission_env = \<lparr>ae_app = sample_app, ae_root = True, ae_key = id, ae_state_owned = True, ae_state_mode = 448,
     ae_scan = sample_env, ae_walk = (\<lambda>p plugins fs. [sample_met p]), ae_observe = sample_met, ae_fs = sample_app_fs,
     ae_manifest = None, ae_dependencies = Some sample_dependencies,
     ae_index = \<lparr>connected = False, readonly = False, rows = Map.empty, committed = Map.empty, pending = 0\<rparr>,
     ae_stat = (\<lambda>_. Some [1, 2, 112, 3, 3]), ae_dumps = (\<lambda>_. 200)\<rparr>"

lemma sample_deps_loaded:
  "map_of (load_cache (Some sample_dependencies)) = [sample_exe \<mapsto> sample_meta 1 [''/b''], sample_lib \<mapsto> sample_meta 2 []]"
  by (auto simp: load_cache_def sample_dependencies_def writable_by_others_def MAX_CACHE_BYTES_def py_get_def CACHE_SCHEMA_def
      sample_exe_def sample_lib_def)

definition sample_app_closure :: dep_state where
  "sample_app_closure = \<lparr>ordered = [sample_exe, sample_lib], visited = {(1, 2), (1, 1)},
     metadata = [(sample_exe, (([''/b''], []), [1, 1])), (sample_lib, (([], []), [1, 2]))]\<rparr>"

lemma sample_app_closure_run:
  "closure sample_app_fs sample_exe [sample_exe] ROOT [sample_exe \<mapsto> sample_meta 1 [''/b''], sample_lib \<mapsto> sample_meta 2 []] =
     Inr sample_app_closure"
  by (simp add: closure_def visit.simps contained_def starts_def sample_app_fs_def sample_dep_def read_commands_def ROOT_def
      cached_commands_def cached_names_def sample_meta_def py_get_def str_length_def MAX_DEPTH_def MAX_IMAGES_def
      search_path_def dedupe_def truthy_def candidates_def expand_def sample_app_closure_def sample_exe_def sample_lib_def)

definition sample_app_scan :: "string \<Rightarrow> scan_state" where
  "sample_app_scan p = sample_scan\<lparr>records := [(p, [1, 2, 112, 3, 3], [sample_code])], seen := {p},
     resources := Some (ae_index sample_admission_env)\<rparr>"

lemma sample_app_scan_run:
  "scan sample_env Map.empty [sample_met p] (Some (ae_index sample_admission_env)) = Inr (sample_app_scan p)"
  by (simp add: scan_def scan_start_def scan_step_def Let_def sample_env_def sample_met_def sample_file_def checkpoint_def
      resource_unchanged_def unchanged_def sample_admission_env_def read_codes_def sample_code_hashes admit_def ldid_agrees_def
      sample_app_scan_def sample_scan_def sample_code_def)

definition sample_app_result :: "string list prepared" where
  "sample_app_result = \<lparr>pr_converted = False,
     pr_records = [(sample_exe, [1, 2, 112, 3, 3], [sample_code]), (sample_lib, [1, 2, 112, 3, 3], [sample_code])],
     pr_closure = sample_app_closure, pr_added = (1, ''jbctl''), pr_trust = [chash sample_code]\<rparr>"

definition sample_app_files :: app_files where
  "sample_app_files = [sample_exe \<mapsto> sample_main\<lparr>af_bytes := sample_image\<rparr>]"

lemma sample_prepare:
  "prepare_locked sample_admission_env sample_exe [] ''s'' sample_app_files [] = (Inr sample_app_result, sample_app_files)"
proof -
  have E: "ae_app sample_admission_env = sample_app" "ae_scan sample_admission_env = sample_env"
    "ae_walk sample_admission_env p q fs = [sample_met p]" "ae_observe sample_admission_env = sample_met"
    "ae_fs sample_admission_env = sample_app_fs" "ae_manifest sample_admission_env = None"
    "ae_dependencies sample_admission_env = Some sample_dependencies" "ae_stat sample_admission_env p = Some [1, 2, 112, 3, 3]"
    "ae_state_owned sample_admission_env" "ae_state_mode sample_admission_env = 448" "ae_dumps sample_admission_env v = 200"
    "ap_device sample_app = sample_device" for p q fs v
    by (simp_all add: sample_admission_env_def sample_app_def)
  have main: "ensure_main_profile sample_app sample_exe ''s'' sample_app_files [] = (Inr (False, []), sample_app_files)"
    by (simp add: ensure_main_profile_def sample_app_files_def sample_records sample_profiles)
  have ne: "sample_lib \<noteq> sample_exe" "sample_exe \<noteq> sample_lib" by (simp_all add: sample_exe_def sample_lib_def)
  have saved: "\<exists>mf. save_cache (ae_dumps sample_admission_env) True 448 files = Inr mf" for files
    by (simp add: save_cache_def writable_by_others_def E MAX_CACHE_BYTES_def)
  have r: "resources (sample_app_scan sample_exe) = Some (ae_index sample_admission_env)"
    "hashes (sample_app_scan p) = {chash sample_code}" "records (sample_app_scan p) = [(p, [1, 2, 112, 3, 3], [sample_code])]" for p
    by (simp_all add: sample_app_scan_def sample_scan_def)
  have deps: "ordered sample_app_closure = [sample_exe, sample_lib]" by (simp add: sample_app_closure_def)
  have merged: "merge_records [(sample_exe, [1, 2, 112, 3, 3], [sample_code])] [(sample_lib, [1, 2, 112, 3, 3], [sample_code])] =
      pr_records sample_app_result" using ne by (simp add: merge_records_def sample_app_result_def)
  have now: "foldE (still_current (ae_stat sample_admission_env)) (pr_records sample_app_result) () = Inr ()"
    by (simp add: still_current_def E sample_app_result_def)
  show ?thesis
    using saved
    by (simp add: prepare_locked_def E main load_cache_def [of None] sample_app_scan_run Let_def r sample_deps_loaded
        sample_app_closure_run deps ne merged now sample_restore) (simp add: sample_app_result_def)
qed

theorem prepared_app_trusted_witness:
  "\<exists>P seeds. trusted_hashes sample_device [chash sample_code] = Inr P \<and> chash sample_code \<in> P \<and>
    listed sample_app_fs sample_exe sample_app_closure \<and>
    closed_at sample_app_fs ROOT ''/var/mnt/rootfs'' (first_paths sample_app_fs ROOT sample_exe seeds sample_app_closure)
      (map_of (load_cache (ae_dependencies sample_admission_env))) sample_exe sample_app_closure"
proof -
  have obs: "fpath (ae_observe sample_admission_env p) = p" for p
    by (simp add: sample_admission_env_def sample_met_def)
  have E: "ap_device (ae_app sample_admission_env) = sample_device" "pr_trust sample_app_result = [chash sample_code]"
    "ae_fs sample_admission_env = sample_app_fs" "pr_closure sample_app_result = sample_app_closure"
    "ordered sample_app_closure = [sample_exe, sample_lib]" "realpath sample_app_fs p = p"
    "path_dirname sample_exe = ''/var/mnt/rootfs''"
    "pr_records sample_app_result = [(sample_exe, [1, 2, 112, 3, 3], [sample_code]), (sample_lib, [1, 2, 112, 3, 3], [sample_code])]" for p
    by (simp_all add: sample_admission_env_def sample_app_def sample_app_result_def sample_app_fs_def sample_app_closure_def
        sample_exe_def path_dirname_def)
  obtain P seeds where "trusted_hashes sample_device [chash sample_code] = Inr P"
    "\<forall>(p, k, cs) \<in> set (pr_records sample_app_result). ae_stat sample_admission_env p = Some k \<and> chash ` set cs \<subseteq> P"
    "\<forall>q \<in> set (sample_exe # seeds). listed sample_app_fs q sample_app_closure"
    "\<forall>p \<in> set (ordered sample_app_closure). closed_at sample_app_fs ROOT ''/var/mnt/rootfs''
       (first_paths sample_app_fs ROOT sample_exe seeds sample_app_closure)
       (map_of (load_cache (ae_dependencies sample_admission_env))) p sample_app_closure"
    using prepared_app_trusted [OF sample_prepare obs] unfolding E(1-4,6,7) by blast
  then show ?thesis unfolding E(5,8) by (intro exI [of _ P] exI [of _ seeds]) simp
qed

end
