(* ===== verification/Provider.thy ===== *)
theory Provider
  imports TrustScan FatSlices ManagedJobs "HOL-Library.Multiset"
begin

text \<open>
  \<^verbatim>\<open>misc/macws_provider_contract.py\<close>: the contract of the CydiaSubstrate provider.  A file is inspected
  slice by slice; a fat provider, its thin companions and a staged bundle are verified; \<open>stage\<close> builds a
  bundle and \<open>publish\<close> puts a provider in place.  Files are a map from paths; \<open>lipo\<close>, \<open>ldid\<close>, \<open>jbctl\<close>
  and SHA-256 are parameters, and \<open>pt_others\<close> is what other processes do to the files just after the
  provider was put in place.  Paths are strings, joined as \<open>pathlib\<close> joins them.
\<close>

subsection \<open>The inspection of a slice\<close>

definition MH_DYLIB :: nat where "MH_DYLIB = 6"
definition LC_ID_DYLIB :: nat where "LC_ID_DYLIB = 0x0d"
definition LC_BUILD_VERSION :: nat where "LC_BUILD_VERSION = 0x32"
definition LC_VERSION_MIN_MACOSX :: nat where "LC_VERSION_MIN_MACOSX = 0x24"
definition LC_VERSION_MIN_IPHONEOS :: nat where "LC_VERSION_MIN_IPHONEOS = 0x25"
definition PLATFORM_MACOS :: nat where "PLATFORM_MACOS = 1"
definition PLATFORM_IOS :: nat where "PLATFORM_IOS = 2"
definition PROVIDER_NAME :: string where "PROVIDER_NAME = ''CydiaSubstrate''"
definition REQUIRED_ARCHS :: "string list" where "REQUIRED_ARCHS = [''arm64'', ''arm64e'']"

definition INSTALL_NAME :: string where
  "INSTALL_NAME = ''/System/Library/Frameworks/CydiaSubstrate.framework/CydiaSubstrate''"

record slice_info =
  si_arch :: string
  si_cputype :: int
  si_cpusubtype :: int
  si_offset :: nat
  si_size :: nat
  si_filetype :: nat
  si_platform :: nat
  si_minos :: "nat \<times> nat \<times> nat"
  si_install_name :: "string option"
  si_sha256 :: string

text \<open>An \<open>i\<close> field of \<open>struct\<close>, and \<open>%x\<close>.\<close>

definition signed32 :: "nat \<Rightarrow> int" where
  "signed32 v = (if v < 2 ^ 31 then int v else int v - 2 ^ 32)"

fun show_hex :: "nat \<Rightarrow> string" where
  "show_hex n = (if n < 16 then [] else show_hex (n div 16)) @ [hex_digits ! (n mod 16)]"

declare show_hex.simps [simp del]

definition provider_arch :: "int \<Rightarrow> int \<Rightarrow> string" where
  "provider_arch cputype cpusubtype =
     (let sub = cpusubtype mod 2 ^ 24 in
      if (cputype, sub) = (0x0100000c, 0) then ''arm64''
      else if (cputype, sub) = (0x0100000c, 2) then ''arm64e''
      else if (cputype, sub) = (0x01000007, 3) then ''x86_64''
      else ''cpu'' @ show_hex (nat (cputype mod 2 ^ 32)) @ ''_'' @ show_hex (nat sub))"

definition decode_version :: "nat \<Rightarrow> nat \<times> nat \<times> nat" where
  "decode_version v = (v div 65536 mod 65536, v div 256 mod 256, v mod 256)"

record dylib_scan =
  ds_platform :: "nat option"
  ds_minos :: "(nat \<times> nat \<times> nat) option"
  ds_name :: "string option"

text \<open>The body of the loop: the command \<open>cmd\<close> of \<open>cmdsize\<close> bytes at \<open>off\<close>.\<close>

definition provider_command :: "endian \<Rightarrow> bytes \<Rightarrow> nat \<Rightarrow> nat \<Rightarrow> nat \<Rightarrow> dylib_scan \<Rightarrow> dylib_scan result" where
  "provider_command e d off cmd cmdsize st =
     (if cmd = LC_BUILD_VERSION then
        if cmdsize < 24 then Inl (ProviderError '': short LC_BUILD_VERSION'')
        else bindE (room d (off + 8) 16) (\<lambda>_.
          let ntools = u32 e d (off + 20) in
          if ntools \<noteq> 0 \<and> 24 + ntools * 8 > cmdsize then Inl (ProviderError '': invalid LC_BUILD_VERSION tools'')
          else Inr (st\<lparr>ds_platform := Some (u32 e d (off + 8)), ds_minos := Some (decode_version (u32 e d (off + 12)))\<rparr>))
      else if cmd = LC_VERSION_MIN_IPHONEOS then
        bindE (unpack_from e 4 d (off + 8)) (\<lambda>v.
        Inr (st\<lparr>ds_platform := Some PLATFORM_IOS, ds_minos := Some (decode_version v)\<rparr>))
      else if cmd = LC_VERSION_MIN_MACOSX then
        bindE (unpack_from e 4 d (off + 8)) (\<lambda>v.
        Inr (st\<lparr>ds_platform := Some PLATFORM_MACOS, ds_minos := Some (decode_version v)\<rparr>))
      else if cmd = LC_ID_DYLIB then
        if cmdsize < 24 then Inl (ProviderError '': short LC_ID_DYLIB'')
        else bindE (unpack_from e 4 d (off + 8)) (\<lambda>name_offset.
          if name_offset < 24 \<or> name_offset \<ge> cmdsize then Inl (ProviderError '': invalid LC_ID_DYLIB name offset'')
          else
            let raw = slice d (off + name_offset) (cmdsize - name_offset) in
            if 0 \<notin> set raw then Inl (ProviderError '': unterminated LC_ID_DYLIB'')
            else bindE (decode_utf8 (until_nul raw)) (\<lambda>name. Inr (st\<lparr>ds_name := Some name\<rparr>)))
      else Inr st)"

fun provider_walk :: "endian \<Rightarrow> bytes \<Rightarrow> nat \<Rightarrow> nat \<Rightarrow> nat \<Rightarrow> dylib_scan \<Rightarrow> dylib_scan result" where
  "provider_walk e d fin 0 off st = Inr st"
| "provider_walk e d fin (Suc n) off st =
     (if off + 8 > fin then Inl (ProviderError '': truncated load command'')
      else bindE (room d off 8) (\<lambda>_.
        let cmd = u32 e d off; cmdsize = u32 e d (off + 4) in
        if cmdsize < 8 \<or> off + cmdsize > fin then Inl (ProviderError '': invalid load command size'')
        else bindE (provider_command e d off cmd cmdsize st) (provider_walk e d fin n (off + cmdsize))))"

definition parse_thin :: "(bytes \<Rightarrow> string) \<Rightarrow> bytes \<Rightarrow> nat \<Rightarrow> nat \<Rightarrow> slice_info result" where
  "parse_thin sha d off n =
     (if n < 32 then Inl (ProviderError '': slice is too small'')
      else bindE (unpack_from LE 4 d off) (\<lambda>little.
      bindE (unpack_from BE 4 d off) (\<lambda>big.
      if little \<noteq> MH_MAGIC_64 \<and> big \<noteq> MH_MAGIC_64 then Inl (ProviderError '': not a 64-bit Mach-O slice'')
      else
      let e = (if little = MH_MAGIC_64 then LE else BE) in
      bindE (room d off 32) (\<lambda>_.
      let cputype = signed32 (u32 e d (off + 4)); cpusubtype = signed32 (u32 e d (off + 8));
          filetype = u32 e d (off + 12); ncmds = u32 e d (off + 16); sizeofcmds = u32 e d (off + 20) in
      if filetype \<noteq> MH_DYLIB then Inl (ProviderError '' is not MH_DYLIB'')
      else if ncmds > 1024 \<or> sizeofcmds > n - 32 then Inl (ProviderError '': invalid load-command bounds'')
      else bindE (provider_walk e d (off + 32 + sizeofcmds) ncmds (off + 32)
          \<lparr>ds_platform = None, ds_minos = None, ds_name = None\<rparr>) (\<lambda>st.
        case (ds_platform st, ds_minos st) of
          (Some platform, Some minos) \<Rightarrow>
            Inr \<lparr>si_arch = provider_arch cputype cpusubtype, si_cputype = cputype, si_cpusubtype = cpusubtype,
              si_offset = off, si_size = n, si_filetype = filetype, si_platform = platform, si_minos = minos,
              si_install_name = ds_name st, si_sha256 = sha (slice d off n)\<rparr>
        | _ \<Rightarrow> Inl (ProviderError '': no LC_BUILD_VERSION/LC_VERSION_MIN''))))))"

text \<open>One row of the fat table: the CPU type and subtype as unsigned fields, offset and size.\<close>

definition provider_row :: "(bytes \<Rightarrow> string) \<Rightarrow> bytes \<Rightarrow> bool \<Rightarrow> nat \<Rightarrow> slice_info result" where
  "provider_row sha d is64 i =
     (let base = 8 + i * (if is64 then 32 else 20) in
      bindE (room d base (if is64 then 32 else 20)) (\<lambda>_.
      let cputype = u32 BE d base; cpusubtype = u32 BE d (base + 4);
          off = (if is64 then u64 BE d (base + 8) else u32 BE d (base + 8));
          n = (if is64 then u64 BE d (base + 16) else u32 BE d (base + 12)) in
      if off + n > length d \<or> n < 32 then Inl (ProviderError '': fat slice out of bounds'')
      else bindE (parse_thin sha d off n) (\<lambda>info.
        if si_cputype info \<noteq> int cputype \<or> si_cpusubtype info mod 2 ^ 24 \<noteq> int cpusubtype mod 2 ^ 24
        then Inl (ProviderError '': fat table and slice disagree'')
        else Inr info)))"

definition inspect :: "(bytes \<Rightarrow> string) \<Rightarrow> bytes \<Rightarrow> slice_info list result" where
  "inspect sha d =
     (if length d < 8 then Inl (ProviderError '': not a Mach-O file'')
      else if u32 BE d 0 = FAT_MAGIC \<or> u32 BE d 0 = FAT_MAGIC_64 then
        let is64 = (u32 BE d 0 = FAT_MAGIC_64); count = u32 BE d 4 in
        if count = 0 \<or> count > 8 then Inl (ProviderError '': invalid fat architecture count'')
        else if 8 + count * (if is64 then 32 else 20) > length d then Inl (ProviderError '': truncated fat header'')
        else mapE (provider_row sha d is64) [0..<count]
      else bindE (parse_thin sha d 0 (length d)) (\<lambda>info. Inr [info]))"

subsection \<open>Acceptance\<close>

definition check_slice :: "slice_info \<Rightarrow> string \<Rightarrow> unit result" where
  "check_slice info expected_arch =
     (if si_arch info \<noteq> expected_arch then Inl (ProviderError '': expected  slice, found '')
      else if si_arch info \<notin> set REQUIRED_ARCHS then Inl (ProviderError '': unsupported architecture '')
      else if si_platform info \<noteq> PLATFORM_MACOS then Inl (ProviderError '' is not macOS'')
      else if fst (si_minos info) \<noteq> 13 then Inl (ProviderError '', expected 13.x'')
      else if si_install_name info \<noteq> Some INSTALL_NAME then Inl (ProviderError '': LC_ID_DYLIB is '')
      else Inr ())"

definition accept_fat :: "slice_info list \<Rightarrow> slice_info list result" where
  "accept_fat slices =
     (if sort (map si_arch slices) \<noteq> sort REQUIRED_ARCHS
      then Inl (ProviderError '': provider must contain exactly arm64 and arm64e'')
      else bindE (foldE (\<lambda>info _. check_slice info (si_arch info)) slices ()) (\<lambda>_.
      if card (set (map si_arch slices)) \<noteq> length slices then Inl (ProviderError '': duplicate provider architecture'')
      else Inr slices))"

definition accept_thin :: "string \<Rightarrow> slice_info list \<Rightarrow> slice_info result" where
  "accept_thin expected_arch slices =
     (case slices of
        [info] \<Rightarrow> bindE (check_slice info expected_arch) (\<lambda>_. Inr info)
      | _ \<Rightarrow> Inl (ProviderError '': expected one thin slice''))"

subsection \<open>Files\<close>

text \<open>A symbolic link is seen as what it leads to: a file, a directory, or nothing.\<close>

datatype provider_file = PFile bytes | PFolder | PLinkFile bytes | PLinkFolder | PLinkDangling

type_synonym provider_files = "string \<rightharpoonup> provider_file"

definition is_symlink :: "provider_files \<Rightarrow> string \<Rightarrow> bool" where
  "is_symlink fs p = (case fs p of Some (PLinkFile _) \<Rightarrow> True | Some PLinkFolder \<Rightarrow> True | Some PLinkDangling \<Rightarrow> True | _ \<Rightarrow> False)"

definition is_dir :: "provider_files \<Rightarrow> string \<Rightarrow> bool" where
  "is_dir fs p = (case fs p of Some PFolder \<Rightarrow> True | Some PLinkFolder \<Rightarrow> True | _ \<Rightarrow> False)"

definition is_file :: "provider_files \<Rightarrow> string \<Rightarrow> bool" where
  "is_file fs p = (case fs p of Some (PFile _) \<Rightarrow> True | Some (PLinkFile _) \<Rightarrow> True | _ \<Rightarrow> False)"

definition exists_path :: "provider_files \<Rightarrow> string \<Rightarrow> bool" where
  "exists_path fs p = (case fs p of None \<Rightarrow> False | Some PLinkDangling \<Rightarrow> False | _ \<Rightarrow> True)"

definition read_bytes :: "provider_files \<Rightarrow> string \<Rightarrow> bytes result" where
  "read_bytes fs p = (case fs p of Some (PFile b) \<Rightarrow> Inr b | Some (PLinkFile b) \<Rightarrow> Inr b | _ \<Rightarrow> Inl (OSError ''open''))"

definition inspect_path :: "(bytes \<Rightarrow> string) \<Rightarrow> provider_files \<Rightarrow> string \<Rightarrow> slice_info list result" where
  "inspect_path sha fs p =
     (case read_bytes fs p of Inl _ \<Rightarrow> Inl (ProviderError '': cannot read provider: '') | Inr d \<Rightarrow> inspect sha d)"

definition verify_fat :: "(bytes \<Rightarrow> string) \<Rightarrow> provider_files \<Rightarrow> string \<Rightarrow> slice_info list result" where
  "verify_fat sha fs p = bindE (inspect_path sha fs p) accept_fat"

definition verify_thin :: "(bytes \<Rightarrow> string) \<Rightarrow> provider_files \<Rightarrow> string \<Rightarrow> string \<Rightarrow> slice_info result" where
  "verify_thin sha fs p expected_arch = bindE (inspect_path sha fs p) (accept_thin expected_arch)"

definition sha256_file :: "(bytes \<Rightarrow> string) \<Rightarrow> provider_files \<Rightarrow> string \<Rightarrow> string result" where
  "sha256_file sha fs p = bindE (read_bytes fs p) (\<lambda>d. Inr (sha d))"

subsection \<open>A bundle\<close>

definition provider_main :: "string \<Rightarrow> string" where
  "provider_main directory = path_join directory PROVIDER_NAME"

definition provider_companion :: "string \<Rightarrow> string \<Rightarrow> string" where
  "provider_companion directory a = path_join directory (PROVIDER_NAME @ ''.'' @ a)"

definition provider_paths :: "string \<Rightarrow> string list" where
  "provider_paths directory = provider_main directory # map (provider_companion directory) REQUIRED_ARCHS"

definition payload_present :: "provider_files \<Rightarrow> string \<Rightarrow> unit \<Rightarrow> unit result" where
  "payload_present fs p _ =
     (if \<not> exists_path fs p then Inl (ProviderError ''missing provider payload '')
      else if is_symlink fs p \<or> \<not> is_file fs p then Inl (ProviderError ''provider payload is not a regular file: '')
      else Inr ())"

text \<open>\<open>{info.arch: info for info in slices}\<close>: the last slice of an architecture wins.\<close>

definition by_arch :: "slice_info list \<Rightarrow> (string \<times> slice_info) list" where
  "by_arch slices = foldl (\<lambda>kv info. py_set kv (si_arch info) info) [] slices"

definition companion_agrees :: "(string \<times> slice_info) list \<Rightarrow> bool \<Rightarrow> string \<times> slice_info \<Rightarrow> unit \<Rightarrow> unit result" where
  "companion_agrees main_by_arch strict ac _ =
     (case map_of main_by_arch (fst ac) of
        None \<Rightarrow> Inr ()
      | Some main \<Rightarrow>
          bindE (check_slice main (fst ac)) (\<lambda>_.
          if strict \<and> si_sha256 main \<noteq> si_sha256 (snd ac)
          then Inl (ProviderError ''slice differs from thin companion'') else Inr ()))"

record bundle_report =
  br_main_sha256 :: string
  br_companions :: "(string \<times> string \<times> string) list"

definition verify_bundle :: "(bytes \<Rightarrow> string) \<Rightarrow> provider_files \<Rightarrow> string \<Rightarrow> bool \<Rightarrow> bundle_report result" where
  "verify_bundle sha fs directory strict =
     bindE (foldE (payload_present fs) (provider_paths directory) ()) (\<lambda>_.
     bindE (inspect_path sha fs (provider_main directory)) (\<lambda>main_slices.
     bindE (mapE (\<lambda>a. bindE (verify_thin sha fs (provider_companion directory a) a) (\<lambda>info. Inr (a, info))) REQUIRED_ARCHS) (\<lambda>companions.
     let main_by_arch = by_arch main_slices in
     bindE (foldE (companion_agrees main_by_arch strict) companions ()) (\<lambda>_.
     if \<not> set (map fst main_by_arch) \<subseteq> set REQUIRED_ARCHS then Inl (ProviderError '': unsupported slice in provider'')
     else if main_by_arch = [] then Inl (ProviderError '': provider has no arm slices'')
     else
       bindE (sha256_file sha fs (provider_main directory)) (\<lambda>main_sha.
       bindE (mapE (\<lambda>(a, info). bindE (sha256_file sha fs (provider_companion directory a)) (\<lambda>h.
           Inr (a, h, si_sha256 info))) companions) (\<lambda>cs.
       Inr \<lparr>br_main_sha256 = main_sha, br_companions = cs\<rparr>))))))"

subsection \<open>Staging and publication\<close>

text \<open>
  The state of a run: the files and the state of the trust cache.  A step returns its result, or the
  exception that ended it, with the state it left.
\<close>

record 'c provider_world =
  pw_files :: provider_files
  pw_trust :: 'c

type_synonym ('c, 'a) provider_step = "'c provider_world \<Rightarrow> 'a result \<times> 'c provider_world"

definition thenS :: "('c, 'a) provider_step \<Rightarrow> ('a \<Rightarrow> ('c, 'b) provider_step) \<Rightarrow> ('c, 'b) provider_step" where
  "thenS m f = (\<lambda>w. case m w of (Inl e, w') \<Rightarrow> (Inl e, w') | (Inr x, w') \<Rightarrow> f x w')"

text \<open>A step that only looks at the files.\<close>

definition lookS :: "(provider_files \<Rightarrow> 'a result) \<Rightarrow> ('c, 'a) provider_step" where
  "lookS f = (\<lambda>w. (f (pw_files w), w))"

definition put_file :: "string \<Rightarrow> bytes \<Rightarrow> ('c, unit) provider_step" where
  "put_file p b = (\<lambda>w. (Inr (), w\<lparr>pw_files := (pw_files w)(p \<mapsto> PFile b)\<rparr>))"

text \<open>
  The tools: whether the command succeeded and what it wrote; \<open>Inl\<close> when it cannot be run.
  \<open>pt_others\<close> acts on the files right after the provider has been renamed into place.
\<close>

record 'c provider_tools =
  pt_sha :: "bytes \<Rightarrow> string"
  pt_thin :: "bytes \<Rightarrow> string \<Rightarrow> (bool \<times> bytes option) result"
  pt_create :: "bytes \<Rightarrow> bytes \<Rightarrow> (bool \<times> bytes option) result"
  pt_sign :: "bytes \<Rightarrow> (bool \<times> bytes) result"
  pt_cdhash :: "bytes \<Rightarrow> string \<Rightarrow> (bool \<times> string) result"
  pt_trust_add :: "string \<Rightarrow> 'c \<Rightarrow> (bool \<times> 'c) result"
  pt_trust_info :: "'c \<Rightarrow> (bool \<times> string) result"
  pt_others :: "provider_files \<Rightarrow> provider_files"

text \<open>\<open>_run\<close>, which turns an \<open>OSError\<close> into a \<open>ProviderError\<close>, and \<open>_require_success\<close>.\<close>

definition run_tool :: "'a result \<Rightarrow> 'a result" where
  "run_tool r = (case r of Inl _ \<Rightarrow> Inl (ProviderError ''cannot run '') | Inr x \<Rightarrow> Inr x)"

definition require_success :: "bool \<Rightarrow> unit result" where
  "require_success ok = (if ok then Inr () else Inl (ProviderError '' failed (exit ''))"

definition unlink_if_there :: "string \<Rightarrow> ('c, unit) provider_step" where
  "unlink_if_there p = (\<lambda>w.
     case pw_files w p of
       None \<Rightarrow> (Inr (), w)
     | Some PFolder \<Rightarrow> (Inl (OSError ''unlink''), w)
     | Some _ \<Rightarrow> (Inr (), w\<lparr>pw_files := (pw_files w)(p := None)\<rparr>))"

fun eachS :: "('a \<Rightarrow> ('c, unit) provider_step) \<Rightarrow> 'a list \<Rightarrow> ('c, unit) provider_step" where
  "eachS f [] = (\<lambda>w. (Inr (), w))"
| "eachS f (x # xs) = thenS (f x) (\<lambda>_. eachS f xs)"

text \<open>A tool that writes the file \<open>p\<close>; what it wrote stays when it then fails.\<close>

definition write_output :: "string \<Rightarrow> (bool \<times> bytes option) result \<Rightarrow> ('c, unit) provider_step" where
  "write_output p r =
     thenS (lookS (\<lambda>_. run_tool r)) (\<lambda>(ok, out).
     thenS (case out of None \<Rightarrow> lookS (\<lambda>_. Inr ()) | Some b \<Rightarrow> put_file p b) (\<lambda>_.
     lookS (\<lambda>_. require_success ok)))"

definition show_version :: "nat \<times> nat \<times> nat \<Rightarrow> string" where
  "show_version v = show_decimal (fst v) @ ''.'' @ show_decimal (fst (snd v)) @ ''.'' @ show_decimal (snd (snd v))"

definition describe :: "slice_info \<Rightarrow> string" where
  "describe i = si_arch i @ '' platform='' @ show_decimal (si_platform i) @ '' minos='' @ show_version (si_minos i) @
     '' install_name='' @ (case si_install_name i of None \<Rightarrow> ''None'' | Some n \<Rightarrow> n)"

record stage_report =
  sr_bundle :: bundle_report
  sr_build_sha256 :: string
  sr_slices :: "string list"

definition stage :: "'c provider_tools \<Rightarrow> string \<Rightarrow> string \<Rightarrow> ('c, stage_report) provider_step" where
  "stage T binary destination =
     thenS (lookS (\<lambda>fs. verify_fat (pt_sha T) fs binary)) (\<lambda>_.
     thenS (eachS unlink_if_there (provider_paths destination)) (\<lambda>_.
     thenS (lookS (\<lambda>fs. read_bytes fs binary)) (\<lambda>image.
     thenS (put_file (provider_main destination) image) (\<lambda>_.
     thenS (eachS (\<lambda>a.
         thenS (lookS (\<lambda>fs. read_bytes fs binary)) (\<lambda>b.
         thenS (write_output (provider_companion destination a) (pt_thin T b a)) (\<lambda>_.
         lookS (\<lambda>fs. bindE (verify_thin (pt_sha T) fs (provider_companion destination a) a) (\<lambda>_. Inr ()))))) REQUIRED_ARCHS) (\<lambda>_.
     lookS (\<lambda>fs.
       bindE (verify_bundle (pt_sha T) fs destination True) (\<lambda>bundle.
       bindE (sha256_file (pt_sha T) fs binary) (\<lambda>h.
       bindE (inspect_path (pt_sha T) fs binary) (\<lambda>slices.
       Inr \<lparr>sr_bundle = bundle, sr_build_sha256 = h, sr_slices = map describe slices\<rparr>)))))))))"

text \<open>\<open>_ldid_cdhash\<close>: the first non-empty value of a \<open>CDHash=\<close> line.\<close>

definition cdhash_in :: "string \<Rightarrow> string option" where
  "cdhash_in out =
     List.find (\<lambda>v. v \<noteq> []) (map (\<lambda>line. strip (drop 7 line)) (filter (starts ''CDHash='') (split_lines [] out)))"

definition ldid_cdhash :: "'c provider_tools \<Rightarrow> bytes \<Rightarrow> string \<Rightarrow> string result" where
  "ldid_cdhash T b a =
     bindE (run_tool (pt_cdhash T b a)) (\<lambda>(ok, out).
     bindE (require_success ok) (\<lambda>_.
     case cdhash_in out of None \<Rightarrow> Inl (ProviderError ''ldid produced no CDHash for '') | Some v \<Rightarrow> Inr v))"

definition live :: "'c provider_tools \<Rightarrow> 'c \<Rightarrow> string \<Rightarrow> bool result" where
  "live T c digest =
     bindE (run_tool (pt_trust_info T c)) (\<lambda>(ok, out).
     bindE (require_success ok) (\<lambda>_. Inr (has_substring (lower digest) (lower out))))"

definition trust_hash :: "'c provider_tools \<Rightarrow> string \<Rightarrow> ('c, unit) provider_step" where
  "trust_hash T digest = (\<lambda>w.
     case run_tool (pt_trust_add T digest (pw_trust w)) of
       Inl e \<Rightarrow> (Inl e, w)
     | Inr (ok, c) \<Rightarrow>
         (bindE (live T c digest) (\<lambda>is_live.
          if \<not> ok \<and> \<not> is_live then Inl (ProviderError ''mandatory trustcache add failed for '')
          else if \<not> is_live then Inl (ProviderError ''CDHash is not live in the trustcache for '')
          else Inr ()), w\<lparr>pw_trust := c\<rparr>))"

definition CHROOT_PROVIDER_DIR :: string where
  "CHROOT_PROVIDER_DIR = ''System/Library/Frameworks/CydiaSubstrate.framework''"

definition publish_target :: "string \<Rightarrow> string" where
  "publish_target rootfs = path_join (path_join rootfs CHROOT_PROVIDER_DIR) PROVIDER_NAME"

definition publish_temporary :: "string \<Rightarrow> string \<Rightarrow> string" where
  "publish_temporary rootfs pid = path_join (path_join rootfs CHROOT_PROVIDER_DIR) (''.'' @ PROVIDER_NAME @ ''.new-'' @ pid)"

record publish_report =
  pr_sha256 :: string
  pr_cdhashes :: "string list"
  pr_slices :: "string list"
  pr_source :: bundle_report

text \<open>The checks before the transaction.\<close>

definition publish_checks :: "'c provider_tools \<Rightarrow> string \<Rightarrow> string \<Rightarrow> string \<Rightarrow> provider_files \<Rightarrow> bundle_report result" where
  "publish_checks T source rootfs entitlements fs =
     (let target_dir = path_join rootfs CHROOT_PROVIDER_DIR in
      if \<not> is_dir fs (path_join rootfs ''System/Library'') then Inl (ProviderError ''rootfs is not mounted: '')
      else if is_symlink fs target_dir then Inl (ProviderError ''provider target directory is a symlink: '')
      else if \<not> is_dir fs target_dir then Inl (ProviderError ''provider target directory is missing: '')
      else if is_symlink fs (publish_target rootfs) then Inl (ProviderError ''provider target is a symlink: '')
      else if \<not> is_file fs entitlements then Inl (ProviderError ''missing project entitlements: '')
      else verify_bundle (pt_sha T) fs source False)"

definition sign_once :: "'c provider_tools \<Rightarrow> string \<Rightarrow> nat \<Rightarrow> ('c, unit) provider_step" where
  "sign_once T p _ =
     thenS (lookS (\<lambda>fs. read_bytes fs p)) (\<lambda>b.
     thenS (lookS (\<lambda>_. run_tool (pt_sign T b))) (\<lambda>(ok, b').
     thenS (put_file p b') (\<lambda>_. lookS (\<lambda>_. require_success ok))))"

text \<open>\<open>os.replace\<close>, followed by what others do.\<close>

definition rename_into_place :: "'c provider_tools \<Rightarrow> string \<Rightarrow> string \<Rightarrow> ('c, unit) provider_step" where
  "rename_into_place T temporary target = (\<lambda>w.
     case pw_files w temporary of
       None \<Rightarrow> (Inl (OSError ''replace''), w)
     | Some node \<Rightarrow>
       if pw_files w target = Some PFolder then (Inl (OSError ''replace''), w)
       else (Inr (), w\<lparr>pw_files := pt_others T ((pw_files w)(target \<mapsto> node, temporary := None))\<rparr>))"

text \<open>
  The body of the \<open>try\<close>: the candidate is built, verified, signed, verified again and trusted; then it
  is put in place and verified there.
\<close>

definition build_candidate :: "'c provider_tools \<Rightarrow> string \<Rightarrow> string \<Rightarrow>
    ('c, string \<times> string list \<times> slice_info list) provider_step" where
  "build_candidate T source temporary =
     thenS (lookS (\<lambda>fs. read_bytes fs (provider_companion source ''arm64''))) (\<lambda>a.
     thenS (lookS (\<lambda>fs. read_bytes fs (provider_companion source ''arm64e''))) (\<lambda>b.
     thenS (write_output temporary (pt_create T a b)) (\<lambda>_.
     thenS (lookS (\<lambda>fs. verify_fat (pt_sha T) fs temporary)) (\<lambda>_.
     thenS (eachS (sign_once T temporary) [0, 1]) (\<lambda>_.
     thenS (lookS (\<lambda>fs. verify_fat (pt_sha T) fs temporary)) (\<lambda>slices.
     thenS (lookS (\<lambda>fs. bindE (read_bytes fs temporary) (\<lambda>c. mapE (ldid_cdhash T c) REQUIRED_ARCHS))) (\<lambda>hashes.
     thenS (lookS (\<lambda>_. if distinct hashes then Inr () else Inl (ProviderError ''ldid returned duplicate provider CDHashes''))) (\<lambda>_.
     thenS (eachS (trust_hash T) hashes) (\<lambda>_.
     lookS (\<lambda>fs. bindE (sha256_file (pt_sha T) fs temporary) (\<lambda>final_sha. Inr (final_sha, hashes, slices))))))))))))"

definition publish_body :: "'c provider_tools \<Rightarrow> string \<Rightarrow> string \<Rightarrow> string \<Rightarrow>
    ('c, string \<times> string list \<times> slice_info list) provider_step" where
  "publish_body T source temporary target =
     thenS (build_candidate T source temporary) (\<lambda>(final_sha, hashes, slices).
     thenS (rename_into_place T temporary target) (\<lambda>_.
     lookS (\<lambda>fs.
       bindE (verify_fat (pt_sha T) fs target) (\<lambda>_.
       bindE (sha256_file (pt_sha T) fs target) (\<lambda>h.
       if h \<noteq> final_sha then Inl (ProviderError ''provider changed during atomic publish'')
       else Inr (final_sha, hashes, slices))))))"

definition publish :: "'c provider_tools \<Rightarrow> string \<Rightarrow> string \<Rightarrow> string \<Rightarrow> string \<Rightarrow> ('c, publish_report) provider_step" where
  "publish T source rootfs entitlements pid =
     (let target = publish_target rootfs; temporary = publish_temporary rootfs pid in
      thenS (lookS (publish_checks T source rootfs entitlements)) (\<lambda>bundle.
      thenS (unlink_if_there temporary) (\<lambda>_ w.
        case publish_body T source temporary target w of (r, w') \<Rightarrow>
        case unlink_if_there temporary w' of
          (Inl e, w'') \<Rightarrow> (Inl e, w'')
        | (Inr _, w'') \<Rightarrow>
          (bindE r (\<lambda>(final_sha, hashes, slices).
             Inr \<lparr>pr_sha256 = final_sha, pr_cdhashes = hashes, pr_slices = map describe slices, pr_source = bundle\<rparr>), w''))))"

subsection \<open>What an accepted slice is\<close>

definition named_in :: "bytes \<Rightarrow> nat \<Rightarrow> nat \<Rightarrow> string \<Rightarrow> bool" where
  "named_in d lo hi name \<longleftrightarrow> (\<exists>p. lo \<le> p \<and> p + length name < hi \<and> slice d p (length name + 1) = encode_str name @ [0])"

definition scan_ok :: "bytes \<Rightarrow> nat \<Rightarrow> nat \<Rightarrow> dylib_scan \<Rightarrow> bool" where
  "scan_ok d lo hi st \<longleftrightarrow>
     (\<forall>v. ds_minos st = Some v \<longrightarrow> fst v < 65536 \<and> fst (snd v) < 256 \<and> snd (snd v) < 256) \<and>
     (\<forall>name. ds_name st = Some name \<longrightarrow> named_in d lo hi name)"

lemma until_nul_take: "0 \<in> set bs \<Longrightarrow> take (length (until_nul bs) + 1) bs = until_nul bs @ [0]"
  by (induction bs) (auto simp: until_nul_def)

lemma until_nul_shorter: "0 \<in> set bs \<Longrightarrow> length (until_nul bs) < length bs"
  by (induction bs) (auto simp: until_nul_def)

lemma decode_version_bounds: "decode_version v = (x, y, z) \<Longrightarrow> x < 65536 \<and> y < 256 \<and> z < 256"
  by (auto simp: decode_version_def)

lemma name_found:
  assumes "0 \<in> set (slice d q n)" and "decode_utf8 (until_nul (slice d q n)) = Inr name"
  shows "q + length name < q + n" and "slice d q (length name + 1) = encode_str name @ [0]"
proof -
  have e: "encode_str name = until_nul (slice d q n)" by (rule encode_decode [OF assms(2)])
  then have l: "length name = length (until_nul (slice d q n))" by (metis length_encode_str)
  with until_nul_shorter [OF assms(1)] have lt: "length name < length (slice d q n)" by simp
  then have "length name < n" by (simp add: length_slice)
  then show "q + length name < q + n" by simp
  have "take (length name + 1) (slice d q n) = encode_str name @ [0]" using until_nul_take [OF assms(1)] e l by simp
  with \<open>length name < n\<close> show "slice d q (length name + 1) = encode_str name @ [0]" by (simp add: slice_def min_def)
qed

lemma provider_command_ok:
  assumes "provider_command e d off cmd cmdsize st = Inr st'" and "scan_ok d lo hi st"
    and "lo \<le> off" and "off + cmdsize \<le> hi"
  shows "scan_ok d lo hi st'"
proof (cases "cmd = LC_ID_DYLIB")
  case True
  then obtain k name where k: "24 \<le> k" "k < cmdsize" "0 \<in> set (slice d (off + k) (cmdsize - k))"
    "decode_utf8 (until_nul (slice d (off + k) (cmdsize - k))) = Inr name" and st': "st' = st\<lparr>ds_name := Some name\<rparr>"
    using assms(1) by (auto simp: provider_command_def LC_ID_DYLIB_def LC_BUILD_VERSION_def LC_VERSION_MIN_IPHONEOS_def
        LC_VERSION_MIN_MACOSX_def Let_def not_less)
  have "named_in d lo hi name"
    unfolding named_in_def using name_found [OF k(3,4)] k(1,2) assms(3,4) by (intro exI [of _ "off + k"]) auto
  with assms(2) show ?thesis by (simp add: scan_ok_def st')
next
  case False
  with assms(1,2) show ?thesis
    by (auto simp: provider_command_def Let_def scan_ok_def dest: decode_version_bounds split: if_split_asm)
qed

lemma provider_walk_ok:
  assumes "provider_walk e d fin n off st = Inr st'" and "scan_ok d lo fin st" and "lo \<le> off"
  shows "scan_ok d lo fin st'"
  using assms
proof (induction n arbitrary: off st)
  case (Suc n)
  then obtain st1 where c: "provider_command e d off (u32 e d off) (u32 e d (off + 4)) st = Inr st1"
    and w: "provider_walk e d fin n (off + u32 e d (off + 4)) st1 = Inr st'" and "off + u32 e d (off + 4) \<le> fin"
    by (auto simp: Let_def not_less split: if_split_asm)
  from provider_command_ok [OF c Suc.prems(2,3)] this(3) have "scan_ok d lo fin st1" by simp
  with Suc.IH [OF w] Suc.prems(3) show ?case by simp
qed simp

text \<open>
  An inspected slice lies inside the file, starts with the header of a 64-bit dylib of its
  architecture, and its digest, version and install name are those of its bytes.
\<close>

definition slice_ok :: "(bytes \<Rightarrow> string) \<Rightarrow> bytes \<Rightarrow> slice_info \<Rightarrow> bool" where
  "slice_ok sha d i \<longleftrightarrow>
     si_offset i + si_size i \<le> length d \<and> 32 \<le> si_size i \<and> si_sha256 i = sha (slice d (si_offset i) (si_size i)) \<and>
     (\<exists>e. u32 e d (si_offset i) = MH_MAGIC_64 \<and> u32 e d (si_offset i + 12) = MH_DYLIB \<and>
        si_arch i = provider_arch (signed32 (u32 e d (si_offset i + 4))) (signed32 (u32 e d (si_offset i + 8)))) \<and>
     fst (si_minos i) < 65536 \<and> fst (snd (si_minos i)) < 256 \<and> snd (snd (si_minos i)) < 256 \<and>
     (\<forall>name. si_install_name i = Some name \<longrightarrow> named_in d (si_offset i + 32) (si_offset i + si_size i) name)"

lemma named_in_mono: "named_in d lo hi name \<Longrightarrow> hi \<le> hi' \<Longrightarrow> named_in d lo hi' name"
  by (auto simp: named_in_def intro: less_le_trans)

lemma parse_thin_ok:
  assumes "parse_thin sha d off n = Inr i" and "off + n \<le> length d"
  shows "slice_ok sha d i"
proof -
  define e where "e = (if u32 LE d off = MH_MAGIC_64 then LE else BE)"
  let ?start = "\<lparr>ds_platform = None, ds_minos = None, ds_name = None\<rparr>" and ?fin = "off + 32 + u32 e d (off + 20)"
  from assms(1) obtain st platform minos where n: "32 \<le> n" and m: "u32 LE d off = MH_MAGIC_64 \<or> u32 BE d off = MH_MAGIC_64"
    and ft: "u32 e d (off + 12) = MH_DYLIB" and room: "u32 e d (off + 20) \<le> n - 32"
    and walk: "provider_walk e d ?fin (u32 e d (off + 16)) (off + 32) ?start = Inr st"
    and pm: "ds_platform st = Some platform" "ds_minos st = Some minos"
    and i: "i = \<lparr>si_arch = provider_arch (signed32 (u32 e d (off + 4))) (signed32 (u32 e d (off + 8))),
        si_cputype = signed32 (u32 e d (off + 4)), si_cpusubtype = signed32 (u32 e d (off + 8)),
        si_offset = off, si_size = n, si_filetype = u32 e d (off + 12), si_platform = platform, si_minos = minos,
        si_install_name = ds_name st, si_sha256 = sha (slice d off n)\<rparr>"
    unfolding parse_thin_def Let_def e_def by (auto simp: not_less split: option.split_asm)
  have "scan_ok d (off + 32) ?fin ?start" by (simp add: scan_ok_def)
  from provider_walk_ok [OF walk this] have ok: "scan_ok d (off + 32) ?fin st" by simp
  have "?fin \<le> off + n" using room n by simp
  moreover have "u32 e d off = MH_MAGIC_64" using m by (auto simp: e_def)
  ultimately show ?thesis using ok n ft pm assms(2) named_in_mono by (auto simp: slice_ok_def i scan_ok_def)
qed

lemma inspect_ok:
  assumes "inspect sha d = Inr ss" and "i \<in> set ss"
  shows "slice_ok sha d i"
proof (cases "u32 BE d 0 = FAT_MAGIC \<or> u32 BE d 0 = FAT_MAGIC_64")
  case True
  with assms(1) have "mapE (provider_row sha d (u32 BE d 0 = FAT_MAGIC_64)) [0..<u32 BE d 4] = Inr ss"
    by (auto simp: inspect_def Let_def split: if_split_asm)
  from mapE_set [OF this assms(2)] obtain k where "provider_row sha d (u32 BE d 0 = FAT_MAGIC_64) k = Inr i" by blast
  then obtain off n where "parse_thin sha d off n = Inr i" "off + n \<le> length d"
    by (auto simp: provider_row_def Let_def not_less split: if_split_asm)
  then show ?thesis by (rule parse_thin_ok)
next
  case False
  with assms have "parse_thin sha d 0 (length d) = Inr i" by (auto simp: inspect_def split: if_split_asm)
  then show ?thesis by (rule parse_thin_ok) simp
qed

lemma check_slices:
  assumes "foldE (\<lambda>info _. check_slice info (si_arch info)) ss () = Inr u" and "i \<in> set ss"
  shows "si_platform i = PLATFORM_MACOS \<and> fst (si_minos i) = 13 \<and> si_install_name i = Some INSTALL_NAME"
  using assms by (induction ss) (auto simp: check_slice_def split: if_split_asm)

lemma two_archs:
  assumes "sort xs = sort REQUIRED_ARCHS"
  shows "xs = [''arm64'', ''arm64e''] \<or> xs = [''arm64e'', ''arm64'']"
proof -
  have m: "mset xs = mset REQUIRED_ARCHS" by (metis assms mset_sort)
  have "length xs = 2" using arg_cong [OF m, of size] by (simp add: REQUIRED_ARCHS_def)
  then obtain a b where xs: "xs = [a, b]" by (auto simp: length_Suc_conv numeral_2_eq_2)
  with arg_cong [OF m, of set_mset] show ?thesis by (auto simp: REQUIRED_ARCHS_def doubleton_eq_iff)
qed

text \<open>
  C27: An accepted provider file holds exactly one arm64 and one arm64e slice.  Each lies within the
  file, begins with the header of a 64-bit dylib for its architecture, targets macOS 13 with a
  version whose fields fit their widths, carries the digest of its own bytes, and the install name
  stands in it, terminated, behind the header.
\<close>

theorem accepted_provider_bounds:
  assumes "verify_fat sha fs p = Inr ss"
  shows "\<exists>d. read_bytes fs p = Inr d \<and> (map si_arch ss = [''arm64'', ''arm64e''] \<or> map si_arch ss = [''arm64e'', ''arm64'']) \<and>
    (\<forall>i \<in> set ss. si_offset i + si_size i \<le> length d \<and> 32 \<le> si_size i \<and>
       si_sha256 i = sha (slice d (si_offset i) (si_size i)) \<and>
       (\<exists>e. u32 e d (si_offset i) = MH_MAGIC_64 \<and> u32 e d (si_offset i + 12) = MH_DYLIB \<and>
          si_arch i = provider_arch (signed32 (u32 e d (si_offset i + 4))) (signed32 (u32 e d (si_offset i + 8)))) \<and>
       si_platform i = PLATFORM_MACOS \<and> (\<exists>y z. si_minos i = (13, y, z) \<and> y < 256 \<and> z < 256) \<and>
       (\<exists>q. si_offset i + 32 \<le> q \<and> q + length INSTALL_NAME < si_offset i + si_size i \<and>
          slice d q (length INSTALL_NAME + 1) = encode_str INSTALL_NAME @ [0]))"
proof -
  from assms obtain d where d: "read_bytes fs p = Inr d" "inspect sha d = Inr ss"
    and a: "sort (map si_arch ss) = sort REQUIRED_ARCHS" "foldE (\<lambda>info _. check_slice info (si_arch info)) ss () = Inr ()"
    by (auto simp: verify_fat_def inspect_path_def accept_fat_def split: sum.split_asm if_split_asm)
  have "slice_ok sha d i \<and> si_platform i = PLATFORM_MACOS \<and> fst (si_minos i) = 13 \<and> si_install_name i = Some INSTALL_NAME"
    if "i \<in> set ss" for i using inspect_ok [OF d(2) that] check_slices [OF a(2) that] by simp
  then show ?thesis using d(1) two_archs [OF a(1)]
    by (intro exI [of _ d]) (auto simp: slice_ok_def named_in_def prod_eq_iff)
qed

subsection \<open>Publication is a transaction\<close>

lemma thenS_Inr: "thenS m f w = (Inr y, w') \<longleftrightarrow> (\<exists>x w1. m w = (Inr x, w1) \<and> f x w1 = (Inr y, w'))"
  by (auto simp: thenS_def split: prod.splits sum.splits)

lemma lookS_eq [simp]: "lookS f w = (r, w') \<longleftrightarrow> r = f (pw_files w) \<and> w' = w"
  by (auto simp: lookS_def)

lemma put_file_eq [simp]: "put_file p b w = (r, w') \<longleftrightarrow> r = Inr () \<and> w' = w\<lparr>pw_files := (pw_files w)(p \<mapsto> PFile b)\<rparr>"
  by (auto simp: put_file_def)

text \<open>A step that touches no file but those of \<open>S\<close>, and makes none of them a directory.\<close>

definition frame :: "string set \<Rightarrow> ('c, 'a) provider_step \<Rightarrow> bool" where
  "frame S m \<longleftrightarrow> (\<forall>w r w'. m w = (r, w') \<longrightarrow>
     (\<forall>q. pw_files w' q = pw_files w q \<or> q \<in> S \<and> pw_files w' q \<noteq> Some PFolder))"

named_theorems framed

lemma frameD: "frame S m \<Longrightarrow> m w = (r, w') \<Longrightarrow> pw_files w' q = pw_files w q \<or> q \<in> S \<and> pw_files w' q \<noteq> Some PFolder"
  unfolding frame_def by blast

lemma frame_thenS [framed]:
  assumes "frame S m" and "\<And>x. frame S (f x)"
  shows "frame S (thenS m f)"
  unfolding frame_def
proof (intro allI impI)
  fix w r w' q assume run: "thenS m f w = (r, w')"
  obtain x w1 where m: "m w = (x, w1)" by (cases "m w")
  show "pw_files w' q = pw_files w q \<or> q \<in> S \<and> pw_files w' q \<noteq> Some PFolder"
  proof (cases x)
    case (Inl e)
    with run m have "w' = w1" by (simp add: thenS_def)
    with frameD [OF assms(1) m] show ?thesis by blast
  next
    case (Inr y)
    with run m have "f y w1 = (r, w')" by (simp add: thenS_def)
    from frameD [OF assms(1) m, of q] frameD [OF assms(2) this, of q] show ?thesis by metis
  qed
qed

lemma frame_lookS [framed]: "frame S (lookS f)"
  by (simp add: frame_def)

lemma frame_put_file [framed]: "frame {p} (put_file p b)"
  by (simp add: frame_def)

lemma frame_unlink [framed]: "frame {p} (unlink_if_there p)"
  by (auto simp: frame_def unlink_if_there_def split: option.splits provider_file.splits)

lemma frame_eachS [framed]: "(\<And>x. frame S (f x)) \<Longrightarrow> frame S (eachS f xs)"
  by (induction xs) (auto simp: frame_def [of S "\<lambda>w. (Inr (), w)"] intro: frame_thenS)

lemma frame_option [framed]: "(\<And>x. frame S (f x)) \<Longrightarrow> frame S g \<Longrightarrow> frame S (case o' of None \<Rightarrow> g | Some x \<Rightarrow> f x)"
  by (cases o') auto

lemma frame_pair [framed]: "(\<And>x y. frame S (f x y)) \<Longrightarrow> frame S (case p of (x, y) \<Rightarrow> f x y)"
  by (cases p) auto

lemma frame_write_output [framed]: "frame {p} (write_output p r)"
  unfolding write_output_def by (intro framed)

lemma frame_sign_once [framed]: "frame {p} (sign_once T p n)"
  unfolding sign_once_def by (intro framed)

lemma frame_trust_hash [framed]: "frame S (trust_hash T h)"
  by (auto simp: frame_def trust_hash_def split: sum.splits prod.splits)

lemma frame_build [framed]: "frame {p} (build_candidate T source p)"
  unfolding build_candidate_def by (intro framed)

text \<open>Adding a hash to the trust cache removes none from it.\<close>

definition trust_grows :: "'c provider_tools \<Rightarrow> bool" where
  "trust_grows T \<longleftrightarrow> (\<forall>h x c ok c'. pt_trust_add T h c = Inr (ok, c') \<longrightarrow> live T c x = Inr True \<longrightarrow> live T c' x = Inr True)"

lemma trust_all:
  assumes "eachS (trust_hash T) hs w = (Inr u, w')"
    and grow: "trust_grows T"
  shows "pw_files w' = pw_files w \<and> (\<forall>h \<in> set hs. live T (pw_trust w') h = Inr True) \<and>
    (\<forall>x. live T (pw_trust w) x = Inr True \<longrightarrow> live T (pw_trust w') x = Inr True)"
  using assms(1)
proof (induction hs arbitrary: w)
  case (Cons h hs)
  then obtain w1 where h: "trust_hash T h w = (Inr (), w1)" and rest: "eachS (trust_hash T) hs w1 = (Inr u, w')"
    by (auto simp: thenS_Inr)
  from h obtain ok where add: "pt_trust_add T h (pw_trust w) = Inr (ok, pw_trust w1)" and l: "live T (pw_trust w1) h = Inr True"
    and f: "pw_files w1 = pw_files w"
    by (auto simp: trust_hash_def run_tool_def split: sum.split_asm prod.split_asm if_split_asm)
  from Cons.IH [OF rest] f l grow [unfolded trust_grows_def] add show ?case by auto
qed simp

lemma signed_is_file:
  assumes "sign_once T p n w = (Inr u, w')"
  shows "\<exists>b. pw_files w' p = Some (PFile b)"
  using assms by (auto simp: sign_once_def thenS_Inr)

text \<open>What a built candidate is: a verified file whose digest, slices and trusted hashes are the reported ones.\<close>

lemma build_candidate_ok:
  assumes run: "build_candidate T source p w = (Inr (h, hs, ss), w')"
    and grow: "trust_grows T"
  shows "\<exists>b. pw_files w' p = Some (PFile b) \<and> verify_fat (pt_sha T) (pw_files w') p = Inr ss \<and> pt_sha T b = h \<and>
    mapE (ldid_cdhash T b) REQUIRED_ARCHS = Inr hs \<and> distinct hs \<and> (\<forall>x \<in> set hs. live T (pw_trust w') x = Inr True)"
proof -
  from run obtain w1 w2 where sign: "eachS (sign_once T p) [0, 1] w1 = (Inr (), w2)"
    and v: "verify_fat (pt_sha T) (pw_files w2) p = Inr ss"
    and hs: "bindE (read_bytes (pw_files w2) p) (\<lambda>c. mapE (ldid_cdhash T c) REQUIRED_ARCHS) = Inr hs" "distinct hs"
    and tr: "eachS (trust_hash T) hs w2 = (Inr (), w')"
    and h: "sha256_file (pt_sha T) (pw_files w') p = Inr h"
    unfolding build_candidate_def by (auto simp: thenS_Inr simp del: eachS.simps split: if_split_asm)
  from sign obtain b where b: "pw_files w2 p = Some (PFile b)" by (auto simp: thenS_Inr dest: signed_is_file)
  with trust_all [OF tr grow] v hs h show ?thesis by (auto simp: read_bytes_def sha256_file_def)
qed

lemma publish_names: "publish_temporary rootfs pid \<noteq> publish_target rootfs"
  by (auto simp: publish_temporary_def publish_target_def path_join_def PROVIDER_NAME_def starts_def)

lemma unlink_gone: "unlink_if_there p w = (r, w') \<Longrightarrow> r = Inr () \<Longrightarrow> pw_files w' p = None \<and> pw_trust w' = pw_trust w"
  by (auto simp: unlink_if_there_def split: option.split_asm provider_file.split_asm)

definition published :: "'c provider_tools \<Rightarrow> string \<Rightarrow> 'c provider_world \<Rightarrow> string \<times> string list \<times> slice_info list \<Rightarrow> bool" where
  "published T target w res \<longleftrightarrow>
     (case res of (h, hs, ss) \<Rightarrow> \<exists>b. pw_files w target = Some (PFile b) \<and> verify_fat (pt_sha T) (pw_files w) target = Inr ss \<and>
        pt_sha T b = h \<and> mapE (ldid_cdhash T b) REQUIRED_ARCHS = Inr hs \<and> distinct hs \<and>
        (\<forall>x \<in> set hs. live T (pw_trust w) x = Inr True))"

lemma publish_body_ok:
  assumes run: "publish_body T source temp target w = (r, w')" and quiet: "pt_others T = id" and names: "temp \<noteq> target"
    and grow: "trust_grows T"
  shows "(\<forall>q. q \<notin> {temp, target} \<longrightarrow> pw_files w' q = pw_files w q) \<and>
    (case r of Inl e \<Rightarrow> pw_files w' target = pw_files w target \<and>
         (pw_files w' temp = pw_files w temp \<or> pw_files w' temp \<noteq> Some PFolder)
     | Inr res \<Rightarrow> pw_files w' temp = None \<and> published T target w' res)"
proof -
  obtain r1 w1 where build: "build_candidate T source temp w = (r1, w1)" by force
  from frameD [OF frame_build build] have f1: "pw_files w1 q = pw_files w q" if "q \<noteq> temp" for q
    using that by blast
  from frameD [OF frame_build build] have f2: "pw_files w1 temp = pw_files w temp \<or> pw_files w1 temp \<noteq> Some PFolder" by blast
  show ?thesis
  proof (cases r1)
    case (Inl e)
    with run build have "r = Inl e" "w' = w1" by (auto simp: publish_body_def thenS_def)
    with f1 f2 names show ?thesis by simp
  next
    case (Inr x)
    obtain h hs ss where x: "x = (h, hs, ss)" by (cases x)
    from build_candidate_ok [OF build [unfolded Inr x] grow] obtain b where b: "pw_files w1 temp = Some (PFile b)"
      "verify_fat (pt_sha T) (pw_files w1) temp = Inr ss" "pt_sha T b = h"
      "mapE (ldid_cdhash T b) REQUIRED_ARCHS = Inr hs" "distinct hs" "\<forall>x \<in> set hs. live T (pw_trust w1) x = Inr True" by blast
    show ?thesis
    proof (cases "pw_files w1 target = Some PFolder")
      case True
      with run build b(1) have "r = Inl (OSError ''replace'')" "w' = w1"
        by (auto simp: publish_body_def thenS_def Inr x rename_into_place_def)
      with f1 f2 names show ?thesis by simp
    next
      case False
      define w2 where "w2 = w1\<lparr>pw_files := (pw_files w1)(target \<mapsto> PFile b, temp := None)\<rparr>"
      have at: "pw_files w2 target = Some (PFile b)" "pw_files w2 temp = None" "pw_trust w2 = pw_trust w1"
        using names by (auto simp: w2_def)
      have v: "verify_fat (pt_sha T) (pw_files w2) target = Inr ss"
        using b(1,2) at(1) by (simp add: verify_fat_def inspect_path_def read_bytes_def)
      have s: "sha256_file (pt_sha T) (pw_files w2) target = Inr h" using at(1) b(3) by (simp add: sha256_file_def read_bytes_def)
      have "rename_into_place T temp target w1 = (Inr (), w2)"
        using False b(1) quiet by (simp add: rename_into_place_def w2_def)
      with run build v s have "r = Inr (h, hs, ss)" "w' = w2"
        by (auto simp: publish_body_def thenS_def Inr x lookS_def)
      moreover have "pw_files w2 q = pw_files w q" if "q \<notin> {temp, target}" for q using that f1 by (simp add: w2_def)
      ultimately show ?thesis using at v b by (auto simp: published_def)
    qed
  qed
qed

text \<open>
  C28: Publication is a transaction.  If other processes leave the files alone and adding to the trust
  cache removes nothing from it, then a publication that fails leaves the provider in the root file
  system as it was, and one that succeeds leaves there a file that passes the fat contract, has the
  reported digest and slices, and whose code directory hashes, one for each architecture, are
  distinct and live in the trust cache.  No other file changes, and no new candidate is left behind.
\<close>

theorem publish_transaction:
  assumes run: "publish T source rootfs entitlements pid w = (r, w')" and quiet: "pt_others T = id"
    and grow: "trust_grows T"
  shows "(\<forall>q. q \<notin> {publish_target rootfs, publish_temporary rootfs pid} \<longrightarrow> pw_files w' q = pw_files w q) \<and>
    pw_files w' (publish_temporary rootfs pid) \<in> {None, pw_files w (publish_temporary rootfs pid)} \<and>
    (case r of
       Inl e \<Rightarrow> pw_files w' (publish_target rootfs) = pw_files w (publish_target rootfs)
     | Inr rep \<Rightarrow> \<exists>b ss. pw_files w' (publish_target rootfs) = Some (PFile b) \<and> pt_sha T b = pr_sha256 rep \<and>
         verify_fat (pt_sha T) (pw_files w') (publish_target rootfs) = Inr ss \<and> pr_slices rep = map describe ss \<and>
         mapE (ldid_cdhash T b) REQUIRED_ARCHS = Inr (pr_cdhashes rep) \<and> distinct (pr_cdhashes rep) \<and>
         (\<forall>x \<in> set (pr_cdhashes rep). live T (pw_trust w') x = Inr True))"
proof -
  let ?target = "publish_target rootfs" and ?temp = "publish_temporary rootfs pid"
  note ne = publish_names [of rootfs pid]
  consider e where "r = Inl e" "w' = w" | e where "r = Inl e" "unlink_if_there ?temp w = (Inl e, w')"
    | rep w1 where "unlink_if_there ?temp w = (Inr (), w1)"
      "(case publish_body T source ?temp ?target w1 of (r, w') \<Rightarrow>
        case unlink_if_there ?temp w' of
          (Inl e, w'') \<Rightarrow> (Inl e, w'')
        | (Inr _, w'') \<Rightarrow>
          (bindE r (\<lambda>(final_sha, hashes, slices).
             Inr \<lparr>pr_sha256 = final_sha, pr_cdhashes = hashes, pr_slices = map describe slices, pr_source = rep\<rparr>), w'')) = (r, w')"
    using run unfolding publish_def Let_def thenS_def lookS_def by (auto split: sum.split_asm prod.split_asm)
  then show ?thesis
  proof cases
    case 2
    then have "w' = w" by (auto simp: unlink_if_there_def split: option.split_asm provider_file.split_asm)
    with 2 show ?thesis by simp
  next
    case 3
    obtain rb w2 where body: "publish_body T source ?temp ?target w1 = (rb, w2)" by force
    have "pw_files w1 ?temp = None" using 3(1) by (auto simp: unlink_if_there_def split: option.split_asm provider_file.split_asm)
    with publish_body_ok [OF body quiet ne grow] have ok: "(\<forall>q. q \<notin> {?temp, ?target} \<longrightarrow> pw_files w2 q = pw_files w1 q) \<and>
      (case rb of Inl e \<Rightarrow> pw_files w2 ?target = pw_files w1 ?target \<and> pw_files w2 ?temp \<noteq> Some PFolder
       | Inr res \<Rightarrow> pw_files w2 ?temp = None \<and> published T ?target w2 res)" by (cases rb) auto
    obtain ru w3 where un: "unlink_if_there ?temp w2 = (ru, w3)" by force
    from frameD [OF frame_unlink 3(1)] have f1: "pw_files w1 q = pw_files w q" if "q \<noteq> ?temp" for q using that by blast
    from frameD [OF frame_unlink un] have f3: "pw_files w3 q = pw_files w2 q" if "q \<noteq> ?temp" for q using that by blast
    have w': "w' = w3" using 3(2) body un by (cases ru) auto
    show ?thesis
    proof (cases rb)
      case (Inl e)
      with ok have "pw_files w2 ?temp \<noteq> Some PFolder" by simp
      with un have "ru = Inr ()" "pw_files w3 ?temp = None"
        by (auto simp: unlink_if_there_def split: option.split_asm provider_file.split_asm)
      moreover from this have "r = Inl e" using 3(2) body un Inl by simp
      ultimately show ?thesis using ok f1 f3 ne by (simp add: w' Inl)
    next
      case (Inr res)
      obtain h hs ss where res: "res = (h, hs, ss)" by (cases res)
      from ok Inr un have w3: "ru = Inr ()" "w3 = w2" by (auto simp: unlink_if_there_def)
      with 3(2) body un Inr res have r: "r = Inr \<lparr>pr_sha256 = h, pr_cdhashes = hs, pr_slices = map describe ss, pr_source = rep\<rparr>"
        by simp
      from ok Inr res w3 f1 ne show ?thesis by (auto simp: w' r published_def)
    qed
  qed simp
qed

subsection \<open>A slice reads the same wherever it stands\<close>

lemma slice_shift: "i + k \<le> length x \<Longrightarrow> slice (pre @ x @ post) (length pre + i) k = slice x i k"
  by (metis slice_append_left slice_append_right)

lemma fld_shift: "i + k \<le> length x \<Longrightarrow> fld e k (pre @ x @ post) (length pre + i) = fld e k x i"
  by (simp add: fld_def slice_shift)

lemma provider_command_shift:
  assumes "provider_command e x off cmd cmdsize st = Inr st'" and "off + cmdsize \<le> length x"
  shows "provider_command e (pre @ x @ post) (length pre + off) cmd cmdsize st = Inr st'"
proof -
  let ?d = "pre @ x @ post"
  have f: "fld e 4 ?d (length pre + off + k) = fld e 4 x (off + k)" if "off + k + 4 \<le> length x" for k
    using fld_shift [of "off + k" 4 x e pre post] that by (simp add: add.assoc)
  have s: "slice ?d (length pre + off + k) (cmdsize - k) = slice x (off + k) (cmdsize - k)" if "k \<le> cmdsize" for k
    using slice_shift [of "off + k" "cmdsize - k" x pre post] that assms(2) by (simp add: add.assoc)
  from assms(1) show ?thesis
    unfolding provider_command_def Let_def
    by (auto simp: f s not_less split: if_split_asm)
qed

lemma provider_walk_shift:
  assumes "provider_walk e x fin n off st = Inr st'" and "fin \<le> length x"
  shows "provider_walk e (pre @ x @ post) (length pre + fin) n (length pre + off) st = Inr st'"
  using assms
proof (induction n arbitrary: off st)
  case (Suc n)
  then obtain st1 where c: "provider_command e x off (u32 e x off) (u32 e x (off + 4)) st = Inr st1"
    and w: "provider_walk e x fin n (off + u32 e x (off + 4)) st1 = Inr st'"
    and b: "off + 8 \<le> fin" "8 \<le> u32 e x (off + 4)" "off + u32 e x (off + 4) \<le> fin"
    by (auto simp: Let_def not_less split: if_split_asm)
  have "u32 e (pre @ x @ post) (length pre + off) = u32 e x off" using fld_shift [of off 4 x] b Suc.prems(2) by simp
  moreover have "u32 e (pre @ x @ post) (length pre + off + 4) = u32 e x (off + 4)"
    using fld_shift [of "off + 4" 4 x e pre post] b Suc.prems(2) by (simp add: add.assoc)
  ultimately show ?case
    using provider_command_shift [OF c, of pre post] Suc.IH [OF w Suc.prems(2)] b Suc.prems(2) by (simp add: Let_def add.assoc)
qed simp

lemma parse_thin_iff:
  "parse_thin sha d off n = Inr i \<longleftrightarrow>
     (\<exists>e st platform minos. e = (if u32 LE d off = MH_MAGIC_64 then LE else BE) \<and> 32 \<le> n \<and> off + 32 \<le> length d \<and>
        u32 e d off = MH_MAGIC_64 \<and> u32 e d (off + 12) = MH_DYLIB \<and> u32 e d (off + 16) \<le> 1024 \<and> u32 e d (off + 20) \<le> n - 32 \<and>
        provider_walk e d (off + 32 + u32 e d (off + 20)) (u32 e d (off + 16)) (off + 32)
          \<lparr>ds_platform = None, ds_minos = None, ds_name = None\<rparr> = Inr st \<and>
        ds_platform st = Some platform \<and> ds_minos st = Some minos \<and>
        i = \<lparr>si_arch = provider_arch (signed32 (u32 e d (off + 4))) (signed32 (u32 e d (off + 8))),
          si_cputype = signed32 (u32 e d (off + 4)), si_cpusubtype = signed32 (u32 e d (off + 8)),
          si_offset = off, si_size = n, si_filetype = u32 e d (off + 12), si_platform = platform, si_minos = minos,
          si_install_name = ds_name st, si_sha256 = sha (slice d off n)\<rparr>)" (is "?l \<longleftrightarrow> ?r")
proof
  assume ?l
  then show ?r unfolding parse_thin_def Let_def by (auto simp: not_less split: option.split_asm)
next
  assume ?r
  then show ?l by (auto simp: parse_thin_def Let_def not_less)
qed

lemma parse_thin_shift:
  assumes "parse_thin sha x 0 (length x) = Inr i"
  shows "parse_thin sha (pre @ x @ post) (length pre) (length x) = Inr (i\<lparr>si_offset := length pre\<rparr>)"
proof -
  let ?d = "pre @ x @ post" and ?start = "\<lparr>ds_platform = None, ds_minos = None, ds_name = None\<rparr>"
  define e where "e = (if u32 LE x 0 = MH_MAGIC_64 then LE else BE)"
  from assms [unfolded parse_thin_iff] e_def obtain st platform minos where n: "32 \<le> length x" and m: "u32 e x 0 = MH_MAGIC_64"
    "u32 e x 12 = MH_DYLIB" "u32 e x 16 \<le> 1024" "u32 e x 20 \<le> length x - 32"
    and walk: "provider_walk e x (32 + u32 e x 20) (u32 e x 16) 32 ?start = Inr st"
    and pm: "ds_platform st = Some platform" "ds_minos st = Some minos"
    and i: "i = \<lparr>si_arch = provider_arch (signed32 (u32 e x 4)) (signed32 (u32 e x 8)),
          si_cputype = signed32 (u32 e x 4), si_cpusubtype = signed32 (u32 e x 8), si_offset = 0, si_size = length x,
          si_filetype = u32 e x 12, si_platform = platform, si_minos = minos, si_install_name = ds_name st,
          si_sha256 = sha (slice x 0 (length x))\<rparr>" by auto
  have f: "fld e' 4 ?d (length pre + k) = fld e' 4 x k" if "k + 4 \<le> 32" for k e'
    by (rule fld_shift) (use that n in simp)
  have f0: "fld e' 4 ?d (length pre) = fld e' 4 x 0" for e' using f [of 0 e'] by simp
  have s: "slice ?d (length pre) (length x) = slice x 0 (length x)" using slice_shift [of 0 "length x" x pre post] by simp
  have "provider_walk e ?d (length pre + 32 + u32 e x 20) (u32 e x 16) (length pre + 32) ?start = Inr st"
    using provider_walk_shift [OF walk, of pre post] n m(4) by (simp add: add.assoc)
  then show ?thesis
    unfolding parse_thin_iff using n m pm by (intro exI [of _ e] exI [of _ st] exI conjI) (simp_all add: f f0 s i e_def)
qed

subsection \<open>A provider\<close>

definition sample_dylib :: "nat \<Rightarrow> bytes" where
  "sample_dylib s =
     enc LE 4 0xfeedfacf @ enc LE 4 0x0100000c @ enc LE 4 s @ enc LE 4 6 @ enc LE 4 2 @ enc LE 4 120 @ enc LE 8 0 @
     enc LE 4 0x32 @ enc LE 4 24 @ enc LE 4 1 @ enc LE 4 0x000d0300 @ enc LE 8 0 @
     enc LE 4 0x0d @ enc LE 4 96 @ enc LE 4 24 @ enc LE 4 0 @ enc LE 8 0 @ encode_str INSTALL_NAME @ replicate 6 0"

definition sample_universal :: bytes where
  "sample_universal =
     enc BE 4 0xcafebabe @ enc BE 4 2 @
     enc BE 4 0x0100000c @ enc BE 4 0 @ enc BE 4 48 @ enc BE 4 152 @ enc BE 4 0 @
     enc BE 4 0x0100000c @ enc BE 4 2 @ enc BE 4 200 @ enc BE 4 152 @ enc BE 4 0 @
     sample_dylib 0 @ sample_dylib 2"

definition sample_digest :: "bytes \<Rightarrow> string" where "sample_digest b = [char_of (length b)]"

definition sample_dylib_info :: "string \<Rightarrow> int \<Rightarrow> nat \<Rightarrow> slice_info" where
  "sample_dylib_info a s off = \<lparr>si_arch = a, si_cputype = 0x0100000c, si_cpusubtype = s, si_offset = off, si_size = 152,
     si_filetype = 6, si_platform = 1, si_minos = (13, 3, 0), si_install_name = Some INSTALL_NAME, si_sha256 = [char_of (152 :: nat)]\<rparr>"

lemma sample_dylib_length:
  "length (sample_dylib s) = 152"
proof -
  have "length INSTALL_NAME = 66" by (simp add: INSTALL_NAME_def)
  then show ?thesis by (simp add: sample_dylib_def)
qed

lemma sample_dylib_thin:
  "parse_thin sample_digest (sample_dylib 0) 0 152 = Inr (sample_dylib_info ''arm64'' 0 0)"
  "parse_thin sample_digest (sample_dylib 2) 0 152 = Inr (sample_dylib_info ''arm64e'' 2 0)"
  by code_simp+

lemma sample_dylib_parse:
  "parse_thin sample_digest (pre @ sample_dylib 0 @ post) (length pre) 152 = Inr (sample_dylib_info ''arm64'' 0 (length pre))"
  "parse_thin sample_digest (pre @ sample_dylib 2 @ post) (length pre) 152 = Inr (sample_dylib_info ''arm64e'' 2 (length pre))"
  using parse_thin_shift [of sample_digest "sample_dylib 0" "sample_dylib_info ''arm64'' 0 0" pre post]
    parse_thin_shift [of sample_digest "sample_dylib 2" "sample_dylib_info ''arm64e'' 2 0" pre post]
    sample_dylib_thin sample_dylib_length by (simp_all add: sample_dylib_info_def)

lemma sample_inspect:
  "inspect sample_digest (sample_dylib 0) = Inr [sample_dylib_info ''arm64'' 0 0]"
  "inspect sample_digest (sample_dylib 2) = Inr [sample_dylib_info ''arm64e'' 2 0]"
proof -
  have "slice (sample_dylib s) 0 4 = enc LE 4 0xfeedfacf" for s by (simp add: sample_dylib_def slice_def)
  then have "u32 BE (sample_dylib s) 0 = dec BE (enc LE 4 0xfeedfacf)" for s by (simp add: fld_def)
  moreover have "dec BE (enc LE 4 0xfeedfacf) = 0xcffaedfe" by code_simp
  ultimately show "inspect sample_digest (sample_dylib 0) = Inr [sample_dylib_info ''arm64'' 0 0]"
    "inspect sample_digest (sample_dylib 2) = Inr [sample_dylib_info ''arm64e'' 2 0]"
    by (simp_all add: inspect_def sample_dylib_length sample_dylib_thin FAT_MAGIC_def FAT_MAGIC_64_def)
qed

definition sample_table :: bytes where
  "sample_table =
     enc BE 4 0xcafebabe @ enc BE 4 2 @
     enc BE 4 0x0100000c @ enc BE 4 0 @ enc BE 4 48 @ enc BE 4 152 @ enc BE 4 0 @
     enc BE 4 0x0100000c @ enc BE 4 2 @ enc BE 4 200 @ enc BE 4 152 @ enc BE 4 0"

lemma sample_universal_table: "sample_universal = sample_table @ sample_dylib 0 @ sample_dylib 2"
  by (simp add: sample_universal_def sample_table_def)

lemma sample_table_fields:
  "u32 BE sample_table 0 = 0xcafebabe" "u32 BE sample_table 4 = 2"
  "u32 BE sample_table 8 = 0x0100000c" "u32 BE sample_table 12 = 0" "u32 BE sample_table 16 = 48" "u32 BE sample_table 20 = 152"
  "u32 BE sample_table 28 = 0x0100000c" "u32 BE sample_table 32 = 2" "u32 BE sample_table 36 = 200" "u32 BE sample_table 40 = 152"
  "length sample_table = 48"
  by code_simp+

lemma sample_universal_fields: "i + 4 \<le> 48 \<Longrightarrow> u32 BE sample_universal i = u32 BE sample_table i"
  by (simp add: sample_universal_table fld_def slice_append_left sample_table_fields)

lemma sample_universal_length: "length sample_universal = 352"
  by (simp add: sample_universal_table sample_table_fields sample_dylib_length)

lemma sample_inspect_universal:
  "inspect sample_digest sample_universal = Inr [sample_dylib_info ''arm64'' 0 48, sample_dylib_info ''arm64e'' 2 200]"
proof -
  have p: "parse_thin sample_digest sample_universal 48 152 = Inr (sample_dylib_info ''arm64'' 0 48)"
    "parse_thin sample_digest sample_universal 200 152 = Inr (sample_dylib_info ''arm64e'' 2 200)"
    using sample_dylib_parse(1) [of sample_table "sample_dylib 2"] sample_dylib_parse(2) [of "sample_table @ sample_dylib 0" "[]"]
    by (simp_all add: sample_universal_table sample_table_fields sample_dylib_length)
  have "si_cputype (sample_dylib_info s c q) = 0x0100000c" "si_cpusubtype (sample_dylib_info s c q) = c" for s c q
    by (simp_all add: sample_dylib_info_def)
  with p show ?thesis
    by (simp add: inspect_def sample_universal_length sample_universal_fields sample_table_fields FAT_MAGIC_def FAT_MAGIC_64_def
        upt_rec Let_def provider_row_def)
qed
lemma sample_accept:
  "accept_fat [sample_dylib_info ''arm64'' 0 48, sample_dylib_info ''arm64e'' 2 200] = Inr [sample_dylib_info ''arm64'' 0 48, sample_dylib_info ''arm64e'' 2 200]"
  by code_simp

theorem accepted_provider_bounds_witness:
  "\<exists>d. read_bytes [''p'' \<mapsto> PFile sample_universal] ''p'' = Inr d \<and>
    (\<exists>q. 232 \<le> q \<and> q + length INSTALL_NAME < 352 \<and> slice d q (length INSTALL_NAME + 1) = encode_str INSTALL_NAME @ [0])"
proof -
  have "verify_fat sample_digest [''p'' \<mapsto> PFile sample_universal] ''p'' = Inr [sample_dylib_info ''arm64'' 0 48, sample_dylib_info ''arm64e'' 2 200]"
    by (simp add: verify_fat_def inspect_path_def read_bytes_def sample_inspect_universal sample_accept)
  from accepted_provider_bounds [OF this] show ?thesis by (auto simp: sample_dylib_info_def)
qed

subsection \<open>A publication\<close>

lemma has_substring_append: "has_substring p t \<Longrightarrow> has_substring p (s @ t)"
  by (induction s) auto

definition sample_provider_tools :: "string list provider_tools" where
  "sample_provider_tools = \<lparr>pt_sha = sample_digest, pt_thin = (\<lambda>b a. Inr (False, None)), pt_create = (\<lambda>a b. Inr (True, Some sample_universal)),
     pt_sign = (\<lambda>b. Inr (True, b)), pt_cdhash = (\<lambda>b a. Inr (True, ''CDHash='' @ a)),
     pt_trust_add = (\<lambda>h c. Inr (True, h # c)), pt_trust_info = (\<lambda>c. Inr (True, concat c)), pt_others = id\<rparr>"

lemma sample_provider_tools_simps [simp]:
  "pt_sha sample_provider_tools = sample_digest" "pt_create sample_provider_tools a b = Inr (True, Some sample_universal)"
  "pt_sign sample_provider_tools b = Inr (True, b)" "pt_cdhash sample_provider_tools b s = Inr (True, ''CDHash='' @ s)"
  "pt_trust_add sample_provider_tools h c = Inr (True, h # c)" "pt_trust_info sample_provider_tools c = Inr (True, concat c)" "pt_others sample_provider_tools = id"
  by (simp_all add: sample_provider_tools_def)

lemma sample_live: "live sample_provider_tools c h = Inr (has_substring (lower h) (lower (concat c)))"
  by (simp add: live_def run_tool_def require_success_def)

lemma sample_trust_grows: "trust_grows sample_provider_tools"
  by (auto simp: trust_grows_def sample_live lower_def intro: has_substring_append)

definition sample_root_files :: provider_files where
  "sample_root_files =
     [''r/System/Library'' \<mapsto> PFolder, ''r/System/Library/Frameworks/CydiaSubstrate.framework'' \<mapsto> PFolder, ''e'' \<mapsto> PFile [],
      ''s/CydiaSubstrate'' \<mapsto> PFile sample_universal, ''s/CydiaSubstrate.arm64'' \<mapsto> PFile (sample_dylib 0),
      ''s/CydiaSubstrate.arm64e'' \<mapsto> PFile (sample_dylib 2)]"

lemma sample_root_names:
  "path_join ''r'' ''System/Library'' = ''r/System/Library''"
  "path_join ''r'' CHROOT_PROVIDER_DIR = ''r/System/Library/Frameworks/CydiaSubstrate.framework''"
  "publish_target ''r'' = ''r/System/Library/Frameworks/CydiaSubstrate.framework/CydiaSubstrate''"
  "publish_temporary ''r'' ''7'' = ''r/System/Library/Frameworks/CydiaSubstrate.framework/.CydiaSubstrate.new-7''"
  "provider_main ''s'' = ''s/CydiaSubstrate''" "provider_companion ''s'' ''arm64'' = ''s/CydiaSubstrate.arm64''"
  "provider_companion ''s'' ''arm64e'' = ''s/CydiaSubstrate.arm64e''"
  by code_simp+

lemma sample_bundle:
  "verify_bundle sample_digest sample_root_files ''s'' False =
     Inr \<lparr>br_main_sha256 = sample_digest sample_universal,
       br_companions = [(''arm64'', sample_digest (sample_dylib 0), [char_of (152 :: nat)]), (''arm64e'', sample_digest (sample_dylib 2), [char_of (152 :: nat)])]\<rparr>"
proof -
  have "foldE (companion_agrees (by_arch [sample_dylib_info ''arm64'' 0 48, sample_dylib_info ''arm64e'' 2 200]) False)
      [(''arm64'', sample_dylib_info ''arm64'' 0 0), (''arm64e'', sample_dylib_info ''arm64e'' 2 0)] () = Inr ()"
    "accept_thin ''arm64'' [sample_dylib_info ''arm64'' 0 0] = Inr (sample_dylib_info ''arm64'' 0 0)"
    "accept_thin ''arm64e'' [sample_dylib_info ''arm64e'' 2 0] = Inr (sample_dylib_info ''arm64e'' 2 0)"
    "map fst (by_arch [sample_dylib_info ''arm64'' 0 48, sample_dylib_info ''arm64e'' 2 200]) = [''arm64'', ''arm64e'']"
    "si_sha256 (sample_dylib_info a s q) = [char_of (152 :: nat)]" for a s q by (code_simp | simp add: sample_dylib_info_def)+
  then show ?thesis
    by (auto simp: verify_bundle_def provider_paths_def REQUIRED_ARCHS_def sample_root_names payload_present_def exists_path_def
        is_symlink_def is_file_def sample_root_files_def inspect_path_def verify_thin_def read_bytes_def sample_inspect sample_inspect_universal
        sha256_file_def Let_def)
qed

definition sample_world :: "string list provider_world" where
  "sample_world = \<lparr>pw_files = sample_root_files, pw_trust = []\<rparr>"

definition sample_provider_target :: string where
  "sample_provider_target = ''r/System/Library/Frameworks/CydiaSubstrate.framework/CydiaSubstrate''"

definition sample_temp :: string where
  "sample_temp = ''r/System/Library/Frameworks/CydiaSubstrate.framework/.CydiaSubstrate.new-7''"

definition sample_publication :: "string list provider_world" where
  "sample_publication = \<lparr>pw_files = sample_root_files(sample_provider_target \<mapsto> PFile sample_universal), pw_trust = [''arm64e'', ''arm64'']\<rparr>"

definition sample_dylib_slices :: "slice_info list" where
  "sample_dylib_slices = [sample_dylib_info ''arm64'' 0 48, sample_dylib_info ''arm64e'' 2 200]"

definition sample_report :: publish_report where
  "sample_report = \<lparr>pr_sha256 = sample_digest sample_universal, pr_cdhashes = [''arm64'', ''arm64e''], pr_slices = map describe sample_dylib_slices,
     pr_source = \<lparr>br_main_sha256 = sample_digest sample_universal,
       br_companions = [(''arm64'', sample_digest (sample_dylib 0), [char_of (152 :: nat)]), (''arm64e'', sample_digest (sample_dylib 2), [char_of (152 :: nat)])]\<rparr>\<rparr>"

lemma sample_verify:
  "fs p = Some (PFile sample_universal) \<Longrightarrow> verify_fat sample_digest fs p = Inr sample_dylib_slices"
  by (simp add: verify_fat_def inspect_path_def read_bytes_def sample_inspect_universal sample_accept sample_dylib_slices_def)

lemma sample_cdhash:
  "ldid_cdhash sample_provider_tools b ''arm64'' = Inr ''arm64''" "ldid_cdhash sample_provider_tools b ''arm64e'' = Inr ''arm64e''"
proof -
  have "cdhash_in (''CDHash='' @ ''arm64'') = Some ''arm64''" "cdhash_in (''CDHash='' @ ''arm64e'') = Some ''arm64e''" by code_simp+
  then show "ldid_cdhash sample_provider_tools b ''arm64'' = Inr ''arm64''" "ldid_cdhash sample_provider_tools b ''arm64e'' = Inr ''arm64e''"
    by (simp_all add: ldid_cdhash_def run_tool_def require_success_def)
qed

lemma sample_trust_run:
  "trust_hash sample_provider_tools ''arm64'' \<lparr>pw_files = fs, pw_trust = []\<rparr> = (Inr (), \<lparr>pw_files = fs, pw_trust = [''arm64'']\<rparr>)"
  "trust_hash sample_provider_tools ''arm64e'' \<lparr>pw_files = fs, pw_trust = [''arm64'']\<rparr> =
     (Inr (), \<lparr>pw_files = fs, pw_trust = [''arm64e'', ''arm64'']\<rparr>)"
proof -
  have "has_substring (lower ''arm64'') (lower (concat [''arm64'']))"
    "has_substring (lower ''arm64e'') (lower (concat [''arm64e'', ''arm64'']))" by code_simp+
  then show "trust_hash sample_provider_tools ''arm64'' \<lparr>pw_files = fs, pw_trust = []\<rparr> = (Inr (), \<lparr>pw_files = fs, pw_trust = [''arm64'']\<rparr>)"
    "trust_hash sample_provider_tools ''arm64e'' \<lparr>pw_files = fs, pw_trust = [''arm64'']\<rparr> =
     (Inr (), \<lparr>pw_files = fs, pw_trust = [''arm64e'', ''arm64'']\<rparr>)"
    by (simp_all add: trust_hash_def run_tool_def sample_live del: has_substring.simps concat.simps)
qed

lemma sample_build:
  assumes "fs sample_temp = None" and "fs ''s/CydiaSubstrate.arm64'' = Some (PFile (sample_dylib 0))"
    and "fs ''s/CydiaSubstrate.arm64e'' = Some (PFile (sample_dylib 2))"
  shows "build_candidate sample_provider_tools ''s'' sample_temp \<lparr>pw_files = fs, pw_trust = []\<rparr> =
     (Inr (sample_digest sample_universal, [''arm64'', ''arm64e''], sample_dylib_slices),
      \<lparr>pw_files = fs(sample_temp \<mapsto> PFile sample_universal), pw_trust = [''arm64e'', ''arm64'']\<rparr>)"
proof -
  define f where "f = fs(sample_temp \<mapsto> PFile sample_universal)"
  have f: "f sample_temp = Some (PFile sample_universal)" "f(sample_temp \<mapsto> PFile sample_universal) = f" by (simp_all add: f_def)
  have w: "write_output sample_temp (Inr (True, Some sample_universal)) \<lparr>pw_files = fs, pw_trust = []\<rparr> =
      (Inr (), \<lparr>pw_files = f, pw_trust = []\<rparr>)"
    by (simp add: write_output_def thenS_def run_tool_def require_success_def lookS_def put_file_def f_def)
  have s: "sign_once sample_provider_tools sample_temp n \<lparr>pw_files = f, pw_trust = []\<rparr> = (Inr (), \<lparr>pw_files = f, pw_trust = []\<rparr>)" for n
    by (simp add: sign_once_def thenS_def run_tool_def require_success_def lookS_def put_file_def read_bytes_def f)
  have h: "mapE (ldid_cdhash sample_provider_tools b) REQUIRED_ARCHS = Inr [''arm64'', ''arm64e'']" for b
    by (simp add: REQUIRED_ARCHS_def sample_cdhash)
  have c: "read_bytes fs ''s/CydiaSubstrate.arm64'' = Inr (sample_dylib 0)" "read_bytes fs ''s/CydiaSubstrate.arm64e'' = Inr (sample_dylib 2)"
    "read_bytes f sample_temp = Inr sample_universal"
    using assms(2,3) f by (simp_all add: read_bytes_def)
  show ?thesis
    unfolding build_candidate_def thenS_def lookS_def f_def [symmetric]
    by (simp add: sample_root_names c w sample_verify [of f sample_temp, OF f(1)] s [unfolded lookS_def] h sample_trust_run f
        sha256_file_def thenS_def)
qed

lemma sample_publish:
  "publish sample_provider_tools ''s'' ''r'' ''e'' ''7'' sample_world = (Inr sample_report, sample_publication)"
proof -
  let ?fs = sample_root_files
  let ?w0 = "\<lparr>pw_files = ?fs, pw_trust = []\<rparr> :: string list provider_world"
  let ?w1 = "\<lparr>pw_files = ?fs(sample_temp \<mapsto> PFile sample_universal), pw_trust = [''arm64e'', ''arm64'']\<rparr>"
  have names: "publish_target ''r'' = sample_provider_target" "publish_temporary ''r'' ''7'' = sample_temp" "sample_temp \<noteq> sample_provider_target"
    "?fs sample_temp = None" "?fs sample_provider_target = None"
    "?fs ''s/CydiaSubstrate.arm64'' = Some (PFile (sample_dylib 0))" "?fs ''s/CydiaSubstrate.arm64e'' = Some (PFile (sample_dylib 2))"
    by (simp_all add: sample_root_names sample_provider_target_def sample_temp_def sample_root_files_def)
  have checks: "publish_checks sample_provider_tools ''s'' ''r'' ''e'' ?fs = Inr (pr_source sample_report)"
    using names(1,5) by (simp add: publish_checks_def Let_def sample_root_names is_dir_def is_symlink_def is_file_def sample_bundle
        sample_report_def) (simp add: sample_root_files_def)
  have un: "unlink_if_there sample_temp w = (Inr (), w)" if "pw_files w sample_temp = None" for w :: "string list provider_world"
    using that by (simp add: unlink_if_there_def)
  have ren: "rename_into_place sample_provider_tools sample_temp sample_provider_target ?w1 = (Inr (), sample_publication)"
    using names(3,4,5) by (auto simp: rename_into_place_def sample_publication_def fun_eq_iff)
  have at: "pw_files sample_publication sample_provider_target = Some (PFile sample_universal)" "pw_files sample_publication sample_temp = None"
    using names(3,4) by (simp_all add: sample_publication_def)
  have "publish_body sample_provider_tools ''s'' sample_temp sample_provider_target ?w0 =
     (Inr (sample_digest sample_universal, [''arm64'', ''arm64e''], sample_dylib_slices), sample_publication)"
    unfolding publish_body_def thenS_def lookS_def
    by (simp add: sample_build [OF names(4,6,7)] ren sample_verify [of "pw_files sample_publication" sample_provider_target, OF at(1)] sha256_file_def read_bytes_def at)
  then show ?thesis
    unfolding publish_def thenS_def lookS_def Let_def names sample_world_def
    by (simp add: checks un names at) (simp add: sample_report_def)
qed

theorem publish_transaction_witness:
  "\<exists>b ss. pw_files sample_publication (publish_target ''r'') = Some (PFile b) \<and> sample_digest b = pr_sha256 sample_report \<and>
     verify_fat sample_digest (pw_files sample_publication) (publish_target ''r'') = Inr ss \<and>
     live sample_provider_tools (pw_trust sample_publication) ''arm64e'' = Inr True"
  using publish_transaction [OF sample_publish sample_provider_tools_simps(7) sample_trust_grows] by (auto simp: sample_report_def)

end
