(* ===== verification/Artifact.thy ===== *)
theory Artifact
  imports Provider "HOL-Library.List_Lexorder"
begin

text \<open>
  \<^verbatim>\<open>misc/macws_artifact_contract.py\<close>: the manifest of the sources a cross-built tweak depends on, and the
  checks of a package before it is installed.  A path is the list of its components; the source tree
  gives the content of every regular file, and \<open>st_resolve\<close> is \<open>Path.resolve\<close>.  SHA-256, the property
  list parser, \<open>otool\<close>, \<open>nm\<close> and the two archives \<open>dpkg-deb\<close> prints are parameters.
\<close>

subsection \<open>The payload of a package\<close>

definition ARTIFACT_SCHEMA :: int where "ARTIFACT_SCHEMA = 1"

definition PACKAGE_PATHS :: "string list" where
  "PACKAGE_PATHS =
     [''var/jb/Applications/MacWSHost.app/MacWSHost'',
      ''var/jb/Applications/MacWSCatalystLauncher.app/MacWSCatalystLauncher'',
      ''var/jb/Library/MobileSubstrate/DynamicLibraries/MacWSWindowing.dylib'',
      ''var/jb/Library/MobileSubstrate/DynamicLibraries/MacWSCatalystLaunch.dylib'',
      ''var/jb/usr/macOS/bin/macwshostd'',
      ''var/jb/usr/macOS/bin/macws_control_probe'',
      ''var/jb/usr/macOS/bin/macwsaudiooutd'',
      ''var/jb/usr/macOS/bin/macos_gui.sh'',
      ''var/jb/usr/macOS/bin/macws_dense_grid.sh'',
      ''var/jb/usr/macOS/bin/postinst.sh'',
      ''var/jb/usr/macOS/bin/macws_diagnostic_flags.sh'',
      ''var/jb/usr/macOS/bin/macws_retire_legacy_boot_jobs.py'',
      ''var/jb/usr/macOS/bin/macws_metal_cache_migration.py'',
      ''var/jb/usr/macOS/bin/macws_refresh_managed_job.py'',
      ''var/jb/usr/macOS/bin/ensure_settings_extensions_runtime.sh'',
      ''var/jb/usr/macOS/bin/macws_provider_contract.py'',
      ''var/jb/usr/macOS/bin/macws_publish_substrate.sh'',
      ''var/jb/usr/macOS/Frameworks/CydiaSubstrate.framework/CydiaSubstrate'',
      ''var/jb/usr/macOS/Frameworks/CydiaSubstrate.framework/CydiaSubstrate.arm64'',
      ''var/jb/usr/macOS/Frameworks/CydiaSubstrate.framework/CydiaSubstrate.arm64e'',
      ''var/jb/usr/macOS/gui-launchd/com.macwsguide.coreaudiod.plist'',
      ''var/jb/usr/macOS/gui-launchd/com.macwsguide.audiocomponentregistrar.plist'',
      ''var/jb/usr/macOS/gui-launchd/com.macwsguide.audio-output.plist'',
      ''var/jb/usr/macOS/lib/libmachook.dylib'',
      ''var/jb/usr/macOS/lib/libmachook_arm64.dylib'',
      ''var/jb/Library/MobileSubstrate/DynamicLibraries/MTLCompilerBypassOSCheck.dylib'',
      ''var/jb/usr/macOS/gui-launchd/com.macwsguide.vscode.plist'',
      ''var/jb/usr/macOS/gui-launchd/com.macwsguide.geekbench.plist'']"

definition SOURCE_PAYLOADS :: "(string \<times> string) list" where
  "SOURCE_PAYLOADS =
     [(''var/jb/usr/macOS/bin/macos_gui.sh'', ''layout/usr/macOS/bin/macos_gui.sh''),
      (''var/jb/usr/macOS/bin/macws_dense_grid.sh'', ''layout/usr/macOS/bin/macws_dense_grid.sh''),
      (''var/jb/usr/macOS/bin/postinst.sh'', ''layout/usr/macOS/bin/postinst.sh''),
      (''var/jb/usr/macOS/bin/macws_diagnostic_flags.sh'', ''layout/usr/macOS/bin/macws_diagnostic_flags.sh''),
      (''var/jb/usr/macOS/bin/macws_retire_legacy_boot_jobs.py'', ''layout/usr/macOS/bin/macws_retire_legacy_boot_jobs.py''),
      (''var/jb/usr/macOS/bin/macws_metal_cache_migration.py'', ''layout/usr/macOS/bin/macws_metal_cache_migration.py''),
      (''var/jb/usr/macOS/bin/macws_refresh_managed_job.py'', ''layout/usr/macOS/bin/macws_refresh_managed_job.py''),
      (''var/jb/usr/macOS/bin/ensure_settings_extensions_runtime.sh'', ''layout/usr/macOS/bin/ensure_settings_extensions_runtime.sh''),
      (''var/jb/usr/macOS/bin/macws_provider_contract.py'', ''misc/macws_provider_contract.py''),
      (''var/jb/usr/macOS/bin/macws_publish_substrate.sh'', ''layout/usr/macOS/bin/macws_publish_substrate.sh''),
      (''var/jb/usr/macOS/bin/ensure_metal2metal_compat.sh'', ''layout/usr/macOS/bin/ensure_metal2metal_compat.sh''),
      (''var/jb/usr/macOS/bin/ensure_office_metal2metal.py'', ''misc/ensure_office_metal2metal.py''),
      (''var/jb/usr/macOS/bin/metal2metal.py'', ''misc/metal2metal.py''),
      (''var/jb/usr/macOS/bin/metal2metal_manifest.py'', ''misc/metal2metal_manifest.py''),
      (''var/jb/usr/macOS/bin/metal2metal_profiles.py'', ''misc/metal2metal_profiles.py''),
      (''var/jb/usr/macOS/bin/repack_metallib_macabi.py'', ''misc/repack_metallib_macabi.py''),
      (''var/jb/usr/macOS/gui-launchd/com.macwsguide.coreaudiod.plist'', ''misc/com.macwsguide.coreaudiod.plist''),
      (''var/jb/usr/macOS/gui-launchd/com.macwsguide.audiocomponentregistrar.plist'', ''misc/com.macwsguide.audiocomponentregistrar.plist''),
      (''var/jb/usr/macOS/gui-launchd/com.macwsguide.audio-output.plist'', ''misc/com.macwsguide.audio-output.plist''),
      (''var/jb/usr/macOS/gui-launchd/com.macwsguide.vscode.plist'', ''misc/com.macwsguide.vscode.plist''),
      (''DEBIAN/postinst'', ''layout/DEBIAN/postinst'')]"

definition ARCHIVE_PATHS :: "string list" where
  "ARCHIVE_PATHS = sort (remdups (PACKAGE_PATHS @ filter (\<lambda>n. \<not> starts ''DEBIAN/'' n) (map fst SOURCE_PAYLOADS)))"

definition WINDOWING_PATH :: string where "WINDOWING_PATH = PACKAGE_PATHS ! 2"

definition SUBSTRATE_DIR :: string where "SUBSTRATE_DIR = ''var/jb/usr/macOS/Frameworks/CydiaSubstrate.framework''"

subsection \<open>Included files\<close>

text \<open>\<open>read_text\<close> translates every line end to a newline.\<close>

fun universal_newlines :: "string \<Rightarrow> string" where
  "universal_newlines [] = []"
| "universal_newlines [c] = [if c = CHR 0x0d then CHR 0x0a else c]"
| "universal_newlines (c # d # s) =
     (if c = CHR 0x0d then if d = CHR 0x0a then CHR 0x0a # universal_newlines s else CHR 0x0a # universal_newlines (d # s)
      else c # universal_newlines (d # s))"

text \<open>
  \<open>QUOTED_INCLUDE\<close> tried at the start of a line: the name, and the text behind the closing quote.
  Its parts never compete for a character, so greedy matching needs no backtracking.
\<close>

definition match_include :: "string \<Rightarrow> (string \<times> string) option" where
  "match_include s =
     (let a = dropWhile is_space s; b = dropWhile is_space (tl a);
          q = dropWhile is_space (drop (if starts ''include'' b then 7 else 6) b);
          name = takeWhile (\<lambda>c. c \<noteq> CHR 0x22) (tl q); rest = drop (length name) (tl q) in
      if take 1 a = [CHR 0x23] \<and> (starts ''include'' b \<or> starts ''import'' b) \<and> take 1 q = [CHR 0x22] \<and>
         name \<noteq> [] \<and> rest \<noteq> []
      then Some (name, tl rest) else None)"

lemma match_include_shorter: "match_include s = Some (n, rest) \<Longrightarrow> length rest < length s"
proof -
  assume m: "match_include s = Some (n, rest)"
  define a where "a = dropWhile is_space s"
  define b where "b = dropWhile is_space (tl a)"
  define q where "q = dropWhile is_space (drop (if starts ''include'' b then 7 else 6) b)"
  from m have "rest = tl (drop (length n) (tl q))" and "take 1 a = [CHR 0x23]"
    by (auto simp: match_include_def Let_def a_def b_def q_def split: if_split_asm)
  then have "a \<noteq> []" by auto
  have "length rest \<le> length q" using \<open>rest = _\<close> by simp
  also have "\<dots> \<le> length b" unfolding q_def by (rule order_trans [OF length_dropWhile_le]) simp
  also have "\<dots> \<le> length (tl a)" unfolding b_def by (rule length_dropWhile_le)
  also have "\<dots> < length a" using \<open>a \<noteq> []\<close> by simp
  also have "\<dots> \<le> length s" unfolding a_def by (rule length_dropWhile_le)
  finally show ?thesis .
qed

text \<open>\<open>QUOTED_INCLUDE.findall\<close>; \<open>bol\<close> says whether the position is the start of a line.\<close>

function find_includes :: "bool \<Rightarrow> string \<Rightarrow> string list" where
  "find_includes bol s =
     (case (if bol then match_include s else None) of
        Some (name, rest) \<Rightarrow> name # find_includes False rest
      | None \<Rightarrow> (case s of [] \<Rightarrow> [] | c # s' \<Rightarrow> find_includes (c = CHR 0x0a) s'))"
  by pat_completeness auto
termination
  by (relation "measure (length \<circ> snd)") (auto dest: match_include_shorter split: if_split_asm)

declare find_includes.simps [simp del]

subsection \<open>The sources\<close>

type_synonym parts = "string list"

record source_tree =
  st_root :: parts
  st_walk :: "parts list"
  st_resolve :: "parts \<Rightarrow> parts"
  st_file :: "parts \<rightharpoonup> bytes"

text \<open>The components of an include, and \<open>base / name\<close>.\<close>

fun split_parts :: "string \<Rightarrow> string \<Rightarrow> string list" where
  "split_parts part [] = [rev part]"
| "split_parts part (c # s) = (if c = CHR ''/'' then rev part # split_parts [] s else split_parts (c # part) s)"

definition path_parts :: "string \<Rightarrow> parts" where
  "path_parts s = filter (\<lambda>p. p \<noteq> [] \<and> p \<noteq> ''.'') (split_parts [] s)"

definition join_parts :: "parts \<Rightarrow> string \<Rightarrow> parts" where
  "join_parts base s = (if starts ''/'' s then path_parts s else base @ path_parts s)"

fun posix :: "parts \<Rightarrow> string" where
  "posix [] = ''.''"
| "posix [p] = p"
| "posix (p # ps) = p @ ''/'' @ posix ps"

text \<open>\<open>path.suffix\<close>\<close>

definition path_suffix :: "parts \<Rightarrow> string" where
  "path_suffix p =
     (let name = (if p = [] then [] else last p); ext = takeWhile (\<lambda>c. c \<noteq> CHR ''.'') (rev name) in
      if ext \<noteq> [] \<and> length ext + 1 < length name then CHR ''.'' # rev ext else [])"

definition SOURCE_SUFFIXES :: "string list" where
  "SOURCE_SUFFIXES = [''.x'', ''.m'', ''.mm'', ''.c'', ''.h'']"

definition relative_to :: "parts \<Rightarrow> parts \<Rightarrow> parts result" where
  "relative_to root p = (if starts root p then Inr (drop (length root) p) else Inl (ValueError '' is not in the subpath of ''))"

definition hidden :: "parts \<Rightarrow> bool" where
  "hidden p \<longleftrightarrow> list_ex (starts ''.'') p"

definition first_pending :: "source_tree \<Rightarrow> parts list result" where
  "first_pending T =
     bindE (mapE (\<lambda>p. bindE (relative_to (st_root T) p) (\<lambda>r. Inr (p, r))) (filter (\<lambda>p. st_file T p \<noteq> None) (st_walk T))) (\<lambda>walk.
     Inr ([st_root T @ [''Makefile''], st_root T @ [''config'', ''production.mk'']] @
       map fst (filter (\<lambda>(p, r). \<not> hidden r) walk)))"

text \<open>The file an include names: the first candidate that is a file.\<close>

definition locate :: "source_tree \<Rightarrow> parts \<Rightarrow> string \<Rightarrow> parts result" where
  "locate T p include =
     (case List.find (\<lambda>c. st_file T c \<noteq> None)
        [join_parts (butlast p) include, join_parts (st_root T @ [''include'']) include, join_parts (st_root T) include] of
        None \<Rightarrow> Inl (ValueError ''unresolved local include '')
      | Some c \<Rightarrow> Inr c)"

definition dependencies_of :: "source_tree \<Rightarrow> parts \<Rightarrow> bytes \<Rightarrow> parts list result" where
  "dependencies_of T p bs =
     (if path_suffix p \<notin> set SOURCE_SUFFIXES then Inr []
      else bindE (decode_utf8 bs) (\<lambda>s. mapE (locate T p) (find_includes True (universal_newlines s))))"

text \<open>
  One turn of the \<open>while\<close> loop, for the path taken from the end of \<open>pending\<close>; the list is kept
  reversed, and \<open>sources\<close> under the components of the relative paths.
\<close>

definition source_step :: "source_tree \<Rightarrow> (bytes \<Rightarrow> string) \<Rightarrow> parts \<Rightarrow> parts list \<Rightarrow> (parts \<times> string) list
    \<Rightarrow> (parts list \<times> (parts \<times> string) list) result" where
  "source_step T sha p todo sources =
     (let path = st_resolve T p in
      bindE (relative_to (st_root T) path) (\<lambda>relative.
      if relative \<in> set (map fst sources) then Inr (todo, sources)
      else case st_file T path of
        None \<Rightarrow> Inl (OSError ''open'')
      | Some bs \<Rightarrow>
          bindE (dependencies_of T path bs) (\<lambda>deps. Inr (rev deps @ todo, sources @ [(relative, sha bs)]))))"

text \<open>The loop; \<open>None\<close> is a run that does not end.\<close>

partial_function (option) source_loop :: "source_tree \<Rightarrow> (bytes \<Rightarrow> string) \<Rightarrow> parts list \<Rightarrow> (parts \<times> string) list
    \<Rightarrow> (parts \<times> string) list result option" where
  "source_loop T sha todo sources =
     (case todo of
        [] \<Rightarrow> Some (Inr sources)
      | p # rest \<Rightarrow>
          (case source_step T sha p rest sources of
             Inl e \<Rightarrow> Some (Inl e)
           | Inr s \<Rightarrow> source_loop T sha (fst s) (snd s)))"

declare source_loop.simps [code]

definition source_hashes :: "source_tree \<Rightarrow> (bytes \<Rightarrow> string) \<Rightarrow> (string \<times> string) list result option" where
  "source_hashes T sha =
     (case first_pending T of
        Inl e \<Rightarrow> Some (Inl e)
      | Inr todo \<Rightarrow>
          map_option (\<lambda>r. bindE r (\<lambda>sources. Inr (sort_key fst (map (\<lambda>(k, h). (posix k, h)) sources))))
            (source_loop T sha (rev todo) []))"

subsection \<open>The collection of the sources\<close>

text \<open>
  The specification: the files reached from the first pending paths along resolved includes.
\<close>

inductive reached :: "source_tree \<Rightarrow> parts \<Rightarrow> bool" for T where
  first: "first_pending T = Inr ps \<Longrightarrow> p \<in> set ps \<Longrightarrow> reached T (st_resolve T p)"
| included: "reached T p \<Longrightarrow> st_file T p = Some bs \<Longrightarrow> dependencies_of T p bs = Inr ds \<Longrightarrow> q \<in> set ds \<Longrightarrow> reached T (st_resolve T q)"

definition done_with :: "source_tree \<Rightarrow> (parts \<times> string) list \<Rightarrow> parts \<Rightarrow> bool" where
  "done_with T ss p \<longleftrightarrow> (\<exists>k \<in> set (map fst ss). p = st_root T @ k)"

definition collected :: "source_tree \<Rightarrow> (bytes \<Rightarrow> string) \<Rightarrow> parts list \<Rightarrow> parts list \<Rightarrow> (parts \<times> string) list \<Rightarrow> bool" where
  "collected T sha ps todo ss \<longleftrightarrow> distinct (map fst ss) \<and>
     (\<forall>(k, h) \<in> set ss. \<exists>bs. reached T (st_root T @ k) \<and> st_file T (st_root T @ k) = Some bs \<and> h = sha bs) \<and>
     (\<forall>p \<in> set todo. reached T (st_resolve T p)) \<and>
     (\<forall>p \<in> set ps. p \<in> set todo \<or> done_with T ss (st_resolve T p)) \<and>
     (\<forall>p bs ds q. done_with T ss p \<longrightarrow> st_file T p = Some bs \<longrightarrow> dependencies_of T p bs = Inr ds \<longrightarrow> q \<in> set ds \<longrightarrow>
        q \<in> set todo \<or> done_with T ss (st_resolve T q))"

text \<open>What a turn of the loop does: the path was recorded before, or it is a new file.\<close>

lemma source_step_cases:
  assumes "source_step T sha p rest ss = Inr (todo, ss')"
  obtains (seen) "todo = rest" "ss' = ss" "done_with T ss (st_resolve T p)"
  | (new) k bs ds where "st_resolve T p = st_root T @ k" "k \<notin> set (map fst ss)" "st_file T (st_root T @ k) = Some bs"
      "dependencies_of T (st_root T @ k) bs = Inr ds" "todo = rev ds @ rest" "ss' = ss @ [(k, sha bs)]"
proof -
  from assms obtain k where k: "st_resolve T p = st_root T @ k"
    and step: "(if k \<in> set (map fst ss) then Inr (rest, ss)
      else case st_file T (st_root T @ k) of None \<Rightarrow> Inl (OSError ''open'')
      | Some bs \<Rightarrow> bindE (dependencies_of T (st_root T @ k) bs) (\<lambda>deps. Inr (rev deps @ rest, ss @ [(k, sha bs)]))) = Inr (todo, ss')"
  proof -
    from assms have st: "starts (st_root T) (st_resolve T p)" by (auto simp: source_step_def Let_def relative_to_def)
    then obtain k where k: "st_resolve T p = st_root T @ k" by (auto simp: starts_iff)
    with assms that show thesis by (simp add: source_step_def relative_to_def Let_def)
  qed
  show thesis
  proof (cases "k \<in> set (map fst ss)")
    case True
    with step k seen show thesis by (auto simp: done_with_def)
  next
    case False
    with step k new show thesis by (auto split: option.split_asm)
  qed
qed

lemma collected_step:
  assumes "collected T sha ps (p # rest) ss" and "source_step T sha p rest ss = Inr (todo, ss')"
  shows "collected T sha ps todo ss'"
  using assms(2)
proof (cases rule: source_step_cases)
  case seen
  with assms(1) show ?thesis unfolding collected_def by (auto, metis+)
next
  case (new k bs ds)
  have r: "reached T (st_root T @ k)" using assms(1) new(1) by (auto simp: collected_def)
  have d: "done_with T ss' q \<longleftrightarrow> done_with T ss q \<or> q = st_root T @ k" for q by (auto simp: done_with_def new(6))
  from new(1) have p: "done_with T ss' (st_resolve T p)" by (simp add: d)
  show ?thesis
    unfolding collected_def
  proof (intro conjI allI impI ballI)
    show "distinct (map fst ss')" using assms(1) new(2,6) by (simp add: collected_def)
  next
    fix x assume "x \<in> set ss'"
    then show "case x of (k, h) \<Rightarrow> \<exists>bs. reached T (st_root T @ k) \<and> st_file T (st_root T @ k) = Some bs \<and> h = sha bs"
      using assms(1) r new(3,6) by (auto simp: collected_def)
  next
    fix q assume "q \<in> set todo"
    then show "reached T (st_resolve T q)"
      using assms(1) new(5) reached.included [OF r new(3,4)] by (auto simp: collected_def)
  next
    fix q assume "q \<in> set ps"
    then show "q \<in> set todo \<or> done_with T ss' (st_resolve T q)" using assms(1) new(5) d p by (auto simp: collected_def)
  next
    fix q cs es x assume q: "done_with T ss' q" "st_file T q = Some cs" "dependencies_of T q cs = Inr es" "x \<in> set es"
    show "x \<in> set todo \<or> done_with T ss' (st_resolve T x)"
    proof (cases "done_with T ss q")
      case True
      with q assms(1) have "x \<in> set (p # rest) \<or> done_with T ss (st_resolve T x)" unfolding collected_def by blast
      with new(5) d p show ?thesis by auto
    next
      case False
      with q d new(3,4,5) show ?thesis by auto
    qed
  qed
qed

text \<open>The files not yet recorded; each turn records one of them or drops a pending path.\<close>

definition unrecorded :: "source_tree \<Rightarrow> (parts \<times> string) list \<Rightarrow> parts set" where
  "unrecorded T ss = {p \<in> dom (st_file T). \<not> done_with T ss p}"

lemma unrecorded_step:
  assumes "finite (dom (st_file T))" and "source_step T sha p rest ss = Inr (todo, ss')"
  shows "(ss' = ss \<and> todo = rest) \<or> card (unrecorded T ss') < card (unrecorded T ss)"
  using assms(2)
proof (cases rule: source_step_cases)
  case (new k bs ds)
  have "unrecorded T ss' \<subset> unrecorded T ss" using new(2,3,6) by (auto simp: unrecorded_def done_with_def)
  then have "card (unrecorded T ss') < card (unrecorded T ss)"
    by (rule psubset_card_mono [rotated]) (use assms(1) in \<open>simp add: unrecorded_def\<close>)
  then show ?thesis by simp
qed simp

lemma source_loop_ends:
  assumes fin: "finite (dom (st_file T))" and "collected T sha ps todo ss"
  shows "\<exists>r. source_loop T sha todo ss = Some r \<and> (\<forall>ss'. r = Inr ss' \<longrightarrow> collected T sha ps [] ss')"
  using assms(2)
proof (induction "(card (unrecorded T ss), length todo)" arbitrary: todo ss
    rule: wf_induct_rule [OF wf_lex_prod [OF wf_less_than wf_less_than]])
  case 1
  show ?case
  proof (cases todo)
    case Nil
    with 1(2) show ?thesis by (simp add: source_loop.simps [of T sha "[]" ss])
  next
    case (Cons p rest)
    show ?thesis
    proof (cases "source_step T sha p rest ss")
      case (Inl e)
      then show ?thesis by (simp add: source_loop.simps [of T sha "p # rest" ss] Cons)
    next
      case (Inr s)
      obtain todo' ss' where s: "s = (todo', ss')" by force
      have step: "source_step T sha p rest ss = Inr (todo', ss')" using Inr s by simp
      have "((card (unrecorded T ss'), length todo'), (card (unrecorded T ss), length todo)) \<in> less_than <*lex*> less_than"
        using unrecorded_step [OF fin step] Cons by auto
      from 1(1) [OF this] collected_step [OF 1(2) [unfolded Cons] step]
      show ?thesis by (simp add: source_loop.simps [of T sha "p # rest" ss] Cons step)
    qed
  qed
qed

lemma collected_reached:
  assumes "collected T sha ps [] ss" and "first_pending T = Inr ps" and "reached T p"
  shows "done_with T ss p"
  using assms(3)
proof induction
  case (first ps' p)
  with assms(1,2) show ?case by (simp add: collected_def)
next
  case (included p bs ds q)
  with assms(1) show ?case unfolding collected_def by (metis empty_iff list.set(1))
qed

text \<open>
  C31: The collection of the sources ends.  In a tree with finitely many files it returns, whatever
  cycles the includes have, and when it does not raise, it returns the digests of exactly the files
  reached from the build files and the tweak's directory along quoted includes, each inside the root,
  under their relative paths in order.
\<close>

theorem source_collection_ends:
  assumes "finite (dom (st_file T))"
  shows "\<exists>r. source_hashes T sha = Some r \<and> (\<forall>d. r = Inr d \<longrightarrow> sorted (map fst d) \<and>
    (\<forall>p. reached T p \<longrightarrow> starts (st_root T) p \<and> st_file T p \<noteq> None) \<and>
    set d = {(posix (drop (length (st_root T)) p), sha bs) | p bs. reached T p \<and> st_file T p = Some bs})"
proof (cases "first_pending T")
  case (Inl e)
  then show ?thesis by (simp add: source_hashes_def)
next
  case (Inr ps)
  have "collected T sha ps (rev ps) []" using Inr by (auto simp: collected_def done_with_def intro: reached.first)
  from source_loop_ends [OF assms this] obtain r where loop: "source_loop T sha (rev ps) [] = Some r"
    and ok: "\<And>ss. r = Inr ss \<Longrightarrow> collected T sha ps [] ss" by blast
  show ?thesis
  proof (cases r)
    case (Inl e)
    with loop Inr show ?thesis by (simp add: source_hashes_def)
  next
    case r: (Inr ss)
    let ?d = "sort_key fst (map (\<lambda>(k, h). (posix k, h)) ss)"
    note c = ok [OF r]
    have run: "source_hashes T sha = Some (Inr ?d)" using loop Inr r by (simp add: source_hashes_def)
    have in_ss: "\<exists>k bs. p = st_root T @ k \<and> (k, sha bs) \<in> set ss \<and> st_file T p = Some bs" if "reached T p" for p
      using collected_reached [OF c Inr that] c by (auto simp: done_with_def collected_def)
    have "starts (st_root T) p \<and> st_file T p \<noteq> None" if "reached T p" for p using in_ss [OF that] by auto
    moreover have "set ?d = {(posix (drop (length (st_root T)) p), sha bs) | p bs. reached T p \<and> st_file T p = Some bs}"
    proof (intro set_eqI iffI)
      fix x assume "x \<in> set ?d"
      then obtain k h where x: "x = (posix k, h)" "(k, h) \<in> set ss" by auto
      with c obtain bs where "reached T (st_root T @ k)" "st_file T (st_root T @ k) = Some bs" "h = sha bs"
        by (auto simp: collected_def)
      with x show "x \<in> {(posix (drop (length (st_root T)) p), sha bs) | p bs. reached T p \<and> st_file T p = Some bs}"
        by (intro CollectI exI [of _ "st_root T @ k"] exI [of _ bs]) simp
    next
      fix x assume "x \<in> {(posix (drop (length (st_root T)) p), sha bs) | p bs. reached T p \<and> st_file T p = Some bs}"
      then show "x \<in> set ?d" using in_ss by force
    qed
    ultimately show ?thesis using run by (intro exI [of _ "Inr ?d"]) simp
  qed
qed

text \<open>Two files that include each other.\<close>

definition sample_sources :: source_tree where
  "sample_sources = \<lparr>st_root = [''r''], st_walk = [[''r'', ''W'', ''a.m''], [''r'', ''W'', ''.git'', ''x'']], st_resolve = id,
     st_file = [[''r'', ''Makefile''] \<mapsto> [], [''r'', ''config'', ''production.mk''] \<mapsto> [0],
       [''r'', ''W'', ''a.m''] \<mapsto> encode_str (''#import '' @ [CHR 0x22] @ ''b.h'' @ [CHR 0x22, CHR 0x0a]),
       [''r'', ''W'', ''.git'', ''x''] \<mapsto> [1, 2],
       [''r'', ''include'', ''b.h''] \<mapsto> encode_str ([CHR 0x0d, CHR 0x0a] @ ''# include'' @ [CHR 0x22] @ ''../W/./a.m'' @ [CHR 0x22]),
       [''r'', ''include'', ''..'', ''W'', ''a.m''] \<mapsto> []]\<rparr>"

definition sample_resolved :: source_tree where
  "sample_resolved = sample_sources\<lparr>st_resolve := (\<lambda>p. if p = [''r'', ''include'', ''..'', ''W'', ''a.m''] then [''r'', ''W'', ''a.m''] else p)\<rparr>"

lemma sample_includes:
  "find_includes True (universal_newlines (''#import '' @ [CHR 0x22] @ ''b.h'' @ [CHR 0x22, CHR 0x0a])) = [''b.h'']"
  "find_includes True (universal_newlines ([CHR 0x0d, CHR 0x0a] @ ''# include'' @ [CHR 0x22] @ ''../W/./a.m'' @ [CHR 0x22])) = [''../W/./a.m'']"
  by code_simp+

lemma sample_collection:
  "source_hashes sample_resolved sample_digest =
     Some (Inr [(''Makefile'', [CHR 0x00]), (''W/a.m'', [CHR 0x0e]), (''config/production.mk'', [CHR 0x01]), (''include/b.h'', [CHR 0x17])])"
  by code_simp

theorem source_collection_ends_witness:
  "\<exists>d. source_hashes sample_resolved sample_digest = Some (Inr d) \<and> sorted (map fst d) \<and>
     set d = {(posix (drop 1 p), sample_digest bs) | p bs. reached sample_resolved p \<and> st_file sample_resolved p = Some bs} \<and>
     (''include/b.h'', [CHR 0x17]) \<in> set d"
proof -
  have root: "length (st_root sample_resolved) = 1" and fin: "finite (dom (st_file sample_resolved))"
    by (simp_all add: sample_resolved_def sample_sources_def)
  obtain d where d: "source_hashes sample_resolved sample_digest = Some (Inr d)" "(''include/b.h'', [CHR 0x17]) \<in> set d"
    using sample_collection by simp
  from source_collection_ends [OF fin, of sample_digest, unfolded root] d show ?thesis
    by (intro exI [of _ d]) (simp only: option.inject sum.inject conj_absorb simp_thms ex_simps all_simps Inr_not_Inl)
qed

subsection \<open>The manifest of a build\<close>

text \<open>\<open>manifest\<close> without the argument for a snapshot, and with it; \<open>json.dumps\<close> writes the sources as a dictionary.\<close>

definition encode_sources :: "(string \<times> string) list \<Rightarrow> pyval" where
  "encode_sources d = PDict (map (\<lambda>(k, h). (k, PStr h)) d)"

definition manifest :: "(string \<times> string) list result \<Rightarrow> string result \<Rightarrow> pyval result option \<Rightarrow> (string \<times> pyval) list result" where
  "manifest collected_sources binary_sha snapshot =
     bindE collected_sources (\<lambda>d.
     bindE (case snapshot of
         None \<Rightarrow> Inr ()
       | Some r \<Rightarrow> bindE r (\<lambda>v.
           case v of
             PDict kv \<Rightarrow>
               if \<not> py_eq (py_get kv ''schema'') (PInt ARTIFACT_SCHEMA) \<or> \<not> py_eq (py_get kv ''sources'') (encode_sources d)
               then Inl (ValueError ''Windowing source changed during cross-build; rebuild it'') else Inr ()
           | _ \<Rightarrow> Inl AttributeError)) (\<lambda>_.
     bindE binary_sha (\<lambda>h.
     Inr [(''schema'', PInt ARTIFACT_SCHEMA), (''artifact'', PStr ''MacWSWindowing''), (''binary_sha256'', PStr h), (''sources'', encode_sources d)])))"

text \<open>\<open>verify\<close>, for the parsed manifest; a missing \<open>sources\<close> entry is an empty dictionary.\<close>

definition verify_manifest :: "pyval \<Rightarrow> (string \<times> string) list \<Rightarrow> string \<Rightarrow> unit result" where
  "verify_manifest expected d h =
     (case expected of
        PDict kv \<Rightarrow>
          if \<not> py_eq (py_get kv ''schema'') (PInt ARTIFACT_SCHEMA) \<or> py_get kv ''artifact'' \<noteq> PStr ''MacWSWindowing''
          then Inl (ValueError ''unsupported MacWSWindowing build manifest'')
          else if py_get kv ''binary_sha256'' \<noteq> PStr h then Inl (ValueError ''MacWSWindowing binary differs from its build manifest'')
          else (case (case map_of kv ''sources'' of None \<Rightarrow> PDict [] | Some v \<Rightarrow> v) of
              PDict old \<Rightarrow>
                if list_ex (\<lambda>p. py_get old p \<noteq> py_get (map (\<lambda>(k, h). (k, PStr h)) d) p) (map fst old @ map fst d)
                then Inl (ValueError ''stale MacWSWindowing cross-build; rebuild on Mac: '') else Inr ()
            | _ \<Rightarrow> Inl AttributeError)
      | _ \<Rightarrow> Inl AttributeError)"

subsection \<open>The load commands of the tweak\<close>

text \<open>\<open>line.split(' (compatibility version', 1)[0]\<close>\<close>

fun before :: "string \<Rightarrow> string \<Rightarrow> string" where
  "before m [] = []"
| "before m (c # s) = (if starts m (c # s) then [] else c # before m s)"

definition linked_libraries :: "string \<Rightarrow> string list" where
  "linked_libraries out =
     map (\<lambda>line. before '' (compatibility version'' (strip line)) (filter (\<lambda>line. strip line \<noteq> []) (drop 1 (split_lines [] out)))"

definition verify_windowing_rootless_load_commands :: "bool \<times> string \<Rightarrow> unit result" where
  "verify_windowing_rootless_load_commands otool =
     (if \<not> fst otool then Inl (ValueError ''cannot inspect MacWSWindowing load commands: '')
      else
      let dependencies = linked_libraries (snd otool) in
      if filter (starts ''/Library/'') dependencies \<noteq> [] then Inl (ValueError ''MacWSWindowing contains rootful load commands: '')
      else if ''@rpath/CydiaSubstrate.framework/CydiaSubstrate'' \<notin> set dependencies
      then Inl (ValueError ''MacWSWindowing lacks rootless Substrate dependency: '')
      else Inr ())"

text \<open>\<open>re.search(r'sectname\\s+__cfstring\\b', text)\<close>\<close>

definition cfstring_at :: "string \<Rightarrow> bool" where
  "cfstring_at s \<longleftrightarrow> starts ''sectname'' s \<and>
     (let r = drop 8 s; t = dropWhile is_space r in
      r \<noteq> [] \<and> is_space (hd r) \<and> starts ''__cfstring'' t \<and> (drop 10 t = [] \<or> \<not> is_word_char (hd (drop 10 t))))"

fun has_cfstring :: "string \<Rightarrow> bool" where
  "has_cfstring [] = False"
| "has_cfstring (c # s) = (cfstring_at (c # s) \<or> has_cfstring s)"

definition verify_catalyst_abi :: "bool \<times> string \<Rightarrow> bool \<times> string \<Rightarrow> unit result" where
  "verify_catalyst_abi otool nm =
     (if \<not> fst otool \<or> \<not> fst nm then Inl (ValueError ''cannot verify Catalyst arm64e ABI: '')
      else if \<not> contains ''LC_SEGMENT_64'' (snd otool) then Inl (ValueError ''Catalyst package has no readable arm64e Mach-O slice'')
      else if has_cfstring (snd otool) \<or> contains ''__NSConcreteGlobalBlock'' (snd nm)
      then Inl (ValueError ''Catalyst arm64e requires unvalidated static-object fixups; '')
      else Inr ())"

subsection \<open>A package\<close>

text \<open>
  What reading an archive gives: its members in order, an exception that ends the reading, and whether
  \<open>dpkg-deb\<close> succeeded.
\<close>

record member =
  m_name :: string
  m_isfile :: bool
  m_bytes :: bytes

record archive =
  ar_members :: "member list"
  ar_error :: "py_error option"
  ar_ok :: bool

definition plain_name :: "member \<Rightarrow> string" where
  "plain_name m = (if starts ''./'' (m_name m) then drop 2 (m_name m) else m_name m)"

definition payload_member :: "(bytes \<Rightarrow> string) \<Rightarrow> (string \<times> string) list \<Rightarrow> member \<Rightarrow> string list \<Rightarrow> string list result" where
  "payload_member sha expected m found =
     (let name = plain_name m in
      if name = ''var/jb/usr/lib/TweakInject/MacWSWindowing.dylib''
      then Inl (ValueError ''package contains a second unvalidated Windowing tweak'')
      else case map_of expected name of
        None \<Rightarrow> Inr found
      | Some h \<Rightarrow>
          if name \<in> set found \<or> \<not> m_isfile m then Inl (ValueError ''duplicate or non-file runtime payload: '')
          else if sha (m_bytes m) \<noteq> h then Inl (ValueError ''package differs from staged runtime: '')
          else Inr (name # found))"

definition postinst_member :: "(bytes \<Rightarrow> string) \<Rightarrow> member \<Rightarrow> string option \<Rightarrow> string option result" where
  "postinst_member sha m previous =
     (if plain_name m \<noteq> ''postinst'' then Inr previous
      else if previous \<noteq> None \<or> \<not> m_isfile m then Inl (ValueError ''duplicate or non-file package postinst'')
      else Inr (Some (sha (m_bytes m))))"

definition stream_archive :: "(member \<Rightarrow> 's \<Rightarrow> 's result) \<Rightarrow> archive \<Rightarrow> 's \<Rightarrow> py_error \<Rightarrow> 's result" where
  "stream_archive f ar s failed =
     bindE (foldE f (ar_members ar) s) (\<lambda>t.
     case ar_error ar of Some e \<Rightarrow> Inl e | None \<Rightarrow> if ar_ok ar then Inr t else Inl failed)"

text \<open>A staged payload against its source; property lists are compared after parsing.\<close>

definition same_payload :: "(bytes \<Rightarrow> string) \<Rightarrow> (bytes \<Rightarrow> pyval result) \<Rightarrow> provider_files \<Rightarrow> string \<Rightarrow> string
    \<Rightarrow> string \<times> string \<Rightarrow> unit \<Rightarrow> unit result" where
  "same_payload sha loads fs staging root ns _ =
     bindE (read_bytes fs (path_join staging (fst ns))) (\<lambda>staged.
     bindE (if ends ''.plist'' (fst ns)
       then bindE (loads staged) (\<lambda>v. bindE (read_bytes fs (path_join root (snd ns))) (\<lambda>b. bindE (loads b) (\<lambda>w. Inr (py_eq v w))))
       else bindE (sha256_file sha fs (path_join root (snd ns))) (\<lambda>h. Inr (sha staged = h))) (\<lambda>same.
     if \<not> same then Inl (ValueError ''staged runtime differs from current source: '') else Inr ()))"

definition verify_package :: "(bytes \<Rightarrow> string) \<Rightarrow> (bytes \<Rightarrow> pyval result) \<Rightarrow> provider_files \<Rightarrow> archive \<Rightarrow> archive
    \<Rightarrow> string \<Rightarrow> string \<Rightarrow> string option \<Rightarrow> unit result" where
  "verify_package sha loads fs payload control staging binary root =
     bindE (verify_bundle sha fs (path_join staging SUBSTRATE_DIR) True) (\<lambda>_.
     bindE (mapE (\<lambda>n. bindE (sha256_file sha fs (path_join staging n)) (\<lambda>h. Inr (n, h))) ARCHIVE_PATHS) (\<lambda>expected.
     bindE (case root of None \<Rightarrow> Inr () | Some r \<Rightarrow> foldE (same_payload sha loads fs staging r) SOURCE_PAYLOADS ()) (\<lambda>_.
     bindE (sha256_file sha fs binary) (\<lambda>binary_sha.
     if map_of expected WINDOWING_PATH \<noteq> Some binary_sha
     then Inl (ValueError ''staged MacWSWindowing differs from validated cross-build'')
     else
     bindE (stream_archive (payload_member sha expected) payload [] (ValueError ''cannot read package payload'')) (\<lambda>found.
     if \<not> set (map fst expected) \<subseteq> set found then Inl (ValueError ''package is missing runtime payload: '')
     else
     bindE (stream_archive (postinst_member sha) control None (ValueError ''cannot read package maintainer scripts'')) (\<lambda>postinst.
     bindE (sha256_file sha fs (path_join staging ''DEBIAN/postinst'')) (\<lambda>h.
     if postinst \<noteq> Some h then Inl (ValueError ''package postinst differs from staged installation logic'') else Inr ())))))))"

subsection \<open>A verified package\<close>

lemma payload_fold:
  assumes "foldE (payload_member sha expected) ms found = Inr found'"
  shows "\<forall>m \<in> set ms. plain_name m \<noteq> ''var/jb/usr/lib/TweakInject/MacWSWindowing.dylib''"
    and "map_of expected n = Some h \<Longrightarrow> n \<in> set found \<Longrightarrow> filter (\<lambda>m. plain_name m = n) ms = []"
    and "map_of expected n = Some h \<Longrightarrow> n \<notin> set found \<Longrightarrow> n \<in> set found' \<Longrightarrow>
      \<exists>m. filter (\<lambda>m. plain_name m = n) ms = [m] \<and> m_isfile m \<and> sha (m_bytes m) = h"
  using assms
proof (induction ms arbitrary: found)
  case (Cons m ms)
  {
    case 1
    with Cons.IH(1) show ?case by (auto simp: payload_member_def Let_def split: if_split_asm)
  next
    case 2
    then obtain f where step: "payload_member sha expected m found = Inr f" and rest: "foldE (payload_member sha expected) ms f = Inr found'" by auto
    from step 2(2) have "n \<in> set f" by (auto simp: payload_member_def Let_def split: if_split_asm option.split_asm)
    moreover from step 2(1,2) have "plain_name m \<noteq> n" by (auto simp: payload_member_def Let_def split: if_split_asm option.split_asm)
    ultimately show ?case using Cons.IH(2) [OF 2(1) _ rest] by simp
  next
    case 3
    then obtain f where step: "payload_member sha expected m found = Inr f" and rest: "foldE (payload_member sha expected) ms f = Inr found'" by auto
    show ?case
    proof (cases "plain_name m = n")
      case True
      with step 3(1,2) have m: "m_isfile m" "sha (m_bytes m) = h" "n \<in> set f"
        by (auto simp: payload_member_def Let_def split: if_split_asm)
      from Cons.IH(2) [OF 3(1) m(3) rest] True m(1,2) show ?thesis by simp
    next
      case False
      with step 3(2) have "n \<notin> set f" by (auto simp: payload_member_def Let_def split: if_split_asm option.split_asm)
      from Cons.IH(3) [OF 3(1) this 3(3) rest] False show ?thesis by simp
    qed
  }
qed simp_all

lemma postinst_fold:
  assumes "foldE (postinst_member sha) ms s = Inr (Some h)"
  shows "case s of None \<Rightarrow> \<exists>m. filter (\<lambda>m. plain_name m = ''postinst'') ms = [m] \<and> m_isfile m \<and> sha (m_bytes m) = h
    | Some h' \<Rightarrow> filter (\<lambda>m. plain_name m = ''postinst'') ms = [] \<and> h' = h"
  using assms
proof (induction ms arbitrary: s)
  case (Cons m ms)
  then obtain t where t: "postinst_member sha m s = Inr t" "foldE (postinst_member sha) ms t = Inr (Some h)" by auto
  from Cons.IH [OF t(2)] t(1) show ?case by (auto simp: postinst_member_def split: if_split_asm option.splits)
qed simp

lemma same_payloads:
  assumes "foldE (same_payload sha loads fs staging root) nss () = Inr ()" and "ns \<in> set nss" and "\<not> ends ''.plist'' (fst ns)"
  shows "\<exists>b c. read_bytes fs (path_join staging (fst ns)) = Inr b \<and> read_bytes fs (path_join root (snd ns)) = Inr c \<and> sha b = sha c"
  using assms by (induction nss) (auto simp: same_payload_def sha256_file_def)

lemma expected_hashes:
  assumes "mapE (\<lambda>n. bindE (sha256_file sha fs (path_join staging n)) (\<lambda>h. Inr (n, h))) ns = Inr expected" and "n \<in> set ns"
  shows "\<exists>b. read_bytes fs (path_join staging n) = Inr b \<and> map_of expected n = Some (sha b)"
  using assms by (induction ns arbitrary: expected) (auto simp: sha256_file_def)

lemma expected_names:
  assumes "mapE (\<lambda>n. bindE (sha256_file sha fs (path_join staging n)) (\<lambda>h. Inr (n, h))) ns = Inr expected"
  shows "map fst expected = ns"
  using assms by (induction ns arbitrary: expected) auto

lemma stream_archive_Inr [simp]:
  "stream_archive f ar s failed = Inr t \<longleftrightarrow> foldE f (ar_members ar) s = Inr t \<and> ar_error ar = None \<and> ar_ok ar"
  by (auto simp: stream_archive_def split: option.split)

text \<open>
  C32: What is installed is what was staged and checked.  When a package is accepted, every path of
  the archive list occurs in its payload exactly once, as a regular file whose digest is that of the
  staged file; the second tweak occurs nowhere; the one maintainer script is the staged one; the
  staged tweak is the validated binary; every staged file with a source, property lists aside, has
  the digest of that source; and the staged provider bundle passes its contract.
\<close>

theorem accepted_package:
  assumes "verify_package sha loads fs payload control staging binary root = Inr ()"
  shows "(\<forall>n \<in> set ARCHIVE_PATHS. \<exists>m b. filter (\<lambda>m. plain_name m = n) (ar_members payload) = [m] \<and> m_isfile m \<and>
      read_bytes fs (path_join staging n) = Inr b \<and> sha (m_bytes m) = sha b) \<and>
    (\<forall>m \<in> set (ar_members payload). plain_name m \<noteq> ''var/jb/usr/lib/TweakInject/MacWSWindowing.dylib'') \<and>
    (\<exists>m b. filter (\<lambda>m. plain_name m = ''postinst'') (ar_members control) = [m] \<and> m_isfile m \<and>
      read_bytes fs (path_join staging ''DEBIAN/postinst'') = Inr b \<and> sha (m_bytes m) = sha b) \<and>
    (\<exists>b c. read_bytes fs (path_join staging WINDOWING_PATH) = Inr b \<and> read_bytes fs binary = Inr c \<and> sha b = sha c) \<and>
    (\<forall>r n s. root = Some r \<longrightarrow> (n, s) \<in> set SOURCE_PAYLOADS \<longrightarrow> \<not> ends ''.plist'' n \<longrightarrow>
      (\<exists>b c. read_bytes fs (path_join staging n) = Inr b \<and> read_bytes fs (path_join r s) = Inr c \<and> sha b = sha c)) \<and>
    (\<exists>rep. verify_bundle sha fs (path_join staging SUBSTRATE_DIR) True = Inr rep)"
proof -
  from assms obtain rep expected found h b where bnd: "verify_bundle sha fs (path_join staging SUBSTRATE_DIR) True = Inr rep"
    and ex: "mapE (\<lambda>n. bindE (sha256_file sha fs (path_join staging n)) (\<lambda>h. Inr (n, h))) ARCHIVE_PATHS = Inr expected"
    and src: "\<And>r. root = Some r \<Longrightarrow> foldE (same_payload sha loads fs staging r) SOURCE_PAYLOADS () = Inr ()"
    and bin: "sha256_file sha fs binary = Inr b" "map_of expected WINDOWING_PATH = Some b"
    and pay: "foldE (payload_member sha expected) (ar_members payload) [] = Inr found" "set (map fst expected) \<subseteq> set found"
    and post: "foldE (postinst_member sha) (ar_members control) None = Inr (Some h)"
      "sha256_file sha fs (path_join staging ''DEBIAN/postinst'') = Inr h"
    unfolding verify_package_def by (auto split: if_split_asm option.split_asm)
  have all: "\<exists>m b. filter (\<lambda>m. plain_name m = n) (ar_members payload) = [m] \<and> m_isfile m \<and>
      read_bytes fs (path_join staging n) = Inr b \<and> sha (m_bytes m) = sha b" if "n \<in> set ARCHIVE_PATHS" for n
    using expected_hashes [OF ex that] payload_fold(3) [OF pay(1), of n] pay(2) that expected_names [OF ex] by fastforce
  have win: "WINDOWING_PATH \<in> set ARCHIVE_PATHS"
    using bin(2) expected_names [OF ex] by (metis map_of_SomeD fst_conv image_eqI set_map)
  have "\<exists>b c. read_bytes fs (path_join staging WINDOWING_PATH) = Inr b \<and> read_bytes fs binary = Inr c \<and> sha b = sha c"
    using expected_hashes [OF ex win] bin by (auto simp: sha256_file_def)
  moreover have "\<exists>m b. filter (\<lambda>m. plain_name m = ''postinst'') (ar_members control) = [m] \<and> m_isfile m \<and>
      read_bytes fs (path_join staging ''DEBIAN/postinst'') = Inr b \<and> sha (m_bytes m) = sha b"
    using postinst_fold [OF post(1)] post(2) by (auto simp: sha256_file_def)
  moreover have "\<exists>b c. read_bytes fs (path_join staging n) = Inr b \<and> read_bytes fs (path_join r s) = Inr c \<and> sha b = sha c"
    if "root = Some r" "(n, s) \<in> set SOURCE_PAYLOADS" "\<not> ends ''.plist'' n" for r n s
    using same_payloads [OF src [OF that(1)] that(2)] that(3) by simp
  ultimately show ?thesis using all payload_fold(1) [OF pay(1)] bnd by blast
qed

subsection \<open>A package\<close>

definition sample_staging :: provider_files where
  "sample_staging = (\<lambda>p. Some (PFile (
     if p = ''s/var/jb/usr/macOS/Frameworks/CydiaSubstrate.framework/CydiaSubstrate'' then sample_universal
     else if p = ''s/var/jb/usr/macOS/Frameworks/CydiaSubstrate.framework/CydiaSubstrate.arm64'' then sample_dylib 0
     else if p = ''s/var/jb/usr/macOS/Frameworks/CydiaSubstrate.framework/CydiaSubstrate.arm64e'' then sample_dylib 2
     else [])))"

definition sample_payload :: "string \<Rightarrow> bytes" where
  "sample_payload n = (case read_bytes sample_staging (path_join ''s'' n) of Inr b \<Rightarrow> b | Inl _ \<Rightarrow> [])"

definition sample_package :: archive where
  "sample_package = \<lparr>ar_members = map (\<lambda>n. \<lparr>m_name = n, m_isfile = True, m_bytes = sample_payload n\<rparr>) ARCHIVE_PATHS,
     ar_error = None, ar_ok = True\<rparr>"

definition sample_control :: archive where
  "sample_control = \<lparr>ar_members = [\<lparr>m_name = ''./control'', m_isfile = True, m_bytes = [1]\<rparr>,
     \<lparr>m_name = ''./postinst'', m_isfile = True, m_bytes = []\<rparr>], ar_error = None, ar_ok = True\<rparr>"

lemma read_staging: "read_bytes sample_staging (path_join ''s'' n) = Inr (sample_payload n)"
  by (simp add: sample_payload_def sample_staging_def read_bytes_def)

lemma mapE_Inr: "(\<And>x. x \<in> set xs \<Longrightarrow> f x = Inr (g x)) \<Longrightarrow> mapE f xs = Inr (map g xs)"
  by (induction xs) auto

lemma whole_payload:
  assumes "distinct ns" and "set ns \<inter> set found = {}"
    and "\<And>n. n \<in> set ns \<Longrightarrow> map_of expected n = Some (sha (c n)) \<and> \<not> starts ''./'' n \<and>
      n \<noteq> ''var/jb/usr/lib/TweakInject/MacWSWindowing.dylib''"
  shows "foldE (payload_member sha expected) (map (\<lambda>n. \<lparr>m_name = n, m_isfile = True, m_bytes = c n\<rparr>) ns) found = Inr (rev ns @ found)"
  using assms
proof (induction ns arbitrary: found)
  case (Cons n ns)
  then have "payload_member sha expected \<lparr>m_name = n, m_isfile = True, m_bytes = c n\<rparr> found = Inr (n # found)"
    by (simp add: payload_member_def plain_name_def Let_def)
  moreover have "foldE (payload_member sha expected) (map (\<lambda>n. \<lparr>m_name = n, m_isfile = True, m_bytes = c n\<rparr>) ns) (n # found) =
      Inr (rev ns @ n # found)" using Cons.prems by (intro Cons.IH) auto
  ultimately show ?case by simp
qed simp

lemma sample_package_names:
  "list_all (\<lambda>n. \<not> starts ''./'' n \<and> n \<noteq> ''var/jb/usr/lib/TweakInject/MacWSWindowing.dylib'') (PACKAGE_PATHS @ map fst SOURCE_PAYLOADS)"
  "list_all (\<lambda>(n, s). read_bytes sample_staging (path_join ''s'' n) = Inr [] \<and> read_bytes sample_staging (path_join ''r'' s) = Inr []) SOURCE_PAYLOADS"
  "path_join ''s'' SUBSTRATE_DIR = ''s/var/jb/usr/macOS/Frameworks/CydiaSubstrate.framework''"
  "WINDOWING_PATH \<in> set PACKAGE_PATHS" "sample_payload WINDOWING_PATH = []" "sample_payload ''DEBIAN/postinst'' = []"
  by code_simp+

lemma set_archive_paths: "set ARCHIVE_PATHS = set PACKAGE_PATHS \<union> {n \<in> set (map fst SOURCE_PAYLOADS). \<not> starts ''DEBIAN/'' n}"
  by (auto simp: ARCHIVE_PATHS_def)

lemma sample_staged_bundle: "\<exists>rep. verify_bundle sample_digest sample_staging (path_join ''s'' SUBSTRATE_DIR) True = Inr rep"
proof -
  let ?d = "''s/var/jb/usr/macOS/Frameworks/CydiaSubstrate.framework''"
  have names: "provider_main ?d = ''s/var/jb/usr/macOS/Frameworks/CydiaSubstrate.framework/CydiaSubstrate''"
    "provider_companion ?d ''arm64'' = ''s/var/jb/usr/macOS/Frameworks/CydiaSubstrate.framework/CydiaSubstrate.arm64''"
    "provider_companion ?d ''arm64e'' = ''s/var/jb/usr/macOS/Frameworks/CydiaSubstrate.framework/CydiaSubstrate.arm64e''"
    by code_simp+
  have "foldE (companion_agrees (by_arch [sample_dylib_info ''arm64'' 0 48, sample_dylib_info ''arm64e'' 2 200]) True)
      [(''arm64'', sample_dylib_info ''arm64'' 0 0), (''arm64e'', sample_dylib_info ''arm64e'' 2 0)] () = Inr ()"
    "accept_thin ''arm64'' [sample_dylib_info ''arm64'' 0 0] = Inr (sample_dylib_info ''arm64'' 0 0)"
    "accept_thin ''arm64e'' [sample_dylib_info ''arm64e'' 2 0] = Inr (sample_dylib_info ''arm64e'' 2 0)"
    "map fst (by_arch [sample_dylib_info ''arm64'' 0 48, sample_dylib_info ''arm64e'' 2 200]) = [''arm64'', ''arm64e'']" by code_simp+
  moreover have "read_bytes sample_staging (provider_main ?d) = Inr sample_universal"
    "read_bytes sample_staging (provider_companion ?d ''arm64'') = Inr (sample_dylib 0)"
    "read_bytes sample_staging (provider_companion ?d ''arm64e'') = Inr (sample_dylib 2)"
    unfolding names by (simp_all add: sample_staging_def read_bytes_def)
  moreover have "exists_path sample_staging p" "is_file sample_staging p" "\<not> is_symlink sample_staging p" for p
    by (simp_all add: sample_staging_def exists_path_def is_file_def is_symlink_def)
  ultimately show ?thesis unfolding sample_package_names(3)
    by (auto simp: verify_bundle_def provider_paths_def REQUIRED_ARCHS_def payload_present_def inspect_path_def verify_thin_def
        sample_inspect sample_inspect_universal sha256_file_def Let_def)
qed

lemma sample_verified: "verify_package sample_digest (\<lambda>_. Inr PNone) sample_staging sample_package sample_control ''s'' ''b'' (Some ''r'') = Inr ()"
proof -
  let ?ex = "map (\<lambda>n. (n, sample_digest (sample_payload n))) ARCHIVE_PATHS"
  obtain rep where bnd: "verify_bundle sample_digest sample_staging (path_join ''s'' SUBSTRATE_DIR) True = Inr rep"
    using sample_staged_bundle by blast
  have ex: "mapE (\<lambda>n. bindE (sha256_file sample_digest sample_staging (path_join ''s'' n)) (\<lambda>h. Inr (n, h))) ARCHIVE_PATHS = Inr ?ex"
    by (rule mapE_Inr) (simp add: sha256_file_def read_staging)
  have look: "map_of ?ex n = Some (sample_digest (sample_payload n))" if "n \<in> set ARCHIVE_PATHS" for n
    using that by (simp add: map_of_map_restrict [unfolded comp_def] restrict_map_def)
  have src: "foldE (same_payload sample_digest (\<lambda>_. Inr PNone) sample_staging ''s'' ''r'') SOURCE_PAYLOADS () = Inr ()"
    unfolding foldE_checks
  proof
    fix ns assume "ns \<in> set SOURCE_PAYLOADS"
    with sample_package_names(2) have "read_bytes sample_staging (path_join ''s'' (fst ns)) = Inr []"
      "read_bytes sample_staging (path_join ''r'' (snd ns)) = Inr []" by (auto simp: list_all_iff)
    then show "same_payload sample_digest (\<lambda>_. Inr PNone) sample_staging ''s'' ''r'' ns () = Inr ()"
      by (simp add: same_payload_def sha256_file_def) blast
  qed
  have bin: "sha256_file sample_digest sample_staging ''b'' = Inr (sample_digest [])"
    by (simp add: sha256_file_def sample_staging_def read_bytes_def)
  have win: "map_of ?ex WINDOWING_PATH = Some (sample_digest [])"
    using look [of WINDOWING_PATH] sample_package_names(4,5) by (simp add: set_archive_paths)
  have pay: "foldE (payload_member sample_digest ?ex) (ar_members sample_package) [] = Inr (rev ARCHIVE_PATHS @ [])"
    unfolding sample_package_def archive.simps
  proof (rule whole_payload)
    fix n assume "n \<in> set ARCHIVE_PATHS"
    with look sample_package_names(1) show "map_of ?ex n = Some (sample_digest (sample_payload n)) \<and> \<not> starts ''./'' n \<and>
        n \<noteq> ''var/jb/usr/lib/TweakInject/MacWSWindowing.dylib''" by (auto simp: set_archive_paths list_all_iff)
  qed (simp_all add: ARCHIVE_PATHS_def)
  have post: "foldE (postinst_member sample_digest) (ar_members sample_control) None = Inr (Some (sample_digest []))"
    by (simp add: sample_control_def postinst_member_def plain_name_def starts_def)
  have inst: "sha256_file sample_digest sample_staging (path_join ''s'' ''DEBIAN/postinst'') = Inr (sample_digest [])"
    using read_staging [of "''DEBIAN/postinst''"] sample_package_names(6) by (simp add: sha256_file_def)
  show ?thesis
    using bnd ex src bin win pay post inst
    by (simp add: verify_package_def stream_archive_def sample_package_def sample_control_def comp_def)
qed

theorem accepted_package_witness:
  "\<exists>m b. filter (\<lambda>m. plain_name m = WINDOWING_PATH) (ar_members sample_package) = [m] \<and> m_isfile m \<and>
     read_bytes sample_staging (path_join ''s'' WINDOWING_PATH) = Inr b \<and> sample_digest (m_bytes m) = sample_digest b"
proof -
  have "WINDOWING_PATH \<in> set ARCHIVE_PATHS" using sample_package_names(4) by (simp add: set_archive_paths)
  with accepted_package [OF sample_verified] show ?thesis by blast
qed

end
