(* ===== verification/RuntimeManifest.thy ===== *)
theory RuntimeManifest
  imports PyValue Strings "HOL-Library.Char_ord" "HOL-Library.List_Lexorder"
begin

text \<open>
  \<^verbatim>\<open>misc/metal2metal_manifest.py\<close> and \<^verbatim>\<open>misc/metal2metal_profiles.py\<close>: the routing manifest of a translated
  Metal library.  SHA-256 is a parameter; the property list a manifest is written as, and read from, is
  the value itself.
\<close>

unbundle bit_operations_syntax

definition MANIFEST_SCHEMA_VERSION :: int where "MANIFEST_SCHEMA_VERSION = 1"
definition TRANSLATOR_NAME :: string where "TRANSLATOR_NAME = ''macws-metal2metal''"
definition TRANSLATOR_VERSION :: int where "TRANSLATOR_VERSION = 1"
definition FNV1A64_OFFSET_BASIS :: "64 word" where "FNV1A64_OFFSET_BASIS = 1469598103934665603"
definition FNV1A64_PRIME :: "64 word" where "FNV1A64_PRIME = 1099511628211"

subsection \<open>Profiles\<close>

record metal_profile =
  mp_name :: string
  mp_source_family :: string
  mp_target_triple :: string
  mp_container_target :: string
  mp_target_major :: nat
  mp_target_minor :: nat

definition DEFAULT_PROFILE :: string where "DEFAULT_PROFILE = ''ventura13-ios19-macabi''"

definition PROFILES :: "(string \<times> metal_profile) list" where
  "PROFILES = [(DEFAULT_PROFILE, \<lparr>mp_name = DEFAULT_PROFILE, mp_source_family = ''macOS 13.4 Apple AIR'',
     mp_target_triple = ''air64-apple-ios19.0.0-macabi'', mp_container_target = ''macabi'',
     mp_target_major = 19, mp_target_minor = 0\<rparr>)]"

definition get_profile :: "string \<Rightarrow> metal_profile result" where
  "get_profile name = (case map_of PROFILES name of None \<Rightarrow> Inl (ValueError ''unknown metal2metal profile: '') | Some p \<Rightarrow> Inr p)"

subsection \<open>The identity of a library\<close>

text \<open>The multiplication wraps at 64 bits, as the mask of the code does.\<close>

definition fnv1a64 :: "bytes \<Rightarrow> 64 word" where
  "fnv1a64 bs = foldl (\<lambda>v b. (v XOR ucast b) * FNV1A64_PRIME) FNV1A64_OFFSET_BASIS bs"

text \<open>\<open>f"{v:016x}"\<close>\<close>

definition hex16 :: "64 word \<Rightarrow> string" where
  "hex16 v = map (\<lambda>i. hex_digits ! (unat (drop_bit (60 - 4 * i) v) mod 16)) [0..<16]"

definition identity_of :: "(bytes \<Rightarrow> string) \<Rightarrow> bytes \<Rightarrow> (string \<times> pyval) list" where
  "identity_of sha bs =
     [(''size'', PInt (int (length bs))), (''sha256'', PStr (sha bs)), (''fnv1a64'', PStr (hex16 (fnv1a64 bs)))]"

subsection \<open>Building a manifest\<close>

record function_report =
  fr_name :: string
  fr_selected :: bool
  fr_type :: "string option"
  fr_constants :: "pyval list"
  fr_lowerings :: "pyval list"
  fr_input_sha256 :: string
  fr_output_sha256 :: string

definition translated_entry :: "function_report \<Rightarrow> pyval" where
  "translated_entry f = PDict
     [(''function_type'', PStr (case fr_type f of None \<Rightarrow> ''unknown'' | Some t \<Rightarrow> if t = [] then ''unknown'' else t)),
      (''needs_function_constants'', PBool (fr_constants f \<noteq> [])), (''function_constants'', PList (fr_constants f)),
      (''applied_lowerings'', PList (fr_lowerings f)), (''input_sha256'', PStr (fr_input_sha256 f)),
      (''output_sha256'', PStr (fr_output_sha256 f))]"

definition build_runtime_manifest :: "(bytes \<Rightarrow> string) \<Rightarrow> bytes \<Rightarrow> bytes \<Rightarrow> string \<Rightarrow> string \<Rightarrow> string
    \<Rightarrow> function_report list \<Rightarrow> (string \<times> pyval) list result" where
  "build_runtime_manifest sha source output source_runtime_path output_runtime_path profile reports =
     (let names = map fr_name reports in
      if \<not> distinct names then Inl (ValueError ''runtime manifest requires unique MTL function names'')
      else
      let translated = foldl (\<lambda>kv f. if fr_selected f then py_set kv (fr_name f) (translated_entry f) else kv) [] reports in
      if translated = [] then Inl (ValueError ''runtime manifest has no translated functions'')
      else if length translated \<noteq> length names
      then Inl (ValueError ''runtime routing manifests require complete-library translation'')
      else Inr
        [(''schema_version'', PInt MANIFEST_SCHEMA_VERSION), (''translator'', PStr TRANSLATOR_NAME),
         (''translator_version'', PInt TRANSLATOR_VERSION), (''profile'', PStr profile),
         (''translation'', PDict
           [(''selection_policy'', PStr ''all-functions''), (''source_function_count'', PInt (int (length names))),
            (''translated_function_count'', PInt (int (length translated))), (''complete'', PBool True)]),
         (''source'', PDict (identity_of sha source @
           [(''runtime_path'', PStr source_runtime_path), (''function_names'', PList (map PStr (sort names)))])),
         (''output'', PDict (identity_of sha output @ [(''runtime_path'', PStr output_runtime_path)])),
         (''translated_functions'', PDict translated)])"

subsection \<open>Loading and verifying\<close>

definition plist_text :: "pyval \<Rightarrow> string option" where
  "plist_text v = (case v of PStr s \<Rightarrow> Some s | _ \<Rightarrow> None)"

definition load_runtime_manifest :: "pyval \<Rightarrow> (string \<times> pyval) list result" where
  "load_runtime_manifest v =
     (case v of
        PDict m \<Rightarrow>
          if \<not> py_eq (py_get m ''schema_version'') (PInt MANIFEST_SCHEMA_VERSION) then Inl (ValueError ''unsupported metal2metal manifest schema'')
          else if py_get m ''translator'' \<noteq> PStr TRANSLATOR_NAME then Inl (ValueError ''unexpected metal2metal manifest translator'')
          else if \<not> py_eq (py_get m ''translator_version'') (PInt TRANSLATOR_VERSION)
          then Inl (ValueError ''unsupported metal2metal translator version'')
          else (case (py_get m ''translation'', py_get m ''source'', py_get m ''output'', py_get m ''translated_functions'') of
              (PDict translation, PDict source, PDict output, PDict translated) \<Rightarrow>
                (case py_get source ''function_names'' of
                   PList names \<Rightarrow>
                     if names = [] \<or> None \<in> set (map plist_text names) then Inl (ValueError ''metal2metal manifest has invalid function names'')
                     else if \<not> distinct names then Inl (ValueError ''metal2metal manifest has duplicate function names'')
                     else if translated = [] \<or> \<not> set (map (PStr \<circ> fst) translated) \<subseteq> set names
                     then Inl (ValueError ''translated functions are not a non-empty source subset'')
                     else if py_get translation ''selection_policy'' \<noteq> PStr ''all-functions'' \<or>
                       py_get translation ''complete'' \<noteq> PBool True \<or>
                       \<not> py_eq (py_get translation ''source_function_count'') (PInt (int (length names))) \<or>
                       \<not> py_eq (py_get translation ''translated_function_count'') (PInt (int (length translated))) \<or>
                       length translated \<noteq> length names
                     then Inl (ValueError ''runtime manifest is not a complete-library translation'')
                     else Inr m
                 | _ \<Rightarrow> Inl (ValueError ''metal2metal manifest has invalid function names''))
            | _ \<Rightarrow> Inl (ValueError ''metal2metal manifest has invalid ''))
      | _ \<Rightarrow> Inl (ValueError ''metal2metal manifest root is not a dictionary''))"

definition same_field :: "(string \<times> pyval) list \<Rightarrow> (string \<times> pyval) list \<Rightarrow> string \<Rightarrow> unit \<Rightarrow> unit result" where
  "same_field observed expected field _ =
     (if \<not> py_eq (py_get observed field) (py_get expected field) then Inl (ValueError '' mismatch: '') else Inr ())"

text \<open>The loop over the two artifacts, whose contents are given.\<close>

definition verify_artifact :: "(bytes \<Rightarrow> string) \<Rightarrow> (string \<times> pyval) list \<Rightarrow> string \<times> bytes \<Rightarrow> unit \<Rightarrow> unit result" where
  "verify_artifact sha m la _ =
     (case py_get m (fst la) of
        PDict expected \<Rightarrow> foldE (same_field (identity_of sha (snd la)) expected) [''size'', ''sha256'', ''fnv1a64''] ()
      | _ \<Rightarrow> Inl AttributeError)"

definition verify_runtime_manifest :: "(bytes \<Rightarrow> string) \<Rightarrow> pyval \<Rightarrow> bytes \<Rightarrow> bytes \<Rightarrow> (string \<times> pyval) list result" where
  "verify_runtime_manifest sha v source output =
     bindE (load_runtime_manifest v) (\<lambda>m.
     bindE (foldE (verify_artifact sha m) [(''source'', source), (''output'', output)] ()) (\<lambda>_. Inr m))"

subsection \<open>A built manifest verifies, and only for its two libraries\<close>

lemma keys_py_set_new: "k \<notin> set (map fst kv) \<Longrightarrow> map fst (py_set kv k v) = map fst kv @ [k]"
  by (induction kv k v rule: py_set.induct) auto

lemma translated_keys:
  assumes "distinct (map fr_name reports)" and "set (map fst kv) \<inter> set (map fr_name reports) = {}"
  shows "map fst (foldl (\<lambda>kv f. if fr_selected f then py_set kv (fr_name f) (translated_entry f) else kv) kv reports) =
     map fst kv @ map fr_name (filter fr_selected reports)"
  using assms
proof (induction reports arbitrary: kv)
  case (Cons f fs)
  show ?case
  proof (cases "fr_selected f")
    case True
    have keys: "map fst (py_set kv (fr_name f) (translated_entry f)) = map fst kv @ [fr_name f]"
      by (rule keys_py_set_new) (use Cons.prems in auto)
    have "set (map fst (py_set kv (fr_name f) (translated_entry f))) \<inter> set (map fr_name fs) = {}"
      unfolding keys using Cons.prems by auto
    from Cons.IH [OF _ this] Cons.prems(1) keys True show ?thesis by simp
  qed (use Cons in simp)
qed simp

lemma all_selected: "length (filter P xs) = length xs \<Longrightarrow> filter P xs = xs"
  by (metis filter_id_conv length_filter_less less_irrefl)

lemma verify_artifact_Inr:
  "verify_artifact sha m (l, bs) () = Inr () \<longleftrightarrow>
     (\<exists>expected. py_get m l = PDict expected \<and> py_num (py_get expected ''size'') = Some (int (length bs)) \<and>
        py_get expected ''sha256'' = PStr (sha bs) \<and> py_get expected ''fnv1a64'' = PStr (hex16 (fnv1a64 bs)))"
  by (cases "py_get m l") (auto simp: verify_artifact_def same_field_def identity_of_def py_get_def)

text \<open>
  C33: A routing manifest read back accepts its libraries and no others.  The manifest built for a source
  and its translation passes the verification for these two, as the value that was built; and when it
  passes for any two files, these agree with the originals in size, SHA-256 and checksum, and it names
  every function of the library once, all of them translated.
\<close>

theorem built_manifest_verifies:
  assumes "build_runtime_manifest sha source output sp op profile reports = Inr m"
  shows "verify_runtime_manifest sha (PDict m) source output = Inr m \<and>
    (\<forall>source' output' m'. verify_runtime_manifest sha (PDict m) source' output' = Inr m' \<longrightarrow>
      length source' = length source \<and> sha source' = sha source \<and> hex16 (fnv1a64 source') = hex16 (fnv1a64 source) \<and>
      length output' = length output \<and> sha output' = sha output \<and> hex16 (fnv1a64 output') = hex16 (fnv1a64 output)) \<and>
    (\<exists>translated. py_get m ''translated_functions'' = PDict translated \<and> map fst translated = map fr_name reports)"
proof -
  define translated where "translated = foldl (\<lambda>kv f. if fr_selected f then py_set kv (fr_name f) (translated_entry f) else kv) [] reports"
  have d: "distinct (map fr_name reports)" and t: "translated \<noteq> []" "length translated = length reports"
    and m: "m = [(''schema_version'', PInt MANIFEST_SCHEMA_VERSION), (''translator'', PStr TRANSLATOR_NAME),
         (''translator_version'', PInt TRANSLATOR_VERSION), (''profile'', PStr profile),
         (''translation'', PDict
           [(''selection_policy'', PStr ''all-functions''), (''source_function_count'', PInt (int (length reports))),
            (''translated_function_count'', PInt (int (length translated))), (''complete'', PBool True)]),
         (''source'', PDict (identity_of sha source @
           [(''runtime_path'', PStr sp), (''function_names'', PList (map PStr (sort (map fr_name reports))))])),
         (''output'', PDict (identity_of sha output @ [(''runtime_path'', PStr op)])),
         (''translated_functions'', PDict translated)]"
    using assms by (auto simp: build_runtime_manifest_def Let_def translated_def split: if_split_asm)
  have "map fst translated = map fr_name (filter fr_selected reports)"
    unfolding translated_def using translated_keys [of reports "[]"] d by simp
  moreover from this t(2) have "filter fr_selected reports = reports"
    by (intro all_selected) (metis length_map)
  ultimately have keys: "map fst translated = map fr_name reports" by simp
  define names where "names = map PStr (sort (map fr_name reports))"
  have len: "length names = length translated" using t by (simp add: names_def)
  with t(1) have "names \<noteq> []" by auto
  moreover have "None \<notin> set (map plist_text names)" "distinct names"
    using d by (auto simp: names_def plist_text_def distinct_map inj_on_def)
  ultimately have n: "names \<noteq> []" "None \<notin> set (map plist_text names)" "distinct names" "length names = length translated"
    using len by simp_all
  have sub: "set (map (PStr \<circ> fst) translated) \<subseteq> set names"
    using arg_cong [OF keys, of "\<lambda>xs. PStr ` set xs"] by (simp add: names_def image_image comp_def)
  define translation where "translation = [(''selection_policy'', PStr ''all-functions''), (''source_function_count'', PInt (int (length reports))),
     (''translated_function_count'', PInt (int (length translated))), (''complete'', PBool True)]"
  define origin where "origin = identity_of sha source @ [(''runtime_path'', PStr sp), (''function_names'', PList names)]"
  have fields: "py_get m ''schema_version'' = PInt MANIFEST_SCHEMA_VERSION" "py_get m ''translator'' = PStr TRANSLATOR_NAME"
    "py_get m ''translator_version'' = PInt TRANSLATOR_VERSION" "py_get m ''translation'' = PDict translation"
    "py_get m ''source'' = PDict origin" "py_get m ''output'' = PDict (identity_of sha output @ [(''runtime_path'', PStr op)])"
    "py_get m ''translated_functions'' = PDict translated" "py_get origin ''function_names'' = PList names"
    "py_get translation ''selection_policy'' = PStr ''all-functions''" "py_get translation ''complete'' = PBool True"
    "py_get translation ''source_function_count'' = PInt (int (length names))"
    "py_get translation ''translated_function_count'' = PInt (int (length translated))"
    by (simp_all add: m py_get_def names_def translation_def origin_def identity_of_def)
  have load: "load_runtime_manifest (PDict m) = Inr m"
    using n sub t by (simp add: load_runtime_manifest_def fields del: set_map)
  have src: "verify_artifact sha m (''source'', bs) () = Inr () \<longleftrightarrow>
      length bs = length source \<and> sha bs = sha source \<and> hex16 (fnv1a64 bs) = hex16 (fnv1a64 source)" for bs
    unfolding verify_artifact_Inr m by (auto simp: py_get_def identity_of_def)
  have out: "verify_artifact sha m (''output'', bs) () = Inr () \<longleftrightarrow>
      length bs = length output \<and> sha bs = sha output \<and> hex16 (fnv1a64 bs) = hex16 (fnv1a64 output)" for bs
    unfolding verify_artifact_Inr m by (auto simp: py_get_def identity_of_def)
  with keys load src out fields(7) show ?thesis by (auto simp: verify_runtime_manifest_def)
qed

definition sample_library_report :: function_report where
  "sample_library_report = \<lparr>fr_name = ''f'', fr_selected = True, fr_type = None, fr_constants = [], fr_lowerings = [],
     fr_input_sha256 = ''1'', fr_output_sha256 = ''2''\<rparr>"

theorem built_manifest_verifies_witness:
  "\<exists>m. verify_runtime_manifest (\<lambda>b. ''h'') (PDict m) [1, 2] [3] = Inr m"
proof -
  obtain m where "build_runtime_manifest (\<lambda>b. ''h'') [1, 2] [3] ''s'' ''o'' DEFAULT_PROFILE [sample_library_report] = Inr m"
    by (simp add: build_runtime_manifest_def sample_library_report_def Let_def)
  from built_manifest_verifies [OF this] show ?thesis by blast
qed

end
