(* ===== verification/Office.thy ===== *)
theory Office
  imports Runs RuntimeManifest
begin

text \<open>
  \<^verbatim>\<open>misc/ensure_office_metal2metal.py\<close>: complete translations of the shader libraries of Office are
  built in a scratch directory, verified, linked under fresh names and published by the replacement of
  one route file.  The root file system is an association list from paths to nodes, with the files and
  the names that are not on stable storage yet.  Runs return every visible state (\<^verbatim>\<open>Runs\<close>).  Parameters are
  SHA-256, the property list and zip readers, what the converter writes into the scratch directory, its
  time limit, the names \<open>uuid4\<close> and \<open>mkdtemp\<close> choose, and whether the lock is free.
\<close>

subsection \<open>Files\<close>

text \<open>A file has its bytes and its permission bits.\<close>

datatype onode = OFolder | OLink | OFile bytes nat | OOther

record office_fs =
  of_nodes :: "(cpath \<times> onode) list"
  of_dirty :: "cpath set"
  of_loose :: "cpath set"

definition node_at :: "office_fs \<Rightarrow> cpath \<Rightarrow> onode option" where
  "node_at s p = map_of (of_nodes s) p"

text \<open>\<open>mkdir\<close> and the creation of a file make a name that \<open>fsync\<close> of its directory settles.\<close>

definition put_entry :: "cpath \<Rightarrow> onode \<Rightarrow> office_fs \<Rightarrow> office_fs" where
  "put_entry p n s = s\<lparr>of_nodes := py_set (of_nodes s) p n, of_loose := insert p (of_loose s)\<rparr>"

text \<open>\<open>Path.write_bytes\<close> empties the file, then writes it.\<close>

definition store_bytes :: "bytes \<Rightarrow> cpath \<Rightarrow> office_fs \<Rightarrow> office_fs" where
  "store_bytes bs p s =
     s\<lparr>of_nodes := py_set (of_nodes s) p (OFile bs (case node_at s p of Some (OFile _ m) \<Rightarrow> m | _ \<Rightarrow> 420)),
       of_dirty := insert p (of_dirty s),
       of_loose := (if node_at s p = None then insert p (of_loose s) else of_loose s)\<rparr>"

definition write_bytes :: "cpath \<Rightarrow> bytes \<Rightarrow> (office_fs, unit) trace" where
  "write_bytes p bs = bind_run (act (store_bytes [] p)) (\<lambda>_. act (store_bytes bs p))"

definition set_mode :: "nat \<Rightarrow> cpath \<Rightarrow> office_fs \<Rightarrow> office_fs" where
  "set_mode m p s = (case node_at s p of Some (OFile bs _) \<Rightarrow> s\<lparr>of_nodes := py_set (of_nodes s) p (OFile bs m)\<rparr> | _ \<Rightarrow> s)"

definition sync_file :: "cpath \<Rightarrow> (office_fs, unit) trace" where
  "sync_file p = act (\<lambda>s. s\<lparr>of_dirty := of_dirty s - {p}\<rparr>)"

definition sync_dir :: "cpath \<Rightarrow> (office_fs, unit) trace" where
  "sync_dir d = act (\<lambda>s. s\<lparr>of_loose := {q \<in> of_loose s. butlast q \<noteq> d}\<rparr>)"

text \<open>A second name of the same file; nothing is written to the file afterwards.\<close>

definition add_name :: "cpath \<Rightarrow> cpath \<Rightarrow> onode \<Rightarrow> office_fs \<Rightarrow> office_fs" where
  "add_name src dst n s =
     s\<lparr>of_nodes := py_set (of_nodes s) dst n,
       of_dirty := (if src \<in> of_dirty s then insert dst (of_dirty s) else of_dirty s - {dst}),
       of_loose := insert dst (of_loose s)\<rparr>"

definition link_file :: "cpath \<Rightarrow> cpath \<Rightarrow> (office_fs, unit) trace" where
  "link_file src dst s =
     (case (node_at s src, node_at s dst) of
        (Some n, None) \<Rightarrow> act (add_name src dst n) s
      | (None, _) \<Rightarrow> pure_run (Inl (OSError ''FileNotFoundError'')) s
      | _ \<Rightarrow> pure_run (Inl (OSError ''FileExistsError'')) s)"

definition move_name :: "cpath \<Rightarrow> cpath \<Rightarrow> onode \<Rightarrow> office_fs \<Rightarrow> office_fs" where
  "move_name src dst n s = (let t = add_name src dst n s in t\<lparr>of_nodes := py_pop (of_nodes t) src\<rparr>)"

definition replace_file :: "cpath \<Rightarrow> cpath \<Rightarrow> (office_fs, unit) trace" where
  "replace_file src dst s =
     (case (node_at s src, node_at s dst) of
        (None, _) \<Rightarrow> pure_run (Inl (OSError ''FileNotFoundError'')) s
      | (_, Some OFolder) \<Rightarrow> pure_run (Inl (OSError ''IsADirectoryError'')) s
      | (Some n, _) \<Rightarrow> act (move_name src dst n) s)"

text \<open>The end of a \<open>TemporaryDirectory\<close>; its removal is seen as one step.\<close>

definition remove_tree :: "cpath \<Rightarrow> office_fs \<Rightarrow> office_fs" where
  "remove_tree d s = s\<lparr>of_nodes := filter (\<lambda>(p, _). \<not> starts d p) (of_nodes s)\<rparr>"

subsection \<open>The environment\<close>

record zip_entry =
  ze_filename :: string
  ze_attributes :: nat
  ze_flags :: nat
  ze_compression :: nat
  ze_size :: nat

record office_env =
  oe_sha :: "bytes \<Rightarrow> string"
  oe_loads :: "bytes \<Rightarrow> pyval result"
  oe_dumps :: "pyval \<Rightarrow> bytes result"
  oe_zip :: "bytes \<Rightarrow> zip_entry list result"
  oe_member :: "bytes \<Rightarrow> nat \<Rightarrow> bytes result"
  oe_translate :: "bytes \<Rightarrow> string \<Rightarrow> string \<Rightarrow> (string \<times> bytes) list \<times> bool"
  oe_slow :: "office_fs \<Rightarrow> bool"
  oe_generation :: "office_fs \<Rightarrow> string"
  oe_temporary :: "office_fs \<Rightarrow> string"
  oe_arguments_ok :: bool
  oe_tools_ok :: bool
  oe_lock_free :: bool

subsection \<open>Constants\<close>

definition MAX_ARTIFACT :: nat where "MAX_ARTIFACT = 4 * 1024 * 1024"
definition MAX_MANIFEST :: nat where "MAX_MANIFEST = 1024 * 1024"
definition OFFICE_PROFILE :: string where "OFFICE_PROFILE = ''ventura13-ios19-macabi''"
definition RUNTIME_BASE :: cpath where "RUNTIME_BASE = [''usr'', ''local'', ''share'', ''macws'', ''metal2metal'']"
definition APPLICATIONS :: "string list" where
  "APPLICATIONS = [''Microsoft Word.app'', ''Microsoft PowerPoint.app'', ''Microsoft Excel.app'']"
definition ARCHIVE_RELATIVE :: cpath where
  "ARCHIVE_RELATIVE = [''Contents'', ''Resources'', ''Arc.bundle'', ''Metal2DShaders.metallib.zip'']"
definition ENTRY_NAMES :: "string list" where "ENTRY_NAMES = [''Metal2DShaders.metallib'']"

text \<open>\<open>GENERATION_FILE.fullmatch\<close>: the kind of file and its generation.\<close>

definition match_generation :: "string \<Rightarrow> (string \<times> string) option" where
  "match_generation name =
     (let kind = (if starts ''source-'' name then ''source'' else ''translated'');
          rest = drop (length kind + 1) name; generation = take 32 rest in
      if (starts ''source-'' name \<or> starts ''translated-'' name) \<and> length generation = 32 \<and>
        set generation \<subseteq> set hex_digits \<and> drop 32 rest = ''.metallib''
      then Some (kind, generation) else None)"

subsection \<open>Checked paths and bounded reads\<close>

definition relative_ok :: "cpath \<Rightarrow> bool" where
  "relative_ok p \<longleftrightarrow> take 1 p \<noteq> [''/''] \<and> ''.'' \<notin> set p \<and> ''..'' \<notin> set p"

definition component_ok :: "bool \<Rightarrow> onode \<Rightarrow> unit result" where
  "component_ok directory n =
     (case n of
        OLink \<Rightarrow> Inl (ProvisionError ''refusing symlink: '')
      | OFolder \<Rightarrow> Inr ()
      | _ \<Rightarrow> if directory then Inl (ProvisionError ''not a directory: '') else Inr ())"

text \<open>\<open>checked_path\<close> without \<open>directories\<close>, which only reads.\<close>

fun find_parts :: "office_fs \<Rightarrow> cpath \<Rightarrow> cpath \<Rightarrow> cpath result" where
  "find_parts s current [] = Inr current"
| "find_parts s current (part # parts) =
     (case node_at s (current @ [part]) of
        None \<Rightarrow> Inl (OSError ''FileNotFoundError'')
      | Some n \<Rightarrow> bindE (component_ok (parts \<noteq> []) n) (\<lambda>_. find_parts s (current @ [part]) parts))"

definition checked_path :: "office_fs \<Rightarrow> cpath \<Rightarrow> cpath result" where
  "checked_path s p = (if \<not> relative_ok p then Inl (ProvisionError ''unsafe relative path: '') else find_parts s [] p)"

text \<open>With \<open>directories\<close>: what is missing is made.\<close>

fun make_parts :: "cpath \<Rightarrow> cpath \<Rightarrow> (office_fs, cpath) trace" where
  "make_parts current [] = pure_run (Inr current)"
| "make_parts current (part # parts) =
     bind_run (\<lambda>s. case node_at s (current @ [part]) of
         None \<Rightarrow> act (put_entry (current @ [part]) OFolder) s
       | Some _ \<Rightarrow> pure_run (Inr ()) s) (\<lambda>_.
     bind_run (look (\<lambda>s. case node_at s (current @ [part]) of
         None \<Rightarrow> Inl (OSError ''FileNotFoundError'') | Some n \<Rightarrow> component_ok True n)) (\<lambda>_.
     make_parts (current @ [part]) parts))"

definition checked_directory :: "cpath \<Rightarrow> (office_fs, cpath) trace" where
  "checked_directory p =
     (if \<not> relative_ok p then pure_run (Inl (ProvisionError ''unsafe relative path: '')) else make_parts [] p)"

text \<open>Nothing writes to the file while it is read.\<close>

definition read_bounded :: "office_fs \<Rightarrow> cpath \<Rightarrow> nat \<Rightarrow> bytes result" where
  "read_bounded s p limit =
     (case node_at s p of
        None \<Rightarrow> Inl (OSError ''FileNotFoundError'')
      | Some OLink \<Rightarrow> Inl (OSError ''ELOOP'')
      | Some (OFile bs _) \<Rightarrow> if length bs > limit then Inl (ProvisionError ''not a bounded regular file: '') else Inr bs
      | Some _ \<Rightarrow> Inl (ProvisionError ''not a bounded regular file: ''))"

subsection \<open>The shader archives\<close>

definition MTLB :: bytes where "MTLB = [0x4d, 0x54, 0x4c, 0x42]"

definition archive_source :: "office_env \<Rightarrow> office_fs \<Rightarrow> cpath \<Rightarrow> bytes result" where
  "archive_source E s p =
     bindE (read_bounded s p MAX_ARTIFACT) (\<lambda>archive.
     bindE (oe_zip E archive) (\<lambda>entries.
     case entries of
       [entry] \<Rightarrow>
         if ze_filename entry \<notin> set ENTRY_NAMES then Inl (ProvisionError ''unexpected Office shader ZIP entries: '')
         else if ends ''/'' (ze_filename entry) \<or> ze_attributes entry div 65536 div 4096 mod 16 = 10 \<or>
           odd (ze_flags entry) \<or> ze_compression entry \<notin> {0, 8} \<or> ze_size entry = 0 \<or> ze_size entry > MAX_ARTIFACT
         then Inl (ProvisionError ''unsupported Office shader ZIP member: '')
         else
         bindE (oe_member E archive (MAX_ARTIFACT + 1)) (\<lambda>source.
         if length source \<noteq> ze_size entry \<or> length source > MAX_ARTIFACT \<or> \<not> starts MTLB source
         then Inl (ProvisionError ''invalid Office shader member: '') else Inr source)
     | _ \<Rightarrow> Inl (ProvisionError ''unexpected Office shader ZIP entries: '')))"

definition archive_path :: "string \<Rightarrow> cpath" where
  "archive_path application = [''Applications'', application] @ ARCHIVE_RELATIVE"

definition is_os_error :: "py_error \<Rightarrow> bool" where
  "is_os_error e \<longleftrightarrow> (case e of OSError _ \<Rightarrow> True | _ \<Rightarrow> False)"

definition is_value_error :: "py_error \<Rightarrow> bool" where
  "is_value_error e \<longleftrightarrow> (case e of ValueError _ \<Rightarrow> True | UnicodeError \<Rightarrow> True | _ \<Rightarrow> False)"

definition is_provision_error :: "py_error \<Rightarrow> bool" where
  "is_provision_error e \<longleftrightarrow> (case e of ProvisionError _ \<Rightarrow> True | _ \<Rightarrow> False)"

text \<open>One application: the sources found so far, by digest, and the applications that failed.\<close>

definition discover_one :: "office_env \<Rightarrow> office_fs \<Rightarrow> string \<Rightarrow> (string \<times> bytes) list \<times> string list
    \<Rightarrow> ((string \<times> bytes) list \<times> string list) result" where
  "discover_one E s application x =
     (case checked_path s (archive_path application) of
        Inl (OSError m) \<Rightarrow> if m = ''FileNotFoundError'' then Inr x else Inr (fst x, snd x @ [application])
      | found \<Rightarrow>
        (case (bindE found (\<lambda>p.
            bindE (archive_source E s p) (\<lambda>source.
            if oe_sha E source \<in> set (map fst (fst x)) \<and> map_of (fst x) (oe_sha E source) \<noteq> Some source
            then Inl (ProvisionError ''Office source SHA256 collision'')
            else Inr (py_set (fst x) (oe_sha E source) source)))) of
           Inr sources \<Rightarrow> Inr (sources, snd x)
         | Inl e \<Rightarrow>
             if is_provision_error e \<or> is_os_error e \<or> is_value_error e \<or> e = BadZipFile
             then Inr (fst x, snd x @ [application]) else Inl e))"

definition discover :: "office_env \<Rightarrow> office_fs \<Rightarrow> ((string \<times> bytes) list \<times> string list) result" where
  "discover E s = foldE (discover_one E s) APPLICATIONS ([], [])"

subsection \<open>Routes\<close>

definition cache_path :: "string \<Rightarrow> cpath" where "cache_path digest = RUNTIME_BASE @ [''office'', digest]"

definition route_path :: "string \<Rightarrow> cpath" where
  "route_path digest = RUNTIME_BASE @ [''routes'', ''office-metal2d-'' @ digest @ ''.route.plist'']"

text \<open>\<open>str\<close> of the absolute path with these parts.\<close>

definition posix_string :: "cpath \<Rightarrow> string" where "posix_string p = ''/'' @ join_slash p"

definition manifest_path ::
  "office_fs \<Rightarrow> string \<Rightarrow> (string \<times> pyval) list \<Rightarrow> string \<Rightarrow> string option \<Rightarrow> (cpath \<times> string) result" where
  "manifest_path s digest m label generation =
     (case py_get m label of
        PDict identity \<Rightarrow>
          (case py_get identity ''runtime_path'' of
             PStr value \<Rightarrow>
               (let runtime = posix_parts value; path = tl runtime in
                case match_generation (if runtime = [] then [] else last runtime) of
                  Some (kind, g) \<Rightarrow>
                    if take 1 runtime = [''/''] \<and> posix_string path = value \<and> butlast path = cache_path digest \<and>
                      kind = (if label = ''source'' then ''source'' else ''translated'') \<and>
                      (generation = None \<or> generation = Some g)
                    then bindE (checked_path s path) (\<lambda>p. Inr (p, g))
                    else Inl (ValueError ''Office manifest path is outside its exact source generation'')
                | None \<Rightarrow> Inl (ValueError ''Office manifest path is outside its exact source generation''))
           | _ \<Rightarrow> Inl (ValueError ''invalid Office runtime path''))
      | _ \<Rightarrow> Inl (ValueError ''invalid Office manifest identity''))"

definition manifest_paths :: "office_fs \<Rightarrow> string \<Rightarrow> pyval \<Rightarrow> (cpath \<times> cpath) result" where
  "manifest_paths s digest v =
     (case v of
        PDict m \<Rightarrow>
          if py_get m ''profile'' \<noteq> PStr OFFICE_PROFILE then Inl (ValueError ''wrong Office translation profile'')
          else if py_get m ''requires_source_identity'' \<noteq> PBool True
          then Inl (ValueError ''Office route lacks exact source identity policy'')
          else
          bindE (manifest_path s digest m ''source'' None) (\<lambda>(source, generation).
          bindE (manifest_path s digest m ''output'' (Some generation)) (\<lambda>(output, _).
          case py_get m ''source'' of
            PDict identity \<Rightarrow>
              if py_get identity ''sha256'' \<noteq> PStr digest then Inl (ValueError ''Office manifest source hash mismatch'')
              else Inr (source, output)
          | _ \<Rightarrow> Inl (ValueError ''invalid Office manifest identity'')))
      | _ \<Rightarrow> Inl (ValueError ''wrong Office translation profile''))"

text \<open>\<open>run_tool\<close>: the child is killed when it exceeds the time limit, and its exceptions are its exit status.\<close>

definition run_converter :: "office_env \<Rightarrow> office_fs \<Rightarrow> bool \<Rightarrow> unit result" where
  "run_converter E s ok = (if oe_slow E s then Inl TimeoutExpired else if \<not> ok then Inl CalledProcessError else Inr ())"

text \<open>The child \<open>metal2metal.py verify-runtime-manifest\<close>, with the three files it reads.\<close>

definition verifier_ok :: "office_env \<Rightarrow> office_fs \<Rightarrow> cpath \<Rightarrow> cpath \<Rightarrow> cpath \<Rightarrow> bool" where
  "verifier_ok E s route source output =
     (case (node_at s route, node_at s source, node_at s output) of
        (Some (OFile rb _), Some (OFile sb _), Some (OFile ob _)) \<Rightarrow>
          (case bindE (oe_loads E rb) (\<lambda>v. verify_runtime_manifest (oe_sha E) v sb ob) of
             Inr m \<Rightarrow> ''profile'' \<in> set (map fst m) | Inl _ \<Rightarrow> False)
      | _ \<Rightarrow> False)"

definition verify_tool :: "office_env \<Rightarrow> office_fs \<Rightarrow> cpath \<Rightarrow> cpath \<Rightarrow> cpath \<Rightarrow> unit result" where
  "verify_tool E s route source output = run_converter E s (verifier_ok E s route source output)"

definition cache_valid :: "office_env \<Rightarrow> string \<Rightarrow> cpath \<Rightarrow> office_fs \<Rightarrow> bool result" where
  "cache_valid E digest route s =
     (case bindE (read_bounded s route MAX_MANIFEST) (\<lambda>raw.
           bindE (oe_loads E raw) (\<lambda>v.
           bindE (manifest_paths s digest v) (\<lambda>(source, output).
           bindE (read_bounded s source MAX_ARTIFACT) (\<lambda>data.
           if oe_sha E data \<noteq> digest then Inr False
           else
           bindE (read_bounded s output MAX_ARTIFACT) (\<lambda>_.
           bindE (verify_tool E s route source output) (\<lambda>_. Inr True)))))) of
        Inl e \<Rightarrow> if e = OSError ''FileNotFoundError'' \<or> is_value_error e \<or> e = CalledProcessError then Inr False else Inl e
      | Inr b \<Rightarrow> Inr b)"

subsection \<open>Provisioning\<close>

text \<open>\<open>metal2metal.py translate\<close> in the scratch directory: the files it writes, in order, and its status.\<close>

definition translate_tool :: "office_env \<Rightarrow> cpath \<Rightarrow> bytes \<Rightarrow> string \<Rightarrow> string \<Rightarrow> (office_fs, unit) trace" where
  "translate_tool E scratch data source_runtime output_runtime =
     (case oe_translate E data source_runtime output_runtime of (written, ok) \<Rightarrow>
        bind_run (each_run (\<lambda>(name, bs). write_bytes (scratch @ [name]) bs) written) (\<lambda>_.
        look (\<lambda>s. run_converter E s ok)))"

definition runtime_of :: "pyval \<Rightarrow> pyval" where
  "runtime_of v = (case v of PDict kv \<Rightarrow> py_get kv ''runtime_path'' | _ \<Rightarrow> PNone)"

definition check_outputs :: "office_env \<Rightarrow> bytes \<Rightarrow> cpath \<Rightarrow> cpath \<Rightarrow> cpath \<Rightarrow> string \<Rightarrow> string \<Rightarrow> office_fs
    \<Rightarrow> (string \<times> pyval) list result" where
  "check_outputs E data source output manifest source_runtime output_runtime s =
     bindE (read_bounded s source MAX_ARTIFACT) (\<lambda>bs.
     if bs \<noteq> data then Inl (ProvisionError ''converter changed the source snapshot'')
     else
     bindE (read_bounded s output MAX_ARTIFACT) (\<lambda>ob.
     if \<not> starts MTLB ob then Inl (ProvisionError ''converter did not produce an MTLB container'')
     else
     bindE (read_bounded s manifest MAX_MANIFEST) (\<lambda>raw.
     bindE (oe_loads E raw) (\<lambda>details.
     case details of
       PDict m \<Rightarrow>
         if \<not> is_dict (py_get m ''source'') \<or> \<not> is_dict (py_get m ''output'') \<or>
           py_get m ''profile'' \<noteq> PStr OFFICE_PROFILE \<or> runtime_of (py_get m ''source'') \<noteq> PStr source_runtime \<or>
           runtime_of (py_get m ''output'') \<noteq> PStr output_runtime
         then Inl (ProvisionError ''converter manifest has unexpected runtime identities'')
         else Inr (py_set m ''requires_source_identity'' (PBool True))
     | _ \<Rightarrow> Inl (ProvisionError ''converter manifest has unexpected runtime identities'')))))"

text \<open>The files are made durable before their names, and these before the route.\<close>

definition settle_file :: "cpath \<Rightarrow> (office_fs, unit) trace" where
  "settle_file p = bind_run (act (set_mode 420 p)) (\<lambda>_. sync_file p)"

definition link_files :: "cpath \<Rightarrow> cpath \<Rightarrow> cpath \<Rightarrow> cpath \<Rightarrow> cpath \<Rightarrow> (office_fs, unit) trace" where
  "link_files source output manifest source' output' =
     bind_run (each_run settle_file [source, output, manifest]) (\<lambda>_.
     bind_run (link_file source source') (\<lambda>_.
     bind_run (link_file output output') (\<lambda>_.
     sync_dir (butlast source'))))"

definition publish_route :: "cpath \<Rightarrow> cpath \<Rightarrow> cpath \<Rightarrow> cpath \<Rightarrow> cpath \<Rightarrow> cpath \<Rightarrow> (office_fs, unit) trace" where
  "publish_route source output manifest source' output' route =
     bind_run (link_files source output manifest source' output') (\<lambda>_.
     bind_run (replace_file manifest route) (\<lambda>_.
     sync_dir (butlast route)))"

definition build_route :: "office_env \<Rightarrow> string \<Rightarrow> bytes \<Rightarrow> string \<Rightarrow> cpath \<Rightarrow> (office_fs, unit) trace" where
  "build_route E digest data generation scratch =
     (let source_name = ''source-'' @ generation @ ''.metallib'';
          output_name = ''translated-'' @ generation @ ''.metallib'';
          source = scratch @ [source_name]; output = scratch @ [output_name]; manifest = scratch @ [''route.plist''];
          source' = cache_path digest @ [source_name]; output' = cache_path digest @ [output_name] in
      bind_run (write_bytes source data) (\<lambda>_.
      bind_run (translate_tool E scratch data (posix_string source') (posix_string output')) (\<lambda>_.
      bind_run (look (\<lambda>s. bindE (check_outputs E data source output manifest (posix_string source') (posix_string output') s)
        (\<lambda>m. oe_dumps E (PDict m)))) (\<lambda>bs.
      bind_run (write_bytes manifest bs) (\<lambda>_.
      bind_run (look (\<lambda>s. verify_tool E s manifest source output)) (\<lambda>_.
      publish_route source output manifest source' output' (route_path digest)))))))"

text \<open>\<open>TemporaryDirectory\<close>: made under a name that is free, removed however the block ends.\<close>

definition with_scratch :: "office_env \<Rightarrow> cpath \<Rightarrow> (cpath \<Rightarrow> (office_fs, unit) trace) \<Rightarrow> (office_fs, unit) trace" where
  "with_scratch E dir body s =
     (let scratch = dir @ [''.build-'' @ oe_temporary E s] in
      if node_at s scratch \<noteq> None then pure_run (Inl (OSError ''FileExistsError'')) s
      else finally_run (bind_run (act (put_entry scratch OFolder)) (\<lambda>_. body scratch)) (remove_tree scratch) s)"

definition provision :: "office_env \<Rightarrow> string \<Rightarrow> bytes \<Rightarrow> (office_fs, unit) trace" where
  "provision E digest data =
     bind_run (checked_directory (cache_path digest)) (\<lambda>cache.
     bind_run (checked_directory (RUNTIME_BASE @ [''routes''])) (\<lambda>_.
     bind_run (look (\<lambda>s. if node_at s (route_path digest) = Some OLink then Inl (ProvisionError ''refusing symlink: '')
        else cache_valid E digest (route_path digest) s)) (\<lambda>valid.
     if valid then pure_run (Inr ())
     else (\<lambda>s. with_scratch E cache (build_route E digest data (oe_generation E s)) s))))"

definition source_caught :: "py_error \<Rightarrow> bool" where
  "source_caught e \<longleftrightarrow> is_provision_error e \<or> is_os_error e \<or> is_value_error e \<or>
     e \<in> {CalledProcessError, TimeoutExpired, SubprocessError}"

text \<open>The loop over the sources; the digests that failed join the errors.\<close>

fun provision_sources :: "office_env \<Rightarrow> (string \<times> bytes) list \<Rightarrow> string list \<Rightarrow> (office_fs, string list) trace" where
  "provision_sources E [] errors = pure_run (Inr errors)"
| "provision_sources E ((digest, data) # sources) errors =
     bind_run (catch_run source_caught (bind_run (provision E digest data) (\<lambda>_. pure_run (Inr errors)))
       (pure_run (Inr (errors @ [digest])))) (provision_sources E sources)"

definition exit_code :: "string list \<Rightarrow> nat" where "exit_code errors = (if errors = [] then 0 else 1)"

definition provision_office :: "office_env \<Rightarrow> (office_fs, nat) trace" where
  "provision_office E =
     catch_run (\<lambda>e. source_caught e \<or> e = BadZipFile)
       (if \<not> oe_arguments_ok E then pure_run (Inl (ProvisionError ''rootfs''))
        else
        bind_run (look (discover E)) (\<lambda>(sources, errors).
        if sources = [] then pure_run (Inr (exit_code errors))
        else if \<not> oe_tools_ok E
        then pure_run (Inl (ProvisionError ''metal2metal or its packaged Apple LLVM tools are unavailable''))
        else
        bind_run (checked_directory (RUNTIME_BASE @ [''office''])) (\<lambda>_.
        if \<not> oe_lock_free E then pure_run (Inl (ProvisionError ''Office provisioner is busy; no changes''))
        else
        bind_run (provision_sources E sources errors) (\<lambda>errors. pure_run (Inr (exit_code errors))))))
       (pure_run (Inr 1))"

end
