(* ===== verification/OfficeSafety.thy ===== *)
theory OfficeSafety
  imports Office
begin

text \<open>
  What a provisioning run keeps and leaves (model in \<^verbatim>\<open>Office\<close>): the relation \<open>office_kept\<close> between the
  states a run passes through, which interprets the locale \<open>kept\<close>; the relations between the first and the
  last state of a run, which interpret \<open>route_relation\<close>; the routes a run without errors publishes; and the
  runs that a corrupt route ends.
\<close>

subsection \<open>Lookups after a step\<close>

lemma node_put_entry [simp]: "node_at (put_entry p n s) q = (if q = p then Some n else node_at s q)"
  by (simp add: node_at_def put_entry_def)

lemma node_updates [simp]:
  "node_at (s\<lparr>of_dirty := D\<rparr>) q = node_at s q" "node_at (s\<lparr>of_loose := L\<rparr>) q = node_at s q"
  by (simp_all add: node_at_def)

lemma node_store_bytes: "q \<noteq> p \<Longrightarrow> node_at (store_bytes bs p s) q = node_at s q"
  by (simp add: node_at_def store_bytes_def)

lemma node_set_mode: "q \<noteq> p \<Longrightarrow> node_at (set_mode m p s) q = node_at s q"
  by (simp add: node_at_def set_mode_def split: option.split onode.split)

lemma node_add_name [simp]: "node_at (add_name src dst n s) q = (if q = dst then Some n else node_at s q)"
  by (simp add: node_at_def add_name_def)

lemma node_move_name [simp]:
  "node_at (move_name src dst n s) q = (if q = src then None else if q = dst then Some n else node_at s q)"
  by (simp add: node_at_def add_name_def move_name_def Let_def)

lemma map_of_filter_keys: "map_of (filter (\<lambda>(k, _). P k) kv) q = (if P q then map_of kv q else None)"
  by (induction kv) auto

lemma node_remove_tree [simp]: "node_at (remove_tree d s) q = (if starts d q then None else node_at s q)"
  by (simp add: node_at_def remove_tree_def map_of_filter_keys)

lemma fields_after [simp]:
  "of_dirty (put_entry p n s) = of_dirty s" "of_loose (put_entry p n s) = insert p (of_loose s)"
  "of_dirty (remove_tree d s) = of_dirty s" "of_loose (remove_tree d s) = of_loose s"
  by (simp_all add: put_entry_def remove_tree_def)

definition holds :: "office_fs \<Rightarrow> cpath \<Rightarrow> bytes \<Rightarrow> bool" where
  "holds s p bs \<longleftrightarrow> (\<exists>m. node_at s p = Some (OFile bs m))"

lemma write_bytes_done:
  assumes "write_bytes p bs s = (tr, Inr u)"
  shows "holds (last tr) p bs \<and> (\<forall>q. q \<noteq> p \<longrightarrow> node_at (last tr) q = node_at s q)"
  using assms by (auto simp: write_bytes_def bind_run_def act_def holds_def node_store_bytes)
    (auto simp: node_at_def store_bytes_def)

lemma settle_done:
  assumes "settle_file p s = (tr, Inr u)"
  shows "(\<forall>q bs. holds (last tr) q bs = holds s q bs) \<and> of_dirty (last tr) = of_dirty s - {p} \<and>
    of_loose (last tr) = of_loose s \<and> (\<forall>q. q \<noteq> p \<longrightarrow> node_at (last tr) q = node_at s q)"
  using assms
  by (auto simp: settle_file_def sync_file_def bind_run_def act_def holds_def node_at_def set_mode_def
      split: option.splits onode.splits if_splits)

lemma settles_done:
  assumes "each_run settle_file ps s = (tr, Inr u)"
  shows "(\<forall>q bs. holds (last tr) q bs = holds s q bs) \<and> of_dirty (last tr) = of_dirty s - set ps \<and>
    of_loose (last tr) = of_loose s"
  using assms
proof (induction ps arbitrary: s tr)
  case Nil
  then show ?case by (auto simp: pure_run_def)
next
  case (Cons p ps)
  have "through (\<lambda>_ _. True) (settle_file q) t" for q t
    by (simp add: through_def settle_file_def sync_file_def bind_run_def act_def)
  then have "through (\<lambda>_ _. True) (each_run settle_file ps) t" for t by (intro any_run.each)
  with Cons.prems obtain tr1 v tr2 where m: "settle_file p s = (tr1, Inr v)"
    and r: "each_run settle_file ps (last tr1) = (tr2, Inr u)" and l: "last tr = last tr2"
    by (auto elim: any_run.bind_done)
  from Cons.IH [OF r] settle_done [OF m] l show ?case by auto
qed

lemma link_done:
  assumes "link_file src dst s = (tr, Inr u)" and "holds s src bs" and "src \<notin> of_dirty s"
  shows "node_at s dst = None \<and> holds (last tr) dst bs \<and> (\<forall>q bs. q \<noteq> dst \<longrightarrow> holds (last tr) q bs = holds s q bs) \<and>
    of_dirty (last tr) = of_dirty s - {dst} \<and> of_loose (last tr) = insert dst (of_loose s)"
proof -
  from assms(2) obtain m where n: "node_at s src = Some (OFile bs m)" by (auto simp: holds_def)
  with assms(1) have d: "node_at s dst = None" and l: "last tr = add_name src dst (OFile bs m) s"
    by (auto simp: link_file_def act_def pure_run_def split: option.splits)
  with assms(3) show ?thesis by (auto simp: holds_def) (auto simp: add_name_def)
qed

lemma steady_settle: "through (\<lambda>_ _. True) (each_run settle_file ps) s"
proof (rule any_run.each)
  show "through (\<lambda>_ _. True) (settle_file q) t" for q t
    by (simp add: through_def settle_file_def sync_file_def bind_run_def act_def)
qed

lemma steady_steps:
  "through (\<lambda>_ _. True) (link_file src dst) s" "through (\<lambda>_ _. True) (sync_dir d) s"
  "through (\<lambda>_ _. True) (replace_file src dst) s"
  by (auto simp: through_def link_file_def sync_dir_def replace_file_def act_def pure_run_def
      split: option.splits onode.splits)

lemma link_files_done:
  assumes "link_files source output manifest source' output' s = (tr, Inr u)"
    and "holds s source sb" "holds s output ob" "holds s manifest rb"
    and "source' \<noteq> output'" "butlast output' = butlast source'" "source' \<notin> {source, output, manifest}" "output' \<notin> {source, output, manifest}"
  shows "let t = last tr in holds t source' sb \<and> holds t output' ob \<and> holds t manifest rb \<and>
    {source', output', manifest} \<inter> of_dirty t = {} \<and> {source', output'} \<inter> of_loose t = {}"
proof -
  from assms(1) obtain tr1 tr2 tr3 tr4 u1 u2 u3 where m: "each_run settle_file [source, output, manifest] s = (tr1, Inr u1)"
    and l1: "link_file source source' (last tr1) = (tr2, Inr u2)" and l2: "link_file output output' (last tr2) = (tr3, Inr u3)"
    and d: "sync_dir (butlast source') (last tr3) = (tr4, Inr u)" and l: "last tr = last tr4"
    unfolding link_files_def
    by (auto elim!: any_run.bind_done intro!: any_run.bind_all steady_steps simp del: each_run.simps)
  note s1 = settles_done [OF m]
  have a: "holds (last tr1) source sb" "source \<notin> of_dirty (last tr1)" "holds (last tr1) output ob" "holds (last tr1) manifest rb"
    using s1 assms(2-4) by auto
  note s2 = link_done [OF l1 a(1,2)]
  have b: "holds (last tr2) output ob" "output \<notin> of_dirty (last tr2)" using s1 s2 a(3) assms(7) by auto
  note s3 = link_done [OF l2 b]
  have e: "last tr = (last tr3)\<lparr>of_loose := {q \<in> of_loose (last tr3). butlast q \<noteq> butlast source'}\<rparr>"
    using d l by (auto simp: sync_dir_def act_def)
  have h: "holds (last tr) q bs = holds (last tr3) q bs" for q bs by (simp add: e holds_def node_at_def)
  show ?thesis
    unfolding Let_def h using s1 s2 s3 a assms(5-8) by (auto simp: e)
qed

subsection \<open>What a run may do to the files\<close>

text \<open>Files of a scratch directory, and routes.\<close>

definition scratch_path :: "cpath \<Rightarrow> bool" where
  "scratch_path p \<longleftrightarrow> starts (RUNTIME_BASE @ [''office'']) p \<and> 8 \<le> length p \<and> starts ''.build-'' (p ! 7)"

definition is_route :: "cpath \<Rightarrow> bool" where
  "is_route p \<longleftrightarrow> (\<exists>digest. p = route_path digest)"

definition settled :: "office_fs \<Rightarrow> cpath \<Rightarrow> bool" where
  "settled s p \<longleftrightarrow> p \<notin> of_dirty s \<and> p \<notin> of_loose s"

definition generation_path :: "string \<Rightarrow> string \<Rightarrow> string \<Rightarrow> cpath" where
  "generation_path digest kind g = cache_path digest @ [kind @ ''-'' @ g @ ''.metallib'']"

definition generation_ok :: "string \<Rightarrow> bool" where
  "generation_ok g \<longleftrightarrow> length g = 32 \<and> set g \<subseteq> set hex_digits"

text \<open>
  The route of a digest leads to a verified pair: it names one generation's two files, both exist, the
  source has the digest, and the verifier accepts them.
\<close>

definition verified_pair :: "office_env \<Rightarrow> string \<Rightarrow> string \<Rightarrow> bytes \<Rightarrow> bytes \<Rightarrow> bytes \<Rightarrow> bool" where
  "verified_pair E digest g rb sb ob \<longleftrightarrow>
     (\<exists>m. oe_loads E rb = Inr (PDict m) \<and>
        runtime_of (py_get m ''source'') = PStr (posix_string (generation_path digest ''source'' g)) \<and>
        runtime_of (py_get m ''output'') = PStr (posix_string (generation_path digest ''translated'' g)) \<and>
        generation_ok g \<and> oe_sha E sb = digest \<and> verify_runtime_manifest (oe_sha E) (PDict m) sb ob = Inr m)"

definition routed :: "office_env \<Rightarrow> string \<Rightarrow> office_fs \<Rightarrow> string \<Rightarrow> bool" where
  "routed E digest s g \<longleftrightarrow>
     (\<exists>rb sb ob. holds s (route_path digest) rb \<and> holds s (generation_path digest ''source'' g) sb \<and>
        holds s (generation_path digest ''translated'' g) ob \<and> verified_pair E digest g rb sb ob)"

definition office_kept :: "office_env \<Rightarrow> office_fs \<Rightarrow> office_fs \<Rightarrow> bool" where
  "office_kept E s t \<longleftrightarrow>
     (\<forall>p n. node_at s p = Some n \<longrightarrow> scratch_path p \<or> is_route p \<or>
        node_at t p = Some n \<and> (settled s p \<longrightarrow> settled t p)) \<and>
     (\<forall>digest. node_at t (route_path digest) = node_at s (route_path digest) \<and>
          (route_path digest \<in> of_dirty t \<longrightarrow> route_path digest \<in> of_dirty s) \<or>
        (\<exists>g. routed E digest t g \<and> settled t (generation_path digest ''source'' g) \<and>
           settled t (generation_path digest ''translated'' g) \<and> route_path digest \<notin> of_dirty t))"

lemma route_path_inj: "route_path d = route_path d' \<longleftrightarrow> d = d'"
  by (simp add: route_path_def)

lemma route_not_scratch [simp]: "\<not> scratch_path (route_path d)"
  by (simp add: scratch_path_def route_path_def RUNTIME_BASE_def)

lemma generation_not_scratch [simp]: "kind \<in> {''source'', ''translated''} \<Longrightarrow> \<not> scratch_path (generation_path d kind g)"
  by (auto simp: scratch_path_def generation_path_def cache_path_def RUNTIME_BASE_def starts_def)

lemma generation_not_route [simp]: "\<not> is_route (generation_path d kind g)"
  by (simp add: is_route_def route_path_def generation_path_def cache_path_def RUNTIME_BASE_def)

lemma office_kept_refl: "office_kept E s s"
  by (simp add: office_kept_def)

lemma kept_file:
  "office_kept E s t \<Longrightarrow> \<not> scratch_path p \<Longrightarrow> \<not> is_route p \<Longrightarrow> node_at s p = Some n \<Longrightarrow>
     node_at t p = Some n \<and> (settled s p \<longrightarrow> settled t p)"
  unfolding office_kept_def by blast

lemma kept_holds:
  "office_kept E s t \<Longrightarrow> \<not> scratch_path p \<Longrightarrow> \<not> is_route p \<Longrightarrow> holds s p bs \<Longrightarrow>
     holds t p bs \<and> (settled s p \<longrightarrow> settled t p)"
  unfolding holds_def using kept_file by blast

text \<open>A route that is left alone stays valid.\<close>

lemma routed_same:
  assumes "office_kept E s t" and "routed E digest s g" and "node_at t (route_path digest) = node_at s (route_path digest)"
  shows "routed E digest t g \<and>
    (settled s (generation_path digest ''source'' g) \<longrightarrow> settled t (generation_path digest ''source'' g)) \<and>
    (settled s (generation_path digest ''translated'' g) \<longrightarrow> settled t (generation_path digest ''translated'' g))"
proof -
  from assms(2) obtain rb sb ob where r: "holds s (route_path digest) rb" "verified_pair E digest g rb sb ob"
    and h: "holds s (generation_path digest ''source'' g) sb" "holds s (generation_path digest ''translated'' g) ob"
    unfolding routed_def by blast
  have "holds t (route_path digest) rb" using r(1) assms(3) by (simp add: holds_def)
  with r kept_holds [OF assms(1) _ _ h(1)] kept_holds [OF assms(1) _ _ h(2)] show ?thesis
    unfolding routed_def by auto
qed

lemma office_kept_trans:
  assumes "office_kept E s t" and "office_kept E t u"
  shows "office_kept E s u"
  unfolding office_kept_def
proof (intro conjI allI impI)
  fix p n assume "node_at s p = Some n"
  with kept_file [OF assms(1)] kept_file [OF assms(2)]
  show "scratch_path p \<or> is_route p \<or> node_at u p = Some n \<and> (settled s p \<longrightarrow> settled u p)" by blast
next
  fix digest
  let ?r = "route_path digest"
  show "node_at u ?r = node_at s ?r \<and> (?r \<in> of_dirty u \<longrightarrow> ?r \<in> of_dirty s) \<or>
      (\<exists>g. routed E digest u g \<and> settled u (generation_path digest ''source'' g) \<and>
        settled u (generation_path digest ''translated'' g) \<and> ?r \<notin> of_dirty u)"
  proof (cases "node_at u ?r = node_at t ?r \<and> (?r \<in> of_dirty u \<longrightarrow> ?r \<in> of_dirty t)")
    case False
    with assms(2) show ?thesis unfolding office_kept_def by blast
  next
    case True
    show ?thesis
    proof (cases "node_at t ?r = node_at s ?r \<and> (?r \<in> of_dirty t \<longrightarrow> ?r \<in> of_dirty s)")
      case same: True
      with True show ?thesis by auto
    next
      case False
      with assms(1) obtain g where "routed E digest t g" "settled t (generation_path digest ''source'' g)"
        "settled t (generation_path digest ''translated'' g)" "?r \<notin> of_dirty t" unfolding office_kept_def by blast
      with routed_same [OF assms(2)] True show ?thesis by blast
    qed
  qed
qed

interpretation office_runs: kept "office_kept E" for E
  by unfold_locales (rule office_kept_refl, rule office_kept_trans)

text \<open>Outside the scratch directories only new names appear.\<close>

lemma kept_change:
  assumes "\<And>p. \<not> scratch_path p \<Longrightarrow>
    node_at t p = node_at s p \<and> (p \<in> of_dirty t \<longrightarrow> p \<in> of_dirty s) \<and> (p \<in> of_loose t \<longrightarrow> p \<in> of_loose s) \<or>
    node_at s p = None \<and> \<not> is_route p"
  shows "office_kept E s t"
  unfolding office_kept_def
proof (intro conjI allI impI)
  fix p n assume "node_at s p = Some n"
  with assms [of p] show "scratch_path p \<or> is_route p \<or> node_at t p = Some n \<and> (settled s p \<longrightarrow> settled t p)"
    by (auto simp: settled_def)
next
  fix digest
  have "is_route (route_path digest)" by (auto simp: is_route_def)
  with assms [of "route_path digest"] show "node_at t (route_path digest) = node_at s (route_path digest) \<and>
      (route_path digest \<in> of_dirty t \<longrightarrow> route_path digest \<in> of_dirty s) \<or>
    (\<exists>g. routed E digest t g \<and> settled t (generation_path digest ''source'' g) \<and>
      settled t (generation_path digest ''translated'' g) \<and> route_path digest \<notin> of_dirty t)" by auto
qed

lemma kept_store: "scratch_path p \<Longrightarrow> office_kept E s (store_bytes bs p s)"
proof (rule kept_change)
  fix q assume "scratch_path p" "\<not> scratch_path q"
  then have "q \<noteq> p" by auto
  then show "node_at (store_bytes bs p s) q = node_at s q \<and> (q \<in> of_dirty (store_bytes bs p s) \<longrightarrow> q \<in> of_dirty s) \<and>
      (q \<in> of_loose (store_bytes bs p s) \<longrightarrow> q \<in> of_loose s) \<or> node_at s q = None \<and> \<not> is_route q"
    by (simp add: node_store_bytes) (simp add: store_bytes_def)
qed

lemma kept_write: "scratch_path p \<Longrightarrow> through (office_kept E) (write_bytes p bs) s"
  unfolding write_bytes_def by (intro office_runs.bind_all office_runs.act kept_store)

lemma kept_settle: "scratch_path p \<Longrightarrow> through (office_kept E) (settle_file p) s"
  unfolding settle_file_def sync_file_def
  by (intro office_runs.bind_all office_runs.act kept_change)
    (auto simp: node_set_mode node_at_def, auto simp: set_mode_def split: option.splits onode.splits)

lemma kept_sync_dir: "through (office_kept E) (sync_dir d) s"
  unfolding sync_dir_def by (intro office_runs.act kept_change) (auto simp: node_at_def)

lemma kept_link: "\<not> is_route dst \<Longrightarrow> through (office_kept E) (link_file src dst) s"
proof -
  assume d: "\<not> is_route dst"
  show ?thesis
  proof (cases "node_at s src = None \<or> node_at s dst \<noteq> None")
    case True
    then have "fst (link_file src dst s) = [s]" by (auto simp: link_file_def pure_run_def split: option.splits)
    then show ?thesis by (simp add: through_def office_kept_refl)
  next
    case False
    then obtain n where n: "node_at s src = Some n" "node_at s dst = None" by auto
    have "office_kept E s (add_name src dst n s)"
      using d n(2) by (intro kept_change) (auto simp: add_name_def node_at_def split: if_splits)
    with n show ?thesis by (simp add: link_file_def through_def act_def office_kept_refl)
  qed
qed

lemma kept_link_files:
  assumes "scratch_path source" "scratch_path output" "scratch_path manifest" "\<not> is_route source'" "\<not> is_route output'"
  shows "through (office_kept E) (link_files source output manifest source' output') s"
  unfolding link_files_def
  by (intro office_runs.bind_all office_runs.each kept_link kept_sync_dir kept_settle) (use assms in auto)

subsection \<open>Publishing keeps the files and leaves a valid route\<close>

lemma kept_replace:
  assumes "holds s manifest rb" "scratch_path manifest" "manifest \<notin> of_dirty s" "verified_pair E digest g rb sb ob"
    and "holds s (generation_path digest ''source'' g) sb" "settled s (generation_path digest ''source'' g)"
    and "holds s (generation_path digest ''translated'' g) ob" "settled s (generation_path digest ''translated'' g)"
  shows "through (office_kept E) (replace_file manifest (route_path digest)) s \<and>
    (replace_file manifest (route_path digest) s = (tr, Inr u) \<longrightarrow> routed E digest (last tr) g)"
proof -
  let ?r = "route_path digest" and ?a = "generation_path digest ''source'' g" and ?b = "generation_path digest ''translated'' g"
  from assms(1) obtain k where n: "node_at s manifest = Some (OFile rb k)" by (auto simp: holds_def)
  show ?thesis
  proof (cases "node_at s ?r = Some OFolder")
    case True
    with n show ?thesis by (simp add: replace_file_def through_def pure_run_def office_kept_refl)
  next
    case False
    define t where "t = move_name manifest ?r (OFile rb k) s"
    have ne: "manifest \<noteq> ?r" "manifest \<noteq> ?a" "manifest \<noteq> ?b" "?r \<noteq> ?a" "?r \<noteq> ?b" for d
      using assms(2) by (auto simp: route_path_def generation_path_def cache_path_def RUNTIME_BASE_def)
        (auto simp: scratch_path_def RUNTIME_BASE_def starts_def)
    have look: "node_at t q = (if q = manifest then None else if q = ?r then Some (OFile rb k) else node_at s q)" for q
      by (simp add: t_def)
    have dirty: "of_dirty t = of_dirty s - {?r}" and loose: "of_loose t = insert ?r (of_loose s)"
      using assms(3) by (simp_all add: t_def move_name_def add_name_def Let_def)
    have routed: "routed E digest t g"
      unfolding routed_def using assms ne by (fastforce simp: holds_def look)
    have settled: "settled t ?a" "settled t ?b" using assms ne by (auto simp: settled_def dirty loose)
    have "office_kept E s t"
      unfolding office_kept_def
    proof (intro conjI allI impI)
      fix p n assume "node_at s p = Some n"
      then show "scratch_path p \<or> is_route p \<or> node_at t p = Some n \<and> (settled s p \<longrightarrow> settled t p)"
        using assms(2) by (auto simp: look settled_def dirty loose is_route_def)
    next
      fix d
      have "manifest \<noteq> route_path d" using assms(2) by auto
      then show "node_at t (route_path d) = node_at s (route_path d) \<and>
          (route_path d \<in> of_dirty t \<longrightarrow> route_path d \<in> of_dirty s) \<or>
        (\<exists>g. routed E d t g \<and> settled t (generation_path d ''source'' g) \<and>
          settled t (generation_path d ''translated'' g) \<and> route_path d \<notin> of_dirty t)"
        using routed settled by (cases "d = digest") (auto simp: look dirty route_path_inj)
    qed
    moreover have "replace_file manifest ?r s = ([s, t], Inr ())"
      using n False by (auto simp: replace_file_def act_def t_def split: option.splits onode.splits)
    ultimately show ?thesis using routed by (auto simp: through_def office_kept_refl)
  qed
qed

lemma publish_route_kept:
  assumes "holds s source sb" "holds s output ob" "holds s manifest rb"
    and "scratch_path source" "scratch_path output" "scratch_path manifest" and "verified_pair E digest g rb sb ob"
  defines "source' \<equiv> generation_path digest ''source'' g" and "output' \<equiv> generation_path digest ''translated'' g"
  shows "through (office_kept E) (publish_route source output manifest source' output' (route_path digest)) s \<and>
    (publish_route source output manifest source' output' (route_path digest) s = (tr, Inr u) \<longrightarrow> routed E digest (last tr) g)"
proof -
  have ne: "source' \<noteq> output'" "butlast output' = butlast source'" "source' \<notin> {source, output, manifest}"
      "output' \<notin> {source, output, manifest}" "\<not> is_route source'" "\<not> is_route output'"
    using assms(4-6) generation_not_scratch [of "''source''" digest g] generation_not_scratch [of "''translated''" digest g]
    by (auto simp: source'_def output'_def) (auto simp: generation_path_def)
  note k = kept_link_files [OF assms(4-6) ne(5,6)]
  have r: "through (office_kept E) (replace_file manifest (route_path digest)) (last tr1) \<and>
      (replace_file manifest (route_path digest) (last tr1) = (tr2, Inr u2) \<longrightarrow> routed E digest (last tr2) g)"
    if "link_files source output manifest source' output' s = (tr1, Inr u1)" for tr1 u1 tr2 u2
    using link_files_done [OF that assms(1-3) ne(1-4)]
    by (intro kept_replace [OF _ assms(6) _ assms(7)]) (auto simp: Let_def settled_def source'_def output'_def)
  have "through (office_kept E) (publish_route source output manifest source' output' (route_path digest)) s"
    unfolding publish_route_def
    by (rule office_runs.bind [OF k], rule office_runs.bind_all) (use r kept_sync_dir in auto)
  moreover have "routed E digest (last tr) g"
    if "publish_route source output manifest source' output' (route_path digest) s = (tr, Inr u)"
  proof -
    from that obtain tr1 u1 tr2 u2 tr3 where l: "link_files source output manifest source' output' s = (tr1, Inr u1)"
      and p: "replace_file manifest (route_path digest) (last tr1) = (tr2, Inr u2)"
      and d: "sync_dir (butlast (route_path digest)) (last tr2) = (tr3, Inr u)" and e: "last tr = last tr3"
      unfolding publish_route_def
      by (auto elim!: any_run.bind_done intro!: any_run.bind_all steady_steps)
    have "holds (last tr3) q bs = holds (last tr2) q bs" for q bs
      using d by (auto simp: sync_dir_def act_def holds_def node_at_def)
    with r [OF l] p e show ?thesis by (auto simp: routed_def)
  qed
  ultimately show ?thesis by blast
qed

subsection \<open>Property lists written and read back\<close>

text \<open>\<open>plistlib.dumps\<close> sorts the keys of every dictionary.\<close>

fun plist_sorted :: "pyval \<Rightarrow> pyval" where
  "plist_sorted (PDict kv) = PDict (sort_key fst (map (\<lambda>(k, v). (k, plist_sorted v)) kv))"
| "plist_sorted (PList vs) = PList (map plist_sorted vs)"
| "plist_sorted v = v"

lemma map_of_insort: "map_of (insort_key fst (k, v) kv) = (map_of kv)(k \<mapsto> v)"
  by (induction kv) (auto simp: fun_upd_twist)

lemma map_of_sort: "map_of (sort_key fst kv) = map_of kv"
  by (induction kv) (auto simp: map_of_insort)

lemma py_get_sorted:
  "py_get (sort_key fst (map (\<lambda>(k, v). (k, plist_sorted v)) kv)) k = plist_sorted (py_get kv k)"
  by (simp add: py_get_def map_of_sort map_of_map split: option.splits)

lemma runtime_of_sorted: "runtime_of (plist_sorted v) = plist_sorted (runtime_of v)"
  by (cases v) (simp_all add: runtime_of_def py_get_sorted)

text \<open>What the code relies on of \<open>plistlib\<close> and \<open>uuid4\<close>.\<close>

definition plist_io :: "office_env \<Rightarrow> bool" where
  "plist_io E \<longleftrightarrow> (\<forall>v bs. oe_dumps E v = Inr bs \<longrightarrow> oe_loads E bs = Inr (plist_sorted v))"

definition office_ok :: "office_env \<Rightarrow> bool" where
  "office_ok E \<longleftrightarrow> plist_io E \<and> (\<forall>s. generation_ok (oe_generation E s))"

lemma load_runtime_manifest_Inr: "load_runtime_manifest v = Inr m \<Longrightarrow> v = PDict m"
  by (auto simp: load_runtime_manifest_def split: pyval.splits if_split_asm)

lemma verify_runtime_manifest_Inr: "verify_runtime_manifest sha v sb ob = Inr m \<Longrightarrow> v = PDict m"
  by (auto simp: verify_runtime_manifest_def dest!: load_runtime_manifest_Inr)

lemma py_get_py_set: "py_get (py_set kv k v) q = (if q = k then v else py_get kv q)"
  by (simp add: py_get_def)

lemma read_bounded_Inr: "read_bounded s p n = Inr bs \<Longrightarrow> holds s p bs \<and> length bs \<le> n"
  by (auto simp: read_bounded_def holds_def split: option.splits onode.splits if_splits)

lemma check_outputs_Inr:
  assumes "check_outputs E data source output manifest sp op s = Inr m"
  shows "holds s source data \<and> (\<exists>ob. holds s output ob) \<and> runtime_of (py_get m ''source'') = PStr sp \<and>
    runtime_of (py_get m ''output'') = PStr op"
proof -
  from assms obtain ob raw v where h: "holds s source data" "holds s output ob"
    and c: "(case v of PDict m \<Rightarrow>
         if \<not> is_dict (py_get m ''source'') \<or> \<not> is_dict (py_get m ''output'') \<or>
           py_get m ''profile'' \<noteq> PStr OFFICE_PROFILE \<or> runtime_of (py_get m ''source'') \<noteq> PStr sp \<or>
           runtime_of (py_get m ''output'') \<noteq> PStr op
         then Inl (ProvisionError ''converter manifest has unexpected runtime identities'')
         else Inr (py_set m ''requires_source_identity'' (PBool True))
       | _ \<Rightarrow> Inl (ProvisionError ''converter manifest has unexpected runtime identities'')) = Inr m"
    unfolding check_outputs_def by (auto simp only: bindE_eq_Inr if_Inl_eq_Inr dest!: read_bounded_Inr)
  from c h show ?thesis by (cases v) (auto simp: py_get_py_set)
qed

text \<open>The manifest that was written and then accepted by the verifier.\<close>

lemma verified_manifest:
  assumes "plist_io E" and "oe_dumps E (PDict m) = Inr rb"
    and "runtime_of (py_get m ''source'') = PStr (posix_string (generation_path digest ''source'' g))"
    and "runtime_of (py_get m ''output'') = PStr (posix_string (generation_path digest ''translated'' g))"
    and "generation_ok g" and "oe_sha E sb = digest"
    and "holds s manifest rb" "holds s source sb" "holds s output ob" and "verify_tool E s manifest source output = Inr u"
  shows "verified_pair E digest g rb sb ob"
proof -
  have l: "oe_loads E rb = Inr (plist_sorted (PDict m))" using assms(1,2) by (simp add: plist_io_def)
  with assms(7-10) obtain m' where v: "verify_runtime_manifest (oe_sha E) (plist_sorted (PDict m)) sb ob = Inr m'"
    by (auto simp: verify_tool_def run_converter_def verifier_ok_def holds_def split: if_splits sum.splits)
  from verify_runtime_manifest_Inr [OF v] have m': "m' = sort_key fst (map (\<lambda>(k, v). (k, plist_sorted v)) m)" by simp
  have n: "runtime_of (py_get m' ''source'') = PStr (posix_string (generation_path digest ''source'' g))"
    "runtime_of (py_get m' ''output'') = PStr (posix_string (generation_path digest ''translated'' g))"
    unfolding m' py_get_sorted runtime_of_sorted assms(3,4) by simp_all
  show ?thesis
    unfolding verified_pair_def
  proof (intro exI [of _ m'] conjI)
    show "oe_loads E rb = Inr (PDict m')" using l m' by simp
    show "verify_runtime_manifest (oe_sha E) (PDict m') sb ob = Inr m'" using v m' by simp
  qed (use n assms(5,6) in auto)
qed

subsection \<open>Provisioning keeps the files\<close>

definition scratch_dir :: "string \<Rightarrow> string \<Rightarrow> cpath" where
  "scratch_dir digest x = cache_path digest @ [''.build-'' @ x]"

lemma scratch_dir_path: "starts (scratch_dir digest x) p \<Longrightarrow> scratch_path p"
  by (auto simp: scratch_path_def scratch_dir_def cache_path_def RUNTIME_BASE_def starts_iff)

lemma in_scratch [simp]: "scratch_path (scratch_dir digest x @ q)"
  by (rule scratch_dir_path [OF starts_append])

lemma kept_translate:
  "through (office_kept E) (translate_tool E' (scratch_dir digest x) data sp op) s"
  by (auto simp: translate_tool_def intro!: office_runs.bind_all office_runs.each office_runs.look kept_write
      split: prod.splits)

lemma build_route_kept:
  assumes "office_ok E" and "oe_sha E data = digest" and "generation_ok g"
  shows "through (office_kept E) (build_route E digest data g (scratch_dir digest x)) s \<and>
    (build_route E digest data g (scratch_dir digest x) s = (tr, Inr u) \<longrightarrow> routed E digest (last tr) g)"
proof -
  define source and target and manifest and source' and target' where defs:
    "source = scratch_dir digest x @ [''source-'' @ g @ ''.metallib'']"
    "target = scratch_dir digest x @ [''translated-'' @ g @ ''.metallib'']"
    "manifest = scratch_dir digest x @ [''route.plist'']"
    "source' = generation_path digest ''source'' g" "target' = generation_path digest ''translated'' g"
  define finish where "finish = (\<lambda>(_::unit). publish_route source target manifest source' target' (route_path digest))"
  define checks where "checks = (\<lambda>s. bindE (check_outputs E data source target manifest (posix_string source') (posix_string target') s)
    (\<lambda>m. oe_dumps E (PDict m)))"
  define publish where "publish = (\<lambda>bs. bind_run (write_bytes manifest bs) (\<lambda>_.
    bind_run (look (\<lambda>s. verify_tool E s manifest source target)) finish))"
  have ne: "source \<noteq> manifest" "target \<noteq> manifest" by (simp_all add: defs)
  have eq: "build_route E digest data g (scratch_dir digest x) = bind_run (write_bytes source data) (\<lambda>_.
      bind_run (translate_tool E (scratch_dir digest x) data (posix_string source') (posix_string target')) (\<lambda>_.
      bind_run (look checks) publish))"
    by (simp add: build_route_def Let_def defs finish_def checks_def publish_def generation_path_def)
  have fin: "through (office_kept E) (finish u1) (last tr1) \<and>
      (finish u1 (last tr1) = (tr2, Inr u2) \<longrightarrow> routed E digest (last tr2) g)"
    if c: "checks t = Inr bs" and w: "write_bytes manifest bs t = (tr1, Inr u0)"
      and v: "verify_tool E (last tr1) manifest source target = Inr u1" for t bs tr1 u0 u1 tr2 u2
  proof -
    from c obtain m where m: "check_outputs E data source target manifest (posix_string source') (posix_string target') t = Inr m"
      and d: "oe_dumps E (PDict m) = Inr bs" by (auto simp: checks_def)
    from check_outputs_Inr [OF m] obtain ob where h: "holds t source data" "holds t target ob"
      and n: "runtime_of (py_get m ''source'') = PStr (posix_string source')"
        "runtime_of (py_get m ''output'') = PStr (posix_string target')" by blast
    from write_bytes_done [OF w] ne h have h': "holds (last tr1) source data" "holds (last tr1) target ob"
      "holds (last tr1) manifest bs" by (auto simp: holds_def)
    have "verified_pair E digest g bs data ob"
      by (rule verified_manifest [OF _ d n [unfolded defs(4,5)] assms(3,2) h'(3,1,2) v]) (use assms(1) in \<open>simp add: office_ok_def\<close>)
    from publish_route_kept [OF h' _ _ _ this] show ?thesis by (simp add: finish_def defs)
  qed
  have pub: "through (office_kept E) (publish bs) t" if "checks t = Inr bs" for t bs
    unfolding publish_def
  proof (rule office_runs.bind)
    show "through (office_kept E) (write_bytes manifest bs) t" by (rule kept_write) (simp add: defs)
    show "through (office_kept E) (bind_run (look (\<lambda>s. verify_tool E s manifest source target)) finish) (last tr1)"
      if "write_bytes manifest bs t = (tr1, Inr u0)" for u0 tr1
      by (rule office_runs.bind [OF office_runs.look]) (use fin [OF \<open>checks t = Inr bs\<close> that] in \<open>auto simp: look_Inr\<close>)
  qed
  have chk: "through (office_kept E) (bind_run (look checks) publish) t" for t
    by (rule office_runs.bind [OF office_runs.look]) (auto simp: look_Inr intro: pub)
  have "through (office_kept E) (build_route E digest data g (scratch_dir digest x)) s"
    unfolding eq by (intro office_runs.bind_all kept_write kept_translate chk) (simp add: defs)
  moreover have "routed E digest (last tr) g" if "build_route E digest data g (scratch_dir digest x) s = (tr, Inr u)"
  proof -
    have tl: "through (office_kept E) (bind_run (translate_tool E (scratch_dir digest x) data sp op) (\<lambda>_. bind_run (look checks) publish)) t"
      for sp op t by (rule office_runs.bind_all [OF kept_translate chk])
    from office_runs.bind_done [OF that [unfolded eq] tl] obtain t0 tr0
      where "bind_run (translate_tool E (scratch_dir digest x) data (posix_string source') (posix_string target'))
        (\<lambda>_. bind_run (look checks) publish) t0 = (tr0, Inr u)" and l0: "last tr = last tr0" by metis
    from office_runs.bind_done [OF this(1) chk] obtain t tr1
      where r: "bind_run (look checks) publish t = (tr1, Inr u)" and l: "last tr = last tr1" using l0 by metis
    from r obtain bs tr2 where c: "checks t = Inr bs" and p: "publish bs t = (tr2, Inr u)" and e: "tr1 = [t] @ tl tr2"
      by (auto simp: last_bind look_Inr)
    have "tr2 \<noteq> []" "hd tr2 = t" using pub [OF c] p by (simp_all add: through_def)
    then have l2: "last tr1 = last tr2" using e by (cases tr2) auto
    from p obtain tr3 u0 tr4 u1 tr5 where w: "write_bytes manifest bs t = (tr3, Inr u0)"
      and v: "verify_tool E (last tr3) manifest source target = Inr u1" and f: "finish u1 (last tr3) = (tr5, Inr u)"
      and e4: "tr4 = [last tr3] @ tl tr5" and e2: "tr2 = tr3 @ tl tr4"
      unfolding publish_def by (auto simp: last_bind look_Inr)
    have "tr3 \<noteq> []" using kept_write [of manifest E bs t] w by (simp add: through_def defs)
    moreover have "tr5 \<noteq> []" "hd tr5 = last tr3" using fin [OF c w v] f by (simp_all add: through_def)
    ultimately have "last tr2 = last tr5" using e2 e4 by (cases tr5) auto
    with fin [OF c w v] f l l2 show ?thesis by auto
  qed
  ultimately show ?thesis by blast
qed

lemma kept_remove: "office_kept E s (remove_tree (scratch_dir digest x) s)"
  by (rule kept_change) (auto dest: scratch_dir_path)

lemma routed_kept:
  assumes "routed E digest s g" and "office_kept E s t"
  shows "\<exists>g. routed E digest t g"
proof (cases "node_at t (route_path digest) = node_at s (route_path digest)")
  case True
  with routed_same [OF assms(2,1)] show ?thesis by blast
next
  case False
  with assms(2) show ?thesis unfolding office_kept_def by blast
qed

lemma with_scratch_kept:
  assumes "office_ok E" and "oe_sha E data = digest" and "generation_ok g"
  shows "through (office_kept E) (with_scratch E (cache_path digest) (build_route E digest data g)) s \<and>
    (with_scratch E (cache_path digest) (build_route E digest data g) s = (tr, Inr u) \<longrightarrow> (\<exists>g. routed E digest (last tr) g))"
proof -
  define d where "d = scratch_dir digest (oe_temporary E s)"
  define body where "body = bind_run (act (put_entry d OFolder)) (\<lambda>_. build_route E digest data g d)"
  note b = build_route_kept [OF assms, of "oe_temporary E s", folded d_def]
  have w: "with_scratch E (cache_path digest) (build_route E digest data g) s =
      (if node_at s d \<noteq> None then pure_run (Inl (OSError ''FileExistsError'')) s else finally_run body (remove_tree d) s)"
    by (simp add: with_scratch_def d_def body_def scratch_dir_def Let_def)
  have put: "office_kept E s (put_entry d OFolder s)" if "node_at s d = None"
    using that by (intro kept_change) (auto simp: d_def in_scratch [of _ _ "[]", simplified])
  have k: "through (office_kept E) body s" if "node_at s d = None"
    unfolding body_def by (intro office_runs.bind office_runs.act put that) (use b in blast)
  show ?thesis
  proof (cases "node_at s d = None")
    case False
    then show ?thesis by (simp add: through_def w pure_run_def office_kept_refl)
  next
    case True
    have "through (office_kept E) (finally_run body (remove_tree d)) s"
      by (rule office_runs.finishing [OF k [OF True]]) (simp add: d_def kept_remove)
    moreover have "\<exists>g. routed E digest (last tr) g" if f: "finally_run body (remove_tree d) s = (tr, Inr u)"
    proof -
      from f obtain tr1 where r: "body s = (tr1, Inr u)" and l: "last tr = remove_tree d (last tr1)"
        by (auto simp: finally_run_def split: prod.splits)
      from office_runs.bind_done [OF r [unfolded body_def], of E] b obtain t tr2
        where "build_route E digest data g d t = (tr2, Inr u)" "last tr1 = last tr2" by metis
      with b [of t tr2 u] have "routed E digest (last tr1) g" by simp
      with routed_kept [OF this kept_remove] l show ?thesis by (simp add: d_def)
    qed
    ultimately show ?thesis using True by (auto simp: through_def w)
  qed
qed

lemma kept_make_parts:
  "(\<And>k. \<not> is_route (current @ take k parts)) \<Longrightarrow> through (office_kept E) (make_parts current parts) s"
proof (induction parts arbitrary: current s)
  case Nil
  then show ?case by (simp add: office_runs.pure)
next
  case (Cons part parts)
  have p: "\<not> is_route (current @ [part])" using Cons.prems [of 1] by simp
  have "\<not> is_route ((current @ [part]) @ take k parts)" for k using Cons.prems [of "Suc k"] by simp
  note ih = Cons.IH [OF this]
  have "through (office_kept E) (\<lambda>s. case node_at s (current @ [part]) of
      None \<Rightarrow> act (put_entry (current @ [part]) OFolder) s | Some _ \<Rightarrow> pure_run (Inr ()) s) t" for t
    using p by (cases "node_at t (current @ [part])")
      (auto simp: through_def act_def pure_run_def office_kept_refl intro!: kept_change)
  then show ?case
    unfolding make_parts.simps by (rule office_runs.bind_all [OF _ office_runs.bind_all [OF office_runs.look ih]])
qed

lemma route_length: "length p \<noteq> 7 \<or> take 6 p \<noteq> RUNTIME_BASE @ [''routes''] \<Longrightarrow> \<not> is_route p"
  by (auto simp: is_route_def route_path_def RUNTIME_BASE_def)

lemma kept_checked_directory:
  assumes "length p \<le> 6 \<or> take 6 p \<noteq> RUNTIME_BASE @ [''routes'']"
  shows "through (office_kept E) (checked_directory p) s"
proof -
  have "\<not> is_route ([] @ take k p)" for k
  proof (rule route_length)
    show "length ([] @ take k p) \<noteq> 7 \<or> take 6 ([] @ take k p) \<noteq> RUNTIME_BASE @ [''routes'']"
      using assms by (cases "k \<le> 6") (auto simp: min_def)
  qed
  from kept_make_parts [OF this] show ?thesis by (simp add: checked_directory_def office_runs.pure)
qed

lemma kept_directories [simp]:
  "through (office_kept E) (checked_directory (cache_path digest)) s"
  "through (office_kept E) (checked_directory (RUNTIME_BASE @ [''routes''])) s"
  "through (office_kept E) (checked_directory (RUNTIME_BASE @ [''office''])) s"
  by (rule kept_checked_directory, simp add: cache_path_def RUNTIME_BASE_def)+

lemma make_parts_done: "make_parts current parts s = (tr, Inr p) \<Longrightarrow> p = current @ parts"
  by (induction parts arbitrary: current s tr) (fastforce simp: pure_run_def last_bind)+

lemma checked_directory_done: "checked_directory q s = (tr, Inr p) \<Longrightarrow> p = q"
  by (auto simp: checked_directory_def pure_run_def dest: make_parts_done split: if_splits)

lemma match_generation_Some:
  assumes "match_generation name = Some (kind, g)"
  shows "name = kind @ ''-'' @ g @ ''.metallib'' \<and> generation_ok g"
proof -
  define k where "k = (if starts ''source-'' name then ''source'' else ''translated'')"
  from assms have k: "kind = k" "starts (k @ ''-'') name" "g = take 32 (drop (length (k @ ''-'')) name)"
      "drop 32 (drop (length (k @ ''-'')) name) = ''.metallib''" "generation_ok g"
    by (auto simp: match_generation_def Let_def k_def generation_ok_def split: if_split_asm)
  from k(2) obtain rest where "name = (k @ ''-'') @ rest" unfolding starts_iff by blast
  moreover from this k(3,4) have "g = take 32 rest" "drop 32 rest = ''.metallib''" by simp_all
  then have "rest = g @ ''.metallib''" using append_take_drop_id [of 32 rest] by simp
  ultimately show ?thesis using k(1,5) by simp
qed

lemma find_parts_done: "find_parts s current parts = Inr p \<Longrightarrow> p = current @ parts"
  by (induction s current parts rule: find_parts.induct) (auto split: option.splits)

lemma checked_path_done: "checked_path s q = Inr p \<Longrightarrow> p = q"
  by (auto simp: checked_path_def dest: find_parts_done split: if_split_asm)

lemma manifest_path_done:
  assumes "manifest_path s digest m label generation = Inr (p, g)"
  defines "kind \<equiv> if label = ''source'' then ''source'' else ''translated''"
  shows "runtime_of (py_get m label) = PStr (posix_string p) \<and> p = generation_path digest kind g \<and>
    generation_ok g \<and> (generation = None \<or> generation = Some g)"
proof -
  from assms(1) obtain identity val where i: "py_get m label = PDict identity" "py_get identity ''runtime_path'' = PStr val"
    by (auto simp: manifest_path_def split: pyval.split_asm)
  define runtime where "runtime = posix_parts val"
  from assms(1) have "match_generation (if runtime = [] then [] else last runtime) = Some (kind, g) \<and>
      take 1 runtime = [''/''] \<and> posix_string (tl runtime) = val \<and> butlast (tl runtime) = cache_path digest \<and>
      (generation = None \<or> generation = Some g) \<and> p = tl runtime"
    by (auto simp: manifest_path_def i Let_def runtime_def [symmetric] kind_def dest!: checked_path_done
        split: option.split_asm if_split_asm)
  then have r: "match_generation (last runtime) = Some (kind, g)" "runtime \<noteq> []" "posix_string p = val"
      "butlast p = cache_path digest" "generation = None \<or> generation = Some g" "p = tl runtime"
    by (cases runtime; simp)+
  from r(4) have "p \<noteq> []" by (auto simp: cache_path_def)
  then have "p = butlast p @ [last p]" by simp
  moreover have "last p = last runtime" using \<open>p \<noteq> []\<close> r(2,6) by (simp add: last_tl)
  ultimately show ?thesis using match_generation_Some [OF r(1)] r(3-5) i by (simp add: runtime_of_def generation_path_def)
qed

lemma cache_valid_routed:
  assumes "cache_valid E digest (route_path digest) s = Inr True"
  shows "\<exists>g. routed E digest s g"
proof -
  from assms obtain raw v source target data ob where l: "read_bounded s (route_path digest) MAX_MANIFEST = Inr raw"
      "oe_loads E raw = Inr v" "manifest_paths s digest v = Inr (source, target)"
      "read_bounded s source MAX_ARTIFACT = Inr data" "oe_sha E data = digest"
      "read_bounded s target MAX_ARTIFACT = Inr ob" "verifier_ok E s (route_path digest) source target"
    by (auto simp: cache_valid_def verify_tool_def run_converter_def split: sum.split_asm if_split_asm prod.split_asm)
  have h: "holds s (route_path digest) raw" "holds s source data" "holds s target ob"
    using l(1,4,6) by (auto dest: read_bounded_Inr)
  with l(2,7) obtain m' where v: "verify_runtime_manifest (oe_sha E) v data ob = Inr m'"
    by (auto simp: verifier_ok_def holds_def split: sum.split_asm)
  note m = verify_runtime_manifest_Inr [OF v]
  from l(3) obtain g g' where p: "manifest_path s digest m' ''source'' None = Inr (source, g)"
      "manifest_path s digest m' ''output'' (Some g) = Inr (target, g')"
    by (cases "py_get m' ''source''") (auto simp: manifest_paths_def m split: if_split_asm)
  note a = manifest_path_done [OF p(1)] and b = manifest_path_done [OF p(2)]
  have "verified_pair E digest g raw data ob"
    unfolding verified_pair_def using l(2,5) v m a b by (intro exI [of _ m']) auto
  with h a b show ?thesis unfolding routed_def by (intro exI [of _ g]) auto
qed

lemma provision_kept:
  assumes "office_ok E" and "oe_sha E data = digest"
  shows "through (office_kept E) (provision E digest data) s \<and>
    (provision E digest data s = (tr, Inr u) \<longrightarrow> (\<exists>g. routed E digest (last tr) g))"
proof -
  define check where "check = (\<lambda>s. if node_at s (route_path digest) = Some OLink
    then Inl (ProvisionError ''refusing symlink: '') else cache_valid E digest (route_path digest) s)"
  define finish where "finish = (\<lambda>valid. if valid then pure_run (Inr ())
    else (\<lambda>s. with_scratch E (cache_path digest) (build_route E digest data (oe_generation E s)) s))"
  have w: "through (office_kept E) (finish valid) t \<and>
      (check t = Inr valid \<longrightarrow> finish valid t = (tr1, Inr u1) \<longrightarrow> (\<exists>g. routed E digest (last tr1) g))" for valid t tr1 u1
  proof (cases valid)
    case True
    then show ?thesis
      by (auto simp: finish_def office_runs.pure pure_run_def check_def intro: cache_valid_routed split: if_split_asm)
  next
    case False
    have "generation_ok (oe_generation E t)" using assms(1) by (simp add: office_ok_def)
    from with_scratch_kept [OF assms this, of t tr1 u1] False show ?thesis by (simp add: finish_def through_def)
  qed
  have c: "through (office_kept E) (bind_run (look check) finish) t" for t
    by (rule office_runs.bind_all [OF office_runs.look]) (use w in blast)
  have eq: "provision E digest data = bind_run (checked_directory (cache_path digest)) (\<lambda>cache.
      bind_run (checked_directory (RUNTIME_BASE @ [''routes''])) (\<lambda>_. bind_run (look check) (\<lambda>valid.
        if valid then pure_run (Inr ())
        else (\<lambda>s. with_scratch E cache (build_route E digest data (oe_generation E s)) s))))"
    by (simp add: provision_def check_def)
  define tail where "tail = bind_run (checked_directory (RUNTIME_BASE @ [''routes''])) (\<lambda>_. bind_run (look check) finish)"
  have k: "through (office_kept E) tail t" for t
    unfolding tail_def by (intro office_runs.bind_all kept_directories c)
  have same: "provision E digest data s = bind_run (checked_directory (cache_path digest)) (\<lambda>_. tail) s"
    unfolding eq by (auto simp: bind_run_def tail_def finish_def dest: checked_directory_done split: prod.splits sum.splits)
  have "through (office_kept E) (bind_run (checked_directory (cache_path digest)) (\<lambda>_. tail)) s"
    by (rule office_runs.bind_all [OF _ k]) simp
  moreover have "\<exists>g. routed E digest (last tr) g"
    if d: "bind_run (checked_directory (cache_path digest)) (\<lambda>_. tail) s = (tr, Inr u)"
  proof -
    from office_runs.bind_done [OF d k] obtain t1 tr1 where "tail t1 = (tr1, Inr u)" and l: "last tr = last tr1" by metis
    from office_runs.bind_done [OF this(1) [unfolded tail_def] c] l obtain t2 tr2
      where r: "bind_run (look check) finish t2 = (tr2, Inr u)" and l: "last tr = last tr2" by metis
    from office_runs.look_done [OF r, of E] w obtain valid where "check t2 = Inr valid" "finish valid t2 = (tr2, Inr u)" by blast
    with w [of valid t2 tr2 u] l show ?thesis by simp
  qed
  ultimately show ?thesis using same by (simp add: through_def)
qed

lemma sources_kept:
  assumes "office_ok E" and "list_all (\<lambda>(digest, data). oe_sha E data = digest) sources"
  shows "through (office_kept E) (provision_sources E sources errors) s"
  using assms(2)
proof (induction sources arbitrary: errors s)
  case Nil
  then show ?case by (simp add: office_runs.pure)
next
  case (Cons y sources)
  obtain digest data where y: "y = (digest, data)" by (cases y)
  with Cons.prems have d: "oe_sha E data = digest" and l: "list_all (\<lambda>(digest, data). oe_sha E data = digest) sources" by simp_all
  from d have "through (office_kept E) (provision E digest data) t" for t using provision_kept [OF assms(1)] by blast
  then show ?case
    unfolding y provision_sources.simps
    by (intro office_runs.bind_all office_runs.catching office_runs.pure Cons.IH [OF l])
qed

text \<open>A source that raised leaves an error behind, so that a run without errors published every source.\<close>

lemma sources_done:
  assumes "office_ok E" and "list_all (\<lambda>(digest, data). oe_sha E data = digest) sources"
    and "provision_sources E sources errors s = (tr, Inr [])"
  shows "errors = [] \<and> list_all (\<lambda>(digest, _). \<exists>g. routed E digest (last tr) g) sources"
  using assms(2,3)
proof (induction sources arbitrary: errors s tr)
  case Nil
  then show ?case by (simp add: pure_run_def)
next
  case (Cons x sources)
  obtain digest data where x: "x = (digest, data)" by (cases x)
  with Cons.prems have d: "oe_sha E data = digest" and l: "list_all (\<lambda>(digest, data). oe_sha E data = digest) sources" by simp_all
  note k = sources_kept [OF assms(1) l]
  define attempt where "attempt = bind_run (provision E digest data) (\<lambda>_. pure_run (Inr errors))"
  have kp: "through (office_kept E) (provision E digest data) t" for t
    using provision_kept [OF assms(1) d] by blast
  from Cons.prems(2) obtain tr1 errors' tr2
    where c: "catch_run source_caught attempt (pure_run (Inr (errors @ [digest]))) s = (tr1, Inr errors')"
    and r: "provision_sources E sources errors' (last tr1) = (tr2, Inr [])" and e: "last tr = last tr2"
    unfolding x provision_sources.simps attempt_def [symmetric] by (rule office_runs.bind_done [OF _ k])
  from Cons.IH [OF l r] have "errors' = []" and all: "list_all (\<lambda>(digest, _). \<exists>g. routed E digest (last tr) g) sources"
    by (simp_all add: e)
  with c have a: "attempt s = (tr1, Inr [])"
    by (auto simp: catch_run_def pure_run_def split: prod.splits sum.splits if_splits)
  from office_runs.bind_done [OF a [unfolded attempt_def] office_runs.pure] obtain tr3 u tr4
    where p: "provision E digest data s = (tr3, Inr u)" and q: "pure_run (Inr errors) (last tr3) = (tr4, Inr [])"
    and e1: "last tr1 = last tr4" by metis
  from q have "errors = []" "last tr1 = last tr3" using e1 by (auto simp: pure_run_def)
  moreover obtain g where "routed E digest (last tr3) g" using provision_kept [OF assms(1) d] p by blast
  moreover have "office_kept E (last tr1) (last tr2)" by (rule office_runs.at_last [OF k r])
  ultimately show ?case using routed_kept e all x by auto
qed

subsection \<open>The sources found\<close>

lemma discover_one_sha:
  assumes "discover_one E s application x = Inr y" and "list_all (\<lambda>(digest, data). oe_sha E data = digest) (fst x)"
  shows "list_all (\<lambda>(digest, data). oe_sha E data = digest) (fst y)"
proof -
  have set: "list_all (\<lambda>(digest, data). oe_sha E data = digest) (py_set kv (oe_sha E d) d)"
    if "list_all (\<lambda>(digest, data). oe_sha E data = digest) kv" for kv d
    using that by (induction kv "oe_sha E d" d rule: py_set.induct) auto
  show ?thesis
    using assms by (auto simp: discover_one_def intro!: set split: sum.split_asm py_error.split_asm if_split_asm)
qed

text \<open>An application was looked at when its archive is absent, its source is recorded, or it failed.\<close>

definition accounted :: "office_env \<Rightarrow> office_fs \<Rightarrow> (string \<times> bytes) list \<times> string list \<Rightarrow> string \<Rightarrow> bool" where
  "accounted E s x application \<longleftrightarrow> snd x \<noteq> [] \<or> checked_path s (archive_path application) = Inl (OSError ''FileNotFoundError'') \<or>
     (\<exists>data. archive_source E s (archive_path application) = Inr data \<and> map_of (fst x) (oe_sha E data) = Some data)"

lemma discover_one_accounted:
  assumes "discover_one E s application x = Inr y"
  shows "accounted E s y application \<and> (\<forall>b. accounted E s x b \<longrightarrow> accounted E s y b)"
proof (cases "checked_path s (archive_path application)")
  case (Inl e)
  with assms show ?thesis
    by (cases e) (auto simp: discover_one_def accounted_def split: if_split_asm)
next
  case (Inr p)
  with checked_path_done have p: "p = archive_path application" by blast
  show ?thesis
  proof (cases "archive_source E s p")
    case (Inl e)
    with assms Inr show ?thesis by (auto simp: discover_one_def accounted_def split: if_split_asm)
  next
    case a: (Inr data)
    define digest where "digest = oe_sha E data"
    show ?thesis
    proof (cases "digest \<in> set (map fst (fst x)) \<and> map_of (fst x) digest \<noteq> Some data")
      case True
      with assms Inr a p have "y = (fst x, snd x @ [application])"
        by (simp add: discover_one_def is_provision_error_def digest_def [symmetric])
      then show ?thesis by (simp add: accounted_def)
    next
      case False
      with assms Inr a p have y: "y = (py_set (fst x) digest data, snd x)"
        by (auto simp: discover_one_def digest_def [symmetric] simp del: set_map)
      have grow: "map_of (fst y) k = Some d" if "map_of (fst x) k = Some d" for k d
        using False that y by (cases "k = digest") (auto dest: map_of_SomeD intro: rev_image_eqI)
      have "map_of (fst y) digest = Some data" "snd y = snd x" by (simp_all add: y)
      then show ?thesis
        unfolding accounted_def using a p grow by (auto simp: digest_def simp del: map_of_py_set)
    qed
  qed
qed

lemma discover_done:
  assumes "discover E s = Inr x"
  shows "list_all (\<lambda>(digest, data). oe_sha E data = digest) (fst x) \<and> list_all (accounted E s x) APPLICATIONS"
proof
  show "list_all (\<lambda>(digest, data). oe_sha E data = digest) (fst x)"
    by (rule foldE_invariant [OF assms [unfolded discover_def]]) (auto dest: discover_one_sha)
  have "foldE (discover_one E s) apps x0 = Inr x \<Longrightarrow>
      list_all (accounted E s x) apps \<and> (\<forall>b. accounted E s x0 b \<longrightarrow> accounted E s x b)" for apps x0
    by (induction apps arbitrary: x0) (use discover_one_accounted in \<open>fastforce+\<close>)
  from this [OF assms [unfolded discover_def]] show "list_all (accounted E s x) APPLICATIONS" by blast
qed

subsection \<open>The whole run\<close>

lemma provision_office_kept:
  assumes "office_ok E"
  shows "through (office_kept E) (provision_office E) s"
proof -
  define rest where "rest = (\<lambda>(sources, errors). if sources = [] then pure_run (Inr (exit_code errors))
        else if \<not> oe_tools_ok E
        then pure_run (Inl (ProvisionError ''metal2metal or its packaged Apple LLVM tools are unavailable''))
        else
        bind_run (checked_directory (RUNTIME_BASE @ [''office''])) (\<lambda>_.
        if \<not> oe_lock_free E then pure_run (Inl (ProvisionError ''Office provisioner is busy; no changes''))
        else
        bind_run (provision_sources E sources errors) (\<lambda>errors. pure_run (Inr (exit_code errors)))))"
  have r: "through (office_kept E) (rest x) t" if "discover E t' = Inr x" for x t t'
  proof -
    from discover_done [OF that] have "list_all (\<lambda>(digest, data). oe_sha E data = digest) (fst x)" ..
    note k = sources_kept [OF assms this]
    obtain sources errors where x: "x = (sources, errors)" by (cases x)
    show ?thesis
      unfolding x using k [unfolded x fst_conv] by (auto simp: rest_def intro!: office_runs.pure office_runs.bind_all)
  qed
  have "through (office_kept E) (bind_run (look (discover E)) rest) t" for t
    by (rule office_runs.bind [OF office_runs.look]) (auto simp: look_Inr intro: r)
  then show ?thesis
    unfolding provision_office_def rest_def [symmetric] by (intro office_runs.catching office_runs.pure) (simp add: office_runs.pure)
qed

subsection \<open>Where a run ends\<close>

text \<open>
  \<open>closes K m s\<close> relates only the last state of a run to the first one, whatever its result: the name of
  a new route is on stable storage when the run is over, not in every state before.
\<close>

definition closes :: "('s \<Rightarrow> 's \<Rightarrow> bool) \<Rightarrow> ('s, 'a) trace \<Rightarrow> 's \<Rightarrow> bool" where
  "closes K m s \<longleftrightarrow> fst (m s) \<noteq> [] \<and> hd (fst (m s)) = s \<and> K s (last (fst (m s)))"

context kept
begin

lemma closes_through: "through K m s \<Longrightarrow> closes K m s"
  by (simp add: through_def closes_def list_all_iff)

lemma last_join: "tr' \<noteq> [] \<Longrightarrow> hd tr' = last tr \<Longrightarrow> tr \<noteq> [] \<Longrightarrow> last (tr @ tl tr') = last tr'"
  by (cases tr') auto

lemma closes_bind:
  assumes "closes K m s" and "\<And>x tr. m s = (tr, Inr x) \<Longrightarrow> closes K (f x) (last tr)"
  shows "closes K (bind_run m f) s"
proof -
  obtain tr r where m: "m s = (tr, r)" by (cases "m s")
  show ?thesis
  proof (cases r)
    case (Inl e)
    with m assms(1) show ?thesis by (simp add: closes_def bind_run_def)
  next
    case (Inr x)
    obtain tr' r' where f: "f x (last tr) = (tr', r')" by (cases "f x (last tr)")
    with assms m Inr have "closes K (f x) (last tr)" by simp
    with assms(1) m Inr f show ?thesis by (auto simp: closes_def bind_run_def last_join intro: trans)
  qed
qed

lemma closes_bind_all: "closes K m s \<Longrightarrow> (\<And>x t. closes K (f x) t) \<Longrightarrow> closes K (bind_run m f) s"
  by (rule closes_bind)

lemma closes_catch:
  assumes "closes K m s" and "\<And>t. closes K h t"
  shows "closes K (catch_run caught m h) s"
proof -
  obtain tr r where m: "m s = (tr, r)" by (cases "m s")
  obtain tr' r' where h: "h (last tr) = (tr', r')" by (cases "h (last tr)")
  from assms(1) assms(2) [of "last tr"] m h show ?thesis
    by (cases r) (auto simp: closes_def catch_run_def last_join intro: trans)
qed

lemma closes_finally:
  assumes "closes K m s" and "\<And>t. K t (f t)"
  shows "closes K (finally_run m f) s"
proof -
  obtain tr r where m: "m s = (tr, r)" by (cases "m s")
  with assms show ?thesis by (auto simp: closes_def finally_run_def intro: trans)
qed

end

lemma scratch_not_route: "scratch_path p \<Longrightarrow> \<not> is_route p"
  using route_not_scratch by (auto simp: is_route_def)

text \<open>
  A relation that a step keeps when it touches no route, and that the publication of the routes of the
  digests in \<open>D\<close> keeps as a whole: a run over such sources keeps it as a whole.
\<close>

locale route_relation = kept K for K :: "office_fs \<Rightarrow> office_fs \<Rightarrow> bool" +
  fixes D :: "string set"
  assumes change: "(\<And>p. is_route p \<Longrightarrow> node_at t p = node_at s p \<and> (p \<in> of_loose t \<longrightarrow> p \<in> of_loose s)) \<Longrightarrow> K s t"
    and publish: "digest \<in> D \<Longrightarrow> scratch_path manifest \<Longrightarrow>
      closes K (bind_run (replace_file manifest (route_path digest)) (\<lambda>_. sync_dir (butlast (route_path digest)))) s"
begin

lemma step_store: "scratch_path p \<Longrightarrow> K s (store_bytes bs p s)"
proof (rule change)
  fix q assume "scratch_path p" "is_route q"
  then have "q \<noteq> p" using scratch_not_route by blast
  then show "node_at (store_bytes bs p s) q = node_at s q \<and> (q \<in> of_loose (store_bytes bs p s) \<longrightarrow> q \<in> of_loose s)"
    by (simp add: node_store_bytes) (simp add: store_bytes_def)
qed

lemma step_write: "scratch_path p \<Longrightarrow> through K (write_bytes p bs) s"
  unfolding write_bytes_def by (intro bind_all act step_store)

lemma step_settle: "scratch_path p \<Longrightarrow> through K (settle_file p) s"
  unfolding settle_file_def sync_file_def
  by (intro bind_all act change)
    (auto simp: node_set_mode node_at_def dest: scratch_not_route, auto simp: set_mode_def dest: scratch_not_route split: option.splits onode.splits)

lemma step_sync_dir: "through K (sync_dir d) s"
  unfolding sync_dir_def by (intro act change) (auto simp: node_at_def)

lemma step_link: "\<not> is_route dst \<Longrightarrow> through K (link_file src dst) s"
proof -
  assume d: "\<not> is_route dst"
  have "K s (add_name src dst n s)" for n
    using d by (intro change) (auto simp: add_name_def node_at_def)
  then show ?thesis
    by (auto simp: through_def link_file_def act_def pure_run_def refl split: option.splits)
qed

lemma publish_step:
  assumes "digest \<in> D" "scratch_path source" "scratch_path output" "scratch_path manifest" "\<not> is_route source'" "\<not> is_route output'"
  shows "closes K (publish_route source output manifest source' output' (route_path digest)) s"
proof -
  have "through K (link_files source output manifest source' output') t" for t
    unfolding link_files_def
    by (intro bind_all each step_link step_sync_dir step_settle) (use assms in auto)
  then show ?thesis
    unfolding publish_route_def by (intro closes_bind_all closes_through publish) (use assms in auto)
qed

lemma build_step: "digest \<in> D \<Longrightarrow> closes K (build_route E digest data g (scratch_dir digest' x)) s"
proof -
  assume d: "digest \<in> D"
  have t: "through K (translate_tool E (scratch_dir digest' x) data sp op) t" for sp op t
    by (auto simp: translate_tool_def intro!: bind_all each look step_write split: prod.splits)
  have n: "\<not> is_route (cache_path digest @ [''source-'' @ g @ ''.metallib''])" "\<not> is_route (cache_path digest @ [''translated-'' @ g @ ''.metallib''])"
    using generation_not_route [of digest "''source''" g] generation_not_route [of digest "''translated''" g]
    by (simp_all add: generation_path_def)
  show ?thesis
    unfolding build_route_def Let_def
    by (intro closes_bind_all publish_step d in_scratch n closes_through [OF step_write]
      closes_through [OF t] closes_through [OF look])
qed

lemma scratch_step: "digest \<in> D \<Longrightarrow> closes K (with_scratch E (cache_path digest) (build_route E digest data g)) s"
proof -
  assume d: "digest \<in> D"
  let ?d = "scratch_dir digest (oe_temporary E s)"
  have p: "K s (put_entry ?d OFolder s)"
    using scratch_not_route [OF in_scratch [of digest "oe_temporary E s" "[]"]] by (intro change) auto
  have r: "K t (remove_tree ?d t)" for t
    by (rule change) (auto dest: scratch_dir_path scratch_not_route)
  have "closes K (finally_run (bind_run (act (put_entry ?d OFolder)) (\<lambda>_. build_route E digest data g ?d)) (remove_tree ?d)) s"
    by (intro closes_finally closes_bind r build_step [OF d] closes_through [OF act] p)
  moreover have "with_scratch E (cache_path digest) (build_route E digest data g) s =
      (if node_at s ?d \<noteq> None then pure_run (Inl (OSError ''FileExistsError'')) s
       else finally_run (bind_run (act (put_entry ?d OFolder)) (\<lambda>_. build_route E digest data g ?d)) (remove_tree ?d) s)"
    by (simp add: with_scratch_def scratch_dir_def Let_def)
  ultimately show ?thesis by (simp add: closes_def pure_run_def refl)
qed

lemma step_make_parts:
  "(\<And>k. \<not> is_route (current @ take k parts)) \<Longrightarrow> through K (make_parts current parts) s"
proof (induction parts arbitrary: current s)
  case Nil
  then show ?case by (simp add: pure)
next
  case (Cons part parts)
  have p: "\<not> is_route (current @ [part])" using Cons.prems [of 1] by simp
  have "\<not> is_route ((current @ [part]) @ take k parts)" for k using Cons.prems [of "Suc k"] by simp
  note ih = Cons.IH [OF this]
  have "through K (\<lambda>s. case node_at s (current @ [part]) of
      None \<Rightarrow> act (put_entry (current @ [part]) OFolder) s | Some _ \<Rightarrow> pure_run (Inr ()) s) t" for t
    using p by (cases "node_at t (current @ [part])")
      (auto simp: through_def act_def pure_run_def refl intro!: change)
  then show ?case
    unfolding make_parts.simps by (rule bind_all [OF _ bind_all [OF look ih]])
qed

lemma step_directory:
  assumes "length p \<le> 6 \<or> take 6 p \<noteq> RUNTIME_BASE @ [''routes'']"
  shows "closes K (checked_directory p) s"
proof (rule closes_through)
  have "\<not> is_route ([] @ take k p)" for k
  proof (rule route_length)
    show "length ([] @ take k p) \<noteq> 7 \<or> take 6 ([] @ take k p) \<noteq> RUNTIME_BASE @ [''routes'']"
      using assms by (cases "k \<le> 6") (auto simp: min_def)
  qed
  from step_make_parts [OF this] show "through K (checked_directory p) s"
    by (simp add: checked_directory_def pure)
qed

lemma step_directories [simp]:
  "closes K (checked_directory (cache_path digest)) s"
  "closes K (checked_directory (RUNTIME_BASE @ [''routes''])) s"
  "closes K (checked_directory (RUNTIME_BASE @ [''office''])) s"
  by (rule step_directory, simp add: cache_path_def RUNTIME_BASE_def)+

lemmas step_nothing = closes_through [OF pure] closes_through [OF look]

lemma provision_step:
  assumes d: "digest \<in> D"
  shows "closes K (provision E digest data) s"
  unfolding provision_def
proof (rule closes_bind)
  fix cache tr assume "checked_directory (cache_path digest) s = (tr, Inr cache)"
  then have c: "cache = cache_path digest" by (rule checked_directory_done)
  have "closes K (if valid then pure_run (Inr ()) else (\<lambda>s. with_scratch E cache (build_route E digest data (oe_generation E s)) s)) t"
    for valid t
  proof (cases valid)
    case False
    have "closes K (with_scratch E cache (build_route E digest data (oe_generation E t))) t" unfolding c by (rule scratch_step [OF d])
    with False show ?thesis by (simp add: closes_def)
  qed (simp add: step_nothing)
  then show "closes K (bind_run (checked_directory (RUNTIME_BASE @ [''routes''])) (\<lambda>_.
      bind_run (look (\<lambda>s. if node_at s (route_path digest) = Some OLink then Inl (ProvisionError ''refusing symlink: '')
        else cache_valid E digest (route_path digest) s)) (\<lambda>valid.
      if valid then pure_run (Inr ()) else (\<lambda>s. with_scratch E cache (build_route E digest data (oe_generation E s)) s)))) (last tr)"
    by (intro closes_bind_all step_nothing) simp_all
qed simp

lemma sources_step: "fst ` set sources \<subseteq> D \<Longrightarrow> closes K (provision_sources E sources errors) s"
proof (induction E sources errors arbitrary: s rule: provision_sources.induct)
  case (2 E digest data sources errors)
  then show ?case
    unfolding provision_sources.simps
    by (intro closes_bind_all closes_catch step_nothing provision_step) auto
qed (simp add: step_nothing)

end

text \<open>A route whose name is not on stable storage is the route that was there before.\<close>

definition routes_synced :: "office_fs \<Rightarrow> office_fs \<Rightarrow> bool" where
  "routes_synced s t \<longleftrightarrow> (\<forall>p. is_route p \<and> p \<in> of_loose t \<longrightarrow> p \<in> of_loose s \<and> node_at t p = node_at s p)"

text \<open>The directory of the routes is synchronised after the replacement.\<close>

lemma publish_syncs:
  "closes routes_synced (bind_run (replace_file manifest (route_path digest)) (\<lambda>_. sync_dir (butlast (route_path digest)))) s"
proof -
  have r: "butlast (route_path d) = RUNTIME_BASE @ [''routes'']" for d by (simp add: route_path_def butlast_append)
  have "routes_synced s (t\<lparr>of_loose := {q \<in> of_loose t. butlast q \<noteq> butlast (route_path digest)}\<rparr>)" for t
    by (auto simp: routes_synced_def is_route_def r)
  moreover have "routes_synced s s" by (simp add: routes_synced_def)
  ultimately show ?thesis
    by (auto simp: closes_def bind_run_def replace_file_def sync_dir_def act_def pure_run_def
        split: option.splits onode.splits)
qed

interpretation route_runs: route_relation routes_synced UNIV
  by unfold_locales (blast intro: publish_syncs | simp add: routes_synced_def)+

text \<open>The route of another source is left alone.\<close>

definition same_route :: "string \<Rightarrow> office_fs \<Rightarrow> office_fs \<Rightarrow> bool" where
  "same_route digest s t \<longleftrightarrow> node_at t (route_path digest) = node_at s (route_path digest)"

lemma publish_elsewhere:
  assumes "digest' \<noteq> digest" and "scratch_path manifest"
  shows "closes (same_route digest) (bind_run (replace_file manifest (route_path digest')) (\<lambda>_. sync_dir (butlast (route_path digest')))) s"
proof -
  have "manifest \<noteq> route_path digest" using assms(2) by auto
  with assms(1) show ?thesis
    by (auto simp: closes_def same_route_def bind_run_def replace_file_def sync_dir_def act_def pure_run_def route_path_inj
        split: option.splits onode.splits)
qed

interpretation other_routes: route_relation "same_route digest" "- {digest}" for digest
proof unfold_locales
  fix s t assume "\<And>p. is_route p \<Longrightarrow> node_at t p = node_at s p \<and> (p \<in> of_loose t \<longrightarrow> p \<in> of_loose s)"
  then show "same_route digest s t" by (auto simp: same_route_def is_route_def)
qed (blast intro: publish_elsewhere | simp add: same_route_def)+

lemma provision_office_synced: "closes routes_synced (provision_office E) s"
proof -
  have "closes routes_synced (case x of (sources, errors) \<Rightarrow> if sources = [] then pure_run (Inr (exit_code errors))
        else if \<not> oe_tools_ok E
        then pure_run (Inl (ProvisionError ''metal2metal or its packaged Apple LLVM tools are unavailable''))
        else bind_run (checked_directory (RUNTIME_BASE @ [''office''])) (\<lambda>_.
        if \<not> oe_lock_free E then pure_run (Inl (ProvisionError ''Office provisioner is busy; no changes''))
        else bind_run (provision_sources E sources errors) (\<lambda>errors. pure_run (Inr (exit_code errors))))) t" for x t
    by (cases x) (auto simp: route_runs.step_nothing intro!: route_runs.closes_bind_all route_runs.sources_step)
  then show ?thesis
    unfolding provision_office_def by (auto simp: route_runs.step_nothing intro!: route_runs.closes_catch route_runs.closes_bind_all)
qed

text \<open>
  A history of runs, each with its own converter, clock and names and possibly cut off in any state it
  passes through; SHA-256 and the property list reader stay the same.
\<close>

inductive office_history :: "office_env \<Rightarrow> office_fs \<Rightarrow> office_fs \<Rightarrow> bool" where
  office_start: "office_history E s s"
| office_again: "office_history E s t \<Longrightarrow> office_ok E' \<Longrightarrow> oe_sha E' = oe_sha E \<Longrightarrow> oe_loads E' = oe_loads E \<Longrightarrow>
    u \<in> set (fst (provision_office E' t)) \<Longrightarrow> office_history E s u"

lemma office_kept_cong:
  assumes "oe_sha E' = oe_sha E" and "oe_loads E' = oe_loads E"
  shows "office_kept E' = office_kept E"
proof -
  have "routed E' = routed E" by (intro ext) (simp add: routed_def verified_pair_def assms)
  then show ?thesis by (intro ext) (simp add: office_kept_def)
qed

lemma route_after_run:
  assumes "office_ok E" and "provision_office E t = (tr, r)"
  shows "settled (last tr) (route_path digest) \<or>
    node_at (last tr) (route_path digest) = node_at t (route_path digest) \<and> \<not> settled t (route_path digest)"
proof -
  have "office_kept E t (last tr)" by (rule office_runs.at_last [OF provision_office_kept [OF assms(1)] assms(2)])
  then have k: "node_at (last tr) (route_path digest) = node_at t (route_path digest) \<and>
      (route_path digest \<in> of_dirty (last tr) \<longrightarrow> route_path digest \<in> of_dirty t) \<or> route_path digest \<notin> of_dirty (last tr)"
    unfolding office_kept_def by blast
  have "is_route (route_path digest)" by (auto simp: is_route_def)
  with provision_office_synced [of E t] assms(2) have "route_path digest \<in> of_loose (last tr) \<longrightarrow>
      route_path digest \<in> of_loose t \<and> node_at (last tr) (route_path digest) = node_at t (route_path digest)"
    by (simp add: closes_def routes_synced_def)
  with k show ?thesis by (auto simp: settled_def)
qed

text \<open>
  C34: Provisioning is safe at every moment.  In every state any number of runs can leave behind, each of
  them cut off anywhere, nothing that existed is changed but scratch directories and routes - the Office
  bundles and every published source and translation are intact, and what was on stable storage stays
  there; and every route either is the one that was there before, or its bytes are on stable storage and
  name the two files of one generation, which exist, are on stable storage with their names in their
  directory, and pass the verifier for the digest of the route.  The name of a new route may still be
  lost in a power cut between its replacement and the synchronisation of the directory of routes, so that
  the old route is back; but a run that is not cut off, whatever its result, started in such a state,
  leaves every route either on stable storage with its name, or as it was when the run started.  (The
  directories the run makes are not synchronised in theirs, by the code as in the model, and \<open>fsync\<close> does
  not fail.)
\<close>

theorem office_crash_safe:
  assumes "office_history E s t"
  shows "(\<forall>p n. node_at s p = Some n \<and> \<not> scratch_path p \<and> \<not> is_route p \<longrightarrow>
      node_at t p = Some n \<and> (settled s p \<longrightarrow> settled t p)) \<and>
    (\<forall>digest. node_at t (route_path digest) = node_at s (route_path digest) \<or>
      (\<exists>g. routed E digest t g \<and> settled t (generation_path digest ''source'' g) \<and>
         settled t (generation_path digest ''translated'' g) \<and> route_path digest \<notin> of_dirty t)) \<and>
    (\<forall>E' tr r digest. office_ok E' \<and> provision_office E' t = (tr, r) \<longrightarrow>
      settled (last tr) (route_path digest) \<or>
      node_at (last tr) (route_path digest) = node_at t (route_path digest) \<and> \<not> settled t (route_path digest))"
proof (intro conjI)
  have "office_kept E s t"
    using assms
  proof (induction rule: office_history.induct)
    case (office_start E s)
    then show ?case by (rule office_kept_refl)
  next
    case (office_again E s t E' u)
    have "through (office_kept E') (provision_office E') t" by (rule provision_office_kept) (rule office_again)
    with office_again.hyps(5) have "office_kept E' t u" by (simp add: through_def list_all_iff)
    with office_again.IH office_kept_cong [OF office_again.hyps(3,4)] show ?case by (auto intro: office_kept_trans)
  qed
  then show "\<forall>p n. node_at s p = Some n \<and> \<not> scratch_path p \<and> \<not> is_route p \<longrightarrow>
      node_at t p = Some n \<and> (settled s p \<longrightarrow> settled t p)"
    and "\<forall>digest. node_at t (route_path digest) = node_at s (route_path digest) \<or>
      (\<exists>g. routed E digest t g \<and> settled t (generation_path digest ''source'' g) \<and>
         settled t (generation_path digest ''translated'' g) \<and> route_path digest \<notin> of_dirty t)"
    unfolding office_kept_def by blast+
  show "\<forall>E' tr r digest. office_ok E' \<and> provision_office E' t = (tr, r) \<longrightarrow>
      settled (last tr) (route_path digest) \<or>
      node_at (last tr) (route_path digest) = node_at t (route_path digest) \<and> \<not> settled t (route_path digest)"
    using route_after_run by blast
qed

lemma catch_done: "catch_run caught m (pure_run (Inr y)) s = (tr, Inr z) \<Longrightarrow> z \<noteq> y \<Longrightarrow> m s = (tr, Inr z)"
  by (auto simp: catch_run_def pure_run_def split: prod.split_asm sum.split_asm if_split_asm)

lemma all_sources_routed:
  assumes "provision_office E s = (tr, Inr 0)" and "office_ok E"
  shows "\<exists>x. discover E s = Inr x \<and> snd x = [] \<and> list_all (\<lambda>(digest, _). \<exists>g. routed E digest (last tr) g) (fst x)"
proof -
  from catch_done [OF assms(1) [unfolded provision_office_def]] obtain x tr1 where d: "discover E s = Inr x" and l: "tr = [s] @ tl tr1"
    and r: "(if fst x = [] then pure_run (Inr (exit_code (snd x)))
      else if \<not> oe_tools_ok E then pure_run (Inl (ProvisionError ''metal2metal or its packaged Apple LLVM tools are unavailable''))
      else bind_run (checked_directory (RUNTIME_BASE @ [''office''])) (\<lambda>_.
        if \<not> oe_lock_free E then pure_run (Inl (ProvisionError ''Office provisioner is busy; no changes''))
        else bind_run (provision_sources E (fst x) (snd x)) (\<lambda>errors. pure_run (Inr (exit_code errors))))) s = (tr1, Inr 0)"
    by (cases "oe_arguments_ok E") (simp_all only: if_True if_False not_True_eq_False not_False_eq_True last_bind look_Inr case_prod_unfold,
      auto simp: pure_run_def)
  note found = discover_done [OF d]
  show ?thesis
  proof (cases "fst x = []")
    case True
    with r have "snd x = []" by (auto simp: pure_run_def exit_code_def split: if_split_asm)
    with d True show ?thesis by simp
  next
    case False
    note k = sources_kept [OF assms(2), of "fst x"]
    define run where "run = (\<lambda>_::cpath. if \<not> oe_lock_free E then pure_run (Inl (ProvisionError ''Office provisioner is busy; no changes''))
        else bind_run (provision_sources E (fst x) (snd x)) (\<lambda>errors. pure_run (Inr (exit_code errors))))"
    have kr: "through (office_kept E) (run p) t" for p t
      using found by (auto simp: run_def intro!: office_runs.pure office_runs.bind_all k)
    from r False have b: "bind_run (checked_directory (RUNTIME_BASE @ [''office''])) run s = (tr1, Inr 0)" by (auto simp: run_def pure_run_def split: if_split_asm)
    have "through (office_kept E) (bind_run (checked_directory (RUNTIME_BASE @ [''office''])) run) s"
      by (rule office_runs.bind_all [OF _ kr]) simp
    with b have "tr1 \<noteq> []" "hd tr1 = s" by (simp_all add: through_def)
    then have l1: "last tr = last tr1" using l by (cases tr1) auto
    from office_runs.bind_done [OF b kr] obtain p t tr2 where "run p t = (tr2, Inr 0)" and l2: "last tr1 = last tr2" by metis
    then have "bind_run (provision_sources E (fst x) (snd x)) (\<lambda>errors. pure_run (Inr (exit_code errors))) t = (tr2, Inr 0)"
      by (auto simp: run_def pure_run_def split: if_split_asm)
    from office_runs.bind_done [OF this office_runs.pure] obtain tr3 errors tr4
      where p: "provision_sources E (fst x) (snd x) t = (tr3, Inr errors)"
        and q: "pure_run (Inr (exit_code errors)) (last tr3) = (tr4, Inr 0)" and l3: "last tr2 = last tr4" by metis
    from q have "errors = []" "last tr4 = last tr3" by (auto simp: pure_run_def exit_code_def split: if_split_asm)
    with sources_done [OF assms(2) _ p [unfolded this(1)]] found
    have "snd x = []" "list_all (\<lambda>(digest, _). \<exists>g. routed E digest (last tr) g) (fst x)" using l1 l2 l3 by auto
    with d show ?thesis by blast
  qed
qed

text \<open>
  C35: A run that reports success has provisioned every installation.  When the exit code is 0, then for
  every Office application either its shader archive is absent, or the archive holds a valid shader
  library and the route of that library leads to a verified pair of files.
\<close>

theorem office_provisioned:
  assumes "provision_office E s = (tr, Inr 0)" and "office_ok E" and "application \<in> set APPLICATIONS"
    and "checked_path s (archive_path application) \<noteq> Inl (OSError ''FileNotFoundError'')"
  shows "\<exists>data g. archive_source E s (archive_path application) = Inr data \<and> routed E (oe_sha E data) (last tr) g"
proof -
  from all_sources_routed [OF assms(1,2)] obtain x where x: "discover E s = Inr x" "snd x = []"
    and r: "list_all (\<lambda>(digest, _). \<exists>g. routed E digest (last tr) g) (fst x)" by blast
  from discover_done [OF x(1)] assms(3) have "accounted E s x application" by (simp add: list_all_iff)
  with x(2) assms(4) obtain data where "archive_source E s (archive_path application) = Inr data"
    "map_of (fst x) (oe_sha E data) = Some data" by (auto simp: accounted_def)
  with r show ?thesis by (auto simp: list_all_iff dest!: map_of_SomeD)
qed

text \<open>One installed application, no translation yet.\<close>

definition sample_generation :: string where "sample_generation = replicate 32 CHR ''a''"

definition sample_route_manifest :: "(string \<times> pyval) list" where
  "sample_route_manifest = (case build_runtime_manifest (\<lambda>b. if b = MTLB then ''d'' else ''t'') MTLB (MTLB @ [1])
       (posix_string (generation_path ''d'' ''source'' sample_generation))
       (posix_string (generation_path ''d'' ''translated'' sample_generation)) OFFICE_PROFILE
       [\<lparr>fr_name = ''f'', fr_selected = True, fr_type = None, fr_constants = [], fr_lowerings = [],
          fr_input_sha256 = ''1'', fr_output_sha256 = ''2''\<rparr>] of Inr m \<Rightarrow> m | Inl _ \<Rightarrow> [])"

definition sample_route :: pyval where
  "sample_route = PDict (py_set sample_route_manifest ''requires_source_identity'' (PBool True))"

definition sample_office :: office_env where
  "sample_office = \<lparr>oe_sha = (\<lambda>b. if b = MTLB then ''d'' else ''t''),
     oe_loads = (\<lambda>b. if b = [1] then Inr (PDict sample_route_manifest) else if b = [2] then Inr (plist_sorted sample_route) else Inl ExpatError),
     oe_dumps = (\<lambda>v. if v = sample_route then Inr [2] else Inl TypeError),
     oe_zip = (\<lambda>_. Inr [\<lparr>ze_filename = ''Metal2DShaders.metallib'', ze_attributes = 0, ze_flags = 0, ze_compression = 8, ze_size = 4\<rparr>]),
     oe_member = (\<lambda>_ _. Inr MTLB),
     oe_translate = (\<lambda>_ _ _. ([(''translated-'' @ sample_generation @ ''.metallib'', MTLB @ [1]), (''route.plist'', [1])], True)),
     oe_slow = (\<lambda>_. False), oe_generation = (\<lambda>_. sample_generation), oe_temporary = (\<lambda>_. ''x''),
     oe_arguments_ok = True, oe_tools_ok = True, oe_lock_free = True\<rparr>"

definition sample_root :: office_fs where
  "sample_root = \<lparr>of_nodes = map (\<lambda>k. (take k (archive_path ''Microsoft Word.app''), OFolder)) [1, 2, 3, 4, 5] @
       (archive_path ''Microsoft Word.app'', OFile [80] 420) #
       map (\<lambda>k. (take k (cache_path ''d''), OFolder)) [1, 2, 3, 4, 5, 6, 7] @ [(RUNTIME_BASE @ [''routes''], OFolder)],
     of_dirty = {}, of_loose = {}\<rparr>"

lemma sample_office_ok: "office_ok sample_office"
  by (auto simp: office_ok_def plist_io_def sample_office_def generation_ok_def sample_generation_def hex_digits_def
      split: if_split_asm)

lemma node_store_here: "node_at (store_bytes bs p s) q =
  (if q = p then Some (OFile bs (case node_at s p of Some (OFile _ m) \<Rightarrow> m | _ \<Rightarrow> 420)) else node_at s q)"
  by (simp add: node_at_def store_bytes_def)

lemma node_set_mode_here: "node_at (set_mode m p s) q =
  (if q = p then (case node_at s p of Some (OFile bs _) \<Rightarrow> Some (OFile bs m) | n \<Rightarrow> n) else node_at s q)"
  by (auto simp: node_at_def set_mode_def split: option.splits onode.splits)

lemma sample_nodes:
  "node_at sample_root p = map_of
     [([''Applications''], OFolder), ([''Applications'', ''Microsoft Word.app''], OFolder),
      ([''Applications'', ''Microsoft Word.app'', ''Contents''], OFolder),
      ([''Applications'', ''Microsoft Word.app'', ''Contents'', ''Resources''], OFolder),
      ([''Applications'', ''Microsoft Word.app'', ''Contents'', ''Resources'', ''Arc.bundle''], OFolder),
      ([''Applications'', ''Microsoft Word.app'', ''Contents'', ''Resources'', ''Arc.bundle'', ''Metal2DShaders.metallib.zip''], OFile [80] 420),
      ([''usr''], OFolder), ([''usr'', ''local''], OFolder), ([''usr'', ''local'', ''share''], OFolder),
      ([''usr'', ''local'', ''share'', ''macws''], OFolder), ([''usr'', ''local'', ''share'', ''macws'', ''metal2metal''], OFolder),
      ([''usr'', ''local'', ''share'', ''macws'', ''metal2metal'', ''office''], OFolder),
      ([''usr'', ''local'', ''share'', ''macws'', ''metal2metal'', ''office'', ''d''], OFolder),
      ([''usr'', ''local'', ''share'', ''macws'', ''metal2metal'', ''routes''], OFolder)] p"
  by (simp add: node_at_def sample_root_def archive_path_def ARCHIVE_RELATIVE_def cache_path_def RUNTIME_BASE_def)

lemma sample_checked:
  "checked_path sample_root (archive_path ''Microsoft Word.app'') = Inr (archive_path ''Microsoft Word.app'')"
  "checked_path sample_root (archive_path ''Microsoft PowerPoint.app'') = Inl (OSError ''FileNotFoundError'')"
  "checked_path sample_root (archive_path ''Microsoft Excel.app'') = Inl (OSError ''FileNotFoundError'')"
  by (simp_all add: checked_path_def relative_ok_def archive_path_def ARCHIVE_RELATIVE_def component_ok_def sample_nodes)

lemma sample_source: "archive_source sample_office sample_root (archive_path ''Microsoft Word.app'') = Inr MTLB"
  by (simp add: archive_source_def read_bounded_def sample_nodes archive_path_def ARCHIVE_RELATIVE_def MAX_ARTIFACT_def
    sample_office_def ENTRY_NAMES_def ends_def starts_def MTLB_def)

lemma sample_discover: "discover sample_office sample_root = Inr ([(''d'', MTLB)], [])"
  by (simp add: discover_def APPLICATIONS_def discover_one_def sample_checked sample_source) (simp add: sample_office_def)

lemma sample_directories:
  "checked_directory (RUNTIME_BASE @ [''office'']) sample_root = ([sample_root], Inr (RUNTIME_BASE @ [''office'']))"
  "checked_directory (RUNTIME_BASE @ [''routes'']) sample_root = ([sample_root], Inr (RUNTIME_BASE @ [''routes'']))"
  "checked_directory (cache_path ''d'') sample_root = ([sample_root], Inr (cache_path ''d''))"
  by (simp_all add: checked_directory_def relative_ok_def cache_path_def RUNTIME_BASE_def bind_run_def pure_run_def look_def
      sample_nodes component_ok_def)

lemma sample_invalid: "cache_valid sample_office ''d'' (route_path ''d'') sample_root = Inr False"
  by (simp add: cache_valid_def read_bounded_def sample_nodes route_path_def RUNTIME_BASE_def)

definition sample_scratch :: cpath where "sample_scratch = scratch_dir ''d'' ''x''"

lemma sample_scratch_free: "node_at sample_root (cache_path ''d'' @ [''.build-x'']) = None"
  by (simp add: sample_nodes cache_path_def RUNTIME_BASE_def)

lemma sample_manifest_fields:
  "py_get sample_route_manifest ''source'' = PDict (identity_of (oe_sha sample_office) MTLB @
     [(''runtime_path'', PStr (posix_string (generation_path ''d'' ''source'' sample_generation))), (''function_names'', PList [PStr ''f''])])"
  "py_get sample_route_manifest ''output'' = PDict (identity_of (oe_sha sample_office) (MTLB @ [1]) @
     [(''runtime_path'', PStr (posix_string (generation_path ''d'' ''translated'' sample_generation)))])"
  "py_get sample_route_manifest ''profile'' = PStr OFFICE_PROFILE"
  by (simp_all add: sample_route_manifest_def build_runtime_manifest_def sample_office_def py_get_def)

lemma sample_files_apart:
  "sample_scratch @ [''source-'' @ g @ ''.metallib''] \<noteq> sample_scratch @ [''translated-'' @ g' @ ''.metallib'']"
  "sample_scratch @ [''source-'' @ g @ ''.metallib''] \<noteq> sample_scratch @ [''route.plist'']"
  "sample_scratch @ [''translated-'' @ g @ ''.metallib''] \<noteq> sample_scratch @ [''route.plist'']"
  by simp_all

lemma sample_manifest_header:
  "py_get sample_route_manifest ''schema_version'' = PInt MANIFEST_SCHEMA_VERSION"
  "py_get sample_route_manifest ''translator'' = PStr TRANSLATOR_NAME"
  "py_get sample_route_manifest ''translator_version'' = PInt TRANSLATOR_VERSION"
  "py_get sample_route_manifest ''translation'' = PDict
     [(''selection_policy'', PStr ''all-functions''), (''source_function_count'', PInt 1),
      (''translated_function_count'', PInt 1), (''complete'', PBool True)]"
  "\<exists>v. py_get sample_route_manifest ''translated_functions'' = PDict [(''f'', v)]"
  by (simp_all add: sample_route_manifest_def build_runtime_manifest_def sample_office_def py_get_def)

definition sample_sorted :: "(string \<times> pyval) list" where
  "sample_sorted = sort_key fst (map (\<lambda>(k, v). (k, plist_sorted v)) (py_set sample_route_manifest ''requires_source_identity'' (PBool True)))"

lemma sample_sorted_get: "py_get sample_sorted k = plist_sorted (if k = ''requires_source_identity'' then PBool True else py_get sample_route_manifest k)"
  by (simp add: sample_sorted_def py_get_sorted py_get_py_set)

lemma sample_pair_verified: "verify_runtime_manifest (oe_sha sample_office) (PDict sample_sorted) MTLB (MTLB @ [1]) = Inr sample_sorted"
proof -
  obtain v where v: "py_get sample_route_manifest ''translated_functions'' = PDict [(''f'', v)]" using sample_manifest_header(5) by blast
  have "load_runtime_manifest (PDict sample_sorted) = Inr sample_sorted"
    by (simp add: load_runtime_manifest_def sample_sorted_get sample_manifest_header sample_manifest_fields v
        py_get_sorted plist_text_def identity_of_def del: plist_sorted.simps(1)) (simp add: py_get_def plist_text_def)
  then show ?thesis
    by (simp add: verify_runtime_manifest_def verify_artifact_Inr sample_sorted_get sample_manifest_fields identity_of_def)
      (simp add: py_get_def)
qed

definition sample_start :: office_fs where
  "sample_start = put_entry sample_scratch OFolder sample_root"

definition sample_source_file :: cpath where "sample_source_file = sample_scratch @ [''source-'' @ sample_generation @ ''.metallib'']"
definition sample_output_file :: cpath where "sample_output_file = sample_scratch @ [''translated-'' @ sample_generation @ ''.metallib'']"
definition sample_manifest_file :: cpath where "sample_manifest_file = sample_scratch @ [''route.plist'']"

lemma sample_apart [simp]:
  "sample_source_file \<noteq> sample_output_file" "sample_source_file \<noteq> sample_manifest_file" "sample_output_file \<noteq> sample_manifest_file"
  "sample_output_file \<noteq> sample_source_file" "sample_manifest_file \<noteq> sample_source_file" "sample_manifest_file \<noteq> sample_output_file"
  by (simp_all add: sample_source_file_def sample_output_file_def sample_manifest_file_def)

definition sample_built :: office_fs where
  "sample_built = fold (\<lambda>(p, bs) s. store_bytes bs p (store_bytes [] p s))
     [(sample_source_file, MTLB), (sample_output_file, MTLB @ [1]), (sample_manifest_file, [1])] sample_start"

lemma sample_built_nodes:
  "node_at sample_built sample_source_file = Some (OFile MTLB 420)"
  "node_at sample_built sample_output_file = Some (OFile (MTLB @ [1]) 420)"
  "node_at sample_built sample_manifest_file = Some (OFile [1] 420)"
  "node_at sample_start sample_source_file = None"
proof -
  have n: "node_at sample_start (sample_scratch @ [x]) = None" for x
    by (simp add: sample_start_def sample_nodes sample_scratch_def scratch_dir_def cache_path_def RUNTIME_BASE_def)
  have "node_at sample_start sample_source_file = None" "node_at sample_start sample_output_file = None"
    "node_at sample_start sample_manifest_file = None"
    by (simp_all only: sample_source_file_def sample_output_file_def sample_manifest_file_def n)
  then show "node_at sample_built sample_source_file = Some (OFile MTLB 420)"
    "node_at sample_built sample_output_file = Some (OFile (MTLB @ [1]) 420)"
    "node_at sample_built sample_manifest_file = Some (OFile [1] 420)" "node_at sample_start sample_source_file = None"
    by (simp_all add: sample_built_def node_store_here)
qed

lemma write_bytes_run: "write_bytes p bs s = ([s, store_bytes [] p s, store_bytes bs p (store_bytes [] p s)], Inr ())"
  by (simp add: write_bytes_def bind_run_def act_def)

lemma sample_outputs_checked:
  "check_outputs sample_office MTLB sample_source_file sample_output_file sample_manifest_file
     (posix_string (generation_path ''d'' ''source'' sample_generation))
     (posix_string (generation_path ''d'' ''translated'' sample_generation)) sample_built =
   Inr (py_set sample_route_manifest ''requires_source_identity'' (PBool True))"
proof -
  have "oe_loads sample_office [1] = Inr (PDict sample_route_manifest)" by (simp add: sample_office_def)
  moreover have "length MTLB = 4" "starts MTLB (MTLB @ [1])" by (simp add: MTLB_def, rule starts_append)
  ultimately show ?thesis
    by (simp add: check_outputs_def read_bounded_def sample_built_nodes MAX_ARTIFACT_def MAX_MANIFEST_def sample_manifest_fields
        is_dict_def runtime_of_def) (simp add: identity_of_def py_get_def)
qed

definition sample_written :: office_fs where
  "sample_written = store_bytes [2] sample_manifest_file (store_bytes [] sample_manifest_file sample_built)"

definition sample_source_name :: cpath where "sample_source_name = generation_path ''d'' ''source'' sample_generation"
definition sample_output_name :: cpath where "sample_output_name = generation_path ''d'' ''translated'' sample_generation"

lemma sample_written_nodes:
  "node_at sample_written sample_source_file = Some (OFile MTLB 420)"
  "node_at sample_written sample_output_file = Some (OFile (MTLB @ [1]) 420)"
  "node_at sample_written sample_manifest_file = Some (OFile [2] 420)"
  by (simp_all add: sample_written_def node_store_here sample_built_nodes)

lemma sample_names_apart [simp]:
  "sample_source_file \<noteq> sample_source_name" "sample_source_name \<noteq> sample_source_file" "sample_output_file \<noteq> sample_source_name"
  "sample_source_name \<noteq> sample_output_file" "sample_manifest_file \<noteq> sample_source_name" "sample_source_name \<noteq> sample_manifest_file"
  "sample_scratch \<noteq> sample_source_name" "sample_source_name \<noteq> sample_scratch" "sample_source_file \<noteq> sample_output_name"
  "sample_output_name \<noteq> sample_source_file" "sample_output_file \<noteq> sample_output_name" "sample_output_name \<noteq> sample_output_file"
  "sample_manifest_file \<noteq> sample_output_name" "sample_output_name \<noteq> sample_manifest_file" "sample_scratch \<noteq> sample_output_name"
  "sample_output_name \<noteq> sample_scratch" "sample_source_file \<noteq> route_path ''d''" "route_path ''d'' \<noteq> sample_source_file"
  "sample_output_file \<noteq> route_path ''d''" "route_path ''d'' \<noteq> sample_output_file" "sample_manifest_file \<noteq> route_path ''d''"
  "route_path ''d'' \<noteq> sample_manifest_file" "sample_scratch \<noteq> route_path ''d''" "route_path ''d'' \<noteq> sample_scratch"
  "sample_source_name \<noteq> sample_output_name" "sample_source_name \<noteq> route_path ''d''" "sample_output_name \<noteq> sample_source_name"
  "sample_output_name \<noteq> route_path ''d''" "route_path ''d'' \<noteq> sample_source_name" "route_path ''d'' \<noteq> sample_output_name"
  by (simp_all add: sample_source_file_def sample_output_file_def sample_manifest_file_def sample_source_name_def sample_output_name_def
      generation_path_def sample_scratch_def scratch_dir_def cache_path_def RUNTIME_BASE_def route_path_def)

lemma sample_free:
  "node_at sample_written sample_source_name = None" "node_at sample_written sample_output_name = None"
  "node_at sample_written (route_path ''d'') = None"
proof -
  have "node_at sample_written q = None"
    if "q \<notin> {sample_source_file, sample_output_file, sample_manifest_file, sample_scratch}" "node_at sample_root q = None" for q
    using that by (simp add: sample_written_def sample_built_def sample_start_def node_store_here)
  moreover have "node_at sample_root sample_source_name = None" "node_at sample_root sample_output_name = None"
    "node_at sample_root (route_path ''d'') = None"
    by (simp_all add: sample_nodes sample_source_name_def sample_output_name_def generation_path_def cache_path_def RUNTIME_BASE_def route_path_def)
  ultimately show "node_at sample_written sample_source_name = None" "node_at sample_written sample_output_name = None"
    "node_at sample_written (route_path ''d'') = None" by simp_all
qed

lemma sample_verify_run: "verify_tool sample_office sample_written sample_manifest_file sample_source_file sample_output_file = Inr ()"
proof -
  have "oe_loads sample_office [2] = Inr (PDict sample_sorted)" by (simp add: sample_office_def sample_route_def sample_sorted_def)
  moreover have "''profile'' \<in> set (map fst sample_sorted)"
  proof (rule ccontr)
    assume "''profile'' \<notin> set (map fst sample_sorted)"
    then have "map_of sample_sorted ''profile'' = None" by (auto simp: map_of_eq_None_iff)
    then have "py_get sample_sorted ''profile'' = PNone" by (simp add: py_get_def)
    then show False by (simp add: sample_sorted_get sample_manifest_fields)
  qed
  ultimately show ?thesis
    by (simp add: verify_tool_def run_converter_def verifier_ok_def sample_written_nodes sample_pair_verified) (simp add: sample_office_def)
qed

lemma sample_route_published:
  "snd (publish_route sample_source_file sample_output_file sample_manifest_file sample_source_name sample_output_name
     (route_path ''d'') sample_written) = Inr ()"
  by (simp add: publish_route_def link_files_def settle_file_def sync_file_def sync_dir_def link_file_def replace_file_def
      bind_run_def act_def pure_run_def node_set_mode_here sample_written_nodes sample_free)

lemma sample_translate:
  "translate_tool sample_office sample_scratch d sp op s =
     (let s1 = store_bytes [] sample_output_file s; s2 = store_bytes (MTLB @ [1]) sample_output_file s1;
          s3 = store_bytes [] sample_manifest_file s2; s4 = store_bytes [1] sample_manifest_file s3
      in ([s, s1, s2, s3, s4], Inr ()))"
  by (simp add: translate_tool_def sample_office_def run_converter_def write_bytes_run bind_run_def pure_run_def look_def
      sample_output_file_def sample_manifest_file_def Let_def)

lemma sample_route_built:
  "snd (build_route sample_office ''d'' MTLB sample_generation sample_scratch sample_start) = Inr ()"
proof -
  have d: "oe_dumps sample_office (PDict (py_set sample_route_manifest ''requires_source_identity'' (PBool True))) = Inr [2]"
    by (simp add: sample_office_def sample_route_def)
  have n: "cache_path ''d'' @ [''source-'' @ sample_generation @ ''.metallib''] = sample_source_name"
    "cache_path ''d'' @ [''translated-'' @ sample_generation @ ''.metallib''] = sample_output_name"
    by (simp_all add: sample_source_name_def sample_output_name_def generation_path_def)
  have c: "check_outputs sample_office MTLB sample_source_file sample_output_file sample_manifest_file
     (posix_string sample_source_name) (posix_string sample_output_name) sample_built =
     Inr (py_set sample_route_manifest ''requires_source_identity'' (PBool True))"
    unfolding sample_source_name_def sample_output_name_def by (rule sample_outputs_checked)
  have b: "store_bytes [1] sample_manifest_file (store_bytes [] sample_manifest_file
       (store_bytes (MTLB @ [1]) sample_output_file (store_bytes [] sample_output_file
         (store_bytes MTLB sample_source_file (store_bytes [] sample_source_file sample_start))))) = sample_built"
    by (simp add: sample_built_def)
  show ?thesis
    unfolding build_route_def Let_def n sample_source_file_def [symmetric] sample_output_file_def [symmetric]
      sample_manifest_file_def [symmetric]
    using sample_route_published
    by (auto simp: bind_run_def [of "write_bytes _ _"] bind_run_def [of "translate_tool _ _ _ _ _"] bind_run_def [of "look _"]
        write_bytes_run sample_translate Let_def b look_def c d sample_written_def [symmetric] sample_verify_run split: prod.splits)
qed

lemma sample_provision: "snd (provision sample_office ''d'' MTLB sample_root) = Inr ()"
proof -
  have g: "oe_generation sample_office s = sample_generation" "oe_temporary sample_office s = ''x''" for s
    by (simp_all add: sample_office_def)
  have p: "cache_path ''d'' @ [''.build-x''] = sample_scratch" by (simp add: sample_scratch_def scratch_dir_def)
  have "node_at sample_root (route_path ''d'') = None"
    by (simp add: sample_nodes route_path_def RUNTIME_BASE_def)
  with sample_route_built sample_scratch_free show ?thesis
    by (auto simp: provision_def bind_run_def [of "checked_directory _"] bind_run_def [of "look _"] bind_run_def [of "act _"]
        sample_directories look_def sample_invalid with_scratch_def g p Let_def finally_run_def act_def
        sample_start_def [symmetric] split: prod.splits)
qed

lemma sample_office_run: "snd (provision_office sample_office sample_root) = Inr 0"
proof -
  have k: "oe_arguments_ok sample_office" "oe_tools_ok sample_office" "oe_lock_free sample_office" by (simp_all add: sample_office_def)
  show ?thesis
    using sample_provision
    by (auto simp: provision_office_def k catch_run_def bind_run_def look_def sample_discover sample_directories pure_run_def
        exit_code_def split: prod.splits)
qed

theorem office_provisioned_witness:
  "\<exists>tr data g. provision_office sample_office sample_root = (tr, Inr 0) \<and>
     archive_source sample_office sample_root (archive_path ''Microsoft Word.app'') = Inr data \<and>
     routed sample_office (oe_sha sample_office data) (last tr) g"
proof -
  from sample_office_run obtain tr where r: "provision_office sample_office sample_root = (tr, Inr 0)"
    by (cases "provision_office sample_office sample_root") auto
  have "''Microsoft Word.app'' \<in> set APPLICATIONS" by (simp add: APPLICATIONS_def)
  from office_provisioned [OF r sample_office_ok this] r show ?thesis by (auto simp: sample_checked)
qed

theorem office_crash_safe_witness:
  "\<exists>t g. office_history sample_office sample_root t \<and>
     node_at t (archive_path ''Microsoft Word.app'') = Some (OFile [80] 420) \<and> routed sample_office ''d'' t g \<and>
     settled t (generation_path ''d'' ''source'' g) \<and> settled t (generation_path ''d'' ''translated'' g) \<and>
     settled t (route_path ''d'')"
proof -
  from sample_office_run obtain tr where r: "provision_office sample_office sample_root = (tr, Inr 0)"
    by (cases "provision_office sample_office sample_root") auto
  have "tr \<noteq> []" using provision_office_kept [OF sample_office_ok, of sample_root] r by (simp add: through_def)
  with r have h: "office_history sample_office sample_root (last tr)"
    by (auto intro!: office_again [OF office_start sample_office_ok])
  from all_sources_routed [OF r sample_office_ok] obtain g where "routed sample_office ''d'' (last tr) g"
    by (auto simp: sample_discover)
  then have new: "node_at (last tr) (route_path ''d'') \<noteq> node_at sample_root (route_path ''d'')"
    by (auto simp: routed_def holds_def sample_nodes route_path_def RUNTIME_BASE_def)
  have "node_at sample_root (archive_path ''Microsoft Word.app'') = Some (OFile [80] 420)"
    "\<not> scratch_path (archive_path ''Microsoft Word.app'')" "\<not> is_route (archive_path ''Microsoft Word.app'')"
    by (simp_all add: sample_nodes archive_path_def ARCHIVE_RELATIVE_def scratch_path_def is_route_def route_path_def
        RUNTIME_BASE_def starts_def)
  with conjunct1 [OF office_crash_safe [OF h]] have "node_at (last tr) (archive_path ''Microsoft Word.app'') = Some (OFile [80] 420)" by blast
  moreover from conjunct1 [OF conjunct2 [OF office_crash_safe [OF h]]] new obtain g' where "routed sample_office ''d'' (last tr) g'"
    "settled (last tr) (generation_path ''d'' ''source'' g')" "settled (last tr) (generation_path ''d'' ''translated'' g')" by blast
  moreover from conjunct2 [OF conjunct2 [OF office_crash_safe [OF office_start]]] r new sample_office_ok
  have "settled (last tr) (route_path ''d'')" by blast
  ultimately show ?thesis using h by blast
qed

subsection \<open>A corrupt route stops the run\<close>

text \<open>The same installation with a route that is not well-formed XML.\<close>

definition sample_corrupt :: office_fs where
  "sample_corrupt = put_entry (route_path ''d'') (OFile [7] 420) sample_root"

lemma corrupt_nodes:
  "node_at sample_corrupt p = (if p = route_path ''d'' then Some (OFile [7] 420) else node_at sample_root p)"
  by (simp add: sample_corrupt_def)

lemma corrupt_find:
  "length (current @ parts) < 7 \<or> take 6 (current @ parts) \<noteq> RUNTIME_BASE @ [''routes''] \<Longrightarrow>
     find_parts sample_corrupt current parts = find_parts sample_root current parts"
proof (induction parts arbitrary: current)
  case (Cons part parts)
  have ne: "current @ [part] \<noteq> route_path ''d''" using Cons.prems by (auto simp: route_path_def RUNTIME_BASE_def)
  have "find_parts sample_corrupt (current @ [part]) parts = find_parts sample_root (current @ [part]) parts"
    by (rule Cons.IH) (use Cons.prems in simp)
  with ne show ?case by (simp add: corrupt_nodes cong: option.case_cong)
qed simp

lemma corrupt_discover: "discover sample_office sample_corrupt = Inr ([(''d'', MTLB)], [])"
proof -
  have "checked_path sample_corrupt (archive_path a) = checked_path sample_root (archive_path a)" for a
    unfolding checked_path_def using corrupt_find [of "[]" "archive_path a"]
    by (simp add: archive_path_def RUNTIME_BASE_def ARCHIVE_RELATIVE_def del: find_parts.simps)
  moreover have "archive_source sample_office sample_corrupt (archive_path a) = archive_source sample_office sample_root (archive_path a)" for a
    by (simp add: archive_source_def read_bounded_def corrupt_nodes archive_path_def route_path_def RUNTIME_BASE_def)
  ultimately show ?thesis
    by (simp add: discover_def APPLICATIONS_def discover_one_def sample_checked sample_source) (simp add: sample_office_def)
qed

lemma corrupt_directories:
  "checked_directory (RUNTIME_BASE @ [''office'']) sample_corrupt = ([sample_corrupt], Inr (RUNTIME_BASE @ [''office'']))"
  "checked_directory (RUNTIME_BASE @ [''routes'']) sample_corrupt = ([sample_corrupt], Inr (RUNTIME_BASE @ [''routes'']))"
  "checked_directory (cache_path ''d'') sample_corrupt = ([sample_corrupt], Inr (cache_path ''d''))"
  by (simp_all add: checked_directory_def relative_ok_def cache_path_def RUNTIME_BASE_def bind_run_def pure_run_def look_def
      corrupt_nodes sample_nodes component_ok_def route_path_def)

text \<open>The directories provisioning works in, when they are there.\<close>

definition folders :: "office_fs \<Rightarrow> cpath \<Rightarrow> bool" where
  "folders s p \<longleftrightarrow> relative_ok p \<and> (\<forall>k. 0 < k \<and> k \<le> length p \<longrightarrow> node_at s (take k p) = Some OFolder)"

lemma folders_there:
  assumes "folders s p"
  shows "checked_directory p s = ([s], Inr p)"
proof -
  have "make_parts current parts s = ([s], Inr (current @ parts))"
    if "\<And>k. 0 < k \<Longrightarrow> k \<le> length parts \<Longrightarrow> node_at s (current @ take k parts) = Some OFolder" for current parts
    using that
  proof (induction parts arbitrary: current)
    case (Cons part parts)
    have p: "node_at s (current @ [part]) = Some OFolder" using Cons.prems [of 1] by simp
    have "make_parts (current @ [part]) parts s = ([s], Inr ((current @ [part]) @ parts))"
      by (rule Cons.IH) (use Cons.prems [of "Suc _"] in auto)
    with p show ?case by (simp add: bind_run_def pure_run_def look_def component_ok_def)
  qed (simp add: pure_run_def)
  from this [of p "[]"] assms show ?thesis by (simp add: folders_def checked_directory_def)
qed

lemma folders_prefix:
  assumes "folders s (p @ q)"
  shows "folders s p"
proof -
  have "node_at s (take k p) = Some OFolder" if "0 < k" "k \<le> length p" for k
    using assms that unfolding folders_def by (auto dest!: spec [of _ k])
  with assms show ?thesis by (cases p) (auto simp: folders_def relative_ok_def)
qed

lemma folders_kept:
  assumes "office_kept E s t" and "folders s p" and "\<And>k. \<not> scratch_path (take k p)" and "\<And>k. \<not> is_route (take k p)"
  shows "folders t p"
  using assms(2) kept_file [OF assms(1,3,4)] unfolding folders_def by blast

definition corrupt_route :: "office_env \<Rightarrow> office_fs \<Rightarrow> string \<Rightarrow> bool" where
  "corrupt_route E s digest \<longleftrightarrow> (\<exists>raw m. node_at s (route_path digest) = Some (OFile raw m) \<and> length raw \<le> MAX_MANIFEST \<and>
     oe_loads E raw = Inl ExpatError)"

lemma provision_corrupt:
  assumes "corrupt_route E s digest" and "folders s (cache_path digest)" and "folders s (RUNTIME_BASE @ [''routes''])"
  shows "provision E digest data s = ([s], Inl ExpatError)"
proof -
  from assms(1) have "cache_valid E digest (route_path digest) s = Inl ExpatError" "node_at s (route_path digest) \<noteq> Some OLink"
    by (auto simp: corrupt_route_def cache_valid_def read_bounded_def is_value_error_def)
  then show ?thesis by (simp add: provision_def folders_there [OF assms(2)] folders_there [OF assms(3)] bind_run_def look_def)
qed

lemma sources_append:
  assumes "provision_sources E xs errors s = (tr, Inr errors')"
    and "provision_sources E ys errors' (last tr) = ([last tr], Inl e)"
  shows "provision_sources E (xs @ ys) errors s = (tr, Inl e)"
  using assms
proof (induction xs arbitrary: errors s tr)
  case Nil
  then show ?case by (auto simp: pure_run_def)
next
  case (Cons x xs)
  obtain digest data where x: "x = (digest, data)" by (cases x)
  let ?c = "catch_run source_caught (bind_run (provision E digest data) (\<lambda>_. pure_run (Inr errors))) (pure_run (Inr (errors @ [digest])))"
  from Cons.prems(1) obtain tr1 errors1 tr2 where c: "?c s = (tr1, Inr errors1)"
    and r: "provision_sources E xs errors1 (last tr1) = (tr2, Inr errors')" and tr: "tr = tr1 @ tl tr2"
    unfolding x provision_sources.simps last_bind by blast
  have "tr2 \<noteq> []" "hd tr2 = last tr1"
    using route_runs.sources_step [of xs E errors1 "last tr1"] r by (simp_all add: closes_def)
  moreover have "closes routes_synced ?c s"
    by (intro route_runs.closes_catch route_runs.closes_bind_all route_runs.provision_step route_runs.step_nothing) simp
  then have "tr1 \<noteq> []" using c by (simp add: closes_def)
  ultimately have "last tr = last tr2" unfolding tr by (intro route_runs.last_join)
  with Cons.IH [OF r] Cons.prems(2) have "provision_sources E (xs @ ys) errors1 (last tr1) = (tr2, Inl e)" by simp
  with c tr show ?case unfolding x append_Cons provision_sources.simps by (simp add: bind_run_def)
qed

lemma discover_distinct:
  assumes "discover E s = Inr x"
  shows "distinct (map fst (fst x))"
proof -
  have "distinct (map fst (fst y))" if "discover_one E s application x = Inr y" "distinct (map fst (fst x))" for application x y
    using that by (auto simp: discover_one_def simp del: set_map intro!: distinct_py_set split: sum.split_asm py_error.split_asm if_split_asm)
  then show ?thesis
    by (intro foldE_invariant [OF assms [unfolded discover_def], where I = "\<lambda>x. distinct (map fst (fst x))"]) auto
qed

text \<open>
  C36: A corrupt route is not rebuilt, it ends the whole run.  Consider any run in which one of the
  sources found has a route, of admissible size, that the property list reader rejects with the XML
  parser's exception, and in which the directories of that source and of the routes are there.  If the
  sources before it return, then the run raises that exception and what it does is exactly what they do:
  nothing is done for this source and those after it, and no handler of the program sees the exception.
\<close>

theorem corrupt_route_aborts:
  assumes run: "office_ok E" "oe_arguments_ok E" "oe_tools_ok E" "oe_lock_free E"
    and found: "discover E s = Inr (before @ (digest, data) # after, errors)"
    and corrupt: "corrupt_route E s digest" "folders s (cache_path digest)" "folders s (RUNTIME_BASE @ [''routes''])"
    and earlier: "provision_sources E before errors s = (tr, Inr errors')"
  shows "provision_office E s = (tr, Inl ExpatError)"
proof -
  have c: "closes (same_route digest) (provision_sources E before errors) s"
    using discover_distinct [OF found] by (intro other_routes.sources_step) auto
  then have tr: "tr \<noteq> []" "hd tr = s" and same: "node_at (last tr) (route_path digest) = node_at s (route_path digest)"
    using earlier by (simp_all add: closes_def same_route_def)
  have "list_all (\<lambda>(digest, data). oe_sha E data = digest) before" using discover_done [OF found] by simp
  from office_runs.at_last [OF sources_kept [OF run(1) this] earlier] have k: "office_kept E s (last tr)" .
  have "\<not> is_route (take k (cache_path digest))" "\<not> is_route (take k (RUNTIME_BASE @ [''routes'']))" for k
    using route_length [of "take k (cache_path digest)"] route_length [of "take k (RUNTIME_BASE @ [''routes''])"]
    by (cases "k \<le> 6"; simp add: min_def cache_path_def RUNTIME_BASE_def)+
  moreover have "\<not> scratch_path (take k (cache_path digest))" "\<not> scratch_path (take k (RUNTIME_BASE @ [''routes'']))" for k
    by (simp_all add: scratch_path_def cache_path_def RUNTIME_BASE_def)
  ultimately have f: "folders (last tr) (cache_path digest)" "folders (last tr) (RUNTIME_BASE @ [''routes''])"
    using folders_kept [OF k corrupt(2)] folders_kept [OF k corrupt(3)] by blast+
  have "corrupt_route E (last tr) digest" using corrupt(1) same by (simp add: corrupt_route_def)
  from provision_corrupt [OF this f]
  have "provision_sources E ((digest, data) # after) errors' (last tr) = ([last tr], Inl ExpatError)"
    by (simp add: catch_run_def bind_run_def source_caught_def is_provision_error_def is_os_error_def is_value_error_def)
  note r = sources_append [OF earlier this]
  have "cache_path digest = (RUNTIME_BASE @ [''office'']) @ [digest]" by (simp add: cache_path_def)
  then have "folders s (RUNTIME_BASE @ [''office''])" using corrupt(2) folders_prefix by metis
  note o = folders_there [OF this]
  show ?thesis
    using tr run(2-4)
    by (cases tr) (simp_all add: provision_office_def catch_run_def bind_run_def look_def found o r
      source_caught_def is_provision_error_def is_os_error_def is_value_error_def del: provision_sources.simps)
qed

text \<open>In the installation above; without the corrupt route the same run provisions it.\<close>

theorem corrupt_route_aborts_witness:
  "provision_office sample_office sample_corrupt = ([sample_corrupt], Inl ExpatError) \<and>
   snd (provision_office sample_office sample_root) = Inr 0 \<and> node_at sample_root (route_path ''d'') = None"
proof (intro conjI)
  have e: "oe_arguments_ok sample_office" "oe_tools_ok sample_office" "oe_lock_free sample_office" by (simp_all add: sample_office_def)
  have c: "corrupt_route sample_office sample_corrupt ''d''"
    by (simp add: corrupt_route_def corrupt_nodes MAX_MANIFEST_def) (simp add: sample_office_def)
  have "folders sample_corrupt p" if "p = cache_path ''d'' \<or> p = RUNTIME_BASE @ [''routes'']" for p
    unfolding folders_def
  proof (intro conjI allI impI)
    show "relative_ok p" using that by (auto simp: relative_ok_def cache_path_def RUNTIME_BASE_def)
    fix k assume k: "0 < k \<and> k \<le> length p"
    then have "k \<in> {1, 2, 3, 4, 5, 6, 7}" using that by (auto simp: cache_path_def RUNTIME_BASE_def)
    then show "node_at sample_corrupt (take k p) = Some OFolder"
      using that k by (auto simp: corrupt_nodes sample_nodes cache_path_def RUNTIME_BASE_def route_path_def)
  qed
  then have f: "folders sample_corrupt (cache_path ''d'')" "folders sample_corrupt (RUNTIME_BASE @ [''routes''])" by simp_all
  show "provision_office sample_office sample_corrupt = ([sample_corrupt], Inl ExpatError)"
    by (rule corrupt_route_aborts [OF sample_office_ok e _ c f, where before = "[]" and after = "[]"])
      (simp_all add: corrupt_discover pure_run_def)
  show "node_at sample_root (route_path ''d'') = None" by (simp add: sample_nodes route_path_def RUNTIME_BASE_def)
qed (rule sample_office_run)

end
