(* ===== verification/Settings.thy ===== *)
theory Settings
  imports TrustScan ManagedJobs
begin

text \<open>
  \<^verbatim>\<open>macws_settings_verify.py\<close>: all prepared Settings panes are checked - their files, carriers, registration
  and signature markers - and their images admitted to the trust cache.  What the file system and the tools
  show (globs, property lists, modes, marker files, \<open>uicache -l\<close>, the files of the scan and their later
  identities) are parameters; the scan, the restoration and the manifest are those of \<^verbatim>\<open>TrustScan\<close>.
\<close>

unbundle bit_operations_syntax

definition ROOTFS :: string where "ROOTFS = ''/var/mnt/rootfs''"
definition EXTENSIONS :: string where "EXTENSIONS = ROOTFS @ ''/System/Library/ExtensionKit/Extensions''"
definition SETTINGS_PLUGINS :: string where
  "SETTINGS_PLUGINS = ROOTFS @ ''/System/Applications/System Settings.app/Contents/PlugIns''"
definition SETTINGS_BASE :: "string list" where
  "SETTINGS_BASE = [''/var/jb/usr/macOS/lib/libmachook.dylib'', ''/var/jb/usr/lib/libellekit.dylib'',
     ROOTFS @ ''/usr/lib/libobjc-trampolines.dylib'']"
definition SETTINGS_SCHEMA :: string where "SETTINGS_SCHEMA = ''macws-settings-extension-runtime-v2''"
definition CARRIER_ROOT :: string where "CARRIER_ROOT = ''/var/jb/Applications''"

text \<open>\<open>se_stat\<close>: whether a path, links followed, is a regular file, and its mode.\<close>

record 'c settings_env =
  se_uicache :: "string result"
  se_glob :: "string \<Rightarrow> string list"
  se_isfile :: "string \<Rightarrow> bool"
  se_plist :: "string \<Rightarrow> pyval result"
  se_stat :: "string \<Rightarrow> (bool \<times> nat) option"
  se_marker :: "string \<Rightarrow> string result"
  se_files :: "string list \<Rightarrow> observation list"
  se_scan :: scan_env
  se_manifest :: "manifest_file option"
  se_identity :: "string \<Rightarrow> identity option"
  se_device :: "'c trust_device"
  se_dir_owned :: bool
  se_dir_mode :: nat
  se_dumps :: "pyval \<Rightarrow> nat"

subsection \<open>The identity of an extension\<close>

text \<open>\<open>info.get(key, default)\<close> on what should be a dictionary.\<close>

definition dict_get :: "pyval \<Rightarrow> string \<Rightarrow> pyval \<Rightarrow> pyval result" where
  "dict_get v k otherwise =
     (case v of PDict kv \<Rightarrow> Inr (case map_of kv k of None \<Rightarrow> otherwise | Some w \<Rightarrow> w) | _ \<Rightarrow> Inl AttributeError)"

definition truth :: "pyval \<Rightarrow> bool" where
  "truth v =
     (case v of PNone \<Rightarrow> False | PBool b \<Rightarrow> b | PInt i \<Rightarrow> i \<noteq> 0 | PStr s \<Rightarrow> s \<noteq> [] | PData d \<Rightarrow> d \<noteq> []
      | PList vs \<Rightarrow> vs \<noteq> [] | PDict kv \<Rightarrow> kv \<noteq> [])"

definition base_name :: "string \<Rightarrow> string" where
  "base_name path = rev (takeWhile (\<lambda>c. c \<noteq> CHR ''/'') (rev path))"

definition identifier_char :: "char \<Rightarrow> bool" where
  "identifier_char c \<longleftrightarrow> (is_word_char c \<and> c \<noteq> CHR ''_'') \<or> c = CHR ''.'' \<or> c = CHR ''-''"

definition executable_candidates :: "'c settings_env \<Rightarrow> string \<Rightarrow> string list" where
  "executable_candidates E contents =
     map base_name (filter (\<lambda>path. se_isfile E path \<and> \<not> ends ''.macws-preload-backup'' path \<and> \<not> contains ''.new-'' path)
       (se_glob E (contents @ ''/MacOS/*'')))"

definition extension_metadata :: "'c settings_env \<Rightarrow> string \<Rightarrow> (string \<times> string) option result" where
  "extension_metadata E bundle =
     (let contents = bundle @ ''/Contents'' in
      bindE (se_plist E (contents @ ''/Info.plist'')) (\<lambda>info.
      bindE (dict_get info ''EXAppExtensionAttributes'' (PDict [])) (\<lambda>attributes.
      bindE (dict_get attributes ''EXExtensionPointIdentifier'' PNone) (\<lambda>point.
      if point \<noteq> PStr ''com.apple.Settings.extension.ui'' then Inr None
      else
      bindE (dict_get info ''CFBundleIdentifier'' (PStr '''')) (\<lambda>identifier.
      bindE (dict_get info ''CFBundleExecutable'' (PStr '''')) (\<lambda>named.
      bindE (if truth named then Inr named
             else case executable_candidates E contents of
               [one] \<Rightarrow> Inr (PStr one)
             | _ \<Rightarrow> Inl (ValueError ''ambiguous Settings executable: '')) (\<lambda>executable.
      case identifier of
        PStr i \<Rightarrow>
          if i = [] \<or> \<not> list_all identifier_char i then Inl (ValueError ''invalid Settings identity: '')
          else (case executable of
             PStr x \<Rightarrow> if CHR ''/'' \<in> set x \<or> x \<in> {''.'', ''..''} then Inl (ValueError ''invalid Settings identity: '')
                       else Inr (Some (i, contents @ ''/MacOS/'' @ x))
           | _ \<Rightarrow> Inl (ValueError ''invalid Settings identity: ''))
      | _ \<Rightarrow> Inl TypeError)))))))"

text \<open>\<open>selected\<close>: the hash of the arm64e slice, else of the arm64 slice.\<close>

definition selected :: "(string \<times> identity \<times> code_record list) list \<Rightarrow> string \<Rightarrow> string result" where
  "selected recs path =
     (let codes = (case map_of recs path of None \<Rightarrow> [] | Some r \<Rightarrow> snd r) in
      case find (\<lambda>c. arch c = ''arm64e'') codes of
        Some c \<Rightarrow> Inr (chash c)
      | None \<Rightarrow>
          (case find (\<lambda>c. arch c = ''arm64'') codes of
             Some c \<Rightarrow> Inr (chash c)
           | None \<Rightarrow> Inl (ValueError ''missing signed arm64 image: '')))"

subsection \<open>One pane\<close>

fun split_at_bar :: "string \<Rightarrow> string \<Rightarrow> string list" where
  "split_at_bar word [] = [rev word]"
| "split_at_bar word (c # s) = (if c = CHR ''|'' then rev word # split_at_bar [] s else split_at_bar (c # word) s)"

definition carrier_id :: "string \<Rightarrow> string" where
  "carrier_id identifier = ''com.macwsguide.settings-extension-carrier.'' @ identifier"

definition carrier_path :: "string \<Rightarrow> string" where
  "carrier_path identifier = CARRIER_ROOT @ ''/MacWSSettingsExtension-'' @ identifier @ ''.app''"

definition dependencies_of_pane :: "string \<Rightarrow> string \<Rightarrow> string \<Rightarrow> string list" where
  "dependencies_of_pane bundle identifier executable =
     (let frameworks = bundle @ ''/Contents/Frameworks'' in
      [executable, carrier_path identifier @ ''/SettingsExtensionProxy'', frameworks @ ''/libmachook.dylib'',
       frameworks @ ''/.jbroot/Library/Frameworks/CydiaSubstrate.framework/CydiaSubstrate'',
       frameworks @ ''/libobjc-trampolines.dylib''])"

definition check_dependency :: "'c settings_env \<Rightarrow> nat \<times> string \<Rightarrow> unit \<Rightarrow> unit result" where
  "check_dependency E d _ =
     (case se_stat E (snd d) of
        None \<Rightarrow> Inl (OSError ''stat'')
      | Some (regular, m) \<Rightarrow>
          if \<not> regular \<or> (fst d < 2 \<and> m AND 73 = 0) then Inl (ValueError ''missing executable/dependency: '')
          else if fst d = 1 \<and> m AND 2048 = 0 then Inl (ValueError ''carrier lost setuid: '')
          else Inr ())"

definition registered :: "string \<Rightarrow> string \<Rightarrow> bool" where
  "registered ui identifier \<longleftrightarrow> list_ex (starts (carrier_id identifier @ '' : '')) (split_lines [] ui)"

record pane =
  pane_identifier :: string
  pane_dependencies :: "string list"
  pane_marker :: "string list"

definition inspect_pane :: "'c settings_env \<Rightarrow> string \<Rightarrow> string \<Rightarrow> string \<Rightarrow> string \<Rightarrow> pane result" where
  "inspect_pane E ui bundle identifier executable =
     (let dependencies = dependencies_of_pane bundle identifier executable in
      bindE (foldE (check_dependency E) (enumerate 0 dependencies) ()) (\<lambda>_.
      bindE (se_plist E (carrier_path identifier @ ''/Info.plist'')) (\<lambda>info.
      bindE (dict_get info ''CFBundleIdentifier'' PNone) (\<lambda>owner.
      if owner \<noteq> PStr (carrier_id identifier) then Inl (ValueError ''wrong carrier identity: '')
      else if \<not> registered ui identifier then Inl (ValueError ''carrier not registered with iOS: '')
      else
      bindE (se_marker E (bundle @ ''/Contents/Frameworks/.macws-settings-runtime'')) (\<lambda>stored.
      let marker = split_at_bar [] (strip (take 1024 stored)) in
      if length marker \<noteq> 9 \<or> marker ! 0 \<noteq> SETTINGS_SCHEMA then Inl (ValueError ''invalid Settings runtime marker: '')
      else Inr \<lparr>pane_identifier = identifier, pane_dependencies = dependencies, pane_marker = marker\<rparr>)))))"

definition collect_pane :: "'c settings_env \<Rightarrow> string \<Rightarrow> string \<Rightarrow> pane list \<Rightarrow> pane list result" where
  "collect_pane E ui bundle panes =
     (if \<not> se_isfile E (bundle @ ''/Contents/Info.plist'') then Inr panes
      else
      bindE (extension_metadata E bundle) (\<lambda>metadata.
      case metadata of
        None \<Rightarrow> Inr panes
      | Some (identifier, executable) \<Rightarrow>
          bindE (inspect_pane E ui bundle identifier executable) (\<lambda>p. Inr (panes @ [p]))))"

definition bundles :: "'c settings_env \<Rightarrow> string list" where
  "bundles E = sort (se_glob E (EXTENSIONS @ ''/*.appex'') @ se_glob E (SETTINGS_PLUGINS @ ''/*.appex''))"

subsection \<open>The verification\<close>

definition check_pane :: "(string \<times> identity \<times> code_record list) list \<Rightarrow> string list \<Rightarrow> pane \<Rightarrow> unit \<Rightarrow> unit result" where
  "check_pane recs base p _ =
     (if take 3 (drop 1 (pane_marker p)) \<noteq> base then Inl (ValueError ''Settings dependency signature changed: '')
      else
      bindE (mapE (selected recs) (pane_dependencies p)) (\<lambda>hs.
      if take 5 (drop 4 (pane_marker p)) \<noteq> hs then Inl (ValueError ''Settings dependency signature changed: '')
      else Inr ()))"

definition still_verified :: "'c settings_env \<Rightarrow> string \<times> identity \<times> code_record list \<Rightarrow> unit \<Rightarrow> unit result" where
  "still_verified E r _ =
     (case se_identity E (fst r) of
        None \<Rightarrow> Inl (OSError ''stat'')
      | Some k \<Rightarrow> if k \<noteq> fst (snd r) then Inl (ValueError ''Settings image changed during verification: '') else Inr ())"

record 'c verified_settings =
  vs_panes :: "pane list"
  vs_records :: "(string \<times> identity \<times> code_record list) list"
  vs_added :: "nat \<times> string"
  vs_trust :: 'c
  vs_manifest :: manifest_file

definition verify_settings :: "'c settings_env \<Rightarrow> 'c \<Rightarrow> 'c verified_settings result" where
  "verify_settings E c =
     bindE (se_uicache E) (\<lambda>ui.
     bindE (foldE (collect_pane E ui) (bundles E) []) (\<lambda>panes.
     if panes = [] then Inl (ValueError ''no Settings UI extensions verified'')
     else
     bindE (scan (se_scan E) (map_of (load_cache (se_manifest E)))
        (se_files E (SETTINGS_BASE @ concat (map pane_dependencies panes))) None) (\<lambda>st.
     bindE (mapE (selected (records st)) SETTINGS_BASE) (\<lambda>base.
     bindE (foldE (check_pane (records st) base) panes ()) (\<lambda>_.
     bindE (foldE (still_verified E) (records st) ()) (\<lambda>_.
     bindE (restore (se_device E) (hashes st) False c) (\<lambda>(added, c').
     bindE (save_cache (se_dumps E) (se_dir_owned E) (se_dir_mode E) (map (\<lambda>(p, r). (p, encode_record r)) (records st))) (\<lambda>mf.
     Inr \<lparr>vs_panes = panes, vs_records = records st, vs_added = added, vs_trust = c', vs_manifest = mf\<rparr>))))))))"

subsection \<open>What a verified pane is\<close>

text \<open>The images of a pane as the file system shows them.\<close>

definition pane_files_ok :: "'c settings_env \<Rightarrow> pane \<Rightarrow> bool" where
  "pane_files_ok E p \<longleftrightarrow>
     (\<forall>i < 5. \<exists>m. se_stat E (pane_dependencies p ! i) = Some (True, m) \<and>
        (i < 2 \<longrightarrow> m AND 73 \<noteq> 0) \<and> (i = 1 \<longrightarrow> m AND 2048 \<noteq> 0))"

lemma check_dependencies:
  assumes "foldE (check_dependency E) (enumerate k ds) () = Inr ()" and "i < length ds"
  shows "\<exists>m. se_stat E (ds ! i) = Some (True, m) \<and> (k + i < 2 \<longrightarrow> m AND 73 \<noteq> 0) \<and> (k + i = 1 \<longrightarrow> m AND 2048 \<noteq> 0)"
  using assms
proof (induction ds arbitrary: k i)
  case (Cons d ds)
  from Cons.prems(1) have c: "check_dependency E (k, d) () = Inr ()"
    and r: "foldE (check_dependency E) (enumerate (Suc k) ds) () = Inr ()" by auto
  show ?case
  proof (cases i)
    case 0
    with c show ?thesis by (auto simp: check_dependency_def split: option.split_asm if_split_asm)
  next
    case (Suc j)
    with Cons.IH [OF r, of j] Cons.prems(2) show ?thesis by simp
  qed
qed simp

lemma inspect_pane_Inr:
  assumes "inspect_pane E ui bundle identifier executable = Inr p"
  shows "pane_files_ok E p \<and> registered ui (pane_identifier p) \<and> pane_identifier p = identifier \<and>
    pane_dependencies p = dependencies_of_pane bundle identifier executable \<and>
    length (pane_marker p) = 9 \<and> pane_marker p ! 0 = SETTINGS_SCHEMA \<and>
    (\<exists>kv. se_plist E (carrier_path identifier @ ''/Info.plist'') = Inr (PDict kv) \<and> py_get kv ''CFBundleIdentifier'' = PStr (carrier_id identifier))"
proof -
  let ?ds = "dependencies_of_pane bundle identifier executable"
  from assms obtain info where d: "foldE (check_dependency E) (enumerate 0 ?ds) () = Inr ()"
    and i: "se_plist E (carrier_path identifier @ ''/Info.plist'') = Inr info"
      "dict_get info ''CFBundleIdentifier'' PNone = Inr (PStr (carrier_id identifier))"
    and u: "registered ui identifier"
    and p: "p = \<lparr>pane_identifier = identifier, pane_dependencies = ?ds, pane_marker = pane_marker p\<rparr>"
      "length (pane_marker p) = 9" "pane_marker p ! 0 = SETTINGS_SCHEMA"
    by (auto simp: inspect_pane_def Let_def split: if_split_asm)
  have "length ?ds = 5" by (simp add: dependencies_of_pane_def Let_def)
  with check_dependencies [OF d] have "pane_files_ok E p" by (subst p(1)) (simp add: pane_files_ok_def)
  moreover have "\<exists>kv. info = PDict kv \<and> py_get kv ''CFBundleIdentifier'' = PStr (carrier_id identifier)"
    using i(2) by (cases info) (auto simp: dict_get_def py_get_def)
  ultimately show ?thesis using i(1) u p by (cases p) auto
qed

text \<open>The panes collected are those of the Settings extensions met, in order.\<close>

definition pane_of :: "'c settings_env \<Rightarrow> string \<Rightarrow> string \<Rightarrow> pane option" where
  "pane_of E ui bundle =
     (if \<not> se_isfile E (bundle @ ''/Contents/Info.plist'') then None
      else case extension_metadata E bundle of
        Inr (Some (identifier, executable)) \<Rightarrow>
          (case inspect_pane E ui bundle identifier executable of Inr p \<Rightarrow> Some p | Inl _ \<Rightarrow> None)
      | _ \<Rightarrow> None)"

lemma collect_panes:
  assumes "foldE (collect_pane E ui) bs panes = Inr panes'"
  shows "panes' = panes @ List.map_filter (pane_of E ui) bs \<and>
    (\<forall>b \<in> set bs. se_isfile E (b @ ''/Contents/Info.plist'') \<longrightarrow>
       extension_metadata E b = Inr None \<or> (\<exists>p. pane_of E ui b = Some p))"
  using assms
proof (induction bs arbitrary: panes)
  case Nil
  then show ?case by (simp add: List.map_filter_simps)
next
  case (Cons b bs)
  then obtain mid where m: "collect_pane E ui b panes = Inr mid" and r: "foldE (collect_pane E ui) bs mid = Inr panes'" by auto
  have "mid = panes @ (case pane_of E ui b of None \<Rightarrow> [] | Some p \<Rightarrow> [p]) \<and>
      (se_isfile E (b @ ''/Contents/Info.plist'') \<longrightarrow> extension_metadata E b = Inr None \<or> (\<exists>p. pane_of E ui b = Some p))"
  proof (cases "extension_metadata E b")
    case (Inl e)
    with m show ?thesis by (auto simp: collect_pane_def pane_of_def split: if_split_asm)
  next
    case (Inr x)
    with m show ?thesis by (cases x) (auto simp: collect_pane_def pane_of_def split: if_split_asm)
  qed
  with Cons.IH [OF r] show ?case by (auto simp: List.map_filter_simps split: option.splits)
qed

lemma still_verified_all:
  assumes "foldE (still_verified E) rs () = Inr ()" and "(p, k, cs) \<in> set rs"
  shows "se_identity E p = Some k"
  using assms by (auto simp: foldE_checks still_verified_def split: option.splits if_splits)

text \<open>
  C37: A verified set of panes is complete, intact and trusted.  When the verification succeeds, the panes are
  exactly those of the Settings extensions that have an Info.plist, at least one; each has its five files,
  executable where they must be, a set-user-id carrier of its own identity that is registered, and a marker
  of the current schema; the three base hashes and the five of the pane in its marker are those of images
  recorded now; and every recorded image is unmoved and its hashes are in the trust cache that is left.
\<close>

theorem settings_verified:
  assumes "verify_settings E c = Inr v"
  shows "\<exists>ui P. se_uicache E = Inr ui \<and> trusted_hashes (se_device E) (vs_trust v) = Inr P \<and>
    vs_panes v = List.map_filter (pane_of E ui) (bundles E) \<and> vs_panes v \<noteq> [] \<and>
    list_all (\<lambda>b. \<not> se_isfile E (b @ ''/Contents/Info.plist'') \<or> extension_metadata E b = Inr None \<or>
      pane_of E ui b \<noteq> None) (bundles E) \<and>
    list_all (\<lambda>p. pane_files_ok E p \<and> registered ui (pane_identifier p) \<and>
      hd (pane_marker p) = SETTINGS_SCHEMA \<and>
      mapE (selected (vs_records v)) SETTINGS_BASE = Inr (take 3 (drop 1 (pane_marker p))) \<and>
      mapE (selected (vs_records v)) (pane_dependencies p) = Inr (drop 4 (pane_marker p))) (vs_panes v) \<and>
    list_all (\<lambda>(p, k, cs). se_identity E p = Some k \<and> chash ` set cs \<subseteq> P) (vs_records v)"
proof -
  from assms obtain ui st base where ui: "se_uicache E = Inr ui"
    and cp: "foldE (collect_pane E ui) (bundles E) [] = Inr (vs_panes v)" and ne: "vs_panes v \<noteq> []"
    and sc: "scan (se_scan E) (map_of (load_cache (se_manifest E)))
        (se_files E (SETTINGS_BASE @ concat (map pane_dependencies (vs_panes v)))) None = Inr st"
    and ba: "mapE (selected (records st)) SETTINGS_BASE = Inr base"
    and ck: "foldE (check_pane (records st) base) (vs_panes v) () = Inr ()"
    and cur: "foldE (still_verified E) (records st) () = Inr ()"
    and re: "restore (se_device E) (hashes st) False c = Inr (vs_added v, vs_trust v)" and rec: "vs_records v = records st"
    by (auto simp: verify_settings_def split: if_split_asm prod.split_asm)
  have wf: "scan_wf st" by (rule scan_wf_scan [OF sc])
  with restore_trusts [OF re] obtain P where P: "trusted_hashes (se_device E) (vs_trust v) = Inr P" "hashes st \<subseteq> P"
    by (auto simp: scan_wf_def)
  note cps = collect_panes [OF cp]
  have insp: "\<exists>b i x. inspect_pane E ui b i x = Inr p" if "p \<in> set (vs_panes v)" for p
  proof -
    from that cps obtain b where "pane_of E ui b = Some p" by (auto simp: List.map_filter_def)
    then obtain i x where "inspect_pane E ui b i x = Inr p"
      by (auto simp: pane_of_def split: if_split_asm sum.split_asm option.split_asm)
    then show ?thesis by blast
  qed
  have chk: "check_pane (records st) base p () = Inr ()" if "p \<in> set (vs_panes v)" for p
    using ck that by (simp add: foldE_checks)
  have pane: "pane_files_ok E p \<and> registered ui (pane_identifier p) \<and> hd (pane_marker p) = SETTINGS_SCHEMA \<and>
      mapE (selected (vs_records v)) SETTINGS_BASE = Inr (take 3 (drop 1 (pane_marker p))) \<and>
      mapE (selected (vs_records v)) (pane_dependencies p) = Inr (drop 4 (pane_marker p))" if "p \<in> set (vs_panes v)" for p
  proof -
    from insp [OF that] inspect_pane_Inr have i: "pane_files_ok E p" "registered ui (pane_identifier p)"
      "length (pane_marker p) = 9" "pane_marker p ! 0 = SETTINGS_SCHEMA" by blast+
    moreover have "hd (pane_marker p) = pane_marker p ! 0" using i(3) by (cases "pane_marker p") auto
    moreover have "take 5 (drop 4 (pane_marker p)) = drop 4 (pane_marker p)" using i(3) by simp
    ultimately show ?thesis using chk [OF that] ba by (auto simp: check_pane_def rec split: if_split_asm)
  qed
  have recs: "se_identity E p = Some k \<and> chash ` set cs \<subseteq> P" if "(p, k, cs) \<in> set (records st)" for p k cs
  proof -
    from that wf have "map_of (records st) p = Some (k, cs)" by (simp add: scan_wf_def)
    then have "(k, cs) \<in> ran (map_of (records st))" by (rule ranI)
    with wf have "chash ` set cs \<subseteq> hashes st" unfolding scan_wf_def recorded_hashes_def by blast
    with P(2) still_verified_all [OF cur that] show ?thesis by blast
  qed
  show ?thesis
  proof (intro exI [of _ ui] exI [of _ P] conjI)
    show "vs_panes v = List.map_filter (pane_of E ui) (bundles E)" using cps by simp
    show "list_all (\<lambda>b. \<not> se_isfile E (b @ ''/Contents/Info.plist'') \<or> extension_metadata E b = Inr None \<or>
        pane_of E ui b \<noteq> None) (bundles E)" using cps by (auto simp: list_all_iff)
    show "list_all (\<lambda>(p, k, cs). se_identity E p = Some k \<and> chash ` set cs \<subseteq> P) (vs_records v)"
      using recs unfolding list_all_iff rec by blast
  qed (use ui P ne pane in \<open>simp_all add: list_all_iff\<close>)
qed

subsection \<open>A checked device\<close>

definition sample_bar :: string where "sample_bar = chash sample_code @ ''|''"

definition sample_settings :: "string list settings_env" where
  "sample_settings = \<lparr>se_uicache = Inr (carrier_id ''i'' @ '' : i''),
     se_glob = (\<lambda>p. if p = EXTENSIONS @ ''/*.appex'' then [''x''] else []), se_isfile = (\<lambda>_. True),
     se_plist = (\<lambda>p. Inr (if p = ''x/Contents/Info.plist''
        then PDict [(''CFBundleIdentifier'', PStr ''i''), (''CFBundleExecutable'', PStr ''e''),
          (''EXAppExtensionAttributes'', PDict [(''EXExtensionPointIdentifier'', PStr ''com.apple.Settings.extension.ui'')])]
        else PDict [(''CFBundleIdentifier'', PStr (carrier_id ''i''))])),
     se_stat = (\<lambda>_. Some (True, 2541)),
     se_marker = (\<lambda>_. Inr (SETTINGS_SCHEMA @ ''|'' @ concat (replicate 7 sample_bar) @ chash sample_code)),
     se_files = map (\<lambda>p. sample_file\<lparr>fpath := p\<rparr>), se_scan = sample_env, se_manifest = None,
     se_identity = (\<lambda>_. Some (key sample_file)), se_device = sample_device, se_dir_owned = True, se_dir_mode = 493,
     se_dumps = (\<lambda>_. 200)\<rparr>"

definition sample_pane :: pane where
  "sample_pane = \<lparr>pane_identifier = ''i'', pane_dependencies = dependencies_of_pane ''x'' ''i'' ''x/Contents/MacOS/e'',
     pane_marker = SETTINGS_SCHEMA # replicate 8 (chash sample_code)\<rparr>"

lemma sample_bundles: "bundles sample_settings = [''x'']"
  by (simp add: bundles_def sample_settings_def EXTENSIONS_def SETTINGS_PLUGINS_def ROOTFS_def)

lemma sample_metadata: "extension_metadata sample_settings ''x'' = Inr (Some (''i'', ''x/Contents/MacOS/e''))"
  by code_simp

lemma sample_registered: "registered (carrier_id ''i'' @ '' : i'') ''i''"
  by code_simp

lemma sample_marker:
  "split_at_bar [] (strip (take 1024 (SETTINGS_SCHEMA @ ''|'' @ concat (replicate 7 sample_bar) @ chash sample_code))) =
     SETTINGS_SCHEMA # replicate 8 (chash sample_code)"
  by code_simp

lemma sample_modes: "(2541 :: nat) AND 73 = 73" "(2541 :: nat) AND 2048 = 2048"
  by simp_all

lemma sample_inspected:
  "inspect_pane sample_settings (carrier_id ''i'' @ '' : i'') ''x'' ''i'' ''x/Contents/MacOS/e'' = Inr sample_pane"
proof -
  have "foldE (check_dependency sample_settings) (enumerate 0 ds) () = Inr ()" for ds
    by (simp add: foldE_checks check_dependency_def sample_settings_def sample_modes)
  moreover have "carrier_path ''i'' @ ''/Info.plist'' \<noteq> ''x/Contents/Info.plist''"
    by (simp add: carrier_path_def CARRIER_ROOT_def)
  ultimately show ?thesis
    using sample_registered sample_marker
    by (simp add: inspect_pane_def sample_settings_def sample_pane_def dict_get_def Let_def)
qed

lemma sample_collected:
  "foldE (collect_pane sample_settings (carrier_id ''i'' @ '' : i'')) (bundles sample_settings) [] = Inr [sample_pane]"
  by (simp add: sample_bundles collect_pane_def sample_metadata sample_inspected) (simp add: sample_settings_def)

text \<open>A scan of further copies of the sample file.\<close>

lemma py_set_fresh: "k \<notin> set (map fst kv) \<Longrightarrow> py_set kv k v = kv @ [(k, v)]"
  by (induction kv k v rule: py_set.induct) auto

definition settings_record :: "string \<Rightarrow> string \<times> identity \<times> code_record list" where
  "settings_record p = (p, [1, 2, 112, 3, 3], [sample_code])"

lemma sample_scan_step:
  assumes "p \<notin> seen st" and "set (map fst (records st)) \<subseteq> seen st" and "resources st = None"
  shows "scan_step sample_env Map.empty (sample_file\<lparr>fpath := p\<rparr>) st =
    Inr (st\<lparr>scanned := scanned st + 1, seen := insert p (seen st), images := images st + 1,
      records := records st @ [settings_record p], hashes := insert (chash sample_code) (hashes st)\<rparr>)"
proof -
  have "p \<notin> set (map fst (records st))" using assms(1,2) by blast
  with assms show ?thesis
    by (simp add: scan_step_def Let_def sample_env_def sample_file_def checkpoint_def resource_unchanged_def read_codes_def
        sample_code_hashes admit_def ldid_agrees_def sample_code_def py_set_fresh settings_record_def del: set_map)
qed

lemma sample_scans:
  assumes "distinct ps" and "set ps \<inter> seen st = {}" and "set (map fst (records st)) \<subseteq> seen st" and "resources st = None"
  shows "\<exists>st'. foldE (scan_step sample_env Map.empty) (map (\<lambda>p. sample_file\<lparr>fpath := p\<rparr>) ps) st = Inr st' \<and>
    records st' = records st @ map settings_record ps \<and>
    hashes st' = hashes st \<union> (if ps = [] then {} else {chash sample_code})"
  using assms
proof (induction ps arbitrary: st)
  case (Cons p ps)
  let ?st = "st\<lparr>scanned := scanned st + 1, seen := insert p (seen st), images := images st + 1,
      records := records st @ [settings_record p], hashes := insert (chash sample_code) (hashes st)\<rparr>"
  have "scan_step sample_env Map.empty (sample_file\<lparr>fpath := p\<rparr>) st = Inr ?st"
    using Cons.prems by (intro sample_scan_step) auto
  moreover have "fst (settings_record p) = p" by (simp add: settings_record_def)
  then have "\<exists>st'. foldE (scan_step sample_env Map.empty) (map (\<lambda>p. sample_file\<lparr>fpath := p\<rparr>) ps) ?st = Inr st' \<and>
      records st' = records ?st @ map settings_record ps \<and>
      hashes st' = hashes ?st \<union> (if ps = [] then {} else {chash sample_code})"
    using Cons.prems by (intro Cons.IH) auto
  ultimately show ?case by auto
qed simp

definition sample_paths :: "string list" where
  "sample_paths = SETTINGS_BASE @ pane_dependencies sample_pane"

lemma sample_paths_distinct: "distinct sample_paths"
  by code_simp

lemma sample_selected:
  assumes "p \<in> set ps"
  shows "selected (map settings_record ps) p = Inr (chash sample_code)"
proof -
  have "map_of (map settings_record ps) p = Some ([1, 2, 112, 3, 3], [sample_code])"
    using assms by (induction ps) (auto simp: settings_record_def)
  then show ?thesis by (simp add: selected_def) (simp add: sample_code_def)
qed

lemma sample_all_selected: "set qs \<subseteq> set ps \<Longrightarrow>
    mapE (selected (map settings_record ps)) qs = Inr (replicate (length qs) (chash sample_code))"
  by (induction qs) (auto simp: sample_selected)

theorem settings_verified_witness:
  "\<exists>v P. verify_settings sample_settings [] = Inr v \<and> vs_panes v = [sample_pane] \<and>
     trusted_hashes sample_device (vs_trust v) = Inr P \<and>
     list_all (\<lambda>(p, k, cs). se_identity sample_settings p = Some k \<and> chash ` set cs \<subseteq> P) (vs_records v)"
proof -
  have files: "se_files sample_settings (SETTINGS_BASE @ concat (map pane_dependencies [sample_pane])) =
      map (\<lambda>p. sample_file\<lparr>fpath := p\<rparr>) sample_paths"
    by (simp add: sample_settings_def sample_paths_def)
  from sample_scans [OF sample_paths_distinct, of "scan_start None"] obtain st where
    st: "scan sample_env Map.empty (map (\<lambda>p. sample_file\<lparr>fpath := p\<rparr>) sample_paths) None = Inr st"
      "records st = map settings_record sample_paths" "hashes st = {chash sample_code}"
    by (auto simp: scan_def scan_start_def sample_paths_def SETTINGS_BASE_def)
  have lengths: "length SETTINGS_BASE = 3" "length (pane_dependencies sample_pane) = 5"
    by (simp_all add: SETTINGS_BASE_def sample_pane_def dependencies_of_pane_def Let_def)
  have base: "mapE (selected (records st)) SETTINGS_BASE = Inr (replicate 3 (chash sample_code))"
    using sample_all_selected [of SETTINGS_BASE sample_paths] unfolding st sample_paths_def lengths by simp
  have pane: "check_pane (records st) (replicate 3 (chash sample_code)) sample_pane () = Inr ()"
    using sample_all_selected [of "pane_dependencies sample_pane" sample_paths] unfolding st sample_paths_def lengths
    by (simp add: check_pane_def sample_pane_def)
  have still: "foldE (still_verified sample_settings) (records st) () = Inr ()"
    by (auto simp: st foldE_checks still_verified_def settings_record_def sample_settings_def sample_file_def)
  have dev: "lib_add sample_device = None" "jbctl_add sample_device h c = Inr (h # c)" for h c
    by (simp_all add: sample_device_def)
  have restored: "restore sample_device (hashes st) False [] = Inr ((1, ''jbctl''), [chash sample_code])"
    by (simp add: st restore_def add_hash_def sample_trusted dev)
  have "\<exists>mf. save_cache (\<lambda>_. 200) True 493 files = Inr mf" for files
    by (simp add: save_cache_def MAX_CACHE_BYTES_def writable_by_others_def Let_def)
  then obtain mf where saved: "save_cache (\<lambda>_. 200) True 493 (map (\<lambda>(p, r). (p, encode_record r)) (records st)) = Inr mf"
    by blast
  have env: "se_uicache sample_settings = Inr (carrier_id ''i'' @ '' : i'')" "se_scan sample_settings = sample_env"
    "se_manifest sample_settings = None" "se_device sample_settings = sample_device" "se_dir_owned sample_settings"
    "se_dir_mode sample_settings = 493" "se_dumps sample_settings = (\<lambda>_. 200)"
    by (simp_all add: sample_settings_def)
  have run: "verify_settings sample_settings [] = Inr \<lparr>vs_panes = [sample_pane], vs_records = records st, vs_added = (1, ''jbctl''),
      vs_trust = [chash sample_code], vs_manifest = mf\<rparr>" (is "_ = Inr ?v")
    using files st(1) base pane still restored saved
    by (simp add: verify_settings_def sample_collected env load_cache_def)
  from settings_verified [OF run] show ?thesis using run by (auto simp: env)
qed

end
