(* ===== verification/DyldPatches.thy ===== *)
theory DyldPatches
  imports PyValue
begin

text \<open>
  \<^verbatim>\<open>analysis/dyldwork/build_dyld.py\<close>, the patch table of the dynamic linker: for every key its offset in
  the file and the bytes that go there.  The third component of the tuples, a remark that is only printed,
  is left out.  A literal of \<open>bytes.fromhex\<close> or \<open>_le\<close> is written as the number, or the numbers of eight
  digits, it consists of.
\<close>

unbundle bit_operations_syntax

definition fromhex :: "nat \<Rightarrow> nat \<Rightarrow> bytes" where "fromhex n v = enc BE n v"

text \<open>\<open>_le\<close> and \<open>b''.join(struct.pack('<I', w) ...)\<close>: the words in the byte order of the file.\<close>

definition le_words :: "nat list \<Rightarrow> bytes" where "le_words ws = concat (map (enc LE 4) ws)"

text \<open>An unconditional branch from one place to another, as the table and \<open>_mkmark\<close> compute it.\<close>

definition branch_word :: "int \<Rightarrow> int \<Rightarrow> nat" where
  "branch_word from_here to_there = nat (0x14000000 OR (((to_there - from_here) div 4) AND 0x3ffffff))"

definition mark_of :: "char \<Rightarrow> nat" where "mark_of ch = of_char ch OR push_bit 8 0x0a"

definition mark_words :: "char \<Rightarrow> int \<Rightarrow> int \<Rightarrow> nat \<Rightarrow> nat list" where
  "mark_words ch site cave replay =
     [0xd10143ff, 0xa90007e0, 0xa90123e2, 0xa9023bed, 0xa90343ef,
      0x52800008 OR push_bit 5 (mark_of ch AND 0xffff),
      0xb90403e8, 0x910103e1, 0xd2800040, 0xd2800082, 0xd2800090, 0xd4001001,
      0xa94007e0, 0xa94123e2, 0xa9423bed, 0xa94343ef, 0x910143ff,
      replay,
      branch_word (cave + 0x48) (site + 4)]"

definition mkmark :: "char \<Rightarrow> nat \<Rightarrow> nat \<Rightarrow> nat \<Rightarrow> bytes \<times> bytes" where
  "mkmark ch site cave replay =
     (le_words [branch_word (int site) (int cave)], le_words (mark_words ch (int site) (int cave) replay))"

subsection \<open>The table\<close>

definition patches_1 :: "(string \<times> nat \<times> bytes) list" where
  "patches_1 = [
    (''crossarch'', 0x76270, fromhex 4 0xe0031faa),
    (''plataccept'', 0x35c24, fromhex 4 0x1f2003d5),
    (''imgplat'', 0x2b580, fromhex 4 0x1f2003d5),
    (''norootdir'', 0x9e20, fromhex 4 0x1f2003d5),
    (''norootdir2'', 0x9f54, fromhex 4 0x98000014),
    (''dyldcompat'', 0x7a68, fromhex 4 0x1f2003d5),
    (''flatfb'', 0x23c90, fromhex 4 0xa5ffff17),
    (''dyldcompat2'', 0x7a24, fromhex 4 0x1f2003d5),
    (''dyldcompat3'', 0x7a60, fromhex 4 0x1f2003d5),
    (''segorder'', 0x7b7d4, fromhex 4 0x09000014),
    (''cachegate'', 0x9418, fromhex 4 0x04000014),
    (''hasexisting'', 0x30140, concat (map (fromhex 4) [0x00008052, 0xc0035fd6])),
    (''prereuse'', 0x34298, fromhex 4 0x00008052),
    (''filescount1'', 0x3538c, fromhex 4 0x3c008052),
    (''dynoff'', 0x35fc8, fromhex 4 0x0900afd2),
    (''dynoff0'', 0x35fc8, fromhex 4 0x090080d2),
    (''dynfix270'', 0x35fc8, fromhex 4 0xe904c0d2),
    (''accessor0'', 0x50dfc, fromhex 4 0x080080d2),
    (''accessor'', 0x50dfc, fromhex 4 0x0800afd2),
    (''fcntl_nop'', 0x35d70, fromhex 4 0x1f2003d5),
    (''cover_b'', 0x35d80, fromhex 4 0x07000014),
    (''platstub'', 0x7e970, le_words [0x20008052, 0xc0035fd6]),
    (''errprobe'', 0x35698, le_words [0x12001c00, 0xd2800030, 0xd4001001]),
    (''errprobeW'', 0x35698, le_words [0xff8300d1, 0xe00300f9, 0xe1030091, 0x400080d2, 0x020180d2, 0x900080d2,
       0x011000d4, 0x40058052, 0x200080d2, 0x011000d4]),
    (''errno536'', 0x76e00, le_words [0x001c0012, 0x200080d2, 0x011000d4]),
    (''noslide'', 0x35eec, fromhex 4 0x1f2003d5),
    (''fc0'', 0x3538c, fromhex 4 0x1c008052),
    (''nodyn'', 0x354ec, fromhex 4 0xe9031c2a),
    (''map1'', 0x3553c, fromhex 4 0x2d008052),
    (''map4'', 0x3553c, fromhex 4 0x4d008052),
    (''slide0'', 0x3552c, fromhex 4 0x29008052),
    (''zf0'', 0x35ef0, fromhex 4 0x70808052),
    (''clrslide_e'', 0x35690, fromhex 4 0xb82cff17),
    (''clrslide_c'', 0x970, le_words [0xaa1a03e9, 0xaa1903ea, 0xb940292b, 0x121a796b, 0xb900292b, 0xb9402d2b,
       0x121a796b, 0xb9002d2b, 0x9100c129, 0xf100054a, 0x54ffffa1, 0xaa1a03e3, 0x1400d33d]),
    (''shiftaddr_e'', 0x35690, fromhex 4 0x9e0d0014),
    (''shiftaddr_c'', 0x38d08, le_words [0xf9400349, 0x0800a8d2, 0x8b080129, 0xf9000349, 0xaa1a03e3, 0x5ef2ff17])]"

definition patches_2 :: "(string \<times> nat \<times> bytes) list" where
  "patches_2 = [
    (''probeS'', 0x47c0, le_words [0x28088052, 0x300080d2, 0x011000d4]),
    (''probeE'', 0x35698, le_words [0x001c0012, 0x300080d2, 0x011000d4]),
    (''errno536b'', 0x35698, le_words [0xa8030090, 0x00c542b9, 0x001c0012, 0x200080d2, 0x011000d4]),
    (''cknpentry'', 0x35380, fromhex 4 0xc4470014),
    (''cknpcave'', 0x47290, le_words [0xd10403ff, 0xf9007fe0, 0x910003e0, 0xd28024d0, 0xd4001001, 0xf9000be0,
       0xf94003e9, 0xf9000fe9, 0xb4000049, 0xa9402d2a, 0xa9023dea, 0xd2800040, 0x910043e1, 0xd2800502, 0xd2800090,
       0xd4001001, 0xf9407fe9, 0x910403ff, 0xaa0903e8, 0x17ffb82a]),
    (''entrymark'', 0x6b94, le_words [branch_word 0x6b94 0x970]),
    (''entrycave'', 0x970, le_words [0xff0301d1, 0xe8a703a9, 0xe00705a9, 0xe20f07a9, 0xaa488152, 0xea030079,
       0xe80700f9, 0x49018052, 0xe9430039, 0x400080d2, 0xe1030091, 0x220280d2, 0x900080d2, 0x011000d4, 0xe8a743a9,
       0xe00745a9, 0xe20f47a9, 0xff030191, 0x1f093fd6]),
    (''errnoc'', 0x356d8, le_words [0x48d03bd5, 0x080540f9, 0x480000b4, 0x000140b9, 0x001c0012, 0x200080d2,
       0x011000d4]),
    (''cknp2entry'', 0x34298, le_words [branch_word 0x34298 0x47290]),
    (''cknp2cave'', 0x47290, le_words [0xd10403ff, 0xf9007fe0, 0xf9007be1, 0x910003e0, 0xd28024d0, 0xd4001001,
       0xf9000be0, 0xf94003e9, 0xf9000fe9, 0xd2800040, 0x910043e1, 0xd2800502, 0xd2800090, 0xd4001001, 0xb4000049,
       0xa9402d2a, 0xa9023dea, 0xd2800040, 0x910083e1, 0xd2800202, 0xd2800090, 0xd4001001, 0xf9407fe0, 0xf9407be1,
       0x910403ff, 0xd2800000, 0x17ffb3e9]),
    (''errprobeSP'', 0x35698, le_words [0xe1030011, 0x200c0012, 0x200080d2, 0x011000d4]),
    (''errprobe2'', 0x356d8, le_words [0xaa1703e0, 0x12001c00, 0xd2800030, 0xd4001001]),
    (''fwentry'', 0x35698, fromhex 4 0x35000014),
    (''fwcave'', 0x3576c, le_words [0xd10083ff, 0xf90003e0, 0xf90007fe, 0x10000200, 0x5280c021, 0x52803482,
       0xd28000b0, 0xd4001001, 0x910003e1, 0xd2800102, 0xd2800090, 0xd4001001, 0xd28000d0, 0xd4001001, 0xf94003e0,
       0xf94007fe, 0x910083ff, 0xaa0003f7, 0x17ffffbb, 0x706d742f, 0x3335652f, 0x00000036]),
    (''fwentry2'', 0x35698, fromhex 4 0x9c0d0014),
    (''fwcave2'', 0x38d08, le_words [0xd10043ff, 0xf90003e0, 0x910003e1, 0xd2800102, 0xd2800040, 0xd2800090,
       0xd4001001, 0xf94003e0, 0x910043ff, 0xaa0003f7, 0x17fff25b]),
    (''tcentry'', 0x35698, fromhex 4 0x9c0d0014),
    (''tccave'', 0x38d08, le_words [0xd10043ff, 0x52884828, 0x72a88868, 0xf90003e8, 0x910003e1, 0xd2800102,
       0xd2800040, 0xd2800090, 0xd4001001, 0x910043ff, 0xaa0003f7, 0x17fff25a]),
    (''ep3entry'', 0x35714, fromhex 4 0x7d0d0014)]"

definition patches_3 :: "(string \<times> nat \<times> bytes) list" where
  "patches_3 = [
    (''ep3cave'', 0x38d08, le_words [0xd10043ff, 0xb90003f7, 0x910003e1, 0xd2800102, 0xd2800040, 0xd2800090,
       0xd4001001, 0x910043ff, 0xf9400e68, 0x17fff27b]),
    (''e5entry'', 0x76e04, fromhex 4 0xc107ff17),
    (''e5cave'', 0x38d08, le_words [0xd10083ff, 0xf90003e0, 0x910003e1, 0xd2800102, 0xd2800040, 0xd2800090,
       0xd4001001, 0x12800020, 0x910083ff, 0xd65f03c0]),
    (''e5spin'', 0x38d08, le_words [0xd10083ff, 0xf90003e0, 0x910003e1, 0xd2800102, 0xd2800040, 0xd2800090,
       0xd4001001, 0x910083ff, 0x14000000]),
    (''slidentry'', 0x35690, fromhex 4 0x9e0d0014),
    (''slidecave'', 0x38d08, concat (map (fromhex 4) [0x3f0800b9, 0xe9031aaa, 0xea0319aa, 0x2b2940b9, 0x6b791a12,
       0x2b2900b9, 0x2b2d40b9, 0x6b791a12, 0x2b2d00b9, 0x29c10091, 0x4a0500f1, 0x01ffff54, 0xe3031aaa, 0x56f2ff17])),
    (''slidentry2'', 0x35690, fromhex 4 0xb82cff17),
    (''slidecave2'', 0x970, le_words [0xaa0103ef, 0x10000341, 0xd2800082, 0xd2800040, 0xd2800090, 0xd4001001,
       0xaa0f03e9, 0xaa1c03ea, 0x340000aa, 0xb900093f, 0x91003129, 0x7100054a, 0x543fffa1, 0xaa1a03e9, 0xaa1903ea,
       0xb940292b, 0x121a796b, 0xb900292b, 0xb9402d2b, 0x121a796b, 0xb9002d2b, 0x9100c129, 0xf100054a, 0x543fff01,
       0xaa1a03e3, 0x1400d330, 0x21455250]),
    (''stentry'', 0x47c0, fromhex 4 0x90f0ff17),
    (''stcave'', 0xa00, le_words [0xd10083ff, 0x528a8a69, 0x72a8a449, 0xf90003e9, 0xe1030091, 0xd2800082,
       0xd2800040, 0xd2800090, 0xd4001001, 0x910083ff, 0xaa1f03e0, 0x14000f66]),
    (''stcave0'', 0xa00, le_words [0xaa1f03e0, 0x14000f70]),
    (''retentry'', 0x35698, fromhex 4 0x3f170014),
    (''retcave'', 0x3b394, le_words [0xd10043ff, 0xf90003e0, 0x910003e1, 0xd2800102, 0xd2800040, 0xd2800090,
       0xd4001001, 0xf94003e0, 0x910043ff, 0xaa0003f7, 0x17ffe8b8]),
    (''e5bentry'', 0x76e04, fromhex 4 0x6409ff17),
    (''e5bcave'', 0x3b394, le_words [0xd10083ff, 0xf90003e0, 0x910003e1, 0xd2800102, 0xd2800040, 0xd2800090,
       0xd4001001, 0x12800020, 0x910083ff, 0xd65f03c0]),
    (''e5centry'', 0x76e04, fromhex 4 0x2341ff17),
    (''e5ccave'', 0x47290, le_words [0xd10083ff, 0xf90003e0, 0x910003e1, 0xd2800102, 0xd2800040, 0xd2800090,
       0xd4001001, 0x12800020, 0x910083ff, 0xd65f03c0]),
    (''shrink7'', 0x35690, fromhex 4 0x9e0d0014),
    (''shrink7cave'', 0x38d08, le_words [0xd2808008, 0xf900b748, 0xaa1a03e3, 0x17fff322]),
    (''shrink7b'', 0x35690, fromhex 4 0x9e0d0014),
    (''shrink7bcave'', 0x38d08, le_words [0x52a40008, 0xf900b748, 0xaa1a03e3, 0x17fff322]),
    (''shrink7c'', 0x35690, fromhex 4 0x9e0d0014),
    (''shrink7ccave'', 0x38d08, le_words [0x52a44008, 0xf900b748, 0xaa1a03e3, 0x17fff322]),
    (''shrink7d'', 0x35690, fromhex 4 0x9e0d0014),
    (''shrink7dcave'', 0x38d08, le_words [0x52a4d168, 0xf900b748, 0xaa1a03e3, 0x17fff322]),
    (''shrink7e'', 0x35690, fromhex 4 0x9e0d0014),
    (''shrink7ecave'', 0x38d08, le_words [0x52a4d168, 0x72900008, 0xf900b748, 0xaa1a03e3, 0x17fff322]),
    (''shrink7f'', 0x35690, fromhex 4 0x9e0d0014),
    (''shrink7fcave'', 0x38d08, le_words [0x52a4d168, 0x72980008, 0xf900b748, 0xaa1a03e3, 0x17fff322]),
    (''spinS'', 0x35698, fromhex 4 0x9c0d0014),
    (''spinScave'', 0x38d08, le_words [0xaa0003f7, 0xb5fe4c80, 0x14000000]),
    (''spinS2'', 0x35698, fromhex 4 0xba0d0014)]"

definition patches_4 :: "(string \<times> nat \<times> bytes) list" where
  "patches_4 = [
    (''spinS2cave'', 0x38d80, le_words [0xaa0003f7, 0x35fe48c0, 0x14000000]),
    (''ret536'', 0x35698, fromhex 4 0xba0d0014),
    (''ret536cave'', 0x38d80, le_words [0xd10043ff, 0xf90007e0, 0x910023e1, 0xd2800102, 0xd2800040, 0xd2800090,
       0xd4001001, 0xf94007e0, 0x910043ff, 0xaa0003f7, 0x17fff23d]),
    (''mark536'', 0x35690, fromhex 4 0x9e0d0014),
    (''mark536cave'', 0x38d08, le_words [0xd10043ff, 0x52814848, 0xf90007e8, 0x910023e1, 0xd2800042, 0xd2800040,
       0xd2800090, 0xd4001001, 0x910043ff, 0xaa1a03e3, 0x17fff259]),
    (''fdpath'', 0x35690, fromhex 4 0x9e0d0014),
    (''fdpathcave'', 0x38d08, le_words [0xd10303ff, 0xa9000fe0, 0xa9010fe2, 0xf9400028, 0xaa0803e0, 0xd2800641,
       0x910203e2, 0xd2800b90, 0xd4001001, 0x910203e1, 0xd2800802, 0xd2800040, 0xd2800090, 0xd4001001, 0xa9400fe0,
       0xa9410fe2, 0x910303ff, 0xaa1a03e3, 0x17fff251]),
    (''badfd'', 0x35690, fromhex 4 0x9e0d0014),
    (''badfdcave'', 0x38d08, le_words [0x52800c68, 0xb9000028, 0xaa1a03e3, 0x17fff260]),
    (''anonall'', 0x35690, fromhex 4 0x9e0d0014),
    (''anonallcave'', 0x38d08, le_words [0xaa1a03e8, 0xd2800129, 0xd280020b, 0xb9402c0a, 0x4a010b2a, 0xb9002c0a,
       0x9100c108, 0x51000529, 0x35ffff69, 0xaa1a03e3, 0x17fff259]),
    (''sfld0'', 0x35690, fromhex 4 0x9e0d0014),
    (''sfld0cave'', 0x38d08, le_words [0xb900083f, 0xaa1a03e3, 0x17fff261]),
    (''sfld00'', 0x35690, fromhex 4 0x9e0d0014),
    (''sfld00cave'', 0x38d08, le_words [0xb900083f, 0xb9000c3f, 0xaa1a03e3, 0x17fff260]),
    (''tick536'', 0x35690, fromhex 4 0x9e0d0014),
    (''tick536cave'', 0x38d08, le_words [0xb9000c3f, 0xaa1a03e3, 0xd100c3ff, 0xa90007e0, 0xa9010fe2, 0xa9027bf0,
       0x52800a88, 0x3900a3e8, 0x9100a3e1, 0xd2800040, 0xd2800022, 0xd2800090, 0xd4001001, 0xa9427bf0, 0xa9410fe2,
       0xa94007e0, 0x9100c3ff, 0x17fff252]),
    (''noexec0'', 0x35690, fromhex 4 0x9e0d0014),
    (''noexec0cave'', 0x38d08, le_words [0x52800028, 0xb9002b68, 0xb9002f68, 0xaa1a03e3, 0x17fff25f]),
    (''nxeT'', 0x35690, fromhex 4 0x9e0d0014)]"

definition patches_5 :: "(string \<times> nat \<times> bytes) list" where
  "patches_5 = [
    (''nxeTcave'', 0x38d08, le_words [0xd10043ff, 0x52801408, 0xf90007e8, 0x910023e1, 0xd2800082, 0xd2800040,
       0xd2800090, 0xd4001001, 0x910043ff, 0x52800028, 0xb9002b68, 0xb9002f68, 0xaa1a03e3, 0x17fff257]),
    (''nxmix'', 0x35690, fromhex 4 0x9e0d0014),
    (''nxmixcave'', 0x38d08, le_words [0x52800028, 0xb9002f68, 0xaa1a03e3, 0x17fff25f]),
    (''esmall'', 0x35690, fromhex 4 0x9e0d0014),
    (''esmallcave'', 0x38d08, le_words [0xd2808088, 0xf9000768, 0xaa1a03e3, 0x17fff25f]),
    (''e0anon'', 0x35690, fromhex 4 0x9e0d0014),
    (''e0anoncave'', 0x38d08, le_words [0xb9402f68, 0x52800209, 0x2a090108, 0xb9002f68, 0xaa1a03e3, 0x17fff25e]),
    (''tickonly'', 0x35690, fromhex 4 0x9e0d0014),
    (''tickonlycave'', 0x38d08, le_words [0xd10043ff, 0x52801408, 0xf90007e8, 0x910023e1, 0xd2800082, 0xd2800040,
       0xd2800090, 0xd4001001, 0x910043ff, 0xaa1a03e3, 0x17fff255]),
    (''sldhi'', 0x35690, fromhex 4 0x9e0d0014),
    (''sldhicave'', 0x38d08, le_words [0x52aa0008, 0xb9000828, 0xaa1a03e3, 0x17fff260]),
    (''sldlo'', 0x35690, fromhex 4 0x9e0d0014),
    (''sldlocave'', 0x38d08, le_words [0x52a08008, 0xb9000828, 0xaa1a03e3, 0x17fff260]),
    (''vashift'', 0x35690, fromhex 4 0x9e0d0014),
    (''vashiftcave'', 0x38d08, le_words [0xaa1a03e9, 0x52aa000a, 0xd280010b, 0xf940012c, 0x8b0a018c, 0xf900012c,
       0x9100c129, 0xf100056b, 0x54ffff61, 0x52800808, 0xb9000828, 0xaa1a03e3, 0x17fff257]),
    (''hold536'', 0x35690, fromhex 4 0x9e0d0014),
    (''hold536cave'', 0x38d08, le_words [0x14000000]),
    (''rdhdr'', 0x35698, fromhex 4 0xba0d0014),
    (''rdhdrcave'', 0x38d80, le_words [0xd10103ff, 0xf9000fe0, 0xd2c00308, 0xf9400109, 0xf90013e9, 0xf9400909,
       0xf90017e9, 0x910083e1, 0xd2800202, 0xd2800040, 0xd2800090, 0xd4001001, 0xa9400fe0, 0x910103ff, 0xaa0003f7,
       0x17fff238]),
    (''skipe0'', 0x35690, fromhex 4 0x9e0d0014)]"

definition patches_6 :: "(string \<times> nat \<times> bytes) list" where
  "patches_6 = [
    (''skipe0cave'', 0x38d08, le_words [0xd10103ff, 0xa90007e0, 0xa90123e2, 0xa9023be9, 0x52800a68, 0xf9001be8,
       0x9100c3e1, 0xd2800040, 0xd2800082, 0xd2800090, 0xd4001001, 0xa94007e0, 0xa94123e2, 0xa9423be9, 0x910103ff,
       0x52800028, 0xb9000428, 0xd2800022, 0x9100c343, 0x17fff250]),
    (''dump536'', 0x35690, fromhex 4 0x9e0d0014),
    (''dump536cave'', 0x38d08, le_words [0xd10103ff, 0xa90007e0, 0xa90123e2, 0xa9023be9, 0x52800188, 0x1b080002,
       0xd2800040, 0xd2800090, 0xd4001001, 0x52800608, 0x9b080322, 0xaa1a03e1, 0xd2800040, 0xd2800090, 0xd4001001,
       0xa94007e0, 0xa94123e2, 0xa9423be9, 0x910103ff, 0xaa1a03e3, 0x17fff24f]),
    (''mcount0'', 0x3553c, fromhex 4 0x0d008052),
    (''mcount1'', 0x3553c, fromhex 4 0x2d008052),
    (''mcount2'', 0x3553c, fromhex 4 0x4d008052),
    (''mcount4'', 0x3553c, fromhex 4 0x8d008052),
    (''mcount6'', 0x3553c, fromhex 4 0xcd008052),
    (''mcount7'', 0x3553c, fromhex 4 0xed008052),
    (''mkAentry'', 0x53dc, fromhex 4 0xd9feff17),
    (''mkAcave'', 0xa40, le_words [0xd10043ff, 0x52814828, 0xf90003e8, 0x910003e1, 0xd2800040, 0xd2800102,
       0xd2800090, 0xd4001001, 0x910043ff, 0xd503237f, 0x1400125e]),
    (''mkBentry'', 0x35380, fromhex 4 0xc02dff17),
    (''mkBcave'', 0xa80, le_words [0xd10043ff, 0x52814848, 0xf90003e8, 0x910003e1, 0xd2800040, 0xd2800102,
       0xd2800090, 0xd4001001, 0x910043ff, 0xaa0003e8, 0x1400d237]),
    (''mkCentry'', 0x35434, fromhex 4 0xa32dff17),
    (''mkCcave'', 0xac0, le_words [0xd10043ff, 0x52814868, 0xf90003e8, 0x910003e1, 0xd2800040, 0xd2800102,
       0xd2800090, 0xd4001001, 0x910043ff, 0xd2800000, 0x1400d254]),
    (''mkDentry'', 0x355fc, fromhex 4 0x412dff17),
    (''mkDlrcave'', 0xb00, le_words [0xd10043ff, 0xf90003fe, 0x910003e1, 0xd2800040, 0xd2800102, 0xd2800090,
       0xd4001001, 0xf94003fe, 0x910043ff, 0xd2800008, 0x1400d2b6]),
    (''mkDcave'', 0xb00, le_words [0xd10043ff, 0x52814888, 0xf90003e8, 0x910003e1, 0xd2800040, 0xd2800102,
       0xd2800090, 0xd4001001, 0x910043ff, 0xd2800008, 0x1400d2b6]),
    (''gluebranch'', 0x6b94, fromhex 4 0x5dc80014),
    (''glueprobe'', 0x38d08, le_words [0xd10083ff, 0xa90027e8, 0x910003e1, 0xd2800020, 0xd2800202, 0xd2800090,
       0xd4001001, 0xd2800000, 0xd2800030, 0xd4001001])]"

definition marks_1 :: "(string \<times> nat \<times> bytes) list" where
  "marks_1 = concat (map (\<lambda>(ch, site, cave, replay). case mkmark ch site cave replay of (e, c) \<Rightarrow>
       [(''mk'' @ [ch] @ ''entry'', site, e), (''mk'' @ [ch] @ ''cave'', cave, c)])
      [(CHR ''E'', 0x3561c, 0xb40, 0x9b0a250e),
       (CHR ''F'', 0x3562c, 0xc00, 0x9bab69b0),
       (CHR ''G'', 0x35668, 0xc80, 0x52800608)])"

definition marks_2 :: "(string \<times> nat \<times> bytes) list" where
  "marks_2 = concat (map (\<lambda>(ch, site, cave, replay). case mkmark ch site cave replay of (e, c) \<Rightarrow>
       [(''m2'' @ [ch] @ ''entry'', site, e), (''m2'' @ [ch] @ ''cave'', cave, c)])
      [(CHR ''p'', 0x35698, 0xaf0, 0xaa0003f7),
       (CHR ''f'', 0x356a8, 0xb40, 0x91400668),
       (CHR ''l'', 0x356b4, 0xb90, 0xb94002c0),
       (CHR ''c'', 0x356d4, 0xbe0, 0xaa1403e1),
       (CHR ''r'', 0x356e4, 0xc30, 0xf9400a88),
       (CHR ''v'', 0x356f8, 0xc80, 0x39401aa8),
       (CHR ''S'', 0x35710, 0xcd0, 0x52800020),
       (CHR ''R'', 0x35714, 0xd20, 0xf9400e68),
       (CHR ''E'', 0x35754, 0xd70, 0x52800000),
       (CHR ''u'', 0x351a8, 0xdc0, 0xd503237f),
       (CHR ''F'', 0x51258, 0xe10, 0xaa0003e1)])"

definition patches_7 :: "(string \<times> nat \<times> bytes) list" where
  "patches_7 = [
    (''m3aentry'', 0x35660, le_words [branch_word 0x35660 0xe60]),
    (''m3acave'', 0xe60, le_words [0xd10143ff, 0xa90007e0, 0xa90123e2, 0xa9023bed, 0xa90343ef, 0x52814c28,
       0xb90403e8, 0x910103e1, 0xd2800040, 0xd2800102, 0xd2800090, 0xd4001001, 0xa94007e0, 0xa94123e2, 0xa9423bed,
       0xa94343ef, 0x910143ff, 0xf948ea78, branch_word (0xe60 + 0x48) 0x35664])]"

definition m5 :: "nat list" where
  "m5 =
    (let ws = [0xd10143ff, 0xa90063fc, 0xa9015bf9, 0xa90203fa, 0x910003e1, 0xd2800040, 0xd2800602, 0xd2800090, 0xd4001001,
      0x910143ff, 0xaa0103e9, 0xaa1c03ea, 0xf101015f, 0x54000049, 0xd280080a, 0xb40000aa, 0xb900093f, 0x91003129,
      0xf100054a, 0x54ffffa1, 0xaa1a03e9, 0xaa1903ea, 0xf101015f, 0x54000049, 0xd280080a, 0xb400014a, 0xb940292b,
      0x121a796b, 0xb900292b, 0xb9402d2b, 0x121a796b, 0xb9002d2b, 0x9100c129, 0xf100054a, 0x54ffff01, 0xaa1a03e3,
      0xd10083ff, 0x528a4a09, 0x72a428a9, 0xf90003e9, 0x910003e1, 0xd2800082, 0xd2800040, 0xd2800090, 0xd4001001,
      0x910083ff, branch_word (0x970 + (1 * 4) + 0xac) 0x35694]
     in ws[length ws - 1 := branch_word (0x970 + ((int (length ws) - 1) * 4)) 0x35694])"

definition patches_8 :: "(string \<times> nat \<times> bytes) list" where
  "patches_8 = [
    (''m5dentry'', 0x35690, le_words [branch_word 0x35690 0x970]),
    (''m5dcave'', 0x970, le_words m5)]"

definition m6 :: "nat list" where
  "m6 =
    (let ws = [0x9b0a250e, 0xd10143ff, 0xa9002fe8, 0xb94181cb, 0xa9013beb, 0xa90227fa, 0x910003e1, 0xd2800040, 0xd2800402,
      0xd2800090, 0xd4001001, 0x910143ff, 0x14000000]
     in ws[length ws - 1 := branch_word (0xaf0 + ((int (length ws) - 1) * 4)) 0x35620])"

definition patches_9 :: "(string \<times> nat \<times> bytes) list" where
  "patches_9 = [
    (''m6entry'', 0x3561c, le_words [branch_word 0x3561c 0xaf0]),
    (''m6cave'', 0xaf0, le_words m6)]"

definition m7 :: "nat list" where
  "m7 =
    (let ws = [0xf94007af, 0xd10143ff, 0xa9007bf7, 0xa9013ffd, 0xa90263fa, 0x910003e1, 0xd2800040, 0xd2800602, 0xd2800090,
      0xd4001001, 0x910143ff, 0x14000000]
     in ws[length ws - 1 := branch_word (0xb40 + ((int (length ws) - 1) * 4)) 0x35694])"

definition patches_10 :: "(string \<times> nat \<times> bytes) list" where
  "patches_10 = [
    (''m7entry'', 0x35690, le_words [branch_word 0x35690 0xb40]),
    (''m7cave'', 0xb40, le_words m7)]"

definition qoff :: int where "qoff = (0x76df8 - (0xeb0 + 0x14)) div 4"

definition patches_11 :: "(string \<times> nat \<times> bytes) list" where
  "patches_11 = [
    (''m4dentry'', 0x35690, le_words [branch_word 0x35690 0xf30]),
    (''m4dcave'', 0xf30, le_words [0xd10143ff, 0xa9004df9, 0xa9012bfd, 0xa9020bfa, 0xa90303e1, 0x910003e1,
       0xd2800040, 0xd2800082, 0xd2800090, 0xd4001001, 0x910143ff, 0xaa1a03e3, branch_word (0xf30 + 0x30) 0x970]),
    (''m3qentry'', 0x35694, le_words [branch_word 0x35694 0xeb0]),
    (''m3qcave'', 0xeb0, le_words [0xd10143ff, 0xa90007e0, 0xa90123e2, 0xa9023bed, 0xa90343ef, nat (0x94000000 OR
       (qoff AND 0x3ffffff)), 0xf90003e0, 0x52814d48, 0xb90403e8, 0x910103e1, 0xd2800040, 0xd2800102, 0xd2800090,
       0xd4001001, 0xf94003e0, 0xa94007e0, 0xa94123e2, 0xa9423bed, 0xa94343ef, 0x910143ff, branch_word (0xeb0 + 0x50)
       0x35698])]"

definition marks_3 :: "(string \<times> nat \<times> bytes) list" where
  "marks_3 = concat (map (\<lambda>(ch, site, cave, replay). case mkmark ch site cave replay of (e, c) \<Rightarrow>
       [(''mk_'' @ [ch] @ ''e'', site, e), (''mk_'' @ [ch] @ ''c'', cave, c)])
      [(CHR ''e'', 0x35380, 0x9b580, 0xaa0003e8),
       (CHR ''f'', 0x35da8, 0x9b600, 0x52800043),
       (CHR ''m'', 0x35e00, 0x9b680, 0xb901828c),
       (CHR ''s'', 0x35f9c, 0x9b700, 0x3dc03b20)])"

definition patches_12 :: "(string \<times> nat \<times> bytes) list" where
  "patches_12 = [
    (''xpD'', 0x342b8, le_words [0x52800aa0, 0xd2800030, 0xd4001001]),
    (''xpE'', 0x342d8, le_words [0x52800cc0, 0xd2800030, 0xd4001001]),
    (''xpF'', 0x34298, le_words [0x528008a0, 0xd2800030, 0xd4001001]),
    (''xpG'', 0x352ec, le_words [0x528009e0, 0xd2800030, 0xd4001001]),
    (''ck2entry'', 0x35380, fromhex 4 0x7c2dff17),
    (''ck2cave'', 0x970, le_words [0xd10403ff, 0xf9007fe0, 0xf90003ff, 0x910003e0, 0xd28024d0, 0xd4001001,
       0xf9000be0, 0x52800040, 0x910043e1, 0xd2800202, 0xd2800090, 0xd4001001, 0xf9400be9, 0xb5000149, 0xf94003e9,
       0xb4000109, 0xa9402d2a, 0xa9022fea, 0x52800040, 0x910083e1, 0xd2800202, 0xd2800090, 0xd4001001, 0xf9407fe9,
       0x910403ff, 0xaa0903e8, 0x1400d26b]),
    (''ck2dentry'', 0x35380, fromhex 4 0x620e0014),
    (''ck2dcave'', 0x38d08, le_words [0xd10403ff, 0xf9007fe0, 0xf90003ff, 0x910003e0, 0xd28024d0, 0xd4001001,
       0xf9000be0, 0x52800040, 0x910043e1, 0xd2800202, 0xd2800090, 0xd4001001, 0xf9400be9, 0xb5000149, 0xf94003e9,
       0xb4000109, 0xa9402d2a, 0xa9022fea, 0x52800040, 0x910083e1, 0xd2800202, 0xd2800090, 0xd4001001, 0xf9407fe9,
       0x910403ff, 0xaa0903e8, 0x17fff184]),
    (''rethdr'', 0x35698, fromhex 4 0xba0d0014),
    (''rethdrcave'', 0x38d80, le_words [0xd10103ff, 0xf90007e0, 0x52800040, 0x910023e1, 0xd2800102, 0xd2800090,
       0xd4001001, 0xf94007e9, 0xb5000169, 0xb26107e8, 0xf9400109, 0xf90013e9, 0xf9400909, 0xf90017e9, 0x52800040,
       0x910083e1, 0xd2800202, 0xd2800090, 0xd4001001, 0xf94007e0, 0x910103ff, 0xaa0003f7, 0x17fff231]),
    (''cklite'', 0x47290, le_words [0xd2800000, 0x17ffb3e9]),
    (''ckjump'', 0x47290, le_words [0xd2800000, 0x17ffb402]),
    (''xpK'', 0x35380, le_words [0x52800ae0, 0xd2800030, 0xd4001001]),
    (''xpL'', 0x355fc, le_words [0x52800c00, 0xd2800030, 0xd4001001]),
    (''xpM'', 0x35690, le_words [0x52800d20, 0xd2800030, 0xd4001001]),
    (''xpA'', 0x352bc, le_words [0x52800aa0, 0xd2800030, 0xd4001001]),
    (''xpB'', 0x35770, le_words [0x52800cc0, 0xd2800030, 0xd4001001]),
    (''xpC'', 0x35384, le_words [0x52800ee0, 0xd2800030, 0xd4001001]),
    (''fstentry'', 0x357d4, fromhex 4 0xaf460094),
    (''fstexit'', 0x47290, le_words [0x52800e00, 0x52800030, 0xd4001001]),
    (''fstcave'', 0x47290, le_words [0xf81e03e0, 0xd10083e1, 0x52800040, 0x52800102, 0x52800090, 0xd4001001,
       0xb94002c0, 0x910243e1, 0x910003e2, 0x52800003, 0x122d0014]),
    (''xpF1'', 0x357b0, le_words [0x52800e20, 0x52800030, 0xd4001001]),
    (''xpF2'', 0x357c8, le_words [0x52800e40, 0x52800030, 0xd4001001]),
    (''xpF3'', 0x357d0, le_words [0x52800e60, 0x52800030, 0xd4001001]),
    (''xpG1'', 0x3581c, le_words [0x52800e80, 0x52800030, 0xd4001001]),
    (''xpG2'', 0x35830, le_words [0x52800ea0, 0x52800030, 0xd4001001]),
    (''xpH1'', 0x35b00, le_words [0x52800ea0, 0x52800030, 0xd4001001]),
    (''xpH2'', 0x35b4c, le_words [0x52800ec0, 0x52800030, 0xd4001001]),
    (''xpH3'', 0x35d68, le_words [0x52800ee0, 0x52800030, 0xd4001001]),
    (''xpH4'', 0x35db4, le_words [0x52800f00, 0x52800030, 0xd4001001]),
    (''xpH5'', 0x35fbc, le_words [0x52800f20, 0x52800030, 0xd4001001]),
    (''xpH6'', 0x35be8, le_words [0x52800f40, 0x52800030, 0xd4001001]),
    (''forpriv'', 0xbdb8, fromhex 4 0x1f2003d5),
    (''hardpriv'', 0x34268, fromhex 4 0x1f2003d5),
    (''xpI1'', 0x3438c, le_words [0x52801220, 0x52800030, 0xd4001001]),
    (''xpI2'', 0x34468, le_words [0x52801240, 0x52800030, 0xd4001001]),
    (''xpI3'', 0x344ec, le_words [0x52801260, 0x52800030, 0xd4001001]),
    (''xpI4'', 0x345ac, le_words [0x52801280, 0x52800030, 0xd4001001]),
    (''xpI5'', 0x345f8, le_words [0x528012a0, 0x52800030, 0xd4001001]),
    (''xpI6'', 0x34b84, le_words [0x528012c0, 0x52800030, 0xd4001001]),
    (''xpI7'', 0x34e6c, le_words [0x528012e0, 0x52800030, 0xd4001001]),
    (''mdumpentry'', 0x345ac, fromhex 4 0x394b0094),
    (''mdumpcave'', 0x47290, le_words [0xd10103ff, 0xa90007e0, 0xa9010fe2, 0xa90217e4, 0x910003e1, 0x52800602,
       0x52800040, 0xd2800090, 0xd4001001, 0xf94003e0, 0x910103ff, 0xb26e0063, 0xd28018b0, 0xd4001001, 0x17ffb4ba])]"

definition patches_13 :: "(string \<times> nat \<times> bytes) list" where
  "patches_13 = [
    (''chknpentry'', 0x342dc, fromhex 4 0xed4b0094),
    (''chknpcave'', 0x47290, le_words [0xd100c3ff, 0x910003e0, 0xd28024d0, 0xd4001001, 0xf90007e0, 0x52800040,
       0x910003e1, 0x52800202, 0xd2800090, 0xd4001001, 0x9100c3ff, 0xd503237f, 0xd65f03c0]),
    (''deallocnp'', 0x34228, fromhex 4 0x1f2003d5),
    (''emptysr_e'', 0x34228, fromhex 4 0x40830935),
    (''emptysr_c'', 0x47290, concat (map (fromhex 4) [0x1f300071, 0x017df654, 0xe5b3ff17])),
    (''stopentry'', 0x342dc, fromhex 4 0xed4b0094),
    (''stopcave'', 0x47290, le_words [0xd10043ff, 0xa90007e0, 0xd2800290, 0xd4001001, 0xd2800261, 0xd28004b0,
       0xd4001001, 0xa94007e0, 0x910043ff, 0xd503237f, 0xd65f03c0]),
    (''rpostentry'', 0x345b0, fromhex 4 0x791b0094),
    (''rpostcave'', 0x3b394, le_words [0xd100c3ff, 0xa90007e0, 0xa9017be2, 0xf90013e0, 0x52800040, 0x910083e1,
       0x52800102, 0xd2800090, 0xd4001001, 0xa94007e0, 0xa9417be2, 0x9100c3ff, 0xb100041f, 0xd65f03c0]),
    (''stopnpcave'', 0x47290, le_words [0xd2800000, 0xd28024d0, 0xd4001001, 0xd2800290, 0xd4001001, 0xd2800261,
       0xd28004b0, 0xd4001001, 0xd503237f, 0xd65f03c0]),
    (''stopnp2cave'', 0x47290, le_words [0xd2800000, 0xd28024d0, 0xd4001001, 0x2a0003e9, 0xd2800290, 0xd4001001,
       0xd2800261, 0x7100013f, 0x54000061, 0xd28003c1, 0xd28004b0, 0xd4001001, 0xd503237f, 0xd65f03c0]),
    (''np2dump1'', 0x47290, le_words [0xd10103ff, 0x910003e8, 0xaa0803e0, 0xd28024d0, 0xd4001001, 0xb9000900,
       0xd2800000, 0xd28024d0, 0xd4001001, 0xb9000d00, 0xd2800040, 0xaa0803e1, 0xd2800202, 0xd2800080, 0xd4001001,
       0x17ffd033]),
    (''np2dump2'', 0x3b394, le_words [0xd2800290, 0xd4001001, 0xd2800261, 0xd28004b0, 0xd4001001, 0x14000000]),
    (''ldprobe'', 0x34240, fromhex 4 0x144c0014),
    (''privprobe'', 0x342dc, fromhex 4 0xed4b0014),
    (''chkbasecave'', 0x47290, le_words [0xd10083ff, 0x5297dde8, 0x72bbd5a8, 0xf90003e8, 0x910003e0, 0xd28024d0,
       0xd4001001, 0xf94003e1, 0x00000000]),
    (''highreserve_e'', 0x342dc, fromhex 4 0xa531ff17),
    (''highreserve_c'', 0x970, le_words [0xd10183ff, 0xa90007e0, 0xa9010fe2, 0xa90217e4, 0xa90327e8, 0xf90023f0,
       0xd2c00040, 0xf2b00000, 0xd2a58ec1, 0xd2800002, 0xd2820043, 0x92800004, 0xd2800005, 0xd28018b0, 0xd4001001,
       0x54000202, 0xd2c00049, 0xf2b00009, 0xeb09001f, 0x54000121, 0xf94023f0, 0xa94327e8, 0xa94217e4, 0xa9410fe2,
       0xa94007e0, 0x910183ff, 0xd503237f, 0x1400ce41, 0xd2a58ec1, 0xd2800930, 0xd4001001, 0xd2800ae0, 0xd2800030,
       0xd4001001, 0x14000000]),
    (''srpair_e'', 0x342dc, fromhex 4 0xa531ff17),
    (''srpair_c'', 0x970, le_words [0xd2800290, 0xd4001001, 0xd2800221, 0xd28004b0, 0xd4001001, 0xd2800000,
       0xd28024d0, 0xd4001001, 0xd10043ff, 0xf90003e0, 0xd2800040, 0x910003e1, 0xd2800102, 0xd2800090, 0xd4001001,
       0x910043ff, 0xd2800290, 0xd4001001, 0xd2800221, 0xd28004b0, 0xd4001001, 0x14000000]),
    (''mmprobe_e'', 0x342dc, fromhex 4 0xa531ff17),
    (''mmprobe_c'', 0x970, concat (map (fromhex 4) [0xff0301d1, 0xa00f0010, 0x010080d2, 0xb00080d2, 0x011000d4,
       0xe80300aa, 0x89c88852, 0xe90300f9, 0xe80700f9, 0x400080d2, 0xe1030091, 0x020280d2, 0x900080d2, 0x011000d4,
       0x000080d2, 0x0003c0f2, 0x010088d2, 0x620080d2, 0x430282d2, 0x8300a0f2, 0x04008092, 0x050080d2, 0xb01880d2,
       0x011000d4, 0xe90300aa, 0x2ac88952, 0xea0300f9, 0xe90700f9, 0x400080d2, 0xe1030091, 0x020280d2, 0x900080d2,
       0x011000d4, 0x000088d2, 0x0003c0f2, 0x010088d2, 0xa20080d2, 0x430280d2, 0x8300a0f2, 0xe40308aa, 0x050080d2,
       0xb01880d2, 0x011000d4, 0xe90300aa, 0xca888952, 0xea0300f9, 0xe90700f9, 0x400080d2, 0xe1030091, 0x020280d2,
       0x900080d2, 0x011000d4, 0x000080d2, 0xd02480d2, 0x011000d4, 0xe90300aa, 0x8a8a8852, 0xea0300f9, 0xe90700f9,
       0x400080d2, 0xe1030091, 0x020280d2, 0x900080d2, 0x011000d4, 0x000090d2, 0x0003c0f2, 0x010088d2, 0xa20080d2,
       0x430280d2, 0x8300a0f2, 0xe40308aa, 0x050080d2, 0xb01880d2, 0x011000d4, 0xe90300aa, 0xca488652, 0xea0300f9,
       0xe90700f9, 0x400080d2, 0xe1030091, 0x020280d2, 0x900080d2, 0x011000d4, 0x000098d2, 0xa08eb5f2, 0x4000c0f2,
       0x010088d2, 0xa20080d2, 0x430280d2, 0x8300a0f2, 0xe40308aa, 0x050080d2, 0xb01880d2, 0x011000d4, 0xe90300aa,
       0x0ae98852, 0xea0300f9, 0xe90700f9, 0x400080d2, 0xe1030091, 0x020280d2, 0x900080d2, 0x011000d4, 0x000080d2,
       0xc08eb5f2, 0x4000c0f2, 0x010088d2, 0x620080d2, 0x430282d2, 0x8300a0f2, 0x04008092, 0x050080d2, 0xb01880d2,
       0x011000d4, 0xe90300aa, 0x0a298852, 0xea0300f9, 0xe90700f9, 0x400080d2, 0xe1030091, 0x020280d2, 0x900080d2,
       0x011000d4, 0x400b80d2, 0x300080d2, 0x011000d4, 0x2f537973, 0x74656d2f, 0x4c696272, 0x6172792f, 0x64796c64,
       0x2f64796c, 0x645f7368, 0x61726564, 0x5f636163, 0x68655f61, 0x726d3634]) @ fromhex 2 0x6500),
    (''entryprobe'', 0x47c0, fromhex 4 0xb40a0114),
    (''entrycave'', 0x47290, le_words [0xd10103ff, 0x910003e0, 0xd28024d0, 0xd4001001, 0xb9000be0, 0xd2800040,
       0x910003e1, 0xd2800202, 0xd2800080, 0xd4001001, 0x17ffd037]),
    (''entryexit'', 0x3b394, le_words [0xd2800aa0, 0xd2800030, 0xd4001001]),
    (''retcave2'', 0x47290, le_words [0xd2800000, 0xd28024d0, 0xd4001001, 0xd2800030, 0xd4001001])]"

text \<open>The table \<open>P\<close>: a later assignment to a key replaces an earlier one.\<close>

definition all_patches :: "(string \<times> nat \<times> bytes) list" where
  "all_patches = patches_1 @ patches_2 @ patches_3 @ patches_4 @ patches_5 @ patches_6 @ marks_1 @ marks_2 @ patches_7 @ patches_8 @ patches_9 @ patches_10 @ patches_11 @ marks_3 @ patches_12 @ patches_13"

definition PATCHES :: "(string \<times> nat \<times> bytes) list" where
  "PATCHES = foldl (\<lambda>t (k, p). py_set t k p) [] all_patches"

definition DYLD_DEFAULT :: "string list" where
  "DYLD_DEFAULT = [''crossarch'', ''hasexisting'', ''prereuse'', ''filescount1'', ''dynoff'', ''accessor'', ''fcntl_nop'', ''cover_b'']"

end
