(* ===== verification/DyldBuild.thy ===== *)
theory DyldBuild
  imports DyldPatches
begin

text \<open>
  \<^verbatim>\<open>analysis/dyldwork/build_dyld.py\<close>: the guards on the keys, the patches and the rewriting of
  pointer-authenticated branches, on the bytes of the pristine file.
\<close>

unbundle bit_operations_syntax

subsection \<open>Rewriting authenticated branches\<close>

definition register_of :: "nat \<Rightarrow> nat" where "register_of w = drop_bit 5 w AND 0x1f"

definition dearm64e_word :: "nat \<Rightarrow> nat option" where
  "dearm64e_word w =
     (if w AND 0xfffffc00 = 0xd61f0800 \<or> w AND 0xfffffc00 = 0xd61f0c00 then Some (0xd61f0000 OR register_of w)
      else if w AND 0xfffffc00 = 0xd63f0800 \<or> w AND 0xfffffc00 = 0xd63f0c00 then Some (0xd63f0000 OR register_of w)
      else if w = 0xd65f0bff then Some 0xd65f03c0
      else None)"

text \<open>One turn of the loop: the data and the number of rewritten words.\<close>

definition dearm64e_step :: "nat \<Rightarrow> bytes \<times> nat \<Rightarrow> bytes \<times> nat" where
  "dearm64e_step off dn =
     (case dearm64e_word (u32 LE (fst dn) off) of
        None \<Rightarrow> dn
      | Some v \<Rightarrow> (put LE 4 (fst dn) off v, snd dn + 1))"

definition dearm64e :: "bytes \<Rightarrow> bytes \<times> nat" where
  "dearm64e d = fold dearm64e_step (map (\<lambda>k. 4 * k) [0..<(length d - 4 + 3) div 4]) (d, 0)"

subsection \<open>Guards\<close>

definition overlaps :: "string list \<Rightarrow> string \<Rightarrow> bool" where
  "overlaps own k =
     (case map_of PATCHES k of None \<Rightarrow> False
      | Some (off, b) \<Rightarrow> list_ex (\<lambda>k'. case map_of PATCHES k' of None \<Rightarrow> False
          | Some (site, blob) \<Rightarrow> off < site + length blob \<and> site < off + length b) own)"

definition pair_guard :: "string list \<Rightarrow> string list \<Rightarrow> string list \<Rightarrow> string \<Rightarrow> string \<Rightarrow> string list \<Rightarrow> unit result" where
  "pair_guard own needed excluded incomplete clash keys =
     (if \<not> list_ex (\<lambda>k. k \<in> set keys) own then Inr ()
      else if \<not> list_all (\<lambda>k. k \<in> set keys) needed \<or> list_ex (\<lambda>k. k \<in> set keys) excluded then Inl (SystemExit incomplete)
      else if list_ex (\<lambda>k. k \<notin> set (own @ [''dearm64e'']) \<and> overlaps own k) keys then Inl (SystemExit clash)
      else Inr ())"

definition SRPAIR :: "string list" where "SRPAIR = [''srpair_e'', ''srpair_c'']"
definition HIGHRESERVE :: "string list" where "HIGHRESERVE = [''highreserve_e'', ''highreserve_c'']"
definition EMPTYSR :: "string list" where "EMPTYSR = [''emptysr_e'', ''emptysr_c'']"

definition key_guards :: "string list \<Rightarrow> unit result" where
  "key_guards keys =
     bindE (pair_guard SRPAIR SRPAIR [''deallocnp'']
       ''srpair requires both keys and cannot be combined with deallocnp'' ''srpair conflicts with '' keys) (\<lambda>_.
     bindE (pair_guard HIGHRESERVE (HIGHRESERVE @ EMPTYSR) []
       ''highreserve requires both keys and the emptysr pair'' ''highreserve conflicts with '' keys) (\<lambda>_.
     pair_guard EMPTYSR EMPTYSR (''deallocnp'' # SRPAIR)
       ''emptysr requires both keys and cannot combine with deallocnp/srpair'' ''emptysr conflicts with '' keys))"

subsection \<open>Building\<close>

definition apply_key :: "string \<Rightarrow> bytes \<Rightarrow> bytes result" where
  "apply_key k d =
     (if k = ''dearm64e'' then Inr (fst (dearm64e d))
      else case map_of PATCHES k of
        None \<Rightarrow> Inl (SystemExit ''unknown patch: '')
      | Some (off, b) \<Rightarrow> Inr (splice d off b))"

definition build_dyld :: "bytes \<Rightarrow> string list \<Rightarrow> bytes result" where
  "build_dyld pristine arguments =
     (let keys = (if arguments = [] then DYLD_DEFAULT else arguments) in
      bindE (key_guards keys) (\<lambda>_.
      if ''emptysr_e'' \<in> set keys \<and> slice pristine 0x34228 4 \<noteq> fromhex 4 0x60000035
      then Inl (SystemExit ''emptysr original CBNZ word mismatch'')
      else foldE apply_key keys pristine))"

subsection \<open>The table\<close>

lemma length_le_words [simp]: "length (le_words ws) = 4 * length ws"
  by (induction ws) (simp_all add: le_words_def)

lemma length_fromhex [simp]: "length (fromhex n v) = n"
  by (simp add: fromhex_def)

lemma u32_le_words:
  assumes "j < length ws" and "ws ! j < 2 ^ 32"
  shows "u32 LE (le_words ws) (4 * j) = ws ! j"
  using assms
proof (induction ws arbitrary: j)
  case (Cons w ws)
  have s: "slice (enc LE 4 w @ b) 0 4 = enc LE 4 w" "slice (enc LE 4 w @ b) (4 + i) n = slice b i n" for b i n
    by (simp_all add: slice_def)
  show ?case
  proof (cases j)
    case 0
    with Cons.prems s(1) show ?thesis by (simp add: fld_def le_words_def dec_enc)
  next
    case (Suc i)
    with Cons have "u32 LE (le_words ws) (4 * i) = ws ! i" by simp
    then show ?thesis using s(2) [of "le_words ws" "4 * i" 4] by (simp add: Suc fld_def le_words_def)
  qed
qed simp

lemma map_of_foldl: "map_of (foldl (\<lambda>t (k, p). py_set t k p) t xs) = map_of t ++ map_of (rev xs)"
  by (induction xs arbitrary: t) (auto simp: map_add_def fun_eq_iff split: option.split)

lemma map_of_PATCHES: "map_of PATCHES = map_of (rev all_patches)"
  by (simp add: PATCHES_def map_of_foldl)

lemmas patch_tables = patches_1_def patches_2_def patches_3_def patches_4_def patches_5_def patches_6_def patches_7_def
  patches_8_def patches_9_def patches_10_def patches_11_def patches_12_def patches_13_def

lemmas mark_tables = marks_1_def marks_2_def marks_3_def mkmark_def mark_words_def

lemma patches_fit: "list_all (\<lambda>(k, off, b). off + length b \<le> 636748 \<and> off mod 4 = 0) all_patches"
  by (simp add: all_patches_def patch_tables mark_tables m5_def m6_def m7_def Let_def)

lemma patch_fits:
  assumes "map_of PATCHES k = Some (off, b)"
  shows "off + length b \<le> 636748 \<and> off mod 4 = 0"
proof -
  from assms have "(k, off, b) \<in> set all_patches" by (auto simp: map_of_PATCHES dest: map_of_SomeD)
  with patches_fit show ?thesis by (auto simp: list_all_iff)
qed

definition later :: "'k \<Rightarrow> 'v option \<Rightarrow> 'k \<times> 'v \<Rightarrow> 'v option" where
  "later k r kv = (if fst kv = k then Some (snd kv) else r)"

lemma map_of_rev: "map_of (rev xs) k = foldl (later k) None xs"
  by (induction xs rule: rev_induct) (auto simp: later_def)

lemma later_simps: "later k r (k', v) = (if k' = k then Some v else r)"
  by (simp add: later_def)


lemma look_up: "map_of PATCHES k = foldl (later k) (foldl (later k) (foldl (later k) (foldl (later k) (foldl (later k)
    (foldl (later k) (foldl (later k) (foldl (later k) (foldl (later k) (foldl (later k) (foldl (later k) (foldl (later k)
    (foldl (later k) (foldl (later k) (foldl (later k) (foldl (later k) None patches_1) patches_2) patches_3) patches_4)
    patches_5) patches_6) marks_1) marks_2) patches_7) patches_8) patches_9) patches_10) patches_11) marks_3) patches_12)
    patches_13"
  by (simp only: map_of_PATCHES map_of_rev all_patches_def foldl_append)

lemmas find_patch = look_up patch_tables marks_1_def marks_2_def marks_3_def mkmark_def later_simps

lemma emptysr_patches:
  "map_of PATCHES ''emptysr_e'' = Some (0x34228, fromhex 4 0x40830935)"
  "map_of PATCHES ''emptysr_c'' = Some (0x47290, concat (map (fromhex 4) [0x1f300071, 0x017df654, 0xe5b3ff17]))"
  by (simp_all add: find_patch)

lemma srpair_patches:
  "map_of PATCHES ''srpair_e'' = Some (0x342dc, fromhex 4 0xa531ff17)"
  "map_of PATCHES ''srpair_c'' = Some (0x970, le_words
     [0xd2800290, 0xd4001001, 0xd2800221, 0xd28004b0, 0xd4001001, 0xd2800000, 0xd28024d0, 0xd4001001, 0xd10043ff,
      0xf90003e0, 0xd2800040, 0x910003e1, 0xd2800102, 0xd2800090, 0xd4001001, 0x910043ff, 0xd2800290, 0xd4001001,
      0xd2800221, 0xd28004b0, 0xd4001001, 0x14000000])"
  by (simp_all add: find_patch)

lemma highreserve_patches:
  "map_of PATCHES ''highreserve_e'' = Some (0x342dc, fromhex 4 0xa531ff17)"
  "map_of PATCHES ''highreserve_c'' = Some (0x970, le_words
     [0xd10183ff, 0xa90007e0, 0xa9010fe2, 0xa90217e4, 0xa90327e8, 0xf90023f0, 0xd2c00040, 0xf2b00000, 0xd2a58ec1,
      0xd2800002, 0xd2820043, 0x92800004, 0xd2800005, 0xd28018b0, 0xd4001001, 0x54000202, 0xd2c00049, 0xf2b00009,
      0xeb09001f, 0x54000121, 0xf94023f0, 0xa94327e8, 0xa94217e4, 0xa9410fe2, 0xa94007e0, 0x910183ff, 0xd503237f,
      0x1400ce41, 0xd2a58ec1, 0xd2800930, 0xd4001001, 0xd2800ae0, 0xd2800030, 0xd4001001, 0x14000000])"
  by (simp_all add: find_patch)

subsection \<open>What a run leaves in place\<close>

text \<open>No word of the patch is one the rewriting of authenticated branches changes.\<close>

definition quiet :: "bytes \<Rightarrow> bool" where
  "quiet b \<longleftrightarrow> length b mod 4 = 0 \<and> list_all (\<lambda>j. dearm64e_word (u32 LE b (4 * j)) = None) [0..<length b div 4]"

definition in_place :: "string \<Rightarrow> bytes \<Rightarrow> bool" where
  "in_place k d = (case map_of PATCHES k of None \<Rightarrow> False | Some (off, b) \<Rightarrow> slice d off (length b) = b)"

lemma dearm64e_step_length: "off + 4 \<le> length (fst dn) \<Longrightarrow> length (fst (dearm64e_step off dn)) = length (fst dn)"
  by (auto simp: dearm64e_step_def split: option.split)

lemma quiet_step:
  assumes "slice (fst dn) site (length b) = b" and "quiet b" and "site mod 4 = 0" and "off mod 4 = 0"
    and "off + 4 \<le> length (fst dn)"
  shows "slice (fst (dearm64e_step off dn)) site (length b) = b"
proof (cases "site \<le> off \<and> off < site + length b")
  case True
  define j where "j = (off - site) div 4"
  from True assms(3,4) have off: "off = site + 4 * j" unfolding j_def by presburger
  have "length b mod 4 = 0" using assms(2) by (simp add: quiet_def)
  with True off have j: "j < length b div 4" "4 * j + 4 \<le> length b" by presburger+
  have "u32 LE b (4 * j) = u32 LE (fst dn) off"
    using fld_slice [of "4 * j" 4 "length b" LE "fst dn" site] j(2) assms(1) off by simp
  moreover have "\<forall>i < length b div 4. dearm64e_word (u32 LE b (4 * i)) = None"
    using assms(2) by (auto simp: quiet_def list_all_iff)
  ultimately have "dearm64e_word (u32 LE (fst dn) off) = None" using j(1) by metis
  with assms(1) show ?thesis by (simp add: dearm64e_step_def)
next
  case False
  have "length b mod 4 = 0" using assms(2) by (simp add: quiet_def)
  with False assms(3,4) have "site + length b \<le> off \<or> off + 4 \<le> site" by presburger
  with assms(1,5) show ?thesis by (auto simp: dearm64e_step_def slice_put split: option.split)
qed

lemma dearm64e_offsets: "off \<in> set (map (\<lambda>k. 4 * k) [0..<(n - 4 + 3) div 4]) \<Longrightarrow> off mod 4 = 0 \<and> off + 4 < n"
  by auto

lemma dearm64e_quiet:
  assumes "slice d site (length b) = b" and "quiet b" and "site mod 4 = 0"
  shows "length (fst (dearm64e d)) = length d \<and> slice (fst (dearm64e d)) site (length b) = b"
proof -
  let ?I = "\<lambda>dn. length (fst dn) = length d \<and> slice (fst dn) site (length b) = b"
  have "?I (fold dearm64e_step offs dn)" if "?I dn" and "\<And>off. off \<in> set offs \<Longrightarrow> off mod 4 = 0 \<and> off + 4 < length d" for offs dn
    using that
  proof (induction offs arbitrary: dn)
    case (Cons off offs)
    then have o: "off mod 4 = 0" "off + 4 < length (fst dn)" by auto
    with Cons.prems(1) assms(2,3) have "?I (dearm64e_step off dn)"
      by (auto simp: dearm64e_step_length intro!: quiet_step)
    with Cons.IH [of "dearm64e_step off dn"] Cons.prems(2) show ?case by simp
  qed simp
  from this [of "(d, 0)" "map (\<lambda>k. 4 * k) [0..<(length d - 4 + 3) div 4]"] dearm64e_offsets [of _ "length d"] assms(1)
  show ?thesis unfolding dearm64e_def by (simp del: set_map set_upt)
qed

lemma dearm64e_length: "length (fst (dearm64e d)) = length d"
  using dearm64e_quiet [of d 0 "[]"] by (simp add: slice_def quiet_def)

lemma apply_key_length:
  "apply_key k d = Inr d' \<Longrightarrow> 636748 \<le> length d \<Longrightarrow> length d' = length d"
  by (auto simp: apply_key_def dearm64e_length split: if_splits option.splits dest!: patch_fits)

lemma apply_key_self:
  "apply_key k d = Inr d' \<Longrightarrow> k \<noteq> ''dearm64e'' \<Longrightarrow> 636748 \<le> length d \<Longrightarrow> in_place k d'"
  by (auto simp: apply_key_def in_place_def slice_splice_same split: option.splits dest!: patch_fits)

text \<open>A key that neither overlaps nor rewrites a patch leaves it in place.\<close>

lemma apply_key_other:
  assumes "apply_key k d = Inr d'" and "in_place p d" and "636748 \<le> length d"
    and "k = ''dearm64e'' \<or> \<not> overlaps [p] k" and "\<And>off b. map_of PATCHES p = Some (off, b) \<Longrightarrow> quiet b"
  shows "in_place p d'"
proof -
  from assms(2) obtain off b where p: "map_of PATCHES p = Some (off, b)" "slice d off (length b) = b"
    by (auto simp: in_place_def split: option.splits)
  show ?thesis
  proof (cases "k = ''dearm64e''")
    case True
    with assms(1) dearm64e_quiet [OF p(2) assms(5) [OF p(1)]] patch_fits [OF p(1)] p show ?thesis
      by (auto simp: apply_key_def in_place_def)
  next
    case False
    with assms(1) obtain site blob where k: "map_of PATCHES k = Some (site, blob)" "d' = splice d site blob"
      by (auto simp: apply_key_def split: option.splits)
    from False assms(4) k p have "site + length blob \<le> off \<or> off + length b \<le> site"
      by (auto simp: overlaps_def)
    with p patch_fits [OF k(1)] assms(3) show ?thesis by (auto simp: k(2) in_place_def slice_splice_other)
  qed
qed

lemma run_in_place:
  assumes "foldE apply_key keys d = Inr out" and "636748 \<le> length d" and "p \<noteq> ''dearm64e''"
    and "p \<in> set keys \<or> in_place p d"
    and "\<And>k. k \<in> set keys \<Longrightarrow> k = p \<or> k = ''dearm64e'' \<or> \<not> overlaps [p] k"
    and "\<And>off b. map_of PATCHES p = Some (off, b) \<Longrightarrow> quiet b"
  shows "in_place p out \<and> length out = length d"
  using assms
proof (induction keys arbitrary: d)
  case (Cons k keys)
  then obtain mid where m: "apply_key k d = Inr mid" and r: "foldE apply_key keys mid = Inr out" by auto
  have len: "length mid = length d" by (rule apply_key_length [OF m Cons.prems(2)])
  have "p \<in> set keys \<or> in_place p mid"
  proof (cases "k = p")
    case True
    with apply_key_self [OF m] Cons.prems(2,3) show ?thesis by simp
  next
    case False
    with Cons.prems(4) consider "p \<in> set keys" | "in_place p d" by auto
    then show ?thesis
    proof cases
      case 2
      with apply_key_other [OF m 2 Cons.prems(2)] False Cons.prems(5) [of k] Cons.prems(6) show ?thesis by auto
    qed simp
  qed
  with Cons.IH [OF r] Cons.prems(2,3,5,6) len show ?case by simp
qed simp

lemma u32_fromhex: "u32 LE (fromhex 4 v) 0 = dec LE (fromhex 4 v)"
  by (simp add: fld_def slice_def)

lemma quiet_le_words:
  assumes "list_all (\<lambda>w. w < 2 ^ 32 \<and> dearm64e_word w = None) ws"
  shows "quiet (le_words ws)"
  using assms by (auto simp: quiet_def list_all_iff u32_le_words)

definition bswap :: "nat \<Rightarrow> nat" where "bswap v = dec LE (enc BE 4 v)"

lemma fromhex_words: "fromhex 4 v = le_words [bswap v]" "concat (map (fromhex 4) vs) = le_words (map bswap vs)"
proof -
  have "enc BE 4 v = enc LE 4 (bswap v)" for v using enc_dec [of LE "enc BE 4 v"] by (simp add: bswap_def)
  then show "fromhex 4 v = le_words [bswap v]" "concat (map (fromhex 4) vs) = le_words (map bswap vs)"
    by (induction vs) (simp_all add: fromhex_def le_words_def)
qed

lemma bswap_bound: "bswap v < 2 ^ 32"
  using dec_bound [of LE "enc BE 4 v"] by (simp add: bswap_def)

lemma pair_words_quiet:
  "map bswap [0xa531ff17, 0x40830935, 0x1f300071, 0x017df654, 0xe5b3ff17] = [0x17ff31a5, 0x35098340, 0x7100301f, 0x54f67d01, 0x17ffb3e5]"
  "list_all (\<lambda>w. w < 2 ^ 32 \<and> dearm64e_word w = None) [0x17ff31a5, 0x35098340, 0x7100301f, 0x54f67d01, 0x17ffb3e5]"
  by (code_simp, simp add: dearm64e_word_def)

lemma pair_blobs_quiet:
  "quiet (fromhex 4 0xa531ff17)" "quiet (fromhex 4 0x40830935)"
  "quiet (concat (map (fromhex 4) [0x1f300071, 0x017df654, 0xe5b3ff17]))"
  unfolding fromhex_words by (rule quiet_le_words, use pair_words_quiet in simp)+

lemma cave_words_quiet: "list_all (\<lambda>w. w < 2 ^ 32 \<and> dearm64e_word w = None)
    [0x14000000, 0x1400ce41, 0x54000121, 0x54000202, 0x910003e1, 0x910043ff, 0x910183ff, 0x92800004, 0xa90007e0,
     0xa9010fe2, 0xa90217e4, 0xa90327e8, 0xa94007e0, 0xa9410fe2, 0xa94217e4, 0xa94327e8, 0xd10043ff, 0xd10183ff,
     0xd2800000, 0xd2800002, 0xd2800005, 0xd2800030, 0xd2800040, 0xd2800090, 0xd2800102, 0xd2800221, 0xd2800290,
     0xd28004b0, 0xd2800930, 0xd2800ae0, 0xd28018b0, 0xd28024d0, 0xd2820043, 0xd2a58ec1, 0xd2c00040, 0xd2c00049,
     0xd4001001, 0xd503237f, 0xeb09001f, 0xf2b00000, 0xf2b00009, 0xf90003e0, 0xf90023f0, 0xf94023f0]"
  by code_simp

lemma listed_quiet: "list_all Q xs \<Longrightarrow> set ws \<subseteq> set xs \<Longrightarrow> list_all Q ws"
  by (auto simp: list_all_iff)

lemma pair_quiet_of:
  "map_of PATCHES ''srpair_c'' = Some (off, b) \<Longrightarrow> quiet b" "map_of PATCHES ''highreserve_c'' = Some (off, b) \<Longrightarrow> quiet b"
  unfolding srpair_patches highreserve_patches option.inject prod.inject
  by (elim conjE, hypsubst, rule quiet_le_words, rule listed_quiet [OF cave_words_quiet], simp)+

lemma pair_quiet_at:
  "map_of PATCHES ''srpair_e'' = Some (off, b) \<Longrightarrow> quiet b" "map_of PATCHES ''highreserve_e'' = Some (off, b) \<Longrightarrow> quiet b"
  "map_of PATCHES ''emptysr_e'' = Some (off, b) \<Longrightarrow> quiet b" "map_of PATCHES ''emptysr_c'' = Some (off, b) \<Longrightarrow> quiet b"
  unfolding srpair_patches highreserve_patches emptysr_patches option.inject prod.inject
  by (elim conjE, hypsubst, rule pair_blobs_quiet)+

lemma pair_quiet:
  assumes "p \<in> set (SRPAIR @ HIGHRESERVE @ EMPTYSR)" and "map_of PATCHES p = Some (off, b)"
  shows "quiet b"
proof -
  from assms(1) have "p = ''srpair_e'' \<or> p = ''srpair_c'' \<or> p = ''highreserve_e'' \<or> p = ''highreserve_c'' \<or>
    p = ''emptysr_e'' \<or> p = ''emptysr_c''" by (simp add: SRPAIR_def HIGHRESERVE_def EMPTYSR_def)
  with assms(2) show ?thesis using pair_quiet_of [of off b] pair_quiet_at [of off b] by metis
qed

lemma pair_guard_Inr:
  assumes "pair_guard own needed excluded m1 m2 keys = Inr ()" and "list_ex (\<lambda>k. k \<in> set keys) own" and "set own \<subseteq> set needed"
  shows "set own \<subseteq> set keys \<and> (\<forall>k \<in> set keys. k \<in> set own \<or> k = ''dearm64e'' \<or> \<not> overlaps own k)"
  using assms by (auto simp: pair_guard_def list_all_iff list_ex_iff split: if_splits)

lemma overlaps_own: "p \<in> set own \<Longrightarrow> \<not> overlaps own k \<Longrightarrow> \<not> overlaps [p] k"
  by (auto simp: overlaps_def list_ex_iff split: option.splits) fastforce

lemma pairs_apart:
  "list_all (\<lambda>own. list_all (\<lambda>p. list_all (\<lambda>k. k = p \<or> \<not> overlaps [p] k) own) own) [SRPAIR, HIGHRESERVE, EMPTYSR]"
  by (simp add: SRPAIR_def HIGHRESERVE_def EMPTYSR_def overlaps_def srpair_patches highreserve_patches emptysr_patches)

text \<open>
  C38: A guarded pair of patches survives the build.  When a key of one of the three guarded pairs is given and the
  build succeeds, both patches of the pair stand at their places in the output, whatever other keys are given and in
  whatever order, the rewriting of authenticated branches included, and the file keeps its length.
\<close>

theorem guarded_pair_kept:
  assumes "build_dyld pristine keys = Inr out" and "636748 \<le> length pristine"
    and "own \<in> {SRPAIR, HIGHRESERVE, EMPTYSR}" and "list_ex (\<lambda>k. k \<in> set keys) own"
  shows "length out = length pristine \<and> list_all (\<lambda>p. case map_of PATCHES p of None \<Rightarrow> False
     | Some (off, b) \<Rightarrow> slice out off (length b) = b) own"
proof -
  from assms(4) have "keys \<noteq> []" by (auto simp: list_ex_iff)
  with assms(1) have run: "foldE apply_key keys pristine = Inr out" and guards: "key_guards keys = Inr ()"
    by (auto simp: build_dyld_def Let_def split: if_splits)
  have k: "set own \<subseteq> set keys \<and> (\<forall>k \<in> set keys. k \<in> set own \<or> k = ''dearm64e'' \<or> \<not> overlaps own k)"
  proof -
    obtain needed excluded m1 m2 where "pair_guard own needed excluded m1 m2 keys = Inr ()" "set own \<subseteq> set needed"
      using guards assms(3) unfolding key_guards_def by auto
    with pair_guard_Inr assms(4) show ?thesis by blast
  qed
  have "in_place p out \<and> length out = length pristine" if p: "p \<in> set own" for p
  proof (rule run_in_place [OF run assms(2)])
    have own: "p \<in> set (SRPAIR @ HIGHRESERVE @ EMPTYSR)" using p assms(3) by auto
    then show "p \<noteq> ''dearm64e''" by (auto simp: SRPAIR_def HIGHRESERVE_def EMPTYSR_def)
    show "p \<in> set keys \<or> in_place p pristine" using k p by blast
    show "quiet b" if "map_of PATCHES p = Some (off, b)" for off b by (rule pair_quiet [OF own that])
    fix key assume "key \<in> set keys"
    with k consider "key \<in> set own" | "key = ''dearm64e''" | "\<not> overlaps own key" by blast
    then show "key = p \<or> key = ''dearm64e'' \<or> \<not> overlaps [p] key"
      using pairs_apart assms(3) p overlaps_own [OF p] by cases (auto simp: list_all_iff)
  qed
  moreover obtain p where "p \<in> set own" using assms(4) by (auto simp: list_ex_iff)
  ultimately show ?thesis unfolding list_all_iff in_place_def by blast
qed

theorem guarded_pair_kept_witness:
  "\<exists>out. build_dyld (replicate 636748 0) [''srpair_c'', ''dearm64e'', ''srpair_e''] = Inr out \<and> length out = 636748 \<and>
     slice out 0x342dc 4 = fromhex 4 0xa531ff17"
proof -
  let ?keys = "[''srpair_c'', ''dearm64e'', ''srpair_e'']"
  have g: "key_guards ?keys = Inr ()"
    by (simp add: key_guards_def pair_guard_def SRPAIR_def HIGHRESERVE_def EMPTYSR_def)
  have "\<exists>out. foldE apply_key ?keys d = Inr out" for d
    by (simp add: apply_key_def srpair_patches)
  then obtain out where "foldE apply_key ?keys (replicate 636748 0) = Inr out" by blast
  with g have run: "build_dyld (replicate 636748 0) ?keys = Inr out"
    by (simp add: build_dyld_def Let_def del: foldE.simps)
  have "list_ex (\<lambda>k. k \<in> set ?keys) SRPAIR" by (simp add: SRPAIR_def)
  from guarded_pair_kept [OF run _ _ this] have "length out = 636748 \<and> list_all (\<lambda>p. case map_of PATCHES p of None \<Rightarrow> False
     | Some (off, b) \<Rightarrow> slice out off (length b) = b) SRPAIR" by simp
  with run show ?thesis by (simp add: SRPAIR_def srpair_patches)
qed

subsection \<open>The rewriting of authenticated branches\<close>

definition rewritten :: "nat \<Rightarrow> nat" where
  "rewritten w = (case dearm64e_word w of None \<Rightarrow> w | Some v \<Rightarrow> v)"

lemma or_bound: "x < 2 ^ n \<Longrightarrow> y < 2 ^ n \<Longrightarrow> (x OR y :: nat) < 2 ^ n"
proof -
  assume "x < 2 ^ n" "y < 2 ^ n"
  then have "take_bit n x = x" "take_bit n y = y" by (simp_all add: take_bit_nat_eq_self)
  then have "take_bit n (x OR y) = x OR y" by (simp add: take_bit_or)
  then show ?thesis by (metis take_bit_nat_less_exp)
qed

lemma register_of_bound: "register_of w < 2 ^ 32"
proof -
  have "register_of w = take_bit 5 (drop_bit 5 w)" by (simp add: register_of_def take_bit_eq_mask mask_eq_exp_minus_1)
  also have "\<dots> < 2 ^ 5" by (rule take_bit_nat_less_exp)
  finally show ?thesis by simp
qed

lemma dearm64e_word_bound: "dearm64e_word w = Some v \<Longrightarrow> v < 256 ^ 4"
  using or_bound [of "0xd61f0000" 32 "register_of w"] or_bound [of "0xd63f0000" 32 "register_of w"] register_of_bound [of w]
  by (auto simp: dearm64e_word_def split: if_splits)

lemma dearm64e_prefix:
  assumes "4 * n \<le> length d"
  shows "\<exists>d'. fold dearm64e_step (map (\<lambda>k. 4 * k) [0..<n]) (d, 0) =
      (d', length (filter (\<lambda>k. dearm64e_word (u32 LE d (4 * k)) \<noteq> None) [0..<n])) \<and> length d' = length d \<and>
    (\<forall>k. u32 LE d' (4 * k) = (if k < n then rewritten (u32 LE d (4 * k)) else u32 LE d (4 * k)))"
  using assms
proof (induction n)
  case (Suc n)
  then obtain d' where d': "fold dearm64e_step (map (\<lambda>k. 4 * k) [0..<n]) (d, 0) =
      (d', length (filter (\<lambda>k. dearm64e_word (u32 LE d (4 * k)) \<noteq> None) [0..<n]))" "length d' = length d"
    "\<And>k. u32 LE d' (4 * k) = (if k < n then rewritten (u32 LE d (4 * k)) else u32 LE d (4 * k))" by auto
  have here: "u32 LE d' (4 * n) = u32 LE d (4 * n)" using d'(3) [of n] by simp
  have step: "fold dearm64e_step (map (\<lambda>k. 4 * k) [0..<Suc n]) (d, 0) = dearm64e_step (4 * n)
      (d', length (filter (\<lambda>k. dearm64e_word (u32 LE d (4 * k)) \<noteq> None) [0..<n]))" using d'(1) by simp
  show ?case
  proof (cases "dearm64e_word (u32 LE d (4 * n))")
    case None
    with d'(2,3) here show ?thesis unfolding step by (auto simp: dearm64e_step_def rewritten_def less_Suc_eq)
  next
    case (Some v)
    have room: "4 * n + 4 \<le> length d'" using Suc.prems d'(2) by simp
    have "u32 LE (put LE 4 d' (4 * n) v) (4 * k) = (if k = n then v else u32 LE d' (4 * k))" for k
      using fld_put [OF room dearm64e_word_bound [OF Some]] fld_put_other [OF room, of "4 * k" 4] by (cases k n rule: linorder_cases) auto
    with d'(2,3) here Some room show ?thesis unfolding step by (auto simp: dearm64e_step_def rewritten_def less_Suc_eq)
  qed
qed simp

lemma rewritten_branches:
  "list_all (\<lambda>r. rewritten (0xd61f081f + 32 * r) = 0xd61f0000 + r \<and> rewritten (0xd63f081f + 32 * r) = 0xd63f0000 + r \<and>
     (rewritten (0xd61f081f + 32 * r) = 0xd61f0000 + 32 * r) = (r = 0)) [0..<32]"
  by code_simp

text \<open>
  C40: The rewriting of authenticated branches is exact, and wrong for every register but x0.  All words but the
  last are rewritten one by one, the last and whatever follows it are kept, and the count is that of the words
  changed; but an authenticated branch or call through a register is given the number of the register in its five
  lowest bits instead of bits 5 to 9, so that it is the plain branch or call through this register for x0 only.
\<close>

theorem dearm64e_exact:
  "length (fst (dearm64e d)) = length d \<and>
   snd (dearm64e d) = length (filter (\<lambda>k. dearm64e_word (u32 LE d (4 * k)) \<noteq> None) [0..<(length d - 1) div 4]) \<and>
   (\<forall>k. u32 LE (fst (dearm64e d)) (4 * k) =
      (if 4 * k + 4 < length d then rewritten (u32 LE d (4 * k)) else u32 LE d (4 * k))) \<and>
   list_all (\<lambda>r. rewritten (0xd61f081f + 32 * r) = 0xd61f0000 + r \<and> rewritten (0xd63f081f + 32 * r) = 0xd63f0000 + r \<and>
     (rewritten (0xd61f081f + 32 * r) = 0xd61f0000 + 32 * r) = (r = 0)) [0..<32]"
proof -
  have n: "(length d - 4 + 3) div 4 = (length d - 1) div 4" by (cases "length d < 4") auto
  have "4 * ((length d - 1) div 4) \<le> length d" by linarith
  from dearm64e_prefix [OF this] have a: "length (fst (dearm64e d)) = length d"
    "snd (dearm64e d) = length (filter (\<lambda>k. dearm64e_word (u32 LE d (4 * k)) \<noteq> None) [0..<(length d - 1) div 4])"
    "\<forall>k. u32 LE (fst (dearm64e d)) (4 * k) =
      (if k < (length d - 1) div 4 then rewritten (u32 LE d (4 * k)) else u32 LE d (4 * k))"
    unfolding dearm64e_def n by auto
  have "k < (length d - 1) div 4 \<longleftrightarrow> 4 * k + 4 < length d" for k by linarith
  with a rewritten_branches show ?thesis by (simp only: simp_thms)
qed

subsection \<open>Patches in the wrong byte order\<close>

definition words_of :: "bytes \<Rightarrow> nat list" where
  "words_of b = map (\<lambda>j. u32 LE b (4 * j)) [0..<length b div 4]"

lemma words_of_le_words: "list_all (\<lambda>w. w < 2 ^ 32) ws \<Longrightarrow> words_of (le_words ws) = ws"
  by (rule nth_equalityI) (auto simp: words_of_def list_all_iff u32_le_words)

text \<open>The supervisor call and the return.\<close>

definition leaves :: "nat \<Rightarrow> bool" where "leaves w \<longleftrightarrow> w = 0xd4001001 \<or> w = 0xd65f03c0"

definition reversed_words :: "(string \<times> nat list) list" where
  "reversed_words = [
     (''platstub'', [0x20008052, 0xc0035fd6]),
     (''errprobeW'', [0xff8300d1, 0xe00300f9, 0xe1030091, 0x400080d2, 0x020180d2, 0x900080d2, 0x011000d4, 0x40058052,
        0x200080d2, 0x011000d4]),
     (''errno536'', [0x001c0012, 0x200080d2, 0x011000d4]),
     (''probeS'', [0x28088052, 0x300080d2, 0x011000d4]),
     (''probeE'', [0x001c0012, 0x300080d2, 0x011000d4]),
     (''errno536b'', [0xa8030090, 0x00c542b9, 0x001c0012, 0x200080d2, 0x011000d4]),
     (''errnoc'', [0x48d03bd5, 0x080540f9, 0x480000b4, 0x000140b9, 0x001c0012, 0x200080d2, 0x011000d4]),
     (''errprobeSP'', [0xe1030011, 0x200c0012, 0x200080d2, 0x011000d4])]"

lemma reversed_0:
  "map_of PATCHES ''platstub'' = Some (0x7e970, le_words [0x20008052, 0xc0035fd6])"
  "map_of PATCHES ''errprobeW'' = Some (0x35698, le_words [0xff8300d1, 0xe00300f9, 0xe1030091, 0x400080d2, 0x020180d2, 0x900080d2, 0x011000d4, 0x40058052, 0x200080d2, 0x011000d4])"
  by (simp_all add: find_patch)

lemma reversed_1:
  "map_of PATCHES ''errno536'' = Some (0x76e00, le_words [0x001c0012, 0x200080d2, 0x011000d4])"
  "map_of PATCHES ''probeS'' = Some (0x47c0, le_words [0x28088052, 0x300080d2, 0x011000d4])"
  by (simp_all add: find_patch)

lemma reversed_2:
  "map_of PATCHES ''probeE'' = Some (0x35698, le_words [0x001c0012, 0x300080d2, 0x011000d4])"
  "map_of PATCHES ''errno536b'' = Some (0x35698, le_words [0xa8030090, 0x00c542b9, 0x001c0012, 0x200080d2, 0x011000d4])"
  by (simp_all add: find_patch)

lemma reversed_3:
  "map_of PATCHES ''errnoc'' = Some (0x356d8, le_words [0x48d03bd5, 0x080540f9, 0x480000b4, 0x000140b9, 0x001c0012, 0x200080d2, 0x011000d4])"
  "map_of PATCHES ''errprobeSP'' = Some (0x35698, le_words [0xe1030011, 0x200c0012, 0x200080d2, 0x011000d4])"
  by (simp_all add: find_patch)

lemma reversed_found:
  "map (\<lambda>(k, ws). map_option snd (map_of PATCHES k)) reversed_words = map (\<lambda>(k, ws). Some (le_words ws)) reversed_words"
  by (simp add: reversed_words_def reversed_0 reversed_1 reversed_2 reversed_3)

lemma bswap_leaves: "bswap 0x011000d4 = 0xd4001001" "bswap 0xc0035fd6 = 0xd65f03c0" "bswap 0x00008052 = 0x52800000"
  by code_simp+

lemma reversed_swapped:
  "list_all (\<lambda>(k, ws). list_all (\<lambda>w. w < 2 ^ 32 \<and> \<not> leaves w) ws \<and> list_ex (\<lambda>w. leaves (bswap w)) ws) reversed_words"
  by (simp add: reversed_words_def leaves_def bswap_leaves)

text \<open>
  Eight patches are written with the bytes of every instruction reversed.  Their literals are in the order of the
  file already, and \<open>_le\<close> reverses them again: none of the words the file holds leaves the patch by a supervisor call
  or a return, which all of them do after reversing the bytes back; the stub meant to return 1 holds the words
  \<open>0x20008052\<close>, \<open>0xc0035fd6\<close> where the stub that returns 0, written by \<open>bytes.fromhex\<close>, is well formed.
\<close>

theorem reversed_patches:
  "list_all (\<lambda>k. case map_of PATCHES k of None \<Rightarrow> False
     | Some (off, b) \<Rightarrow> \<not> list_ex leaves (words_of b) \<and> list_ex leaves (map bswap (words_of b)))
     [''platstub'', ''errprobeW'', ''errno536'', ''probeS'', ''probeE'', ''errno536b'', ''errnoc'', ''errprobeSP''] \<and>
   map_option (words_of \<circ> snd) (map_of PATCHES ''platstub'') = Some [0x20008052, 0xc0035fd6] \<and>
   map_option (words_of \<circ> snd) (map_of PATCHES ''hasexisting'') = Some [0x52800000, 0xd65f03c0]"
proof -
  have one: "case map_of PATCHES k of None \<Rightarrow> False
     | Some (off, b) \<Rightarrow> \<not> list_ex leaves (words_of b) \<and> list_ex leaves (map bswap (words_of b))"
    if "(k, ws) \<in> set reversed_words" for k ws
  proof -
    from that have "list_all (\<lambda>w. w < 2 ^ 32 \<and> \<not> leaves w) ws" and e: "list_ex (\<lambda>w. leaves (bswap w)) ws"
      using reversed_swapped by (auto simp: list_all_iff)
    then have w: "words_of (le_words ws) = ws" "\<not> list_ex leaves ws"
      by (auto simp: list_all_iff list_ex_iff intro!: words_of_le_words)
    from that reversed_found have "map_option snd (map_of PATCHES k) = Some (le_words ws)" by (auto simp: map_eq_conv)
    then obtain off where "map_of PATCHES k = Some (off, le_words ws)" by auto
    with w e show ?thesis by (auto simp: list_ex_iff)
  qed
  have p: "map_of PATCHES ''platstub'' = Some (0x7e970, le_words [0x20008052, 0xc0035fd6])"
    "map_of PATCHES ''hasexisting'' = Some (0x30140, concat (map (fromhex 4) [0x00008052, 0xc0035fd6]))"
    by (simp_all add: find_patch)
  from p have "map_option (words_of \<circ> snd) (map_of PATCHES ''platstub'') = Some [0x20008052, 0xc0035fd6]"
    "map_option (words_of \<circ> snd) (map_of PATCHES ''hasexisting'') = Some [0x52800000, 0xd65f03c0]"
    unfolding p fromhex_words by (simp_all add: words_of_le_words bswap_leaves)
  moreover have "map fst reversed_words =
      [''platstub'', ''errprobeW'', ''errno536'', ''probeS'', ''probeE'', ''errno536b'', ''errnoc'', ''errprobeSP'']"
    by (simp add: reversed_words_def)
  ultimately show ?thesis using one unfolding list_all_iff by (metis (no_types, lifting) imageE list.set_map prod.collapse)
qed

end
