(* ===== verification/DyldMarker.thy ===== *)
theory DyldMarker
  imports DyldPatches
begin

text \<open>
  What the markers of \<^verbatim>\<open>analysis/dyldwork/build_dyld.py\<close> (\<open>_mkmark\<close>) do when they run.  The AArch64
  instructions a marker consists of are executed on the general registers, the stack pointer and the memory; a
  supervisor call is a \<open>write\<close>, recorded with the bytes it is given, after which \<open>x0\<close> and \<open>x1\<close> hold what the
  sys returns.
\<close>

unbundle bit_operations_syntax

type_synonym addr = "64 word"

record cpu =
  reg :: "nat \<Rightarrow> 64 word"
  sp :: addr
  mem :: "addr \<Rightarrow> byte"
  wrote :: "(64 word \<times> bytes) list"

subsection \<open>Memory\<close>

definition store :: "addr \<Rightarrow> bytes \<Rightarrow> (addr \<Rightarrow> byte) \<Rightarrow> addr \<Rightarrow> byte" where
  "store a bs m = (\<lambda>x. let i = unat (x - a) in if i < length bs then bs ! i else m x)"

definition load :: "addr \<Rightarrow> nat \<Rightarrow> (addr \<Rightarrow> byte) \<Rightarrow> bytes" where
  "load a n m = map (\<lambda>i. m (a + of_nat i)) [0..<n]"

definition word_bytes :: "64 word \<Rightarrow> bytes" where "word_bytes v = enc LE 8 (unat v)"
definition bytes_word :: "bytes \<Rightarrow> 64 word" where "bytes_word bs = of_nat (dec LE bs)"

lemma length_word_bytes [simp]: "length (word_bytes v) = 8"
  by (simp add: word_bytes_def)

lemma bytes_word_bytes [simp]: "bytes_word (word_bytes v) = v"
proof -
  have "unat v < 256 ^ 8" using unsigned_less [of v] by simp
  then show ?thesis by (simp add: bytes_word_def word_bytes_def dec_enc)
qed

lemma offset_apart:
  assumes "i < 2 ^ 63" and "j < 2 ^ 63"
  shows "unat ((a :: addr) + of_nat i - (a + of_nat j)) = (if j \<le> i then i - j else 2 ^ 64 - (j - i))"
proof (cases "j \<le> i")
  case True
  then have e: "a + of_nat i - (a + of_nat j) = (of_nat (i - j) :: addr)" by (simp add: of_nat_diff)
  show ?thesis unfolding e unat_of_nat using True assms by simp
next
  case False
  with assms have d: "j - i \<le> 2 ^ 64" "j = i + (j - i)" by simp_all
  have "(of_nat (2 ^ 64 - (j - i)) :: addr) = of_nat (2 ^ 64) - of_nat (j - i)" by (rule of_nat_diff [OF d(1)])
  also have "(of_nat (2 ^ 64) :: addr) = 0" by simp
  finally have e: "a + of_nat i - (a + of_nat j) = (of_nat (2 ^ 64 - (j - i)) :: addr)"
    by (subst d(2)) (simp only: of_nat_add, simp)
  show ?thesis unfolding e unat_of_nat using False assms by simp
qed

definition slot :: "addr \<Rightarrow> nat \<Rightarrow> addr" where "slot a k = a + of_nat k"

lemma load_store_same:
  assumes "n = length bs" and "k + n < 2 ^ 63"
  shows "load (slot a k) n (store (slot a k) bs m) = bs"
proof (rule nth_equalityI)
  fix i assume "i < length (load (slot a k) n (store (slot a k) bs m))"
  then have i: "i < n" by (simp add: load_def)
  have "unat (slot a k + of_nat i - slot a k) = i"
    using i assms by (simp add: unat_of_nat)
  with i assms(1) show "load (slot a k) n (store (slot a k) bs m) ! i = bs ! i"
    by (simp add: load_def store_def)
qed (simp add: load_def assms(1))

lemma load_store_other:
  assumes "k + n \<le> j \<or> j + length bs \<le> k" and "k + n < 2 ^ 63" and "j + length bs < 2 ^ 63"
  shows "load (slot a k) n (store (slot a j) bs m) = load (slot a k) n m"
proof -
  have "\<not> unat (slot a k + of_nat i - slot a j) < length bs" if "i < n" for i
    using offset_apart [of "k + i" j a] that assms by (auto simp: slot_def add.assoc split: if_splits)
  then show ?thesis by (simp add: load_def store_def)
qed

lemma store_append:
  assumes "k + length x + length y < 2 ^ 63"
  shows "store (slot a k) (x @ y) m = store (slot a (k + length x)) y (store (slot a k) x m)"
proof
  fix p
  define u where "u = unat (p - slot a k)"
  have p: "p = slot a k + of_nat u" by (simp add: u_def)
  show "store (slot a k) (x @ y) m p = store (slot a (k + length x)) y (store (slot a k) x m) p"
  proof (cases "u < 2 ^ 63")
    case True
    have "unat (p - slot a (k + length x)) = (if length x \<le> u then u - length x else 2 ^ 64 - (length x - u))"
      using offset_apart [of u "length x" "slot a k"] True assms unfolding p by (simp add: slot_def add.assoc)
    with True assms show ?thesis by (auto simp: store_def u_def [symmetric] nth_append Let_def)
  next
    case False
    have "slot a (k + length x) = slot a k + of_nat (length x)" by (simp add: slot_def)
    moreover have "length x \<le> u" using False assms by simp
    ultimately have e: "p - slot a (k + length x) = of_nat (u - length x)" unfolding p by (simp add: of_nat_diff)
    have "u < 2 ^ 64" unfolding u_def using unsigned_less [of "p - slot a k"] by simp
    then have "unat (p - slot a (k + length x)) = u - length x" unfolding e unat_of_nat by simp
    with False assms show ?thesis by (auto simp: store_def u_def [symmetric] Let_def)
  qed
qed

subsection \<open>Instructions\<close>

definition field :: "nat \<Rightarrow> nat \<Rightarrow> nat \<Rightarrow> nat" where "field w i k = w div 2 ^ i mod 2 ^ k"

definition base_of :: "cpu \<Rightarrow> nat \<Rightarrow> addr" where "base_of c r = (if r = 31 then sp c else reg c r)"
definition read_reg :: "cpu \<Rightarrow> nat \<Rightarrow> 64 word" where "read_reg c r = (if r = 31 then 0 else reg c r)"

definition set_base :: "nat \<Rightarrow> 64 word \<Rightarrow> cpu \<Rightarrow> cpu" where
  "set_base r v c = (if r = 31 then c\<lparr>sp := v\<rparr> else c\<lparr>reg := (reg c)(r := v)\<rparr>)"

definition set_reg :: "nat \<Rightarrow> 64 word \<Rightarrow> cpu \<Rightarrow> cpu" where
  "set_reg r v c = (if r = 31 then c else c\<lparr>reg := (reg c)(r := v)\<rparr>)"

text \<open>
  \<open>SUB\<close> and \<open>ADD\<close> (immediate), \<open>STP\<close> and \<open>LDP\<close> (signed offset, here not negative), \<open>STR\<close> of 32 bits (unsigned
  offset), \<open>MOVZ\<close> of both widths and the system call \<open>write\<close>; any other word has no meaning here.
\<close>

definition exec_insn :: "(cpu \<Rightarrow> 64 word \<times> 64 word) \<Rightarrow> nat \<Rightarrow> cpu \<Rightarrow> cpu option" where
  "exec_insn sys w c =
     (let rd = field w 0 5; base = base_of c (field w 5 5); imm12 = field w 10 12; pair = field w 15 7; rt2 = field w 10 5 in
      if field w 22 10 = 0x344 then Some (set_base rd (base - of_nat imm12) c)
      else if field w 22 10 = 0x244 then Some (set_base rd (base + of_nat imm12) c)
      else if field w 22 10 = 0x2a4 \<and> pair < 64
      then Some (c\<lparr>mem := store (base + of_nat (8 * pair)) (word_bytes (read_reg c rd) @ word_bytes (read_reg c rt2)) (mem c)\<rparr>)
      else if field w 22 10 = 0x2a5 \<and> pair < 64
      then Some (set_reg rt2 (bytes_word (load (base + of_nat (8 * pair + 8)) 8 (mem c)))
             (set_reg rd (bytes_word (load (base + of_nat (8 * pair)) 8 (mem c))) c))
      else if field w 22 10 = 0x2e4
      then Some (c\<lparr>mem := store (base + of_nat (4 * imm12)) (take 4 (word_bytes (read_reg c rd))) (mem c)\<rparr>)
      else if field w 23 9 = 0xa5 \<or> field w 23 9 = 0x1a5
      then Some (set_reg rd (of_nat (field w 5 16 * 2 ^ (16 * field w 21 2))) c)
      else if w = 0xd4001001 \<and> reg c 16 = 4
      then Some (case sys c of (r, r') \<Rightarrow>
             c\<lparr>wrote := wrote c @ [(reg c 0, load (reg c 1) (unat (reg c 2)) (mem c))], reg := (reg c)(0 := r, 1 := r')\<rparr>)
      else None)"

fun exec_insns :: "(cpu \<Rightarrow> 64 word \<times> 64 word) \<Rightarrow> nat list \<Rightarrow> cpu \<Rightarrow> cpu option" where
  "exec_insns sys [] c = Some c"
| "exec_insns sys (w # ws) c = Option.bind (exec_insn sys w c) (exec_insns sys ws)"

text \<open>Where an unconditional branch at a place leads.\<close>

definition branch_target :: "int \<Rightarrow> nat \<Rightarrow> int option" where
  "branch_target here w =
     (if field w 26 6 \<noteq> 5 then None
      else Some (here + 4 * (let i = int (field w 0 26) in if i < 2 ^ 25 then i else i - 2 ^ 26)))"

lemma marker_prologue:
  "exec_insn K 0xd10143ff c = Some (c\<lparr>sp := sp c - 80\<rparr>)"
  "exec_insn K 0xa90007e0 c = Some (c\<lparr>mem := store (slot (sp c) 0) (word_bytes (reg c 0) @ word_bytes (reg c 1)) (mem c)\<rparr>)"
  "exec_insn K 0xa90123e2 c = Some (c\<lparr>mem := store (slot (sp c) 16) (word_bytes (reg c 2) @ word_bytes (reg c 8)) (mem c)\<rparr>)"
  "exec_insn K 0xa9023bed c = Some (c\<lparr>mem := store (slot (sp c) 32) (word_bytes (reg c 13) @ word_bytes (reg c 14)) (mem c)\<rparr>)"
  "exec_insn K 0xa90343ef c = Some (c\<lparr>mem := store (slot (sp c) 48) (word_bytes (reg c 15) @ word_bytes (reg c 16)) (mem c)\<rparr>)"
  "exec_insn K 0xb90403e8 c = Some (c\<lparr>mem := store (slot (sp c) 1024) (take 4 (word_bytes (reg c 8))) (mem c)\<rparr>)"
  by (simp_all add: exec_insn_def field_def base_of_def set_base_def slot_def read_reg_def)

lemma marker_call:
  "exec_insn K 0x910103e1 c = Some (c\<lparr>reg := (reg c)(1 := slot (sp c) 64)\<rparr>)"
  "exec_insn K 0xd2800040 c = Some (c\<lparr>reg := (reg c)(0 := 2)\<rparr>)"
  "exec_insn K 0xd2800082 c = Some (c\<lparr>reg := (reg c)(2 := 4)\<rparr>)"
  "exec_insn K 0xd2800090 c = Some (c\<lparr>reg := (reg c)(16 := 4)\<rparr>)"
  "reg c 16 = 4 \<Longrightarrow> exec_insn K 0xd4001001 c = Some (c\<lparr>wrote := wrote c @ [(reg c 0, load (reg c 1) (unat (reg c 2)) (mem c))],
     reg := (reg c)(0 := fst (K c), 1 := snd (K c))\<rparr>)"
  by (simp_all add: exec_insn_def field_def base_of_def set_base_def slot_def set_reg_def split: prod.split)

lemma marker_epilogue:
  "exec_insn K 0xa94007e0 c = Some (c\<lparr>reg := (reg c)(0 := bytes_word (load (slot (sp c) 0) 8 (mem c)),
     1 := bytes_word (load (slot (sp c) 8) 8 (mem c)))\<rparr>)"
  "exec_insn K 0xa94123e2 c = Some (c\<lparr>reg := (reg c)(2 := bytes_word (load (slot (sp c) 16) 8 (mem c)),
     8 := bytes_word (load (slot (sp c) 24) 8 (mem c)))\<rparr>)"
  "exec_insn K 0xa9423bed c = Some (c\<lparr>reg := (reg c)(13 := bytes_word (load (slot (sp c) 32) 8 (mem c)),
     14 := bytes_word (load (slot (sp c) 40) 8 (mem c)))\<rparr>)"
  "exec_insn K 0xa94343ef c = Some (c\<lparr>reg := (reg c)(15 := bytes_word (load (slot (sp c) 48) 8 (mem c)),
     16 := bytes_word (load (slot (sp c) 56) 8 (mem c)))\<rparr>)"
  "exec_insn K 0x910143ff c = Some (c\<lparr>sp := sp c + 80\<rparr>)"
  by (simp_all add: exec_insn_def field_def base_of_def set_base_def slot_def set_reg_def Let_def)

lemma or_add:
  assumes "x < 2 ^ k"
  shows "x OR push_bit k y = x + y * (2 ^ k :: nat)"
proof -
  have "x = take_bit k x" using assms by (simp add: take_bit_nat_eq_self)
  then have "bit x i \<Longrightarrow> i < k" for i by (metis bit_take_bit_iff)
  then have "x AND push_bit k y = 0" by (intro bit_eqI) (fastforce simp: bit_simps)
  then have "x + push_bit k y = x OR push_bit k y" by (rule disjunctive_add_eq_or)
  then show ?thesis by (simp add: push_bit_eq_mult)
qed

lemma mark_of_char: "mark_of ch = of_char ch + 2560"
  using or_add [of "of_char ch" 8 "0x0a"] by (simp add: mark_of_def)

lemma movz_word:
  assumes "m < 2 ^ 16"
  shows "0x52800008 OR push_bit 5 (m AND 0xffff) = 0x52800008 + 32 * (m :: nat)"
proof -
  have "m AND 0xffff = take_bit 16 m" by (simp add: take_bit_eq_mask mask_eq_exp_minus_1)
  also have "\<dots> = m" using assms by (simp add: take_bit_nat_eq_self)
  finally have m: "m AND 0xffff = m" .
  have low: "8 OR push_bit 5 m = 8 + m * 2 ^ 5" by (rule or_add) simp
  have "(0x52800008 :: nat) = 8 OR push_bit 22 0x14a" by simp
  then have "0x52800008 OR push_bit 5 m = (8 OR push_bit 5 m) OR push_bit 22 0x14a" by (metis or.assoc or.commute)
  also have "\<dots> = (8 + m * 2 ^ 5) + 0x14a * 2 ^ 22" unfolding low by (rule or_add) (use assms in simp)
  finally show ?thesis unfolding m by simp
qed

lemma exec_movz:
  assumes "m < 2 ^ 16"
  shows "exec_insn sys (0x52800008 + 32 * m) c = Some (c\<lparr>reg := (reg c)(8 := of_nat m)\<rparr>)"
proof -
  let ?w = "0x52800008 + 32 * m"
  have "field ?w 22 10 = 0x14a"
  proof -
    have "?w div 2 ^ 22 = 0x14a" by (intro div_nat_eqI) (use assms in simp_all)
    then show ?thesis by (simp add: field_def)
  qed
  moreover have "field ?w 23 9 = 0xa5"
  proof -
    have "?w div 2 ^ 23 = 0xa5" by (intro div_nat_eqI) (use assms in simp_all)
    then show ?thesis by (simp add: field_def)
  qed
  moreover have "field ?w 21 2 = 0"
  proof -
    have "?w div 2 ^ 21 = 0x294" by (intro div_nat_eqI) (use assms in simp_all)
    then show ?thesis by (simp add: field_def)
  qed
  moreover have "?w = 8 + 32 * (m + 0x2940000)" by simp
  then have "field ?w 0 5 = 8" "field ?w 5 16 = m"
  proof -
    have "?w div 32 = m + 2 ^ 16 * 0x294" by simp
    then have "field ?w 5 16 = (m + 2 ^ 16 * 0x294) mod 2 ^ 16" unfolding field_def by simp
    also have "\<dots> = m mod 2 ^ 16" by (rule mod_mult_self2)
    finally show "field ?w 5 16 = m" using assms by simp
    show "field ?w 0 5 = 8" by (simp add: field_def mod_add_eq)
  qed
  ultimately show ?thesis by (simp add: exec_insn_def set_reg_def)
qed

lemma mark_bytes:
  assumes "n < 256"
  shows "take 4 (word_bytes (of_nat (n + 2560))) = [of_nat n, 10, 0, 0]"
proof -
  have eight: "(8 :: nat) = Suc (Suc (Suc (Suc 4)))" and four: "(4 :: nat) = Suc (Suc (Suc (Suc 0)))" by simp_all
  have le: "take 4 (le_bytes 8 v) = [of_nat v, of_nat (v div 256), of_nat (v div 256 div 256), of_nat (v div 256 div 256 div 256)]" for v
    unfolding eight by (subst four) (simp only: le_bytes.simps take_Suc_Cons take_0)
  have "unat (of_nat (n + 2560) :: 64 word) = n + 2560" unfolding unat_of_nat using assms by simp
  moreover have "(n + 2560) div 256 = 10" using assms by simp
  moreover have "(of_nat (n + 2560) :: byte) = of_nat n" by simp
  ultimately show ?thesis unfolding word_bytes_def enc_def by (simp add: le)
qed

text \<open>The state after the words of a marker that precede the replayed one.\<close>

definition marked :: "char \<Rightarrow> cpu \<Rightarrow> cpu" where
  "marked ch c =
     (let frame = sp c - 80 in
      c\<lparr>mem := store (slot frame 1024) [of_char ch, 10, 0, 0]
           (store (slot frame 0) (concat (map (word_bytes \<circ> reg c) [0, 1, 2, 8, 13, 14, 15, 16])) (mem c)),
        wrote := wrote c @ [(2, load (slot frame 64) 4 (mem c))]\<rparr>)"

lemma saved_registers:
  "store (slot a 48) (word_bytes v15 @ word_bytes v16) (store (slot a 32) (word_bytes v13 @ word_bytes v14)
     (store (slot a 16) (word_bytes v2 @ word_bytes v8) (store (slot a 0) (word_bytes v0 @ word_bytes v1) m))) =
   store (slot a 0) (word_bytes v0 @ word_bytes v1 @ word_bytes v2 @ word_bytes v8 @ word_bytes v13 @ word_bytes v14 @
     word_bytes v15 @ word_bytes v16) m"
  by (simp add: store_append)

lemma load_saved:
  assumes "m' = store (slot a 1024) tail (store (slot a 0) (x0 @ x1 @ x2 @ x3 @ x4 @ x5 @ x6 @ x7) m)"
    and "length tail = 4" and "list_all (\<lambda>x. length x = 8) [x0, x1, x2, x3, x4, x5, x6, x7]"
  shows "map (\<lambda>k. load (slot a k) 8 m') [0, 8, 16, 24, 32, 40, 48, 56] = [x0, x1, x2, x3, x4, x5, x6, x7]"
    and "load (slot a 64) 4 m' = load (slot a 64) 4 m"
  using assms by (simp_all add: store_append load_store_same load_store_other)

lemma char_byte: "(of_nat (of_char ch) :: byte) = of_char ch"
  by (simp add: of_char_of [symmetric] of_nat_of_char)

lemma marker_runs: "exec_insns sys (take 17 (mark_words ch site cave replay)) c = Some (marked ch c)"
proof -
  define a where "a = sp c - 80"
  define tail where "tail = take 4 (word_bytes (of_nat (of_char ch + 2560)))"
  define m where "m = store (slot a 1024) tail (store (slot a 0) (word_bytes (reg c 0) @ word_bytes (reg c (Suc 0)) @
      word_bytes (reg c 2) @ word_bytes (reg c 8) @ word_bytes (reg c 13) @ word_bytes (reg c 14) @
      word_bytes (reg c 15) @ word_bytes (reg c 16)) (mem c))"
  have n: "(of_char ch :: nat) < 256" by simp
  have tail: "tail = [of_char ch, 10, 0, 0]" unfolding tail_def mark_bytes [OF n] char_byte ..
  have sp: "a + 80 = sp c" by (simp add: a_def)
  define W where "W = 0x52800008 OR push_bit 5 (mark_of ch AND 0xffff)"
  have mark: "of_char ch + 2560 < (2 ^ 16 :: nat)" by (rule less_le_trans [OF add_strict_right_mono [OF n]]) simp
  have movz: "exec_insn sys W c' = Some (c'\<lparr>reg := (reg c')(8 := of_nat (of_char ch + 2560))\<rparr>)" for c'
    unfolding W_def mark_of_char movz_word [OF mark] by (rule exec_movz [OF mark])
  have words: "take 17 (mark_words ch site cave replay) = [0xd10143ff, 0xa90007e0, 0xa90123e2, 0xa9023bed, 0xa90343ef, W,
      0xb90403e8, 0x910103e1, 0xd2800040, 0xd2800082, 0xd2800090, 0xd4001001, 0xa94007e0, 0xa94123e2, 0xa9423bed, 0xa94343ef,
      0x910143ff]" unfolding mark_words_def W_def by simp
  have "length tail = 4" by (simp add: tail)
  have again: "load (slot a 0) 8 m = word_bytes (reg c 0)" "load (slot a 8) 8 m = word_bytes (reg c (Suc 0))"
    "load (slot a 16) 8 m = word_bytes (reg c 2)" "load (slot a 24) 8 m = word_bytes (reg c 8)"
    "load (slot a 32) 8 m = word_bytes (reg c 13)" "load (slot a 40) 8 m = word_bytes (reg c 14)"
    "load (slot a 48) 8 m = word_bytes (reg c 15)" "load (slot a 56) 8 m = word_bytes (reg c 16)"
    "load (slot a 64) 4 m = load (slot a 64) 4 (mem c)"
    using load_saved [OF m_def \<open>length tail = 4\<close>] by simp_all
  show ?thesis
    unfolding words marked_def Let_def a_def [symmetric] tail [symmetric]
    by (simp add: marker_prologue marker_call marker_epilogue movz del: of_nat_add)
      (simp add: a_def [symmetric] sp saved_registers tail_def [symmetric] m_def [symmetric] again del: of_nat_add)
qed

subsection \<open>Branches\<close>

lemma branch_word_fields:
  "int (field (branch_word here there) 0 26) = (there - here) div 4 mod 2 ^ 26" "field (branch_word here there) 26 6 = 5"
proof -
  define q where "q = (there - here) div 4 mod 2 ^ 26"
  have q: "0 \<le> q" "q < 2 ^ 26" by (simp_all add: q_def)
  have "(there - here) div 4 AND 0x3ffffff = take_bit 26 ((there - here) div 4)"
    by (simp add: take_bit_eq_mask mask_eq_exp_minus_1)
  also have "\<dots> = q" by (simp add: q_def take_bit_eq_mod)
  finally have m: "(there - here) div 4 AND 0x3ffffff = q" .
  have "0x14000000 OR q = concat_bit 26 q 5"
    using q by (simp add: concat_bit_def take_bit_int_eq_self push_bit_eq_mult or.commute)
  also have "\<dots> = q + 5 * 2 ^ 26" using q by (simp add: concat_bit_eq take_bit_int_eq_self push_bit_eq_mult)
  finally have w: "branch_word here there = nat q + 5 * 2 ^ 26"
    using q(1) unfolding branch_word_def m by (simp add: nat_add_distrib)
  have n: "nat q < 2 ^ 26" using q by (simp add: nat_less_iff)
  have "field (branch_word here there) 0 26 = nat q" unfolding field_def w using n by (simp only: power_0 div_by_1 mod_mult_self3 mod_mult_self1 mod_less)
  then show "int (field (branch_word here there) 0 26) = (there - here) div 4 mod 2 ^ 26" using q(1) by (simp add: q_def)
  have "(nat q + 5 * 2 ^ 26) div 2 ^ 26 = 5" using n by simp
  then show "field (branch_word here there) 26 6 = 5" unfolding field_def w by simp
qed

lemma branch_reaches:
  assumes "(there - here) mod 4 = 0" and "\<bar>there - here\<bar> < 2 ^ 27"
  shows "branch_target here (branch_word here there) = Some there"
proof -
  define q where "q = (there - here) div 4"
  have d: "there = here + 4 * q" using assms(1) unfolding q_def by presburger
  have b: "- (2 ^ 25) < q" "q < 2 ^ 25" using assms(2) unfolding d by auto
  have "(let i = q mod 2 ^ 26 in if i < 2 ^ 25 then i else i - 2 ^ 26) = q"
  proof (cases "0 \<le> q")
    case True
    then have "q mod 2 ^ 26 = q" using b by simp
    with b show ?thesis by simp
  next
    case False
    have "q mod 2 ^ 26 = (q + 2 ^ 26) mod 2 ^ 26" by (rule mod_add_self2 [symmetric])
    also have "\<dots> = q + 2 ^ 26" using False b by (intro mod_pos_pos_trivial) simp_all
    finally have "q mod 2 ^ 26 = q + 2 ^ 26" .
    with False b show ?thesis by simp
  qed
  then show ?thesis unfolding branch_target_def branch_word_fields q_def [symmetric] by (simp add: d)
qed

text \<open>
  C39: What a marker does.  Its entry branches to the cave; the first 17 words of the cave keep every register and the
  stack pointer; then the replaced instruction is run and the last word branches back behind the site.  But the word
  meant to put the mark into the frame, at offset 64, has the offset 1024: the mark overwrites four bytes of the
  interrupted function's stack, 944 bytes above its stack pointer, and the four bytes that are written are whatever the
  memory below the stack pointer held.
\<close>

theorem marker_effect:
  assumes "mkmark ch site cave replay = (entry, body)"
    and "site mod 4 = 0" and "cave mod 4 = 0" and "site < 2 ^ 26" and "cave < 2 ^ 26"
  shows "\<exists>e ws m. entry = le_words [e] \<and> body = le_words ws \<and> length ws = 19 \<and> branch_target (int site) e = Some (int cave) \<and>
    exec_insns sys (take 17 ws) c =
      Some (c\<lparr>mem := store (slot (sp c) 944) [of_char ch, 10, 0, 0] m, wrote := wrote c @ [(2, load (slot (sp c - 80) 64) 4 (mem c))]\<rparr>) \<and>
    m = store (slot (sp c - 80) 0) (concat (map (word_bytes \<circ> reg c) [0, 1, 2, 8, 13, 14, 15, 16])) (mem c) \<and>
    ws ! 17 = replay \<and> branch_target (int cave + 72) (ws ! 18) = Some (int site + 4)"
proof (intro exI conjI)
  show "entry = le_words [branch_word (int site) (int cave)]" "body = le_words (mark_words ch (int site) (int cave) replay)"
    using assms(1) by (simp_all add: mkmark_def)
  have i: "int site mod 4 = 0" "int cave mod 4 = 0" using assms(2,3) by presburger+
  show "branch_target (int site) (branch_word (int site) (int cave)) = Some (int cave)"
  proof (rule branch_reaches)
    show "(int cave - int site) mod 4 = 0" using i by presburger
    show "\<bar>int cave - int site\<bar> < 2 ^ 27" using assms(4,5) by simp
  qed
  have "slot (sp c - 80) 1024 = slot (sp c) 944" by (simp add: slot_def)
  then show "exec_insns sys (take 17 (mark_words ch (int site) (int cave) replay)) c =
      Some (c\<lparr>mem := store (slot (sp c) 944) [of_char ch, 10, 0, 0]
          (store (slot (sp c - 80) 0) (concat (map (word_bytes \<circ> reg c) [0, 1, 2, 8, 13, 14, 15, 16])) (mem c)),
        wrote := wrote c @ [(2, load (slot (sp c - 80) 64) 4 (mem c))]\<rparr>)"
    unfolding marker_runs marked_def Let_def by simp
  have last: "mark_words ch (int site) (int cave) replay ! 18 = branch_word (int cave + 72) (int site + 4)"
    by (simp add: mark_words_def)
  show "branch_target (int cave + 72) (mark_words ch (int site) (int cave) replay ! 18) = Some (int site + 4)"
    unfolding last
  proof (rule branch_reaches)
    show "(int site + 4 - (int cave + 72)) mod 4 = 0" using i by presburger
    show "\<bar>int site + 4 - (int cave + 72)\<bar> < 2 ^ 27" using assms(4,5) by simp
  qed
qed (simp_all add: mark_words_def)

text \<open>The marker \<^verbatim>\<open>mkE\<close> of the table, run on a machine whose memory and registers are zero.\<close>

theorem marker_effect_witness:
  "\<exists>e ws c. mkmark CHR ''E'' 0x3561c 0xb40 0x9b0a250e = (le_words [e], le_words ws) \<and> branch_target 0x3561c e = Some 0xb40 \<and>
     exec_insns (\<lambda>_. (4, 0)) (take 17 ws) \<lparr>reg = (\<lambda>_. 0), sp = 4096, mem = (\<lambda>_. 0), wrote = []\<rparr> = Some c \<and>
     wrote c = [(2, [0, 0, 0, 0])]"
proof -
  obtain entry body where m: "mkmark CHR ''E'' 0x3561c 0xb40 0x9b0a250e = (entry, body)" by (cases "mkmark CHR ''E'' 0x3561c 0xb40 0x9b0a250e")
  have l: "load p 4 (\<lambda>_. 0) = [0, 0, 0, 0]" for p
    by (simp add: load_def upt_rec)
  let ?c = "\<lparr>reg = (\<lambda>_. 0), sp = 4096, mem = (\<lambda>_. 0), wrote = []\<rparr>"
  have p: "(0x3561c :: nat) mod 4 = 0" "(0xb40 :: nat) mod 4 = 0" "(0x3561c :: nat) < 2 ^ 26" "(0xb40 :: nat) < 2 ^ 26"
    by simp_all
  obtain e ws mm where f: "entry = le_words [e]" "body = le_words ws" "branch_target (int 0x3561c) e = Some (int 0xb40)"
    and r: "exec_insns (\<lambda>_. (4, 0)) (take 17 ws) ?c =
      Some (?c\<lparr>mem := store (slot (sp ?c) 944) [of_char CHR ''E'', 10, 0, 0] mm,
        wrote := wrote ?c @ [(2, load (slot (sp ?c - 80) 64) 4 (mem ?c))]\<rparr>)"
    using marker_effect [OF m p, of "\<lambda>_. (4, 0)" ?c] by (elim exE conjE) (rule that)
  show ?thesis
  proof (intro exI conjI)
    show "mkmark CHR ''E'' 0x3561c 0xb40 0x9b0a250e = (le_words [e], le_words ws)" using m f by simp
    show "branch_target 0x3561c e = Some 0xb40" using f(3) by simp
    show "exec_insns (\<lambda>_. (4, 0)) (take 17 ws) ?c = Some (?c\<lparr>mem := store (slot (sp ?c) 944) [of_char CHR ''E'', 10, 0, 0] mm,
        wrote := wrote ?c @ [(2, load (slot (sp ?c - 80) 64) 4 (mem ?c))]\<rparr>)" by (rule r)
  qed (simp add: l)
qed

end
