(* ===== verification/Spec2Isabelle.thy ===== *)
theory Spec2Isabelle
  imports TrustScan MachoDeps AtomicFile LoadCommands AgxSegments MetalLib ManagedJobs LegacyJobs MetalCache VaPort SteamPort Watchdog SystemApp Artifact OfficeSafety Settings DyldBuild DyldMarker
begin

text \<open>
  A model of the Python programs of the repository that prepare, verify and publish the files of a macOS
  user space hosted on an iPad.  Every definition is translated from the file and lines the project map
  names; the theorems state what each program promises.

  Conventions.  \<^verbatim>\<open>Prelude\<close>, \<^verbatim>\<open>Bytes\<close>, \<^verbatim>\<open>Strings\<close>, \<^verbatim>\<open>PyValue\<close> and \<^verbatim>\<open>Runs\<close> hold what the components share: exceptions
  as values of \<open>py_error + 'a\<close>, sequenced by \<open>bindE\<close>, loops that may raise (\<open>foldE\<close>, \<open>mapE\<close>); byte strings
  as lists of 8-bit words with \<open>struct\<close> fields and slices (the locale \<open>field_store\<close> is the interface of a
  field, interpreted for every width); texts as character lists (UTF-8); parsed property lists and JSON as
  \<open>pyval\<close>; runs that can be cut off after any visible state (the locale \<open>kept\<close>).  Unpacked unsigned fields
  are natural numbers, because Python's integers do not wrap; instruction words and checksums keep their
  width.  Interpolated parts of messages are left out.

  Boot trust (\<^verbatim>\<open>layout/usr/macOS/bin/macws_boot_trust.py\<close>).  \<^verbatim>\<open>BootTrust\<close>: reading the code directory hashes of a
  Mach-O file (\<open>code_hashes\<close>, \<open>slice_hash\<close>): the strongest code directory is chosen, its hash is computed in
  chunks, and a slice reads the same wherever it stands.  \<^verbatim>\<open>TrustScan\<close>: the manifest, the index of files
  without signature, the scan and the restoration of missing hashes: a successful admission leaves every
  recorded hash trusted; a scan with the manifest of an earlier one gives what reading every file gives.
  \<^verbatim>\<open>MachoDeps\<close> (\<^verbatim>\<open>macws_macho_dependencies.py\<close>): the dependency closure, bounded by 32 levels and 512 images;
  the list it returns is closed under the dependencies of its images.
  \<^verbatim>\<open>SystemApp\<close> (\<^verbatim>\<open>macws_system_app_prepare.py\<close>) composes the three: the main image is replaced as a
  transaction, and a prepared application's images are all trusted or unsigned.

  Mach-O editors.  \<^verbatim>\<open>FatSlices\<close>: \<^verbatim>\<open>prepare_ventura_windowserver.py\<close>, \<^verbatim>\<open>ensure_objc_trampolines_arm64.py\<close>,
  \<^verbatim>\<open>arm64ify_macho.py\<close>, \<^verbatim>\<open>exec_to_dylib.py\<close>.  \<^verbatim>\<open>LoadCommands\<close>: \<^verbatim>\<open>add_macho_load_dylib.py\<close> and
  \<^verbatim>\<open>add_macho_env_insert.py\<close> (two interpretations of the locale \<open>command_inserter\<close>) and the two
  \<^verbatim>\<open>set_macos_version.py\<close>.  \<^verbatim>\<open>AtomicFile\<close>: the replacement of a file as the list of its visible states.
  The lemmas say which bytes change, that edits are idempotent, and that each use fits into zero padding.

  Instruction patchers.  \<^verbatim>\<open>Immediates\<close>: logical and move-wide immediates on 32-bit words.  \<^verbatim>\<open>VaPort\<close>:
  \<^verbatim>\<open>patch_electron_pa_ios_va.py\<close> and the two Chrome manifests; its passes interpret the locale \<open>site_pass\<close>.
  \<^verbatim>\<open>SteamPort\<close>: \<^verbatim>\<open>patch_steam_cef126_pa_ios_va.py\<close> and its verifier.

  Metal.  \<^verbatim>\<open>MetalLib\<close>: \<^verbatim>\<open>repack_metallib_macabi.py\<close>, the container and its layout; the LLVM tools are a
  parameter.  \<^verbatim>\<open>AgxSegments\<close>: \<^verbatim>\<open>parse_agx_segment_list.py\<close>; a flattened capture refines the fragmented one.
  \<^verbatim>\<open>MetalCache\<close>: \<^verbatim>\<open>macws_metal_cache_migration.py\<close>; its operations return every state visible after a crash.

  \<^verbatim>\<open>RuntimeManifest\<close>: \<^verbatim>\<open>misc/metal2metal_manifest.py\<close> and \<^verbatim>\<open>misc/metal2metal_profiles.py\<close>; a manifest that is built
  verifies for its two libraries and for no others.  \<^verbatim>\<open>Office\<close> and \<^verbatim>\<open>OfficeSafety\<close>:
  \<^verbatim>\<open>misc/ensure_office_metal2metal.py\<close> on a file system that says of every file and directory whether it has been
  synchronised; its runs can be cut off anywhere, and a route never names files that are not on stable storage.  What
  a whole run keeps, though not every state in it, is a \<open>route_relation\<close>: that the names of the routes are on stable
  storage again, and that the route of another source is untouched.

  Settings.  \<^verbatim>\<open>Settings\<close>: \<^verbatim>\<open>layout/usr/macOS/bin/macws_settings_verify.py\<close>, which uses the scan and the restoration of
  \<^verbatim>\<open>TrustScan\<close>; a verified set of panes is complete, intact and trusted.

  Dynamic linker.  \<^verbatim>\<open>DyldPatches\<close> and \<^verbatim>\<open>DyldBuild\<close>: \<^verbatim>\<open>analysis/dyldwork/build_dyld.py\<close>, its table of patches, the guards
  on the keys, the application and the rewriting of authenticated branches.  \<^verbatim>\<open>DyldMarker\<close> executes the instructions
  of a marker on registers and memory; the three theories show three faults of the script.

  Launch jobs.  \<^verbatim>\<open>ManagedJobs\<close>: \<^verbatim>\<open>macws_refresh_managed_job.py\<close>.  \<^verbatim>\<open>LegacyJobs\<close>:
  \<^verbatim>\<open>macws_retire_legacy_boot_jobs.py\<close>, with what other processes do between the steps as an oracle.

  Packages.  \<^verbatim>\<open>Provider\<close>: \<^verbatim>\<open>misc/macws_provider_contract.py\<close>, inspection, acceptance, staging and
  publication; steps are composed by \<open>thenS\<close>, and the collection \<open>framed\<close> carries the frame conditions.
  \<^verbatim>\<open>Artifact\<close>: \<^verbatim>\<open>misc/macws_artifact_contract.py\<close>; the source collection is a \<open>partial_function\<close> whose value
  \<open>None\<close> is a run that does not end, and is proved to return on every finite tree, by the measure
  (files not yet recorded, pending paths).

  Watchdog (\<^verbatim>\<open>DevinWatchdog_mac/devin_iterm_watch.py\<close>).  \<^verbatim>\<open>Watchdog\<close>: the loop over the sessions with its clock;
  what it types, when, and the two ways in which it types too early.

  Bounds and termination.  All loops are structural or have a measure, but for the source collection.  The
  closure counts its levels down from 33, as the code counts them up to 32; the fragment walk of the capture
  decoder consumes at least eight bytes in each turn; no other fuel is used.

  Environment.  SHA-256, \<open>ldid\<close>, \<open>jbctl\<close>, \<open>lipo\<close>, the LLVM tools, \<open>otool\<close>, \<open>nm\<close>, \<open>dpkg-deb\<close>, the property list
  and JSON parsers, \<open>realpath\<close> and \<open>stat\<close> are parameters.  Hypotheses about them are named in the theorems
  that use them: hashes of the length of their algorithm, a temporary name that is free, a trust cache that
  adding does not shrink, files other processes leave alone, a property list that reads back as it was written.
  The semantics of the AArch64 instructions in \<^verbatim>\<open>DyldMarker\<close> is that of the architecture; the registers a system
  call returns in are a parameter.

  Not modelled.  Argument parsing, printing and descriptors; file modes and \<open>fsync\<close> outside \<^verbatim>\<open>Office\<close>; the waiting
  for locks and the signals sent to child processes; the performance harness \<^verbatim>\<open>misc/stray_perf_loop.py\<close> and the
  other profilers, VNC drivers and debugger scripts, which drive external tools and compute floating-point
  statistics; the readers of the dyld shared cache and the other diagnostic tools used by hand; three scripts that
  rewrite a single property list or requirement (\<^verbatim>\<open>prepare_weather_app.py\<close>, \<^verbatim>\<open>merge_third_party_entitlements.py\<close>,
  \<^verbatim>\<open>write_code_requirement.py\<close>); the Objective-C and C host and hook libraries; shell scripts.
\<close>

end
